(* ===== verification/Js_Prelude.thy ===== *)
theory Js_Prelude
  imports Complex_Main "HOL-Library.Code_Target_Nat"
begin

section \<open>Prelude: results, JavaScript strings, shared lemmas\<close>

text \<open>
  What every other theory of the development uses: the collections of rewrite rules, the
  error-or-value computations that stand for code that may throw, and JavaScript strings.

  A JavaScript string is the list of its UTF-16 code units, a code unit is a natural number
  (below 65536; no operation modelled here depends on the bound). \<open>js\<close> turns an Isabelle
  literal into such a string, so that \<^term>\<open>js ''tier''\<close> is the source's \<open>'tier'\<close>.
\<close>

named_theorems js_eval \<open>equations that evaluate the models on closed terms\<close>
named_theorems span_simps \<open>facts about source spans\<close>

subsection \<open>Computations that may throw\<close>

text \<open>\<open>Inl\<close> is the thrown error, \<open>Inr\<close> the returned value.\<close>

definition rbind :: "'e + 'a \<Rightarrow> ('a \<Rightarrow> 'e + 'b) \<Rightarrow> 'e + 'b" where
  [code_unfold]: "rbind m f = (case m of Inl e \<Rightarrow> Inl e | Inr x \<Rightarrow> f x)"

definition guard_throw :: "bool \<Rightarrow> 'e \<Rightarrow> 'e + 'a \<Rightarrow> 'e + 'a" where
  [code_unfold]: "guard_throw bad e m = (if bad then Inl e else m)"

fun rfold :: "('a \<Rightarrow> 's \<Rightarrow> 'e + 's) \<Rightarrow> 'a list \<Rightarrow> 's \<Rightarrow> 'e + 's" where
  "rfold f [] s = Inr s"
| "rfold f (x # xs) s = rbind (f x s) (rfold f xs)"

lemma rbind_Inl [simp, js_eval]: "rbind (Inl e) f = Inl e"
  by (simp add: rbind_def)

lemma rbind_Inr [simp, js_eval]: "rbind (Inr x) f = f x"
  by (simp add: rbind_def)

lemma rbind_cong [fundef_cong]:
  assumes "m = m'" and "\<And>x. m' = Inr x \<Longrightarrow> f x = g x"
  shows "rbind m f = rbind m' g"
  using assms by (cases m') auto

lemma rbind_weak_cong: "m = m' \<Longrightarrow> rbind m f = rbind m' f"
  by simp

lemma rbind_eq_Inr: "rbind m f = Inr y \<longleftrightarrow> (\<exists>x. m = Inr x \<and> f x = Inr y)"
  by (cases m) auto

lemma rbind_eq_Inl: "rbind m f = Inl e \<longleftrightarrow> m = Inl e \<or> (\<exists>x. m = Inr x \<and> f x = Inl e)"
  by (cases m) auto

lemma rbind_assoc: "rbind (rbind m f) g = rbind m (\<lambda>x. rbind (f x) g)"
  by (cases m) auto

lemma guard_throw_eq_Inr [simp]: "guard_throw b e m = Inr y \<longleftrightarrow> \<not> b \<and> m = Inr y"
  by (simp add: guard_throw_def)

lemma guard_throw_eq_Inl: "guard_throw b e m = Inl e' \<longleftrightarrow> (if b then e' = e else m = Inl e')"
  by (auto simp: guard_throw_def)

lemma guard_throw_cong [fundef_cong]:
  assumes "b = b'" and "e = e'" and "\<not> b' \<Longrightarrow> m = m'"
  shows "guard_throw b e m = guard_throw b' e' m'"
  using assms by (simp add: guard_throw_def)

lemma guard_throw_simps [simp, js_eval]:
  "guard_throw True e m = Inl e" "guard_throw False e m = m"
  by (simp_all add: guard_throw_def)

lemma rbindE:
  assumes "rbind m f = Inr y"
  obtains x where "m = Inr x" and "f x = Inr y"
  using assms by (auto simp: rbind_eq_Inr)

lemma rfold_append: "rfold f (xs @ ys) s = rbind (rfold f xs s) (rfold f ys)"
  by (induction xs arbitrary: s) (auto simp: rbind_assoc cong: rbind_cong)

text \<open>A state invariant kept by every step is kept by the whole fold.\<close>

lemma rfold_invariant:
  assumes "rfold f xs s = Inr t" and "P s"
    and "\<And>x s t. x \<in> set xs \<Longrightarrow> P s \<Longrightarrow> f x s = Inr t \<Longrightarrow> P t"
  shows "P t"
  using assms by (induction xs arbitrary: s) (auto simp: rbind_eq_Inr)

subsection \<open>JavaScript strings\<close>

type_synonym jsstring = "nat list"

definition js :: "string \<Rightarrow> jsstring" where
  "js s = map of_char s"

lemma js_Nil [simp, js_eval]: "js [] = []"
  by (simp add: js_def)

lemma js_Cons [simp, js_eval]: "js (c # s) = of_char c # js s"
  by (simp add: js_def)

lemma length_js [simp]: "length (js s) = length s"
  by (simp add: js_def)

text \<open>
  \<open>\s\<close> of a JavaScript regular expression, which is also what \<open>trim\<close> removes:
  the WhiteSpace and LineTerminator code points.
\<close>

definition is_space :: "nat \<Rightarrow> bool" where
  "is_space u \<longleftrightarrow> 9 \<le> u \<and> u \<le> 13 \<or> u = 32 \<or> u = 160 \<or> u = 5760 \<or> 8192 \<le> u \<and> u \<le> 8202
     \<or> u = 8232 \<or> u = 8233 \<or> u = 8239 \<or> u = 8287 \<or> u = 12288 \<or> u = 65279"

definition is_digit :: "nat \<Rightarrow> bool" where
  "is_digit u \<longleftrightarrow> 48 \<le> u \<and> u \<le> 57"

definition is_alpha_us :: "nat \<Rightarrow> bool" where
  "is_alpha_us u \<longleftrightarrow> 65 \<le> u \<and> u \<le> 90 \<or> 97 \<le> u \<and> u \<le> 122 \<or> u = 95"

definition is_word :: "nat \<Rightarrow> bool" where
  "is_word u \<longleftrightarrow> is_alpha_us u \<or> is_digit u"

definition is_hex :: "nat \<Rightarrow> bool" where
  "is_hex u \<longleftrightarrow> is_digit u \<or> 65 \<le> u \<and> u \<le> 70 \<or> 97 \<le> u \<and> u \<le> 102"

definition hex_value :: "nat \<Rightarrow> nat" where
  "hex_value u = (if u \<le> 57 then u - 48 else if u \<le> 70 then u - 55 else u - 87)"

definition js_trim :: "jsstring \<Rightarrow> jsstring" where
  "js_trim s = rev (dropWhile is_space (rev (dropWhile is_space s)))"

definition js_slice :: "jsstring \<Rightarrow> nat \<Rightarrow> nat \<Rightarrow> jsstring" where
  "js_slice s a b = take (b - a) (drop a s)"

definition js_starts_with :: "jsstring \<Rightarrow> jsstring \<Rightarrow> bool" where
  "js_starts_with p s \<longleftrightarrow> take (length p) s = p"

definition js_ends_with :: "jsstring \<Rightarrow> jsstring \<Rightarrow> bool" where
  "js_ends_with p s \<longleftrightarrow> js_starts_with (rev p) (rev s)"

fun js_includes :: "jsstring \<Rightarrow> jsstring \<Rightarrow> bool" where
  "js_includes p [] = (p = [])"
| "js_includes p (c # s) = (js_starts_with p (c # s) \<or> js_includes p s)"

fun js_join :: "jsstring \<Rightarrow> jsstring list \<Rightarrow> jsstring" where
  "js_join sep [] = []"
| "js_join sep [x] = x"
| "js_join sep (x # y # ys) = x @ sep @ js_join sep (y # ys)"

text \<open>\<open>split\<close> at a one-character separator.\<close>

fun js_split :: "nat \<Rightarrow> jsstring \<Rightarrow> jsstring list" where
  "js_split sep [] = [[]]"
| "js_split sep (c # s) =
     (if c = sep then [] # js_split sep s
      else (case js_split sep s of [] \<Rightarrow> [[c]] | w # ws \<Rightarrow> (c # w) # ws))"

text \<open>\<open>[...new Set(xs)]\<close>: the first occurrence of every element, in order.\<close>

definition js_unique :: "'a list \<Rightarrow> 'a list" where
  "js_unique xs = rev (remdups (rev xs))"

text \<open>\<open>filter(Boolean)\<close> on strings.\<close>

abbreviation nonempty_texts :: "jsstring list \<Rightarrow> jsstring list" where
  "nonempty_texts xs \<equiv> filter (\<lambda>s. s \<noteq> []) xs"

text \<open>\<open>toLowerCase\<close> on the ASCII letters; other code units are left as they are.\<close>

definition lower_unit :: "nat \<Rightarrow> nat" where
  "lower_unit u = (if 65 \<le> u \<and> u \<le> 90 then u + 32 else u)"

definition js_lower :: "jsstring \<Rightarrow> jsstring" where
  "js_lower s = map lower_unit s"

text \<open>Relational operators on strings compare code units from the left.\<close>

fun js_str_less :: "jsstring \<Rightarrow> jsstring \<Rightarrow> bool" where
  "js_str_less s [] = False"
| "js_str_less [] (c # t) = True"
| "js_str_less (b # s) (c # t) = (b < c \<or> b = c \<and> js_str_less s t)"

subsection \<open>Facts about strings\<close>

lemma js_unique_simps [simp]: "set (js_unique xs) = set xs" "distinct (js_unique xs)" "js_unique [] = []"
  by (simp_all add: js_unique_def)

lemma js_unique_snoc: "js_unique (xs @ [x]) = (if x \<in> set xs then js_unique xs else js_unique xs @ [x])"
  by (simp add: js_unique_def)

lemma js_unique_id: "distinct xs \<Longrightarrow> js_unique xs = xs"
  by (simp add: js_unique_def distinct_remdups_id)

lemma set_dropWhile_rev_subset: "set (rev (dropWhile P (rev xs))) \<subseteq> set xs"
  by (auto dest: set_dropWhileD)

lemma set_js_trim: "set (js_trim s) \<subseteq> set s"
  unfolding js_trim_def using set_dropWhile_rev_subset set_dropWhileD by (metis subset_code(1))

lemma length_js_trim_le: "length (js_trim s) \<le> length s"
  unfolding js_trim_def by (metis le_trans length_dropWhile_le length_rev)

lemma js_trim_idem [simp]: "js_trim (js_trim s) = js_trim s"
proof (cases "dropWhile is_space s")
  case Nil
  then show ?thesis by (simp only: js_trim_def) simp
next
  case (Cons c cs)
  then have c: "\<not> is_space c" by (meson dropWhile_eq_Cons_conv)
  obtain zs where zs: "dropWhile is_space (rev (c # cs)) = zs @ [c]"
    using c by (cases "\<forall>x\<in>set cs. is_space x") (auto simp: dropWhile_append)
  have "dropWhile is_space (dropWhile is_space (rev (c # cs))) = dropWhile is_space (rev (c # cs))"
    using dropWhile_eq_self_iff hd_dropWhile by blast
  with Cons c zs show ?thesis by (simp add: js_trim_def)
qed

lemma js_trim_no_space: "(\<forall>c \<in> set s. \<not> is_space c) \<Longrightarrow> js_trim s = s"
proof -
  assume a: "\<forall>c \<in> set s. \<not> is_space c"
  have "dropWhile is_space t = t" if "set t = set s" for t
    using a that dropWhile_eq_self_iff [of is_space t] hd_in_set [of t] by blast
  from this [of s] this [of "rev s"] show ?thesis by (simp add: js_trim_def)
qed

lemma set_js_join: "set (js_join sep ws) \<subseteq> set sep \<union> \<Union> (set ` set ws)"
  by (induction sep ws rule: js_join.induct) auto

lemma js_starts_with_append [simp]: "js_starts_with p (p @ s)"
  by (simp add: js_starts_with_def)

lemma js_starts_with_iff: "js_starts_with p s \<longleftrightarrow> (\<exists>t. s = p @ t)"
  by (metis append_take_drop_id append_eq_conv_conj js_starts_with_def)

lemma js_includes_Nil [simp]: "js_includes [] s"
  by (cases s) (auto simp: js_starts_with_def)

lemma js_includes_iff: "js_includes p s \<longleftrightarrow> (\<exists>a b. s = a @ p @ b)"
proof (induction s)
  case Nil
  then show ?case by auto
next
  case (Cons c s)
  show ?case
  proof
    assume "js_includes p (c # s)"
    then consider b where "c # s = p @ b" | a b where "s = a @ p @ b"
      using Cons.IH by (auto simp: js_starts_with_iff)
    then show "\<exists>a b. c # s = a @ p @ b" by (metis append_Cons append_Nil)
  next
    have Cons_IH: "js_includes p s \<longleftrightarrow> (\<exists>a b. s = a @ p @ b)" by (rule Cons.IH)
    assume "\<exists>a b. c # s = a @ p @ b"
    then obtain a b where ab: "c # s = a @ p @ b" by blast
    then show "js_includes p (c # s)"
    proof (cases a)
      case Nil
      with ab have "js_starts_with p (c # s)" by (auto simp: js_starts_with_iff)
      then show ?thesis by simp
    next
      case (Cons d ds)
      with ab have "s = ds @ p @ b" by simp
      then show ?thesis using Cons_IH by auto
    qed
  qed
qed

lemma js_split_not_Nil [simp]: "js_split sep s \<noteq> []"
  by (cases s) (auto split: list.splits)

text \<open>Splitting at a separator and joining with it gives the string back.\<close>

lemma js_join_split: "js_join [sep] (js_split sep s) = s"
proof (induction s)
  case Nil
  then show ?case by simp
next
  case (Cons c s)
  obtain w ws where w: "js_split sep s = w # ws" by (meson js_split_not_Nil neq_Nil_conv)
  with Cons.IH show ?case by (cases ws) auto
qed

lemma js_split_no_sep: "w \<in> set (js_split sep s) \<Longrightarrow> sep \<notin> set w"
proof (induction s arbitrary: w)
  case Nil
  then show ?case by simp
next
  case (Cons c s)
  then show ?case by (auto split: if_splits list.splits)
qed

lemma js_split_append_sep:
  "sep \<notin> set w \<Longrightarrow> js_split sep (w @ sep # s) = w # js_split sep s"
  by (induction w) auto

lemma js_split_single: "sep \<notin> set w \<Longrightarrow> js_split sep w = [w]"
  by (induction w) auto

lemma js_split_join:
  "ws \<noteq> [] \<Longrightarrow> (\<forall>w \<in> set ws. sep \<notin> set w) \<Longrightarrow> js_split sep (js_join [sep] ws) = ws"
proof (induction "[sep]" ws rule: js_join.induct)
  case (3 x y ys)
  then show ?case by (simp add: js_split_append_sep)
qed (auto simp: js_split_single)

lemma js_str_less_irrefl [simp]: "\<not> js_str_less s s"
  by (induction s) auto

lemma js_str_less_linear: "js_str_less s t \<or> s = t \<or> js_str_less t s"
proof (induction s t rule: js_str_less.induct)
  case (1 s)
  then show ?case by (cases s) auto
qed auto

lemma js_slice_full [simp]: "js_slice s 0 (length s) = s"
  by (simp add: js_slice_def)

lemma js_slice_append:
  "a \<le> b \<Longrightarrow> b \<le> c \<Longrightarrow> js_slice s a b @ js_slice s b c = js_slice s a c"
proof -
  assume ab: "a \<le> b" and bc: "b \<le> c"
  have "take (c - a) (drop a s) = take (b - a) (drop a s) @ take (c - b) (drop (b - a) (drop a s))"
    using take_add [of "b - a" "c - b" "drop a s"] ab bc by simp
  then show ?thesis using ab by (simp add: js_slice_def)
qed

end
