(* ===== verification/Js_Number.thy ===== *)
theory Js_Number
  imports Js_Prelude "HOL-Library.Log_Nat"
begin

section \<open>JavaScript numbers: IEEE 754 double precision\<close>

text \<open>
  A JavaScript number is a double: NaN, an infinity, the negative zero, or a finite value.
  Finite values other than the negative zero are kept as the rational they denote, so that an
  operation is the exact rational operation followed by \<open>round64\<close>, the
  round-to-nearest-ties-to-even of the standard with its 53-bit significand, gradual underflow
  and overflow to an infinity. \<open>is_double\<close> says that a value is one a double can hold; every
  operation below returns such a value.
\<close>

datatype jsnum = JNaN | JInf bool | JNegZero | JFin rat

subsection \<open>Rounding\<close>

definition pow2 :: "int \<Rightarrow> rat" where
  "pow2 k = (if 0 \<le> k then 2 ^ nat k else 1 / 2 ^ nat (- k))"

text \<open>The binary exponent of a positive rational: \<open>pow2 (ilog2 q) \<le> q < pow2 (ilog2 q + 1)\<close>.\<close>

definition ilog2_from :: "rat \<Rightarrow> int \<Rightarrow> int" where
  "ilog2_from q e = (if pow2 e \<le> q then e else e - 1)"

definition ilog2 :: "rat \<Rightarrow> int" where
  "ilog2 q = ilog2_from q (bitlen (fst (quotient_of q)) - bitlen (snd (quotient_of q)))"

definition nearest_even :: "int \<Rightarrow> rat \<Rightarrow> int" where
  "nearest_even f d =
     (if d < 1 / 2 then f else if 1 / 2 < d then f + 1 else if even f then f else f + 1)"

definition round_half_even :: "rat \<Rightarrow> int" where
  "round_half_even q = nearest_even \<lfloor>q\<rfloor> (q - of_int \<lfloor>q\<rfloor>)"

text \<open>The exponent of the unit in the last place; \<open>- 1074\<close> is that of the subnormal numbers.\<close>

definition ulp_exp :: "rat \<Rightarrow> int" where
  "ulp_exp q = max (ilog2 q - 52) (- 1074)"

definition js_zero :: "bool \<Rightarrow> jsnum" where
  "js_zero neg = (if neg then JNegZero else JFin 0)"

text \<open>\<open>m * 2 ^ k\<close> overflows when it is at least \<open>2 ^ 1024\<close>, here in terms of \<open>m \<le> 2 ^ 53\<close>.\<close>

definition pack :: "bool \<Rightarrow> int \<Rightarrow> int \<Rightarrow> jsnum" where
  "pack neg m k =
     (if 971 < k \<or> k = 971 \<and> 9007199254740992 \<le> m then JInf neg
      else if m = 0 then js_zero neg
      else JFin (if neg then - (of_int m * pow2 k) else of_int m * pow2 k))"

definition round_at :: "bool \<Rightarrow> rat \<Rightarrow> int \<Rightarrow> jsnum" where
  "round_at neg q k = pack neg (round_half_even (q / pow2 k)) k"

definition round64 :: "rat \<Rightarrow> jsnum" where
  "round64 q = (if q = 0 then JFin 0 else round_at (q < 0) \<bar>q\<bar> (ulp_exp \<bar>q\<bar>))"

subsection \<open>Predicates and operations\<close>

fun js_is_finite :: "jsnum \<Rightarrow> bool" where
  "js_is_finite JNaN = False"
| "js_is_finite (JInf _) = False"
| "js_is_finite _ = True"

fun js_sign :: "jsnum \<Rightarrow> bool" where
  "js_sign (JInf neg) = neg"
| "js_sign JNegZero = True"
| "js_sign (JFin q) = (q < 0)"
| "js_sign JNaN = False"

fun js_val :: "jsnum \<Rightarrow> rat" where
  "js_val (JFin q) = q"
| "js_val _ = 0"

fun is_double :: "jsnum \<Rightarrow> bool" where
  "is_double (JFin q) = (round64 q = JFin q)"
| "is_double _ = True"

fun js_uminus :: "jsnum \<Rightarrow> jsnum" where
  "js_uminus JNaN = JNaN"
| "js_uminus (JInf neg) = JInf (\<not> neg)"
| "js_uminus JNegZero = JFin 0"
| "js_uminus (JFin q) = (if q = 0 then JNegZero else JFin (- q))"

fun js_add :: "jsnum \<Rightarrow> jsnum \<Rightarrow> jsnum" where
  "js_add JNaN _ = JNaN"
| "js_add _ JNaN = JNaN"
| "js_add (JInf a) (JInf b) = (if a = b then JInf a else JNaN)"
| "js_add (JInf a) _ = JInf a"
| "js_add _ (JInf b) = JInf b"
| "js_add JNegZero JNegZero = JNegZero"
| "js_add x y = round64 (js_val x + js_val y)"

definition js_sub :: "jsnum \<Rightarrow> jsnum \<Rightarrow> jsnum" where
  "js_sub x y = js_add x (js_uminus y)"

fun js_mul :: "jsnum \<Rightarrow> jsnum \<Rightarrow> jsnum" where
  "js_mul JNaN _ = JNaN"
| "js_mul _ JNaN = JNaN"
| "js_mul (JInf a) (JInf b) = JInf (a \<noteq> b)"
| "js_mul (JInf a) y = (if js_val y = 0 then JNaN else JInf (a \<noteq> js_sign y))"
| "js_mul x (JInf b) = (if js_val x = 0 then JNaN else JInf (js_sign x \<noteq> b))"
| "js_mul x y =
     (if js_val x * js_val y = 0 then js_zero (js_sign x \<noteq> js_sign y)
      else round64 (js_val x * js_val y))"

fun js_div :: "jsnum \<Rightarrow> jsnum \<Rightarrow> jsnum" where
  "js_div JNaN _ = JNaN"
| "js_div _ JNaN = JNaN"
| "js_div (JInf a) (JInf b) = JNaN"
| "js_div (JInf a) y = JInf (a \<noteq> js_sign y)"
| "js_div x (JInf b) = js_zero (js_sign x \<noteq> b)"
| "js_div x y =
     (if js_val y = 0 then (if js_val x = 0 then JNaN else JInf (js_sign x \<noteq> js_sign y))
      else if js_val x = 0 then js_zero (js_sign x \<noteq> js_sign y)
      else round64 (js_val x / js_val y))"

text \<open>The remainder \<open>%\<close> truncates towards zero and takes the sign of the dividend.\<close>

definition rat_trunc :: "rat \<Rightarrow> int" where
  "rat_trunc q = (if q < 0 then \<lceil>q\<rceil> else \<lfloor>q\<rfloor>)"

definition rat_rem :: "rat \<Rightarrow> rat \<Rightarrow> rat" where
  "rat_rem a b = a - b * of_int (rat_trunc (a / b))"

fun js_mod :: "jsnum \<Rightarrow> jsnum \<Rightarrow> jsnum" where
  "js_mod JNaN _ = JNaN"
| "js_mod _ JNaN = JNaN"
| "js_mod (JInf _) _ = JNaN"
| "js_mod x (JInf _) = x"
| "js_mod x y =
     (if js_val y = 0 then JNaN
      else if rat_rem (js_val x) (js_val y) = 0 then js_zero (js_sign x)
      else round64 (rat_rem (js_val x) (js_val y)))"

fun js_lt :: "jsnum \<Rightarrow> jsnum \<Rightarrow> bool" where
  "js_lt JNaN _ = False"
| "js_lt _ JNaN = False"
| "js_lt (JInf a) (JInf b) = (a \<and> \<not> b)"
| "js_lt (JInf a) _ = a"
| "js_lt _ (JInf b) = (\<not> b)"
| "js_lt x y = (js_val x < js_val y)"

fun js_le :: "jsnum \<Rightarrow> jsnum \<Rightarrow> bool" where
  "js_le JNaN _ = False"
| "js_le _ JNaN = False"
| "js_le (JInf a) (JInf b) = (a \<or> \<not> b)"
| "js_le (JInf a) _ = a"
| "js_le _ (JInf b) = (\<not> b)"
| "js_le x y = (js_val x \<le> js_val y)"

text \<open>\<open>===\<close>: NaN differs from everything, the two zeros are equal.\<close>

definition js_num_eq :: "jsnum \<Rightarrow> jsnum \<Rightarrow> bool" where
  "js_num_eq x y \<longleftrightarrow> js_le x y \<and> js_le y x"

fun js_floor :: "jsnum \<Rightarrow> jsnum" where
  "js_floor (JFin q) = JFin (of_int \<lfloor>q\<rfloor>)"
| "js_floor x = x"

fun js_ceil :: "jsnum \<Rightarrow> jsnum" where
  "js_ceil (JFin q) = (if q < 0 \<and> - 1 < q then JNegZero else JFin (of_int \<lceil>q\<rceil>))"
| "js_ceil x = x"

fun js_abs :: "jsnum \<Rightarrow> jsnum" where
  "js_abs JNaN = JNaN"
| "js_abs (JInf _) = JInf False"
| "js_abs JNegZero = JFin 0"
| "js_abs (JFin q) = JFin \<bar>q\<bar>"

text \<open>\<open>Math.min\<close> and \<open>Math.max\<close> return NaN when an argument is NaN and order the zeros.\<close>

definition js_min :: "jsnum \<Rightarrow> jsnum \<Rightarrow> jsnum" where
  "js_min x y =
     (if x = JNaN \<or> y = JNaN then JNaN
      else if js_lt x y then x else if js_lt y x then y
      else if x = JNegZero then x else y)"

definition js_max :: "jsnum \<Rightarrow> jsnum \<Rightarrow> jsnum" where
  "js_max x y =
     (if x = JNaN \<or> y = JNaN then JNaN
      else if js_lt x y then y else if js_lt y x then x
      else if x = JNegZero then y else x)"

definition js_is_integer :: "jsnum \<Rightarrow> bool" where
  "js_is_integer x \<longleftrightarrow> js_is_finite x \<and> of_int \<lfloor>js_val x\<rfloor> = js_val x"

definition js_is_safe_integer :: "jsnum \<Rightarrow> bool" where
  "js_is_safe_integer x \<longleftrightarrow> js_is_integer x \<and> \<bar>js_val x\<bar> \<le> 9007199254740991"

definition js_of_nat :: "nat \<Rightarrow> jsnum" where
  "js_of_nat n = round64 (of_nat n)"

subsection \<open>Powers of two and binary exponents\<close>

lemma pow2_powi: "pow2 k = 2 powi k"
  by (simp add: pow2_def power_int_def inverse_eq_divide power_one_over)

lemma pow2_pos [simp]: "0 < pow2 k"
  by (simp add: pow2_powi)

lemma pow2_nonneg [simp]: "0 \<le> pow2 k"
  by (simp add: pow2_powi)

lemma pow2_neq_0 [simp]: "pow2 k \<noteq> 0"
  by (simp add: pow2_powi)

lemma pow2_add: "pow2 (i + j) = pow2 i * pow2 j"
  by (simp add: pow2_powi power_int_add)

lemma pow2_diff: "pow2 (i - j) = pow2 i / pow2 j"
  by (simp add: pow2_powi power_int_diff)

lemma strict_mono_pow2: "strict_mono pow2"
  by (simp add: strict_mono_def pow2_powi power_int_strict_increasing)

lemma pow2_le_iff: "pow2 i \<le> pow2 j \<longleftrightarrow> i \<le> j"
  by (rule strict_mono_less_eq [OF strict_mono_pow2])

lemma pow2_less_iff: "pow2 i < pow2 j \<longleftrightarrow> i < j"
  by (rule strict_mono_less [OF strict_mono_pow2])

lemma pow2_nat: "0 \<le> k \<Longrightarrow> pow2 k = of_int (2 ^ nat k)"
  by (simp add: pow2_def)

lemma bitlen_bounds_rat:
  assumes "0 < a"
  shows "pow2 (bitlen a - 1) \<le> of_int a" and "of_int a < pow2 (bitlen a)"
proof -
  have "1 \<le> bitlen a" using assms by (simp add: bitlen_eq_zero_iff bitlen_nonneg order.strict_iff_order)
      (metis bitlen_eq_zero_iff bitlen_nonneg int_one_le_iff_zero_less order.strict_iff_order not_less)
  moreover have "2 ^ nat (bitlen a - 1) \<le> a" "a < 2 ^ nat (bitlen a)"
    using bitlen_bounds [OF assms] by auto
  ultimately show "pow2 (bitlen a - 1) \<le> of_int a" and "of_int a < pow2 (bitlen a)"
    unfolding pow2_nat [of "bitlen a"] by (auto simp: pow2_nat bitlen_nonneg)
qed

lemma ilog2_bounds:
  assumes "0 < q"
  shows "pow2 (ilog2 q) \<le> q" and "q < pow2 (ilog2 q + 1)"
proof -
  obtain a b where ab: "quotient_of q = (a, b)" by fastforce
  have b: "0 < b" using ab quotient_of_denom_pos by blast
  have q: "q = of_int a / of_int b" using ab quotient_of_div by blast
  have a: "0 < a" using assms q b by (simp add: zero_less_divide_iff)
  define e where "e = bitlen a - bitlen b"
  have up: "q < pow2 (e + 1)"
  proof -
    have "of_int a < pow2 (e + 1) * pow2 (bitlen b - 1)"
      using bitlen_bounds_rat(2) [OF a] by (simp add: e_def flip: pow2_add)
    also have "\<dots> \<le> pow2 (e + 1) * of_int b"
      using bitlen_bounds_rat(1) [OF b] by (intro mult_left_mono) auto
    finally show ?thesis using b by (simp add: q pos_divide_less_eq)
  qed
  have lo: "pow2 (e - 1) \<le> q"
  proof -
    have "pow2 (e - 1) * of_int b \<le> pow2 (e - 1) * pow2 (bitlen b)"
      using bitlen_bounds_rat(2) [OF b] by (intro mult_left_mono) auto
    also have "\<dots> = pow2 (bitlen a - 1)"
      by (simp add: e_def flip: pow2_add)
    also have "\<dots> \<le> of_int a"
      by (rule bitlen_bounds_rat(1) [OF a])
    finally show ?thesis using b by (simp add: q pos_le_divide_eq)
  qed
  have "ilog2 q = (if pow2 e \<le> q then e else e - 1)"
    by (simp add: ilog2_def ilog2_from_def ab e_def)
  with up lo show "pow2 (ilog2 q) \<le> q" and "q < pow2 (ilog2 q + 1)" by auto
qed

lemma ilog2_le: "0 < q \<Longrightarrow> q < pow2 (e + 1) \<Longrightarrow> ilog2 q \<le> e"
  using ilog2_bounds(1) [of q] by (metis less_le_not_le linorder_not_less order_le_less_trans
      pow2_less_iff zle_add1_eq_le)

subsection \<open>Values that a double holds exactly\<close>

lemma round_half_even_int [simp]: "round_half_even (of_int m) = m"
  by (simp add: round_half_even_def nearest_even_def)

lemma round64_0 [simp, js_eval]: "round64 0 = JFin 0"
  by (simp add: round64_def)

lemma pow2_numerals: "pow2 53 = 9007199254740992" "pow2 0 = 1"
  by (simp_all add: pow2_def)

text \<open>
  A product of an integer below \<open>2 ^ 53\<close> and a power of two in the range of exponents is
  represented exactly.
\<close>

lemma round64_exact_pos:
  assumes q: "q = of_int m * pow2 k" and m: "0 < m" "m < 9007199254740992"
    and k: "- 1074 \<le> k" "q < pow2 1024"
  shows "round64 q = JFin q" and "round64 (- q) = JFin (- q)"
proof -
  have q0: "0 < q" using q m by simp
  define u where "u = ulp_exp q"
  have "q < pow2 53 * pow2 k"
    using m by (simp add: q pow2_numerals)
  then have "ilog2 q \<le> 52 + k"
    using q0 by (intro ilog2_le) (simp_all add: pow2_add [symmetric] algebra_simps)
  with k have uk: "u \<le> k" by (simp add: u_def ulp_exp_def)
  define m' where "m' = m * 2 ^ nat (k - u)"
  have m'0: "0 < m'" using m by (simp add: m'_def)
  have qu: "q / pow2 u = of_int m'"
    using uk by (simp add: q m'_def pow2_nat flip: pow2_diff times_divide_eq_right)
  have "ilog2 q \<le> 1023" using q0 k by (intro ilog2_le) simp_all
  then have u971: "u \<le> 971" by (simp add: u_def ulp_exp_def)
  have "of_int m' < pow2 (1024 - u)"
    using k(2) by (simp add: pow2_diff divide_strict_right_mono flip: qu)
  then have ov: "\<not> (971 < u \<or> u = 971 \<and> 9007199254740992 \<le> m')"
    using u971 by (auto simp: pow2_numerals)
  have val: "of_int m' * pow2 u = q"
    by (simp flip: qu)
  have "round_at neg q u = JFin (if neg then - q else q)" for neg
    using ov m'0 by (auto simp: round_at_def qu pack_def val)
  then show "round64 q = JFin q" and "round64 (- q) = JFin (- q)"
    using q0 by (simp_all add: round64_def u_def)
qed

lemma round64_exact:
  assumes q: "q = of_int m * pow2 k" and m: "\<bar>m\<bar> < 9007199254740992"
    and k: "- 1074 \<le> k" "\<bar>q\<bar> < pow2 1024"
  shows "round64 q = JFin q"
proof -
  consider "m = 0" | "0 < m" | "m < 0" by linarith
  then show ?thesis
  proof cases
    case 1
    then show ?thesis using q by simp
  next
    case 2
    then have "0 < q" using q by simp
    then show ?thesis using 2 assms by (intro round64_exact_pos(1) [of q m k]) auto
  next
    case 3
    then have "q < 0" using q by (simp add: mult_less_0_iff)
    then have "round64 (- (- q)) = JFin (- (- q))"
      using 3 assms by (intro round64_exact_pos(2) [of "- q" "- m" k]) auto
    then show ?thesis by simp
  qed
qed

lemma round64_int:
  assumes "\<bar>n\<bar> < 9007199254740992"
  shows "round64 (of_int n) = JFin (of_int n)"
proof (rule round64_exact [of _ n 0])
  have "\<bar>of_int n\<bar> < (of_int 9007199254740992 :: rat)"
    unfolding of_int_abs [symmetric] using assms by (simp only: of_int_less_iff)
  also have "\<dots> = pow2 53" by (simp add: pow2_def)
  also have "\<dots> < pow2 1024" by (simp add: pow2_less_iff)
  finally show "\<bar>of_int n\<bar> < pow2 1024" .
qed (use assms in \<open>auto simp: pow2_numerals\<close>)

lemma round64_numeral [js_eval]:
  "numeral w < (9007199254740992 :: int) \<Longrightarrow> round64 (numeral w) = JFin (numeral w)"
  using round64_int [of "numeral w"] by simp

lemma round64_neg_numeral [js_eval]:
  "numeral w < (9007199254740992 :: int) \<Longrightarrow> round64 (- numeral w) = JFin (- numeral w)"
  using round64_int [of "- numeral w"] by simp

lemma round64_1 [simp, js_eval]: "round64 1 = JFin 1"
  using round64_int [of 1] by simp

subsection \<open>Rounding is monotone and returns a double\<close>

lemma nearest_even_mono: "d \<le> d' \<Longrightarrow> nearest_even f d \<le> nearest_even f d'"
  by (auto simp: nearest_even_def)

lemma nearest_even_bounds: "f \<le> nearest_even f d" "nearest_even f d \<le> f + 1"
  by (auto simp: nearest_even_def)

lemma round_half_even_mono:
  assumes "q \<le> r"
  shows "round_half_even q \<le> round_half_even r"
proof (cases "\<lfloor>q\<rfloor> = \<lfloor>r\<rfloor>")
  case True
  with assms show ?thesis by (simp add: round_half_even_def nearest_even_mono)
next
  case False
  with assms have "\<lfloor>q\<rfloor> + 1 \<le> \<lfloor>r\<rfloor>" using floor_mono [OF assms] by linarith
  then show ?thesis
    using nearest_even_bounds [of "\<lfloor>q\<rfloor>" "q - of_int \<lfloor>q\<rfloor>"]
      nearest_even_bounds [of "\<lfloor>r\<rfloor>" "r - of_int \<lfloor>r\<rfloor>"]
    by (simp add: round_half_even_def)
qed

lemma round_half_even_le: "q \<le> of_int n \<Longrightarrow> round_half_even q \<le> n"
  using round_half_even_mono [of q "of_int n"] by simp

lemma round_half_even_ge: "of_int n \<le> q \<Longrightarrow> n \<le> round_half_even q"
  using round_half_even_mono [of "of_int n" q] by simp

text \<open>The significand that rounding a positive value produces.\<close>

definition significand :: "rat \<Rightarrow> int" where
  "significand q = round_half_even (q / pow2 (ulp_exp q))"

lemma significand_le:
  assumes "0 < q"
  shows "significand q \<le> 9007199254740992"
proof -
  have "q < pow2 (ilog2 q + 1)" by (rule ilog2_bounds [OF assms])
  also have "\<dots> \<le> pow2 (53 + ulp_exp q)" by (simp add: pow2_le_iff ulp_exp_def)
  finally have "q / pow2 (ulp_exp q) < pow2 53" by (simp add: pow2_add pos_divide_less_eq)
  then show ?thesis by (simp add: significand_def round_half_even_le pow2_numerals)
qed

lemma significand_nonneg: "0 < q \<Longrightarrow> 0 \<le> significand q"
  by (simp add: significand_def round_half_even_ge)

lemma significand_ge:
  assumes "0 < q" and "- 1074 < ulp_exp q"
  shows "4503599627370496 \<le> significand q"
proof -
  have u: "ulp_exp q = ilog2 q - 52" using assms(2) by (simp add: ulp_exp_def max_def split: if_splits)
  have "pow2 52 * pow2 (ulp_exp q) \<le> q"
    using ilog2_bounds(1) [OF assms(1)] by (simp add: u flip: pow2_add)
  then have "pow2 52 \<le> q / pow2 (ulp_exp q)" by (simp add: pos_le_divide_eq)
  then have "of_int 4503599627370496 \<le> q / pow2 (ulp_exp q)" by (simp add: pow2_def [of 52])
  then show ?thesis unfolding significand_def by (rule round_half_even_ge)
qed

lemma round64_pos: "0 < q \<Longrightarrow> round64 q = pack False (significand q) (ulp_exp q)"
  by (simp add: round64_def round_at_def significand_def)

lemma round64_neg: "q < 0 \<Longrightarrow> round64 q = pack True (significand (- q)) (ulp_exp (- q))"
  by (simp add: round64_def round_at_def significand_def)

lemma ulp_exp_ge: "- 1074 \<le> ulp_exp q"
  by (simp add: ulp_exp_def)

lemma pack_exact:
  assumes "0 \<le> m" and "m \<le> 9007199254740992" and "- 1074 \<le> k" and "pack neg m k = JFin v"
  shows "round64 v = JFin v"
proof (cases "m = 0")
  case True
  with assms(4) show ?thesis by (auto simp: pack_def js_zero_def split: if_splits)
next
  case False
  define q where "q = of_int m * pow2 k"
  have v: "v = q \<or> v = - q" and ov: "k < 971 \<or> k = 971 \<and> m < 9007199254740992"
    using assms(4) False by (auto simp: pack_def q_def split: if_splits)
  have m0: "0 < m" using False assms(1) by simp
  show ?thesis
  proof (cases "m = 9007199254740992")
    case True
    then have q2: "q = of_int 4503599627370496 * pow2 (k + 1)"
      by (simp add: q_def pow2_add pow2_def [of 1])
    have "q = pow2 (53 + k)" using True by (simp add: q_def pow2_add pow2_numerals)
    also have "\<dots> < pow2 1024" using True ov by (simp add: pow2_less_iff)
    finally have "q < pow2 1024" .
    then show ?thesis using v round64_exact_pos [OF q2] assms(3) by auto
  next
    case False
    with assms(2) have m53: "m < 9007199254740992" by simp
    have "q < pow2 53 * pow2 k" using m53 by (simp add: q_def pow2_numerals)
    also have "\<dots> \<le> pow2 1024" using ov by (auto simp: pow2_le_iff simp flip: pow2_add)
    finally have "q < pow2 1024" .
    then show ?thesis using v round64_exact_pos [OF q_def m0 m53] assms(3) by auto
  qed
qed

lemma is_double_round64 [simp]: "is_double (round64 q)"
proof (cases "round64 q")
  case (JFin v)
  consider "q = 0" | "0 < q" | "q < 0" by linarith
  then have "round64 v = JFin v"
  proof cases
    case 1
    with JFin show ?thesis by simp
  next
    case 2
    with JFin show ?thesis
      using pack_exact [OF significand_nonneg [of q] significand_le [of q] ulp_exp_ge [of q]]
      by (simp add: round64_pos)
  next
    case 3
    with JFin show ?thesis
      using pack_exact [OF significand_nonneg [of "- q"] significand_le [of "- q"] ulp_exp_ge [of "- q"]]
      by (simp add: round64_neg)
  qed
  with JFin show ?thesis by simp
qed auto

lemma pack_mono_exp:
  assumes "k < k'" and "m \<le> 9007199254740992" and "0 \<le> m" and "4503599627370496 \<le> m'"
  shows "js_le (pack False m k) (pack False m' k')"
proof (cases "971 < k' \<or> k' = 971 \<and> 9007199254740992 \<le> m'")
  case True
  then show ?thesis by (auto simp: pack_def js_zero_def)
next
  case False
  have "of_int m * pow2 k \<le> pow2 53 * pow2 k"
    using assms(2) by (intro mult_right_mono) (auto simp: pow2_numerals)
  also have "\<dots> \<le> pow2 (52 + k')"
    using assms(1) by (simp add: pow2_le_iff flip: pow2_add)
  also have "\<dots> \<le> of_int m' * pow2 k'"
    using assms(4) by (simp add: pow2_add) (simp add: pow2_def)
  finally show ?thesis using False assms by (auto simp: pack_def js_zero_def)
qed

lemma pack_mono_sig: "0 \<le> m \<Longrightarrow> m \<le> m' \<Longrightarrow> js_le (pack False m k) (pack False m' k)"
  by (auto simp: pack_def js_zero_def mult_right_mono)

lemma ulp_exp_mono: "0 < q \<Longrightarrow> q \<le> r \<Longrightarrow> ulp_exp q \<le> ulp_exp r"
proof -
  assume q: "0 < q" and qr: "q \<le> r"
  then have "q < pow2 (ilog2 r + 1)" using ilog2_bounds(2) [of r] by linarith
  then have "ilog2 q \<le> ilog2 r" by (rule ilog2_le [OF q])
  then show ?thesis by (simp add: ulp_exp_def)
qed

lemma round64_mono_pos:
  assumes "0 < q" and "q \<le> r"
  shows "js_le (round64 q) (round64 r)"
proof (cases "ulp_exp q = ulp_exp r")
  case True
  have "significand q \<le> significand r"
    unfolding significand_def True using assms by (intro round_half_even_mono divide_right_mono) auto
  then show ?thesis
    using assms True by (simp add: round64_pos pack_mono_sig significand_nonneg)
next
  case False
  then have lt: "ulp_exp q < ulp_exp r" using ulp_exp_mono [OF assms] by simp
  moreover have "4503599627370496 \<le> significand r"
    using assms lt ulp_exp_ge [of q] by (intro significand_ge) linarith+
  ultimately show ?thesis
    using assms by (simp add: round64_pos pack_mono_exp significand_le significand_nonneg)
qed

text \<open>The sign of a rounded value, and monotonicity on the non-negative values.\<close>

lemma round64_nonneg: "0 \<le> q \<Longrightarrow> \<not> js_sign (round64 q) \<and> round64 q \<noteq> JNaN"
proof (cases "q = 0")
  case False
  assume "0 \<le> q"
  with False have q: "0 < q" by simp
  then have "\<not> of_int (significand q) * pow2 (ulp_exp q) < 0"
    using significand_nonneg [OF q] by (simp add: not_less)
  with q show ?thesis by (simp add: round64_pos pack_def js_zero_def)
qed simp

lemma js_le_zero_round64: "0 \<le> q \<Longrightarrow> js_le (JFin 0) (round64 q)"
  using round64_nonneg [of q] by (cases "round64 q") auto

theorem round64_mono: "0 \<le> q \<Longrightarrow> q \<le> r \<Longrightarrow> js_le (round64 q) (round64 r)"
  by (cases "q = 0") (auto simp: js_le_zero_round64 round64_mono_pos)

subsection \<open>Order and arithmetic on the non-negative numbers\<close>

text \<open>\<open>js_nonneg x\<close>: the comparison \<open>x >= 0\<close> of the source is true.\<close>

definition js_nonneg :: "jsnum \<Rightarrow> bool" where
  "js_nonneg x \<longleftrightarrow> js_le (JFin 0) x"

lemma js_nonneg_simps [simp]:
  "js_nonneg JNaN = False" "js_nonneg (JInf n) = (\<not> n)" "js_nonneg JNegZero = True"
  "js_nonneg (JFin q) = (0 \<le> q)"
  by (auto simp: js_nonneg_def)

lemma js_le_refl: "x \<noteq> JNaN \<Longrightarrow> js_le x x"
  by (cases x) auto

lemma js_le_trans: "js_le x y \<Longrightarrow> js_le y z \<Longrightarrow> js_le x z"
  by (cases x; cases y; cases z) auto

lemma js_lt_iff: "js_lt x y \<longleftrightarrow> js_le x y \<and> \<not> js_le y x"
  by (cases x; cases y) auto

lemma js_nonneg_round64: "0 \<le> q \<Longrightarrow> js_nonneg (round64 q)"
  by (simp add: js_nonneg_def js_le_zero_round64)

lemma js_nonneg_add: "js_nonneg x \<Longrightarrow> js_nonneg y \<Longrightarrow> js_nonneg (js_add x y)"
  by (cases x; cases y) (auto simp: js_nonneg_round64)

lemma js_nonneg_mul:
  "js_nonneg x \<Longrightarrow> js_nonneg y \<Longrightarrow> js_is_finite x \<Longrightarrow> js_is_finite y \<Longrightarrow> js_nonneg (js_mul x y)"
  by (cases x; cases y) (auto simp: js_nonneg_round64 js_zero_def)

lemma js_le_NegZero_round64: "0 \<le> q \<Longrightarrow> js_le JNegZero (round64 q)"
  using round64_nonneg [of q] by (cases "round64 q") auto

lemma js_le_round64_Inf: "0 \<le> q \<Longrightarrow> js_le (round64 q) (JInf False)"
  using round64_nonneg [of q] by (cases "round64 q") auto

lemmas js_le_round64_bounds = js_le_zero_round64 js_le_NegZero_round64 js_le_round64_Inf

lemma js_mul_mono:
  assumes "js_nonneg x" "js_is_finite x" "js_nonneg c" "js_is_finite c" "js_le x y" "js_is_finite y"
  shows "js_le (js_mul x c) (js_mul y c)"
  using assms
  by (cases x; cases y; cases c)
    (auto simp: js_zero_def js_le_round64_bounds intro!: round64_mono mult_right_mono)

lemma js_add_mono:
  assumes "js_nonneg x" "js_nonneg z" "js_le x y" "js_le z w"
  shows "js_le (js_add x z) (js_add y w)"
  using assms
  by (cases x; cases y; cases z; cases w) (auto simp: js_le_round64_bounds intro!: round64_mono)

end
