(* ===== verification/Js_Value.thy ===== *)
theory Js_Value
  imports Js_Number
begin

section \<open>JSON and other unknown values\<close>

text \<open>
  The values that reach the code with the TypeScript type \<open>unknown\<close>: request bodies, server
  responses, documents read from storage. An object is the list of its own enumerable
  properties in insertion order, its keys distinct.
\<close>

datatype jsval =
    VUndefined
  | VNull
  | VBool bool
  | VNum jsnum
  | VStr jsstring
  | VArr "jsval list"
  | VObj "(jsstring \<times> jsval) list"

text \<open>The \<open>typeof\<close> tests the code makes.\<close>

fun is_string_val :: "jsval \<Rightarrow> bool" where
  "is_string_val (VStr _) = True"
| "is_string_val _ = False"

fun is_number_val :: "jsval \<Rightarrow> bool" where
  "is_number_val (VNum _) = True"
| "is_number_val _ = False"

fun is_boolean_val :: "jsval \<Rightarrow> bool" where
  "is_boolean_val (VBool _) = True"
| "is_boolean_val _ = False"

text \<open>\<open>typeof v = 'object'\<close> holds of null, arrays and objects.\<close>

fun is_object_val :: "jsval \<Rightarrow> bool" where
  "is_object_val VNull = True"
| "is_object_val (VArr _) = True"
| "is_object_val (VObj _) = True"
| "is_object_val _ = False"

text \<open>\<open>v == null\<close>, true of null and undefined.\<close>

fun is_nullish :: "jsval \<Rightarrow> bool" where
  "is_nullish VUndefined = True"
| "is_nullish VNull = True"
| "is_nullish _ = False"

text \<open>\<open>Boolean(v)\<close>.\<close>

fun js_truthy :: "jsval \<Rightarrow> bool" where
  "js_truthy VUndefined = False"
| "js_truthy VNull = False"
| "js_truthy (VBool b) = b"
| "js_truthy (VNum x) = (x \<noteq> JNaN \<and> x \<noteq> JNegZero \<and> x \<noteq> JFin 0)"
| "js_truthy (VStr s) = (s \<noteq> [])"
| "js_truthy (VArr _) = True"
| "js_truthy (VObj _) = True"

text \<open>Property access \<open>v.key\<close> on an object; a missing property is undefined.\<close>

fun js_get :: "jsval \<Rightarrow> jsstring \<Rightarrow> jsval" where
  "js_get (VObj ps) k = (case map_of ps k of Some v \<Rightarrow> v | None \<Rightarrow> VUndefined)"
| "js_get _ k = VUndefined"

text \<open>\<open>===\<close> on values that are no objects.\<close>

fun js_strict_eq :: "jsval \<Rightarrow> jsval \<Rightarrow> bool" where
  "js_strict_eq VUndefined VUndefined = True"
| "js_strict_eq VNull VNull = True"
| "js_strict_eq (VBool a) (VBool b) = (a = b)"
| "js_strict_eq (VNum a) (VNum b) = js_num_eq a b"
| "js_strict_eq (VStr a) (VStr b) = (a = b)"
| "js_strict_eq _ _ = False"

fun val_doubles :: "jsval \<Rightarrow> bool" where
  "val_doubles (VNum x) = is_double x"
| "val_doubles (VArr vs) = list_all val_doubles vs"
| "val_doubles (VObj ps) = list_all (\<lambda>p. val_doubles (snd p)) ps"
| "val_doubles _ = True"

lemma js_get_Nil [simp]: "js_get (VObj []) k = VUndefined"
  by simp

lemma is_string_valE [elim!]: "is_string_val v \<Longrightarrow> (\<And>s. v = VStr s \<Longrightarrow> P) \<Longrightarrow> P"
  by (cases v) auto

lemma is_number_valE [elim!]: "is_number_val v \<Longrightarrow> (\<And>x. v = VNum x \<Longrightarrow> P) \<Longrightarrow> P"
  by (cases v) auto

lemma is_boolean_valE [elim!]: "is_boolean_val v \<Longrightarrow> (\<And>b. v = VBool b \<Longrightarrow> P) \<Longrightarrow> P"
  by (cases v) auto

end
