(* ===== verification/Js_Text.thy ===== *)
theory Js_Text
  imports Js_Value
begin

section \<open>Numbers as text\<close>

text \<open>
  \<open>String(x)\<close> and \<open>x.toExponential()\<close> of a number: the shortest digits that round to the
  number, laid out as the language prescribes. \<open>shortest_digits\<close> looks for the smallest
  precision from 1 to 17 at which one of the two neighbouring decimals rounds to the value; 17
  digits always do, so the search covers every double.
\<close>

text \<open>The decimal digits of an integer that is not negative.\<close>

function digits_text :: "int \<Rightarrow> jsstring" where
  "digits_text n =
     (if n < 10 then [48 + nat n] else digits_text (n div 10) @ [48 + nat (n mod 10)])"
  by pat_completeness auto
termination
  by (relation "measure nat") auto

declare digits_text.simps [simp del]

definition int_text :: "int \<Rightarrow> jsstring" where
  "int_text i = (if i < 0 then 45 # digits_text (- i) else digits_text i)"

definition ten_pow :: "int \<Rightarrow> rat" where
  "ten_pow k = (if 0 \<le> k then 10 ^ nat k else 1 / 10 ^ nat (- k))"

text \<open>The number of digits before the decimal point: \<open>ten_pow (n - 1) \<le> q < ten_pow n\<close>.\<close>

definition decimal_exponent_from :: "rat \<Rightarrow> int \<Rightarrow> int" where
  "decimal_exponent_from q e =
     (if ten_pow (e + 1) \<le> q then e + 2 else if ten_pow e \<le> q then e + 1 else e)"

definition decimal_exponent :: "rat \<Rightarrow> int" where
  "decimal_exponent q = decimal_exponent_from q (ilog2 q * 30103 div 100000)"

text \<open>A decimal \<open>s * 10 ^ (n - k)\<close> of \<open>k\<close> digits, brought to \<open>s < 10 ^ k\<close>.\<close>

definition decimal_candidate :: "int \<Rightarrow> int \<Rightarrow> int \<Rightarrow> int \<times> int \<times> int" where
  "decimal_candidate s n k = (if s = 10 ^ nat k then (s div 10, n + 1, k) else (s, n, k))"

definition rounds_to :: "rat \<Rightarrow> int \<Rightarrow> int \<Rightarrow> int \<Rightarrow> bool" where
  "rounds_to q s n k \<longleftrightarrow> round64 (of_int s * ten_pow (n - k)) = JFin q"

text \<open>Of the two decimals around \<open>q\<close> the nearer one, and the even one at equal distance.\<close>

definition prefer_upper :: "rat \<Rightarrow> int \<Rightarrow> int \<Rightarrow> int \<Rightarrow> bool" where
  "prefer_upper q s n k \<longleftrightarrow>
     q - of_int s * ten_pow (n - k) > of_int (s + 1) * ten_pow (n - k) - q
     \<or> q - of_int s * ten_pow (n - k) = of_int (s + 1) * ten_pow (n - k) - q \<and> odd s"

definition pick_decimal :: "rat \<Rightarrow> int \<Rightarrow> int \<Rightarrow> int \<Rightarrow> (int \<times> int \<times> int) option" where
  "pick_decimal q s n k =
     (if rounds_to q s n k \<and> \<not> (rounds_to q (s + 1) n k \<and> prefer_upper q s n k)
      then Some (decimal_candidate s n k)
      else if rounds_to q (s + 1) n k then Some (decimal_candidate (s + 1) n k) else None)"

fun first_decimal :: "rat \<Rightarrow> int \<Rightarrow> int list \<Rightarrow> int \<times> int \<times> int" where
  "first_decimal q n [] = decimal_candidate (round_half_even (q * ten_pow (17 - n))) n 17"
| "first_decimal q n (k # ks) =
     (case pick_decimal q \<lfloor>q * ten_pow (k - n)\<rfloor> n k of
        Some d \<Rightarrow> d | None \<Rightarrow> first_decimal q n ks)"

text \<open>\<open>(s, n, k)\<close> for a positive value: the digits \<open>s\<close>, the point after \<open>n\<close> of them.\<close>

definition shortest_decimal :: "rat \<Rightarrow> int \<times> int \<times> int" where
  "shortest_decimal q =
     first_decimal q (decimal_exponent q) [1, 2, 3, 4, 5, 6, 7, 8, 9, 10, 11, 12, 13, 14, 15, 16, 17]"

fun drop_trailing_zeros :: "jsstring \<Rightarrow> jsstring" where
  "drop_trailing_zeros s = rev (dropWhile (\<lambda>c. c = 48) (rev s))"

definition shortest_digits :: "rat \<Rightarrow> jsstring" where
  "shortest_digits q = drop_trailing_zeros (digits_text (fst (shortest_decimal q)))"

definition shortest_point :: "rat \<Rightarrow> int" where
  "shortest_point q = fst (snd (shortest_decimal q))"

text \<open>\<open>layout_number digits n\<close>: the layout of \<open>Number::toString\<close> for radix ten.\<close>

definition exponent_text :: "int \<Rightarrow> jsstring" where
  "exponent_text e = (if e < 0 then 45 # digits_text (- e) else 43 # digits_text e)"

definition layout_number :: "jsstring \<Rightarrow> int \<Rightarrow> jsstring" where
  "layout_number digits n =
     (if int (length digits) \<le> n \<and> n \<le> 21 then digits @ replicate (nat n - length digits) 48
      else if 0 < n \<and> n \<le> 21 then take (nat n) digits @ [46] @ drop (nat n) digits
      else if - 6 < n \<and> n \<le> 0 then js ''0.'' @ replicate (nat (- n)) 48 @ digits
      else if length digits = 1 then digits @ [101] @ exponent_text (n - 1)
      else take 1 digits @ [46] @ drop 1 digits @ [101] @ exponent_text (n - 1))"

fun js_number_text :: "jsnum \<Rightarrow> jsstring" where
  "js_number_text JNaN = js ''NaN''"
| "js_number_text (JInf neg) = (if neg then js ''-Infinity'' else js ''Infinity'')"
| "js_number_text JNegZero = js ''0''"
| "js_number_text (JFin q) =
     (if q = 0 then js ''0''
      else if q < 0 then 45 # layout_number (shortest_digits (- q)) (shortest_point (- q))
      else layout_number (shortest_digits q) (shortest_point q))"

text \<open>The two halves of \<open>x.toExponential().split('e')\<close> for a finite number other than zero.\<close>

definition exponential_mantissa :: "rat \<Rightarrow> jsstring" where
  "exponential_mantissa q =
     (if q < 0 then [45] else [])
       @ (case shortest_digits \<bar>q\<bar> of
            [] \<Rightarrow> []
          | d # ds \<Rightarrow> if ds = [] then [d] else d # 46 # ds)"

definition exponential_exponent :: "rat \<Rightarrow> int" where
  "exponential_exponent q = shortest_point \<bar>q\<bar> - 1"

subsection \<open>Digits\<close>

lemma digits_text_digits: "0 \<le> n \<Longrightarrow> list_all is_digit (digits_text n) \<and> digits_text n \<noteq> []"
proof (induction n rule: digits_text.induct)
  case (1 n)
  show ?case
  proof (cases "n < 10")
    case True
    with "1.prems" show ?thesis by (simp add: digits_text.simps [of n] is_digit_def)
  next
    case False
    then have "list_all is_digit (digits_text (n div 10))" using "1" by simp
    moreover have "nat (n mod 10) \<le> 9" using pos_mod_bound [of 10 n] by linarith
    ultimately show ?thesis using False by (simp add: digits_text.simps [of n]) (simp add: is_digit_def)
  qed
qed

lemma digits_text_nonempty [simp]: "digits_text n \<noteq> []"
  by (subst digits_text.simps) simp

subsection \<open>Decimal literals\<close>

text \<open>\<open>(?:\d+(?:\.\d*)?|\.\d+)\<close>: the matched text, empty when the pattern does not match.\<close>

definition match_fraction :: "jsstring \<Rightarrow> jsstring" where
  "match_fraction rest =
     (case rest of c # cs \<Rightarrow> if c = 46 then 46 # takeWhile is_digit cs else [] | [] \<Rightarrow> [])"

definition match_mantissa :: "jsstring \<Rightarrow> jsstring" where
  "match_mantissa rest =
     (if takeWhile is_digit rest \<noteq> []
      then takeWhile is_digit rest @ match_fraction (dropWhile is_digit rest)
      else if length (match_fraction rest) > 1 then match_fraction rest else [])"

text \<open>\<open>(?:[eE][+-]?\d+)?\<close>\<close>

definition match_sign :: "jsstring \<Rightarrow> jsstring" where
  "match_sign rest = (case rest of c # _ \<Rightarrow> if c = 43 \<or> c = 45 then [c] else [] | [] \<Rightarrow> [])"

definition exponent_digits :: "jsstring \<Rightarrow> jsstring" where
  "exponent_digits rest = takeWhile is_digit (drop (length (match_sign rest)) rest)"

definition match_exponent :: "jsstring \<Rightarrow> jsstring" where
  "match_exponent rest =
     (case rest of
        c # cs \<Rightarrow>
          if (c = 69 \<or> c = 101) \<and> exponent_digits cs \<noteq> []
          then c # match_sign cs @ exponent_digits cs else []
      | [] \<Rightarrow> [])"

definition match_number :: "jsstring \<Rightarrow> jsstring" where
  "match_number rest =
     (if match_mantissa rest = [] then []
      else match_mantissa rest @ match_exponent (drop (length (match_mantissa rest)) rest))"

text \<open>\<open>Number(text)\<close> for such a literal: the decimal value, rounded to a double.\<close>

fun digits_value :: "int \<Rightarrow> jsstring \<Rightarrow> int" where
  "digits_value acc [] = acc"
| "digits_value acc (c # cs) = digits_value (10 * acc + int (c - 48)) cs"

definition exponent_value :: "jsstring \<Rightarrow> int" where
  "exponent_value e =
     (case e of
        [] \<Rightarrow> 0
      | c # cs \<Rightarrow>
          if match_sign cs = [45] then - digits_value 0 (exponent_digits cs)
          else digits_value 0 (exponent_digits cs))"

definition mantissa_value :: "jsstring \<Rightarrow> rat" where
  "mantissa_value m =
     of_int (digits_value 0 (filter is_digit m)) * ten_pow (- int (length (tl (dropWhile is_digit m))))"

definition decimal_value :: "jsstring \<Rightarrow> rat" where
  "decimal_value text =
     mantissa_value (match_mantissa text)
       * ten_pow (exponent_value (drop (length (match_mantissa text)) text))"

definition js_number_of :: "jsstring \<Rightarrow> jsnum" where
  "js_number_of text = round64 (decimal_value text)"

lemma length_match_mantissa: "length (match_mantissa rest) \<le> length rest"
proof -
  have "length (match_fraction r) \<le> length r" for r
    by (auto simp: match_fraction_def length_takeWhile_le split: list.splits)
  from this [of "dropWhile is_digit rest"] this [of rest] show ?thesis
    by (simp add: match_mantissa_def) (metis add_left_mono length_append takeWhile_dropWhile_id)
qed

lemma length_match_exponent: "length (match_exponent rest) \<le> length rest"
proof -
  have "length (match_sign r) + length (exponent_digits r) \<le> length r" for r
    unfolding exponent_digits_def
    using length_takeWhile_le [of is_digit "drop (length (match_sign r)) r"]
    by (cases r) (auto simp: match_sign_def)
  then show ?thesis by (auto simp: match_exponent_def split: list.splits)
qed

lemma length_match_number: "length (match_number rest) \<le> length rest"
  using length_match_mantissa [of rest]
    length_match_exponent [of "drop (length (match_mantissa rest)) rest"]
  unfolding match_number_def by simp linarith

text \<open>
  \<open>Number(text)\<close> of any string: white space around it is ignored, the empty string is zero, and
  what is neither a decimal literal with an optional sign, an infinity, nor a prefixed binary,
  octal or hexadecimal integer is not a number.
\<close>

definition unsigned_number :: "jsstring \<Rightarrow> jsnum option" where
  "unsigned_number s =
     (if s = js ''Infinity'' then Some (JInf False)
      else if s \<noteq> [] \<and> match_number s = s then Some (js_number_of s) else None)"

definition radix_digits :: "nat \<Rightarrow> jsstring \<Rightarrow> int" where
  "radix_digits r ds = foldl (\<lambda>acc c. int r * acc + int (hex_value c)) 0 ds"

definition radix_number :: "jsstring \<Rightarrow> jsnum option" where
  "radix_number s =
     (case s of
        z # x # ds \<Rightarrow>
          if z = 48 \<and> (x = 120 \<or> x = 88) \<and> ds \<noteq> [] \<and> list_all is_hex ds
          then Some (round64 (of_int (radix_digits 16 ds)))
          else if z = 48 \<and> (x = 111 \<or> x = 79) \<and> ds \<noteq> [] \<and> list_all (\<lambda>c. 48 \<le> c \<and> c \<le> 55) ds
          then Some (round64 (of_int (radix_digits 8 ds)))
          else if z = 48 \<and> (x = 98 \<or> x = 66) \<and> ds \<noteq> [] \<and> list_all (\<lambda>c. c = 48 \<or> c = 49) ds
          then Some (round64 (of_int (radix_digits 2 ds)))
          else None
      | _ \<Rightarrow> None)"

definition signed_number :: "jsstring \<Rightarrow> jsnum option" where
  "signed_number s =
     (case s of
        [] \<Rightarrow> None
      | c # cs \<Rightarrow>
          if c = 45 then map_option js_uminus (unsigned_number cs)
          else if c = 43 then unsigned_number cs
          else unsigned_number s)"

definition js_string_to_number :: "jsstring \<Rightarrow> jsnum" where
  "js_string_to_number text =
     (if js_trim text = [] then JFin 0
      else case signed_number (js_trim text) of
             Some x \<Rightarrow> x
           | None \<Rightarrow> (case radix_number (js_trim text) of Some x \<Rightarrow> x | None \<Rightarrow> JNaN))"

subsection \<open>String conversion\<close>

text \<open>\<open>String(v)\<close>: null and undefined inside an array are the empty text, an object is the fixed
  text of \<open>Object.prototype.toString\<close>.\<close>

fun js_to_string :: "jsval \<Rightarrow> jsstring" where
  "js_to_string VUndefined = js ''undefined''"
| "js_to_string VNull = js ''null''"
| "js_to_string (VBool b) = (if b then js ''true'' else js ''false'')"
| "js_to_string (VNum x) = js_number_text x"
| "js_to_string (VStr s) = s"
| "js_to_string (VArr vs) =
     js_join [44] (map (\<lambda>v. if is_nullish v then [] else js_to_string v) vs)"
| "js_to_string (VObj ps) = js ''[object Object]''"

text \<open>Reading digits is the inverse of writing them.\<close>

lemma digits_value_append: "digits_value acc (ds @ [c]) = 10 * digits_value acc ds + int (c - 48)"
  by (induction ds arbitrary: acc) auto

lemma digits_value_text: "0 \<le> n \<Longrightarrow> digits_value 0 (digits_text n) = n"
proof (induction n rule: digits_text.induct)
  case (1 n)
  show ?case
  proof (cases "n < 10")
    case True
    with "1.prems" show ?thesis by (simp add: digits_text.simps [of n])
  next
    case False
    then have "digits_value 0 (digits_text (n div 10)) = n div 10" using "1" by simp
    with False "1.prems" show ?thesis
      by (simp add: digits_text.simps [of n] digits_value_append)
  qed
qed

lemma digits_text_not_member: "0 \<le> n \<Longrightarrow> \<not> is_digit c \<Longrightarrow> c \<notin> set (digits_text n)"
  using digits_text_digits [of n] by (auto simp: list_all_iff)

end
