(* ===== verification/Update_Tasks.thy ===== *)
theory Update_Tasks
  imports Js_Text
begin

section \<open>Batch updates of upstream models\<close>

text \<open>
  \<open>features/channels/hooks/use-channel-upstream-updates.ts\<close>: the server detects or applies model updates of all channels in a
  task, which the page follows. The hook remembers the task in the session storage, polls it, and recovers it after
  a reload. \<open>task_world\<close> has the references and states of the hook; every function that awaits something is
  a run or a call in flight, and \<open>task_step\<close> lets answers, clicks and timers come in any order. Messages to the user are
  not part of the model. The dialog for a single channel is left out.
\<close>

subsection \<open>Reading answers\<close>

definition is_record_val :: "jsval \<Rightarrow> bool" where
  "is_record_val v \<longleftrightarrow> v \<noteq> VNull \<and> is_object_val v"

datatype task_status = Pending | Running | Succeeded | Failed | Cancelled | Canceled

definition status_names :: "(jsstring \<times> task_status) list" where
  "status_names = [(js ''pending'', Pending), (js ''running'', Running), (js ''succeeded'', Succeeded), (js ''failed'', Failed),
     (js ''cancelled'', Cancelled), (js ''canceled'', Canceled)]"

fun asSystemTaskStatus :: "jsval \<Rightarrow> task_status option" where
  "asSystemTaskStatus (VStr s) = map_of status_names s"
| "asSystemTaskStatus v = None"

definition isTerminalTaskStatus :: "task_status \<Rightarrow> bool" where
  "isTerminalTaskStatus s \<longleftrightarrow> s = Succeeded \<or> s = Failed \<or> s = Cancelled \<or> s = Canceled"

definition getResponseMessage :: "jsval \<Rightarrow> jsstring option" where
  "getResponseMessage payload =
     (if is_record_val payload then (case js_get payload (js ''message'') of VStr m \<Rightarrow> Some m | _ \<Rightarrow> None) else None)"

definition getErrorPayload :: "jsval \<Rightarrow> jsval" where
  "getErrorPayload error =
     (if is_record_val error \<and> is_record_val (js_get error (js ''response''))
      then js_get (js_get error (js ''response'')) (js ''data'') else VUndefined)"

definition getErrorStatus :: "jsval \<Rightarrow> jsnum option" where
  "getErrorStatus error =
     (if is_record_val error \<and> is_record_val (js_get error (js ''response''))
      then (case js_get (js_get error (js ''response'')) (js ''status'') of VNum x \<Rightarrow> Some x | _ \<Rightarrow> None) else None)"

definition isRequestCancelled :: "jsval \<Rightarrow> bool" where
  "isRequestCancelled error \<longleftrightarrow>
     is_record_val error \<and> (js_get error (js ''name'') = VStr (js ''CanceledError'') \<or> js_get error (js ''code'') = VStr (js ''ERR_CANCELED''))"

text \<open>The pattern \<open>/task.*not found|not found|...|missing/i\<close>: its first alternative is a case of the second one, and
  the others are literals; the third one is the Chinese word with these three code units.\<close>

definition ascii_lower :: "nat \<Rightarrow> nat" where
  "ascii_lower c = (if 65 \<le> c \<and> c \<le> 90 then c + 32 else c)"

definition says_missing :: "jsstring \<Rightarrow> bool" where
  "says_missing message \<longleftrightarrow>
     (let m = map ascii_lower message in
      js_includes (js ''not found'') m \<or> js_includes [19981, 23384, 22312] m \<or> js_includes (js ''missing'') m)"

definition shouldClearPersistedModelUpdateTaskIdAfterPollingError :: "jsval \<Rightarrow> bool" where
  "shouldClearPersistedModelUpdateTaskIdAfterPollingError error \<longleftrightarrow>
     (case getErrorStatus error of Some x \<Rightarrow> js_num_eq x (JFin 404) \<or> js_num_eq x (JFin 410) | None \<Rightarrow> False)
     \<or> says_missing
         (case getResponseMessage (getErrorPayload error) of
            Some m \<Rightarrow> if m \<noteq> [] then m else (case js_get error (js ''message'') of VStr s \<Rightarrow> if is_record_val error then s else [] | _ \<Rightarrow> [])
          | None \<Rightarrow> (case js_get error (js ''message'') of VStr s \<Rightarrow> if is_record_val error then s else [] | _ \<Rightarrow> []))"

text \<open>A task as the page knows it.\<close>

record task_info =
  ti_id :: jsstring
  ti_status :: "task_status option"
  ti_type :: "jsstring option"

definition getModelUpdateTaskStartInfo :: "jsval \<Rightarrow> task_info option" where
  "getModelUpdateTaskStartInfo payload =
     (if \<not> is_record_val payload \<or> \<not> is_record_val (js_get payload (js ''data'')) then None
      else (let d = js_get payload (js ''data'') in
            case (js_get d (js ''task_id''), asSystemTaskStatus (js_get d (js ''status''))) of
              (VStr taskId, Some status) \<Rightarrow>
                if js_trim taskId = [] then None
                else Some \<lparr>ti_id = js_trim taskId, ti_status = Some status,
                       ti_type = (case js_get d (js ''type'') of VStr t \<Rightarrow> Some t | _ \<Rightarrow> None)\<rparr>
            | _ \<Rightarrow> None))"

definition isSuccessPayload :: "jsval \<Rightarrow> bool" where
  "isSuccessPayload payload \<longleftrightarrow> is_record_val payload \<and> js_get payload (js ''success'') = VBool True"

subsection \<open>Polling\<close>

definition getModelUpdateTaskPollIntervalMs :: "nat \<Rightarrow> jsnum \<Rightarrow> bool \<Rightarrow> jsnum" where
  "getModelUpdateTaskPollIntervalMs pollIndex base hidden_page =
     (let i0 = (if js_is_finite base \<and> js_lt (JFin 0) base then base else JFin 0);
          i1 = (if pollIndex \<ge> 900 then js_max i0 (JFin 10000) else i0) in
      if hidden_page then js_max i1 (JFin 30000) else i1)"

text \<open>One turn of the loop of \<open>waitForModelUpdateTask\<close>: whether the signal was aborted before the request, the answer or
  the error of the request, and whether the signal was aborted then.\<close>

record task_answer =
  ta_success :: bool
  ta_task :: "(jsval \<times> task_info) option"
  ta_message :: "jsstring option"

record poll_turn =
  pt_aborted_before :: bool
  pt_answer :: "jsval + task_answer"
  pt_aborted_after :: bool

datatype poll_result = Poll_null | Poll_task task_info | Poll_error jsval

definition error_val :: "jsstring \<Rightarrow> jsval" where
  "error_val message = VObj [(js ''message'', VStr message)]"

definition unknownModelUpdateTaskStatusMessage :: jsstring where
  "unknownModelUpdateTaskStatusMessage = js ''Unknown upstream model update task status''"

text \<open>\<open>None\<close>: the loop goes on.\<close>

definition poll_once :: "poll_turn \<Rightarrow> poll_result option" where
  "poll_once turn =
     (if pt_aborted_before turn then Some Poll_null
      else (case pt_answer turn of
              Inl e \<Rightarrow> Some (if pt_aborted_after turn \<or> isRequestCancelled e then Poll_null else Poll_error e)
            | Inr a \<Rightarrow>
                if pt_aborted_after turn then Some Poll_null
                else (case (ta_success a, ta_task a) of
                        (True, Some (status, task)) \<Rightarrow>
                          (case asSystemTaskStatus status of
                             None \<Rightarrow> Some (Poll_error (error_val unknownModelUpdateTaskStatusMessage))
                           | Some s \<Rightarrow> if isTerminalTaskStatus s then Some (Poll_task (task\<lparr>ti_status := Some s\<rparr>)) else None)
                      | _ \<Rightarrow> Some (Poll_error (error_val (case ta_message a of Some m \<Rightarrow> m | None \<Rightarrow> []))))))"

text \<open>The loop on the turns that come; \<open>maxPolls\<close> is infinite where it is \<open>None\<close>. Without a further turn the loop waits.\<close>

fun waitForModelUpdateTask :: "nat option \<Rightarrow> nat \<Rightarrow> poll_turn list \<Rightarrow> poll_result option" where
  "waitForModelUpdateTask maxPolls i turns =
     (if (case maxPolls of Some n \<Rightarrow> n \<le> i | None \<Rightarrow> False) then Some Poll_null
      else (case turns of
              [] \<Rightarrow> None
            | turn # rest \<Rightarrow>
                (case poll_once turn of Some r \<Rightarrow> Some r | None \<Rightarrow> waitForModelUpdateTask maxPolls (i + 1) rest)))"

declare waitForModelUpdateTask.simps [simp del]

theorem poll_interval_bounds:
  assumes "is_double base"
  shows "js_le (JFin 0) (getModelUpdateTaskPollIntervalMs i base h)
    \<and> (i \<ge> 900 \<longrightarrow> js_le (JFin 10000) (getModelUpdateTaskPollIntervalMs i base h))
    \<and> (h \<longrightarrow> js_le (JFin 30000) (getModelUpdateTaskPollIntervalMs i base h))"
  by (cases base) (auto simp: getModelUpdateTaskPollIntervalMs_def js_max_def Let_def)

text \<open>Without a bound, the loop ends with the first turn that decides it, and only then.\<close>

theorem poll_first_decision:
  "waitForModelUpdateTask None i turns = (case List.map_filter poll_once turns of r # _ \<Rightarrow> Some r | [] \<Rightarrow> None)"
  by (induction turns arbitrary: i)
    (simp_all add: waitForModelUpdateTask.simps List.map_filter_simps split: option.split)

subsection \<open>The hook\<close>

definition modelUpdateManualTaskType :: jsstring where "modelUpdateManualTaskType = js ''model_update_manual''"

definition modelUpdateApplyAllTaskType :: jsstring where "modelUpdateApplyAllTaskType = js ''model_update_apply_all''"

text \<open>\<open>taskInfo.type?.trim()\<close>, empty where there is no type.\<close>

definition info_type :: "task_info \<Rightarrow> jsstring" where
  "info_type info = (case ti_type info of Some t \<Rightarrow> js_trim t | None \<Rightarrow> [])"

text \<open>Where \<open>pollAndReportModelUpdateTask\<close> stands: it waits for the type of the task, for the end of the task, or for
  the refreshed list before its \<open>finally\<close>. Controllers are numbered.\<close>

datatype run_stage =
    Resolving nat "jsstring option"
  | Polling nat nat bool bool
  | Closing_run nat bool bool
  | Closing_resolve nat bool

record task_run =
  tr_info :: task_info
  tr_for_apply :: bool
  tr_stage :: run_stage

text \<open>Calls in flight: \<open>detectAllUpdates\<close> with the task id that it found stored, \<open>applyAllUpdates\<close>, the lookup of the current task,
  and \<open>cancelModelUpdateTask\<close> with the task and the shown task; refreshes come before the \<open>finally\<close> of their function.\<close>

datatype task_call =
    Detect_lookup jsstring
  | Detect_post
  | Detect_refresh
  | Apply_post
  | Apply_refresh
  | Lookup_current
  | Cancel_post jsstring jsstring
  | Cancel_refresh

record task_world =
  tw_mounted :: bool
  tw_persisted :: jsstring
  tw_current :: "jsstring option"
  tw_detecting :: bool
  tw_applying :: bool
  tw_cancelling :: bool
  tw_controller :: "nat option"
  tw_controllers :: nat
  tw_aborted :: "nat list"
  tw_generation :: nat
  tw_runs :: "task_run list"
  tw_calls :: "task_call list"

definition mounted_world :: "jsstring \<Rightarrow> task_world" where
  "mounted_world persisted =
     \<lparr>tw_mounted = True, tw_persisted = persisted, tw_current = None, tw_detecting = False, tw_applying = False, tw_cancelling = False,
      tw_controller = None, tw_controllers = 0, tw_aborted = [], tw_generation = 0, tw_runs = [], tw_calls = []\<rparr>"

definition isCurrentModelUpdateTaskRun :: "nat \<Rightarrow> task_world \<Rightarrow> bool" where
  "isCurrentModelUpdateTaskRun generation w \<longleftrightarrow> tw_mounted w \<and> tw_generation w = generation"

definition abort_controller :: "task_world \<Rightarrow> task_world" where
  "abort_controller w = (case tw_controller w of Some c \<Rightarrow> w\<lparr>tw_aborted := c # tw_aborted w\<rparr> | None \<Rightarrow> w)"

definition set_flag :: "bool \<Rightarrow> task_world \<Rightarrow> task_world" where
  "set_flag apply_all w = (if apply_all then w\<lparr>tw_applying := True\<rparr> else w\<lparr>tw_detecting := True\<rparr>)"

definition add_run :: "task_run \<Rightarrow> task_world \<Rightarrow> task_world" where
  "add_run run w = w\<lparr>tw_runs := tw_runs w @ [run]\<rparr>"

definition add_call :: "task_call \<Rightarrow> task_world \<Rightarrow> task_world" where
  "add_call call w = w\<lparr>tw_calls := tw_calls w @ [call]\<rparr>"

text \<open>\<open>beginModelUpdateTaskRun\<close> and the run that then polls.\<close>

definition beginModelUpdateTaskRun :: "task_info \<Rightarrow> nat option \<Rightarrow> bool \<Rightarrow> task_world \<Rightarrow> task_world" where
  "beginModelUpdateTaskRun info existing for_apply w =
     (let w1 = (if existing = None \<or> tw_controller w \<noteq> existing then abort_controller w else w);
          c = (case existing of Some c \<Rightarrow> c | None \<Rightarrow> tw_controllers w);
          g = tw_generation w + 1;
          apply_all = (ti_type info = Some modelUpdateApplyAllTaskType) in
      add_run \<lparr>tr_info = info, tr_for_apply = for_apply, tr_stage = Polling g c apply_all (existing \<noteq> None)\<rparr>
        (set_flag apply_all
          (w1\<lparr>tw_controller := Some c, tw_controllers := max (tw_controllers w) (c + 1), tw_generation := g,
              tw_persisted := js_trim (ti_id info), tw_current := Some (ti_id info)\<rparr>)))"

text \<open>The \<open>finally\<close> of the function that awaited a run.\<close>

definition caller_ends :: "bool \<Rightarrow> task_world \<Rightarrow> task_world" where
  "caller_ends for_apply w = (if for_apply then w\<lparr>tw_applying := False\<rparr> else w)"

definition finishModelUpdateTaskRun :: "nat \<Rightarrow> bool \<Rightarrow> task_world \<Rightarrow> task_world" where
  "finishModelUpdateTaskRun generation clearTaskId w =
     (if \<not> isCurrentModelUpdateTaskRun generation w then w
      else (if clearTaskId then w\<lparr>tw_persisted := [], tw_current := None\<rparr> else w)
             \<lparr>tw_controller := None, tw_detecting := False, tw_applying := False\<rparr>)"

text \<open>The \<open>finally\<close> of a run that never polled.\<close>

definition resolve_finally :: "task_info \<Rightarrow> nat \<Rightarrow> bool \<Rightarrow> task_world \<Rightarrow> task_world" where
  "resolve_finally info c clearTaskId w =
     (if tw_controller w \<noteq> Some c then w
      else (if clearTaskId \<and> tw_persisted w = ti_id info
            then w\<lparr>tw_persisted := [], tw_current := (if tw_current w = Some (ti_id info) then None else tw_current w)\<rparr> else w)
             \<lparr>tw_controller := None\<rparr>)"

text \<open>\<open>pollAndReportModelUpdateTask\<close> until it awaits. A task with a type needs no request.\<close>

definition pollAndReportModelUpdateTask :: "task_info \<Rightarrow> bool \<Rightarrow> jsstring option \<Rightarrow> task_world \<Rightarrow> task_world" where
  "pollAndReportModelUpdateTask info for_apply fallbackType w =
     (if info_type info \<noteq> [] then beginModelUpdateTaskRun (info\<lparr>ti_type := Some (info_type info)\<rparr>) None for_apply w
      else if tw_controller w \<noteq> None then caller_ends for_apply w
      else add_run \<lparr>tr_info = info, tr_for_apply = for_apply, tr_stage = Resolving (tw_controllers w) fallbackType\<rparr>
             (w\<lparr>tw_controller := Some (tw_controllers w), tw_controllers := tw_controllers w + 1\<rparr>))"

text \<open>The end of \<open>resolveModelUpdateTaskStartInfo\<close>.\<close>

definition resolved_info :: "task_info \<Rightarrow> jsstring option \<Rightarrow> jsval + task_answer \<Rightarrow> jsval + task_info" where
  "resolved_info info fallbackType answer =
     (case answer of
        Inl e \<Rightarrow> Inl e
      | Inr a \<Rightarrow>
          (case (ta_success a, ta_task a) of
             (True, Some (status, task)) \<Rightarrow>
               (case asSystemTaskStatus status of
                  None \<Rightarrow> Inl (error_val unknownModelUpdateTaskStatusMessage)
                | Some s \<Rightarrow>
                    let t = info_type task;
                        type = (if t \<noteq> [] then t else (case fallbackType of Some f \<Rightarrow> js_trim f | None \<Rightarrow> [])) in
                    if type = [] then Inl (error_val (js ''Upstream model update task type is missing''))
                    else Inr \<lparr>ti_id = ti_id info, ti_status = Some s, ti_type = Some type\<rparr>)
           | _ \<Rightarrow> Inl (error_val (case ta_message a of Some m \<Rightarrow> m | None \<Rightarrow> []))))"

text \<open>The current task: an error, no task, or a task whose status is known.\<close>

definition getCurrentChannelModelUpdateTask :: "jsval + task_answer \<Rightarrow> jsval + task_info option" where
  "getCurrentChannelModelUpdateTask answer =
     (case answer of
        Inl e \<Rightarrow> Inl e
      | Inr a \<Rightarrow>
          if \<not> ta_success a then Inl (error_val (case ta_message a of Some m \<Rightarrow> m | None \<Rightarrow> []))
          else (case ta_task a of
                  None \<Rightarrow> Inr None
                | Some (status, task) \<Rightarrow>
                    (case asSystemTaskStatus status of
                       None \<Rightarrow> Inl (error_val unknownModelUpdateTaskStatusMessage)
                     | Some s \<Rightarrow> Inr (Some (task\<lparr>ti_status := Some s\<rparr>)))))"

definition run_resolved :: "task_info \<Rightarrow> bool \<Rightarrow> nat \<Rightarrow> jsval + task_info \<Rightarrow> task_world \<Rightarrow> task_world" where
  "run_resolved info for_apply c answer w =
     (case answer of
        Inr resolved \<Rightarrow>
          if c \<in> set (tw_aborted w) then caller_ends for_apply (resolve_finally info c False w)
          else beginModelUpdateTaskRun resolved (Some c) for_apply w
      | Inl e \<Rightarrow>
          if \<not> tw_mounted w \<or> c \<in> set (tw_aborted w) then caller_ends for_apply (resolve_finally info c False w)
          else add_run \<lparr>tr_info = info, tr_for_apply = for_apply,
                 tr_stage = Closing_resolve c (shouldClearPersistedModelUpdateTaskIdAfterPollingError e)\<rparr> w)"

definition run_polled :: "task_info \<Rightarrow> bool \<Rightarrow> nat \<Rightarrow> nat \<Rightarrow> bool \<Rightarrow> bool \<Rightarrow> poll_result \<Rightarrow> task_world \<Rightarrow> task_world" where
  "run_polled info for_apply g c apply_all had_resolver answer w =
     (let stop = caller_ends for_apply (finishModelUpdateTaskRun g False w);
          closing = (\<lambda>clear. add_run \<lparr>tr_info = info, tr_for_apply = for_apply, tr_stage = Closing_run g clear apply_all\<rparr> w) in
      case answer of
        Poll_null \<Rightarrow> stop
      | Poll_task task \<Rightarrow> if \<not> isCurrentModelUpdateTaskRun g w then stop else closing True
      | Poll_error e \<Rightarrow>
          if \<not> tw_mounted w \<or> (had_resolver \<and> c \<in> set (tw_aborted w)) \<or> \<not> isCurrentModelUpdateTaskRun g w then stop
          else closing (shouldClearPersistedModelUpdateTaskIdAfterPollingError e))"

definition run_closed :: "task_run \<Rightarrow> task_world \<Rightarrow> task_world" where
  "run_closed run w =
     (case tr_stage run of
        Closing_run g clear apply_all \<Rightarrow> caller_ends (tr_for_apply run) (finishModelUpdateTaskRun g clear w)
      | Closing_resolve c clear \<Rightarrow> caller_ends (tr_for_apply run) (resolve_finally (tr_info run) c clear w)
      | _ \<Rightarrow> w)"

definition plain_info :: "jsstring \<Rightarrow> task_info" where
  "plain_info taskId = \<lparr>ti_id = taskId, ti_status = None, ti_type = None\<rparr>"

definition forget_task :: "task_world \<Rightarrow> task_world" where
  "forget_task w = w\<lparr>tw_persisted := [], tw_current := None\<rparr>"

definition detect_finally :: "task_world \<Rightarrow> task_world" where
  "detect_finally w = (if tw_mounted w then w\<lparr>tw_detecting := False\<rparr> else w)"

definition detectAllUpdates :: "bool \<Rightarrow> task_world \<Rightarrow> task_world" where
  "detectAllUpdates canDetect w =
     (if \<not> canDetect \<or> tw_detecting w then w
      else add_call (Detect_lookup (tw_persisted w)) (w\<lparr>tw_detecting := True\<rparr>))"

text \<open>What \<open>detectAllUpdates\<close> does with its answers.\<close>

definition detect_fails :: "jsval \<Rightarrow> task_world \<Rightarrow> task_world" where
  "detect_fails e w =
     (case getModelUpdateTaskStartInfo (getErrorPayload e) of
        Some info \<Rightarrow> pollAndReportModelUpdateTask info False None w
      | None \<Rightarrow> detect_finally w)"

definition detect_looked_up :: "bool \<Rightarrow> jsstring \<Rightarrow> jsval + task_info option \<Rightarrow> task_world \<Rightarrow> task_world" where
  "detect_looked_up canAccess persisted answer w =
     (case answer of
        Inl e \<Rightarrow> detect_fails e w
      | Inr None \<Rightarrow>
          if canAccess \<and> js_trim persisted \<noteq> [] then pollAndReportModelUpdateTask (plain_info persisted) False None w
          else add_call Detect_post (w\<lparr>tw_current := None\<rparr>)
      | Inr (Some task) \<Rightarrow>
          let w1 = w\<lparr>tw_current := Some (ti_id task),
                      tw_persisted := (if persisted \<noteq> [] \<and> persisted \<noteq> ti_id task then [] else tw_persisted w)\<rparr> in
          if (case ti_status task of Some s \<Rightarrow> isTerminalTaskStatus s | None \<Rightarrow> False)
          then add_call Detect_refresh (forget_task w1)
          else pollAndReportModelUpdateTask task False None w1)"

definition detect_posted :: "jsval + jsval \<Rightarrow> task_world \<Rightarrow> task_world" where
  "detect_posted answer w =
     (case answer of
        Inl e \<Rightarrow> detect_fails e w
      | Inr payload \<Rightarrow>
          (case (isSuccessPayload payload, getModelUpdateTaskStartInfo payload) of
             (True, Some info) \<Rightarrow>
               if (case ti_status info of Some s \<Rightarrow> isTerminalTaskStatus s | None \<Rightarrow> False)
               then add_call Detect_refresh (forget_task w)
               else pollAndReportModelUpdateTask info False (Some modelUpdateManualTaskType) w
           | _ \<Rightarrow> add_call Detect_refresh w))"

definition applyAllUpdates :: "bool \<Rightarrow> task_world \<Rightarrow> task_world" where
  "applyAllUpdates canApply w =
     (if \<not> canApply \<or> tw_applying w then w else add_call Apply_post (w\<lparr>tw_applying := True\<rparr>))"

definition apply_posted :: "jsval + jsval \<Rightarrow> task_world \<Rightarrow> task_world" where
  "apply_posted answer w =
     (case answer of
        Inl e \<Rightarrow>
          (case getModelUpdateTaskStartInfo (getErrorPayload e) of
             Some info \<Rightarrow> pollAndReportModelUpdateTask info True None w
           | None \<Rightarrow> caller_ends True w)
      | Inr payload \<Rightarrow>
          (case (isSuccessPayload payload, getModelUpdateTaskStartInfo payload) of
             (True, Some info) \<Rightarrow> pollAndReportModelUpdateTask info True (Some modelUpdateApplyAllTaskType) w
           | _ \<Rightarrow> add_call Apply_refresh w))"

text \<open>\<open>lookupCurrentTask\<close> and the effect that resumes a stored task.\<close>

definition idle_for_lookup :: "task_world \<Rightarrow> bool" where
  "idle_for_lookup w \<longleftrightarrow> \<not> tw_detecting w \<and> tw_controller w = None"

definition looked_up :: "jsval + task_info option \<Rightarrow> task_world \<Rightarrow> task_world" where
  "looked_up answer w =
     (if \<not> tw_mounted w then w
      else (case answer of
              Inl e \<Rightarrow> if \<not> isRequestCancelled e \<and> tw_persisted w = [] then w\<lparr>tw_current := None\<rparr> else w
            | Inr (Some task) \<Rightarrow>
                if (case ti_status task of Some s \<Rightarrow> isTerminalTaskStatus s | None \<Rightarrow> False) then forget_task w
                else (let w1 = w\<lparr>tw_current := Some (ti_id task),
                                 tw_persisted := (if tw_persisted w \<noteq> [] \<and> tw_persisted w \<noteq> ti_id task then [] else tw_persisted w)\<rparr> in
                      if idle_for_lookup w1 then pollAndReportModelUpdateTask task False None w1 else w1)
            | Inr None \<Rightarrow>
                if tw_persisted w \<noteq> []
                then (if idle_for_lookup w then pollAndReportModelUpdateTask (plain_info (tw_persisted w)) False None w else w)
                else w\<lparr>tw_current := None\<rparr>))"

definition resume_task :: "task_world \<Rightarrow> task_world" where
  "resume_task w =
     (if \<not> idle_for_lookup w \<or> js_trim (tw_persisted w) = [] then w
      else pollAndReportModelUpdateTask (plain_info (tw_persisted w)) False None w)"

definition cancelModelUpdateTask :: "bool \<Rightarrow> task_world \<Rightarrow> task_world" where
  "cancelModelUpdateTask canAccess w =
     (let current = (case tw_current w of Some i \<Rightarrow> js_trim i | None \<Rightarrow> []);
          taskId = (if current \<noteq> [] then current else tw_persisted w) in
      if \<not> canAccess \<or> tw_cancelling w \<or> taskId = [] then w
      else add_call (Cancel_post taskId current) (w\<lparr>tw_cancelling := True\<rparr>))"

definition stop_tracking :: "task_world \<Rightarrow> task_world" where
  "stop_tracking w =
     (abort_controller w)\<lparr>tw_generation := tw_generation w + 1, tw_controller := None, tw_persisted := [], tw_current := None,
        tw_detecting := False, tw_applying := False\<rparr>"

definition clearTrackedTaskIfMissing :: "jsval \<Rightarrow> jsstring \<Rightarrow> jsstring \<Rightarrow> task_world \<Rightarrow> task_world" where
  "clearTrackedTaskIfMissing error taskId current w =
     (if shouldClearPersistedModelUpdateTaskIdAfterPollingError error
         \<and> (tw_persisted w = taskId \<or> (tw_persisted w = [] \<and> current = taskId))
      then stop_tracking w else w)"

definition cancel_answered :: "jsstring \<Rightarrow> jsstring \<Rightarrow> jsval + jsval \<Rightarrow> task_world \<Rightarrow> task_world" where
  "cancel_answered taskId current answer w =
     add_call Cancel_refresh
       (case answer of
          Inl e \<Rightarrow> clearTrackedTaskIfMissing e taskId current w
        | Inr payload \<Rightarrow>
            if isSuccessPayload payload then stop_tracking w
            else clearTrackedTaskIfMissing (VObj [(js ''response'', VObj [(js ''data'', payload)])]) taskId current w)"

definition unmount_tasks :: "task_world \<Rightarrow> task_world" where
  "unmount_tasks w = (abort_controller w)\<lparr>tw_mounted := False, tw_generation := tw_generation w + 1, tw_controller := None\<rparr>"

subsection \<open>The step relation\<close>

text \<open>\<open>Lookup_dropped\<close>: the effect that looks tasks up was cleaned up in the meantime, so that the answer of its lookup is ignored.
  \<open>Resume_due\<close> may come at any time while the hook is mounted; the code runs the effect when its dependencies change.\<close>

datatype task_event =
    Click_detect bool
  | Click_apply bool
  | Click_cancel bool
  | Lookup_due
  | Resume_due
  | Call_answered bool "jsval + jsval" "jsval + task_answer"
  | Lookup_dropped
  | Resolve_answered "jsval + task_answer"
  | Poll_ended poll_result
  | Refreshed
  | Unmounted

definition without_call :: "nat \<Rightarrow> task_world \<Rightarrow> task_world" where
  "without_call k w = w\<lparr>tw_calls := take k (tw_calls w) @ drop (k + 1) (tw_calls w)\<rparr>"

definition without_run :: "nat \<Rightarrow> task_world \<Rightarrow> task_world" where
  "without_run k w = w\<lparr>tw_runs := take k (tw_runs w) @ drop (k + 1) (tw_runs w)\<rparr>"

fun call_answered :: "bool \<Rightarrow> jsval + jsval \<Rightarrow> jsval + task_answer \<Rightarrow> task_call \<Rightarrow> task_world \<Rightarrow> task_world" where
  "call_answered canAccess posted found (Detect_lookup persisted) w = detect_looked_up canAccess persisted (getCurrentChannelModelUpdateTask found) w"
| "call_answered canAccess posted found Detect_post w = detect_posted posted w"
| "call_answered canAccess posted found Detect_refresh w = detect_finally w"
| "call_answered canAccess posted found Apply_post w = apply_posted posted w"
| "call_answered canAccess posted found Apply_refresh w = caller_ends True w"
| "call_answered canAccess posted found Lookup_current w = looked_up (getCurrentChannelModelUpdateTask found) w"
| "call_answered canAccess posted found (Cancel_post taskId current) w = cancel_answered taskId current posted w"
| "call_answered canAccess posted found Cancel_refresh w = w\<lparr>tw_cancelling := False\<rparr>"

inductive task_step :: "task_world \<Rightarrow> task_event \<Rightarrow> task_world \<Rightarrow> bool" where
  Click_detect: "task_step w (Click_detect canDetect) (detectAllUpdates canDetect w)"
| Click_apply: "task_step w (Click_apply canApply) (applyAllUpdates canApply w)"
| Click_cancel: "task_step w (Click_cancel canAccess) (cancelModelUpdateTask canAccess w)"
| Lookup_due: "tw_mounted w \<Longrightarrow> Lookup_current \<notin> set (tw_calls w) \<Longrightarrow> task_step w Lookup_due (add_call Lookup_current w)"
| Resume_due: "tw_mounted w \<Longrightarrow> task_step w Resume_due (resume_task w)"
| Call_answered: "k < length (tw_calls w) \<Longrightarrow>
    task_step w (Call_answered canAccess posted found) (call_answered canAccess posted found (tw_calls w ! k) (without_call k w))"
| Lookup_dropped: "k < length (tw_calls w) \<Longrightarrow> tw_calls w ! k = Lookup_current \<Longrightarrow> task_step w Lookup_dropped (without_call k w)"
| Resolve_answered: "k < length (tw_runs w) \<Longrightarrow> tr_stage (tw_runs w ! k) = Resolving c fallback \<Longrightarrow>
    task_step w (Resolve_answered answer)
      (run_resolved (tr_info (tw_runs w ! k)) (tr_for_apply (tw_runs w ! k)) c
         (resolved_info (tr_info (tw_runs w ! k)) fallback answer) (without_run k w))"
| Poll_ended: "k < length (tw_runs w) \<Longrightarrow> tr_stage (tw_runs w ! k) = Polling g c apply_all had_resolver \<Longrightarrow>
    task_step w (Poll_ended result)
      (run_polled (tr_info (tw_runs w ! k)) (tr_for_apply (tw_runs w ! k)) g c apply_all had_resolver result (without_run k w))"
| Refreshed: "k < length (tw_runs w) \<Longrightarrow> (\<exists>g clear a. tr_stage (tw_runs w ! k) = Closing_run g clear a) \<or> (\<exists>c clear. tr_stage (tw_runs w ! k) = Closing_resolve c clear) \<Longrightarrow>
    task_step w Refreshed (run_closed (tw_runs w ! k) (without_run k w))"
| Unmounted: "task_step w Unmounted (unmount_tasks w)"

inductive task_reachable :: "task_world \<Rightarrow> bool" where
  task_start: "task_reachable (mounted_world persisted)"
| task_next: "task_reachable w \<Longrightarrow> task_step w e w' \<Longrightarrow> task_reachable w'"

inductive_cases task_stepE: "task_step w e w'"

subsection \<open>What the hook keeps\<close>

text \<open>The run that holds the controller: it resolves with it, or polls in the current generation.\<close>

definition holds_controller :: "nat \<Rightarrow> nat \<Rightarrow> task_run \<Rightarrow> bool" where
  "holds_controller generation c run \<longleftrightarrow>
     (case tr_stage run of
        Resolving c' fallback \<Rightarrow> c' = c
      | Closing_resolve c' clear \<Rightarrow> c' = c
      | Polling g c' a r \<Rightarrow> g = generation
      | Closing_run g clear a \<Rightarrow> g = generation)"

definition current_run :: "nat \<Rightarrow> task_run \<Rightarrow> bool" where
  "current_run generation run \<longleftrightarrow>
     (case tr_stage run of Polling g c a r \<Rightarrow> g = generation | Closing_run g clear a \<Rightarrow> g = generation | _ \<Rightarrow> False)"

text \<open>Somebody who will reset the flag of the batch application is in flight.\<close>

definition apply_in_flight :: "task_world \<Rightarrow> bool" where
  "apply_in_flight w \<longleftrightarrow>
     Apply_post \<in> set (tw_calls w) \<or> Apply_refresh \<in> set (tw_calls w)
     \<or> list_ex tr_for_apply (tw_runs w) \<or> list_ex (current_run (tw_generation w)) (tw_runs w)"

definition cancel_call :: "task_call \<Rightarrow> bool" where
  "cancel_call call \<longleftrightarrow> (case call of Cancel_post taskId current \<Rightarrow> True | Cancel_refresh \<Rightarrow> True | _ \<Rightarrow> False)"

definition controller_held :: "task_world \<Rightarrow> bool" where
  "controller_held w \<longleftrightarrow> (\<forall>c. tw_mounted w \<and> tw_controller w = Some c \<longrightarrow> list_ex (holds_controller (tw_generation w) c) (tw_runs w))"

definition apply_tracked :: "task_world \<Rightarrow> bool" where
  "apply_tracked w \<longleftrightarrow> (tw_mounted w \<and> tw_applying w \<longrightarrow> apply_in_flight w)"

definition cancel_tracked :: "task_world \<Rightarrow> bool" where
  "cancel_tracked w \<longleftrightarrow> (tw_cancelling w \<longrightarrow> list_ex cancel_call (tw_calls w))"

lemmas task_invs = controller_held_def apply_tracked_def apply_in_flight_def holds_controller_def current_run_def

lemmas task_prims = add_run_def add_call_def abort_controller_def set_flag_def caller_ends_def without_run_def without_call_def

lemma abort_controller_fields [simp]:
  "tw_mounted (abort_controller w) = tw_mounted w" "tw_runs (abort_controller w) = tw_runs w" "tw_calls (abort_controller w) = tw_calls w"
  "tw_generation (abort_controller w) = tw_generation w" "tw_applying (abort_controller w) = tw_applying w"
  "tw_cancelling (abort_controller w) = tw_cancelling w" "tw_controller (abort_controller w) = tw_controller w"
  "tw_detecting (abort_controller w) = tw_detecting w" "tw_persisted (abort_controller w) = tw_persisted w"
  by (simp_all add: abort_controller_def split: option.split)

lemma begin_ok:
  "controller_held (beginModelUpdateTaskRun info existing for_apply w)" "apply_tracked (beginModelUpdateTaskRun info existing for_apply w)"
  "tw_cancelling (beginModelUpdateTaskRun info existing for_apply w) = tw_cancelling w"
  "tw_calls (beginModelUpdateTaskRun info existing for_apply w) = tw_calls w"
  by (simp_all add: beginModelUpdateTaskRun_def Let_def task_invs add_run_def set_flag_def)

lemma poll_ok:
  "controller_held w \<Longrightarrow> controller_held (pollAndReportModelUpdateTask info for_apply fallback w)"
  "for_apply \<or> apply_tracked w \<Longrightarrow> apply_tracked (pollAndReportModelUpdateTask info for_apply fallback w)"
  "tw_cancelling (pollAndReportModelUpdateTask info for_apply fallback w) = tw_cancelling w"
  "tw_calls (pollAndReportModelUpdateTask info for_apply fallback w) = tw_calls w"
     apply (auto simp: pollAndReportModelUpdateTask_def begin_ok caller_ends_def)
       apply (auto simp: task_invs add_run_def)
  done

text \<open>The end of a run. What the removed run held is released.\<close>

lemma resolve_ok:
  assumes "\<forall>c'. tw_mounted w \<and> tw_controller w = Some c' \<and> c' \<noteq> c \<longrightarrow> list_ex (holds_controller (tw_generation w) c') (tw_runs w)"
  shows "controller_held (caller_ends for_apply (resolve_finally info c clear w))"
  using assms by (auto simp: resolve_finally_def caller_ends_def task_invs split: if_splits)

lemma finish_ok:
  assumes "tw_generation w \<noteq> g \<Longrightarrow> controller_held w"
  shows "controller_held (caller_ends for_apply (finishModelUpdateTaskRun g clear w))"
  using assms by (auto simp: finishModelUpdateTaskRun_def isCurrentModelUpdateTaskRun_def caller_ends_def task_invs split: if_splits)

lemma resolve_apply_ok: "for_apply \<or> apply_tracked w \<Longrightarrow> apply_tracked (caller_ends for_apply (resolve_finally info c clear w))"
  by (auto simp: resolve_finally_def caller_ends_def task_invs)

lemma finish_apply_ok:
  "for_apply \<or> tw_generation w = g \<or> apply_tracked w \<Longrightarrow> apply_tracked (caller_ends for_apply (finishModelUpdateTaskRun g clear w))"
  by (auto simp: finishModelUpdateTaskRun_def isCurrentModelUpdateTaskRun_def caller_ends_def task_invs)

lemma list_ex_removed:
  assumes "list_ex Q xs" "k < length xs"
  shows "list_ex Q (take k xs @ drop (k + 1) xs) \<or> Q (xs ! k)"
proof -
  have "set xs = insert (xs ! k) (set (take k xs @ drop (k + 1) xs))"
    using arg_cong [OF id_take_nth_drop [OF assms(2)], of set] by auto
  then show ?thesis using assms(1) by (auto simp: list_ex_iff)
qed

lemma removed_run:
  assumes "k < length (tw_runs w)"
  shows "controller_held w \<Longrightarrow> tw_mounted w \<Longrightarrow> tw_controller w = Some c \<Longrightarrow>
      list_ex (holds_controller (tw_generation w) c) (tw_runs (without_run k w)) \<or> holds_controller (tw_generation w) c (tw_runs w ! k)"
    and "apply_tracked w \<Longrightarrow> apply_tracked (without_run k w) \<or> tr_for_apply (tw_runs w ! k) \<or> current_run (tw_generation w) (tw_runs w ! k)"
  using list_ex_removed [OF _ assms]
  by (auto simp: controller_held_def apply_tracked_def apply_in_flight_def without_run_def)

lemma resolved_ok:
  assumes k: "k < length (tw_runs w)" and st: "tr_stage (tw_runs w ! k) = Resolving c fallback" and ok: "controller_held w" "apply_tracked w"
  shows "controller_held (run_resolved info (tr_for_apply (tw_runs w ! k)) c answer (without_run k w))"
    and "apply_tracked (run_resolved info (tr_for_apply (tw_runs w ! k)) c answer (without_run k w))"
proof -
  let ?w = "without_run k w" and ?f = "tr_for_apply (tw_runs w ! k)"
  have ctl: "\<forall>c'. tw_mounted ?w \<and> tw_controller ?w = Some c' \<and> c' \<noteq> c \<longrightarrow> list_ex (holds_controller (tw_generation ?w) c') (tw_runs ?w)"
    using removed_run(1) [OF k ok(1)] st by (auto simp: without_run_def holds_controller_def)
  have app: "?f \<or> apply_tracked ?w" using removed_run(2) [OF k ok(2)] st by (auto simp: current_run_def)
  have add: "controller_held (add_run \<lparr>tr_info = info, tr_for_apply = ?f, tr_stage = Closing_resolve c clear\<rparr> ?w)"
    "apply_tracked (add_run \<lparr>tr_info = info, tr_for_apply = ?f, tr_stage = Closing_resolve c clear\<rparr> ?w)" for clear
    using ctl app by (auto simp: task_invs add_run_def)
  show "controller_held (run_resolved info ?f c answer ?w)" "apply_tracked (run_resolved info ?f c answer ?w)"
    using resolve_ok [OF ctl] resolve_apply_ok [OF app] add begin_ok by (auto simp: run_resolved_def split: sum.split)
qed

lemma polled_ok:
  assumes k: "k < length (tw_runs w)" and st: "tr_stage (tw_runs w ! k) = Polling g c a r" and ok: "controller_held w" "apply_tracked w"
  shows "controller_held (run_polled info (tr_for_apply (tw_runs w ! k)) g c a r answer (without_run k w))"
    and "apply_tracked (run_polled info (tr_for_apply (tw_runs w ! k)) g c a r answer (without_run k w))"
proof -
  let ?w = "without_run k w" and ?f = "tr_for_apply (tw_runs w ! k)"
  have ctl: "controller_held ?w" if "tw_generation ?w \<noteq> g"
    using removed_run(1) [OF k ok(1)] st that by (auto simp: without_run_def holds_controller_def controller_held_def)
  have app: "?f \<or> tw_generation ?w = g \<or> apply_tracked ?w"
    using removed_run(2) [OF k ok(2)] st by (auto simp: current_run_def without_run_def)
  have add: "controller_held (add_run \<lparr>tr_info = info, tr_for_apply = ?f, tr_stage = Closing_run g clear a\<rparr> ?w)"
    "apply_tracked (add_run \<lparr>tr_info = info, tr_for_apply = ?f, tr_stage = Closing_run g clear a\<rparr> ?w)" for clear
    using ctl app by (auto simp: task_invs add_run_def)
  show "controller_held (run_polled info ?f g c a r answer ?w)" "apply_tracked (run_polled info ?f g c a r answer ?w)"
    using finish_ok [of ?w g ?f, OF ctl] finish_apply_ok [OF app] add by (auto simp: run_polled_def Let_def split: poll_result.split)
qed

lemma closed_ok:
  assumes k: "k < length (tw_runs w)" and ok: "controller_held w" "apply_tracked w"
    and st: "(\<exists>g clear a. tr_stage (tw_runs w ! k) = Closing_run g clear a) \<or> (\<exists>c clear. tr_stage (tw_runs w ! k) = Closing_resolve c clear)"
  shows "controller_held (run_closed (tw_runs w ! k) (without_run k w))" and "apply_tracked (run_closed (tw_runs w ! k) (without_run k w))"
proof -
  let ?w = "without_run k w" and ?r = "tw_runs w ! k"
  have "controller_held (run_closed ?r ?w) \<and> apply_tracked (run_closed ?r ?w)"
  proof (cases "tr_stage ?r")
    case (Closing_run g clear a)
    have ctl: "controller_held ?w" if "tw_generation ?w \<noteq> g"
      using removed_run(1) [OF k ok(1)] Closing_run that by (auto simp: without_run_def holds_controller_def controller_held_def)
    have app: "tr_for_apply ?r \<or> tw_generation ?w = g \<or> apply_tracked ?w"
      using removed_run(2) [OF k ok(2)] Closing_run by (auto simp: current_run_def without_run_def)
    show ?thesis using finish_ok [of ?w g, OF ctl] finish_apply_ok [OF app] Closing_run by (simp add: run_closed_def)
  next
    case (Closing_resolve c clear)
    have ctl: "\<forall>c'. tw_mounted ?w \<and> tw_controller ?w = Some c' \<and> c' \<noteq> c \<longrightarrow> list_ex (holds_controller (tw_generation ?w) c') (tw_runs ?w)"
      using removed_run(1) [OF k ok(1)] Closing_resolve by (auto simp: without_run_def holds_controller_def)
    have app: "tr_for_apply ?r \<or> apply_tracked ?w" using removed_run(2) [OF k ok(2)] Closing_resolve by (auto simp: current_run_def)
    show ?thesis using resolve_ok [OF ctl] resolve_apply_ok [OF app] Closing_resolve by (simp add: run_closed_def)
  qed (use st in auto)
  then show "controller_held (run_closed ?r ?w)" "apply_tracked (run_closed ?r ?w)" by blast+
qed

text \<open>Calls.\<close>

definition tracked :: "task_world \<Rightarrow> bool" where
  "tracked w \<longleftrightarrow> controller_held w \<and> apply_tracked w \<and> cancel_tracked w"

lemma tracked_simps [simp]:
  "tracked (w\<lparr>tw_current := x\<rparr>) = tracked w" "tracked (w\<lparr>tw_persisted := y\<rparr>) = tracked w" "tracked (w\<lparr>tw_detecting := d\<rparr>) = tracked w"
  "tracked (forget_task w) = tracked w" "tracked (detect_finally w) = tracked w"
  by (simp_all add: tracked_def task_invs cancel_tracked_def forget_task_def detect_finally_def)

lemma tracked_call: "tracked w \<Longrightarrow> tracked (add_call call w)"
  by (auto simp: tracked_def task_invs cancel_tracked_def add_call_def)

lemma tracked_poll: "tracked w \<Longrightarrow> tracked (pollAndReportModelUpdateTask info for_apply fallback w)"
  using poll_ok by (simp add: tracked_def cancel_tracked_def)

lemma tracked_ends: "tracked w \<Longrightarrow> tracked (caller_ends for_apply w)"
  by (auto simp: tracked_def task_invs cancel_tracked_def caller_ends_def)

lemma tracked_stop: "cancel_tracked w \<Longrightarrow> tracked (stop_tracking w)"
  by (simp add: tracked_def task_invs cancel_tracked_def stop_tracking_def)

lemma tracked_detect:
  assumes "tracked w"
  shows "tracked (detect_fails e w)" "tracked (detect_looked_up canAccess persisted found w)" "tracked (detect_posted posted w)" "tracked (looked_up found w)"
    "tracked (resume_task w)"
  using assms tracked_poll tracked_call
  by (auto simp: detect_fails_def detect_looked_up_def detect_posted_def looked_up_def resume_task_def Let_def
      split: sum.split option.split bool.split)

text \<open>The call that is answered is the only one that may have kept a flag.\<close>

lemma removed_call:
  assumes k: "k < length (tw_calls w)" and t: "tracked w"
  shows "controller_held (without_call k w)"
    and "apply_tracked (without_call k w) \<or> tw_calls w ! k \<in> {Apply_post, Apply_refresh}"
    and "cancel_tracked (without_call k w) \<or> cancel_call (tw_calls w ! k)"
proof -
  have s: "set (tw_calls w) = insert (tw_calls w ! k) (set (take k (tw_calls w) @ drop (k + 1) (tw_calls w)))"
    using arg_cong [OF id_take_nth_drop [OF k], of set] by auto
  show "controller_held (without_call k w)" using t by (simp add: tracked_def task_invs without_call_def)
  have "apply_in_flight w \<Longrightarrow> apply_in_flight (without_call k w) \<or> tw_calls w ! k \<in> {Apply_post, Apply_refresh}"
    unfolding apply_in_flight_def without_call_def using s by auto
  then show "apply_tracked (without_call k w) \<or> tw_calls w ! k \<in> {Apply_post, Apply_refresh}"
    using t by (auto simp: tracked_def apply_tracked_def without_call_def)
  show "cancel_tracked (without_call k w) \<or> cancel_call (tw_calls w ! k)"
    using t list_ex_removed [OF _ k, of cancel_call] by (auto simp: tracked_def cancel_tracked_def without_call_def)
qed

lemma tracked_applied:
  assumes "controller_held w" "cancel_tracked w"
  shows "tracked (apply_posted posted w)" "tracked (caller_ends True w)"
proof -
  have poll: "tracked (pollAndReportModelUpdateTask info True fallback w)" for info fallback
    using poll_ok assms by (simp add: tracked_def cancel_tracked_def)
  show ends: "tracked (caller_ends True w)" using assms by (simp add: tracked_def task_invs cancel_tracked_def caller_ends_def)
  have "tracked (add_call Apply_refresh w)" using assms by (auto simp: tracked_def task_invs cancel_tracked_def add_call_def)
  then show "tracked (apply_posted posted w)" using poll ends by (auto simp: apply_posted_def split: sum.split option.split bool.split)
qed

lemma tracked_cancelled:
  assumes "controller_held w" "apply_tracked w"
  shows "tracked (cancel_answered taskId current posted w)" "tracked (w\<lparr>tw_cancelling := False\<rparr>)"
proof -
  have stop: "tracked (add_call Cancel_refresh (stop_tracking w))"
    by (simp add: tracked_def task_invs cancel_tracked_def stop_tracking_def add_call_def cancel_call_def)
  have stay: "tracked (add_call Cancel_refresh w)"
    using assms by (simp add: tracked_def task_invs cancel_tracked_def add_call_def cancel_call_def)
  show "tracked (cancel_answered taskId current posted w)"
    using stop stay by (simp add: cancel_answered_def clearTrackedTaskIfMissing_def split: sum.split)
  show "tracked (w\<lparr>tw_cancelling := False\<rparr>)" using assms by (simp add: tracked_def task_invs cancel_tracked_def)
qed

lemma tracked_answered:
  assumes "k < length (tw_calls w)" "tracked w"
  shows "tracked (call_answered canAccess posted found (tw_calls w ! k) (without_call k w))"
proof -
  let ?w = "without_call k w" and ?c = "tw_calls w ! k"
  note r = removed_call [OF assms]
  have plain: "tracked ?w" if "?c \<notin> {Apply_post, Apply_refresh}" "\<not> cancel_call ?c" using r that by (simp add: tracked_def)
  have app: "tracked (apply_posted posted ?w)" "tracked (caller_ends True ?w)" if "\<not> cancel_call ?c"
    using r that tracked_applied by blast+
  have can: "tracked (cancel_answered taskId current posted ?w)" "tracked (?w\<lparr>tw_cancelling := False\<rparr>)"
    if "?c \<notin> {Apply_post, Apply_refresh}" for taskId current
    using r that tracked_cancelled by blast+
  show ?thesis using plain app can tracked_detect [of ?w] by (cases ?c) (simp_all add: cancel_call_def)
qed

lemma run_calls:
  "tw_cancelling (run_resolved info f c answer w) = tw_cancelling w \<and> tw_calls (run_resolved info f c answer w) = tw_calls w"
  "tw_cancelling (run_polled info f g c a r result w) = tw_cancelling w \<and> tw_calls (run_polled info f g c a r result w) = tw_calls w"
  "tw_cancelling (run_closed run w) = tw_cancelling w \<and> tw_calls (run_closed run w) = tw_calls w"
  by (auto simp: run_resolved_def run_polled_def run_closed_def begin_ok resolve_finally_def finishModelUpdateTaskRun_def
      caller_ends_def add_run_def Let_def split: sum.split poll_result.split run_stage.split)

lemma tracked_step:
  assumes step: "task_step w e w'" and t: "tracked w"
  shows "tracked w'"
  using step
proof (cases rule: task_step.cases)
  case (Click_detect canDetect)
  then show ?thesis using t tracked_call by (simp add: detectAllUpdates_def)
next
  case (Click_apply canApply)
  then show ?thesis using t by (auto simp: applyAllUpdates_def tracked_def task_invs cancel_tracked_def add_call_def)
next
  case (Click_cancel canAccess)
  then show ?thesis using t
    by (auto simp: cancelModelUpdateTask_def Let_def tracked_def task_invs cancel_tracked_def add_call_def cancel_call_def)
next
  case (Call_answered k canAccess posted found)
  then show ?thesis using tracked_answered [OF _ t] by simp
next
  case (Lookup_dropped k)
  then show ?thesis using removed_call [OF Lookup_dropped(3) t] by (simp add: tracked_def cancel_call_def)
next
  case (Resolve_answered k c fallback answer)
  then show ?thesis using resolved_ok [OF Resolve_answered(3,4)] t
    by (simp add: tracked_def cancel_tracked_def run_calls) (simp add: without_run_def)
next
  case (Poll_ended k g c a r result)
  then show ?thesis using polled_ok [OF Poll_ended(3,4)] t
    by (simp add: tracked_def cancel_tracked_def run_calls) (simp add: without_run_def)
next
  case (Refreshed k)
  then show ?thesis using closed_ok [OF Refreshed(3) _ _ Refreshed(4)] t
    by (simp add: tracked_def cancel_tracked_def run_calls) (simp add: without_run_def)
next
  case Unmounted
  then show ?thesis using t by (simp add: unmount_tasks_def tracked_def task_invs cancel_tracked_def)
qed (use t tracked_call tracked_detect in auto)

lemma tracked_reachable: "task_reachable w \<Longrightarrow> tracked w"
proof (induction rule: task_reachable.induct)
  case (task_start persisted)
  then show ?case by (simp add: mounted_world_def tracked_def task_invs cancel_tracked_def)
next
  case (task_next w e w')
  then show ?case using tracked_step by blast
qed

text \<open>
  C36: When nothing is in flight any more, the hook follows no task: its controller is free, so that the next lookup can
  resume a task, and neither the batch application nor a cancellation is shown as running, whatever the order of answers,
  clicks and timers was.
\<close>

theorem update_tasks_settle:
  assumes "task_reachable w" and "tw_mounted w" and "tw_runs w = []" and "tw_calls w = []"
  shows "tw_controller w = None \<and> \<not> tw_applying w \<and> \<not> tw_cancelling w"
proof -
  have "tracked w" by (rule tracked_reachable [OF assms(1)])
  then show ?thesis using assms(2-4)
    by (cases "tw_controller w") (auto simp: tracked_def controller_held_def apply_tracked_def apply_in_flight_def cancel_tracked_def)
qed

subsection \<open>A detection that never ends\<close>

text \<open>The answer that no task is current.\<close>

definition no_task :: task_answer where
  "no_task = \<lparr>ta_success = True, ta_task = None, ta_message = None\<rparr>"

text \<open>
  C37: A batch detection can stay shown as running for ever. When the page detects all updates, no task is current, and the stored task
  cannot be resolved, the run ends without a word to the detection, which has handed its flag over: nothing is in flight any more,
  the flag is still set, further clicks do nothing and lookups without a task do not start anything.
\<close>

theorem detect_all_stuck:
  assumes "tw_mounted w" "tw_controller w = None" "\<not> tw_detecting w" "tw_runs w = []" "tw_calls w = []"
    and "js_trim (tw_persisted w) \<noteq> []" and "tw_controllers w \<notin> set (tw_aborted w)"
  shows "\<exists>w1 w2 w3 w4. task_step w (Click_detect True) w1 \<and> task_step w1 (Call_answered True posted (Inr no_task)) w2
    \<and> task_step w2 (Resolve_answered (Inl e)) w3 \<and> task_step w3 Refreshed w4
    \<and> tw_mounted w4 \<and> tw_detecting w4 \<and> tw_runs w4 = [] \<and> tw_calls w4 = []
    \<and> (shouldClearPersistedModelUpdateTaskIdAfterPollingError e \<longrightarrow> tw_persisted w4 = [])
    \<and> detectAllUpdates True w4 = w4 \<and> resume_task w4 = w4
    \<and> tw_detecting (looked_up (Inr None) w4) \<and> tw_runs (looked_up (Inr None) w4) = []"
proof -
  let ?i = "plain_info (tw_persisted w)" and ?c = "tw_controllers w"
  let ?clear = "shouldClearPersistedModelUpdateTaskIdAfterPollingError e"
  define w1 where "w1 = w\<lparr>tw_detecting := True, tw_calls := [Detect_lookup (tw_persisted w)]\<rparr>"
  define w2 where "w2 = w\<lparr>tw_detecting := True, tw_controller := Some ?c, tw_controllers := ?c + 1,
      tw_runs := [\<lparr>tr_info = ?i, tr_for_apply = False, tr_stage = Resolving ?c None\<rparr>]\<rparr>"
  define w3 where "w3 = w2\<lparr>tw_runs := [\<lparr>tr_info = ?i, tr_for_apply = False, tr_stage = Closing_resolve ?c ?clear\<rparr>]\<rparr>"
  define w4 where "w4 = run_closed (tw_runs w3 ! 0) (without_run 0 w3)"
  have "detectAllUpdates True w = w1" using assms by (simp add: detectAllUpdates_def add_call_def w1_def)
  then have s1: "task_step w (Click_detect True) w1" using task_step.Click_detect [of w True] by simp
  have "call_answered True posted (Inr no_task) (tw_calls w1 ! 0) (without_call 0 w1) = w2"
    using assms by (simp add: w1_def w2_def without_call_def detect_looked_up_def pollAndReportModelUpdateTask_def info_type_def plain_info_def
        add_run_def getCurrentChannelModelUpdateTask_def no_task_def)
  then have s2: "task_step w1 (Call_answered True posted (Inr no_task)) w2"
    using task_step.Call_answered [of 0 w1 True posted "Inr no_task"] by (simp add: w1_def)
  have "run_resolved ?i False ?c (resolved_info ?i None (Inl e)) (without_run 0 w2) = w3"
    using assms by (simp add: w2_def w3_def run_resolved_def resolved_info_def without_run_def add_run_def)
  then have s3: "task_step w2 (Resolve_answered (Inl e)) w3"
    using task_step.Resolve_answered [of 0 w2 ?c None "Inl e"] by (simp add: w2_def)
  have s4: "task_step w3 Refreshed w4" unfolding w4_def by (rule task_step.Refreshed) (simp_all add: w3_def)
  have w4: "tw_mounted w4" "tw_detecting w4" "tw_runs w4 = []" "tw_calls w4 = []" "?clear \<longrightarrow> tw_persisted w4 = []"
    using assms by (simp_all add: w4_def w3_def w2_def run_closed_def without_run_def resolve_finally_def caller_ends_def plain_info_def)
  then have "detectAllUpdates True w4 = w4" "resume_task w4 = w4" "tw_detecting (looked_up (Inr None) w4)" "tw_runs (looked_up (Inr None) w4) = []"
    by (simp_all add: detectAllUpdates_def resume_task_def idle_for_lookup_def looked_up_def)
  then show ?thesis using s1 s2 s3 s4 w4 by blast
qed

definition missing_error :: jsval where
  "missing_error = VObj [(js ''response'', VObj [(js ''status'', VNum (JFin 404))])]"

theorem detect_all_stuck_witness:
  "\<exists>w. task_reachable w \<and> tw_mounted w \<and> tw_detecting w \<and> tw_runs w = [] \<and> tw_calls w = [] \<and> tw_persisted w = []"
proof -
  let ?w = "mounted_world (js ''t1'')"
  have "shouldClearPersistedModelUpdateTaskIdAfterPollingError missing_error" by code_simp
  moreover have "tw_mounted ?w" "tw_controller ?w = None" "\<not> tw_detecting ?w" "tw_runs ?w = []" "tw_calls ?w = []"
      "js_trim (tw_persisted ?w) \<noteq> []" "tw_controllers ?w \<notin> set (tw_aborted ?w)" by code_simp+
  moreover note detect_all_stuck [of ?w "Inl VNull" missing_error]
  ultimately show ?thesis using task_reachable.intros by meson
qed

theorem update_tasks_settle_witness:
  "tw_applying (applyAllUpdates True (mounted_world []))
   \<and> \<not> tw_applying (call_answered True (Inl VNull) (Inr no_task) Apply_post (without_call 0 (applyAllUpdates True (mounted_world []))))"
proof -
  let ?start = "applyAllUpdates True (mounted_world [])"
  let ?w = "call_answered True (Inl VNull) (Inr no_task) (tw_calls ?start ! 0) (without_call 0 ?start)"
  have start: "task_reachable ?start" by (rule task_next [OF task_start task_step.Click_apply])
  have c: "tw_calls ?start ! 0 = Apply_post" and pending: "0 < length (tw_calls ?start)" by code_simp+
  have w: "task_reachable ?w" by (rule task_next [OF start task_step.Call_answered [OF pending]])
  have "tw_mounted ?w" "tw_runs ?w = []" "tw_calls ?w = []" by code_simp+
  from update_tasks_settle [OF w this] have "\<not> tw_applying ?w" by blast
  moreover have "tw_applying ?start" by code_simp
  ultimately show ?thesis unfolding c by blast
qed

end
