(* ===== verification/Auth_Store.thy ===== *)
theory Auth_Store
  imports Js_Value
begin

section \<open>The authentication store\<close>

text \<open>
  \<open>web/src/stores/auth-store.ts\<close>: the state that the client keeps about the signed-in user, with
  the five operations of the store, and \<open>web/src/lib/session-hint.ts\<close>. A user is kept as the
  object the server sent, next to the three fields that \<open>isAuthUser\<close> checks; a login session is the
  record of its eight fields. The pending verification is opaque.
\<close>

record auth_user =
  au_id :: jsnum
  au_username :: jsstring
  au_role :: jsnum
  au_object :: jsval

record login_session =
  ls_sid :: jsstring
  ls_current :: bool
  ls_login_method :: jsstring
  ls_ip :: jsstring
  ls_user_agent :: jsstring
  ls_created_at :: jsnum
  ls_last_active_at :: jsnum
  ls_expires_at :: jsnum

record auth_bundle =
  ab_access_token :: jsstring
  ab_token_type :: jsstring
  ab_access_expires_at :: jsnum
  ab_user :: auth_user
  ab_session :: login_session

datatype bootstrap_state = Idle | Checking | Complete

record auth_state =
  as_user :: "auth_user option"
  as_token :: "jsstring option"
  as_expires :: "jsnum option"
  as_session :: "login_session option"
  as_pending :: "jsval option"
  as_bootstrap :: bootstrap_state

definition initial_auth :: auth_state where
  "initial_auth = \<lparr>as_user = None, as_token = None, as_expires = None, as_session = None,
     as_pending = None, as_bootstrap = Idle\<rparr>"

definition setBundle :: "auth_bundle \<Rightarrow> auth_state \<Rightarrow> auth_state" where
  "setBundle bundle auth =
     auth\<lparr>as_user := Some (ab_user bundle), as_token := Some (ab_access_token bundle),
       as_expires := Some (ab_access_expires_at bundle), as_session := Some (ab_session bundle),
       as_pending := None, as_bootstrap := Complete\<rparr>"

text \<open>\<open>state.auth.user?.id === user?.id\<close>, where both may be undefined.\<close>

definition same_user_id :: "auth_user option \<Rightarrow> auth_user option \<Rightarrow> bool" where
  "same_user_id u v =
     (case (u, v) of
        (None, None) \<Rightarrow> True
      | (Some u, Some v) \<Rightarrow> js_num_eq (au_id u) (au_id v)
      | _ \<Rightarrow> False)"

definition setUser :: "auth_user option \<Rightarrow> auth_state \<Rightarrow> auth_state" where
  "setUser user auth =
     auth\<lparr>as_user := user,
       as_pending := (if same_user_id (as_user auth) user then as_pending auth else None)\<rparr>"

definition setPendingLoginVerification :: "jsval option \<Rightarrow> auth_state \<Rightarrow> auth_state" where
  "setPendingLoginVerification pending auth = auth\<lparr>as_pending := pending\<rparr>"

definition setBootstrapState :: "bootstrap_state \<Rightarrow> auth_state \<Rightarrow> auth_state" where
  "setBootstrapState bootstrap auth = auth\<lparr>as_bootstrap := bootstrap\<rparr>"

definition reset_auth :: "bootstrap_state \<Rightarrow> auth_state \<Rightarrow> auth_state" where
  "reset_auth bootstrap auth =
     auth\<lparr>as_user := None, as_token := None, as_expires := None, as_session := None,
       as_pending := None, as_bootstrap := bootstrap\<rparr>"

lemmas store_defs =
  setBundle_def setUser_def setPendingLoginVerification_def setBootstrapState_def reset_auth_def

text \<open>The three credentials are present together, and are well formed.\<close>

definition credentials_ok :: "auth_state \<Rightarrow> bool" where
  "credentials_ok auth \<longleftrightarrow>
     (case (as_token auth, as_expires auth, as_session auth) of
        (None, None, None) \<Rightarrow> True
      | (Some token, Some expires, Some session) \<Rightarrow>
          token \<noteq> [] \<and> js_is_finite expires \<and> js_lt (JFin 0) expires \<and> ls_sid session \<noteq> []
      | _ \<Rightarrow> False)"

definition bundle_ok :: "auth_bundle \<Rightarrow> bool" where
  "bundle_ok bundle \<longleftrightarrow>
     ab_access_token bundle \<noteq> [] \<and> ab_token_type bundle \<noteq> []
     \<and> js_is_finite (ab_access_expires_at bundle) \<and> js_lt (JFin 0) (ab_access_expires_at bundle)
     \<and> ls_sid (ab_session bundle) \<noteq> []"

lemma credentials_kept [simp]:
  "bundle_ok bundle \<Longrightarrow> credentials_ok (setBundle bundle auth)"
  "credentials_ok (setUser user auth) = credentials_ok auth"
  "credentials_ok (setPendingLoginVerification pending auth) = credentials_ok auth"
  "credentials_ok (setBootstrapState bootstrap auth) = credentials_ok auth"
  "credentials_ok (reset_auth bootstrap auth)"
  "credentials_ok initial_auth"
  by (simp_all add: store_defs credentials_ok_def bundle_ok_def initial_auth_def)

subsection \<open>The session hint\<close>

text \<open>The text before and after the first occurrence of a character, when there is one.\<close>

fun split_first :: "nat \<Rightarrow> jsstring \<Rightarrow> (jsstring \<times> jsstring) option" where
  "split_first sep [] = None"
| "split_first sep (c # s) =
     (if c = sep then Some ([], s) else map_option (\<lambda>(a, b). (c # a, b)) (split_first sep s))"

lemma split_first_Some: "split_first sep s = Some (a, b) \<longleftrightarrow> s = a @ sep # b \<and> sep \<notin> set a"
proof (induction s arbitrary: a)
  case (Cons c s)
  show ?case
  proof (cases a)
    case Nil
    then show ?thesis by (auto split: option.splits)
  next
    case (Cons d ds)
    with Cons.IH [of ds] show ?thesis by (cases "split_first sep s") auto
  qed
qed simp

lemma split_first_None: "split_first sep s = None \<longleftrightarrow> sep \<notin> set s"
  by (induction s) auto

fun cookie_of_parts :: "jsstring \<Rightarrow> jsstring list \<Rightarrow> jsstring option" where
  "cookie_of_parts name [] = None"
| "cookie_of_parts name (part # parts) =
     (case split_first 61 part of
        None \<Rightarrow> cookie_of_parts name parts
      | Some (key, rest) \<Rightarrow>
          if js_trim key = name then Some (js_trim rest) else cookie_of_parts name parts)"

definition readCookie :: "jsstring \<Rightarrow> jsstring \<Rightarrow> jsstring option" where
  "readCookie cookie_header name = cookie_of_parts name (js_split 59 cookie_header)"

definition SESSION_HINT_COOKIE_NAME :: jsstring where
  "SESSION_HINT_COOKIE_NAME = js ''new_api_has_session''"

text \<open>\<open>None\<close> stands for an environment without a document.\<close>

definition hasSessionHint :: "jsstring option \<Rightarrow> bool" where
  "hasSessionHint cookies =
     (case cookies of
        None \<Rightarrow> True
      | Some header \<Rightarrow> readCookie header SESSION_HINT_COOKIE_NAME \<noteq> None)"

end
