(* ===== verification/Auth_Session.thy ===== *)
theory Auth_Session
  imports Auth_Store
begin

section \<open>The session: refreshing and resolving authentication\<close>

text \<open>
  \<open>web/src/lib/auth-session.ts\<close>. The module keeps, next to the store, an epoch that grows with
  every sign-in and sign-out and the promise of the refresh in flight. A refresh is a state machine:
  it waits for the browser lock, for a response, or for a delay after a race, and every time it
  continues it first compares its epoch with the module's, because the store may have changed while
  it waited. The network, the lock, the clock and the other handlers of the page are the
  environment: their answers are the labels of the step relation \<open>auth_step\<close>.

  \<open>applySavedLanguage\<close> and the translation of messages are not part of the model.
\<close>

subsection \<open>Checks of server values\<close>

definition isRecord :: "jsval \<Rightarrow> bool" where
  "isRecord v \<longleftrightarrow> js_truthy v \<and> is_object_val v"

fun positive_integer :: "jsval \<Rightarrow> bool" where
  "positive_integer (VNum x) = (js_is_integer x \<and> js_lt (JFin 0) x)"
| "positive_integer _ = False"

fun nonempty_string :: "jsval \<Rightarrow> bool" where
  "nonempty_string (VStr s) = (s \<noteq> [])"
| "nonempty_string _ = False"

fun positive_finite :: "jsval \<Rightarrow> bool" where
  "positive_finite (VNum x) = (js_is_finite x \<and> js_lt (JFin 0) x)"
| "positive_finite _ = False"

definition isAuthUser :: "jsval \<Rightarrow> bool" where
  "isAuthUser v \<longleftrightarrow>
     isRecord v \<and> positive_integer (js_get v (js ''id'')) \<and> is_string_val (js_get v (js ''username''))
     \<and> is_number_val (js_get v (js ''role''))"

definition isLoginSession :: "jsval \<Rightarrow> bool" where
  "isLoginSession v \<longleftrightarrow>
     isRecord v \<and> nonempty_string (js_get v (js ''sid'')) \<and> is_boolean_val (js_get v (js ''current''))
     \<and> is_string_val (js_get v (js ''login_method'')) \<and> is_string_val (js_get v (js ''ip''))
     \<and> is_string_val (js_get v (js ''user_agent'')) \<and> is_number_val (js_get v (js ''created_at''))
     \<and> is_number_val (js_get v (js ''last_active_at'')) \<and> is_number_val (js_get v (js ''expires_at''))"

definition hasValidTokenFields :: "jsval \<Rightarrow> bool" where
  "hasValidTokenFields v \<longleftrightarrow>
     nonempty_string (js_get v (js ''access_token'')) \<and> nonempty_string (js_get v (js ''token_type''))
     \<and> positive_finite (js_get v (js ''access_expires_at''))"

definition isAuthBundle :: "jsval \<Rightarrow> bool" where
  "isAuthBundle v \<longleftrightarrow>
     isRecord v \<and> hasValidTokenFields v \<and> isAuthUser (js_get v (js ''user''))
     \<and> isLoginSession (js_get v (js ''session''))"

definition isAuthTokenRotation :: "jsval \<Rightarrow> bool" where
  "isAuthTokenRotation v \<longleftrightarrow>
     isRecord v \<and> hasValidTokenFields v \<and> js_get v (js ''token_type'') = VStr (js ''Bearer'')
     \<and> isLoginSession (js_get v (js ''session''))
     \<and> js_get (js_get v (js ''session'')) (js ''current'') = VBool True"

text \<open>Reading the checked fields.\<close>

fun string_at :: "jsval \<Rightarrow> jsstring" where
  "string_at (VStr s) = s"
| "string_at _ = []"

fun number_at :: "jsval \<Rightarrow> jsnum" where
  "number_at (VNum x) = x"
| "number_at _ = JNaN"

fun boolean_at :: "jsval \<Rightarrow> bool" where
  "boolean_at (VBool b) = b"
| "boolean_at _ = False"

definition user_of :: "jsval \<Rightarrow> auth_user" where
  "user_of v = \<lparr>au_id = number_at (js_get v (js ''id'')), au_username = string_at (js_get v (js ''username'')),
     au_role = number_at (js_get v (js ''role'')), au_object = v\<rparr>"

definition session_of :: "jsval \<Rightarrow> login_session" where
  "session_of v = \<lparr>ls_sid = string_at (js_get v (js ''sid'')), ls_current = boolean_at (js_get v (js ''current'')),
     ls_login_method = string_at (js_get v (js ''login_method'')), ls_ip = string_at (js_get v (js ''ip'')),
     ls_user_agent = string_at (js_get v (js ''user_agent'')),
     ls_created_at = number_at (js_get v (js ''created_at'')),
     ls_last_active_at = number_at (js_get v (js ''last_active_at'')),
     ls_expires_at = number_at (js_get v (js ''expires_at''))\<rparr>"

definition bundle_of :: "jsval \<Rightarrow> auth_bundle" where
  "bundle_of v = \<lparr>ab_access_token = string_at (js_get v (js ''access_token'')),
     ab_token_type = string_at (js_get v (js ''token_type'')),
     ab_access_expires_at = number_at (js_get v (js ''access_expires_at'')),
     ab_user = user_of (js_get v (js ''user'')), ab_session = session_of (js_get v (js ''session''))\<rparr>"

definition parseBundle :: "jsval \<Rightarrow> auth_bundle option" where
  "parseBundle v = (if isAuthBundle v then Some (bundle_of v) else None)"

subsection \<open>The refresh runner\<close>

datatype fault = Fault_superseded | Fault_lock | Fault_value jsval

datatype 'b refresh_outcome =
    Authenticated 'b
  | Anonymous
  | Transient_error fault
  | Out_of_sync "jsstring option"

record refresh_response =
  re_status :: nat
  re_data :: jsval
  re_error :: jsval

text \<open>\<open>AuthRefreshRuntime\<close>: what a runner needs. \<open>request\<close> and \<open>wait\<close> are asynchronous and are
  answered by the environment; \<open>isCurrent\<close> is optional.\<close>

record ('s, 'b) refresh_runtime =
  rt_expected_sid :: "'s \<Rightarrow> jsstring option"
  rt_parse :: "jsval \<Rightarrow> 'b option"
  rt_accept :: "'b \<Rightarrow> 's \<Rightarrow> 's"
  rt_clear :: "bool \<Rightarrow> bootstrap_state option \<Rightarrow> 's \<Rightarrow> 's"
  rt_transient :: "'s \<Rightarrow> 's"
  rt_current :: "('s \<Rightarrow> bool) option"

definition refreshRaceDelays :: "nat list" where
  "refreshRaceDelays = [80, 200, 500]"

text \<open>Where a run stands: it asked for a response and remembers its race attempt and whether a
  mismatch may be retried, it waits for a delay, or it has an outcome.\<close>

datatype 'b run_progress =
    Requesting nat bool "jsstring option"
  | Delaying nat bool nat
  | Finished "'b refresh_outcome"

definition run_current :: "('s, 'b) refresh_runtime \<Rightarrow> 's \<Rightarrow> bool" where
  "run_current R s = (case rt_current R of None \<Rightarrow> True | Some isCurrent \<Rightarrow> isCurrent s)"

definition superseded :: "'b refresh_outcome" where
  "superseded = Transient_error Fault_superseded"

definition run_begin :: "('s, 'b) refresh_runtime \<Rightarrow> nat \<Rightarrow> bool \<Rightarrow> 's \<Rightarrow> 'b run_progress" where
  "run_begin R attempt allow s =
     (if \<not> run_current R s then Finished superseded
      else Requesting attempt allow (rt_expected_sid R s))"

definition response_data :: "refresh_response \<Rightarrow> jsval" where
  "response_data r = (if isRecord (re_data r) then re_data r else VUndefined)"

definition response_code :: "refresh_response \<Rightarrow> jsstring option" where
  "response_code r =
     (case js_get (response_data r) (js ''code'') of VStr code \<Rightarrow> Some code | _ \<Rightarrow> None)"

definition response_bundle :: "('s, 'b) refresh_runtime \<Rightarrow> refresh_response \<Rightarrow> 'b option" where
  "response_bundle R r =
     (if js_get (response_data r) (js ''success'') = VBool True
      then rt_parse R (js_get (response_data r) (js ''data'')) else None)"

definition race_code :: jsstring where
  "race_code = js ''AUTH_REFRESH_RACE''"

definition mismatch_code :: jsstring where
  "mismatch_code = js ''AUTH_SESSION_MISMATCH''"

definition transient_status :: "nat \<Rightarrow> bool" where
  "transient_status status \<longleftrightarrow> status = 0 \<or> 500 \<le> status \<or> status = 429"

definition run_failure ::
  "('s, 'b) refresh_runtime \<Rightarrow> nat \<Rightarrow> bool \<Rightarrow> refresh_response \<Rightarrow> 's \<Rightarrow> 'b run_progress \<times> 's" where
  "run_failure R attempt allow r s =
     (if re_status r = 409 \<and> response_code r = Some race_code
      then (if attempt < length refreshRaceDelays
            then (Delaying (attempt + 1) allow (refreshRaceDelays ! attempt), s)
            else (Finished (Out_of_sync (response_code r)), rt_clear R False None s))
      else if re_status r = 409 \<and> response_code r = Some mismatch_code
      then (if allow
            then (run_begin R 0 False (rt_clear R False (Some Idle) s), rt_clear R False (Some Idle) s)
            else (Finished (Out_of_sync (response_code r)), rt_clear R False None s))
      else if re_status r = 401 then (Finished Anonymous, rt_clear R True None s)
      else if transient_status (re_status r)
      then (Finished (Transient_error (Fault_value
              (if is_nullish (re_error r) then re_data r else re_error r))), rt_transient R s)
      else (Finished (Out_of_sync (Some (case response_code r of
              Some code \<Rightarrow> code | None \<Rightarrow> js ''AUTH_INVALID_REFRESH_RESPONSE''))), rt_clear R False None s))"

definition run_response ::
  "('s, 'b) refresh_runtime \<Rightarrow> nat \<Rightarrow> bool \<Rightarrow> refresh_response \<Rightarrow> 's \<Rightarrow> 'b run_progress \<times> 's" where
  "run_response R attempt allow r s =
     (if \<not> run_current R s then (Finished superseded, s)
      else (case response_bundle R r of
              Some bundle \<Rightarrow> (Finished (Authenticated bundle), rt_accept R bundle s)
            | None \<Rightarrow> run_failure R attempt allow r s))"

text \<open>\<open>createRefreshRunner\<close> returns \<open>() => run(0, true)\<close>.\<close>

definition createRefreshRunner :: "('s, 'b) refresh_runtime \<Rightarrow> 's \<Rightarrow> 'b run_progress" where
  "createRefreshRunner R s = run_begin R 0 True s"

subsection \<open>The module state and its operations\<close>

datatype sync_kind = Event_authenticated | Event_signed_out

text \<open>A refresh in flight, with its epoch: waiting for the browser lock, running, or settled but
  not yet cleared by the \<open>finally\<close> handler. \<open>None\<close> is a rejected promise.\<close>

datatype refresh_phase =
    Awaiting_lock
  | Running "auth_bundle run_progress"
  | Settled "auth_bundle refresh_outcome option"

record refresh_run =
  run_epoch :: nat
  run_phase :: refresh_phase

record session_world =
  sw_auth :: auth_state
  sw_epoch :: nat
  sw_refresh :: "refresh_run option"
  sw_events :: "(sync_kind \<times> jsstring) list"
  sw_query_clears :: nat

definition initial_world :: session_world where
  "initial_world = \<lparr>sw_auth = initial_auth, sw_epoch = 0, sw_refresh = None, sw_events = [],
     sw_query_clears = 0\<rparr>"

definition on_auth :: "(auth_state \<Rightarrow> auth_state) \<Rightarrow> session_world \<Rightarrow> session_world" where
  "on_auth f w = w\<lparr>sw_auth := f (sw_auth w)\<rparr>"

definition session_sid :: "session_world \<Rightarrow> jsstring option" where
  "session_sid w = map_option ls_sid (as_session (sw_auth w))"

definition publishAuthSessionEvent :: "sync_kind \<Rightarrow> jsstring \<Rightarrow> session_world \<Rightarrow> session_world" where
  "publishAuthSessionEvent kind sid w =
     (if sid = [] then w else w\<lparr>sw_events := sw_events w @ [(kind, sid)]\<rparr>)"

definition applyAuthBundle :: "auth_bundle \<Rightarrow> bool \<Rightarrow> session_world \<Rightarrow> session_world" where
  "applyAuthBundle bundle synchronize w =
     (let w' = on_auth (setBundle bundle) (w\<lparr>sw_epoch := sw_epoch w + 1\<rparr>)
      in if synchronize \<and> session_sid w \<noteq> Some (ls_sid (ab_session bundle))
         then publishAuthSessionEvent Event_authenticated (ls_sid (ab_session bundle)) w' else w')"

datatype rotation_error = Invalid_rotation | No_active_session | Session_mismatch

text \<open>The bundle that a rotation makes with the user of the store.\<close>

definition rotation_bundle :: "jsval \<Rightarrow> auth_user \<Rightarrow> auth_bundle" where
  "rotation_bundle v user =
     \<lparr>ab_access_token = string_at (js_get v (js ''access_token'')),
      ab_token_type = string_at (js_get v (js ''token_type'')),
      ab_access_expires_at = number_at (js_get v (js ''access_expires_at'')),
      ab_user = user, ab_session = session_of (js_get v (js ''session''))\<rparr>"

definition applyAuthRotation :: "jsval \<Rightarrow> session_world \<Rightarrow> rotation_error + session_world" where
  "applyAuthRotation v w =
     (if \<not> isAuthTokenRotation v then Inl Invalid_rotation
      else (case (as_user (sw_auth w), as_session (sw_auth w)) of
              (Some user, Some session) \<Rightarrow>
                if ls_sid (session_of (js_get v (js ''session''))) \<noteq> ls_sid session
                then Inl Session_mismatch
                else Inr (applyAuthBundle (rotation_bundle v user) False w)
            | _ \<Rightarrow> Inl No_active_session))"

definition clearAuthentication :: "bool \<Rightarrow> bootstrap_state \<Rightarrow> session_world \<Rightarrow> session_world" where
  "clearAuthentication synchronize bootstrap w =
     (let w' = on_auth (reset_auth bootstrap) (w\<lparr>sw_epoch := sw_epoch w + 1\<rparr>)
      in case session_sid w of
           Some sid \<Rightarrow> if synchronize then publishAuthSessionEvent Event_signed_out sid w' else w'
         | None \<Rightarrow> w')"

definition clearAuthenticatedClientState :: "bool \<Rightarrow> session_world \<Rightarrow> session_world" where
  "clearAuthenticatedClientState synchronize w =
     clearAuthentication synchronize Complete (w\<lparr>sw_query_clears := sw_query_clears w + 1\<rparr>)"

text \<open>The runtime that \<open>runRefresh\<close> gives to the runner.\<close>

definition clear_for_run :: "bool \<Rightarrow> bootstrap_state option \<Rightarrow> session_world \<Rightarrow> session_world" where
  "clear_for_run synchronize bootstrap w =
     (if \<not> synchronize \<and> bootstrap = Some Idle then on_auth (reset_auth Idle) w
      else clearAuthentication synchronize (case bootstrap of Some b \<Rightarrow> b | None \<Rightarrow> Complete) w)"

definition browser_runtime :: "nat \<Rightarrow> (session_world, auth_bundle) refresh_runtime" where
  "browser_runtime epoch =
     \<lparr>rt_expected_sid = session_sid, rt_parse = parseBundle,
      rt_accept = (\<lambda>bundle. applyAuthBundle bundle False), rt_clear = clear_for_run,
      rt_transient = on_auth (setBootstrapState Idle),
      rt_current = Some (\<lambda>w. sw_epoch w = epoch)\<rparr>"

definition phase_of :: "auth_bundle run_progress \<Rightarrow> refresh_phase" where
  "phase_of progress = (case progress of Finished outcome \<Rightarrow> Settled (Some outcome) | _ \<Rightarrow> Running progress)"

definition with_run :: "nat \<Rightarrow> refresh_phase \<Rightarrow> session_world \<Rightarrow> session_world" where
  "with_run epoch phase w = w\<lparr>sw_refresh := Some \<lparr>run_epoch = epoch, run_phase = phase\<rparr>\<rparr>"

definition runRefresh :: "nat \<Rightarrow> session_world \<Rightarrow> session_world" where
  "runRefresh epoch w = with_run epoch (phase_of (createRefreshRunner (browser_runtime epoch) w)) w"

text \<open>How the browser lock answers the call: there are no locks, the request waits, or it throws.\<close>

datatype lock_answer = No_locks | Lock_waits | Lock_throws

definition performRefreshWithBrowserLock :: "lock_answer \<Rightarrow> nat \<Rightarrow> session_world \<Rightarrow> session_world" where
  "performRefreshWithBrowserLock lock epoch w =
     (case lock of
        No_locks \<Rightarrow> runRefresh epoch w
      | Lock_waits \<Rightarrow> with_run epoch Awaiting_lock w
      | Lock_throws \<Rightarrow>
          with_run epoch (Settled (Some (Transient_error Fault_lock))) (on_auth (setBootstrapState Idle) w))"

definition refreshAuthentication :: "lock_answer \<Rightarrow> session_world \<Rightarrow> session_world" where
  "refreshAuthentication lock w =
     (case sw_refresh w of
        Some _ \<Rightarrow> w
      | None \<Rightarrow> performRefreshWithBrowserLock lock (sw_epoch w) w)"

subsection \<open>Resolving authentication\<close>

text \<open>\<open>now\<close> is \<open>Math.floor(Date.now() / 1000)\<close>.\<close>

definition token_present :: "auth_state \<Rightarrow> bool" where
  "token_present auth \<longleftrightarrow>
     (case as_token auth of Some token \<Rightarrow> token \<noteq> [] | None \<Rightarrow> False)
     \<and> (case as_expires auth of Some x \<Rightarrow> js_truthy (VNum x) | None \<Rightarrow> False)"

definition currentValidAuthBundle :: "nat \<Rightarrow> session_world \<Rightarrow> auth_bundle option" where
  "currentValidAuthBundle now w =
     (case (as_user (sw_auth w), as_token (sw_auth w), as_expires (sw_auth w), as_session (sw_auth w)) of
        (Some user, Some token, Some expires, Some session) \<Rightarrow>
          if \<not> token_present (sw_auth w) \<or> js_le expires (JFin (of_nat now)) then None
          else Some \<lparr>ab_access_token = token, ab_token_type = js ''Bearer'',
                 ab_access_expires_at = expires, ab_user = user, ab_session = session\<rparr>
      | _ \<Rightarrow> None)"

text \<open>\<open>Some\<close> is an answer at once, \<open>None\<close> means that the caller awaits the refresh.\<close>

definition resolveAuthentication ::
  "lock_answer \<Rightarrow> nat \<Rightarrow> session_world \<Rightarrow> auth_bundle refresh_outcome option \<times> session_world" where
  "resolveAuthentication lock now w =
     (case currentValidAuthBundle now w of
        Some bundle \<Rightarrow> (Some (Authenticated bundle), on_auth (setBootstrapState Complete) w)
      | None \<Rightarrow>
          if as_bootstrap (sw_auth w) = Complete
             \<and> \<not> (as_user (sw_auth w) \<noteq> None \<and> as_session (sw_auth w) \<noteq> None)
          then (Some Anonymous, w)
          else (None, refreshAuthentication lock (on_auth (setBootstrapState Checking) w)))"

definition bootstrapAuthentication ::
  "jsstring option \<Rightarrow> lock_answer \<Rightarrow> nat \<Rightarrow> session_world
   \<Rightarrow> auth_bundle refresh_outcome option \<times> session_world" where
  "bootstrapAuthentication cookies lock now w =
     (if currentValidAuthBundle now w = None \<and> \<not> hasSessionHint cookies
         \<and> as_user (sw_auth w) = None \<and> as_session (sw_auth w) = None
      then (Some Anonymous, w)
      else resolveAuthentication lock now w)"

definition getCommonHeaders :: "jsstring \<Rightarrow> session_world \<Rightarrow> (jsstring \<times> jsstring) list" where
  "getCommonHeaders locale_name w =
     [(js ''Content-Type'', js ''application/json''), (js ''Accept-Language'', locale_name)]
     @ (case as_token (sw_auth w) of
          Some token \<Rightarrow> if token \<noteq> [] then [(js ''Authorization'', js ''Bearer '' @ token)] else []
        | None \<Rightarrow> [])"

text \<open>\<open>getFreshAuthHeaders\<close> before and after it awaits the refresh.\<close>

definition token_lasts :: "nat \<Rightarrow> session_world \<Rightarrow> bool" where
  "token_lasts until w \<longleftrightarrow>
     token_present (sw_auth w)
     \<and> (case as_expires (sw_auth w) of Some x \<Rightarrow> js_lt (JFin (of_nat until)) x | None \<Rightarrow> False)"

definition fresh_headers_start ::
  "lock_answer \<Rightarrow> jsstring \<Rightarrow> nat \<Rightarrow> session_world \<Rightarrow> (jsstring \<times> jsstring) list option \<times> session_world" where
  "fresh_headers_start lock locale_name now w =
     (if token_lasts (now + 60) w then (Some (getCommonHeaders locale_name w), w)
      else (None, refreshAuthentication lock w))"

datatype headers_error = Request_failed fault | Session_expired

definition fresh_headers_finish ::
  "jsstring \<Rightarrow> nat \<Rightarrow> auth_bundle refresh_outcome \<Rightarrow> session_world
   \<Rightarrow> headers_error + (jsstring \<times> jsstring) list" where
  "fresh_headers_finish locale_name now outcome w =
     (case outcome of
        Authenticated _ \<Rightarrow> Inr (getCommonHeaders locale_name w)
      | _ \<Rightarrow>
          if token_lasts now w then Inr (getCommonHeaders locale_name w)
          else (case outcome of
                  Transient_error error \<Rightarrow> Inl (Request_failed error)
                | _ \<Rightarrow> Inl Session_expired))"

subsection \<open>The step relation\<close>

text \<open>What may happen between two turns of the event loop: calls of the module's functions by the
  page, and the answers that the refresh in flight waits for.\<close>

datatype auth_event =
    Call_refresh lock_answer
  | Call_resolve lock_answer nat
  | Call_bootstrap "jsstring option" lock_answer nat
  | Sign_in auth_bundle bool
  | Rotate jsval
  | Sign_out bool bootstrap_state
  | Clear_client bool
  | Set_user "auth_user option"
  | Set_pending "jsval option"
  | Lock_granted
  | Lock_rejected
  | Response refresh_response
  | Delay_over
  | Finalize

fun is_run_event :: "auth_event \<Rightarrow> bool" where
  "is_run_event Lock_granted = True"
| "is_run_event Lock_rejected = True"
| "is_run_event (Response _) = True"
| "is_run_event Delay_over = True"
| "is_run_event _ = False"

definition continue_run :: "nat \<Rightarrow> auth_bundle run_progress \<times> session_world \<Rightarrow> session_world" where
  "continue_run epoch result = with_run epoch (phase_of (fst result)) (snd result)"

inductive auth_step :: "session_world \<Rightarrow> auth_event \<Rightarrow> session_world \<Rightarrow> bool" where
  Call_refresh: "auth_step w (Call_refresh lock) (refreshAuthentication lock w)"
| Call_resolve: "auth_step w (Call_resolve lock now) (snd (resolveAuthentication lock now w))"
| Call_bootstrap:
    "auth_step w (Call_bootstrap cookies lock now) (snd (bootstrapAuthentication cookies lock now w))"
| Sign_in: "bundle_ok bundle \<Longrightarrow> auth_step w (Sign_in bundle synchronize) (applyAuthBundle bundle synchronize w)"
| Rotate: "applyAuthRotation v w = Inr w' \<Longrightarrow> auth_step w (Rotate v) w'"
| Rotate_fails: "applyAuthRotation v w = Inl e \<Longrightarrow> auth_step w (Rotate v) w"
| Sign_out: "auth_step w (Sign_out synchronize bootstrap) (clearAuthentication synchronize bootstrap w)"
| Clear_client: "auth_step w (Clear_client synchronize) (clearAuthenticatedClientState synchronize w)"
| Set_user: "auth_step w (Set_user user) (on_auth (setUser user) w)"
| Set_pending: "auth_step w (Set_pending pending) (on_auth (setPendingLoginVerification pending) w)"
| Lock_granted:
    "sw_refresh w = Some \<lparr>run_epoch = epoch, run_phase = Awaiting_lock\<rparr> \<Longrightarrow>
     auth_step w Lock_granted (runRefresh epoch w)"
| Lock_rejected:
    "sw_refresh w = Some \<lparr>run_epoch = epoch, run_phase = Awaiting_lock\<rparr> \<Longrightarrow>
     auth_step w Lock_rejected (with_run epoch (Settled None) w)"
| Response:
    "sw_refresh w = Some \<lparr>run_epoch = epoch, run_phase = Running (Requesting attempt allow sid)\<rparr> \<Longrightarrow>
     auth_step w (Response r) (continue_run epoch (run_response (browser_runtime epoch) attempt allow r w))"
| Delay_over:
    "sw_refresh w = Some \<lparr>run_epoch = epoch, run_phase = Running (Delaying attempt allow delay)\<rparr> \<Longrightarrow>
     auth_step w Delay_over
       (with_run epoch (phase_of (run_begin (browser_runtime epoch) attempt allow w)) w)"
| Finalize:
    "sw_refresh w = Some \<lparr>run_epoch = epoch, run_phase = Settled outcome\<rparr> \<Longrightarrow>
     auth_step w Finalize (w\<lparr>sw_refresh := None\<rparr>)"

inductive auth_steps :: "session_world \<Rightarrow> auth_event list \<Rightarrow> session_world \<Rightarrow> bool" where
  auth_steps_Nil: "auth_steps w [] w"
| auth_steps_Cons: "auth_step w e w' \<Longrightarrow> auth_steps w' es w'' \<Longrightarrow> auth_steps w (e # es) w''"

inductive_cases auth_stepE: "auth_step w e w'"
inductive_simps auth_step_response_simps: "auth_step w (Response r) w'"

lemma auth_steps_one: "auth_step w e w' \<Longrightarrow> auth_steps w [e] w'"
  by (blast intro: auth_steps.intros)

lemma auth_steps_two: "auth_step w e w' \<Longrightarrow> auth_step w' f w'' \<Longrightarrow> auth_steps w [e, f] w''"
  by (blast intro: auth_steps.intros)

definition reachable :: "session_world \<Rightarrow> bool" where
  "reachable w \<longleftrightarrow> (\<exists>es. auth_steps initial_world es w)"

subsection \<open>The contract of a runtime\<close>

text \<open>
  What the runner relies on. \<open>inv\<close> is an invariant of the state that accepting a parsed bundle,
  clearing and marking keep; the clearing before the retry of a mismatch must leave the run current
  and must forget the session, or the retry would be superseded by its own run or would name the
  same session again.
\<close>

locale refresh_contract =
  fixes R :: "('s, 'b) refresh_runtime"
    and inv :: "'s \<Rightarrow> bool"
  assumes accept_inv: "inv s \<Longrightarrow> rt_parse R v = Some b \<Longrightarrow> inv (rt_accept R b s)"
    and clear_inv: "inv s \<Longrightarrow> inv (rt_clear R synchronize bootstrap s)"
    and transient_inv: "inv s \<Longrightarrow> inv (rt_transient R s)"
    and retry_current: "run_current R s \<Longrightarrow> run_current R (rt_clear R False (Some Idle) s)"
    and retry_sid: "rt_expected_sid R (rt_clear R False (Some Idle) s) = None"
begin

lemma stale_response: "\<not> run_current R s \<Longrightarrow> run_response R attempt allow r s = (Finished superseded, s)"
  by (simp add: run_response_def)

lemma failure_inv: "inv s \<Longrightarrow> inv (snd (run_failure R attempt allow r s))"
  by (simp add: run_failure_def clear_inv transient_inv)

lemma response_inv: "inv s \<Longrightarrow> inv (snd (run_response R attempt allow r s))"
  by (auto simp: run_response_def response_bundle_def failure_inv accept_inv split: option.splits if_splits)

lemma retry_names_no_session:
  assumes "run_current R s" and "response_bundle R r = None"
    and "re_status r = 409" and "response_code r = Some mismatch_code"
  shows "fst (run_response R attempt True r s) = Requesting 0 False None"
  using assms retry_current [OF assms(1)] retry_sid [of s]
  by (simp add: run_response_def run_failure_def run_begin_def race_code_def mismatch_code_def)

lemma accepted_bundle:
  assumes "run_response R attempt allow r s = (Finished (Authenticated b), s')"
  shows "run_current R s \<and> rt_parse R (js_get (response_data r) (js ''data'')) = Some b \<and> s' = rt_accept R b s"
  using assms by (auto simp: run_response_def run_failure_def run_begin_def superseded_def response_bundle_def
      split: if_splits option.splits)

end

subsection \<open>The browser runtime keeps the contract\<close>

lemma auth_on_auth [simp]: "sw_auth (on_auth f w) = f (sw_auth w)" "sw_epoch (on_auth f w) = sw_epoch w"
  "sw_events (on_auth f w) = sw_events w" "sw_refresh (on_auth f w) = sw_refresh w"
  by (simp_all add: on_auth_def)

lemma auth_publish [simp]: "sw_auth (publishAuthSessionEvent kind sid w) = sw_auth w"
  "sw_epoch (publishAuthSessionEvent kind sid w) = sw_epoch w"
  "sw_refresh (publishAuthSessionEvent kind sid w) = sw_refresh w"
  by (simp_all add: publishAuthSessionEvent_def)

lemma auth_apply [simp]: "sw_auth (applyAuthBundle bundle synchronize w) = setBundle bundle (sw_auth w)"
  "sw_epoch (applyAuthBundle bundle synchronize w) = sw_epoch w + 1"
  "sw_refresh (applyAuthBundle bundle synchronize w) = sw_refresh w"
  by (simp_all add: applyAuthBundle_def Let_def)

lemma auth_clear [simp]: "sw_auth (clearAuthentication synchronize bootstrap w) = reset_auth bootstrap (sw_auth w)"
  "sw_epoch (clearAuthentication synchronize bootstrap w) = sw_epoch w + 1"
  "sw_refresh (clearAuthentication synchronize bootstrap w) = sw_refresh w"
  by (simp_all add: clearAuthentication_def Let_def split: option.split)

lemma auth_clear_client [simp]:
  "sw_auth (clearAuthenticatedClientState synchronize w) = reset_auth Complete (sw_auth w)"
  "sw_epoch (clearAuthenticatedClientState synchronize w) = sw_epoch w + 1"
  "sw_refresh (clearAuthenticatedClientState synchronize w) = sw_refresh w"
  by (simp_all add: clearAuthenticatedClientState_def)

lemma nonempty_stringE: "nonempty_string v \<Longrightarrow> string_at v \<noteq> []"
  by (cases v) auto

lemma positive_finiteE: "positive_finite v \<Longrightarrow> js_is_finite (number_at v) \<and> js_lt (JFin 0) (number_at v)"
  by (cases v) auto

lemma parsed_bundle_ok: "parseBundle v = Some b \<Longrightarrow> bundle_ok b"
  by (auto simp: parseBundle_def bundle_of_def bundle_ok_def isAuthBundle_def hasValidTokenFields_def
      isLoginSession_def session_of_def nonempty_stringE positive_finiteE simp del: js_Cons split: if_splits)

definition credentials_valid :: "session_world \<Rightarrow> bool" where
  "credentials_valid w = credentials_ok (sw_auth w)"

interpretation browser: refresh_contract "browser_runtime epoch" credentials_valid for epoch
proof unfold_locales
  fix s v b synchronize bootstrap
  assume inv: "credentials_valid s"
  show "rt_parse (browser_runtime epoch) v = Some b \<Longrightarrow> credentials_valid (rt_accept (browser_runtime epoch) b s)"
    using parsed_bundle_ok by (simp add: browser_runtime_def credentials_valid_def)
  show "credentials_valid (rt_clear (browser_runtime epoch) synchronize bootstrap s)"
    by (simp add: browser_runtime_def credentials_valid_def clear_for_run_def)
  show "credentials_valid (rt_transient (browser_runtime epoch) s)"
    using inv by (simp add: browser_runtime_def credentials_valid_def)
qed (simp_all add: browser_runtime_def run_current_def clear_for_run_def session_sid_def reset_auth_def)

subsection \<open>Invariants of the module state\<close>

definition world_ok :: "session_world \<Rightarrow> bool" where
  "world_ok w \<longleftrightarrow>
     credentials_valid w
     \<and> (case sw_refresh w of
          None \<Rightarrow> True
        | Some run \<Rightarrow> run_epoch run \<le> sw_epoch w \<and> (\<forall>outcome. run_phase run \<noteq> Running (Finished outcome)))"

lemma phase_of_not_finished [simp]: "phase_of progress \<noteq> Running (Finished outcome)"
  by (cases progress) (auto simp: phase_of_def)

lemma response_epoch:
  "sw_epoch w \<le> sw_epoch (snd (run_response (browser_runtime epoch) attempt allow r w))"
  by (auto simp: run_response_def run_failure_def browser_runtime_def clear_for_run_def split: option.splits)

lemma world_ok_with_run:
  "credentials_valid w \<Longrightarrow> epoch \<le> sw_epoch w \<Longrightarrow> (\<forall>outcome. phase \<noteq> Running (Finished outcome)) \<Longrightarrow>
   world_ok (with_run epoch phase w)"
  by (simp add: world_ok_def with_run_def credentials_valid_def)

lemma world_ok_refresh: "world_ok w \<Longrightarrow> world_ok (refreshAuthentication lock w)"
  by (auto simp: refreshAuthentication_def performRefreshWithBrowserLock_def runRefresh_def
      intro!: world_ok_with_run split: option.split lock_answer.split)
    (auto simp: world_ok_def credentials_valid_def)

lemma world_ok_on_auth:
  "world_ok w \<Longrightarrow> (\<And>auth. credentials_ok auth \<Longrightarrow> credentials_ok (f auth)) \<Longrightarrow> world_ok (on_auth f w)"
  by (auto simp: world_ok_def credentials_valid_def split: option.splits)

lemma world_ok_resolve: "world_ok w \<Longrightarrow> world_ok (snd (resolveAuthentication lock now w))"
  by (auto simp: resolveAuthentication_def intro!: world_ok_on_auth world_ok_refresh split: option.split)

lemma world_ok_bundle: "world_ok w \<Longrightarrow> bundle_ok b \<Longrightarrow> world_ok (applyAuthBundle b synchronize w)"
  by (auto simp: world_ok_def credentials_valid_def split: option.splits)

lemma rotation_bundle_ok:
  assumes "isAuthTokenRotation v"
  shows "bundle_ok (rotation_bundle v user)"
proof -
  from assms have "hasValidTokenFields v" "isLoginSession (js_get v (js ''session''))"
    by (simp_all add: isAuthTokenRotation_def del: js_Cons)
  then show ?thesis
    by (simp add: bundle_ok_def rotation_bundle_def hasValidTokenFields_def isLoginSession_def session_of_def
        nonempty_stringE positive_finiteE del: js_Cons)
qed

lemma rotation_result:
  assumes "applyAuthRotation v w = Inr w'"
  obtains user session where "isAuthTokenRotation v" and "as_user (sw_auth w) = Some user"
    and "as_session (sw_auth w) = Some session"
    and "ls_sid (session_of (js_get v (js ''session''))) = ls_sid session"
    and "w' = applyAuthBundle (rotation_bundle v user) False w"
  using assms by (auto simp: applyAuthRotation_def simp del: js_Cons split: if_splits option.splits)

lemma world_ok_clear:
  "world_ok w \<Longrightarrow> world_ok (clearAuthentication synchronize bootstrap w)"
  "world_ok w \<Longrightarrow> world_ok (clearAuthenticatedClientState synchronize w)"
  by (auto simp: world_ok_def credentials_valid_def split: option.splits)

lemma world_ok_step: "auth_step w e w' \<Longrightarrow> world_ok w \<Longrightarrow> world_ok w'"
proof (induction rule: auth_step.induct)
  case (Call_bootstrap w cookies lock now)
  then show ?case using world_ok_resolve by (simp add: bootstrapAuthentication_def)
next
  case (Rotate v w w')
  from Rotate.hyps obtain user where "isAuthTokenRotation v" "w' = applyAuthBundle (rotation_bundle v user) False w"
    by (rule rotation_result)
  with Rotate.prems show ?case using world_ok_bundle rotation_bundle_ok by simp
next
  case (Response w epoch attempt allow sid r)
  let ?next = "run_response (browser_runtime epoch) attempt allow r w"
  have "credentials_valid (snd ?next)"
    using browser.response_inv Response.prems by (simp add: world_ok_def)
  moreover have "epoch \<le> sw_epoch (snd ?next)"
    using response_epoch [of w epoch attempt allow r] Response by (simp add: world_ok_def)
  ultimately show ?case by (simp add: continue_run_def world_ok_with_run)
qed (auto simp: world_ok_refresh world_ok_resolve world_ok_bundle world_ok_clear runRefresh_def
    intro!: world_ok_on_auth world_ok_with_run, auto simp: world_ok_def credentials_valid_def)

lemma world_ok_steps: "auth_steps w es w' \<Longrightarrow> world_ok w \<Longrightarrow> world_ok w'"
  by (induction rule: auth_steps.induct) (auto dest: world_ok_step)

lemma world_ok_reachable: "reachable w \<Longrightarrow> world_ok w"
  using world_ok_steps [of initial_world] by (auto simp: reachable_def world_ok_def initial_world_def credentials_valid_def)

subsection \<open>A refresh settles\<close>

text \<open>An upper bound on the answers that a run still waits for.\<close>

fun progress_rank :: "'b run_progress \<Rightarrow> nat" where
  "progress_rank (Requesting attempt allow sid) = 2 * (3 - attempt) + 1 + (if allow then 7 else 0)"
| "progress_rank (Delaying attempt allow delay) = 2 * (3 - attempt) + 2 + (if allow then 7 else 0)"
| "progress_rank (Finished outcome) = 0"

fun phase_rank :: "refresh_phase \<Rightarrow> nat" where
  "phase_rank Awaiting_lock = 15"
| "phase_rank (Running progress) = progress_rank progress"
| "phase_rank (Settled outcome) = 0"

fun is_settled :: "refresh_phase \<Rightarrow> bool" where
  "is_settled (Settled outcome) = True"
| "is_settled _ = False"

lemma phase_of_rank [simp]: "phase_rank (phase_of progress) = progress_rank progress"
  by (cases progress) (auto simp: phase_of_def)

lemma progress_rank_le: "progress_rank progress \<le> 15"
  by (cases progress) auto

lemma begin_rank: "progress_rank (run_begin R attempt allow s) \<le> 2 * (3 - attempt) + 1 + (if allow then 7 else 0)"
  by (simp add: run_begin_def)

lemma response_rank:
  "progress_rank (fst (run_response R attempt allow r s)) < progress_rank (Requesting attempt allow sid)"
  using begin_rank [of R 0 False "rt_clear R False (Some Idle) s"]
  by (auto simp: run_response_def run_failure_def refreshRaceDelays_def split: option.splits)

lemma refresh_in_flight: "sw_refresh w = Some run \<Longrightarrow> refreshAuthentication lock w = w"
  by (simp add: refreshAuthentication_def)

lemma other_event_keeps_run:
  assumes "auth_step w e w'" and "sw_refresh w = Some run" and "\<not> is_run_event e" and "e \<noteq> Finalize"
  shows "sw_refresh w' = Some run"
  using assms
  by (cases rule: auth_step.cases)
    (auto simp: refreshAuthentication_def resolveAuthentication_def bootstrapAuthentication_def
      split: option.splits elim!: rotation_result)

lemma run_event_lowers_rank:
  assumes "auth_step w e w'" and "sw_refresh w = Some run" and "is_run_event e"
  shows "\<exists>run'. sw_refresh w' = Some run' \<and> run_epoch run' = run_epoch run
    \<and> phase_rank (run_phase run') < phase_rank (run_phase run)"
  using assms
proof (cases rule: auth_step.cases)
  case (Lock_granted epoch)
  have "progress_rank (run_begin (browser_runtime epoch) 0 True w) < 15"
    using begin_rank [of "browser_runtime epoch" 0 True w] by simp
  with Lock_granted assms(2) show ?thesis by (simp add: runRefresh_def createRefreshRunner_def with_run_def)
next
  case (Response epoch attempt allow sid r)
  with assms(2) response_rank [of "browser_runtime epoch" attempt allow r w sid] show ?thesis
    by (auto simp: continue_run_def with_run_def)
next
  case (Delay_over epoch attempt allow delay)
  with assms(2) begin_rank [of "browser_runtime epoch" attempt allow w] show ?thesis
    by (auto simp: with_run_def split: if_splits)
qed (auto simp: with_run_def)

lemma run_keeps_running:
  "auth_steps w es w' \<Longrightarrow> sw_refresh w = Some run \<Longrightarrow> Finalize \<notin> set es \<Longrightarrow>
   \<exists>run'. sw_refresh w' = Some run' \<and> run_epoch run' = run_epoch run
     \<and> length (filter is_run_event es) + phase_rank (run_phase run') \<le> phase_rank (run_phase run)"
proof (induction arbitrary: run rule: auth_steps.induct)
  case (auth_steps_Cons w e w1 es w2)
  show ?case
  proof (cases "is_run_event e")
    case True
    obtain run1 where "sw_refresh w1 = Some run1" "run_epoch run1 = run_epoch run"
      "phase_rank (run_phase run1) < phase_rank (run_phase run)"
      using run_event_lowers_rank [OF auth_steps_Cons.hyps(1) auth_steps_Cons.prems(1) True] by blast
    with auth_steps_Cons.IH [of run1] auth_steps_Cons.prems(2) True show ?thesis by fastforce
  next
    case False
    have "sw_refresh w1 = Some run"
      using other_event_keeps_run [OF auth_steps_Cons.hyps(1) auth_steps_Cons.prems(1) False] auth_steps_Cons.prems(2)
      by auto
    with auth_steps_Cons.IH [of run] auth_steps_Cons.prems(2) False show ?thesis by simp
  qed
qed simp

lemma unsettled_run_waits:
  assumes "world_ok w" and "sw_refresh w = Some run" and "\<not> is_settled (run_phase run)"
  shows "0 < phase_rank (run_phase run) \<and> (\<exists>e w'. is_run_event e \<and> auth_step w e w')"
proof -
  obtain epoch phase where run: "run = \<lparr>run_epoch = epoch, run_phase = phase\<rparr>" by (cases run)
  show ?thesis
  proof (cases phase)
    case Awaiting_lock
    with run assms(2) auth_step.Lock_granted [of w epoch] show ?thesis by (auto intro!: exI [of _ Lock_granted])
  next
    case (Running progress)
    show ?thesis
    proof (cases progress)
      case (Requesting attempt allow sid)
      with Running run assms(2) auth_step.Response [of w epoch attempt allow sid undefined] show ?thesis
        by (auto intro!: exI [of _ "Response undefined"])
    next
      case (Delaying attempt allow delay)
      with Running run assms(2) auth_step.Delay_over [of w epoch attempt allow delay] show ?thesis
        by (auto intro!: exI [of _ Delay_over])
    next
      case (Finished outcome)
      with Running run assms show ?thesis by (simp add: world_ok_def)
    qed
  qed (use run assms in auto)
qed

subsection \<open>Properties\<close>

text \<open>
  C18: in every reachable state of the session module the token, its expiry and the session are
  present together or absent together, the token and the session id are not empty and the expiry is
  a positive finite time.
\<close>

theorem session_credentials_invariant: "reachable w \<Longrightarrow> credentials_ok (sw_auth w)"
  using world_ok_reachable by (simp add: world_ok_def credentials_valid_def)

definition sample_user :: auth_user where
  "sample_user = \<lparr>au_id = JFin 1, au_username = js ''root'', au_role = JFin 100, au_object = VObj []\<rparr>"

definition sample_session :: "jsstring \<Rightarrow> login_session" where
  "sample_session sid = \<lparr>ls_sid = sid, ls_current = True, ls_login_method = js ''password'', ls_ip = [],
     ls_user_agent = [], ls_created_at = JFin 1, ls_last_active_at = JFin 1, ls_expires_at = JFin 900\<rparr>"

definition sample_bundle :: "jsstring \<Rightarrow> auth_bundle" where
  "sample_bundle sid = \<lparr>ab_access_token = js ''token'', ab_token_type = js ''Bearer'',
     ab_access_expires_at = JFin 500, ab_user = sample_user, ab_session = sample_session sid\<rparr>"

definition signed_in_world :: session_world where
  "signed_in_world = applyAuthBundle (sample_bundle (js ''s1'')) True initial_world"

lemma sample_bundle_ok: "sid \<noteq> [] \<Longrightarrow> bundle_ok (sample_bundle sid)"
  by (simp add: bundle_ok_def sample_bundle_def sample_session_def)

lemma sign_in_steps: "auth_steps initial_world [Sign_in (sample_bundle (js ''s1'')) True] signed_in_world"
  unfolding signed_in_world_def by (rule auth_steps_one, rule auth_step.Sign_in, rule sample_bundle_ok) simp

theorem session_credentials_invariant_witness:
  "credentials_ok (sw_auth signed_in_world) \<and> as_token (sw_auth signed_in_world) = Some (js ''token'')"
  using session_credentials_invariant [of signed_in_world] sign_in_steps
  by (auto simp: reachable_def signed_in_world_def setBundle_def sample_bundle_def)

text \<open>
  C16: a refresh always settles. From any reachable state with a refresh in flight, whatever the
  server answers and whatever the page does in between, the refresh consumes at most fifteen answers;
  as long as it has not settled it waits for an answer that can arrive, and after fifteen answers
  it has settled.
\<close>

theorem refresh_settles:
  assumes "reachable w" and "sw_refresh w = Some run" and "auth_steps w es w'" and "Finalize \<notin> set es"
  shows "\<exists>run'. sw_refresh w' = Some run' \<and> run_epoch run' = run_epoch run
    \<and> length (filter is_run_event es) \<le> 15
    \<and> (is_settled (run_phase run')
       \<or> length (filter is_run_event es) < 15 \<and> (\<exists>e w''. is_run_event e \<and> auth_step w' e w''))"
proof -
  obtain run' where run': "sw_refresh w' = Some run'" "run_epoch run' = run_epoch run"
    "length (filter is_run_event es) + phase_rank (run_phase run') \<le> phase_rank (run_phase run)"
    using run_keeps_running [OF assms(3,2,4)] by blast
  have "phase_rank (run_phase run) \<le> 15"
    using progress_rank_le by (cases "run_phase run") auto
  moreover have "world_ok w'" using world_ok_reachable [OF assms(1)] world_ok_steps [OF assms(3)] by simp
  ultimately show ?thesis
    using run' unsettled_run_waits [of w' run'] by (cases "is_settled (run_phase run')") auto
qed

definition refreshing_world :: session_world where
  "refreshing_world = refreshAuthentication No_locks signed_in_world"

lemma refreshing_reachable: "reachable refreshing_world"
proof -
  have "auth_steps initial_world [Sign_in (sample_bundle (js ''s1'')) True, Call_refresh No_locks] refreshing_world"
    unfolding refreshing_world_def signed_in_world_def
    by (rule auth_steps_two [OF auth_step.Sign_in auth_step.Call_refresh], rule sample_bundle_ok) simp
  then show ?thesis by (auto simp: reachable_def)
qed

lemma refreshing_run:
  "sw_refresh refreshing_world =
     Some \<lparr>run_epoch = 1, run_phase = Running (Requesting 0 True (Some (js ''s1'')))\<rparr>"
  by code_simp

theorem refresh_settles_witness:
  "\<exists>run'. sw_refresh refreshing_world = Some run' \<and> run_epoch run' = 1"
  using refresh_settles [OF refreshing_reachable refreshing_run auth_steps_Nil] by auto

text \<open>
  A superseded refresh is harmless. When the user signed in or out while a refresh was waiting,
  the refresh changes nothing: whatever arrives for it, the store, the epoch and the published
  events stay as they are and the refresh settles, superseded unless its lock was refused.
\<close>

theorem superseded_refresh_harmless:
  assumes "sw_refresh w = Some run" and "run_epoch run \<noteq> sw_epoch w"
    and "auth_step w e w'" and "is_run_event e"
  shows "sw_auth w' = sw_auth w \<and> sw_epoch w' = sw_epoch w \<and> sw_events w' = sw_events w
    \<and> sw_refresh w' = Some \<lparr>run_epoch = run_epoch run, run_phase =
        Settled (if e = Lock_rejected then None else Some (Transient_error Fault_superseded))\<rparr>"
proof -
  have stale: "\<not> run_current (browser_runtime (run_epoch run)) w"
    using assms(2) by (simp add: run_current_def browser_runtime_def)
  from assms(3,1,4) stale show ?thesis
    by (cases rule: auth_step.cases)
      (auto simp: continue_run_def run_response_def runRefresh_def createRefreshRunner_def run_begin_def
        with_run_def phase_of_def superseded_def)
qed

theorem superseded_refresh_harmless_witness:
  "\<exists>w'. auth_step (clearAuthentication True Complete refreshing_world)
          (Response \<lparr>re_status = 401, re_data = VNull, re_error = VUndefined\<rparr>) w'
     \<and> sw_auth w' = sw_auth (clearAuthentication True Complete refreshing_world)
     \<and> sw_events w' = sw_events (clearAuthentication True Complete refreshing_world)"
proof -
  let ?w = "clearAuthentication True Complete refreshing_world"
  let ?r = "\<lparr>re_status = 401, re_data = VNull, re_error = VUndefined\<rparr>"
  have run: "sw_refresh ?w = Some \<lparr>run_epoch = 1, run_phase = Running (Requesting 0 True (Some (js ''s1'')))\<rparr>"
    using refreshing_run by simp
  have epoch: "sw_epoch ?w = 2" by code_simp
  from run have step: "auth_step ?w (Response ?r)
      (continue_run 1 (run_response (browser_runtime 1) 0 True ?r ?w))"
    by (rule auth_step.Response)
  from superseded_refresh_harmless [OF run _ step] epoch step show ?thesis by auto
qed

text \<open>
  An accepted answer is the session. A response settles a refresh as authenticated only when
  the refresh is still current and the answer holds a valid bundle, and then the store holds the
  user, token and session of that bundle, the bootstrap is complete and every other waiting refresh
  is superseded.
\<close>

theorem authenticated_outcome_stored:
  assumes "auth_step w (Response r) w'"
    and "sw_refresh w' = Some \<lparr>run_epoch = epoch, run_phase = Settled (Some (Authenticated b))\<rparr>"
  shows "sw_epoch w = epoch \<and> sw_epoch w' = epoch + 1 \<and> bundle_ok b
    \<and> as_user (sw_auth w') = Some (ab_user b) \<and> as_token (sw_auth w') = Some (ab_access_token b)
    \<and> as_session (sw_auth w') = Some (ab_session b) \<and> as_bootstrap (sw_auth w') = Complete"
proof -
  from assms(1) obtain epoch' attempt allow where
    w': "w' = continue_run epoch' (run_response (browser_runtime epoch') attempt allow r w)"
    by (cases rule: auth_step.cases) auto
  obtain progress s where ps: "run_response (browser_runtime epoch') attempt allow r w = (progress, s)"
    by (cases "run_response (browser_runtime epoch') attempt allow r w")
  from w' ps assms(2) have "epoch' = epoch" "progress = Finished (Authenticated b)"
    by (auto simp: continue_run_def with_run_def phase_of_def split: run_progress.splits)
  with browser.accepted_bundle [of epoch' attempt allow r w b s] ps have
    "sw_epoch w = epoch" "bundle_ok b" "s = applyAuthBundle b False w"
    by (auto simp: browser_runtime_def run_current_def parsed_bundle_ok)
  with w' ps \<open>epoch' = epoch\<close> show ?thesis by (simp add: continue_run_def with_run_def setBundle_def)
qed

definition session_object :: jsval where
  "session_object = VObj [(js ''sid'', VStr (js ''s2'')), (js ''current'', VBool True),
     (js ''login_method'', VStr (js ''password'')), (js ''ip'', VStr []), (js ''user_agent'', VStr []),
     (js ''created_at'', VNum (JFin 1)), (js ''last_active_at'', VNum (JFin 1)), (js ''expires_at'', VNum (JFin 900))]"

definition bundle_object :: jsval where
  "bundle_object = VObj [(js ''access_token'', VStr (js ''t2'')), (js ''token_type'', VStr (js ''Bearer'')),
     (js ''access_expires_at'', VNum (JFin 800)),
     (js ''user'', VObj [(js ''id'', VNum (JFin 7)), (js ''username'', VStr (js ''ann'')), (js ''role'', VNum (JFin 1))]),
     (js ''session'', session_object)]"

definition accepted_response :: refresh_response where
  "accepted_response = \<lparr>re_status = 200,
     re_data = VObj [(js ''success'', VBool True), (js ''data'', bundle_object)], re_error = VUndefined\<rparr>"

theorem authenticated_outcome_stored_witness:
  "\<exists>w'. auth_step refreshing_world (Response accepted_response) w' \<and> as_token (sw_auth w') = Some (js ''t2'')"
proof -
  let ?w' = "continue_run 1 (run_response (browser_runtime 1) 0 True accepted_response refreshing_world)"
  have step: "auth_step refreshing_world (Response accepted_response) ?w'"
    using refreshing_run by (rule auth_step.Response)
  have run: "sw_refresh ?w' = Some \<lparr>run_epoch = 1, run_phase = Settled (Some (Authenticated (bundle_of bundle_object)))\<rparr>"
    by code_simp
  have "ab_access_token (bundle_of bundle_object) = js ''t2''" by code_simp
  with authenticated_outcome_stored [OF step run] step show ?thesis by auto
qed

text \<open>
  A token rotation never changes who is signed in. It either fails, when the answer is no valid
  rotation, when nobody is signed in or when it names another session, or it keeps the user and the
  session id, stores the new token, publishes nothing and supersedes a waiting refresh.
\<close>

theorem rotation_keeps_identity:
  "case applyAuthRotation v w of
     Inl Invalid_rotation \<Rightarrow> \<not> isAuthTokenRotation v
   | Inl No_active_session \<Rightarrow> as_user (sw_auth w) = None \<or> as_session (sw_auth w) = None
   | Inl Session_mismatch \<Rightarrow> session_sid w \<noteq> Some (ls_sid (session_of (js_get v (js ''session''))))
   | Inr w' \<Rightarrow>
       as_user (sw_auth w') = as_user (sw_auth w) \<and> session_sid w' = session_sid w
       \<and> as_token (sw_auth w') = Some (string_at (js_get v (js ''access_token'')))
       \<and> sw_events w' = sw_events w \<and> sw_epoch w' = sw_epoch w + 1"
  by (auto simp: applyAuthRotation_def session_sid_def rotation_bundle_def setBundle_def applyAuthBundle_def
      simp del: js_Cons split: option.splits rotation_error.splits)

text \<open>
  Fresh headers authorise. Headers that \<open>getFreshAuthHeaders\<close> returns without a refresh carry the
  stored token, which is valid for more than a minute; after a refresh that failed they carry a token
  that has not expired, and otherwise the call throws: a transient failure as itself, anything else as
  an expired session.
\<close>

theorem fresh_headers_authorise:
  "(case fresh_headers_start lock locale_name now w of
      (Some hs, w') \<Rightarrow> w' = w \<and> token_lasts (now + 60) w
        \<and> (\<exists>token. as_token (sw_auth w) = Some token \<and> map_of hs (js ''Authorization'') = Some (js ''Bearer '' @ token))
    | (None, w') \<Rightarrow> \<not> token_lasts (now + 60) w \<and> sw_refresh w' \<noteq> None)
   \<and> (case fresh_headers_finish locale_name now outcome w of
        Inr hs \<Rightarrow> hs = getCommonHeaders locale_name w \<and> (token_lasts now w \<or> (\<exists>b. outcome = Authenticated b))
      | Inl (Request_failed fault) \<Rightarrow> outcome = Transient_error fault \<and> \<not> token_lasts now w
      | Inl Session_expired \<Rightarrow>
          (outcome = Anonymous \<or> (\<exists>code. outcome = Out_of_sync code)) \<and> \<not> token_lasts now w)"
proof
  have started: "sw_refresh (refreshAuthentication lock w) \<noteq> None"
    by (simp add: refreshAuthentication_def performRefreshWithBrowserLock_def runRefresh_def with_run_def
        split: option.split lock_answer.split)
  show "case fresh_headers_start lock locale_name now w of
      (Some hs, w') \<Rightarrow> w' = w \<and> token_lasts (now + 60) w
        \<and> (\<exists>token. as_token (sw_auth w) = Some token \<and> map_of hs (js ''Authorization'') = Some (js ''Bearer '' @ token))
    | (None, w') \<Rightarrow> \<not> token_lasts (now + 60) w \<and> sw_refresh w' \<noteq> None"
    using started
    by (auto simp: fresh_headers_start_def token_lasts_def token_present_def getCommonHeaders_def split: option.splits)
next
  show "case fresh_headers_finish locale_name now outcome w of
        Inr hs \<Rightarrow> hs = getCommonHeaders locale_name w \<and> (token_lasts now w \<or> (\<exists>b. outcome = Authenticated b))
      | Inl (Request_failed fault) \<Rightarrow> outcome = Transient_error fault \<and> \<not> token_lasts now w
      | Inl Session_expired \<Rightarrow>
          (outcome = Anonymous \<or> (\<exists>code. outcome = Out_of_sync code)) \<and> \<not> token_lasts now w"
    by (cases outcome) (auto simp: fresh_headers_finish_def)
qed

text \<open>
  A refused lock escapes the error handling. \<open>performRefreshWithBrowserLock\<close> returns the promise of
  the lock request without awaiting it, so its \<open>catch\<close> sees only an exception thrown at once: when the
  request is rejected later, the refresh settles as a rejected promise instead of a transient error
  and the store stays in the state checking.
\<close>

theorem refused_lock_escapes:
  "auth_steps initial_world [Call_resolve Lock_waits 0, Lock_rejected] w \<Longrightarrow>
   map_option run_phase (sw_refresh w) = Some (Settled None) \<and> as_bootstrap (sw_auth w) = Checking"
  by (auto elim!: auth_steps.cases auth_stepE
      simp: resolveAuthentication_def currentValidAuthBundle_def initial_world_def initial_auth_def on_auth_def
        setBootstrapState_def refreshAuthentication_def performRefreshWithBrowserLock_def with_run_def)

theorem refused_lock_escapes_witness:
  "\<exists>w. auth_steps initial_world [Call_resolve Lock_waits 0, Lock_rejected] w \<and> as_bootstrap (sw_auth w) = Checking"
proof -
  let ?w1 = "snd (resolveAuthentication Lock_waits 0 initial_world)"
  have "sw_refresh ?w1 = Some \<lparr>run_epoch = 0, run_phase = Awaiting_lock\<rparr>" by code_simp
  then have "auth_steps initial_world [Call_resolve Lock_waits 0, Lock_rejected] (with_run 0 (Settled None) ?w1)"
    by (rule auth_steps_two [OF auth_step.Call_resolve auth_step.Lock_rejected])
  with refused_lock_escapes show ?thesis by blast
qed

end
