(* ===== verification/Secure_Verification.thy ===== *)
theory Secure_Verification
  imports Auth_Session
begin

section \<open>Verification before a sensitive operation\<close>

text \<open>
  \<open>features/auth/secure-verification\<close>: \<open>types.ts\<close>, the checks of \<open>api.ts\<close>, and the hook
  \<open>use-secure-verification.ts\<close> as a state machine. The hook keeps the state of its reducer, the state
  of the last rendering, which its callbacks see, and a reference to the pending request; every
  call that it awaits is a task, and the answers of tasks, the actions of the user and renderings
  come in any order.

  Answers of the server have the fields of their declared types, a missing number being NaN; the bundle
  of a login is checked by the code and is any value. The browser's passkey and popup dialogs, the
  encryption of passwords and clock readings are part of the answers.
\<close>

subsection \<open>Data\<close>

datatype verification_method = Method_2fa | Method_passkey | Method_password | Method_oauth | Method_session

fun method_name :: "verification_method \<Rightarrow> jsstring" where
  "method_name Method_2fa = js ''2fa''"
| "method_name Method_passkey = js ''passkey''"
| "method_name Method_password = js ''password''"
| "method_name Method_oauth = js ''oauth''"
| "method_name Method_session = js ''session''"

record security_proof =
  sp_proof_token :: jsstring
  sp_expires_at :: jsnum
  sp_method :: jsstring
  sp_scope :: jsstring

record method_option =
  mo_method :: verification_method
  mo_available :: bool
  mo_reason :: "jsstring option"

record verification_requirements =
  vq_scope :: jsstring
  vq_methods :: "method_option list"
  vq_oauth_providers :: "(jsstring \<times> jsstring) list"
  vq_password_encryption :: bool

datatype verification_input =
    Input_2fa jsstring
  | Input_password jsstring
  | Input_passkey "jsstring option"
  | Input_oauth jsstring
  | Input_session

fun input_method :: "verification_input \<Rightarrow> verification_method" where
  "input_method (Input_2fa code) = Method_2fa"
| "input_method (Input_password password) = Method_password"
| "input_method (Input_passkey rpID) = Method_passkey"
| "input_method (Input_oauth provider) = Method_oauth"
| "input_method Input_session = Method_session"

record login_challenge =
  lc_flow_token :: jsstring
  lc_expires_at :: jsnum
  lc_methods :: "method_option list"

text \<open>A request: an operation with its scope and context, or a login with its challenge.\<close>

datatype verification_request = Operation jsstring "jsval option" | Login login_challenge

record auth_error =
  ae_message :: jsstring
  ae_code :: "jsstring option"

datatype verification_state =
    V_idle
  | V_loading verification_request
  | V_error verification_request jsstring
  | V_ready verification_request verification_requirements "verification_input option" "jsstring option"
  | V_verifying verification_request verification_requirements "verification_input option" "jsstring option"

subsection \<open>Checks of the API\<close>

definition withDeviceAvailability :: "verification_requirements \<Rightarrow> bool \<Rightarrow> verification_requirements" where
  "withDeviceAvailability rq passkeySupported =
     rq\<lparr>vq_methods := map (\<lambda>opt.
        if mo_method opt = Method_passkey \<and> mo_available opt \<and> \<not> passkeySupported
        then opt\<lparr>mo_available := False, mo_reason := Some (js ''This device does not support Passkey verification.'')\<rparr>
        else opt) (vq_methods rq)\<rparr>"

text \<open>\<open>expires_at * 1000 <= Date.now()\<close>\<close>

definition expired :: "jsnum \<Rightarrow> jsnum \<Rightarrow> bool" where
  "expired expires_at now \<longleftrightarrow> js_le (js_mul expires_at (JFin 1000)) now"

definition plain_error :: "jsstring \<Rightarrow> auth_error" where
  "plain_error message = \<lparr>ae_message = message, ae_code = None\<rparr>"

definition flow_expired :: auth_error where
  "flow_expired = \<lparr>ae_message = js ''Login flow expired. Please sign in again.'', ae_code = Some (js ''AUTH_FLOW_INVALID'')\<rparr>"

definition proof_fits :: "security_proof \<Rightarrow> jsstring \<Rightarrow> verification_method \<Rightarrow> jsnum \<Rightarrow> bool" where
  "proof_fits proof scope method now \<longleftrightarrow>
     sp_proof_token proof \<noteq> [] \<and> sp_scope proof = scope \<and> sp_method proof = method_name method
     \<and> \<not> expired (sp_expires_at proof) now"

text \<open>The body that is posted for the methods that need no dialog; \<open>encrypted\<close> are the fields that the
  encryption of a password returns.\<close>

definition verify_body :: "verification_input \<Rightarrow> jsstring \<Rightarrow> jsval option \<Rightarrow> (jsstring \<times> jsval) list option \<Rightarrow> jsval option" where
  "verify_body input scope context_val encrypted =
     (let operationFields = (js ''scope'', VStr scope) # (case context_val of Some c \<Rightarrow> [(js ''context'', c)] | None \<Rightarrow> []);
          head = (js ''method'', VStr (method_name (input_method input))) # operationFields in
      case input of
        Input_session \<Rightarrow> Some (VObj head)
      | Input_2fa code \<Rightarrow> Some (VObj (head @ [(js ''code'', VStr (js_trim code))]))
      | Input_password password \<Rightarrow>
          Some (VObj (head @ (case encrypted of Some fs \<Rightarrow> fs | None \<Rightarrow> [(js ''password'', VStr password)])))
      | _ \<Rightarrow> None)"

text \<open>The reason of an aborted signal; its text is the browser's.\<close>

definition aborted_error :: auth_error where
  "aborted_error = plain_error (js ''This operation was aborted'')"

text \<open>How \<open>verify\<close> and \<open>verifyLogin\<close> end, given what the server or a dialog answered.\<close>

definition verify :: "verification_input \<Rightarrow> jsstring \<Rightarrow> bool \<Rightarrow> jsnum \<Rightarrow> auth_error + security_proof \<Rightarrow> auth_error + security_proof" where
  "verify input scope aborted now answer =
     (case answer of
        Inl e \<Rightarrow> Inl e
      | Inr proof \<Rightarrow>
          if aborted then Inl aborted_error
          else if \<not> proof_fits proof scope (input_method input) now
          then Inl (plain_error (js ''Verification proof was not returned''))
          else Inr proof)"

definition getLoginVerificationRequirements ::
    "login_challenge \<Rightarrow> jsnum \<Rightarrow> bool \<Rightarrow> bool \<Rightarrow> auth_error + verification_requirements" where
  "getLoginVerificationRequirements challenge now aborted supported =
     (if expired (lc_expires_at challenge) now then Inl flow_expired
      else if aborted then Inl aborted_error
      else Inr (withDeviceAvailability
                  \<lparr>vq_scope = js ''auth.login'', vq_methods = lc_methods challenge, vq_oauth_providers = [],
                   vq_password_encryption = False\<rparr> supported))"

definition verifyLogin :: "verification_input \<Rightarrow> login_challenge \<Rightarrow> jsnum \<Rightarrow> bool \<Rightarrow> auth_error + jsval \<Rightarrow> auth_error + jsval" where
  "verifyLogin input challenge now aborted answer =
     (if expired (lc_expires_at challenge) now then Inl flow_expired
      else if input_method input \<noteq> Method_2fa \<and> input_method input \<noteq> Method_passkey
      then Inl (plain_error (js ''This verification method is not allowed for this action.''))
      else (case answer of
              Inl e \<Rightarrow> Inl e
            | Inr result \<Rightarrow>
                if aborted then Inl aborted_error
                else if \<not> isAuthBundle result then Inl (plain_error (js ''Login failed'')) else Inr result))"

text \<open>\<open>isLoginChallenge\<close> on an unknown value.\<close>

definition login_option :: "jsval \<Rightarrow> bool" where
  "login_option v \<longleftrightarrow>
     js_truthy v \<and> (js_get v (js ''method'') = VStr (js ''2fa'') \<or> js_get v (js ''method'') = VStr (js ''passkey''))
     \<and> is_boolean_val (js_get v (js ''available''))"

definition isLoginChallenge :: "jsval \<Rightarrow> bool" where
  "isLoginChallenge v \<longleftrightarrow>
     js_truthy v \<and> is_object_val v \<and> js_get v (js ''require_verification'') = VBool True
     \<and> nonempty_string (js_get v (js ''flow_token''))
     \<and> (case js_get v (js ''expires_at'') of VNum x \<Rightarrow> js_is_finite x | _ \<Rightarrow> False)
     \<and> (case js_get v (js ''methods'') of VArr ms \<Rightarrow> ms \<noteq> [] \<and> list_all login_option ms | _ \<Rightarrow> False)"

subsection \<open>The reducer\<close>

datatype verification_action =
    Reset
  | Loading verification_request
  | Loaded verification_requirements
  | Input verification_input
  | Submit
  | Fail jsstring

definition available_method :: "verification_requirements \<Rightarrow> verification_method \<Rightarrow> bool" where
  "available_method rq method \<longleftrightarrow> list_ex (\<lambda>opt. mo_method opt = method \<and> mo_available opt) (vq_methods rq)"

definition preferred_input :: "verification_requirements \<Rightarrow> verification_input option" where
  "preferred_input rq =
     (let methods = filter mo_available (vq_methods rq);
          preferred = (case find (\<lambda>opt. mo_method opt = Method_passkey) methods of
                         Some opt \<Rightarrow> Some opt | None \<Rightarrow> (case methods of m # _ \<Rightarrow> Some m | [] \<Rightarrow> None)) in
      case preferred of
        None \<Rightarrow> None
      | Some opt \<Rightarrow>
          (case mo_method opt of
             Method_2fa \<Rightarrow> Some (Input_2fa [])
           | Method_password \<Rightarrow> Some (Input_password [])
           | Method_passkey \<Rightarrow> Some (Input_passkey None)
           | Method_oauth \<Rightarrow> Some (Input_oauth (case vq_oauth_providers rq of p # _ \<Rightarrow> fst p | [] \<Rightarrow> []))
           | Method_session \<Rightarrow> None))"

fun without_secret :: "verification_input option \<Rightarrow> verification_input option" where
  "without_secret (Some (Input_password password)) = Some (Input_password [])"
| "without_secret (Some (Input_2fa code)) = Some (Input_2fa [])"
| "without_secret input = input"

fun verificationReducer :: "verification_state \<Rightarrow> verification_action \<Rightarrow> verification_state" where
  "verificationReducer s Reset = V_idle"
| "verificationReducer s (Loading request) = V_loading request"
| "verificationReducer s (Loaded rq) =
     (case s of V_loading request \<Rightarrow> V_ready request rq (preferred_input rq) None | _ \<Rightarrow> s)"
| "verificationReducer s (Input input) =
     (case s of V_ready request rq i e \<Rightarrow>
        if available_method rq (input_method input) then V_ready request rq (Some input) None else s | _ \<Rightarrow> s)"
| "verificationReducer s Submit =
     (case s of V_ready request rq input e \<Rightarrow> V_verifying request rq (without_secret input) None | _ \<Rightarrow> s)"
| "verificationReducer s (Fail error) =
     (case s of
        V_idle \<Rightarrow> V_idle
      | V_loading request \<Rightarrow> V_error request error
      | V_error request e \<Rightarrow> V_error request error
      | V_ready request rq input e \<Rightarrow> V_ready request rq input (Some error)
      | V_verifying request rq input e \<Rightarrow> V_ready request rq input (Some error))"

subsection \<open>The hook\<close>

datatype verified = Proof security_proof verification_method jsnum | Bundle jsval

text \<open>How the promise of a request was settled. A proof is kept with the method that was submitted and
  the time of its check.\<close>

datatype promise_outcome = Resolved_null | Resolved verified | Rejected auth_error

record pending_verification =
  pv_request :: verification_request
  pv_initial :: "jsstring option"
  pv_submitting :: bool
  pv_aborted :: bool
  pv_outcome :: "promise_outcome option"

text \<open>A call that is awaited, with the request that it belongs to: the requirements, the first verification
  with the password at hand or with the session alone, and a submitted verification.\<close>

datatype verification_task =
    Task_load nat jsnum
  | Task_initial nat jsstring
  | Task_session nat
  | Task_verify nat verification_input jsnum

record verification_world =
  vw_state :: verification_state
  vw_rendered :: verification_state
  vw_pending :: "nat option"
  vw_requests :: "pending_verification list"
  vw_domains :: "jsval option"
  vw_tasks :: "verification_task list"

definition initial_verification :: verification_world where
  "initial_verification = \<lparr>vw_state = V_idle, vw_rendered = V_idle, vw_pending = None, vw_requests = [], vw_domains = None, vw_tasks = []\<rparr>"

definition dispatch :: "verification_action \<Rightarrow> verification_world \<Rightarrow> verification_world" where
  "dispatch action w = w\<lparr>vw_state := verificationReducer (vw_state w) action\<rparr>"

definition change_request :: "nat \<Rightarrow> (pending_verification \<Rightarrow> pending_verification) \<Rightarrow> verification_world \<Rightarrow> verification_world" where
  "change_request i f w = w\<lparr>vw_requests := (vw_requests w)[i := f (vw_requests w ! i)]\<rparr>"

text \<open>A promise takes its first settlement only.\<close>

definition settle :: "promise_outcome \<Rightarrow> pending_verification \<Rightarrow> pending_verification" where
  "settle outcome p = (if pv_outcome p = None then p\<lparr>pv_outcome := Some outcome\<rparr> else p)"

definition cancel_verification :: "verification_world \<Rightarrow> verification_world" where
  "cancel_verification w =
     dispatch Reset
       ((case vw_pending w of
           None \<Rightarrow> w
         | Some i \<Rightarrow> change_request i (\<lambda>p. settle Resolved_null (p\<lparr>pv_aborted := True, pv_initial := None\<rparr>)) (w\<lparr>vw_pending := None\<rparr>))
        \<lparr>vw_domains := None\<rparr>)"

definition loadRequirements :: "nat \<Rightarrow> jsnum \<Rightarrow> verification_world \<Rightarrow> verification_world" where
  "loadRequirements i now w =
     (dispatch (Loading (pv_request (vw_requests w ! i))) w)\<lparr>vw_tasks := vw_tasks w @ [Task_load i now]\<rparr>"

definition begin_request :: "verification_request \<Rightarrow> jsstring option \<Rightarrow> jsnum \<Rightarrow> verification_world \<Rightarrow> verification_world" where
  "begin_request request initialPassword now w =
     (if vw_pending w \<noteq> None then w
      else loadRequirements (length (vw_requests w)) now
             (w\<lparr>vw_requests := vw_requests w @ [\<lparr>pv_request = request, pv_initial = initialPassword, pv_submitting = False,
                  pv_aborted = False, pv_outcome = None\<rparr>],
                vw_pending := Some (length (vw_requests w)), vw_domains := None\<rparr>))"

definition requestVerification :: "jsstring \<Rightarrow> jsval option \<Rightarrow> jsstring option \<Rightarrow> jsnum \<Rightarrow> verification_world \<Rightarrow> verification_world" where
  "requestVerification scope context_val initialPassword = begin_request (Operation scope context_val) initialPassword"

definition requestLoginVerification :: "login_challenge \<Rightarrow> jsnum \<Rightarrow> verification_world \<Rightarrow> verification_world" where
  "requestLoginVerification challenge = begin_request (Login challenge) None"

text \<open>What the requirements of an operation are asked of: the server, and whether the device has passkeys.\<close>

record load_answer =
  la_server :: "auth_error + verification_requirements"
  la_supported :: bool

definition load_result :: "pending_verification \<Rightarrow> jsnum \<Rightarrow> load_answer \<Rightarrow> auth_error + verification_requirements" where
  "load_result p started answer =
     (case pv_request p of
        Login challenge \<Rightarrow> getLoginVerificationRequirements challenge started (pv_aborted p) (la_supported answer)
      | Operation scope context_val \<Rightarrow>
          (case la_server answer of Inl e \<Rightarrow> Inl e | Inr rq \<Rightarrow> Inr (withDeviceAvailability rq (la_supported answer))))"

definition sole_method :: "verification_requirements \<Rightarrow> verification_method \<Rightarrow> bool" where
  "sole_method rq method \<longleftrightarrow> (case vq_methods rq of [opt] \<Rightarrow> mo_method opt = method \<and> mo_available opt | _ \<Rightarrow> False)"

definition add_task :: "verification_task \<Rightarrow> verification_world \<Rightarrow> verification_world" where
  "add_task task w = w\<lparr>vw_tasks := vw_tasks w @ [task]\<rparr>"

definition is_operation :: "verification_request \<Rightarrow> bool" where
  "is_operation request \<longleftrightarrow> (case request of Operation scope context_val \<Rightarrow> True | Login challenge \<Rightarrow> False)"

definition loaded :: "nat \<Rightarrow> jsnum \<Rightarrow> load_answer \<Rightarrow> verification_world \<Rightarrow> verification_world" where
  "loaded i started answer w =
     (if vw_pending w \<noteq> Some i then w
      else (case load_result (vw_requests w ! i) started answer of
              Inl e \<Rightarrow> dispatch (Fail (ae_message e)) w
            | Inr rq \<Rightarrow>
                let p = vw_requests w ! i; w1 = change_request i (\<lambda>p. p\<lparr>pv_initial := None\<rparr>) w in
                (case pv_initial p of
                   Some password \<Rightarrow>
                     if is_operation (pv_request p) \<and> sole_method rq Method_password then add_task (Task_initial i password) w1
                     else if is_operation (pv_request p) \<and> sole_method rq Method_session then add_task (Task_session i) w1
                     else dispatch (Loaded rq) w1
                 | None \<Rightarrow>
                     if is_operation (pv_request p) \<and> sole_method rq Method_session then add_task (Task_session i) w1
                     else dispatch (Loaded rq) w1)))"

definition request_scope :: "verification_request \<Rightarrow> jsstring" where
  "request_scope request = (case request of Operation scope context_val \<Rightarrow> scope | Login challenge \<Rightarrow> js ''auth.login'')"

text \<open>Settling a request and leaving the dialog.\<close>

definition finish_request :: "nat \<Rightarrow> promise_outcome \<Rightarrow> verification_world \<Rightarrow> verification_world" where
  "finish_request i outcome w = dispatch Reset (change_request i (settle outcome) (w\<lparr>vw_pending := None\<rparr>))"

definition initial_answered :: "nat \<Rightarrow> jsstring \<Rightarrow> jsnum \<Rightarrow> auth_error + security_proof \<Rightarrow> verification_world \<Rightarrow> verification_world" where
  "initial_answered i password now answer w =
     (if vw_pending w \<noteq> Some i then w
      else (case verify (Input_password password) (request_scope (pv_request (vw_requests w ! i))) (pv_aborted (vw_requests w ! i)) now answer of
              Inr proof \<Rightarrow> finish_request i (Resolved (Proof proof Method_password now)) w
            | Inl e \<Rightarrow> finish_request i (Rejected e) w))"

definition session_answered :: "nat \<Rightarrow> jsnum \<Rightarrow> auth_error + security_proof \<Rightarrow> verification_world \<Rightarrow> verification_world" where
  "session_answered i now answer w =
     (if vw_pending w \<noteq> Some i then w
      else (case verify Input_session (request_scope (pv_request (vw_requests w ! i))) (pv_aborted (vw_requests w ! i)) now answer of
              Inr proof \<Rightarrow> finish_request i (Resolved (Proof proof Method_session now)) w
            | Inl e \<Rightarrow> dispatch (Fail (ae_message e)) w))"

text \<open>\<open>executeVerification\<close> until it awaits; it sees the rendered state.\<close>

definition executeVerification :: "verification_input option \<Rightarrow> jsnum \<Rightarrow> verification_world \<Rightarrow> verification_world" where
  "executeVerification override now w =
     (case (vw_pending w, vw_rendered w) of
        (Some i, V_ready request rq chosen e) \<Rightarrow>
          (case (case override of Some input \<Rightarrow> Some input | None \<Rightarrow> chosen) of
             None \<Rightarrow> w
           | Some input \<Rightarrow>
               if pv_submitting (vw_requests w ! i) \<or> \<not> available_method rq (input_method input) then w
               else add_task (Task_verify i input now)
                      (dispatch Submit
                        ((if override \<noteq> None then dispatch (Input input) else id)
                          (change_request i (\<lambda>p. p\<lparr>pv_submitting := True\<rparr>) w))))
      | _ \<Rightarrow> w)"

text \<open>What a submitted verification was answered: a proof for an operation, any value for a login.\<close>

record verify_answer =
  va_proof :: "auth_error + security_proof"
  va_login :: "auth_error + jsval"

definition verify_result :: "pending_verification \<Rightarrow> verification_input \<Rightarrow> jsnum \<Rightarrow> jsnum \<Rightarrow> verify_answer \<Rightarrow> auth_error + verified" where
  "verify_result p input started now answer =
     (case pv_request p of
        Login challenge \<Rightarrow> map_sum id Bundle (verifyLogin input challenge started (pv_aborted p) (va_login answer))
      | Operation scope context_val \<Rightarrow>
          map_sum id (\<lambda>proof. Proof proof (input_method input) now) (verify input scope (pv_aborted p) now (va_proof answer)))"

definition verify_answered :: "nat \<Rightarrow> verification_input \<Rightarrow> jsnum \<Rightarrow> jsnum \<Rightarrow> verify_answer \<Rightarrow> verification_world \<Rightarrow> verification_world" where
  "verify_answered i input started now answer w =
     change_request i (\<lambda>p. p\<lparr>pv_submitting := False\<rparr>)
       (if vw_pending w \<noteq> Some i then w
        else (case verify_result (vw_requests w ! i) input started now answer of
                Inr v \<Rightarrow> finish_request i (Resolved v) w
              | Inl e \<Rightarrow>
                  if ae_code e = Some (js ''AUTH_CANCELLED'') then cancel_verification w
                  else dispatch (Fail (ae_message e)) w))"

definition retry_verification :: "jsnum \<Rightarrow> verification_world \<Rightarrow> verification_world" where
  "retry_verification now w =
     (case (vw_pending w, vw_rendered w) of
        (Some i, V_error request e) \<Rightarrow> loadRequirements i now w
      | _ \<Rightarrow> w)"

definition set_domains :: "nat \<Rightarrow> jsval \<Rightarrow> verification_world \<Rightarrow> verification_world" where
  "set_domains i domains w = (if vw_pending w = Some i then w\<lparr>vw_domains := Some domains\<rparr> else w)"

subsection \<open>The step relation\<close>

datatype verification_event =
    Ask_operation jsstring "jsval option" "jsstring option" jsnum
  | Ask_login login_challenge jsnum
  | Load_answered load_answer
  | Initial_answered jsnum "auth_error + security_proof"
  | Session_answered jsnum "auth_error + security_proof"
  | Execute "verification_input option" jsnum
  | Verify_answered jsnum verify_answer
  | Domains jsval
  | Retry jsnum
  | Set_input verification_input
  | Cancel
  | Render

definition drop_task :: "nat \<Rightarrow> verification_world \<Rightarrow> verification_world" where
  "drop_task k w = w\<lparr>vw_tasks := take k (vw_tasks w) @ drop (k + 1) (vw_tasks w)\<rparr>"

inductive verification_step :: "verification_world \<Rightarrow> verification_event \<Rightarrow> verification_world \<Rightarrow> bool" where
  Ask_operation: "verification_step w (Ask_operation scope c pw now) (requestVerification scope c pw now w)"
| Ask_login: "verification_step w (Ask_login challenge now) (requestLoginVerification challenge now w)"
| Load_answered: "k < length (vw_tasks w) \<Longrightarrow> vw_tasks w ! k = Task_load i started \<Longrightarrow>
    verification_step w (Load_answered answer) (loaded i started answer (drop_task k w))"
| Initial_answered: "k < length (vw_tasks w) \<Longrightarrow> vw_tasks w ! k = Task_initial i password \<Longrightarrow>
    verification_step w (Initial_answered now answer) (initial_answered i password now answer (drop_task k w))"
| Session_answered: "k < length (vw_tasks w) \<Longrightarrow> vw_tasks w ! k = Task_session i \<Longrightarrow>
    verification_step w (Session_answered now answer) (session_answered i now answer (drop_task k w))"
| Execute: "verification_step w (Execute override now) (executeVerification override now w)"
| Verify_answered: "k < length (vw_tasks w) \<Longrightarrow> vw_tasks w ! k = Task_verify i input started \<Longrightarrow>
    verification_step w (Verify_answered now answer) (verify_answered i input started now answer (drop_task k w))"
| Domains: "Task_verify i input started \<in> set (vw_tasks w) \<Longrightarrow> verification_step w (Domains d) (set_domains i d w)"
| Retry: "verification_step w (Retry now) (retry_verification now w)"
| Set_input: "verification_step w (Set_input input) (dispatch (Input input) w)"
| Cancel: "verification_step w Cancel (cancel_verification w)"
| Render: "verification_step w Render (w\<lparr>vw_rendered := vw_state w\<rparr>)"

inductive verification_reachable :: "verification_world \<Rightarrow> bool" where
  start: "verification_reachable initial_verification"
| step: "verification_reachable w \<Longrightarrow> verification_step w e w' \<Longrightarrow> verification_reachable w'"

inductive_cases verification_stepE: "verification_step w e w'"

subsection \<open>The invariant of the dialog\<close>

fun state_request :: "verification_state \<Rightarrow> verification_request option" where
  "state_request V_idle = None"
| "state_request (V_loading request) = Some request"
| "state_request (V_error request e) = Some request"
| "state_request (V_ready request rq input e) = Some request"
| "state_request (V_verifying request rq input e) = Some request"

fun shows_input :: "verification_state \<Rightarrow> bool" where
  "shows_input (V_ready request rq input e) = True"
| "shows_input (V_verifying request rq input e) = True"
| "shows_input s = False"

fun state_clean :: "verification_state \<Rightarrow> bool" where
  "state_clean (V_verifying request rq input e) = (without_secret input = input)"
| "state_clean s = True"

definition result_fits :: "pending_verification \<Rightarrow> bool" where
  "result_fits p \<longleftrightarrow>
     (case pv_outcome p of
        Some (Resolved (Proof proof method now)) \<Rightarrow>
          is_operation (pv_request p) \<and> proof_fits proof (request_scope (pv_request p)) method now
      | Some (Resolved (Bundle v)) \<Rightarrow> \<not> is_operation (pv_request p) \<and> isAuthBundle v
      | _ \<Rightarrow> True)"

definition dialog_ok :: "verification_world \<Rightarrow> bool" where
  "dialog_ok w \<longleftrightarrow>
     (\<forall>i < length (vw_requests w). (pv_outcome (vw_requests w ! i) = None \<longleftrightarrow> vw_pending w = Some i) \<and> result_fits (vw_requests w ! i))
     \<and> state_request (vw_state w) = map_option (\<lambda>i. pv_request (vw_requests w ! i)) (vw_pending w)
     \<and> (\<forall>i. vw_pending w = Some i \<longrightarrow> i < length (vw_requests w) \<and> (shows_input (vw_state w) \<longrightarrow> pv_initial (vw_requests w ! i) = None))
     \<and> state_clean (vw_state w)"

lemma dialog_okD:
  assumes "dialog_ok w"
  shows "i < length (vw_requests w) \<Longrightarrow> pv_outcome (vw_requests w ! i) = None \<longleftrightarrow> vw_pending w = Some i"
    and "i < length (vw_requests w) \<Longrightarrow> result_fits (vw_requests w ! i)"
    and "state_request (vw_state w) = map_option (\<lambda>i. pv_request (vw_requests w ! i)) (vw_pending w)"
    and "vw_pending w = Some i \<Longrightarrow> i < length (vw_requests w)"
    and "vw_pending w = Some i \<Longrightarrow> shows_input (vw_state w) \<Longrightarrow> pv_initial (vw_requests w ! i) = None"
    and "state_clean (vw_state w)"
  using assms unfolding dialog_ok_def by blast+

lemma without_secret_idem [simp]: "without_secret (without_secret i) = without_secret i"
  by (cases i rule: without_secret.cases) auto

text \<open>Actions that leave the request alone.\<close>

fun keeps_request :: "verification_action \<Rightarrow> bool" where
  "keeps_request (Input input) = True"
| "keeps_request Submit = True"
| "keeps_request (Fail e) = True"
| "keeps_request a = False"

lemma reducer_keeps:
  assumes "keeps_request a"
  shows "state_request (verificationReducer s a) = state_request s"
    and "shows_input (verificationReducer s a) \<Longrightarrow> shows_input s"
    and "state_clean s \<Longrightarrow> state_clean (verificationReducer s a)"
  using assms by (cases a; cases s; simp)+

lemma dispatch_fields [simp]:
  "vw_requests (dispatch a w) = vw_requests w" "vw_pending (dispatch a w) = vw_pending w" "vw_tasks (dispatch a w) = vw_tasks w"
  "vw_state (dispatch a w) = verificationReducer (vw_state w) a"
  by (simp_all add: dispatch_def)

lemma change_request_fields [simp]:
  "vw_requests (change_request i f w) = (vw_requests w)[i := f (vw_requests w ! i)]" "vw_pending (change_request i f w) = vw_pending w"
  "vw_tasks (change_request i f w) = vw_tasks w" "vw_state (change_request i f w) = vw_state w"
  by (simp_all add: change_request_def)

lemma add_task_fields [simp]:
  "vw_requests (add_task t w) = vw_requests w" "vw_pending (add_task t w) = vw_pending w" "vw_tasks (add_task t w) = vw_tasks w @ [t]"
  "vw_state (add_task t w) = vw_state w"
  by (simp_all add: add_task_def)

lemma drop_task_fields [simp]:
  "vw_requests (drop_task k w) = vw_requests w" "vw_pending (drop_task k w) = vw_pending w"
  "vw_state (drop_task k w) = vw_state w"
  by (simp_all add: drop_task_def)

lemma dialog_ok_cong:
  assumes "vw_requests w' = vw_requests w" "vw_pending w' = vw_pending w" "vw_state w' = vw_state w"
  shows "dialog_ok w' = dialog_ok w"
  unfolding dialog_ok_def assms ..

lemma dialog_ok_other [simp]:
  "dialog_ok (add_task t w) = dialog_ok w" "dialog_ok (drop_task k w) = dialog_ok w" "dialog_ok (w\<lparr>vw_domains := d\<rparr>) = dialog_ok w"
  "dialog_ok (w\<lparr>vw_rendered := s\<rparr>) = dialog_ok w"
  by (rule dialog_ok_cong; simp)+

lemma dialog_ok_dispatch: "dialog_ok w \<Longrightarrow> keeps_request a \<Longrightarrow> dialog_ok (dispatch a w)"
  unfolding dialog_ok_def using reducer_keeps [of a "vw_state w"] by (simp add: reducer_keeps)

lemma dialog_ok_update:
  assumes w: "dialog_ok w" and f: "\<And>p. pv_request (f p) = pv_request p" "\<And>p. pv_outcome (f p) = pv_outcome p"
    "\<And>p. pv_initial p = None \<Longrightarrow> pv_initial (f p) = None"
  shows "dialog_ok (change_request i f w)"
proof -
  have r: "result_fits (f p) = result_fits p" for p unfolding result_fits_def f ..
  have n: "(vw_requests w)[i := f (vw_requests w ! i)] ! j \<in> {vw_requests w ! j, f (vw_requests w ! j)}" for j
    by (cases "i = j"; cases "i < length (vw_requests w)") (auto simp: list_update_beyond)
  have same: "pv_request ((vw_requests w)[i := f (vw_requests w ! i)] ! j) = pv_request (vw_requests w ! j)"
    "pv_outcome ((vw_requests w)[i := f (vw_requests w ! i)] ! j) = pv_outcome (vw_requests w ! j)"
    "result_fits ((vw_requests w)[i := f (vw_requests w ! i)] ! j) = result_fits (vw_requests w ! j)"
    "pv_initial (vw_requests w ! j) = None \<Longrightarrow> pv_initial ((vw_requests w)[i := f (vw_requests w ! i)] ! j) = None" for j
    using n [of j] f r by auto
  show ?thesis using w unfolding dialog_ok_def by (simp add: same)
qed

lemma dialog_ok_loaded:
  assumes "dialog_ok w" "vw_pending w = Some i" "pv_initial (vw_requests w ! i) = None"
  shows "dialog_ok (dispatch (Loaded rq) w)"
  using assms unfolding dialog_ok_def by (cases "vw_state w") auto

lemma dialog_ok_load:
  assumes "dialog_ok w" "vw_pending w = Some i"
  shows "dialog_ok (loadRequirements i now w)"
  using assms unfolding dialog_ok_def loadRequirements_def by simp

lemma dialog_ok_settle:
  assumes w: "dialog_ok w" and i: "vw_pending w = Some i"
    and f: "\<And>p. pv_request (f p) = pv_request p" "pv_outcome (f (vw_requests w ! i)) \<noteq> None" "result_fits (f (vw_requests w ! i))"
  shows "dialog_ok (dispatch Reset (change_request i f (w\<lparr>vw_pending := None\<rparr>)))"
  using w i f unfolding dialog_ok_def by (auto simp: nth_list_update)

lemma dialog_ok_finish:
  assumes w: "dialog_ok w" and i: "vw_pending w = Some i"
    and r: "result_fits ((vw_requests w ! i)\<lparr>pv_outcome := Some outcome\<rparr>)"
  shows "dialog_ok (finish_request i outcome w)"
proof -
  have "pv_outcome (vw_requests w ! i) = None" using dialog_okD(1,4) [OF w] i by blast
  then have "settle outcome (vw_requests w ! i) = (vw_requests w ! i)\<lparr>pv_outcome := Some outcome\<rparr>" by (simp add: settle_def)
  moreover have "pv_request (settle outcome p) = pv_request p" for p by (simp add: settle_def)
  ultimately show ?thesis unfolding finish_request_def using dialog_ok_settle [OF w i] r by simp
qed

lemma dialog_ok_cancel:
  assumes w: "dialog_ok w"
  shows "dialog_ok (cancel_verification w)"
proof (cases "vw_pending w")
  case None
  then have "vw_state w = V_idle" using dialog_okD(3) [OF w] by (cases "vw_state w") auto
  then have "dialog_ok (cancel_verification w) = dialog_ok w"
    using None by (intro dialog_ok_cong) (simp_all add: cancel_verification_def)
  then show ?thesis using w by simp
next
  case (Some i)
  let ?f = "\<lambda>p. settle Resolved_null (p\<lparr>pv_aborted := True, pv_initial := None\<rparr>)"
  have "pv_outcome (vw_requests w ! i) = None" using dialog_okD(1,4) [OF w] Some by blast
  then have "dialog_ok (dispatch Reset (change_request i ?f (w\<lparr>vw_pending := None\<rparr>)))"
    by (intro dialog_ok_settle [OF w Some]) (simp_all add: settle_def result_fits_def)
  moreover have "cancel_verification w = (dispatch Reset (change_request i ?f (w\<lparr>vw_pending := None\<rparr>)))\<lparr>vw_domains := None\<rparr>"
    using Some by (simp add: cancel_verification_def dispatch_def change_request_def)
  ultimately show ?thesis by simp
qed

lemma dialog_ok_begin:
  assumes w: "dialog_ok w"
  shows "dialog_ok (begin_request request pw now w)"
proof (cases "vw_pending w")
  case None
  then show ?thesis using w unfolding dialog_ok_def begin_request_def loadRequirements_def
    by (auto simp: nth_append result_fits_def less_Suc_eq)
next
  case (Some i)
  then show ?thesis using w by (simp add: begin_request_def)
qed

lemma verify_Inr: "verify input scope aborted now answer = Inr proof \<Longrightarrow> proof_fits proof scope (input_method input) now"
  by (auto simp: verify_def split: sum.splits if_splits)

lemma verifyLogin_Inr: "verifyLogin input challenge now aborted answer = Inr v \<Longrightarrow> isAuthBundle v"
  by (auto simp: verifyLogin_def split: sum.splits if_splits)

lemma dialog_ok_initial:
  assumes w: "dialog_ok w" and op: "is_operation (pv_request (vw_requests w ! i))"
  shows "dialog_ok (initial_answered i password now answer w)" "dialog_ok (session_answered i now answer w)"
proof -
  have fits: "result_fits (p\<lparr>pv_outcome := Some (Resolved (Proof v (input_method input) now))\<rparr>)"
    if "verify input (request_scope (pv_request p)) ab now answer = Inr v" "is_operation (pv_request p)" for p input v ab
    using verify_Inr [OF that(1)] that(2) by (simp add: result_fits_def)
  have rej: "result_fits (p\<lparr>pv_outcome := Some (Rejected e)\<rparr>)" for p e by (simp add: result_fits_def)
  show "dialog_ok (initial_answered i password now answer w)"
    using w dialog_ok_finish [OF w] fits [of "Input_password password" "vw_requests w ! i"] op rej
    by (auto simp: initial_answered_def split: sum.split)
  show "dialog_ok (session_answered i now answer w)"
    using w dialog_ok_finish [OF w] fits [of Input_session "vw_requests w ! i"] op dialog_ok_dispatch [OF w]
    by (auto simp: session_answered_def split: sum.split)
qed

lemma dialog_ok_load_answered:
  assumes w: "dialog_ok w"
  shows "dialog_ok (loaded i started answer w)"
proof (cases "vw_pending w = Some i")
  case False
  then show ?thesis using w by (simp add: loaded_def)
next
  case True
  let ?w = "change_request i (\<lambda>p. p\<lparr>pv_initial := None\<rparr>) w"
  have ok: "dialog_ok ?w" by (rule dialog_ok_update [OF w]) simp_all
  have "i < length (vw_requests w)" using dialog_okD(4) [OF w True] .
  then have "dialog_ok (dispatch (Loaded rq) ?w)" for rq using dialog_ok_loaded [OF ok, of i] True by simp
  then show ?thesis using True ok dialog_ok_dispatch [OF w]
    by (auto simp: loaded_def Let_def split: sum.split option.split)
qed

lemma dialog_ok_execute:
  assumes w: "dialog_ok w"
  shows "dialog_ok (executeVerification override now w)"
proof -
  have "dialog_ok (change_request i (\<lambda>p. p\<lparr>pv_submitting := True\<rparr>) w)" for i by (rule dialog_ok_update [OF w]) simp_all
  then have "dialog_ok (dispatch Submit ((if override \<noteq> None then dispatch (Input input) else id)
      (change_request i (\<lambda>p. p\<lparr>pv_submitting := True\<rparr>) w)))" for i input
    by (intro dialog_ok_dispatch) (simp_all add: dialog_ok_dispatch)
  then show ?thesis using w by (auto simp: executeVerification_def split: option.split verification_state.split)
qed

lemma dialog_ok_verify_answered:
  assumes w: "dialog_ok w"
  shows "dialog_ok (verify_answered i input started now answer w)"
proof -
  have fits: "result_fits ((vw_requests w ! i)\<lparr>pv_outcome := Some (Resolved v)\<rparr>)"
    if "verify_result (vw_requests w ! i) input started now answer = Inr v" for v
    using that verify_Inr verifyLogin_Inr
    by (cases "pv_request (vw_requests w ! i)")
      (auto simp: verify_result_def result_fits_def is_operation_def request_scope_def map_sum_def split: sum.splits)
  show ?thesis unfolding verify_answered_def
  proof (rule dialog_ok_update)
    show "dialog_ok (if vw_pending w \<noteq> Some i then w
        else (case verify_result (vw_requests w ! i) input started now answer of
                Inr v \<Rightarrow> finish_request i (Resolved v) w
              | Inl e \<Rightarrow> if ae_code e = Some (js ''AUTH_CANCELLED'') then cancel_verification w else dispatch (Fail (ae_message e)) w))"
      using w dialog_ok_finish [OF w] fits dialog_ok_cancel [OF w] dialog_ok_dispatch [OF w] by (auto split: sum.split)
  qed simp_all
qed

subsection \<open>Tasks\<close>

fun task_request :: "verification_task \<Rightarrow> nat" where
  "task_request (Task_load i started) = i"
| "task_request (Task_initial i password) = i"
| "task_request (Task_session i) = i"
| "task_request (Task_verify i input started) = i"

fun early_task :: "verification_task \<Rightarrow> bool" where
  "early_task (Task_initial i password) = True"
| "early_task (Task_session i) = True"
| "early_task t = False"

fun verifies :: "nat \<Rightarrow> verification_task \<Rightarrow> bool" where
  "verifies i (Task_verify j input started) = (i = j)"
| "verifies i t = False"

text \<open>For every request, whether it is an operation and whether it is submitted: only operations are verified
  without the dialog, and a request has one verification in flight exactly while it is submitted.\<close>

definition tasks_good :: "(bool \<times> bool) list \<Rightarrow> verification_task list \<Rightarrow> bool" where
  "tasks_good ps ts \<longleftrightarrow>
     (\<forall>t \<in> set ts. task_request t < length ps \<and> (early_task t \<longrightarrow> fst (ps ! task_request t)))
     \<and> (\<forall>i < length ps. length (filter (verifies i) ts) = (if snd (ps ! i) then 1 else 0))"

definition task_view :: "verification_world \<Rightarrow> (bool \<times> bool) list" where
  "task_view w = map (\<lambda>p. (is_operation (pv_request p), pv_submitting p)) (vw_requests w)"

definition tasks_ok :: "verification_world \<Rightarrow> bool" where
  "tasks_ok w \<longleftrightarrow> tasks_good (task_view w) (vw_tasks w)"

lemma verifies_request: "verifies i t \<Longrightarrow> task_request t = i"
  by (cases t) auto

lemma tasks_good_drop: "tasks_good ps (xs @ t # ys) \<Longrightarrow> \<forall>i. \<not> verifies i t \<Longrightarrow> tasks_good ps (xs @ ys)"
  unfolding tasks_good_def by auto

lemma tasks_good_answered:
  assumes "tasks_good ps (xs @ Task_verify i input started # ys)"
  shows "tasks_good (ps[i := (fst (ps ! i), False)]) (xs @ ys)"
  unfolding tasks_good_def
proof (intro conjI ballI allI impI)
  fix t assume t: "t \<in> set (xs @ ys)"
  then have "task_request t < length ps" "early_task t \<longrightarrow> fst (ps ! task_request t)" using assms by (auto simp: tasks_good_def)
  then show "task_request t < length (ps[i := (fst (ps ! i), False)])"
    "early_task t \<Longrightarrow> fst (ps[i := (fst (ps ! i), False)] ! task_request t)"
    by (cases "task_request t = i"; auto)+
next
  fix j assume "j < length (ps[i := (fst (ps ! i), False)])"
  then have "length (filter (verifies j) (xs @ Task_verify i input started # ys)) = (if snd (ps ! j) then 1 else 0)" "j < length ps"
    using assms unfolding tasks_good_def by auto
  then show "length (filter (verifies j) (xs @ ys)) = (if snd (ps[i := (fst (ps ! i), False)] ! j) then 1 else 0)"
    by (cases "i = j") (auto split: if_splits)
qed

lemma tasks_good_add:
  assumes "tasks_good ps ts" "task_request t < length ps" "early_task t \<longrightarrow> fst (ps ! task_request t)" "\<forall>i. \<not> verifies i t"
  shows "tasks_good ps (ts @ [t])"
  using assms unfolding tasks_good_def by auto

lemma tasks_good_submit:
  assumes "tasks_good ps ts" "i < length ps" "\<not> snd (ps ! i)"
  shows "tasks_good (ps[i := (fst (ps ! i), True)]) (ts @ [Task_verify i input now])"
  using assms unfolding tasks_good_def by (auto simp: nth_list_update)

lemma tasks_good_new:
  assumes "tasks_good ps ts"
  shows "tasks_good (ps @ [(b, False)]) ts"
proof -
  have "filter (verifies (length ps)) ts = []"
    using assms verifies_request by (fastforce simp: tasks_good_def filter_empty_conv)
  then show ?thesis using assms unfolding tasks_good_def by (auto simp: nth_append less_Suc_eq)
qed

lemma task_view_simps [simp]:
  "task_view (dispatch a w) = task_view w" "task_view (add_task t w) = task_view w" "task_view (drop_task k w) = task_view w"
  "task_view (w\<lparr>vw_pending := p\<rparr>) = task_view w" "task_view (w\<lparr>vw_domains := d\<rparr>) = task_view w"
  "task_view (w\<lparr>vw_rendered := s\<rparr>) = task_view w" "length (task_view w) = length (vw_requests w)"
  by (simp_all add: task_view_def add_task_def drop_task_def)

lemma task_view_nth: "i < length (vw_requests w) \<Longrightarrow> task_view w ! i = (is_operation (pv_request (vw_requests w ! i)), pv_submitting (vw_requests w ! i))"
  by (simp add: task_view_def)

lemma task_view_same:
  assumes "\<And>p. pv_request (f p) = pv_request p" "\<And>p. pv_submitting (f p) = pv_submitting p"
  shows "task_view (change_request i f w) = task_view w"
  by (cases "i < length (vw_requests w)") (simp_all add: task_view_def map_update assms list_update_same_conv list_update_beyond)

lemma task_view_settle [simp]: "task_view (change_request i (settle outcome) w) = task_view w"
  by (rule task_view_same) (simp_all add: settle_def)

lemma task_view_submitting:
  "task_view (change_request i (\<lambda>p. p\<lparr>pv_submitting := b\<rparr>) w) = (task_view w)[i := (fst (task_view w ! i), b)]"
  by (cases "i < length (vw_requests w)") (simp_all add: task_view_def map_update list_update_beyond)

lemma finish_view [simp]: "task_view (finish_request i outcome w) = task_view w" "vw_tasks (finish_request i outcome w) = vw_tasks w"
  by (simp_all add: finish_request_def)

lemma cancel_view [simp]: "task_view (cancel_verification w) = task_view w" "vw_tasks (cancel_verification w) = vw_tasks w"
proof -
  have "task_view (change_request i (\<lambda>p. settle Resolved_null (p\<lparr>pv_aborted := True, pv_initial := None\<rparr>)) w) = task_view w" for i w
    by (rule task_view_same) (simp_all add: settle_def)
  then show "task_view (cancel_verification w) = task_view w" by (simp add: cancel_verification_def split: option.split)
  show "vw_tasks (cancel_verification w) = vw_tasks w" by (simp add: cancel_verification_def split: option.split)
qed

lemma tasks_ok_simps [simp]:
  "tasks_ok (dispatch a w) = tasks_ok w" "tasks_ok (finish_request i outcome w) = tasks_ok w" "tasks_ok (cancel_verification w) = tasks_ok w"
  "tasks_ok (w\<lparr>vw_domains := d\<rparr>) = tasks_ok w" "tasks_ok (w\<lparr>vw_rendered := s\<rparr>) = tasks_ok w"
  by (simp_all add: tasks_ok_def)

lemma tasks_ok_load: "tasks_ok w \<Longrightarrow> i < length (vw_requests w) \<Longrightarrow> tasks_ok (loadRequirements i now w)"
  using tasks_good_add [of "task_view w" "vw_tasks w" "Task_load i now"]
  by (simp add: tasks_ok_def loadRequirements_def task_view_def)

lemma tasks_ok_begin:
  assumes "tasks_ok w"
  shows "tasks_ok (begin_request request pw now w)"
proof -
  have "tasks_ok (w\<lparr>vw_requests := vw_requests w @ [\<lparr>pv_request = request, pv_initial = pw, pv_submitting = False,
      pv_aborted = False, pv_outcome = None\<rparr>], vw_pending := p, vw_domains := d\<rparr>)" for p d
    using tasks_good_new assms by (simp add: tasks_ok_def task_view_def)
  then show ?thesis using assms by (simp add: begin_request_def tasks_ok_load)
qed

lemma tasks_ok_loaded:
  assumes w: "tasks_ok w" and i: "vw_pending w = Some i \<Longrightarrow> i < length (vw_requests w)"
  shows "tasks_ok (loaded i started answer w)"
proof -
  let ?w = "change_request i (\<lambda>p. p\<lparr>pv_initial := None\<rparr>) w"
  have v: "task_view ?w = task_view w" by (rule task_view_same) simp_all
  have add: "tasks_ok (add_task t ?w)"
    if "task_request t = i" "i < length (vw_requests w)" "is_operation (pv_request (vw_requests w ! i))" "\<forall>j. \<not> verifies j t" for t
    using tasks_good_add [of "task_view w" "vw_tasks w" t] w that by (simp add: tasks_ok_def v task_view_nth)
  have same: "tasks_ok ?w" using w by (simp add: tasks_ok_def v)
  show ?thesis using w i add [of "Task_session i"] add [of "Task_initial i _"] same
    by (auto simp: loaded_def Let_def split: sum.split option.split)
qed

lemma tasks_ok_execute:
  assumes w: "tasks_ok w" and i: "\<And>i. vw_pending w = Some i \<Longrightarrow> i < length (vw_requests w)"
  shows "tasks_ok (executeVerification override now w)"
proof -
  have "tasks_ok (add_task (Task_verify i input now) (dispatch Submit ((if override \<noteq> None then dispatch (Input input) else id)
      (change_request i (\<lambda>p. p\<lparr>pv_submitting := True\<rparr>) w))))" if "i < length (vw_requests w)" "\<not> pv_submitting (vw_requests w ! i)" for i input
    using tasks_good_submit [of "task_view w" "vw_tasks w" i input now] w that
    by (simp add: tasks_ok_def task_view_submitting task_view_nth)
  then show ?thesis using w i by (auto simp: executeVerification_def split: option.split verification_state.split)
qed

lemma dropped:
  assumes "k < length (vw_tasks w)" "vw_tasks w ! k = t"
  shows "vw_tasks w = take k (vw_tasks w) @ t # drop (k + 1) (vw_tasks w)" "vw_tasks (drop_task k w) = take k (vw_tasks w) @ drop (k + 1) (vw_tasks w)"
  using assms id_take_nth_drop [of k "vw_tasks w"] by (simp_all add: drop_task_def)

lemma tasks_ok_dropped:
  assumes "tasks_ok w" "k < length (vw_tasks w)" "vw_tasks w ! k = t" "\<forall>i. \<not> verifies i t"
  shows "tasks_ok (drop_task k w)"
  using assms tasks_good_drop [of "task_view w" "take k (vw_tasks w)" t "drop (k + 1) (vw_tasks w)"] dropped [OF assms(2,3)]
  by (simp add: tasks_ok_def)

lemma tasks_ok_verified:
  assumes w: "tasks_ok w" and k: "k < length (vw_tasks w)" "vw_tasks w ! k = Task_verify i input started"
  shows "tasks_ok (verify_answered i input started now answer (drop_task k w))"
proof -
  have good: "tasks_good ((task_view w)[i := (fst (task_view w ! i), False)]) (vw_tasks (drop_task k w))"
    unfolding dropped(2) [OF k]
    by (rule tasks_good_answered [of _ _ i input started]) (use w dropped(1) [OF k] in \<open>simp add: tasks_ok_def\<close>)
  have "tasks_ok (change_request i (\<lambda>p. p\<lparr>pv_submitting := False\<rparr>) w')"
    if "task_view w' = task_view w" "vw_tasks w' = vw_tasks (drop_task k w)" for w'
    using good that by (simp add: tasks_ok_def task_view_submitting)
  then show ?thesis unfolding verify_answered_def by (simp split: sum.split)
qed

lemma tasks_ok_task: "tasks_ok w \<Longrightarrow> k < length (vw_tasks w) \<Longrightarrow>
    task_request (vw_tasks w ! k) < length (vw_requests w)
    \<and> (early_task (vw_tasks w ! k) \<longrightarrow> is_operation (pv_request (vw_requests w ! task_request (vw_tasks w ! k))))"
  by (auto simp: tasks_ok_def tasks_good_def task_view_nth dest!: bspec [of _ _ "vw_tasks w ! k"])

lemma verification_step_ok:
  assumes step: "verification_step w e w'" and d: "dialog_ok w" and t: "tasks_ok w"
  shows "dialog_ok w' \<and> tasks_ok w'"
  using step
proof (cases rule: verification_step.cases)
  case (Ask_operation scope c pw now)
  then show ?thesis using dialog_ok_begin [OF d] tasks_ok_begin [OF t] by (simp add: requestVerification_def)
next
  case (Ask_login challenge now)
  then show ?thesis using dialog_ok_begin [OF d] tasks_ok_begin [OF t] by (simp add: requestLoginVerification_def)
next
  case (Load_answered k i started answer)
  then show ?thesis using dialog_ok_load_answered [of "drop_task k w"] tasks_ok_loaded [of "drop_task k w" i] d dialog_okD(4) [OF d, of i]
      tasks_ok_dropped [OF t Load_answered(3,4)] by simp
next
  case (Initial_answered k i password now answer)
  have "is_operation (pv_request (vw_requests w ! i))" using tasks_ok_task [OF t Initial_answered(3)] Initial_answered(4) by simp
  then show ?thesis using dialog_ok_initial(1) [of "drop_task k w" i] d tasks_ok_dropped [OF t Initial_answered(3,4)] Initial_answered(2)
    by (auto simp: initial_answered_def split: sum.split)
next
  case (Session_answered k i now answer)
  have "is_operation (pv_request (vw_requests w ! i))" using tasks_ok_task [OF t Session_answered(3)] Session_answered(4) by simp
  then show ?thesis using dialog_ok_initial(2) [of "drop_task k w" i] d tasks_ok_dropped [OF t Session_answered(3,4)] Session_answered(2)
    by (auto simp: session_answered_def split: sum.split)
next
  case (Execute override now)
  then show ?thesis using dialog_ok_execute [OF d] tasks_ok_execute [OF t dialog_okD(4) [OF d]] by simp
next
  case (Verify_answered k i input started now answer)
  then show ?thesis using dialog_ok_verify_answered [of "drop_task k w"] d tasks_ok_verified [OF t Verify_answered(3,4)] by simp
next
  case (Domains i input started dm)
  then show ?thesis using d t by (simp add: set_domains_def)
next
  case (Retry now)
  then show ?thesis using d t dialog_ok_load [OF d] tasks_ok_load [OF t] dialog_okD(4) [OF d]
    by (auto simp: retry_verification_def split: option.split verification_state.split)
qed (use d t dialog_ok_cancel dialog_ok_dispatch in auto)

lemma verification_reachable_ok: "verification_reachable w \<Longrightarrow> dialog_ok w \<and> tasks_ok w"
proof (induction rule: verification_reachable.induct)
  case start
  then show ?case by (simp add: initial_verification_def dialog_ok_def tasks_ok_def tasks_good_def task_view_def)
next
  case (step w e w')
  then show ?case using verification_step_ok by blast
qed


text \<open>
  C20: A caller gets only what was verified for its own request: a proof with a token, for the scope of the request and the
  method that was submitted, not expired when it was checked; and a login gets a well formed session.
\<close>

theorem verification_result_fits:
  assumes "verification_reachable w" and "i < length (vw_requests w)" and "pv_outcome (vw_requests w ! i) = Some (Resolved v)"
  shows "case pv_request (vw_requests w ! i) of
      Operation scope c \<Rightarrow> (\<exists>pr method now. v = Proof pr method now \<and> sp_proof_token pr \<noteq> [] \<and> sp_scope pr = scope
        \<and> sp_method pr = method_name method \<and> \<not> js_le (js_mul (sp_expires_at pr) (JFin 1000)) now)
    | Login challenge \<Rightarrow> (\<exists>b. v = Bundle b \<and> isAuthBundle b)"
proof -
  have "result_fits (vw_requests w ! i)" using verification_reachable_ok [OF assms(1)] dialog_okD(2) assms(2) by blast
  then show ?thesis using assms(3)
    by (auto simp: result_fits_def is_operation_def proof_fits_def expired_def request_scope_def
        split: verified.splits verification_request.splits)
qed

text \<open>Cancelling answers the caller with null at once, and erases the password.\<close>

theorem cancel_settles:
  assumes "verification_reachable w" "vw_pending w = Some i"
  shows "pv_outcome (vw_requests (cancel_verification w) ! i) = Some Resolved_null
    \<and> pv_initial (vw_requests (cancel_verification w) ! i) = None \<and> pv_aborted (vw_requests (cancel_verification w) ! i)
    \<and> vw_pending (cancel_verification w) = None \<and> vw_state (cancel_verification w) = V_idle"
proof -
  have "dialog_ok w" using verification_reachable_ok [OF assms(1)] by blast
  then have "i < length (vw_requests w)" "pv_outcome (vw_requests w ! i) = None" using dialog_okD(1,4) assms(2) by blast+
  then show ?thesis using assms(2) by (simp add: cancel_verification_def settle_def)
qed

definition sample_requirements :: verification_requirements where
  "sample_requirements = \<lparr>vq_scope = js ''account.delete'', vq_methods = [\<lparr>mo_method = Method_2fa, mo_available = True, mo_reason = None\<rparr>],
     vq_oauth_providers = [], vq_password_encryption = False\<rparr>"

definition sample_proof :: security_proof where
  "sample_proof = \<lparr>sp_proof_token = js ''t'', sp_expires_at = JFin 90, sp_method = js ''2fa'', sp_scope = js ''account.delete''\<rparr>"

definition asked_world :: verification_world where
  "asked_world = requestVerification (js ''account.delete'') None None (JFin 1000) initial_verification"

definition ready_world :: verification_world where
  "ready_world = loaded 0 (JFin 1000) \<lparr>la_server = Inr sample_requirements, la_supported = True\<rparr> (drop_task 0 asked_world)"

definition submitted_world :: verification_world where
  "submitted_world = executeVerification (Some (Input_2fa (js ''123456''))) (JFin 2000) (ready_world\<lparr>vw_rendered := vw_state ready_world\<rparr>)"

definition verified_world :: verification_world where
  "verified_world = verify_answered 0 (Input_2fa (js ''123456'')) (JFin 2000) (JFin 3000)
     \<lparr>va_proof = Inr sample_proof, va_login = Inr VNull\<rparr> (drop_task 0 submitted_world)"

lemma sample_reachable: "verification_reachable submitted_world" "verification_reachable verified_world"
proof -
  have "verification_reachable asked_world" unfolding asked_world_def
    by (rule verification_reachable.step [OF verification_reachable.start verification_step.Ask_operation])
  moreover have "0 < length (vw_tasks asked_world)" "vw_tasks asked_world ! 0 = Task_load 0 (JFin 1000)" by code_simp+
  ultimately have "verification_reachable ready_world" unfolding ready_world_def
    using verification_reachable.step verification_step.Load_answered by blast
  then have "verification_reachable (ready_world\<lparr>vw_rendered := vw_state ready_world\<rparr>)"
    using verification_reachable.step verification_step.Render by blast
  then show sub: "verification_reachable submitted_world" unfolding submitted_world_def
    using verification_reachable.step verification_step.Execute by blast
  have "0 < length (vw_tasks submitted_world)" "vw_tasks submitted_world ! 0 = Task_verify 0 (Input_2fa (js ''123456'')) (JFin 2000)"
    by code_simp+
  then show "verification_reachable verified_world" unfolding verified_world_def
    using sub verification_reachable.step verification_step.Verify_answered by blast
qed


theorem verification_result_fits_witness:
  "\<exists>pr method now. pv_outcome (vw_requests verified_world ! 0) = Some (Resolved (Proof pr method now)) \<and> sp_scope pr = js ''account.delete''"
proof -
  have o: "pv_outcome (vw_requests verified_world ! 0) = Some (Resolved (Proof sample_proof Method_2fa (JFin 3000)))"
    "0 < length (vw_requests verified_world)" "pv_request (vw_requests verified_world ! 0) = Operation (js ''account.delete'') None"
    by code_simp+
  show ?thesis using verification_result_fits [OF sample_reachable(2) o(2,1)] o(1,3) by auto
qed

end
