(* ===== verification/Js_Json.thy ===== *)
theory Js_Json
  imports Js_Text
begin

section \<open>JSON documents and object properties\<close>

text \<open>
  \<open>JSON.parse\<close>, \<open>JSON.stringify\<close> for the documents the client writes, and the order in which a
  JavaScript object keeps its properties: keys that are array indices first, in increasing order,
  then the others in the order of their creation. The parser recurses on the rest of the text; the
  guards on its length are always true, as \<open>json_value_consumes\<close> shows, and only serve
  termination.
\<close>

subsection \<open>Object properties\<close>

type_synonym properties = "(jsstring \<times> jsval) list"

definition is_index_key :: "jsstring \<Rightarrow> bool" where
  "is_index_key k \<longleftrightarrow>
     k \<noteq> [] \<and> list_all is_digit k \<and> (hd k \<noteq> 48 \<or> length k = 1) \<and> digits_value 0 k < 4294967295"

fun insert_property :: "jsstring \<Rightarrow> 'a \<Rightarrow> (jsstring \<times> 'a) list \<Rightarrow> (jsstring \<times> 'a) list" where
  "insert_property k v [] = [(k, v)]"
| "insert_property k v (p # ps) =
     (if is_index_key k \<and> (\<not> is_index_key (fst p) \<or> digits_value 0 k < digits_value 0 (fst p))
      then (k, v) # p # ps else p # insert_property k v ps)"

definition js_put :: "(jsstring \<times> 'a) list \<Rightarrow> jsstring \<Rightarrow> 'a \<Rightarrow> (jsstring \<times> 'a) list" where
  "js_put ps k v =
     (if k \<in> fst ` set ps then map (\<lambda>p. if fst p = k then (k, v) else p) ps
      else insert_property k v ps)"

text \<open>The properties that every object inherits from \<open>Object.prototype\<close>: reading \<open>object[key]\<close> at one
  of them gives a function or an object even when the object has no such key of its own.\<close>

definition prototype_keys :: "jsstring list" where
  "prototype_keys = map js [''__proto__'', ''constructor'', ''toString'', ''valueOf'', ''toLocaleString'',
     ''hasOwnProperty'', ''isPrototypeOf'', ''propertyIsEnumerable'', ''__defineGetter__'',
     ''__defineSetter__'', ''__lookupGetter__'', ''__lookupSetter__'']"

definition proto_key :: jsstring where
  "proto_key = js ''__proto__''"

text \<open>The assignment \<open>object[key] = value\<close> of a value that is no object: the key \<open>__proto__\<close> reaches
  the setter of the prototype, which ignores it.\<close>

definition js_assign :: "(jsstring \<times> 'a) list \<Rightarrow> jsstring \<Rightarrow> 'a \<Rightarrow> (jsstring \<times> 'a) list" where
  "js_assign ps k v = (if k = proto_key then ps else js_put ps k v)"

lemma map_of_insert_property:
  "k \<notin> fst ` set ps \<Longrightarrow> map_of (insert_property k v ps) = (map_of ps)(k \<mapsto> v)"
  by (induction ps) (auto simp: fun_eq_iff)

lemma set_insert_property: "set (insert_property k v ps) = insert (k, v) (set ps)"
  by (induction ps) auto

lemma distinct_insert_property:
  "k \<notin> fst ` set ps \<Longrightarrow> distinct (map fst ps) \<Longrightarrow> distinct (map fst (insert_property k v ps))"
  by (induction ps) (auto simp: set_insert_property)

lemma map_of_map_update:
  "k \<in> fst ` set ps \<Longrightarrow> map_of (map (\<lambda>p. if fst p = k then (k, v) else p) ps) = (map_of ps)(k \<mapsto> v)"
proof (induction ps)
  case (Cons p ps)
  have "map (\<lambda>p. if fst p = k then (k, v) else p) ps = ps" if "k \<notin> fst ` set ps"
    using that by (intro map_idI) auto
  with Cons show ?case by (cases "k \<in> fst ` set ps") (auto simp: fun_eq_iff)
qed simp

lemma map_of_js_put [simp]: "map_of (js_put ps k v) = (map_of ps)(k \<mapsto> v)"
  by (simp add: js_put_def map_of_map_update map_of_insert_property)

lemma map_fst_update: "map fst (map (\<lambda>p. if fst p = k then (k, v) else p) ps) = map fst ps"
  by auto

lemma distinct_js_put: "distinct (map fst ps) \<Longrightarrow> distinct (map fst (js_put ps k v))"
  unfolding js_put_def using map_fst_update [of k v ps] distinct_insert_property [of k ps v]
  by (auto simp del: map_map)

lemma keys_js_put: "fst ` set (js_put ps k v) = insert k (fst ` set ps)"
proof -
  have "dom (map_of (js_put ps k v)) = insert k (dom (map_of ps))" by simp
  then show ?thesis by (simp only: dom_map_of_conv_image_fst)
qed

subsection \<open>The order of properties\<close>

definition key_before :: "jsstring \<Rightarrow> jsstring \<Rightarrow> bool" where
  "key_before k k' \<longleftrightarrow> is_index_key k \<and> (\<not> is_index_key k' \<or> digits_value 0 k < digits_value 0 k')"

text \<open>What an object that is only built by assignments looks like.\<close>

definition canonical :: "(jsstring \<times> 'a) list \<Rightarrow> bool" where
  "canonical ps \<longleftrightarrow> distinct (map fst ps) \<and> sorted_wrt (\<lambda>p q. \<not> key_before (fst q) (fst p)) ps"

lemma insert_property_key_before:
  "insert_property k v (p # ps) = (if key_before k (fst p) then (k, v) # p # ps else p # insert_property k v ps)"
  by (simp add: key_before_def)

lemma key_before_order: "key_before k p \<Longrightarrow> \<not> key_before q p \<Longrightarrow> \<not> key_before q k"
  by (auto simp: key_before_def)

lemma canonical_insert:
  "k \<notin> fst ` set ps \<Longrightarrow> canonical ps \<Longrightarrow> canonical (insert_property k v ps)"
proof (induction ps)
  case (Cons p ps)
  show ?case
  proof (cases "key_before k (fst p)")
    case True
    with Cons.prems key_before_order [OF True] show ?thesis
      by (auto simp: canonical_def insert_property_key_before simp del: insert_property.simps)
        (auto simp: key_before_def)
  next
    case False
    with Cons show ?thesis
      by (auto simp: canonical_def insert_property_key_before set_insert_property image_iff
          simp del: insert_property.simps)
  qed
qed (simp add: canonical_def)

lemma canonical_keys:
  "canonical ps \<longleftrightarrow> distinct (map fst ps) \<and> sorted_wrt (\<lambda>k k'. \<not> key_before k' k) (map fst ps)"
  by (simp add: canonical_def sorted_wrt_map)

lemma canonical_put: "canonical ps \<Longrightarrow> canonical (js_put ps k v)"
proof -
  assume c: "canonical ps"
  then have "canonical (map (\<lambda>p. if fst p = k then (k, v) else p) ps)"
    unfolding canonical_keys map_fst_update .
  with c canonical_insert [of k ps v] show ?thesis by (simp add: js_put_def)
qed

lemma insert_property_last:
  "(\<forall>p \<in> set ps. \<not> key_before k (fst p)) \<Longrightarrow> insert_property k v ps = ps @ [(k, v)]"
  by (induction ps) (auto simp: key_before_def)

definition put_plain :: "(jsstring \<times> 'a) list \<Rightarrow> jsstring \<times> 'a \<Rightarrow> (jsstring \<times> 'a) list" where
  "put_plain ps m = js_put ps (fst m) (snd m)"

lemma canonical_rebuild: "canonical ms \<Longrightarrow> foldl put_plain [] ms = ms"
proof (induction ms rule: rev_induct)
  case (snoc m ms)
  then have "canonical ms" "fst m \<notin> fst ` set ms" "\<forall>p \<in> set ms. \<not> key_before (fst m) (fst p)"
    by (auto simp: canonical_def sorted_wrt_append)
  with snoc show ?case by (simp add: put_plain_def js_put_def insert_property_last)
qed simp

lemma insert_property_map:
  "insert_property k (f v) (map (\<lambda>p. (fst p, f (snd p))) ps) = map (\<lambda>p. (fst p, f (snd p))) (insert_property k v ps)"
  by (induction ps) auto

lemma js_put_map:
  "js_put (map (\<lambda>p. (fst p, f (snd p))) ps) k (f v) = map (\<lambda>p. (fst p, f (snd p))) (js_put ps k v)"
  by (simp add: js_put_def insert_property_map image_image)

subsection \<open>Strings\<close>

definition json_escapes :: "(nat \<times> nat) list" where
  "json_escapes = [(34, 34), (92, 92), (47, 47), (98, 8), (102, 12), (110, 10), (114, 13), (116, 9)]"

definition hex_text_value :: "jsstring \<Rightarrow> nat" where
  "hex_text_value h = foldl (\<lambda>acc c. 16 * acc + hex_value c) 0 h"

text \<open>The characters after the opening quote, and the rest of the text.\<close>

fun json_string_tail :: "jsstring \<Rightarrow> (jsstring \<times> jsstring) option" where
  "json_string_tail [] = None"
| "json_string_tail (c # r) =
     (if c = 34 then Some ([], r)
      else if c < 32 then None
      else if c \<noteq> 92 then map_option (\<lambda>(s, t). (c # s, t)) (json_string_tail r)
      else (case r of
        [] \<Rightarrow> None
      | e # r' \<Rightarrow>
          (case map_of json_escapes e of
             Some u \<Rightarrow> map_option (\<lambda>(s, t). (u # s, t)) (json_string_tail r')
           | None \<Rightarrow>
               if e = 117 \<and> length (take 4 r') = 4 \<and> list_all is_hex (take 4 r')
               then map_option (\<lambda>(s, t). (hex_text_value (take 4 r') # s, t)) (json_string_tail (drop 4 r'))
               else None)))"

lemma json_string_tail_consumes: "json_string_tail s = Some (v, r) \<Longrightarrow> length r < length s"
proof (induction s arbitrary: v r rule: json_string_tail.induct)
  case (2 c s)
  show ?case
  proof (cases "c = 34 \<or> c < 32 \<or> c \<noteq> 92")
    case True
    with 2 show ?thesis by (auto split: if_splits simp: less_SucI)
  next
    case False
    with "2.prems" obtain e s' where s: "s = e # s'" by (cases s) auto
    show ?thesis
    proof (cases "map_of json_escapes e")
      case None
      with False "2.prems" s obtain w where "json_string_tail (drop 4 s') = Some (w, r)"
        and e: "e = 117" "length (take 4 s') = 4" "list_all is_hex (take 4 s')"
        by (auto split: if_splits)
      from "2.IH"(2) [OF _ _ _ s None _ this(1)] False e s show ?thesis by auto
    next
      case (Some u)
      with False "2.prems" s obtain w where "json_string_tail s' = Some (w, r)" by auto
      from "2.IH"(3) [OF _ _ _ s Some this] False s show ?thesis by auto
    qed
  qed
qed simp

subsection \<open>Numbers\<close>

definition json_int :: "jsstring \<Rightarrow> jsstring" where
  "json_int s = (case s of c # _ \<Rightarrow> if c = 48 then [48] else takeWhile is_digit s | [] \<Rightarrow> [])"

text \<open>The optional fraction and exponent; a point or an \<open>e\<close> without digits is an error.\<close>

definition json_fraction :: "jsstring \<Rightarrow> jsstring option" where
  "json_fraction s =
     (case s of
        c # cs \<Rightarrow>
          if c = 46 then (if takeWhile is_digit cs = [] then None else Some (46 # takeWhile is_digit cs))
          else Some []
      | [] \<Rightarrow> Some [])"

definition json_exponent :: "jsstring \<Rightarrow> jsstring option" where
  "json_exponent s =
     (case s of
        c # cs \<Rightarrow>
          if c = 69 \<or> c = 101
          then (if exponent_digits cs = [] then None else Some (c # match_sign cs @ exponent_digits cs))
          else Some []
      | [] \<Rightarrow> Some [])"

definition json_unsigned :: "jsstring \<Rightarrow> (jsstring \<times> jsstring) option" where
  "json_unsigned s =
     (if json_int s = [] then None
      else case json_fraction (drop (length (json_int s)) s) of
        None \<Rightarrow> None
      | Some f \<Rightarrow>
          (case json_exponent (drop (length (json_int s @ f)) s) of
             None \<Rightarrow> None
           | Some e \<Rightarrow> Some (json_int s @ f @ e, drop (length (json_int s @ f @ e)) s)))"

definition json_number :: "jsstring \<Rightarrow> (jsnum \<times> jsstring) option" where
  "json_number s =
     (case s of
        c # cs \<Rightarrow>
          if c = 45 then map_option (\<lambda>(n, r). (js_uminus (js_number_of n), r)) (json_unsigned cs)
          else map_option (\<lambda>(n, r). (js_number_of n, r)) (json_unsigned s)
      | [] \<Rightarrow> None)"

lemma json_unsigned_consumes: "json_unsigned s = Some (n, r) \<Longrightarrow> length r < length s"
proof -
  assume a: "json_unsigned s = Some (n, r)"
  then have "s \<noteq> []" by (auto simp: json_unsigned_def json_int_def)
  moreover from a obtain m where "r = drop m s" "m \<noteq> 0"
    by (auto simp: json_unsigned_def split: if_splits option.splits)
  ultimately show ?thesis by simp
qed

lemma json_number_consumes: "json_number s = Some (n, r) \<Longrightarrow> length r < length s"
  by (auto simp: json_number_def dest!: json_unsigned_consumes split: list.splits if_splits)

subsection \<open>Values\<close>

definition json_space :: "nat \<Rightarrow> bool" where
  "json_space c \<longleftrightarrow> c = 9 \<or> c = 10 \<or> c = 13 \<or> c = 32"

definition skip_ws :: "jsstring \<Rightarrow> jsstring" where
  "skip_ws s = dropWhile json_space s"

lemma length_skip_ws: "length (skip_ws s) \<le> length s"
  by (simp add: skip_ws_def length_dropWhile_le)

lemma skip_ws_Cons: "skip_ws s = c # r \<Longrightarrow> length r < length s"
  using length_skip_ws [of s] by simp

definition json_word :: "jsstring \<Rightarrow> jsval \<Rightarrow> jsstring \<Rightarrow> (jsval \<times> jsstring) option" where
  "json_word w v s = (if js_starts_with w s then Some (v, drop (length w) s) else None)"

function (sequential) json_value :: "jsstring \<Rightarrow> (jsval \<times> jsstring) option"
and json_elements :: "jsstring \<Rightarrow> (jsval list \<times> jsstring) option"
and json_members :: "properties \<Rightarrow> jsstring \<Rightarrow> (properties \<times> jsstring) option" where
  "json_value s =
     (case skip_ws s of
        [] \<Rightarrow> None
      | c # r \<Rightarrow>
          if c = 34 then map_option (\<lambda>(t, r). (VStr t, r)) (json_string_tail r)
          else if c = 91
          then (if take 1 (skip_ws r) = [93] then Some (VArr [], drop 1 (skip_ws r))
                else map_option (\<lambda>(vs, r). (VArr vs, r)) (json_elements r))
          else if c = 123
          then (if take 1 (skip_ws r) = [125] then Some (VObj [], drop 1 (skip_ws r))
                else map_option (\<lambda>(ps, r). (VObj ps, r)) (json_members [] r))
          else if c = 110 then json_word (js ''null'') VNull (c # r)
          else if c = 116 then json_word (js ''true'') (VBool True) (c # r)
          else if c = 102 then json_word (js ''false'') (VBool False) (c # r)
          else map_option (\<lambda>(n, r). (VNum n, r)) (json_number (c # r)))"
| "json_elements s =
     (case json_value s of
        None \<Rightarrow> None
      | Some (v, r) \<Rightarrow>
          if length r < length s
          then (case skip_ws r of
                  [] \<Rightarrow> None
                | c # r' \<Rightarrow>
                    if c = 44 then map_option (\<lambda>(vs, r). (v # vs, r)) (json_elements r')
                    else if c = 93 then Some ([v], r') else None)
          else None)"
| "json_members ps s =
     (case skip_ws s of
        [] \<Rightarrow> None
      | c # r \<Rightarrow>
          if c \<noteq> 34 then None
          else (case json_string_tail r of
                  None \<Rightarrow> None
                | Some (k, r1) \<Rightarrow>
                    (case skip_ws r1 of
                       [] \<Rightarrow> None
                     | c2 # r2 \<Rightarrow>
                         if c2 \<noteq> 58 then None
                         else (case json_value r2 of
                                 None \<Rightarrow> None
                               | Some (v, r3) \<Rightarrow>
                                   if length r3 < length r2
                                   then (case skip_ws r3 of
                                           [] \<Rightarrow> None
                                         | c4 # r4 \<Rightarrow>
                                             if c4 = 44 then json_members (js_put ps k v) r4
                                             else if c4 = 125 then Some (js_put ps k v, r4) else None)
                                   else None))))"
  by pat_completeness auto
termination
proof (relation "measure (\<lambda>x. case x of Inl s \<Rightarrow> 2 * length s
    | Inr (Inl s) \<Rightarrow> 2 * length s + 1 | Inr (Inr (ps, s)) \<Rightarrow> 2 * length s + 1)", goal_cases)
  case (3 s c r)
  then show ?case using skip_ws_Cons [of s] by fastforce
next
  case (2 s c r)
  then show ?case using skip_ws_Cons [of s] by fastforce
next
  case (5 s a v r c r')
  then show ?case using skip_ws_Cons [of r] by fastforce
next
  case (6 ps s c r a k r1 c2 r2)
  then show ?case
    using skip_ws_Cons [of s] json_string_tail_consumes [of r k r1] skip_ws_Cons [of r1] by fastforce
next
  case (7 ps s c r a k r1 c2 r2 a2 v r3 c4 r4)
  then show ?case
    using skip_ws_Cons [of s] json_string_tail_consumes [of r k r1] skip_ws_Cons [of r1] skip_ws_Cons [of r3]
    by fastforce
qed auto

text \<open>\<open>JSON.parse\<close>; \<open>None\<close> is the \<open>SyntaxError\<close> it throws.\<close>

definition json_parse :: "jsstring \<Rightarrow> jsval option" where
  "json_parse s =
     (case json_value s of
        Some (v, r) \<Rightarrow> if skip_ws r = [] then Some v else None
      | None \<Rightarrow> None)"

subsection \<open>The parser consumes what it reads\<close>

lemma json_word_consumes: "w \<noteq> [] \<Longrightarrow> json_word w v s = Some (u, r) \<Longrightarrow> length r < length s"
  by (auto simp: json_word_def js_starts_with_iff split: if_splits)

lemma json_value_consumes:
  "json_value s = Some (v, r) \<Longrightarrow> length r < length s"
  "json_elements s = Some (vs, r) \<Longrightarrow> length r < length s"
  "json_members ps s = Some (qs, r) \<Longrightarrow> length r < length s"
proof (induction s and s and ps s arbitrary: v r and vs r and qs r
    rule: json_value_json_elements_json_members.induct)
  case (1 s)
  from "1.prems" obtain c t where t: "skip_ws s = c # t" by (cases "skip_ws s") auto
  have lt: "length t < length s" using skip_ws_Cons [OF t] .
  have len: "length (skip_ws t) \<le> length t" by (rule length_skip_ws)
  show ?case
  proof (cases "c = 34 \<or> c = 91 \<or> c = 123")
    case True
    then show ?thesis
    proof (elim disjE)
      assume "c = 34"
      with "1.prems" t lt json_string_tail_consumes show ?thesis by fastforce
    next
      assume c: "c = 91"
      show ?thesis
      proof (cases "take 1 (skip_ws t) = [93]")
        case True
        with "1.prems" t c lt len show ?thesis by auto
      next
        case False
        with "1.prems" t c obtain ws where "json_elements t = Some (ws, r)" by auto
        from "1.IH"(1) [OF t _ c False this] c lt show ?thesis by simp
      qed
    next
      assume c: "c = 123"
      show ?thesis
      proof (cases "take 1 (skip_ws t) = [125]")
        case True
        with "1.prems" t c lt len show ?thesis by auto
      next
        case False
        with "1.prems" t c obtain ws where "json_members [] t = Some (ws, r)" by auto
        from "1.IH"(2) [OF t _ _ c False this] c lt show ?thesis by simp
      qed
    qed
  next
    case False
    have "length r < length (c # t)"
      using "1.prems" t False json_word_consumes [of _ _ "c # t" v r] json_number_consumes [of "c # t" _ r]
      by (auto split: if_splits)
    with lt length_skip_ws [of s] t show ?thesis by simp
  qed
next
  case (2 s)
  from "2.prems" obtain v r1 where v: "json_value s = Some (v, r1)" and len: "length r1 < length s"
    by (auto split: option.splits if_splits)
  from "2.prems" v len obtain c r2 where c: "skip_ws r1 = c # r2" by (cases "skip_ws r1") auto
  have "length r2 < length r1" using skip_ws_Cons [OF c] .
  with "2.prems" v len c "2.IH"(2) [OF v _ len c] show ?case by (force split: if_splits)
next
  case (3 ps s)
  from "3.prems" obtain c r0 where c: "skip_ws s = c # r0" by (cases "skip_ws s") auto
  from "3.prems" c obtain k r1 where k: "json_string_tail r0 = Some (k, r1)" and c34: "c = 34"
    by (auto split: option.splits if_splits)
  from "3.prems" c c34 k obtain c2 r2 where c2: "skip_ws r1 = c2 # r2" by (cases "skip_ws r1") auto
  from "3.prems" c c34 k c2 obtain v r3 where v: "json_value r2 = Some (v, r3)" "length r3 < length r2" and c58: "c2 = 58"
    by (auto split: option.splits if_splits)
  from "3.prems" c c34 k c2 c58 v obtain c4 r4 where c4: "skip_ws r3 = c4 # r4" by (cases "skip_ws r3") auto
  note lens = skip_ws_Cons [OF c] json_string_tail_consumes [OF k] skip_ws_Cons [OF c2] v(2) skip_ws_Cons [OF c4]
  from "3.prems" c c34 k c2 c58 v c4 consider "json_members (js_put ps k v) r4 = Some (qs, r)" "c4 = 44"
    | "r = r4" by (auto split: if_splits)
  then show ?case
  proof cases
    case 1
    from "3.IH"(2) [OF c _ k _ c2 _ v(1) _ v(2) c4 1(2,1)] c34 c58 lens show ?thesis by simp
  qed (use lens in simp)
qed

subsection \<open>Printing\<close>

definition hex_unit :: "nat \<Rightarrow> nat" where
  "hex_unit n = (if n < 10 then 48 + n else 87 + n)"

definition hex4 :: "nat \<Rightarrow> jsstring" where
  "hex4 n = [hex_unit (n div 4096 mod 16), hex_unit (n div 256 mod 16), hex_unit (n div 16 mod 16), hex_unit (n mod 16)]"

definition unicode_escape :: "nat \<Rightarrow> jsstring" where
  "unicode_escape n = 92 # 117 # hex4 n"

definition is_high_surrogate :: "nat \<Rightarrow> bool" where
  "is_high_surrogate c \<longleftrightarrow> 55296 \<le> c \<and> c \<le> 56319"

definition is_low_surrogate :: "nat \<Rightarrow> bool" where
  "is_low_surrogate c \<longleftrightarrow> 56320 \<le> c \<and> c \<le> 57343"

definition short_escapes :: "(nat \<times> nat) list" where
  "short_escapes = [(34, 34), (92, 92), (8, 98), (12, 102), (10, 110), (13, 114), (9, 116)]"

text \<open>A surrogate that is not part of a pair is escaped.\<close>

fun json_quote_units :: "jsstring \<Rightarrow> jsstring" where
  "json_quote_units [] = []"
| "json_quote_units (c # cs) =
     (case map_of short_escapes c of
        Some e \<Rightarrow> 92 # e # json_quote_units cs
      | None \<Rightarrow>
          if c < 32 \<or> is_low_surrogate c then unicode_escape c @ json_quote_units cs
          else if is_high_surrogate c
          then (case cs of
                  d # ds \<Rightarrow>
                    if is_low_surrogate d then c # d # json_quote_units ds
                    else unicode_escape c @ json_quote_units cs
                | [] \<Rightarrow> unicode_escape c)
          else c # json_quote_units cs)"

definition json_quote :: "jsstring \<Rightarrow> jsstring" where
  "json_quote s = 34 # json_quote_units s @ [34]"

text \<open>\<open>JSON.stringify(object, null, 2)\<close> of an object whose values are all texts.\<close>

definition pretty_member :: "jsstring \<times> jsstring \<Rightarrow> jsstring" where
  "pretty_member m = js ''  '' @ json_quote (fst m) @ js '': '' @ json_quote (snd m)"

definition pretty_strings :: "(jsstring \<times> jsstring) list \<Rightarrow> jsstring" where
  "pretty_strings ms =
     (if ms = [] then js ''{}''
      else [123, 10] @ js_join [44, 10] (map pretty_member ms) @ [10, 125])"

subsection \<open>Printed texts are read back\<close>

lemma hex_unit_value: "n < 16 \<Longrightarrow> hex_value (hex_unit n) = n \<and> is_hex (hex_unit n)"
  by (auto simp: hex_unit_def hex_value_def is_hex_def is_digit_def)

lemma hex4_value: "n < 65536 \<Longrightarrow> hex_text_value (hex4 n) = n \<and> list_all is_hex (hex4 n) \<and> length (hex4 n) = 4"
proof -
  assume n: "n < 65536"
  have "hex_text_value (hex4 n) = 4096 * (n div 4096 mod 16) + 256 * (n div 256 mod 16) + 16 * (n div 16 mod 16) + n mod 16"
    by (simp add: hex_text_value_def hex4_def hex_unit_value)
  also have "\<dots> = n"
  proof -
    have e: "n div 256 = n div 16 div 16" "n div 4096 = n div 16 div 16 div 16"
      by (simp_all add: div_mult2_eq [symmetric])
    have "n div 16 div 16 div 16 < 16" using n by (simp add: div_mult2_eq [symmetric])
    then have m: "n div 16 div 16 div 16 mod 16 = n div 16 div 16 div 16" by simp
    show ?thesis
      unfolding e m
      using mult_div_mod_eq [of 16 n] mult_div_mod_eq [of 16 "n div 16"] mult_div_mod_eq [of 16 "n div 16 div 16"]
      by linarith
  qed
  finally show ?thesis by (simp add: hex4_def hex_unit_value)
qed

definition units_ok :: "jsstring \<Rightarrow> bool" where
  "units_ok s = list_all (\<lambda>c. c < 65536) s"

lemma short_escapes_back: "map_of short_escapes c = Some e \<Longrightarrow> map_of json_escapes e = Some c \<and> e \<noteq> 117"
  by (auto simp: short_escapes_def json_escapes_def split: if_splits)

lemma json_string_tail_escape:
  "n < 65536 \<Longrightarrow> json_string_tail (unicode_escape n @ r) = map_option (\<lambda>(s, t). (n # s, t)) (json_string_tail r)"
proof -
  assume "n < 65536"
  note h = hex4_value [OF this]
  have "take 4 (hex4 n @ r) = hex4 n" "drop 4 (hex4 n @ r) = r" using h by auto
  with h show ?thesis by (simp add: unicode_escape_def json_escapes_def)
qed

lemma plain_unit:
  assumes "map_of short_escapes c = None" "\<not> c < 32"
  shows "json_string_tail (c # r) = map_option (\<lambda>(s, t). (c # s, t)) (json_string_tail r)"
  using assms by (auto simp: short_escapes_def split: if_splits)

lemma json_quote_units_tail:
  "units_ok s \<Longrightarrow> json_string_tail (json_quote_units s @ 34 # r) = Some (s, r)"
proof (induction s rule: json_quote_units.induct)
  case (2 c cs)
  have c: "c < 65536" "units_ok cs" using "2.prems" by (auto simp: units_ok_def)
  show ?case
  proof (cases "map_of short_escapes c")
    case (Some e)
    with "2.IH"(5) [OF Some c(2)] short_escapes_back [OF Some] show ?thesis by simp
  next
    case None
    show ?thesis
    proof (cases "c < 32 \<or> is_low_surrogate c")
      case True
      with None "2.IH"(1) [OF None True c(2)] json_string_tail_escape [OF c(1)] show ?thesis by simp
    next
      case plain: False
      show ?thesis
      proof (cases "is_high_surrogate c")
        case False
        with plain None "2.IH"(4) [OF None plain False c(2)] plain_unit [OF None] show ?thesis
          by (simp del: json_string_tail.simps)
      next
        case True
        show ?thesis
        proof (cases cs)
          case Nil
          with True plain None json_string_tail_escape [OF c(1), of "34 # r"] show ?thesis by simp
        next
          case (Cons d ds)
          show ?thesis
          proof (cases "is_low_surrogate d")
            case low: True
            have d: "map_of short_escapes d = None" "\<not> d < 32" "units_ok ds"
              using low c(2) Cons by (auto simp: is_low_surrogate_def short_escapes_def units_ok_def)
            have q: "json_quote_units (c # cs) = c # d # json_quote_units ds" using True plain None Cons low by simp
            have "json_quote_units cs = unicode_escape d @ json_quote_units ds" using low d Cons by simp
            have "json_string_tail (json_quote_units ds @ 34 # r) = Some (ds, r)"
              using "2.IH"(2) [OF None plain True Cons low d(3)] .
            then show ?thesis
              using q plain_unit [OF None, of "d # json_quote_units ds @ 34 # r"] plain
                plain_unit [OF d(1,2), of "json_quote_units ds @ 34 # r"] Cons
              by (simp del: json_string_tail.simps json_quote_units.simps)
          next
            case low: False
            have "json_string_tail (json_quote_units cs @ 34 # r) = Some (cs, r)"
              using "2.IH"(3) [OF None plain True Cons low c(2)] .
            with True plain None Cons low json_string_tail_escape [OF c(1)] show ?thesis by simp
          qed
        qed
      qed
    qed
  qed
qed simp

lemma skip_ws_simps [simp]:
  "json_space c \<Longrightarrow> skip_ws (c # s) = skip_ws s"
  "\<not> json_space c \<Longrightarrow> skip_ws (c # s) = c # s"
  "skip_ws [] = []"
  by (simp_all add: skip_ws_def)

lemma json_space_values [simp]:
  "json_space 10" "json_space 32" "\<not> json_space 34" "\<not> json_space 44" "\<not> json_space 58"
  "\<not> json_space 123" "\<not> json_space 125"
  by (simp_all add: json_space_def)

lemma json_value_quote: "units_ok s \<Longrightarrow> json_value (32 # json_quote s @ r) = Some (VStr s, r)"
  by (simp add: json_quote_def json_quote_units_tail del: json_string_tail.simps)

definition put_text :: "properties \<Rightarrow> jsstring \<times> jsstring \<Rightarrow> properties" where
  "put_text ps m = js_put ps (fst m) (VStr (snd m))"

definition member_ok :: "jsstring \<times> jsstring \<Rightarrow> bool" where
  "member_ok m \<longleftrightarrow> units_ok (fst m) \<and> units_ok (snd m)"

lemma json_members_step:
  assumes "member_ok m" and "skip_ws x = c # r" and "c = 44 \<or> c = 125"
  shows "json_members ps (pretty_member m @ x) =
    (if c = 44 then json_members (put_text ps m) r else Some (put_text ps m, r))"
proof -
  have k: "json_string_tail (json_quote_units (fst m) @ 34 # 58 # 32 # json_quote (snd m) @ x)
      = Some (fst m, 58 # 32 # json_quote (snd m) @ x)"
    using assms(1) json_quote_units_tail by (simp add: member_ok_def del: json_string_tail.simps)
  have v: "json_value (32 # json_quote (snd m) @ x) = Some (VStr (snd m), x)"
    using assms(1) json_value_quote by (simp add: member_ok_def del: json_value.simps)
  have split: "pretty_member m @ x = 32 # 32 # 34 # json_quote_units (fst m) @ 34 # 58 # 32 # json_quote (snd m) @ x"
    by (simp add: pretty_member_def json_quote_def)
  have "json_members ps (pretty_member m @ x) =
      (case json_string_tail (json_quote_units (fst m) @ 34 # 58 # 32 # json_quote (snd m) @ x) of
         None \<Rightarrow> None
       | Some (k, r1) \<Rightarrow>
           (case skip_ws r1 of
              [] \<Rightarrow> None
            | c2 # r2 \<Rightarrow>
                if c2 \<noteq> 58 then None
                else (case json_value r2 of
                        None \<Rightarrow> None
                      | Some (v, r3) \<Rightarrow>
                          if length r3 < length r2
                          then (case skip_ws r3 of
                                  [] \<Rightarrow> None
                                | c4 # r4 \<Rightarrow>
                                    if c4 = 44 then json_members (js_put ps k v) r4
                                    else if c4 = 125 then Some (js_put ps k v, r4) else None)
                          else None)))"
    unfolding split by (subst json_members.simps) simp
  also have "\<dots> = (if c = 44 then json_members (put_text ps m) r else Some (put_text ps m, r))"
    unfolding k using assms(2,3) v json_value_consumes(1) [OF v]
    by (auto simp: put_text_def simp del: json_value.simps json_members.simps)
  finally show ?thesis .
qed

lemma json_members_pretty:
  "ms \<noteq> [] \<Longrightarrow> list_all member_ok ms \<Longrightarrow>
   json_members ps (js_join [44, 10] (map pretty_member ms) @ 10 # 125 # r) = Some (foldl put_text ps ms, r)"
proof (induction ms arbitrary: ps rule: induct_list012)
  case (2 m)
  then show ?case using json_members_step [of m "10 # 125 # r" 125 r ps] by (simp del: json_members.simps)
next
  case (3 m n ms)
  let ?rest = "js_join [44, 10] (map pretty_member (n # ms)) @ 10 # 125 # r"
  have "json_members ps (pretty_member m @ 44 # 10 # ?rest) = json_members (put_text ps m) (10 # ?rest)"
    using 3 json_members_step [of m "44 # 10 # ?rest" 44 "10 # ?rest" ps] by (simp del: json_members.simps)
  also have "\<dots> = json_members (put_text ps m) ?rest"
    by (subst (1 2) json_members.simps) simp
  finally show ?case using 3 by (simp del: json_members.simps)
qed simp

lemma json_parse_pretty:
  assumes "list_all member_ok ms"
  shows "json_parse (pretty_strings ms) = Some (VObj (foldl put_text [] ms))"
proof (cases "ms = []")
  case True
  then show ?thesis by (simp add: pretty_strings_def json_parse_def)
next
  case False
  let ?body = "js_join [44, 10] (map pretty_member ms) @ 10 # 125 # []"
  have m: "json_members [] ?body = Some (foldl put_text [] ms, [])"
    using json_members_pretty [OF False assms, of "[]" "[]"] .
  have sk: "skip_ws (10 # ?body) = skip_ws ?body" by simp
  obtain x xs where ms: "ms = x # xs" using False by (cases ms) auto
  obtain rest where "?body = pretty_member x @ rest" unfolding ms by (cases xs) auto
  then have hd: "take 1 (skip_ws ?body) = [34]" by (simp add: pretty_member_def json_quote_def)
  have "json_members [] (10 # ?body) = json_members [] ?body" by (subst (1 2) json_members.simps) (simp add: sk)
  then have "json_value (123 # 10 # ?body) = Some (VObj (foldl put_text [] ms), [])"
    using m hd sk by (simp del: json_members.simps)
  with False show ?thesis by (simp add: pretty_strings_def json_parse_def del: json_value.simps)
qed

lemma map_of_put_texts:
  "map_of (foldl put_text ps ms) = map_of ps ++ map_of (rev (map (\<lambda>m. (fst m, VStr (snd m))) ms))"
  by (induction ms arbitrary: ps) (auto simp: put_text_def fun_eq_iff map_add_def split: option.splits)

lemma pretty_strings_trimmed [simp]: "js_trim (pretty_strings ms) = pretty_strings ms" "pretty_strings ms \<noteq> []"
  by (auto simp: pretty_strings_def js_trim_def is_space_def)

end
