(* ===== verification/Js_Number_Text.thy ===== *)
theory Js_Number_Text
  imports Js_Text
begin

section \<open>A printed number is read back as itself\<close>

text \<open>
  \<open>Number(String(x))\<close> is \<open>x\<close> for every finite double that is not negative: the shortest digits at most
  seventeen of which are needed, their layout, and the reading of the layout by the grammar of
  decimal literals.
\<close>

subsection \<open>Values near a double round to it\<close>

lemma round_half_even_near: "\<bar>q - of_int m\<bar> < 1 / 2 \<Longrightarrow> round_half_even q = m"
proof -
  assume near: "\<bar>q - of_int m\<bar> < 1 / 2"
  then consider "\<lfloor>q\<rfloor> = m" | "\<lfloor>q\<rfloor> = m - 1" by linarith
  then show ?thesis
  proof cases
    case 1
    then show ?thesis using near by (auto simp: round_half_even_def nearest_even_def)
  next
    case 2
    moreover have "- (1 / 2) < q - of_int m" using near by linarith
    ultimately have "1 / 2 < q - of_int \<lfloor>q\<rfloor>" by simp
    then show ?thesis using 2 by (simp add: round_half_even_def nearest_even_def)
  qed
qed

lemma ilog2_eqI: "0 < q \<Longrightarrow> pow2 e \<le> q \<Longrightarrow> q < pow2 (e + 1) \<Longrightarrow> ilog2 q = e"
proof -
  assume q: "0 < q" "pow2 e \<le> q" "q < pow2 (e + 1)"
  have "pow2 e < pow2 (ilog2 q + 1)" using q ilog2_bounds(2) [OF q(1)] by linarith
  then have "e \<le> ilog2 q" by (simp add: pow2_less_iff)
  with ilog2_le [OF q(1,3)] show ?thesis by simp
qed

text \<open>The significand and the exponent of a positive double.\<close>

lemma double_shape:
  assumes "0 < q" and "round64 q = JFin q"
  obtains m where "q = of_int m * pow2 (ulp_exp q)" and "0 < m" and "m < 9007199254740992"
    and "- 1074 < ulp_exp q \<Longrightarrow> 4503599627370496 \<le> m" and "ulp_exp q \<le> 971"
proof -
  let ?m = "significand q"
  have p: "pack False ?m (ulp_exp q) = JFin q" using assms round64_pos by simp
  have q: "q = of_int ?m * pow2 (ulp_exp q)"
    using p assms(1) by (auto simp: pack_def js_zero_def split: if_splits)
  have "0 < ?m" using q assms(1) pow2_pos [of "ulp_exp q"]
    by (metis of_int_0_less_iff zero_less_mult_pos2)
  moreover have "?m < 9007199254740992"
  proof -
    have "q < pow2 (ulp_exp q) * pow2 53"
    proof -
      have "ilog2 q + 1 \<le> ulp_exp q + 53" by (simp add: ulp_exp_def)
      then have "pow2 (ilog2 q + 1) \<le> pow2 (ulp_exp q + 53)" by (simp add: pow2_le_iff)
      then show ?thesis using ilog2_bounds(2) [OF assms(1)] by (simp add: pow2_add)
    qed
    then have "of_int ?m * pow2 (ulp_exp q) < pow2 53 * pow2 (ulp_exp q)" using q by (simp add: mult.commute)
    then show ?thesis by (simp add: pow2_numerals)
  qed
  moreover have "ulp_exp q \<le> 971" using p by (auto simp: pack_def split: if_splits)
  ultimately show ?thesis using that [of ?m] q significand_ge [OF assms(1)] by blast
qed

lemma round64_near:
  assumes "0 < q" and "round64 q = JFin q" and "\<bar>d - q\<bar> \<le> q * (5 / 10 ^ 17)"
  shows "round64 d = JFin q"
proof -
  obtain m where q: "q = of_int m * pow2 (ulp_exp q)" and m: "0 < m" "m < 9007199254740992"
    and normal: "- 1074 < ulp_exp q \<Longrightarrow> 4503599627370496 \<le> m" and k: "ulp_exp q \<le> 971"
    using double_shape [OF assms(1,2)] by metis
  define u where "u = ulp_exp q"
  have "q * (5 / 10 ^ 17) < q" using assms(1) by simp
  with assms have d0: "0 < d" by linarith
  have qu: "q / pow2 u = of_int m" using q by (simp add: u_def field_simps)
  have dist: "\<bar>d / pow2 u - of_int m\<bar> \<le> of_int m * (5 / 10 ^ 17)"
  proof -
    have "d / pow2 u - of_int m = (d - q) / pow2 u" using qu by (simp add: diff_divide_distrib)
    then have "\<bar>d / pow2 u - of_int m\<bar> = \<bar>d - q\<bar> / pow2 u" by (simp add: abs_divide)
    also have "\<dots> \<le> q * (5 / 10 ^ 17) / pow2 u" by (rule divide_right_mono [OF assms(3)]) simp
    also have "\<dots> = of_int m * (5 / 10 ^ 17)" using qu by simp
    finally show ?thesis .
  qed
  have near: "\<bar>d / pow2 u - of_int m\<bar> < 1 / 2"
  proof -
    have "(of_int m :: rat) < 9007199254740992" using m(2) by linarith
    then have "of_int m * (5 / 10 ^ 17) < (1 / 2 :: rat)" by simp
    with dist show ?thesis by linarith
  qed
  have below: "d < pow2 (u + 53)"
  proof -
    have "d / pow2 u < of_int m + 1 / 2" using near by linarith
    also have "\<dots> \<le> 9007199254740992" using m(2) by linarith
    finally show ?thesis by (simp add: pow2_add pow2_numerals divide_less_eq mult.commute)
  qed
  then have "ilog2 d \<le> u + 52" using ilog2_le [OF d0, of "u + 52"] by (simp add: algebra_simps)
  then have le: "ulp_exp d \<le> u" using ulp_exp_ge [of q] by (simp add: ulp_exp_def u_def)
  show ?thesis
  proof (cases "ulp_exp d = u")
    case True
    then have "significand d = m" using near by (simp add: significand_def round_half_even_near)
    then have "round64 d = pack False m u" using d0 round64_pos True by simp
    also have "\<dots> = round64 q" using assms(1) round64_pos [of q] qu by (simp add: significand_def u_def)
    finally show ?thesis using assms(2) by simp
  next
    case False
    then have lt: "ulp_exp d < u" using le by simp
    then have u: "- 1074 < u" and iu: "ilog2 d - 52 < u" by (auto simp: ulp_exp_def)
    have small: "d < pow2 (u + 52)"
    proof -
      have "d < pow2 (ilog2 d + 1)" by (rule ilog2_bounds(2) [OF d0])
      also have "\<dots> \<le> pow2 (u + 52)" using iu by (simp add: pow2_le_iff)
      finally show ?thesis .
    qed
    have p52: "pow2 52 = 4503599627370496" by (simp add: pow2_def)
    have "of_int m - 1 / 2 < d / pow2 u" using near by linarith
    also have "\<dots> < 4503599627370496" using small by (simp add: pow2_add p52 divide_less_eq mult.commute)
    finally have m52: "m = 4503599627370496" using normal u by (simp add: u_def)
    have "9007199254740992 - 1 / 2 < d / pow2 (u - 1)"
    proof -
      have "4503599627370496 - 4503599627370496 * (5 / 10 ^ 17) \<le> d / pow2 u"
      proof -
        have "4503599627370496 - d / pow2 u \<le> 4503599627370496 * (5 / 10 ^ 17)"
          using dist unfolding m52 of_int_numeral by linarith
        then show ?thesis by linarith
      qed
      moreover have "d / pow2 (u - 1) = 2 * (d / pow2 u)" by (simp add: pow2_diff) (simp add: pow2_def)
      ultimately show ?thesis by simp
    qed
    moreover have "d / pow2 (u - 1) < 9007199254740992"
    proof -
      have "pow2 (u + 52) = pow2 (u - 1) * pow2 53" by (simp add: pow2_add [symmetric] add.commute)
      then show ?thesis using small by (simp add: pow2_numerals divide_less_eq mult.commute)
    qed
    ultimately have "\<bar>d / pow2 (u - 1) - of_int 9007199254740992\<bar> < 1 / 2" by simp
    then have r: "round_half_even (d / pow2 (u - 1)) = 9007199254740992" by (rule round_half_even_near)
    have "pow2 (u + 51) \<le> d"
    proof -
      have "pow2 (u + 51) = pow2 (u - 1) * pow2 52" by (simp add: pow2_add [symmetric] add.commute)
      moreover have "4503599627370496 \<le> d / pow2 (u - 1)"
        using \<open>9007199254740992 - 1 / 2 < d / pow2 (u - 1)\<close> by linarith
      ultimately show ?thesis by (simp add: p52 le_divide_eq mult.commute)
    qed
    then have "ilog2 d = u + 51" using small by (intro ilog2_eqI [OF d0]) (simp_all add: algebra_simps)
    then have e: "ulp_exp d = u - 1" using u by (simp add: ulp_exp_def)
    have "round64 d = pack False 9007199254740992 (u - 1)"
      using round64_pos [OF d0] r e by (simp add: significand_def)
    also have "\<dots> = JFin (9007199254740992 * pow2 (u - 1))" using k by (simp add: pack_def u_def)
    also have "9007199254740992 * pow2 (u - 1) = q"
      using qu m52 by (simp add: pow2_diff field_simps) (simp add: pow2_def)
    finally show ?thesis .
  qed
qed

subsection \<open>Powers of ten\<close>

lemma ten_pow_pos [simp]: "0 < ten_pow k"
  by (simp add: ten_pow_def)

lemma ten_pow_neq_0 [simp]: "ten_pow k \<noteq> 0"
  using ten_pow_pos [of k] by linarith

lemma ten_pow_0 [simp]: "ten_pow 0 = 1"
  by (simp add: ten_pow_def)

lemma ten_pow_powi: "ten_pow k = 10 powi k"
  by (simp add: ten_pow_def power_int_def field_simps)

lemma ten_pow_add: "ten_pow (i + j) = ten_pow i * ten_pow j"
  by (simp add: ten_pow_powi power_int_add)

lemma ten_pow_diff: "ten_pow (i - j) = ten_pow i / ten_pow j"
  by (simp add: ten_pow_powi power_int_diff)

lemma ten_pow_nat: "ten_pow (int n) = 10 ^ n"
  by (simp add: ten_pow_def)

lemma ten_pow_less: "i < j \<Longrightarrow> ten_pow i < ten_pow j"
  by (simp add: ten_pow_powi power_int_strict_increasing)

lemma ten_pow_le_iff: "ten_pow i \<le> ten_pow j \<longleftrightarrow> i \<le> j"
  using ten_pow_less [of i j] ten_pow_less [of j i] by (cases i j rule: linorder_cases) auto

lemma ten_pow_power: "ten_pow k ^ n = ten_pow (k * int n)"
  by (simp add: ten_pow_powi power_int_mult)

lemma pow2_power: "pow2 k ^ n = pow2 (k * int n)"
  by (simp add: pow2_powi power_int_mult)

text \<open>\<open>30103 / 100000\<close> is close enough to the logarithm: \<open>10 ^ 59 < 2 ^ 196\<close> and \<open>2 ^ 93 < 10 ^ 28\<close>.\<close>

lemma ten_pow_le_pow2:
  assumes "196 * a \<le> 59 * b" and "0 \<le> b" shows "ten_pow a \<le> pow2 b"
proof -
  have "ten_pow a ^ 196 = ten_pow (196 * a)" by (simp add: ten_pow_power mult.commute)
  also have "\<dots> \<le> ten_pow (59 * b)" using assms by (simp add: ten_pow_le_iff)
  also have "\<dots> = (10 ^ 59) ^ nat b" using assms(2)
    unfolding power_mult [symmetric] by (simp add: ten_pow_def nat_mult_distrib)
  also have "\<dots> \<le> (2 ^ 196) ^ nat b" by (intro power_mono) simp_all
  also have "\<dots> = pow2 b ^ 196" using assms(2)
    unfolding power_mult [symmetric] by (simp add: pow2_def power_mult [symmetric] mult.commute)
  finally show ?thesis using power_mono_iff [of "ten_pow a" "pow2 b" 196] by (simp add: less_imp_le)
qed

lemma pow2_le_ten_pow:
  assumes "28 * b \<le> 93 * a" and "0 \<le> b" shows "pow2 b \<le> ten_pow a"
proof -
  have "pow2 b ^ 93 = (2 ^ 93) ^ nat b" using assms(2)
    unfolding power_mult [symmetric] by (simp add: pow2_def power_mult [symmetric] mult.commute)
  also have "\<dots> \<le> (10 ^ 28) ^ nat b" by (intro power_mono) simp_all
  also have "\<dots> = ten_pow (28 * b)" using assms(2)
    unfolding power_mult [symmetric] by (simp add: ten_pow_def nat_mult_distrib)
  also have "\<dots> \<le> ten_pow (93 * a)" using assms by (simp add: ten_pow_le_iff)
  also have "\<dots> = ten_pow a ^ 93" by (simp add: ten_pow_power mult.commute)
  finally show ?thesis using power_mono_iff [of "pow2 b" "ten_pow a" 93] by (simp add: less_imp_le)
qed

lemma power_swap: "pow2 (- b) \<le> ten_pow (- a) \<longleftrightarrow> ten_pow a \<le> pow2 b"
  "ten_pow (- a) \<le> pow2 (- b) \<longleftrightarrow> pow2 b \<le> ten_pow a"
  by (simp_all add: pow2_powi ten_pow_powi power_int_minus)

lemma log_bounds:
  assumes lower: "100000 * f \<le> 30103 * e" and upper: "30103 * e \<le> 100000 * f + 100000"
    and e: "- 1074 \<le> e" "e \<le> (1023 :: int)"
  shows "196 * (f - 1) \<le> 59 * e" "28 * (- e) \<le> 93 * (- (f - 1))"
    "28 * (e + 1) \<le> 93 * (f + 2)" "196 * (- (f + 2)) \<le> 59 * (- (e + 1))"
proof -
  have l: "19600000 * f \<le> 5900188 * e" "9300000 * f \<le> 2799579 * e"
    using mult_left_mono [OF lower, of 196] mult_left_mono [OF lower, of 93] by (simp_all add: mult.assoc [symmetric])
  have u: "5900188 * e \<le> 19600000 * f + 19600000" "2799579 * e \<le> 9300000 * f + 9300000"
    using mult_left_mono [OF upper, of 196] mult_left_mono [OF upper, of 93]
    by (simp_all add: mult.assoc [symmetric] distrib_left)
  have "19600000 * f - 19600000 \<le> 5900000 * e" using l(1) e(2) by linarith
  then show "196 * (f - 1) \<le> 59 * e" by simp
  have "- 2800000 * e \<le> 9300000 - 9300000 * f" using l(2) e(1) by linarith
  then show "28 * (- e) \<le> 93 * (- (f - 1))" by simp
  have "2800000 * e + 2800000 \<le> 9300000 * f + 18600000" using u(2) e(2) by linarith
  then show "28 * (e + 1) \<le> 93 * (f + 2)" by simp
  have "- 19600000 * f - 39200000 \<le> - 5900000 * e - 5900000" using u(1) e(1) by linarith
  then show "196 * (- (f + 2)) \<le> 59 * (- (e + 1))" by simp
qed

lemma decimal_exponent_bounds:
  assumes "0 < q" and "- 1074 \<le> ilog2 q" and "ilog2 q \<le> 1023"
  shows "ten_pow (decimal_exponent q - 1) \<le> q" and "q < ten_pow (decimal_exponent q)"
proof -
  define e where "e = ilog2 q"
  define f where "f = e * 30103 div 100000"
  have f: "100000 * f \<le> 30103 * e" "30103 * e \<le> 100000 * f + 100000" unfolding f_def by linarith+
  have e: "- 1074 \<le> e" "e \<le> 1023" using assms by (simp_all add: e_def)
  note logs = log_bounds [OF f e]
  have "ten_pow (f - 1) \<le> pow2 e"
  proof (cases "0 \<le> e")
    case True
    then show ?thesis by (rule ten_pow_le_pow2 [OF logs(1)])
  next
    case False
    then show ?thesis using pow2_le_ten_pow [OF logs(2)] power_swap(1) [of e "f - 1"] by simp
  qed
  then have lower: "ten_pow (f - 1) \<le> q" using ilog2_bounds(1) [OF assms(1)] unfolding e_def by linarith
  have "pow2 (e + 1) \<le> ten_pow (f + 2)"
  proof (cases "0 \<le> e + 1")
    case True
    then show ?thesis by (rule pow2_le_ten_pow [OF logs(3)])
  next
    case False
    then show ?thesis using ten_pow_le_pow2 [OF logs(4)] power_swap(2) [of "f + 2" "e + 1"] by simp
  qed
  then have upper: "q < ten_pow (f + 2)" using ilog2_bounds(2) [OF assms(1)] unfolding e_def by linarith
  show "ten_pow (decimal_exponent q - 1) \<le> q" "q < ten_pow (decimal_exponent q)"
    using lower upper by (auto simp: decimal_exponent_def decimal_exponent_from_def e_def f_def algebra_simps)
qed

subsection \<open>The shortest digits\<close>

lemma double_exponent:
  assumes "0 < q" and "round64 q = JFin q"
  shows "- 1074 \<le> ilog2 q" and "ilog2 q \<le> 1023"
proof -
  obtain m where q: "q = of_int m * pow2 (ulp_exp q)" and m: "0 < m" "m < 9007199254740992"
    and k: "ulp_exp q \<le> 971"
    using double_shape [OF assms] by metis
  have "1 \<le> (of_int m :: rat)" using m(1) by linarith
  then have "pow2 (- 1074) \<le> q"
    using q ulp_exp_ge [of q] pow2_le_iff [of "- 1074" "ulp_exp q"] mult_right_mono [of 1 "of_int m" "pow2 (ulp_exp q)"]
    by simp
  then have "pow2 (- 1074) < pow2 (ilog2 q + 1)" using ilog2_bounds(2) [OF assms(1)] by linarith
  then show "- 1074 \<le> ilog2 q" by (simp add: pow2_less_iff)
  show "ilog2 q \<le> 1023" using k by (simp add: ulp_exp_def)
qed

text \<open>\<open>s * 10 ^ (n - k)\<close> reads as \<open>q\<close> and has exactly \<open>k\<close> digits.\<close>

definition denotes :: "rat \<Rightarrow> int \<times> int \<times> int \<Rightarrow> bool" where
  "denotes q d = (case d of (s, n, k) \<Rightarrow>
     1 \<le> k \<and> 10 ^ nat (k - 1) \<le> s \<and> s < 10 ^ nat k \<and> round64 (of_int s * ten_pow (n - k)) = JFin q)"

lemma decimal_candidate_denotes:
  assumes "1 \<le> k" and "10 ^ nat (k - 1) \<le> s" and "s \<le> 10 ^ nat k" and "rounds_to q s n k"
  shows "denotes q (decimal_candidate s n k)"
proof (cases "s = 10 ^ nat k")
  case True
  have k: "nat k = Suc (nat (k - 1))" using assms(1) by simp
  have s: "s div 10 = 10 ^ nat (k - 1)" "s = 10 * 10 ^ nat (k - 1)" using True by (simp_all add: k)
  have "of_int s * ten_pow (n - k) = of_int (s div 10) * ten_pow (n + 1 - k)"
    using s ten_pow_add [of 1 "n - k"] by (simp add: ten_pow_def [of 1] algebra_simps)
  then have "round64 (of_int (s div 10) * ten_pow (n + 1 - k)) = JFin q" using assms(4) by (simp only: rounds_to_def)
  then show ?thesis using assms True s k by (simp add: denotes_def decimal_candidate_def)
qed (use assms in \<open>simp add: denotes_def decimal_candidate_def rounds_to_def\<close>)

lemma scaled_floor:
  assumes "1 \<le> k" and "ten_pow (n - 1) \<le> q" and "q < ten_pow n"
  shows "10 ^ nat (k - 1) \<le> \<lfloor>q * ten_pow (k - n)\<rfloor>" and "\<lfloor>q * ten_pow (k - n)\<rfloor> < 10 ^ nat k"
proof -
  have "ten_pow (k - 1) = ten_pow (n - 1) * ten_pow (k - n)" by (simp add: ten_pow_add [symmetric])
  also have "\<dots> \<le> q * ten_pow (k - n)" using assms(2) by (intro mult_right_mono) (simp_all add: less_imp_le)
  finally show "10 ^ nat (k - 1) \<le> \<lfloor>q * ten_pow (k - n)\<rfloor>" using assms(1) by (simp add: le_floor_iff ten_pow_def)
  have "q * ten_pow (k - n) < ten_pow n * ten_pow (k - n)" using assms(3) by (intro mult_strict_right_mono) simp_all
  also have "\<dots> = ten_pow k" by (simp add: ten_pow_add [symmetric])
  finally show "\<lfloor>q * ten_pow (k - n)\<rfloor> < 10 ^ nat k" using assms(1) by (simp add: floor_less_iff ten_pow_def)
qed

lemma pick_decimal_denotes:
  assumes "pick_decimal q \<lfloor>q * ten_pow (k - n)\<rfloor> n k = Some d" and "1 \<le> k"
    and "ten_pow (n - 1) \<le> q" and "q < ten_pow n"
  shows "denotes q d"
  using assms(1) scaled_floor [OF assms(2-4)] assms(2)
  by (auto simp: pick_decimal_def split: if_splits intro!: decimal_candidate_denotes)

text \<open>Seventeen digits are enough.\<close>

lemma pick_decimal_17:
  assumes "0 < q" and "round64 q = JFin q" and "ten_pow (n - 1) \<le> q"
  shows "pick_decimal q \<lfloor>q * ten_pow (17 - n)\<rfloor> n 17 \<noteq> None"
proof -
  define u where "u = ten_pow (n - 17)"
  define s where "s = \<lfloor>q * ten_pow (17 - n)\<rfloor>"
  have u0: "0 < u" by (simp add: u_def)
  have "ten_pow (17 - n) = 1 / u" using ten_pow_diff [of 0 "n - 17"] by (simp add: u_def)
  then have "s = \<lfloor>q / u\<rfloor>" by (simp add: s_def)
  then have "of_int s \<le> q / u" "q / u < of_int s + 1" by linarith+
  then have s: "of_int s * u \<le> q" "q < of_int (s + 1) * u" using u0 by (simp_all add: field_simps)
  have "ten_pow (n - 1) = u * 10 ^ 16" using ten_pow_add [of "n - 17" 16] by (simp add: u_def ten_pow_def [of 16])
  then have "u * (1 / 2) \<le> q * (5 / 10 ^ 17)" using assms(3) by simp
  moreover have "of_int (s + 1) * u = of_int s * u + u" by (simp add: algebra_simps)
  ultimately have "\<bar>of_int s * u - q\<bar> \<le> q * (5 / 10 ^ 17) \<or> \<bar>of_int (s + 1) * u - q\<bar> \<le> q * (5 / 10 ^ 17)"
    using s by linarith
  then have "rounds_to q s n 17 \<or> rounds_to q (s + 1) n 17"
    using round64_near [OF assms(1,2)] by (auto simp: rounds_to_def u_def)
  then show ?thesis unfolding s_def by (simp add: pick_decimal_def del: not_None_eq) blast
qed

lemma first_decimal_denotes:
  assumes "0 < q" and "round64 q = JFin q" and "ten_pow (n - 1) \<le> q" and "q < ten_pow n"
    and "17 \<in> set ks" and "\<forall>k \<in> set ks. 1 \<le> k"
  shows "denotes q (first_decimal q n ks)"
  using assms(5,6)
proof (induction ks)
  case (Cons k ks)
  show ?case
  proof (cases "pick_decimal q \<lfloor>q * ten_pow (k - n)\<rfloor> n k")
    case None
    then have "k \<noteq> 17" using pick_decimal_17 [OF assms(1-3)] by auto
    then show ?thesis using Cons None by simp
  next
    case (Some d)
    then show ?thesis using pick_decimal_denotes [OF Some _ assms(3,4)] Cons.prems by simp
  qed
qed simp

lemma shortest_decimal_denotes:
  assumes "0 < q" and "round64 q = JFin q"
  shows "denotes q (shortest_decimal q)"
  unfolding shortest_decimal_def using decimal_exponent_bounds [OF assms(1) double_exponent [OF assms]] assms
  by (intro first_decimal_denotes) auto

subsection \<open>The layout\<close>

lemma length_digits_text: "10 ^ k \<le> s \<Longrightarrow> s < 10 ^ Suc k \<Longrightarrow> length (digits_text s) = Suc k"
proof (induction k arbitrary: s)
  case 0
  then show ?case by (simp add: digits_text.simps [of s])
next
  case (Suc k)
  have "10 ^ k \<le> s div 10" "s div 10 < 10 ^ Suc k" using Suc.prems by simp_all
  then have "length (digits_text (s div 10)) = Suc k" by (rule Suc.IH)
  moreover have "\<not> s < 10"
  proof -
    have "(1 :: int) \<le> 10 ^ k" by simp
    then show ?thesis using Suc.prems(1) unfolding power_Suc by linarith
  qed
  ultimately show ?case by (simp add: digits_text.simps [of s])
qed

lemma digits_value_zeros: "digits_value 0 (ds @ replicate j 48) = digits_value 0 ds * 10 ^ j"
  by (induction j) (simp_all add: digits_value_append replicate_append_same [symmetric] flip: append_assoc)

lemma digits_value_leading: "digits_value 0 (replicate j 48 @ ds) = digits_value 0 ds"
  by (induction j) simp_all

lemma drop_zeros:
  obtains j where "s = drop_trailing_zeros s @ replicate j 48"
proof -
  have "takeWhile (\<lambda>c. c = 48) (rev s) = replicate (length (takeWhile (\<lambda>c. c = 48) (rev s))) 48"
    by (metis (full_types) replicate_length_same set_takeWhileD)
  then have "rev s = replicate (length (takeWhile (\<lambda>c. c = 48) (rev s))) 48 @ dropWhile (\<lambda>c. c = 48) (rev s)"
    by (metis takeWhile_dropWhile_id)
  then have "s = drop_trailing_zeros s @ replicate (length (takeWhile (\<lambda>c. c = 48) (rev s))) 48"
    by (metis drop_trailing_zeros.simps rev_append rev_replicate rev_rev_ident)
  then show ?thesis by (rule that)
qed

text \<open>The digits and the point of a positive double denote a decimal that rounds to it.\<close>

lemma shortest_digits_denote:
  assumes "0 < q" and "round64 q = JFin q"
  shows "list_all is_digit (shortest_digits q)" and "shortest_digits q \<noteq> []"
    and "round64 (of_int (digits_value 0 (shortest_digits q))
           * ten_pow (shortest_point q - int (length (shortest_digits q)))) = JFin q"
proof -
  obtain s n k where d: "shortest_decimal q = (s, n, k)" by (metis prod_cases3)
  have k: "1 \<le> k" and s: "10 ^ nat (k - 1) \<le> s" "s < 10 ^ nat k" and r: "round64 (of_int s * ten_pow (n - k)) = JFin q"
    using shortest_decimal_denotes [OF assms] by (auto simp: d denotes_def)
  have s0: "0 < s" using s(1) zero_less_power [of "10 :: int" "nat (k - 1)"] by linarith
  obtain j where j: "digits_text s = shortest_digits q @ replicate j 48"
    using drop_zeros [of "digits_text s"] by (auto simp: shortest_digits_def d)
  have len: "length (digits_text s) = nat k" 
  proof -
    have "nat k = Suc (nat (k - 1))" using k by simp
    then show ?thesis using length_digits_text [of "nat (k - 1)" s] s by simp
  qed
  have v: "s = digits_value 0 (shortest_digits q) * 10 ^ j"
    using digits_value_text [of s] s0 by (simp add: j digits_value_zeros)
  show "list_all is_digit (shortest_digits q)" using digits_text_digits [of s] s0 by (simp add: j)
  show "shortest_digits q \<noteq> []" using v s0 by auto
  have "k = int (length (shortest_digits q)) + int j" using len k by (simp add: j)
  then have "of_int s * ten_pow (n - k)
      = of_int (digits_value 0 (shortest_digits q)) * ten_pow (n - int (length (shortest_digits q)))"
    using v ten_pow_add [of "int j" "n - k"] by (simp add: ten_pow_nat algebra_simps)
  then show "round64 (of_int (digits_value 0 (shortest_digits q))
           * ten_pow (shortest_point q - int (length (shortest_digits q)))) = JFin q"
    using r by (simp add: shortest_point_def d)
qed

lemma takeWhile_digits: "list_all is_digit a \<Longrightarrow> r = [] \<or> \<not> is_digit (hd r) \<Longrightarrow>
    takeWhile is_digit (a @ r) = a \<and> dropWhile is_digit (a @ r) = r"
  by (cases r) (auto simp: list_all_iff takeWhile_append dropWhile_append)

text \<open>\<open>a\<close> the digits before the point, \<open>f\<close> the point and the digits after it, \<open>x\<close> the exponent.\<close>

definition fraction_text :: "jsstring \<Rightarrow> bool" where
  "fraction_text f \<longleftrightarrow> f = [] \<or> (\<exists>b. f = 46 # b \<and> list_all is_digit b)"

definition exponent_ok :: "int \<Rightarrow> jsstring \<Rightarrow> bool" where
  "exponent_ok e x \<longleftrightarrow> x = [] \<and> e = 0 \<or> x = 101 # exponent_text e"

lemma point_not_digit [simp]: "\<not> is_digit 46" "\<not> is_digit 101" "\<not> is_digit 45" "\<not> is_digit 43"
  by (simp_all add: is_digit_def)

lemma mantissa_layout:
  assumes "list_all is_digit a" and "a \<noteq> []" and "fraction_text f" and "exponent_ok e x"
  shows "match_mantissa (a @ f @ x) = a @ f"
    and "mantissa_value (a @ f) = of_int (digits_value 0 (a @ tl f)) * ten_pow (- int (length (tl f)))"
proof -
  have hx: "x = [] \<or> \<not> is_digit (hd x)" "x = [] \<or> hd x \<noteq> 46" using assms(4) by (auto simp: exponent_ok_def)
  have hf: "f @ x = [] \<or> \<not> is_digit (hd (f @ x))" "f = [] \<or> \<not> is_digit (hd f)"
    using assms(3) hx by (auto simp: fraction_text_def)
  have mf: "match_fraction (f @ x) = f"
  proof (cases f)
    case Nil
    then show ?thesis using hx by (cases x) (auto simp: match_fraction_def)
  next
    case (Cons c b)
    then have "c = 46" "list_all is_digit b" using assms(3) by (auto simp: fraction_text_def)
    then show ?thesis using Cons hx takeWhile_digits [of b x] by (simp add: match_fraction_def)
  qed
  show "match_mantissa (a @ f @ x) = a @ f"
    using takeWhile_digits [OF assms(1) hf(1)] mf assms(2) by (simp add: match_mantissa_def)
  have "filter is_digit (a @ f) = a @ tl f"
    using assms(1,3) by (auto simp: fraction_text_def list_all_iff filter_id_conv)
  then show "mantissa_value (a @ f) = of_int (digits_value 0 (a @ tl f)) * ten_pow (- int (length (tl f)))"
    using takeWhile_digits [OF assms(1) hf(2)] by (simp add: mantissa_value_def)
qed

lemma exponent_layout:
  assumes "exponent_ok e x"
  shows "match_exponent x = x" and "exponent_value x = e"
proof -
  have d: "takeWhile is_digit (digits_text n) = digits_text n" "list_all is_digit (digits_text n)" if "0 \<le> n" for n
    using digits_text_digits [OF that] by (auto simp: list_all_iff takeWhile_eq_all_conv)
  have "match_exponent x = x \<and> exponent_value x = e" if "x = 101 # exponent_text e"
    using that d [of e] d [of "- e"] digits_value_text [of e] digits_value_text [of "- e"]
    by (cases "e < 0") (simp_all add: match_exponent_def exponent_value_def exponent_text_def match_sign_def exponent_digits_def
        del: takeWhile_eq_all_conv)
  then show "match_exponent x = x" "exponent_value x = e"
    using assms by (auto simp: exponent_ok_def match_exponent_def exponent_value_def)
qed

lemma number_layout:
  assumes "list_all is_digit a" and "a \<noteq> []" and "fraction_text f" and "exponent_ok e x"
  shows "match_number (a @ f @ x) = a @ f @ x"
    and "decimal_value (a @ f @ x) = of_int (digits_value 0 (a @ tl f)) * ten_pow (e - int (length (tl f)))"
  using mantissa_layout [OF assms] exponent_layout [OF assms(4)] assms(2) ten_pow_add [of e "- int (length (tl f))"]
  by (simp_all add: match_number_def decimal_value_def)

definition reads_as :: "jsstring \<Rightarrow> rat \<Rightarrow> bool" where
  "reads_as s v \<longleftrightarrow> match_number s = s \<and> decimal_value s = v \<and> s \<noteq> [] \<and> is_digit (hd s)"

lemma reads_asI:
  assumes "list_all is_digit a" and "a \<noteq> []" and "fraction_text f" and "exponent_ok e x" and "s = a @ f @ x"
    and "v = of_int (digits_value 0 (a @ tl f)) * ten_pow (e - int (length (tl f)))"
  shows "reads_as s v"
  using number_layout [OF assms(1-4)] assms(1,2,5,6) by (cases a) (simp_all add: reads_as_def)

lemma list_all_digits [simp]: "list_all is_digit (replicate n 48)" "list_all is_digit ds \<Longrightarrow> list_all is_digit (take n ds)"
  "list_all is_digit ds \<Longrightarrow> list_all is_digit (drop n ds)"
  by (auto simp: list_all_iff is_digit_def dest: in_set_takeD in_set_dropD)

lemma fraction_text_simps [simp]: "fraction_text []" "fraction_text (46 # b) = list_all is_digit b"
  by (simp_all add: fraction_text_def)

lemma exponent_ok_simps [simp]: "exponent_ok 0 []" "exponent_ok e (101 # exponent_text e)"
  by (simp_all add: exponent_ok_def)

text \<open>Every layout is such a text.\<close>

lemma layout_number_reads:
  assumes ds: "list_all is_digit ds" "ds \<noteq> []"
  shows "reads_as (layout_number ds n) (of_int (digits_value 0 ds) * ten_pow (n - int (length ds)))"
proof -
  consider (whole) "int (length ds) \<le> n" "n \<le> 21"
    | (split) "\<not> (int (length ds) \<le> n \<and> n \<le> 21)" "0 < n" "n \<le> 21"
    | (small) "- 6 < n" "n \<le> 0"
    | (exponent) "\<not> (int (length ds) \<le> n \<and> n \<le> 21)" "\<not> (0 < n \<and> n \<le> 21)" "\<not> (- 6 < n \<and> n \<le> 0)"
    by linarith
  then show ?thesis
  proof cases
    case whole
    let ?z = "nat n - length ds"
    have z: "n - int (length ds) = int ?z" using whole by simp
    have l: "layout_number ds n = ds @ replicate ?z 48" using whole by (simp add: layout_number_def)
    show ?thesis
      by (rule reads_asI [of "ds @ replicate ?z 48" "[]" 0 "[]"])
        (use ds in \<open>simp_all add: l z digits_value_zeros ten_pow_nat\<close>)
  next
    case split
    then have n: "nat n < length ds" "0 < nat n" by auto
    have l: "layout_number ds n = take (nat n) ds @ [46] @ drop (nat n) ds" using split by (simp add: layout_number_def)
    show ?thesis
      by (rule reads_asI [of "take (nat n) ds" "46 # drop (nat n) ds" 0 "[]"]) (use ds n in \<open>simp_all add: l\<close>)
  next
    case small
    have "\<not> int (length ds) \<le> n" using small ds(2) by (cases ds) auto
    then have l: "layout_number ds n = [48, 46] @ replicate (nat (- n)) 48 @ ds" using small by (simp add: layout_number_def)
    show ?thesis
      by (rule reads_asI [of "[48]" "46 # replicate (nat (- n)) 48 @ ds" 0 "[]"])
        (use ds small in \<open>simp_all add: l is_digit_def digits_value_leading\<close>)
  next
    case exponent
    then have l: "layout_number ds n = (if length ds = 1 then ds @ [101] @ exponent_text (n - 1)
        else take 1 ds @ [46] @ drop 1 ds @ [101] @ exponent_text (n - 1))"
      unfolding layout_number_def by (simp only: if_False)
    show ?thesis
    proof (cases "length ds = 1")
      case True
      show ?thesis
        by (rule reads_asI [of ds "[]" "n - 1" "101 # exponent_text (n - 1)"]) (use ds True in \<open>simp_all add: l\<close>)
    next
      case False
      have "n - 1 - int (length (drop 1 ds)) = n - int (length ds)" using ds(2) by (cases ds) auto
      then show ?thesis
        by (intro reads_asI [of "take 1 ds" "46 # drop 1 ds" "n - 1" "101 # exponent_text (n - 1)"])
          (use ds False in \<open>simp_all add: l\<close>)
    qed
  qed
qed

subsection \<open>The round trip\<close>

lemma zero_reads: "reads_as (js ''0'') 0"
  by (rule reads_asI [of "[48]" "[]" 0 "[]"]) (simp_all add: is_digit_def)

lemma number_text_reads:
  assumes "0 \<le> q" and "round64 q = JFin q"
  shows "\<exists>v. reads_as (js_number_text (JFin q)) v \<and> round64 v = JFin q"
proof (cases "q = 0")
  case True
  then show ?thesis using zero_reads by auto
next
  case False
  then have q: "0 < q" using assms(1) by simp
  then show ?thesis
    using layout_number_reads [OF shortest_digits_denote(1,2) [OF q assms(2)]] shortest_digits_denote(3) [OF q assms(2)]
    by auto
qed

definition literal_unit :: "nat \<Rightarrow> bool" where
  "literal_unit c \<longleftrightarrow> is_digit c \<or> c = 46 \<or> c = 69 \<or> c = 101 \<or> c = 43 \<or> c = 45"

lemma takeWhile_literal_units: "list_all literal_unit (takeWhile is_digit r)"
  by (induction r) (simp_all add: literal_unit_def)

lemma match_units: "list_all literal_unit (match_mantissa r)" "list_all literal_unit (match_exponent r)"
proof -
  have "list_all literal_unit (match_fraction r)" for r
    by (cases r) (simp_all add: match_fraction_def takeWhile_literal_units literal_unit_def)
  then show "list_all literal_unit (match_mantissa r)" by (simp add: match_mantissa_def takeWhile_literal_units)
  have "list_all literal_unit (match_sign r)" for r
    by (cases r) (simp_all add: match_sign_def literal_unit_def)
  then show "list_all literal_unit (match_exponent r)"
    by (cases r) (auto simp: match_exponent_def exponent_digits_def takeWhile_literal_units literal_unit_def)
qed

lemma match_number_units: "list_all literal_unit (match_number r)"
  by (simp add: match_number_def match_units)

lemma literal_unit_not_space: "literal_unit c \<Longrightarrow> \<not> is_space c"
  by (auto simp: literal_unit_def is_space_def is_digit_def)

lemma reads_as_number:
  assumes "reads_as s v" shows "js_trim s = s" and "js_string_to_number s = round64 v"
proof -
  have "list_all literal_unit s" using match_number_units [of s] assms by (simp add: reads_as_def)
  then have "\<forall>c \<in> set s. \<not> is_space c" using literal_unit_not_space by (auto simp: list_all_iff)
  then show t: "js_trim s = s" by (rule js_trim_no_space)
  obtain c cs where s: "s = c # cs" "is_digit c" using assms by (cases s) (auto simp: reads_as_def)
  then have "c \<noteq> 45" "c \<noteq> 43" "c \<noteq> 73" by (auto simp: is_digit_def)
  then have "signed_number s = Some (round64 v)"
    using s assms by (auto simp: signed_number_def unsigned_number_def reads_as_def js_number_of_def)
  then show "js_string_to_number s = round64 v" using s t by (simp add: js_string_to_number_def)
qed

text \<open>\<open>Number(String(x)) === x\<close> for the finite doubles that are not negative, and the text is a decimal literal.\<close>

lemma number_text_roundtrip:
  assumes "0 \<le> q" and "is_double (JFin q)"
  shows "js_string_to_number (js_number_text (JFin q)) = JFin q"
    and "js_trim (js_number_text (JFin q)) = js_number_text (JFin q)"
    and "match_number (js_number_text (JFin q)) = js_number_text (JFin q)"
    and "js_number_text (JFin q) \<noteq> []"
proof -
  obtain v where v: "reads_as (js_number_text (JFin q)) v" "round64 v = JFin q"
    using number_text_reads [OF assms(1)] assms(2) by auto
  from reads_as_number [OF v(1)] v show "js_string_to_number (js_number_text (JFin q)) = JFin q"
    and "js_trim (js_number_text (JFin q)) = js_number_text (JFin q)"
    and "match_number (js_number_text (JFin q)) = js_number_text (JFin q)"
    and "js_number_text (JFin q) \<noteq> []" by (simp_all only: reads_as_def simp_thms)
qed

end
