(* ===== verification/Js_Stringify.thy ===== *)
theory Js_Stringify
  imports Js_Json Js_Number_Text
begin

section \<open>JSON.stringify\<close>

text \<open>
  \<open>JSON.stringify(value)\<close> without indentation, and the proof that \<open>JSON.parse\<close> reads the text back for
  every value that JSON can hold.
\<close>

fun json_number_text :: "jsnum \<Rightarrow> jsstring" where
  "json_number_text JNaN = js ''null''"
| "json_number_text (JInf _) = js ''null''"
| "json_number_text x = js_number_text x"

text \<open>Undefined members of an object are left out, undefined elements of an array are null.\<close>

fun json_stringify :: "jsval \<Rightarrow> jsstring" where
  "json_stringify VUndefined = js ''null''"
| "json_stringify VNull = js ''null''"
| "json_stringify (VBool b) = (if b then js ''true'' else js ''false'')"
| "json_stringify (VNum x) = json_number_text x"
| "json_stringify (VStr s) = json_quote s"
| "json_stringify (VArr vs) = 91 # js_join [44] (map json_stringify vs) @ [93]"
| "json_stringify (VObj ps) =
     123 # js_join [44] (map (\<lambda>p. json_quote (fst p) @ 58 # json_stringify (snd p))
                           (filter (\<lambda>p. snd p \<noteq> VUndefined) ps)) @ [125]"

fun json_double :: "jsnum \<Rightarrow> bool" where
  "json_double (JFin q) = is_double (JFin q)"
| "json_double _ = False"

fun json_ok :: "jsval \<Rightarrow> bool" where
  "json_ok VUndefined = False"
| "json_ok VNull = True"
| "json_ok (VBool _) = True"
| "json_ok (VNum x) = json_double x"
| "json_ok (VStr s) = units_ok s"
| "json_ok (VArr vs) = list_all json_ok vs"
| "json_ok (VObj ps) = (canonical ps \<and> list_all (\<lambda>p. units_ok (fst p) \<and> json_ok (snd p)) ps)"

subsection \<open>Numbers\<close>

definition json_literal :: "jsstring \<Rightarrow> jsstring \<Rightarrow> int \<Rightarrow> jsstring \<Rightarrow> bool" where
  "json_literal a f e x \<longleftrightarrow>
     list_all is_digit a \<and> a \<noteq> [] \<and> (hd a = 48 \<longrightarrow> a = [48])
     \<and> (f = [] \<or> (\<exists>b. f = 46 # b \<and> b \<noteq> [] \<and> list_all is_digit b)) \<and> exponent_ok e x"

text \<open>What may follow a value.\<close>

definition value_end :: "jsstring \<Rightarrow> bool" where
  "value_end r \<longleftrightarrow> r = [] \<or> hd r = 44 \<or> hd r = 93 \<or> hd r = 125"

lemma value_end_digit: "value_end r \<Longrightarrow> r = [] \<or> \<not> is_digit (hd r) \<and> hd r \<noteq> 46 \<and> hd r \<noteq> 69 \<and> hd r \<noteq> 101"
  by (auto simp: value_end_def is_digit_def)

lemma json_exponent_literal:
  assumes "exponent_ok e x" and "value_end r"
  shows "json_exponent (x @ r) = Some x"
proof -
  have d: "takeWhile is_digit (digits_text n @ r) = digits_text n" if "0 \<le> n" for n
    using takeWhile_digits [of "digits_text n" r] digits_text_digits [OF that] value_end_digit [OF assms(2)] by auto
  have "json_exponent (101 # exponent_text e @ r) = Some (101 # exponent_text e)"
    using d [of e] d [of "- e"]
    by (cases "e < 0") (simp_all add: json_exponent_def exponent_text_def match_sign_def exponent_digits_def)
  moreover have "json_exponent r = Some []"
    using value_end_digit [OF assms(2)] by (cases r) (auto simp: json_exponent_def)
  ultimately show ?thesis using assms(1) by (auto simp: exponent_ok_def)
qed

lemma json_fraction_literal:
  assumes "f = [] \<or> (\<exists>b. f = 46 # b \<and> b \<noteq> [] \<and> list_all is_digit b)" and "exponent_ok e x" and "value_end r"
  shows "json_fraction (f @ x @ r) = Some f"
proof -
  have h: "x @ r = [] \<or> \<not> is_digit (hd (x @ r)) \<and> hd (x @ r) \<noteq> 46"
    using assms(2) value_end_digit [OF assms(3)] by (auto simp: exponent_ok_def)
  show ?thesis using assms(1)
  proof (elim disjE exE conjE)
    assume "f = []"
    then show ?thesis using h by (cases "x @ r") (auto simp: json_fraction_def)
  next
    fix b assume "f = 46 # b" "b \<noteq> []" "list_all is_digit b"
    moreover from this have "takeWhile is_digit (b @ x @ r) = b" using takeWhile_digits [of b "x @ r"] h by blast
    ultimately show ?thesis by (simp add: json_fraction_def)
  qed
qed

lemma json_unsigned_literal:
  assumes "json_literal a f e x" and "value_end r"
  shows "json_unsigned (a @ f @ x @ r) = Some (a @ f @ x, r)"
proof -
  have l: "list_all is_digit a" "a \<noteq> []" "hd a = 48 \<longrightarrow> a = [48]" "f = [] \<or> (\<exists>b. f = 46 # b \<and> b \<noteq> [] \<and> list_all is_digit b)"
      "exponent_ok e x" using assms(1) by (auto simp: json_literal_def)
  have "f @ x @ r = [] \<or> \<not> is_digit (hd (f @ x @ r))"
    using l(4,5) value_end_digit [OF assms(2)] by (auto simp: exponent_ok_def)
  then have i: "json_int (a @ f @ x @ r) = a"
    using l(1-3) takeWhile_digits [OF l(1), of "f @ x @ r"] by (cases a) (auto simp: json_int_def)
  show ?thesis
    using i l(2) json_fraction_literal [OF l(4,5) assms(2)] json_exponent_literal [OF l(5) assms(2)]
    by (simp add: json_unsigned_def)
qed

lemma digits_text_leading: "0 < n \<Longrightarrow> hd (digits_text n) \<noteq> 48"
proof (induction n rule: digits_text.induct)
  case (1 n)
  show ?case
  proof (cases "n < 10")
    case True
    then show ?thesis using "1.prems" by (subst digits_text.simps) simp
  next
    case False
    then have "hd (digits_text (n div 10)) \<noteq> 48" using 1 by simp
    then show ?thesis using False by (subst digits_text.simps) simp
  qed
qed

lemma shortest_digits_leading:
  assumes "0 < q" and "round64 q = JFin q"
  shows "hd (shortest_digits q) \<noteq> 48"
proof -
  obtain s n k where d: "shortest_decimal q = (s, n, k)" by (metis prod_cases3)
  have s: "10 ^ nat (k - 1) \<le> s" using shortest_decimal_denotes [OF assms] by (auto simp: d denotes_def)
  then have "0 < s" using zero_less_power [of "10 :: int" "nat (k - 1)"] by linarith
  moreover obtain j where "digits_text s = shortest_digits q @ replicate j 48"
    using drop_zeros [of "digits_text s"] by (auto simp: shortest_digits_def d)
  ultimately show ?thesis using digits_text_leading [of s] shortest_digits_denote(2) [OF assms] by simp
qed

lemma layout_literal:
  assumes ds: "list_all is_digit ds" "ds \<noteq> []" "hd ds \<noteq> 48"
  shows "\<exists>a f e x. layout_number ds n = a @ f @ x \<and> json_literal a f e x"
proof -
  consider (whole) "int (length ds) \<le> n" "n \<le> 21"
    | (split) "\<not> (int (length ds) \<le> n \<and> n \<le> 21)" "0 < n" "n \<le> 21"
    | (small) "\<not> (int (length ds) \<le> n \<and> n \<le> 21)" "- 6 < n" "n \<le> 0"
    | (exponent) "\<not> (int (length ds) \<le> n \<and> n \<le> 21)" "\<not> (0 < n \<and> n \<le> 21)" "\<not> (- 6 < n \<and> n \<le> 0)"
    by linarith
  then show ?thesis
  proof cases
    case whole
    then have "layout_number ds n = (ds @ replicate (nat n - length ds) 48) @ [] @ []" by (simp add: layout_number_def)
    moreover have "json_literal (ds @ replicate (nat n - length ds) 48) [] 0 []" using ds by (simp add: json_literal_def)
    ultimately show ?thesis by blast
  next
    case split
    then have n: "nat n < length ds" "0 < nat n" by auto
    have "layout_number ds n = take (nat n) ds @ (46 # drop (nat n) ds) @ []" using split by (simp add: layout_number_def)
    moreover have "json_literal (take (nat n) ds) (46 # drop (nat n) ds) 0 []" using ds n by (simp add: json_literal_def)
    ultimately show ?thesis by blast
  next
    case small
    then have "layout_number ds n = [48] @ (46 # replicate (nat (- n)) 48 @ ds) @ []" by (simp add: layout_number_def)
    moreover have "json_literal [48] (46 # replicate (nat (- n)) 48 @ ds) 0 []" using ds by (simp add: json_literal_def is_digit_def)
    ultimately show ?thesis by blast
  next
    case exponent
    show ?thesis
    proof (cases "length ds = 1")
      case True
      then have "layout_number ds n = ds @ [] @ (101 # exponent_text (n - 1))"
        using exponent unfolding layout_number_def by (simp only: if_False) simp
      moreover have "json_literal ds [] (n - 1) (101 # exponent_text (n - 1))" using ds by (simp add: json_literal_def)
      ultimately show ?thesis by blast
    next
      case False
      then have "layout_number ds n = take 1 ds @ (46 # drop 1 ds) @ (101 # exponent_text (n - 1))"
        using exponent unfolding layout_number_def by (simp only: if_False) simp
      moreover have "json_literal (take 1 ds) (46 # drop 1 ds) (n - 1) (101 # exponent_text (n - 1))"
        using ds False by (cases ds) (auto simp: json_literal_def)
      ultimately show ?thesis by blast
    qed
  qed
qed

lemma json_unsigned_text:
  assumes "0 \<le> q" and "round64 q = JFin q" and "value_end r"
  shows "json_unsigned (js_number_text (JFin q) @ r) = Some (js_number_text (JFin q), r)"
proof (cases "q = 0")
  case True
  have "json_literal [48] [] 0 []" by (simp add: json_literal_def is_digit_def)
  then show ?thesis using json_unsigned_literal [of "[48]" "[]" 0 "[]" r] assms(3) True by simp
next
  case False
  then have q: "0 < q" using assms(1) by simp
  obtain a f e x where l: "layout_number (shortest_digits q) (shortest_point q) = a @ f @ x" "json_literal a f e x"
    using layout_literal [OF shortest_digits_denote(1,2) [OF q assms(2)] shortest_digits_leading [OF q assms(2)]] by blast
  then show ?thesis using json_unsigned_literal [OF l(2) assms(3)] q by simp
qed

lemma number_text_value:
  assumes "0 \<le> q" and "round64 q = JFin q"
  shows "js_number_of (js_number_text (JFin q)) = JFin q" "js_number_text (JFin q) \<noteq> []" "is_digit (hd (js_number_text (JFin q)))"
  using number_text_reads [OF assms] by (auto simp: reads_as_def js_number_of_def)

lemma round64_uminus: "round64 q = JFin q \<Longrightarrow> round64 (- q) = JFin (- q)"
  by (auto simp: round64_def round_at_def pack_def js_zero_def split: if_splits)

lemma json_number_read:
  assumes "is_double (JFin q)" and "value_end r"
  shows "json_number (js_number_text (JFin q) @ r) = Some (JFin q, r)"
proof (cases "q < 0")
  case True
  have q: "0 \<le> - q" "round64 (- q) = JFin (- q)" using True round64_uminus assms(1) by auto
  have "js_number_text (JFin q) = 45 # js_number_text (JFin (- q))" using True by simp
  then show ?thesis
    using json_unsigned_text [OF q assms(2)] number_text_value(1) [OF q] True
    by (simp add: json_number_def del: js_number_text.simps)
next
  case False
  have q: "0 \<le> q" "round64 q = JFin q" using False assms(1) by auto
  obtain c cs where c: "js_number_text (JFin q) = c # cs" "c \<noteq> 45"
    using number_text_value(2,3) [OF q] by (cases "js_number_text (JFin q)") (auto simp: is_digit_def)
  then show ?thesis
    using json_unsigned_text [OF q assms(2)] number_text_value(1) [OF q] by (simp add: json_number_def del: js_number_text.simps)
qed

subsection \<open>Values\<close>

lemma json_value_start:
  "\<not> json_space c \<Longrightarrow> skip_ws (c # r) = c # r"
  by simp

text \<open>A value that is read back in front of anything that may follow it.\<close>

definition reads_back :: "jsval \<Rightarrow> bool" where
  "reads_back v \<longleftrightarrow> (\<forall>r. value_end r \<longrightarrow> json_value (json_stringify v @ r) = Some (v, r))"

lemma reads_backD: "reads_back v \<Longrightarrow> value_end r \<Longrightarrow> json_value (json_stringify v @ r) = Some (v, r)"
  by (simp add: reads_back_def)

lemma json_value_words:
  "json_value (js ''null'' @ r) = Some (VNull, r)" "json_value (js ''true'' @ r) = Some (VBool True, r)"
  "json_value (js ''false'' @ r) = Some (VBool False, r)"
  by (simp_all add: json_word_def js_starts_with_def json_space_def)

lemma reads_back_number:
  assumes "json_double x"
  shows "reads_back (VNum x)"
proof -
  obtain q where q: "x = JFin q" "is_double (JFin q)" using assms by (cases x) auto
  have d: "round64 \<bar>q\<bar> = JFin \<bar>q\<bar>" using q(2) round64_uminus by (cases "q < 0") auto
  obtain c cs where c: "js_number_text (JFin q) = c # cs" "is_digit c \<or> c = 45"
  proof (cases "q < 0")
    case True
    then show ?thesis using that by simp
  next
    case False
    then show ?thesis using that number_text_value(2,3) [of q] d
      by (cases "js_number_text (JFin q)") (auto simp del: js_number_text.simps)
  qed
  have n: "\<not> json_space c" "c \<noteq> 34" "c \<noteq> 91" "c \<noteq> 123" "c \<noteq> 110" "c \<noteq> 116" "c \<noteq> 102"
    using c(2) by (auto simp: is_digit_def json_space_def)
  show ?thesis unfolding reads_back_def
  proof (intro allI impI)
    fix r assume "value_end r"
    from json_number_read [OF q(2) this] show "json_value (json_stringify (VNum x) @ r) = Some (VNum x, r)"
      using n by (simp add: q(1) c(1) del: js_number_text.simps)
  qed
qed

lemma json_elements_read:
  "vs \<noteq> [] \<Longrightarrow> (\<And>v. v \<in> set vs \<Longrightarrow> reads_back v) \<Longrightarrow>
   json_elements (js_join [44] (map json_stringify vs) @ 93 # r) = Some (vs, r)"
proof (induction vs rule: induct_list012)
  case (2 v)
  have v: "json_value (json_stringify v @ 93 # r) = Some (v, 93 # r)"
    using 2 by (simp add: reads_back_def value_end_def)
  show ?case using v json_value_consumes(1) [OF v] by (simp add: json_space_def del: json_value.simps)
next
  case (3 v w vs)
  let ?rest = "js_join [44] (map json_stringify (w # vs)) @ 93 # r"
  have v: "json_value (json_stringify v @ 44 # ?rest) = Some (v, 44 # ?rest)"
    using 3 by (simp add: reads_back_def value_end_def)
  have "json_elements ?rest = Some (w # vs, r)" using 3 by simp
  then have "json_elements (json_stringify v @ 44 # ?rest) = Some (v # w # vs, r)"
    using v json_value_consumes(1) [OF v]
    by (subst json_elements.simps) (simp del: json_value.simps json_elements.simps js_join.simps list.map)
  then show ?case by (simp del: json_elements.simps)
qed simp

lemma json_members_read_step:
  assumes "units_ok (fst p)" and "reads_back (snd p)" and "c = 44 \<or> c = 125"
  shows "json_members ps (json_quote (fst p) @ 58 # json_stringify (snd p) @ c # r) =
    (if c = 44 then json_members (put_plain ps p) r else Some (put_plain ps p, r))"
proof -
  let ?v = "json_stringify (snd p) @ c # r"
  have k: "json_string_tail (json_quote_units (fst p) @ 34 # 58 # ?v) = Some (fst p, 58 # ?v)"
    by (rule json_quote_units_tail [OF assms(1)])
  have v: "json_value ?v = Some (snd p, c # r)"
    using assms(2,3) by (intro reads_backD) (auto simp: value_end_def)
  have sk: "skip_ws (c # r) = c # r" using assms(3) by auto
  show ?thesis
    using json_value_consumes(1) [OF v] assms(3) k v sk
    by (subst json_members.simps) (auto simp: json_quote_def put_plain_def simp del: json_value.simps json_members.simps json_string_tail.simps)
qed

lemma json_members_read:
  "qs \<noteq> [] \<Longrightarrow> (\<And>p. p \<in> set qs \<Longrightarrow> units_ok (fst p) \<and> reads_back (snd p)) \<Longrightarrow>
   json_members ps (js_join [44] (map (\<lambda>p. json_quote (fst p) @ 58 # json_stringify (snd p)) qs) @ 125 # r)
     = Some (foldl put_plain ps qs, r)"
proof (induction qs arbitrary: ps rule: induct_list012)
  case (2 p)
  then show ?case using json_members_read_step [of p 125 ps r] by (simp del: json_members.simps)
next
  case (3 p q qs)
  let ?rest = "js_join [44] (map (\<lambda>p. json_quote (fst p) @ 58 # json_stringify (snd p)) (q # qs)) @ 125 # r"
  have "json_members ps (json_quote (fst p) @ 58 # json_stringify (snd p) @ 44 # ?rest) = json_members (put_plain ps p) ?rest"
    using 3 json_members_read_step [of p 44 ps ?rest] by (simp del: json_members.simps)
  then show ?case using 3 by (simp del: json_members.simps)
qed simp

lemma stringify_nonempty: "json_ok v \<Longrightarrow> \<exists>c s. json_stringify v = c # s \<and> \<not> json_space c \<and> c \<noteq> 93"
proof (cases v)
  case (VNum x)
  assume "json_ok v"
  then obtain q where q: "x = JFin q" "is_double (JFin q)" using VNum by (cases x) auto
  show ?thesis
  proof (cases "q < 0")
    case True
    then show ?thesis using VNum q by (simp add: json_space_def)
  next
    case False
    then show ?thesis using VNum q number_text_value(2,3) [of q]
      by (cases "js_number_text (JFin q)") (auto simp: is_digit_def json_space_def simp del: js_number_text.simps)
  qed
qed (auto simp: json_quote_def json_space_def)

lemma reads_back_array:
  assumes "list_all json_ok vs" and "\<And>v. v \<in> set vs \<Longrightarrow> reads_back v"
  shows "reads_back (VArr vs)"
proof (cases vs)
  case Nil
  then show ?thesis by (simp add: reads_back_def json_space_def)
next
  case (Cons v ws)
  obtain c s where c: "json_stringify v = c # s" "\<not> json_space c" "c \<noteq> 93" using stringify_nonempty [of v] assms(1) Cons by auto
  obtain t where t: "js_join [44] (map json_stringify vs) = c # t" using c(1) Cons by (cases ws) auto
  have "json_elements (c # t @ 93 # r) = Some (vs, r)" for r using json_elements_read [of vs r] assms(2) Cons t by (simp del: json_elements.simps)
  then show ?thesis using c(2,3) by (simp add: reads_back_def t json_space_def del: json_elements.simps)
qed

lemma reads_back_object:
  assumes "canonical ps" and "\<And>p. p \<in> set ps \<Longrightarrow> units_ok (fst p) \<and> reads_back (snd p)" and "\<And>p. p \<in> set ps \<Longrightarrow> snd p \<noteq> VUndefined"
  shows "reads_back (VObj ps)"
proof (cases ps)
  case Nil
  then show ?thesis by (simp add: reads_back_def json_space_def)
next
  case (Cons p qs)
  let ?m = "\<lambda>p. json_quote (fst p) @ 58 # json_stringify (snd p)"
  have f: "filter (\<lambda>p. snd p \<noteq> VUndefined) ps = ps" using assms(3) by (simp add: filter_id_conv)
  obtain t where t: "js_join [44] (map ?m ps) = 34 # t" using Cons by (cases qs) (auto simp: json_quote_def)
  have "json_members [] (34 # t @ 125 # r) = Some (ps, r)" for r
    using json_members_read [of ps "[]" r] assms(2) Cons t canonical_rebuild [OF assms(1)]
    by (simp del: json_members.simps)
  then show ?thesis by (simp add: reads_back_def f t json_space_def del: json_members.simps)
qed

lemma json_reads_back: "json_ok v \<Longrightarrow> reads_back v"
proof (induction v)
  case (VArr vs)
  then show ?case by (intro reads_back_array) (auto simp: list_all_iff)
next
  case (VObj ps)
  show ?case
  proof (rule reads_back_object)
    show "canonical ps" using VObj.prems by simp
    fix p assume p: "p \<in> set ps"
    then have ok: "units_ok (fst p)" "json_ok (snd p)" using VObj.prems by (auto simp: list_all_iff)
    moreover have "snd p \<in> Basic_BNFs.snds p" by (cases p) simp
    ultimately show "units_ok (fst p) \<and> reads_back (snd p)" using VObj.IH [OF p] by blast
    show "snd p \<noteq> VUndefined" using ok(2) by auto
  qed
next
  case (VNum x)
  then show ?case using reads_back_number by simp
next
  case (VStr s)
  then show ?case by (simp add: reads_back_def json_quote_def json_quote_units_tail json_space_def del: json_string_tail.simps)
qed (use json_value_words in \<open>simp_all add: reads_back_def del: js_Cons json_value.simps\<close>)

lemma json_roundtrip: "json_ok v \<Longrightarrow> json_parse (json_stringify v) = Some v"
  using reads_backD [OF json_reads_back, of v "[]"] by (simp add: json_parse_def value_end_def del: json_value.simps)

end
