(* ===== verification/Oauth_Popup.thy ===== *)
theory Oauth_Popup
  imports Secure_Verification Js_Stringify "HOL-Library.AList"
begin

section \<open>Authorisation in a popup window\<close>

text \<open>
  \<open>features/auth/lib\<close>: \<open>oauth-popup.ts\<close> with the watcher of \<open>oauth-bind-window.ts\<close>, the marks and redirects of
  \<open>oauth-callback-mode.ts\<close> in the session storage, and \<open>sanitizeAuthRedirect\<close> of \<open>auth-redirect.ts\<close>. The
  popup is a state machine driven by messages, the user who closes the window, timers, the signal of the caller and
  the answer of the preparation. Whether a message has the page's origin and comes from the popup is part of the message;
  the URL parser of the browser is a parameter.
\<close>

subsection \<open>Redirects\<close>

record browser_url =
  url_protocol :: jsstring
  url_origin :: jsstring
  url_pathname :: jsstring
  url_search :: jsstring
  url_hash :: jsstring

text \<open>\<open>new URL(text, base)\<close>, where the base may be missing.\<close>

type_synonym url_reader = "jsstring \<Rightarrow> jsstring option \<Rightarrow> browser_url option"

definition allowedRedirectProtocols :: "jsstring list" where
  "allowedRedirectProtocols = [js ''http:'', js ''https:'']"

definition sanitizeAuthRedirect :: "url_reader \<Rightarrow> jsval \<Rightarrow> jsstring \<Rightarrow> jsstring option" where
  "sanitizeAuthRedirect read_url v origin =
     (case v of
        VStr s \<Rightarrow>
          let target = js_trim s in
          if target = [] \<or> js_includes [92] target \<or> js_starts_with (js ''//'') target then None
          else (case read_url origin None of
                  None \<Rightarrow> None
                | Some trusted \<Rightarrow>
                    if url_protocol trusted \<notin> set allowedRedirectProtocols then None
                    else (case (if js_starts_with (js ''/'') target then read_url target (Some (url_origin trusted)) else read_url target None) of
                            None \<Rightarrow> None
                          | Some u \<Rightarrow>
                              if url_protocol u \<notin> set allowedRedirectProtocols \<or> url_origin u \<noteq> url_origin trusted then None
                              else Some (url_pathname u @ url_search u @ url_hash u)))
      | _ \<Rightarrow> None)"

subsection \<open>Marks in the session storage\<close>

record session_storage =
  ss_items :: "(jsstring \<times> jsstring) list"
  ss_refuses :: bool

definition get_item :: "jsstring \<Rightarrow> session_storage \<Rightarrow> jsstring option" where
  "get_item key st = map_of (ss_items st) key"

text \<open>\<open>setItem\<close>, which throws where the storage refuses.\<close>

definition set_item :: "jsstring \<Rightarrow> jsstring \<Rightarrow> session_storage \<Rightarrow> session_storage option" where
  "set_item key v st = (if ss_refuses st then None else Some (st\<lparr>ss_items := AList.update key v (ss_items st)\<rparr>))"

definition remove_item :: "jsstring \<Rightarrow> session_storage \<Rightarrow> session_storage" where
  "remove_item key st = st\<lparr>ss_items := filter (\<lambda>p. fst p \<noteq> key) (ss_items st)\<rparr>"

datatype popup_intent = Bind | Verify

fun intent_name :: "popup_intent \<Rightarrow> jsstring" where
  "intent_name Bind = js ''bind''"
| "intent_name Verify = js ''verify''"

definition flow_key :: "jsstring \<Rightarrow> jsstring" where
  "flow_key provider = js ''oauth_popup_flow:'' @ provider"

definition popup_marker :: "jsstring \<Rightarrow> popup_intent \<Rightarrow> jsstring" where
  "popup_marker state intent = json_stringify (VObj [(js ''state'', VStr state), (js ''intent'', VStr (intent_name intent))])"

definition write_and_check :: "jsstring \<Rightarrow> jsstring \<Rightarrow> session_storage \<Rightarrow> bool \<times> session_storage" where
  "write_and_check key v st =
     (case set_item key v st of None \<Rightarrow> (False, st) | Some st' \<Rightarrow> (get_item key st' = Some v, st'))"

definition markOAuthPopup ::
    "session_storage option \<Rightarrow> jsstring \<Rightarrow> jsstring \<Rightarrow> popup_intent \<Rightarrow> bool \<times> session_storage option" where
  "markOAuthPopup storage provider state intent =
     (case storage of
        None \<Rightarrow> (False, None)
      | Some st \<Rightarrow>
          if provider = [] \<or> state = [] then (False, Some st)
          else map_prod id Some (write_and_check (flow_key provider) (popup_marker state intent) st))"

definition oauthLoginRedirectKey :: "jsstring \<Rightarrow> jsstring \<Rightarrow> jsstring" where
  "oauthLoginRedirectKey provider state = js ''oauth_login_redirect:'' @ provider @ 58 # state"

definition rememberOAuthLoginRedirect ::
    "url_reader \<Rightarrow> session_storage option \<Rightarrow> jsstring \<Rightarrow> jsstring \<Rightarrow> jsval \<Rightarrow> jsstring \<Rightarrow> bool \<times> session_storage option" where
  "rememberOAuthLoginRedirect read_url storage provider state redirectTo origin =
     (case (sanitizeAuthRedirect read_url redirectTo origin, storage) of
        (Some redirect, Some st) \<Rightarrow>
          if provider = [] \<or> state = [] \<or> redirect = [] then (False, storage)
          else map_prod id Some (write_and_check (oauthLoginRedirectKey provider state) redirect st)
      | _ \<Rightarrow> (False, storage))"

definition resolveOAuthLoginRedirectTarget ::
    "url_reader \<Rightarrow> session_storage option \<Rightarrow> jsstring \<Rightarrow> jsstring \<Rightarrow> jsval \<Rightarrow> jsstring \<Rightarrow> jsstring option \<times> session_storage option" where
  "resolveOAuthLoginRedirectTarget read_url storage provider state preferredRedirect origin =
     (let preferred = sanitizeAuthRedirect read_url preferredRedirect origin in
      if preferred \<noteq> None \<and> preferred \<noteq> Some [] then (preferred, storage)
      else (case storage of
              None \<Rightarrow> (None, None)
            | Some st \<Rightarrow>
                if provider = [] \<or> state = [] then (None, storage)
                else let key = oauthLoginRedirectKey provider state in
                  (sanitizeAuthRedirect read_url (case get_item key st of Some v \<Rightarrow> VStr v | None \<Rightarrow> VNull) origin,
                   Some (remove_item key st))))"

definition consumeOAuthLoginRedirect :: "url_reader \<Rightarrow> jsstring \<Rightarrow> jsstring \<Rightarrow> session_storage \<Rightarrow> jsstring option \<times> session_storage" where
  "consumeOAuthLoginRedirect read_url origin state st =
     (if state = [] then (None, st)
      else (case find (\<lambda>p. js_starts_with (js ''oauth_login_redirect:'') (fst p) \<and> js_ends_with (58 # state) (fst p)) (ss_items st) of
              None \<Rightarrow> (None, st)
            | Some p \<Rightarrow> (sanitizeAuthRedirect read_url (VStr (snd p)) origin, remove_item (fst p) st)))"

datatype callback_mode = Mode_login | Mode_popup popup_intent

definition resolveOAuthCallbackMode :: "jsstring \<Rightarrow> jsstring \<Rightarrow> bool \<Rightarrow> session_storage option \<Rightarrow> callback_mode" where
  "resolveOAuthCallbackMode provider state live_opener storage =
     (case storage of
        None \<Rightarrow> Mode_login
      | Some st \<Rightarrow>
          if \<not> live_opener \<or> state = [] then Mode_login
          else (case get_item (flow_key provider) st of
                  None \<Rightarrow> Mode_login
                | Some text \<Rightarrow>
                    if text = [] then Mode_login
                    else (case json_parse text of
                            None \<Rightarrow> Mode_login
                          | Some marker \<Rightarrow>
                              if \<not> js_truthy marker \<or> \<not> is_object_val marker
                                 \<or> js_get marker (js ''state'') = VUndefined \<or> js_get marker (js ''intent'') = VUndefined
                                 \<or> js_get marker (js ''state'') \<noteq> VStr state then Mode_login
                              else if js_get marker (js ''intent'') = VStr (js ''bind'') then Mode_popup Bind
                              else if js_get marker (js ''intent'') = VStr (js ''verify'') then Mode_popup Verify
                              else Mode_login)))"

lemma get_set_item: "set_item key v st = Some st' \<Longrightarrow> get_item k st' = (if k = key then Some v else get_item k st)"
  by (auto simp: set_item_def get_item_def update_conv' split: if_splits)

lemma written: "write_and_check key v st = (b, st') \<Longrightarrow> b \<Longrightarrow> get_item k st' = (if k = key then Some v else get_item k st)"
  using get_set_item by (auto simp: write_and_check_def split: option.splits)

lemma marker_parsed:
  assumes "units_ok state"
  shows "json_parse (popup_marker state intent) = Some (VObj [(js ''state'', VStr state), (js ''intent'', VStr (intent_name intent))])"
proof -
  have "canonical [(js ''state'', a), (js ''intent'', b)]" for a b :: jsval by (simp add: canonical_def key_before_def) code_simp
  moreover have "units_ok (intent_name intent)" by (cases intent) (simp_all add: units_ok_def)
  ultimately show ?thesis unfolding popup_marker_def using assms
    by (intro json_roundtrip) (simp add: units_ok_def del: js_Cons, simp)
qed

text \<open>The popup that was marked for a provider and a state is recognised by them, and by no other state.\<close>

theorem popup_marker_recognised:
  assumes "markOAuthPopup storage provider state intent = (True, storage')" and "units_ok state" and "state' \<noteq> []"
  shows "resolveOAuthCallbackMode provider state' True storage' = (if state' = state then Mode_popup intent else Mode_login)"
proof -
  obtain st st' where st: "storage' = Some st'" "write_and_check (flow_key provider) (popup_marker state intent) st = (True, st')"
    using assms(1) by (auto simp: markOAuthPopup_def map_prod_def split: option.splits if_splits prod.splits)
  have "popup_marker state intent \<noteq> []" by (simp add: popup_marker_def)
  moreover have "js_get (VObj [(js ''state'', VStr state), (js ''intent'', VStr (intent_name intent))]) (js ''state'') = VStr state"
    "js_get (VObj [(js ''state'', VStr state), (js ''intent'', VStr (intent_name intent))]) (js ''intent'') = VStr (intent_name intent)"
    by simp_all
  ultimately show ?thesis
    using assms(3) written [OF st(2), of "flow_key provider"] marker_parsed [OF assms(2), of intent]
    by (cases intent) (auto simp: resolveOAuthCallbackMode_def st(1) simp del: js_Cons, auto)
qed

text \<open>A redirect that was remembered is used once.\<close>

theorem redirect_used_once:
  assumes "rememberOAuthLoginRedirect read_url storage provider state redirectTo origin = (True, storage')"
    and "resolveOAuthLoginRedirectTarget read_url storage' provider state VUndefined origin = (target, storage'')"
  shows "\<exists>redirect. sanitizeAuthRedirect read_url redirectTo origin = Some redirect
    \<and> target = sanitizeAuthRedirect read_url (VStr redirect) origin
    \<and> fst (resolveOAuthLoginRedirectTarget read_url storage'' provider state VUndefined origin) = None"
proof -
  let ?k = "oauthLoginRedirectKey provider state"
  obtain redirect st st' where r: "sanitizeAuthRedirect read_url redirectTo origin = Some redirect" "storage' = Some st'"
      "write_and_check ?k redirect st = (True, st')" "provider \<noteq> []" "state \<noteq> []"
    using assms(1) by (auto simp: rememberOAuthLoginRedirect_def map_prod_def split: option.splits if_splits prod.splits)
  have none: "sanitizeAuthRedirect read_url VUndefined origin = None" "sanitizeAuthRedirect read_url VNull origin = None"
    by (simp_all add: sanitizeAuthRedirect_def)
  have s: "target = sanitizeAuthRedirect read_url (VStr redirect) origin" "storage'' = Some (remove_item ?k st')"
    using assms(2) r(4,5) written [OF r(3), of ?k] by (auto simp: resolveOAuthLoginRedirectTarget_def none r(2) Let_def)
  have "get_item ?k (remove_item ?k st') = None" by (auto simp: get_item_def remove_item_def map_of_eq_None_iff)
  then have "fst (resolveOAuthLoginRedirectTarget read_url storage'' provider state VUndefined origin) = None"
    using r(4,5) by (simp add: resolveOAuthLoginRedirectTarget_def none s(2) Let_def)
  then show ?thesis using r(1) s(1) by blast
qed

subsection \<open>The popup\<close>

record popup_options =
  po_provider :: jsstring
  po_intent :: popup_intent

record popup_callback =
  pc_provider :: jsstring
  pc_state :: jsstring
  pc_code :: jsval
  pc_error :: jsval
  pc_description :: "jsstring option"

datatype popup_outcome = Exchange popup_callback | Failed auth_error

text \<open>The variables of the promise and what it has set up: listeners, timers, the window, the signal of the
  exchange, the settled promise and the messages that were posted to the window.\<close>

record popup_world =
  pw_state :: jsstring
  pw_received :: bool
  pw_finished :: bool
  pw_listening :: bool
  pw_abortable :: bool
  pw_watching :: bool
  pw_deadline :: bool
  pw_closed :: bool
  pw_location :: "jsstring option"
  pw_aborted :: "auth_error option"
  pw_outcome :: "popup_outcome option"
  pw_preparing :: bool
  pw_storage :: "session_storage option"
  pw_posted :: "(bool \<times> jsstring option) list"

definition opened_popup :: "session_storage option \<Rightarrow> popup_world" where
  "opened_popup storage =
     \<lparr>pw_state = [], pw_received = False, pw_finished = False, pw_listening = True, pw_abortable = True, pw_watching = True,
      pw_deadline = True, pw_closed = False, pw_location = None, pw_aborted = None, pw_outcome = None, pw_preparing = True,
      pw_storage = storage, pw_posted = []\<rparr>"

definition openOAuthPopup :: "auth_error option \<Rightarrow> bool \<Rightarrow> session_storage option \<Rightarrow> auth_error + popup_world" where
  "openOAuthPopup aborted blocked storage =
     (case aborted of
        Some reason \<Rightarrow> Inl reason
      | None \<Rightarrow> if blocked then Inl (plain_error (js ''OAuth pop-up was blocked'')) else Inr (opened_popup storage))"

definition settle_popup :: "popup_outcome \<Rightarrow> popup_world \<Rightarrow> popup_world" where
  "settle_popup outcome w = (if pw_outcome w = None then w\<lparr>pw_outcome := Some outcome\<rparr> else w)"

definition popup_cleanup :: "popup_world \<Rightarrow> popup_world" where
  "popup_cleanup w = w\<lparr>pw_listening := False, pw_abortable := False, pw_watching := False, pw_deadline := False\<rparr>"

definition popup_fail :: "auth_error \<Rightarrow> popup_world \<Rightarrow> popup_world" where
  "popup_fail failure w =
     (if pw_finished w then w
      else settle_popup (Failed failure)
             ((popup_cleanup (w\<lparr>pw_finished := True, pw_aborted := Some failure\<rparr>))\<lparr>pw_closed := True\<rparr>))"

definition popup_finish :: "bool \<Rightarrow> jsstring option \<Rightarrow> popup_world \<Rightarrow> popup_world" where
  "popup_finish success message w =
     (if pw_finished w then w
      else (let w1 = popup_cleanup (w\<lparr>pw_finished := True\<rparr>) in
            if pw_closed w1 then w1 else w1\<lparr>pw_posted := pw_posted w1 @ [(success, message)], pw_closed := True\<rparr>))"

definition OAUTH_POPUP_CALLBACK_MESSAGE :: jsstring where
  "OAUTH_POPUP_CALLBACK_MESSAGE = js ''oauth:popup:callback''"

text \<open>A message for this popup and this authorisation.\<close>

definition popup_message_ok :: "popup_options \<Rightarrow> jsstring \<Rightarrow> jsval \<Rightarrow> bool" where
  "popup_message_ok options state m \<longleftrightarrow>
     js_truthy m \<and> js_get m (js ''type'') = VStr OAUTH_POPUP_CALLBACK_MESSAGE
     \<and> js_get m (js ''intent'') = VStr (intent_name (po_intent options))
     \<and> js_get m (js ''provider'') = VStr (po_provider options) \<and> js_get m (js ''state'') = VStr state
     \<and> (is_string_val (js_get m (js ''code'')) \<or> is_string_val (js_get m (js ''error'')))"

definition popup_message :: "popup_options \<Rightarrow> bool \<Rightarrow> bool \<Rightarrow> jsval \<Rightarrow> popup_world \<Rightarrow> popup_world" where
  "popup_message options same_origin from_popup m w =
     (if pw_received w \<or> pw_finished w \<or> pw_state w = [] \<or> \<not> same_origin \<or> \<not> from_popup
         \<or> \<not> popup_message_ok options (pw_state w) m then w
      else settle_popup
             (Exchange \<lparr>pc_provider = po_provider options, pc_state = pw_state w, pc_code = js_get m (js ''code''),
                pc_error = js_get m (js ''error''),
                pc_description = (case js_get m (js ''errorDescription'') of VStr s \<Rightarrow> Some s | _ \<Rightarrow> None)\<rparr>)
             (w\<lparr>pw_received := True, pw_watching := False, pw_deadline := False, pw_listening := False\<rparr>))"

text \<open>\<open>watchOAuthPopupClosed\<close>: a tick of its interval.\<close>

definition popup_watch :: "popup_world \<Rightarrow> popup_world" where
  "popup_watch w =
     (if \<not> pw_closed w then w
      else popup_fail \<lparr>ae_message = js ''OAuth authorization was cancelled.'', ae_code = Some (js ''AUTH_CANCELLED'')\<rparr>
             (w\<lparr>pw_watching := False\<rparr>))"

definition popup_timeout :: "popup_world \<Rightarrow> popup_world" where
  "popup_timeout w = popup_fail (plain_error (js ''OAuth authorization timed out. Please try again.'')) (w\<lparr>pw_deadline := False\<rparr>)"

definition popup_prepared :: "popup_options \<Rightarrow> auth_error + jsstring \<times> jsstring \<Rightarrow> popup_world \<Rightarrow> popup_world" where
  "popup_prepared options answer w0 =
     (let w = w0\<lparr>pw_preparing := False\<rparr> in
      case answer of
        Inl e \<Rightarrow> popup_fail e w
      | Inr (state, url) \<Rightarrow>
          if pw_finished w \<or> pw_closed w then w
          else (let r = markOAuthPopup (pw_storage w) (po_provider options) state (po_intent options);
                    w1 = w\<lparr>pw_state := state, pw_storage := snd r\<rparr> in
                if fst r then w1\<lparr>pw_location := Some url\<rparr>
                else popup_fail (plain_error (js ''OAuth popup storage is unavailable.'')) w1))"

datatype popup_event =
    Popup_message bool bool jsval
  | Caller_aborts auth_error
  | User_closes
  | Watch_tick
  | Deadline
  | Prepared "auth_error + jsstring \<times> jsstring"
  | Caller_finishes bool "jsstring option"

text \<open>Steps: a handler runs only while its listener or timer is set up, and only the owner of the exchange
  can finish it.\<close>

inductive popup_step :: "popup_options \<Rightarrow> popup_world \<Rightarrow> popup_event \<Rightarrow> popup_world \<Rightarrow> bool" for options where
  Popup_message: "pw_listening w \<Longrightarrow> popup_step options w (Popup_message o_ok s_ok m) (popup_message options o_ok s_ok m w)"
| Caller_aborts: "pw_abortable w \<Longrightarrow> popup_step options w (Caller_aborts e) (popup_fail e (w\<lparr>pw_abortable := False\<rparr>))"
| User_closes: "popup_step options w User_closes (w\<lparr>pw_closed := True\<rparr>)"
| Watch_tick: "pw_watching w \<Longrightarrow> popup_step options w Watch_tick (popup_watch w)"
| Deadline: "pw_deadline w \<Longrightarrow> popup_step options w Deadline (popup_timeout w)"
| Prepared: "pw_preparing w \<Longrightarrow> popup_step options w (Prepared answer) (popup_prepared options answer w)"
| Caller_finishes: "pw_outcome w = Some (Exchange cb) \<Longrightarrow> popup_step options w (Caller_finishes success message) (popup_finish success message w)"

inductive popup_reachable :: "popup_options \<Rightarrow> popup_world \<Rightarrow> bool" for options where
  popup_start: "popup_reachable options (opened_popup storage)"
| popup_next: "popup_reachable options w \<Longrightarrow> popup_step options w e w' \<Longrightarrow> popup_reachable options w'"

subsection \<open>What the popup promises\<close>

definition popup_ok :: "popup_options \<Rightarrow> popup_world \<Rightarrow> bool" where
  "popup_ok options w \<longleftrightarrow>
     (pw_outcome w = None \<longleftrightarrow> \<not> pw_received w \<and> \<not> pw_finished w)
     \<and> (pw_outcome w = None \<longrightarrow> pw_listening w \<and> pw_abortable w \<and> pw_watching w \<and> pw_deadline w)
     \<and> (pw_finished w \<longrightarrow> \<not> pw_listening w \<and> \<not> pw_abortable w \<and> \<not> pw_watching w \<and> \<not> pw_deadline w \<and> pw_closed w)
     \<and> (pw_received w \<longrightarrow> \<not> pw_listening w \<and> \<not> pw_watching w \<and> \<not> pw_deadline w)
     \<and> (\<forall>cb. pw_outcome w = Some (Exchange cb) \<longrightarrow>
          pw_received w \<and> pc_state cb = pw_state w \<and> pw_state w \<noteq> [] \<and> pc_provider cb = po_provider options
          \<and> (pw_finished w \<or> pw_abortable w))
     \<and> (\<forall>e. pw_outcome w = Some (Failed e) \<longrightarrow> pw_finished w \<and> pw_aborted w = Some e)
     \<and> (pw_preparing w \<longrightarrow> pw_state w = [])"

lemma popup_ok_start: "popup_ok options (opened_popup storage)"
  by (simp add: popup_ok_def opened_popup_def)

text \<open>Failing from a state that is consistent but for the listener or timer that fired.\<close>

lemma popup_fail_settles:
  assumes "popup_ok options w0" "\<not> pw_finished w0"
    and w: "pw_outcome w = pw_outcome w0" "pw_received w = pw_received w0" "pw_finished w = pw_finished w0"
      "pw_outcome w0 \<noteq> None \<longrightarrow> pw_state w = pw_state w0" "pw_preparing w \<longrightarrow> pw_state w = []"
  shows "popup_ok options (popup_fail e w)"
  using assms unfolding popup_ok_def popup_fail_def settle_popup_def popup_cleanup_def
  by (cases "pw_outcome w0") (auto split: if_splits)

lemma popup_step_ok:
  assumes "popup_step options w e w'" and ok: "popup_ok options w"
  shows "popup_ok options w'"
  using assms(1)
proof (cases rule: popup_step.cases)
  case (Popup_message o_ok s_ok m)
  then show ?thesis using ok
    by (auto simp: popup_message_def popup_ok_def settle_popup_def)
next
  case (Caller_aborts e)
  have "\<not> pw_finished w" using ok Caller_aborts by (auto simp: popup_ok_def)
  then show ?thesis using Caller_aborts ok popup_fail_settles [OF ok, of "w\<lparr>pw_abortable := False\<rparr>" e]
    by (auto simp: popup_ok_def)
next
  case User_closes
  then show ?thesis using ok by (auto simp: popup_ok_def)
next
  case Watch_tick
  have "\<not> pw_finished w" using ok Watch_tick by (auto simp: popup_ok_def)
  then show ?thesis using Watch_tick ok popup_fail_settles [OF ok, of "w\<lparr>pw_watching := False\<rparr>"]
    by (auto simp: popup_watch_def popup_ok_def)
next
  case Deadline
  have "\<not> pw_finished w" using ok Deadline by (auto simp: popup_ok_def)
  then show ?thesis using Deadline ok popup_fail_settles [OF ok, of "w\<lparr>pw_deadline := False\<rparr>"]
    by (auto simp: popup_timeout_def popup_ok_def)
next
  case (Prepared answer)
  show ?thesis
  proof (cases answer)
    case (Inl e)
    then show ?thesis using Prepared ok popup_fail_settles [OF ok, of "w\<lparr>pw_preparing := False\<rparr>" e]
      by (cases "pw_finished w") (auto simp: popup_prepared_def popup_fail_def popup_ok_def)
  next
    case (Inr r)
    obtain state url where r: "r = (state, url)" by (cases r)
    have "pw_state w = []" using ok Prepared by (auto simp: popup_ok_def)
    moreover have "pw_finished w" if "pw_outcome w = Some y" for y
      using ok that \<open>pw_state w = []\<close> unfolding popup_ok_def by (cases y) auto
    ultimately have prep: "pw_state w = []" "pw_outcome w \<noteq> None \<Longrightarrow> pw_finished w" by auto
    let ?m = "markOAuthPopup (pw_storage w) (po_provider options) state (po_intent options)"
    let ?w = "w\<lparr>pw_preparing := False, pw_state := state, pw_storage := snd ?m\<rparr>"
    show ?thesis
    proof (cases "pw_finished w \<or> pw_closed w")
      case True
      then have "w' = w\<lparr>pw_preparing := False\<rparr>" using Prepared Inr r by (simp add: popup_prepared_def)
      then show ?thesis using ok by (auto simp: popup_ok_def)
    next
      case False
      have "popup_ok options (popup_fail e ?w)" for e
        by (rule popup_fail_settles [OF ok]) (use False prep in auto)
      moreover have "popup_ok options (?w\<lparr>pw_location := Some url\<rparr>)"
        using ok False prep by (auto simp: popup_ok_def)
      ultimately show ?thesis using Prepared Inr r False by (simp add: popup_prepared_def Let_def)
    qed
  qed
next
  case (Caller_finishes cb success message)
  then show ?thesis using ok by (auto simp: popup_finish_def popup_ok_def popup_cleanup_def Let_def)
qed

lemma popup_reachable_ok: "popup_reachable options w \<Longrightarrow> popup_ok options w"
  by (induction rule: popup_reachable.induct) (auto intro: popup_ok_start popup_step_ok)

lemma popup_fail_outcome: "pw_outcome (popup_fail e v) = (if pw_finished v \<or> pw_outcome v \<noteq> None then pw_outcome v else Some (Failed e))"
  by (auto simp: popup_fail_def settle_popup_def popup_cleanup_def)

lemma popup_step_outcome:
  assumes "popup_step options w e w'" "\<not> (\<exists>m. e = Popup_message True True m)"
  shows "pw_outcome w' = pw_outcome w \<or> (\<exists>f. pw_outcome w = None \<and> pw_outcome w' = Some (Failed f))"
  using assms(1)
proof (cases rule: popup_step.cases)
  case (Popup_message o_ok s_ok m)
  then show ?thesis using assms(2) by (auto simp: popup_message_def)
next
  case (Prepared answer)
  then show ?thesis
    by (cases answer) (auto simp: popup_prepared_def Let_def popup_fail_outcome split: prod.split if_splits)
qed (auto simp: popup_watch_def popup_timeout_def popup_fail_outcome popup_finish_def popup_cleanup_def Let_def)

lemma popup_resolved:
  assumes "popup_message options o_ok s_ok m w = w'" "pw_outcome w = None" "pw_outcome w' = Some (Exchange cb)"
  shows "o_ok \<and> s_ok \<and> pw_state w \<noteq> [] \<and> popup_message_ok options (pw_state w) m
    \<and> pc_state cb = pw_state w \<and> pc_code cb = js_get m (js ''code'')"
  using assms by (auto simp: popup_message_def settle_popup_def split: if_splits)

text \<open>
  C21: The popup of an authorisation keeps its promise. In every reachable state the promise is open exactly until a callback was received or
  the popup failed, and while it is open its deadline is running; when it is over, all listeners and timers are gone and the
  window is closed. A step resolves the promise only for a message of the page's own origin that came from the popup and
  names the intent, the provider and the state of this authorisation.
\<close>

theorem popup_exchange_sound:
  assumes "popup_reachable options w" and "popup_step options w e w'"
  shows "(pw_outcome w' = None \<longleftrightarrow> \<not> pw_received w' \<and> \<not> pw_finished w')
    \<and> (pw_outcome w' = None \<longrightarrow> pw_deadline w' \<and> pw_listening w' \<and> pw_outcome (popup_timeout w') \<noteq> None)
    \<and> (pw_finished w' \<longrightarrow> \<not> pw_listening w' \<and> \<not> pw_abortable w' \<and> \<not> pw_watching w' \<and> \<not> pw_deadline w' \<and> pw_closed w')
    \<and> (\<forall>cb. pw_outcome w = None \<and> pw_outcome w' = Some (Exchange cb) \<longrightarrow>
         (\<exists>m. e = Popup_message True True m \<and> pw_state w \<noteq> [] \<and> js_get m (js ''state'') = VStr (pw_state w)
            \<and> js_get m (js ''provider'') = VStr (po_provider options) \<and> js_get m (js ''intent'') = VStr (intent_name (po_intent options))
            \<and> pc_state cb = pw_state w \<and> pc_code cb = js_get m (js ''code'')))
    \<and> (pw_outcome w \<noteq> None \<longrightarrow> pw_outcome w' = pw_outcome w)"
proof -
  have ok: "popup_ok options w" and ok': "popup_ok options w'"
    using popup_reachable_ok [OF assms(1)] popup_step_ok [OF assms(2)] by blast+
  have timeout: "pw_outcome w' = None \<Longrightarrow> pw_outcome (popup_timeout w') \<noteq> None"
    using ok' by (auto simp: popup_ok_def popup_timeout_def popup_fail_outcome)
  have auth: "\<exists>m. e = Popup_message True True m \<and> pw_state w \<noteq> [] \<and> popup_message_ok options (pw_state w) m
      \<and> pc_state cb = pw_state w \<and> pc_code cb = js_get m (js ''code'')"
    if u: "pw_outcome w = None" and r: "pw_outcome w' = Some (Exchange cb)" for cb
  proof -
    obtain m where m: "e = Popup_message True True m" using popup_step_outcome [OF assms(2)] u r by fastforce
    have "popup_message options True True m w = w'" using assms(2) unfolding m by (cases rule: popup_step.cases) auto
    then show ?thesis using popup_resolved u r m by blast
  qed
  have keep: "pw_outcome w' = pw_outcome w" if o: "pw_outcome w \<noteq> None"
  proof (cases "\<exists>m. e = Popup_message True True m")
    case True
    have "pw_received w \<or> pw_finished w" using ok o by (auto simp: popup_ok_def)
    then show ?thesis using assms(2) True by (auto simp: popup_message_def elim: popup_step.cases)
  next
    case False
    then show ?thesis using popup_step_outcome [OF assms(2)] o by auto
  qed
  show ?thesis using ok' timeout auth keep unfolding popup_ok_def popup_message_ok_def by auto
qed

definition sample_options :: popup_options where
  "sample_options = \<lparr>po_provider = js ''github'', po_intent = Verify\<rparr>"

definition prepared_popup :: popup_world where
  "prepared_popup = popup_prepared sample_options (Inr (js ''s'', js ''https://p'')) (opened_popup (Some \<lparr>ss_items = [], ss_refuses = False\<rparr>))"

definition sample_callback :: jsval where
  "sample_callback = VObj [(js ''type'', VStr OAUTH_POPUP_CALLBACK_MESSAGE), (js ''intent'', VStr (js ''verify'')),
     (js ''provider'', VStr (js ''github'')), (js ''state'', VStr (js ''s'')), (js ''code'', VStr (js ''c''))]"

theorem popup_exchange_sound_witness:
  "\<exists>w' cb. popup_step sample_options prepared_popup (Popup_message True True sample_callback) w'
     \<and> pw_outcome w' = Some (Exchange cb) \<and> pc_state cb = js ''s''"
proof -
  let ?w = "popup_message sample_options True True sample_callback prepared_popup"
  have "popup_reachable sample_options prepared_popup" unfolding prepared_popup_def
    by (rule popup_reachable.popup_next [OF popup_reachable.popup_start popup_step.Prepared]) (simp add: opened_popup_def)
  moreover have l: "pw_listening prepared_popup" "pw_outcome prepared_popup = None" "pw_state prepared_popup = js ''s''" by code_simp+
  have step: "popup_step sample_options prepared_popup (Popup_message True True sample_callback) ?w"
    using l(1) by (rule popup_step.Popup_message)
  moreover obtain cb where "pw_outcome ?w = Some (Exchange cb)"
  proof -
    have "case pw_outcome ?w of Some (Exchange cb) \<Rightarrow> True | _ \<Rightarrow> False" by code_simp
    then show thesis using that by (auto split: option.splits popup_outcome.splits)
  qed
  ultimately show ?thesis using popup_exchange_sound [of sample_options prepared_popup _ ?w] l(2,3) by (intro exI [of _ ?w] exI [of _ cb]) auto
qed

end
