(* ===== verification/Session_Tabs.thy ===== *)
theory Session_Tabs
  imports Auth_Session Js_Stringify
begin

section \<open>The session in several tabs\<close>

text \<open>
  \<open>lib/auth-session-sync.ts\<close> and the listener of \<open>routes/__root.tsx\<close>. A tab that signs in or out
  publishes an event through a broadcast channel or, where there is none, through a storage key that
  it sets and removes; the other tabs check what they receive, ignore their own and old events, and
  leave the session. Every tab is the state machine of \<open>Auth_Session\<close> with an inbox; \<open>tabs_step\<close>
  interleaves the steps of the pages with deliveries and reloads in any order.

  Clock readings, the random identifiers and whether the storage can be written are arguments. The
  clearing of the query cache whenever the session id changes is not part of the model.
\<close>

subsection \<open>Events\<close>

record sync_event =
  se_kind :: sync_kind
  se_sid :: jsstring
  se_source :: jsstring
  se_nonce :: jsstring
  se_timestamp :: jsnum

definition AUTH_SYNC_STORAGE_KEY :: jsstring where
  "AUTH_SYNC_STORAGE_KEY = js ''new-api:auth-session:event''"

fun kind_text :: "sync_kind \<Rightarrow> jsstring" where
  "kind_text Event_authenticated = js ''authenticated''"
| "kind_text Event_signed_out = js ''signed_out''"

definition event_val :: "sync_event \<Rightarrow> jsval" where
  "event_val ev = VObj [(js ''kind'', VStr (kind_text (se_kind ev))), (js ''sid'', VStr (se_sid ev)),
     (js ''source'', VStr (se_source ev)), (js ''nonce'', VStr (se_nonce ev)),
     (js ''timestamp'', VNum (se_timestamp ev))]"

definition isAuthSessionSyncEvent :: "jsval \<Rightarrow> bool" where
  "isAuthSessionSyncEvent v \<longleftrightarrow>
     js_truthy v \<and> is_object_val v
     \<and> (js_get v (js ''kind'') = VStr (js ''authenticated'') \<or> js_get v (js ''kind'') = VStr (js ''signed_out''))
     \<and> nonempty_string (js_get v (js ''sid'')) \<and> is_string_val (js_get v (js ''source''))
     \<and> is_string_val (js_get v (js ''nonce'')) \<and> is_number_val (js_get v (js ''timestamp''))"

text \<open>Reading the checked fields.\<close>

definition event_of :: "jsval \<Rightarrow> sync_event" where
  "event_of v = \<lparr>se_kind = (if js_get v (js ''kind'') = VStr (js ''authenticated'') then Event_authenticated else Event_signed_out),
     se_sid = string_at (js_get v (js ''sid'')), se_source = string_at (js_get v (js ''source'')),
     se_nonce = string_at (js_get v (js ''nonce'')), se_timestamp = number_at (js_get v (js ''timestamp''))\<rparr>"

subsection \<open>Transport\<close>

text \<open>What another tab gets: a message of the broadcast channel, or a storage event with key and new value.\<close>

datatype packet = Posted jsval | Stored jsstring "jsstring option"

datatype transport = Broadcast | Storage_written | Storage_refused

definition stamp :: "jsstring \<Rightarrow> jsnum \<Rightarrow> sync_kind \<times> jsstring \<Rightarrow> jsstring \<Rightarrow> sync_event" where
  "stamp authSyncSource now e nonce =
     \<lparr>se_kind = fst e, se_sid = snd e, se_source = authSyncSource, se_nonce = nonce, se_timestamp = now\<rparr>"

definition packets :: "transport \<Rightarrow> sync_event \<Rightarrow> packet list" where
  "packets tr ev =
     (case tr of
        Broadcast \<Rightarrow> [Posted (event_val ev)]
      | Storage_written \<Rightarrow>
          [Stored AUTH_SYNC_STORAGE_KEY (Some (json_stringify (event_val ev))), Stored AUTH_SYNC_STORAGE_KEY None]
      | Storage_refused \<Rightarrow> [])"

definition deliver_event :: "jsstring \<Rightarrow> jsnum \<Rightarrow> jsval \<Rightarrow> sync_event option" where
  "deliver_event authSyncSource now v =
     (if isAuthSessionSyncEvent v \<and> se_source (event_of v) \<noteq> authSyncSource
         \<and> js_lt (js_abs (js_sub now (se_timestamp (event_of v)))) (JFin 60000)
      then Some (event_of v) else None)"

text \<open>The event that the listener is called with, if any. A text that is no JSON is ignored.\<close>

definition receive_packet :: "jsstring \<Rightarrow> jsnum \<Rightarrow> packet \<Rightarrow> sync_event option" where
  "receive_packet authSyncSource now p =
     (case p of
        Posted v \<Rightarrow> deliver_event authSyncSource now v
      | Stored key newValue \<Rightarrow>
          if key \<noteq> AUTH_SYNC_STORAGE_KEY \<or> newValue = None \<or> newValue = Some [] then None
          else Option.bind (Option.bind newValue json_parse) (deliver_event authSyncSource now))"

subsection \<open>The listener of the page\<close>

datatype page_effect = Reload_page | Go_sign_in

text \<open>\<open>if (currentSID)\<close>\<close>

definition has_sid :: "session_world \<Rightarrow> bool" where
  "has_sid w \<longleftrightarrow> (case session_sid w of Some sid \<Rightarrow> sid \<noteq> [] | None \<Rightarrow> False)"

definition on_sync_event :: "sync_event \<Rightarrow> session_world \<Rightarrow> session_world \<times> page_effect list" where
  "on_sync_event ev w =
     (case se_kind ev of
        Event_authenticated \<Rightarrow>
          if session_sid w = Some (se_sid ev) then (w, [])
          else (if has_sid w then clearAuthentication False Complete w else w, [Reload_page])
      | Event_signed_out \<Rightarrow>
          if has_sid w \<and> session_sid w = Some (se_sid ev)
          then (clearAuthenticatedClientState False w, [Go_sign_in]) else (w, []))"

subsection \<open>Tabs\<close>

record tab =
  tb_source :: jsstring
  tb_world :: session_world
  tb_effects :: "page_effect list"
  tb_inbox :: "packet list"

definition fresh_tab :: "jsstring \<Rightarrow> tab" where
  "fresh_tab src = \<lparr>tb_source = src, tb_world = initial_world, tb_effects = [], tb_inbox = []\<rparr>"

definition handle_packet :: "jsnum \<Rightarrow> packet \<Rightarrow> tab \<Rightarrow> tab" where
  "handle_packet now p t =
     (case receive_packet (tb_source t) now p of
        None \<Rightarrow> t
      | Some ev \<Rightarrow>
          let r = on_sync_event ev (tb_world t) in t\<lparr>tb_world := fst r, tb_effects := tb_effects t @ snd r\<rparr>)"

text \<open>Who gets the packets of tab \<open>i\<close>: every subscriber of the channel, the own one included, but of
  the storage events only the other tabs.\<close>

definition reaches :: "transport \<Rightarrow> nat \<Rightarrow> nat \<Rightarrow> bool" where
  "reaches tr i j \<longleftrightarrow> tr = Broadcast \<or> i \<noteq> j"

definition post :: "transport \<Rightarrow> nat \<Rightarrow> packet list \<Rightarrow> tab list \<Rightarrow> tab list" where
  "post tr i ps ts =
     map2 (\<lambda>j t. if reaches tr i j then t\<lparr>tb_inbox := tb_inbox t @ ps\<rparr> else t) [0..<length ts] ts"

definition new_events :: "session_world \<Rightarrow> session_world \<Rightarrow> (sync_kind \<times> jsstring) list" where
  "new_events w w' = drop (length (sw_events w)) (sw_events w')"

datatype tab_event =
    Page nat auth_event jsnum "jsstring list"
  | Deliver nat jsnum
  | Reload nat jsstring

inductive tabs_step :: "transport \<Rightarrow> tab list \<Rightarrow> tab_event \<Rightarrow> tab list \<Rightarrow> bool" for tr where
  Page_step:
    "i < length ts \<Longrightarrow> auth_step (tb_world (ts ! i)) e w' \<Longrightarrow>
     length nonces = length (new_events (tb_world (ts ! i)) w') \<Longrightarrow>
     tabs_step tr ts (Page i e now nonces)
       (post tr i (concat (map (packets tr) (map2 (stamp (tb_source (ts ! i)) now) (new_events (tb_world (ts ! i)) w') nonces)))
         (ts[i := (ts ! i)\<lparr>tb_world := w'\<rparr>]))"
| Deliver_step:
    "i < length ts \<Longrightarrow> tb_inbox (ts ! i) = p # ps \<Longrightarrow>
     tabs_step tr ts (Deliver i now) (ts[i := handle_packet now p ((ts ! i)\<lparr>tb_inbox := ps\<rparr>)])"
| Reload_step:
    "i < length ts \<Longrightarrow> Reload_page \<in> set (tb_effects (ts ! i)) \<Longrightarrow> src \<notin> tb_source ` set ts \<Longrightarrow>
     tabs_step tr ts (Reload i src) (ts[i := fresh_tab src])"

inductive tabs_steps :: "transport \<Rightarrow> tab list \<Rightarrow> tab_event list \<Rightarrow> tab list \<Rightarrow> bool" for tr where
  tabs_steps_Nil: "tabs_steps tr ts [] ts"
| tabs_steps_Cons: "tabs_step tr ts e ts' \<Longrightarrow> tabs_steps tr ts' es ts'' \<Longrightarrow> tabs_steps tr ts (e # es) ts''"

inductive_cases tabs_stepE: "tabs_step tr ts e ts'"

subsection \<open>Events arrive as they were sent\<close>

definition event_ok :: "sync_event \<Rightarrow> bool" where
  "event_ok ev \<longleftrightarrow>
     se_sid ev \<noteq> [] \<and> units_ok (se_sid ev) \<and> units_ok (se_source ev) \<and> units_ok (se_nonce ev) \<and> json_double (se_timestamp ev)"

definition recent :: "jsnum \<Rightarrow> sync_event \<Rightarrow> bool" where
  "recent now ev \<longleftrightarrow> js_lt (js_abs (js_sub now (se_timestamp ev))) (JFin 60000)"

lemma event_val_fields:
  "js_get (event_val ev) (js ''kind'') = VStr (kind_text (se_kind ev))" "js_get (event_val ev) (js ''sid'') = VStr (se_sid ev)"
  "js_get (event_val ev) (js ''source'') = VStr (se_source ev)" "js_get (event_val ev) (js ''nonce'') = VStr (se_nonce ev)"
  "js_get (event_val ev) (js ''timestamp'') = VNum (se_timestamp ev)"
  by (simp_all add: event_val_def)

lemma event_of_val [simp]: "event_of (event_val ev) = ev"
  by (cases "se_kind ev") (simp_all add: event_of_def event_val_fields del: js_Cons, simp_all)

lemma sync_event_val: "isAuthSessionSyncEvent (event_val ev) \<longleftrightarrow> se_sid ev \<noteq> []"
  by (cases "se_kind ev") (simp_all add: isAuthSessionSyncEvent_def event_val_fields del: js_Cons, simp_all add: event_val_def)

lemma event_val_json: "event_ok ev \<Longrightarrow> json_ok (event_val ev)"
proof -
  assume ok: "event_ok ev"
  have "canonical [(js ''kind'', a), (js ''sid'', b), (js ''source'', c), (js ''nonce'', d), (js ''timestamp'', e)]" for a b c d e :: jsval
    by (simp add: canonical_def key_before_def) code_simp
  moreover have "units_ok (kind_text k)" for k by (cases k) (simp_all add: units_ok_def)
  ultimately show ?thesis using ok by (simp add: event_val_def event_ok_def units_ok_def del: js_Cons, simp)
qed

lemma deliver_event_val:
  "event_ok ev \<Longrightarrow> deliver_event src now (event_val ev) = (if se_source ev \<noteq> src \<and> recent now ev then Some ev else None)"
  by (simp add: deliver_event_def sync_event_val recent_def event_ok_def)

text \<open>A way to send events: the packets of an event announce that event, to other tabs and while it
  is recent, and one of them does.\<close>

locale sync_transport =
  fixes send :: "sync_event \<Rightarrow> packet list"
    and recv :: "jsstring \<Rightarrow> jsnum \<Rightarrow> packet \<Rightarrow> sync_event option"
  assumes announced: "event_ok ev \<Longrightarrow> List.map_filter (recv src now) (send ev) = (if se_source ev \<noteq> src \<and> recent now ev then [ev] else [])"
    and steady: "event_ok ev \<Longrightarrow> p \<in> set (send ev) \<Longrightarrow> recv src now p \<noteq> None \<Longrightarrow>
      se_source ev \<noteq> src' \<Longrightarrow> recent now' ev \<Longrightarrow> recv src' now' p = Some ev"
begin

lemma announcing_packet:
  assumes ok: "event_ok ev" and r: "recent now0 ev"
  shows "\<exists>p \<in> set (send ev). \<forall>src now. se_source ev \<noteq> src \<longrightarrow> recent now ev \<longrightarrow> recv src now p = Some ev"
proof -
  obtain src where src: "se_source ev \<noteq> src" by (metis list.distinct(1))
  then have "List.map_filter (recv src now0) (send ev) \<noteq> []" using announced [OF ok] r by simp
  then obtain p where "p \<in> set (send ev)" "recv src now0 p \<noteq> None"
    by (auto simp: List.map_filter_def filter_empty_conv)
  then show ?thesis using steady [OF ok] by blast
qed

lemma own_event_ignored: "event_ok ev \<Longrightarrow> p \<in> set (send ev) \<Longrightarrow> recv (se_source ev) now p = None"
  using announced [of ev "se_source ev" now] by (auto simp: List.map_filter_def filter_empty_conv)

end

lemma stored_event:
  "event_ok ev \<Longrightarrow> receive_packet src now (Stored AUTH_SYNC_STORAGE_KEY (Some (json_stringify (event_val ev))))
     = deliver_event src now (event_val ev)"
  using json_roundtrip [OF event_val_json, of ev] by (auto simp: receive_packet_def) (simp add: event_val_def)

interpretation broadcast: sync_transport "packets Broadcast" receive_packet
  by unfold_locales
    (auto simp: packets_def List.map_filter_simps receive_packet_def deliver_event_val split: if_splits)

interpretation storage: sync_transport "packets Storage_written" receive_packet
proof unfold_locales
  fix ev src now
  assume ok: "event_ok ev"
  have none: "receive_packet s n (Stored AUTH_SYNC_STORAGE_KEY None) = None" for s n by (simp add: receive_packet_def)
  show "List.map_filter (receive_packet src now) (packets Storage_written ev) = (if se_source ev \<noteq> src \<and> recent now ev then [ev] else [])"
    by (simp add: packets_def List.map_filter_simps stored_event [OF ok] none deliver_event_val [OF ok])
  fix p src' now'
  assume "p \<in> set (packets Storage_written ev)" "receive_packet src now p \<noteq> None" "se_source ev \<noteq> src'" "recent now' ev"
  then show "receive_packet src' now' p = Some ev"
    by (auto simp: packets_def stored_event [OF ok] none deliver_event_val [OF ok])
qed

text \<open>
  A published event reaches the listener of another tab exactly once and unchanged, through the broadcast channel
  and through the storage, if the clocks differ by less than a minute; the own tab and a tab that reads it later are not called.
\<close>

theorem sync_event_transported:
  assumes "event_ok ev" "tr \<noteq> Storage_refused"
  shows "List.map_filter (receive_packet src now) (packets tr ev) = (if se_source ev \<noteq> src \<and> recent now ev then [ev] else [])"
  using assms broadcast.announced storage.announced by (cases tr) auto

definition sample_event :: sync_event where
  "sample_event = \<lparr>se_kind = Event_signed_out, se_sid = js ''s1'', se_source = js ''a'', se_nonce = js ''n'', se_timestamp = JFin 1000\<rparr>"

lemma sample_event_ok: "event_ok sample_event" "recent (JFin 2000) sample_event"
  by code_simp+

theorem sync_event_transported_witness:
  "List.map_filter (receive_packet (js ''b'') (JFin 2000)) (packets Storage_written sample_event) = [sample_event]
   \<and> List.map_filter (receive_packet (js ''a'') (JFin 2000)) (packets Storage_written sample_event) = []"
  using sync_event_transported [OF sample_event_ok(1), of Storage_written "js ''b''" "JFin 2000"]
    sync_event_transported [OF sample_event_ok(1), of Storage_written "js ''a''" "JFin 2000"] sample_event_ok(2)
  by (simp add: sample_event_def)

subsection \<open>Leaving a session in all tabs\<close>



lemma session_sid_simps [simp]:
  "session_sid (with_run epoch phase w) = session_sid w" "session_sid (w\<lparr>sw_refresh := x\<rparr>) = session_sid w"
  "session_sid (w\<lparr>sw_epoch := n\<rparr>) = session_sid w" "session_sid (w\<lparr>sw_events := es\<rparr>) = session_sid w"
  "session_sid (applyAuthBundle b synchronize w) = Some (ls_sid (ab_session b))"
  "session_sid (clearAuthentication synchronize bootstrap w) = None"
  "session_sid (clearAuthenticatedClientState synchronize w) = None"
  "session_sid (on_auth (setUser u) w) = session_sid w" "session_sid (on_auth (setPendingLoginVerification v) w) = session_sid w"
  "session_sid (on_auth (setBootstrapState b') w) = session_sid w" "session_sid (on_auth (reset_auth b') w) = None"
  by (simp_all add: session_sid_def with_run_def on_auth_def store_defs)

lemma session_sid_refresh [simp]: "session_sid (refreshAuthentication lock w) = session_sid w"
  by (auto simp: refreshAuthentication_def performRefreshWithBrowserLock_def runRefresh_def split: option.split lock_answer.split)

lemma session_sid_resolve [simp]: "session_sid (snd (resolveAuthentication lock now w)) = session_sid w"
  by (auto simp: resolveAuthentication_def split: option.split)



lemma session_sid_bootstrap [simp]: "session_sid (snd (bootstrapAuthentication cookies lock now w)) = session_sid w"
  by (simp add: bootstrapAuthentication_def)


lemma length_post [simp]: "length (post tr i ps ts) = length ts"
  by (simp add: post_def)








lemma handle_packet_fields [simp]: "tb_source (handle_packet now p t) = tb_source t" "tb_inbox (handle_packet now p t) = tb_inbox t"
  by (simp_all add: handle_packet_def Let_def split: option.split)











text \<open>A delivery publishes nothing, so that the exchange of events ends.\<close>

definition pending :: "tab list \<Rightarrow> nat" where
  "pending ts = sum_list (map (\<lambda>t. length (tb_inbox t)) ts)"

lemma pending_update: "i < length ts \<Longrightarrow> pending (ts[i := t]) + length (tb_inbox (ts ! i)) = pending ts + length (tb_inbox t)"
  by (induction ts arbitrary: i) (auto simp: pending_def nth_Cons split: nat.split)

lemma on_sync_event_silent: "sw_events (fst (on_sync_event ev w)) = sw_events w"
  by (simp add: on_sync_event_def clearAuthenticatedClientState_def clearAuthentication_def on_auth_def Let_def
      split: sync_kind.split option.split)

lemma handle_packet_silent: "sw_events (tb_world (handle_packet now p t)) = sw_events (tb_world t)"
  using on_sync_event_silent by (simp add: handle_packet_def Let_def split: option.split)

theorem deliveries_end:
  assumes "tabs_steps tr ts (map (case_prod Deliver) ds) ts'"
  shows "length ds + pending ts' = pending ts \<and> map (sw_events \<circ> tb_world) ts' = map (sw_events \<circ> tb_world) ts"
  using assms
proof (induction ds arbitrary: ts)
  case Nil
  then show ?case by (cases rule: tabs_steps.cases) auto
next
  case (Cons d ds)
  obtain ts1 where s: "tabs_step tr ts (Deliver (fst d) (snd d)) ts1" "tabs_steps tr ts1 (map (case_prod Deliver) ds) ts'"
    using Cons.prems by (cases rule: tabs_steps.cases) (auto simp: case_prod_beta)
  from s(1) have "Suc (pending ts1) = pending ts \<and> map (sw_events \<circ> tb_world) ts1 = map (sw_events \<circ> tb_world) ts"
  proof (cases rule: tabs_step.cases)
    case (Deliver_step p ps)
    let ?t = "handle_packet (snd d) p ((ts ! fst d)\<lparr>tb_inbox := ps\<rparr>)"
    have "sw_events (tb_world ?t) = sw_events (tb_world (ts ! fst d))" by (simp add: handle_packet_silent)
    then show ?thesis using pending_update [of "fst d" ts ?t] Deliver_step
      by (simp add: map_update list_update_same_conv)
  qed
  moreover have "length ds + pending ts' = pending ts1 \<and> map (sw_events \<circ> tb_world) ts' = map (sw_events \<circ> tb_world) ts1"
    by (rule Cons.IH [OF s(2)])
  ultimately show ?case by (metis (no_types, opaque_lifting) add_Suc length_Cons)
qed





end
