(* ===== verification/Channel_Routes.thy ===== *)
theory Channel_Routes
  imports Js_Prelude
begin

section \<open>Routes of an advanced custom channel\<close>

text \<open>
  \<open>features/channels/lib/advanced-custom.ts\<close>: the routes that a custom channel forwards, their normal
  form, templates, defaults, the two management routes, and the validation that is run before a
  channel is saved. A path into the URL parser of the browser is the parameter \<open>parse_url\<close>, which
  returns the protocol and the host of a full URL.
\<close>

subsection \<open>Data\<close>

record route_auth =
  ra_type :: "jsstring option"
  ra_name :: "jsstring option"
  ra_value :: "jsstring option"

record custom_route =
  cr_incoming_path :: "jsstring option"
  cr_upstream_path :: "jsstring option"
  cr_converter :: "jsstring option"
  cr_models :: "jsstring list option"
  cr_auth :: "route_auth option"
  cr_pass_through :: "bool option"

text \<open>\<open>AdvancedCustomConfig\<close>: the routes, which may be missing.\<close>

type_synonym custom_config = "custom_route list option"

type_synonym url_parser = "jsstring \<Rightarrow> (jsstring \<times> jsstring) option"

definition ADVANCED_CUSTOM_MODEL_LIST_PATH :: jsstring where
  "ADVANCED_CUSTOM_MODEL_LIST_PATH = js ''/v1/models''"

definition ADVANCED_CUSTOM_BALANCE_PATH :: jsstring where
  "ADVANCED_CUSTOM_BALANCE_PATH = js ''/v1/dashboard/billing/credit_grants''"

definition openAIChatPath :: jsstring where "openAIChatPath = js ''/v1/chat/completions''"

definition openAIResponsesPath :: jsstring where "openAIResponsesPath = js ''/v1/responses''"

definition claudeMessagesPath :: jsstring where "claudeMessagesPath = js ''/v1/messages''"

definition geminiGenerateContentPath :: jsstring where
  "geminiGenerateContentPath = js ''/v1beta/models/{model}:generateContent''"

definition none :: jsstring where "none = js ''none''"

definition converters :: "jsstring list" where
  "converters = map js
     [''none'', ''anthropic_messages_to_openai_chat_completions'', ''claude_messages_to_openai_responses'',
      ''openai_chat_completions_to_anthropic_messages'', ''openai_chat_completions_to_openai_responses'',
      ''openai_responses_to_openai_chat_completions'', ''openai_responses_to_gemini_generate_content'',
      ''gemini_generate_content_to_openai_chat_completions'', ''gemini_generate_content_to_openai_responses'',
      ''openai_chat_completions_to_gemini_generate_content'']"

definition incoming_paths :: "jsstring list" where
  "incoming_paths = map js
     [''/v1/chat/completions'', ''/v1/responses'', ''/v1/responses/compact'', ''/v1/alpha/search'', ''/v1/embeddings'',
      ''/v1/images/generations'', ''/v1/images/edits'', ''/v1/completions'', ''/v1/audio/speech'',
      ''/v1/audio/transcriptions'', ''/v1/audio/translations'', ''/v1/rerank'', ''/v1/realtime'', ''/v1/messages'',
      ''/v1beta/models/{model}:generateContent'', ''/v1beta/models/{model}:embedContent'',
      ''/v1beta/models/{model}:batchEmbedContents'']"

definition bearerHeaderAuth :: route_auth where
  "bearerHeaderAuth = \<lparr>ra_type = Some (js ''header''), ra_name = Some (js ''Authorization''), ra_value = Some (js ''Bearer {api_key}'')\<rparr>"

definition apiKeyHeaderAuth :: route_auth where
  "apiKeyHeaderAuth = \<lparr>ra_type = Some (js ''header''), ra_name = Some (js ''x-api-key''), ra_value = Some (js ''{api_key}'')\<rparr>"

definition geminiQueryAuth :: route_auth where
  "geminiQueryAuth = \<lparr>ra_type = Some (js ''query''), ra_name = Some (js ''key''), ra_value = Some (js ''{api_key}'')\<rparr>"

subsection \<open>Normal form\<close>

text \<open>\<open>s || d\<close> for an optional text.\<close>

definition text_or :: "jsstring option \<Rightarrow> jsstring \<Rightarrow> jsstring" where
  "text_or s d = (case s of Some t \<Rightarrow> if t = [] then d else t | None \<Rightarrow> d)"

definition getAdvancedCustomRouteUpstreamPath :: "custom_route \<Rightarrow> jsstring" where
  "getAdvancedCustomRouteUpstreamPath r = js_trim (text_or (cr_upstream_path r) [])"

definition normalizeAdvancedCustomRouteModels :: "jsstring list option \<Rightarrow> jsstring list" where
  "normalizeAdvancedCustomRouteModels models =
     (case models of Some ms \<Rightarrow> nonempty_texts (map js_trim ms) | None \<Rightarrow> [])"

definition normalizeAdvancedCustomRoute :: "custom_route \<Rightarrow> custom_route" where
  "normalizeAdvancedCustomRoute r =
     (let models = normalizeAdvancedCustomRouteModels (cr_models r) in
      \<lparr>cr_incoming_path = Some (text_or (cr_incoming_path r) []),
       cr_upstream_path = Some (getAdvancedCustomRouteUpstreamPath r),
       cr_converter = Some (text_or (cr_converter r) none),
       cr_models = (if models \<noteq> [] then Some models else None),
       cr_auth = map_option (\<lambda>a. \<lparr>ra_type = ra_type a, ra_name = Some (text_or (ra_name a) []), ra_value = Some (text_or (ra_value a) [])\<rparr>)
                   (cr_auth r),
       cr_pass_through = (if cr_pass_through r = Some True then Some True else None)\<rparr>)"

definition normalizeAdvancedCustomConfig :: "custom_config \<Rightarrow> custom_route list" where
  "normalizeAdvancedCustomConfig config =
     (case config of Some routes \<Rightarrow> map normalizeAdvancedCustomRoute routes | None \<Rightarrow> [])"

definition parseAdvancedCustomRouteModels :: "jsstring \<Rightarrow> jsstring list" where
  "parseAdvancedCustomRouteModels v = js_unique (nonempty_texts (map js_trim (js_split 44 v)))"

text \<open>\<open>route.incoming_path?.trim() || ''\<close>\<close>

definition route_path :: "custom_route \<Rightarrow> jsstring" where
  "route_path r = (case cr_incoming_path r of Some p \<Rightarrow> js_trim p | None \<Rightarrow> [])"

subsection \<open>Management and forwarding routes\<close>

definition isAdvancedCustomManagementPath :: "jsstring \<Rightarrow> bool" where
  "isAdvancedCustomManagementPath path \<longleftrightarrow> path = ADVANCED_CUSTOM_MODEL_LIST_PATH \<or> path = ADVANCED_CUSTOM_BALANCE_PATH"

definition getAdvancedCustomManagementRoute :: "custom_config \<Rightarrow> jsstring \<Rightarrow> custom_route option" where
  "getAdvancedCustomManagementRoute config path =
     find (\<lambda>r. route_path r = path) (normalizeAdvancedCustomConfig config)"

fun update_first :: "('a \<Rightarrow> bool) \<Rightarrow> 'a \<Rightarrow> 'a list \<Rightarrow> 'a list" where
  "update_first P y [] = [y]"
| "update_first P y (x # xs) = (if P x then y # xs else x # update_first P y xs)"

fun remove_first :: "('a \<Rightarrow> bool) \<Rightarrow> 'a list \<Rightarrow> 'a list" where
  "remove_first P [] = []"
| "remove_first P (x # xs) = (if P x then xs else x # remove_first P xs)"

definition replaceAdvancedCustomManagementRoute :: "custom_config \<Rightarrow> jsstring \<Rightarrow> custom_route option \<Rightarrow> custom_config" where
  "replaceAdvancedCustomManagementRoute config path route =
     (let routes = normalizeAdvancedCustomConfig config in
      Some (case route of
              None \<Rightarrow> remove_first (\<lambda>r. route_path r = path) routes
            | Some r \<Rightarrow>
                update_first (\<lambda>r. route_path r = path)
                  \<lparr>cr_incoming_path = Some path, cr_upstream_path = Some (text_or (cr_upstream_path r) []),
                   cr_converter = Some none, cr_models = Some [], cr_auth = cr_auth r, cr_pass_through = None\<rparr> routes))"

definition management_route :: "custom_route \<Rightarrow> bool" where
  "management_route r \<longleftrightarrow> isAdvancedCustomManagementPath (route_path r)"

definition replaceAdvancedCustomForwardingRoutes :: "custom_config \<Rightarrow> custom_route list \<Rightarrow> custom_config" where
  "replaceAdvancedCustomForwardingRoutes config forwardingRoutes =
     (let routes = normalizeAdvancedCustomConfig config in
      if list_all management_route routes then Some (filter management_route routes @ forwardingRoutes)
      else (let firstForwardingIndex = length (takeWhile management_route routes) in
            Some (filter management_route (take firstForwardingIndex routes) @ forwardingRoutes
                  @ filter management_route (drop firstForwardingIndex routes))))"

definition createAdvancedCustomRoute :: custom_route where
  "createAdvancedCustomRoute =
     \<lparr>cr_incoming_path = Some openAIChatPath, cr_upstream_path = Some openAIChatPath, cr_converter = Some none,
      cr_models = None, cr_auth = None, cr_pass_through = None\<rparr>"

definition createAdvancedCustomConfig :: custom_config where
  "createAdvancedCustomConfig = Some [createAdvancedCustomRoute]"

definition createAdvancedCustomManagementRoute :: "jsstring \<Rightarrow> custom_route" where
  "createAdvancedCustomManagementRoute path =
     \<lparr>cr_incoming_path = Some path, cr_upstream_path = Some path, cr_converter = Some none, cr_models = Some [],
      cr_auth = None, cr_pass_through = None\<rparr>"

subsection \<open>Templates\<close>

definition native_route :: "route_auth \<Rightarrow> jsstring \<Rightarrow> custom_route" where
  "native_route auth path =
     \<lparr>cr_incoming_path = Some path, cr_upstream_path = Some path, cr_converter = Some none, cr_models = None,
      cr_auth = Some auth, cr_pass_through = None\<rparr>"

definition createOpenAINativeRoutes :: "custom_route list" where
  "createOpenAINativeRoutes = map (native_route bearerHeaderAuth)
     (map js [''/v1/chat/completions'', ''/v1/completions'', ''/v1/responses'', ''/v1/responses/compact'', ''/v1/embeddings'',
       ''/v1/images/generations'', ''/v1/images/edits'', ''/v1/audio/speech'', ''/v1/audio/transcriptions'',
       ''/v1/audio/translations'', ''/v1/realtime''])"

definition createClaudeNativeRoutes :: "custom_route list" where
  "createClaudeNativeRoutes = [native_route apiKeyHeaderAuth (js ''/v1/messages'')]"

definition createGeminiNativeRoutes :: "custom_route list" where
  "createGeminiNativeRoutes = map (native_route geminiQueryAuth)
     (map js [''/v1beta/models/{model}:generateContent'', ''/v1beta/models/{model}:embedContent'',
       ''/v1beta/models/{model}:batchEmbedContents''])"

definition createGatewayNativeRoutes :: "custom_route list" where
  "createGatewayNativeRoutes = map (native_route bearerHeaderAuth) (map js [''/v1/alpha/search'', ''/v1/rerank''])"

definition ADVANCED_CUSTOM_TEMPLATE_OPTIONS :: "(jsstring \<times> custom_config) list" where
  "ADVANCED_CUSTOM_TEMPLATE_OPTIONS =
     [(js ''all_protocols'', Some (createOpenAINativeRoutes @ createClaudeNativeRoutes @ createGeminiNativeRoutes @ createGatewayNativeRoutes)),
      (js ''openai_only'', Some createOpenAINativeRoutes), (js ''claude_only'', Some createClaudeNativeRoutes),
      (js ''gemini_only'', Some createGeminiNativeRoutes)]"

definition getAdvancedCustomTemplateConfig :: "jsstring \<Rightarrow> custom_config" where
  "getAdvancedCustomTemplateConfig templateKey =
     snd (case find (\<lambda>x. fst x = templateKey) ADVANCED_CUSTOM_TEMPLATE_OPTIONS of
            Some x \<Rightarrow> x | None \<Rightarrow> hd ADVANCED_CUSTOM_TEMPLATE_OPTIONS)"

subsection \<open>Converters\<close>

definition isConverterPathAllowed :: "jsstring \<Rightarrow> jsstring \<Rightarrow> bool" where
  "isConverterPathAllowed incomingPath converter \<longleftrightarrow>
     (if converter = none then True
      else if incomingPath = js ''/v1/alpha/search'' then False
      else if converter = js ''anthropic_messages_to_openai_chat_completions''
        \<or> converter = js ''claude_messages_to_openai_responses'' then incomingPath = js ''/v1/messages''
      else if converter = js ''openai_chat_completions_to_anthropic_messages''
        \<or> converter = js ''openai_chat_completions_to_openai_responses''
        \<or> converter = js ''openai_chat_completions_to_gemini_generate_content'' then incomingPath = js ''/v1/chat/completions''
      else if converter = js ''openai_responses_to_openai_chat_completions'' then incomingPath = js ''/v1/responses''
      else if converter = js ''openai_responses_to_gemini_generate_content'' then incomingPath = js ''/v1/responses''
      else js_includes (js '':generateContent'') incomingPath \<or> js_includes (js '':streamGenerateContent'') incomingPath)"

definition getAdvancedCustomIncomingPathOptions :: "jsstring \<Rightarrow> jsstring list" where
  "getAdvancedCustomIncomingPathOptions converter = filter (\<lambda>p. isConverterPathAllowed p converter) incoming_paths"

definition getDefaultAdvancedCustomIncomingPath :: "jsstring \<Rightarrow> jsstring" where
  "getDefaultAdvancedCustomIncomingPath converter =
     (case getAdvancedCustomIncomingPathOptions converter of p # _ \<Rightarrow> text_or (Some p) openAIChatPath | [] \<Rightarrow> openAIChatPath)"

definition isAdvancedCustomPassThroughAllowed :: "jsstring \<Rightarrow> bool" where
  "isAdvancedCustomPassThroughAllowed converter \<longleftrightarrow> converter = none"

definition getAdvancedCustomConverterOptions :: "jsstring \<Rightarrow> jsstring list" where
  "getAdvancedCustomConverterOptions incomingPath =
     filter (\<lambda>c. c = none \<or> isConverterPathAllowed (js_trim incomingPath) c) converters"

definition getAdvancedCustomNativeAuth :: "jsstring \<Rightarrow> route_auth" where
  "getAdvancedCustomNativeAuth incomingPath =
     (if incomingPath = claudeMessagesPath then apiKeyHeaderAuth
      else if js_includes (js '':generateContent'') incomingPath \<or> js_includes (js '':streamGenerateContent'') incomingPath
        \<or> js_includes (js '':embedContent'') incomingPath \<or> js_includes (js '':batchEmbedContents'') incomingPath
      then geminiQueryAuth else bearerHeaderAuth)"

definition getAdvancedCustomConverterDefaults :: "jsstring \<Rightarrow> jsstring \<Rightarrow> jsstring \<times> route_auth" where
  "getAdvancedCustomConverterDefaults converter incomingPath =
     (let path = text_or (Some (js_trim incomingPath)) (getDefaultAdvancedCustomIncomingPath converter) in
      if converter = none then (path, getAdvancedCustomNativeAuth path)
      else if converter \<in> set (map js [''anthropic_messages_to_openai_chat_completions'',
          ''gemini_generate_content_to_openai_chat_completions'', ''openai_responses_to_openai_chat_completions''])
      then (openAIChatPath, bearerHeaderAuth)
      else if converter \<in> set (map js [''openai_chat_completions_to_openai_responses'', ''claude_messages_to_openai_responses'',
          ''gemini_generate_content_to_openai_responses''])
      then (openAIResponsesPath, bearerHeaderAuth)
      else if converter = js ''openai_chat_completions_to_anthropic_messages'' then (claudeMessagesPath, apiKeyHeaderAuth)
      else if converter \<in> set (map js [''openai_chat_completions_to_gemini_generate_content'', ''openai_responses_to_gemini_generate_content''])
      then (geminiGenerateContentPath, geminiQueryAuth)
      else (text_or (Some path) openAIChatPath, getAdvancedCustomNativeAuth path))"

definition getAdvancedCustomUpstreamPathPlaceholder :: "jsstring \<Rightarrow> jsstring option \<Rightarrow> jsstring" where
  "getAdvancedCustomUpstreamPathPlaceholder converter incomingPath =
     fst (getAdvancedCustomConverterDefaults converter
            (case incomingPath of Some p \<Rightarrow> p | None \<Rightarrow> getDefaultAdvancedCustomIncomingPath converter))"

definition getAdvancedCustomAuthMode :: "custom_route \<Rightarrow> jsstring" where
  "getAdvancedCustomAuthMode r =
     (case cr_auth r of Some a \<Rightarrow> text_or (ra_type a) (js ''default'') | None \<Rightarrow> js ''default'')"

definition buildAdvancedCustomAuth :: "jsstring \<Rightarrow> route_auth option \<Rightarrow> route_auth option" where
  "buildAdvancedCustomAuth mode previousAuth =
     (let name = (case previousAuth of Some a \<Rightarrow> ra_name a | None \<Rightarrow> None);
          val = (case previousAuth of Some a \<Rightarrow> ra_value a | None \<Rightarrow> None) in
      if mode = js ''default'' then None
      else if mode = none then Some \<lparr>ra_type = Some none, ra_name = None, ra_value = None\<rparr>
      else if mode = js ''header''
      then Some \<lparr>ra_type = Some (js ''header''), ra_name = Some (text_or name (js ''Authorization'')),
                 ra_value = Some (text_or val (js ''Bearer {api_key}''))\<rparr>
      else Some \<lparr>ra_type = Some (js ''query''), ra_name = Some (text_or name (js ''api_key'')),
                 ra_value = Some (text_or val (js ''{api_key}''))\<rparr>)"

subsection \<open>Validation\<close>

type_synonym validation_error = "nat option \<times> jsstring"

text \<open>For every incoming path: the index of its catch-all route, and its model rules with their routes.\<close>

record validation_state =
  vs_paths :: "jsstring \<rightharpoonup> nat option \<times> (jsstring \<rightharpoonup> nat)"
  vs_model_list :: "nat option"
  vs_balance :: "nat option"

definition empty_validation :: validation_state where
  "empty_validation = \<lparr>vs_paths = Map.empty, vs_model_list = None, vs_balance = None\<rparr>"

definition is_empty_regex :: "jsstring \<Rightarrow> bool" where
  "is_empty_regex model \<longleftrightarrow> js_starts_with (js ''re:'') model \<and> drop 3 model = []"

fun check_models :: "nat \<Rightarrow> jsstring list \<Rightarrow> jsstring list \<Rightarrow> (jsstring \<rightharpoonup> nat) \<Rightarrow> validation_error + (jsstring \<rightharpoonup> nat)" where
  "check_models routeIndex [] seenInRoute models = Inr models"
| "check_models routeIndex (m # ms) seenInRoute models =
     (if is_empty_regex m then Inl (Some routeIndex, js ''Model regex cannot be empty'')
      else if m \<in> set seenInRoute then Inl (Some routeIndex, js ''Duplicate model in route models'')
      else if models m \<noteq> None then Inl (Some routeIndex, js ''Route models must be unique for the same incoming path'')
      else check_models routeIndex ms (m # seenInRoute) (models(m \<mapsto> routeIndex)))"

definition validateAdvancedCustomRouteModels ::
    "nat \<Rightarrow> jsstring \<Rightarrow> jsstring list \<Rightarrow> validation_state \<Rightarrow> validation_error + validation_state" where
  "validateAdvancedCustomRouteModels routeIndex incomingPath models st =
     (let entry = (case vs_paths st incomingPath of Some e \<Rightarrow> e | None \<Rightarrow> (None, Map.empty)) in
      if models = [] then
        (if fst entry \<noteq> None
         then Inl (Some routeIndex, js ''Only one catch-all route is allowed for the same incoming path'')
         else Inr (st\<lparr>vs_paths := (vs_paths st)(incomingPath \<mapsto> (Some routeIndex, snd entry))\<rparr>))
      else if fst entry \<noteq> None
      then Inl (Some routeIndex, js ''Catch-all route must be last for the same incoming path'')
      else rbind (check_models routeIndex models [] (snd entry))
             (\<lambda>models'. Inr (st\<lparr>vs_paths := (vs_paths st)(incomingPath \<mapsto> (None, models'))\<rparr>)))"

definition isFullHttpURLOrAbsolutePath :: "url_parser \<Rightarrow> jsstring \<Rightarrow> bool" where
  "isFullHttpURLOrAbsolutePath parse_url v \<longleftrightarrow>
     (if js_starts_with (js ''/'') v then \<not> js_starts_with (js ''//'') v
      else (case parse_url v of
              Some (protocol, host) \<Rightarrow> host \<noteq> [] \<and> (protocol = js ''http:'' \<or> protocol = js ''https:'')
            | None \<Rightarrow> False))"

definition validateRouteAuth :: "route_auth option \<Rightarrow> jsstring option" where
  "validateRouteAuth auth =
     (case auth of
        None \<Rightarrow> None
      | Some a \<Rightarrow>
          if ra_type a = Some none then None
          else if ra_type a \<noteq> Some (js ''header'') \<and> ra_type a \<noteq> Some (js ''query'') then Some (js ''Auth type is invalid'')
          else if js_trim (text_or (ra_name a) []) = [] then Some (js ''Auth name is required'')
          else if js_trim (text_or (ra_value a) []) = [] then Some (js ''Auth value is required'')
          else None)"

definition check_management :: "nat \<Rightarrow> custom_route \<Rightarrow> validation_state \<Rightarrow> validation_error + validation_state" where
  "check_management i r st =
     (let path = route_path r; isModelListRoute = (path = ADVANCED_CUSTOM_MODEL_LIST_PATH);
          routeLabel = (if isModelListRoute then js ''OpenAI Models'' else js ''Balance Query'');
          fail = (\<lambda>m. Inl (Some i, m)) in
      if (if isModelListRoute then vs_model_list st else vs_balance st) \<noteq> None
      then fail (js ''Only one '' @ routeLabel @ js '' route is allowed'')
      else if normalizeAdvancedCustomRouteModels (cr_models r) \<noteq> []
      then fail (routeLabel @ js '' route does not support client model rules'')
      else if text_or (cr_converter r) none \<noteq> none then fail (routeLabel @ js '' route must use native forwarding'')
      else if js_includes (js ''{model}'') (getAdvancedCustomRouteUpstreamPath r)
      then fail (routeLabel @ js '' upstream path must not contain {model}'')
      else if cr_pass_through r = Some True then fail (routeLabel @ js '' route does not support pass-through'')
      else Inr (if isModelListRoute then st\<lparr>vs_model_list := Some i\<rparr> else st\<lparr>vs_balance := Some i\<rparr>))"

definition check_target :: "url_parser \<Rightarrow> nat \<Rightarrow> custom_route \<Rightarrow> validation_state \<Rightarrow> validation_error + validation_state" where
  "check_target parse_url i r st =
     (let upstreamPath = getAdvancedCustomRouteUpstreamPath r; converter = text_or (cr_converter r) none;
          fail = (\<lambda>m. Inl (Some i, m)) in
      if upstreamPath = [] then fail (js ''Upstream path is required'')
      else if \<not> isFullHttpURLOrAbsolutePath parse_url upstreamPath
      then fail (js ''Upstream path must be a full URL or a path starting with /'')
      else if converter \<notin> set converters then fail (js ''Converter is not registered'')
      else if \<not> isConverterPathAllowed (route_path r) converter then fail (js ''Converter does not match incoming path'')
      else if cr_pass_through r = Some True \<and> \<not> isAdvancedCustomPassThroughAllowed converter
      then fail (js ''Pass-through requires native forwarding'')
      else (case validateRouteAuth (cr_auth r) of Some m \<Rightarrow> fail m | None \<Rightarrow> Inr st))"

definition check_route :: "url_parser \<Rightarrow> nat \<Rightarrow> custom_route \<Rightarrow> validation_state \<Rightarrow> validation_error + validation_state" where
  "check_route parse_url i r st =
     (let path = route_path r; fail = (\<lambda>m. Inl (Some i, m)) in
      if path = [] then fail (js ''Incoming path is required'')
      else if \<not> js_starts_with (js ''/'') path then fail (js ''Incoming path must start with /'')
      else if js_includes (js ''?'') path then fail (js ''Incoming path must not include query'')
      else rbind (if isAdvancedCustomManagementPath path then check_management i r st else Inr st) (\<lambda>st1.
           rbind (validateAdvancedCustomRouteModels i path (normalizeAdvancedCustomRouteModels (cr_models r)) st1) (\<lambda>st2.
           check_target parse_url i r st2)))"

fun check_routes :: "url_parser \<Rightarrow> nat \<Rightarrow> custom_route list \<Rightarrow> validation_state \<Rightarrow> validation_error option" where
  "check_routes parse_url i [] st = None"
| "check_routes parse_url i (r # rs) st =
     (case check_route parse_url i r st of Inl e \<Rightarrow> Some e | Inr st' \<Rightarrow> check_routes parse_url (i + 1) rs st')"

definition validateAdvancedCustomConfig :: "url_parser \<Rightarrow> custom_config option \<Rightarrow> validation_error option" where
  "validateAdvancedCustomConfig parse_url config =
     (case config of
        None \<Rightarrow> Some (None, js ''Advanced custom configuration is required'')
      | Some c \<Rightarrow>
          let routes = normalizeAdvancedCustomConfig c in
          if routes = [] then Some (None, js ''Advanced custom configuration requires at least one route'')
          else check_routes parse_url 0 routes empty_validation)"

definition hasValidAdvancedCustomModelListRoute :: "url_parser \<Rightarrow> custom_config option \<Rightarrow> bool" where
  "hasValidAdvancedCustomModelListRoute parse_url config \<longleftrightarrow>
     (case config of
        None \<Rightarrow> False
      | Some c \<Rightarrow> validateAdvancedCustomConfig parse_url config = None
                  \<and> list_ex (\<lambda>r. route_path r = ADVANCED_CUSTOM_MODEL_LIST_PATH) (normalizeAdvancedCustomConfig c))"

definition advancedCustomConfigUsesRelativeUpstreamPath :: "custom_config option \<Rightarrow> bool" where
  "advancedCustomConfigUsesRelativeUpstreamPath config \<longleftrightarrow>
     (case config of
        None \<Rightarrow> False
      | Some c \<Rightarrow> list_ex (\<lambda>r. js_starts_with (js ''/'') (getAdvancedCustomRouteUpstreamPath r)) (normalizeAdvancedCustomConfig c))"

subsection \<open>What the validation accepts\<close>

definition route_models :: "custom_route \<Rightarrow> jsstring list" where
  "route_models r = normalizeAdvancedCustomRouteModels (cr_models r)"

definition route_converter :: "custom_route \<Rightarrow> jsstring" where
  "route_converter r = text_or (cr_converter r) none"

text \<open>A route by itself.\<close>

definition target_ok :: "url_parser \<Rightarrow> custom_route \<Rightarrow> bool" where
  "target_ok parse_url r \<longleftrightarrow>
     getAdvancedCustomRouteUpstreamPath r \<noteq> [] \<and> isFullHttpURLOrAbsolutePath parse_url (getAdvancedCustomRouteUpstreamPath r)
     \<and> route_converter r \<in> set converters \<and> isConverterPathAllowed (route_path r) (route_converter r)
     \<and> (cr_pass_through r = Some True \<longrightarrow> route_converter r = none) \<and> validateRouteAuth (cr_auth r) = None"

definition management_ok :: "custom_route \<Rightarrow> bool" where
  "management_ok r \<longleftrightarrow>
     route_models r = [] \<and> route_converter r = none \<and> \<not> js_includes (js ''{model}'') (getAdvancedCustomRouteUpstreamPath r)
     \<and> cr_pass_through r \<noteq> Some True"

definition route_ok :: "url_parser \<Rightarrow> custom_route \<Rightarrow> bool" where
  "route_ok parse_url r \<longleftrightarrow>
     route_path r \<noteq> [] \<and> js_starts_with (js ''/'') (route_path r) \<and> \<not> js_includes (js ''?'') (route_path r)
     \<and> (management_route r \<longrightarrow> management_ok r)
     \<and> distinct (route_models r) \<and> list_all (\<lambda>m. \<not> is_empty_regex m) (route_models r) \<and> target_ok parse_url r"

text \<open>An earlier and a later route: on the same path the earlier one must leave something to the later one.\<close>

definition routes_compatible :: "custom_route \<Rightarrow> custom_route \<Rightarrow> bool" where
  "routes_compatible r r' \<longleftrightarrow>
     (route_path r = route_path r' \<longrightarrow> route_models r \<noteq> [] \<and> set (route_models r) \<inter> set (route_models r') = {})"

definition path_entry :: "validation_state \<Rightarrow> jsstring \<Rightarrow> nat option \<times> (jsstring \<rightharpoonup> nat)" where
  "path_entry st p = (case vs_paths st p of Some e \<Rightarrow> e | None \<Rightarrow> (None, Map.empty))"

definition describes :: "custom_route list \<Rightarrow> validation_state \<Rightarrow> bool" where
  "describes rs st \<longleftrightarrow>
     (\<forall>p. (fst (path_entry st p) \<noteq> None \<longleftrightarrow> (\<exists>r \<in> set rs. route_path r = p \<and> route_models r = []))
        \<and> dom (snd (path_entry st p)) = (\<Union>r \<in> {r \<in> set rs. route_path r = p}. set (route_models r)))
     \<and> (vs_model_list st \<noteq> None \<longleftrightarrow> (\<exists>r \<in> set rs. route_path r = ADVANCED_CUSTOM_MODEL_LIST_PATH))
     \<and> (vs_balance st \<noteq> None \<longleftrightarrow> (\<exists>r \<in> set rs. route_path r = ADVANCED_CUSTOM_BALANCE_PATH))"

lemma check_models_Inr:
  "(\<exists>M'. check_models i ms seen M = Inr M') \<longleftrightarrow>
     list_all (\<lambda>m. \<not> is_empty_regex m) ms \<and> distinct ms \<and> set ms \<inter> set seen = {} \<and> set ms \<inter> dom M = {}"
  "check_models i ms seen M = Inr M' \<Longrightarrow> dom M' = dom M \<union> set ms"
  by (induction ms arbitrary: seen M) (auto split: if_splits)

lemma rbind_Inr_iff: "(\<exists>y. rbind x f = Inr y) \<longleftrightarrow> (\<exists>z. x = Inr z \<and> (\<exists>y. f z = Inr y))"
  by (cases x) (auto simp: rbind_def)

lemma check_target_Inr: "check_target parse_url i r st = (if target_ok parse_url r then Inr st else check_target parse_url i r st)"
  "(\<exists>st'. check_target parse_url i r st = Inr st') \<longleftrightarrow> target_ok parse_url r"
  by (auto simp: check_target_def target_ok_def route_converter_def isAdvancedCustomPassThroughAllowed_def Let_def
      split: option.split)

lemma check_management_Inr:
  assumes d: "describes rs st" and m: "management_route r"
  shows "(\<exists>st'. check_management i r st = Inr st') \<longleftrightarrow> management_ok r \<and> (\<forall>r' \<in> set rs. route_path r' \<noteq> route_path r)"
    and "check_management i r st = Inr st' \<Longrightarrow> vs_paths st' = vs_paths st
      \<and> (vs_model_list st' \<noteq> None \<longleftrightarrow> vs_model_list st \<noteq> None \<or> route_path r = ADVANCED_CUSTOM_MODEL_LIST_PATH)
      \<and> (vs_balance st' \<noteq> None \<longleftrightarrow> vs_balance st \<noteq> None \<or> route_path r = ADVANCED_CUSTOM_BALANCE_PATH)"
proof -
  have ne: "ADVANCED_CUSTOM_MODEL_LIST_PATH \<noteq> ADVANCED_CUSTOM_BALANCE_PATH"
    by (simp add: ADVANCED_CUSTOM_MODEL_LIST_PATH_def ADVANCED_CUSTOM_BALANCE_PATH_def)
  have seen: "(if route_path r = ADVANCED_CUSTOM_MODEL_LIST_PATH then vs_model_list st else vs_balance st) \<noteq> None
      \<longleftrightarrow> (\<exists>r' \<in> set rs. route_path r' = route_path r)"
    using d m ne by (auto simp: describes_def management_route_def isAdvancedCustomManagementPath_def)
  have "(\<exists>st'. check_management i r st = Inr st') \<longleftrightarrow>
      management_ok r \<and> (if route_path r = ADVANCED_CUSTOM_MODEL_LIST_PATH then vs_model_list st else vs_balance st) = None"
    by (auto simp: check_management_def management_ok_def route_models_def route_converter_def Let_def)
  then show "(\<exists>st'. check_management i r st = Inr st') \<longleftrightarrow> management_ok r \<and> (\<forall>r' \<in> set rs. route_path r' \<noteq> route_path r)"
    using seen by auto
  show "check_management i r st = Inr st' \<Longrightarrow> vs_paths st' = vs_paths st
      \<and> (vs_model_list st' \<noteq> None \<longleftrightarrow> vs_model_list st \<noteq> None \<or> route_path r = ADVANCED_CUSTOM_MODEL_LIST_PATH)
      \<and> (vs_balance st' \<noteq> None \<longleftrightarrow> vs_balance st \<noteq> None \<or> route_path r = ADVANCED_CUSTOM_BALANCE_PATH)"
    using m ne by (auto simp: check_management_def management_route_def isAdvancedCustomManagementPath_def Let_def split: if_splits)
qed

lemma check_route_models_Inr:
  "(\<exists>st'. validateAdvancedCustomRouteModels i p ms st = Inr st') \<longleftrightarrow>
     fst (path_entry st p) = None \<and> distinct ms \<and> list_all (\<lambda>m. \<not> is_empty_regex m) ms \<and> set ms \<inter> dom (snd (path_entry st p)) = {}"
  "validateAdvancedCustomRouteModels i p ms st = Inr st' \<Longrightarrow>
     vs_model_list st' = vs_model_list st \<and> vs_balance st' = vs_balance st
     \<and> (\<forall>q. q \<noteq> p \<longrightarrow> path_entry st' q = path_entry st q)
     \<and> (fst (path_entry st' p) \<noteq> None \<longleftrightarrow> ms = []) \<and> dom (snd (path_entry st' p)) = dom (snd (path_entry st p)) \<union> set ms"
proof -
  have "(\<exists>st'. validateAdvancedCustomRouteModels i p ms st = Inr st') \<longleftrightarrow>
      fst (path_entry st p) = None \<and> (ms = [] \<or> (\<exists>M. check_models i ms [] (snd (path_entry st p)) = Inr M))"
    by (auto simp: validateAdvancedCustomRouteModels_def path_entry_def [symmetric] Let_def rbind_def split: sum.split)
  then show "(\<exists>st'. validateAdvancedCustomRouteModels i p ms st = Inr st') \<longleftrightarrow>
     fst (path_entry st p) = None \<and> distinct ms \<and> list_all (\<lambda>m. \<not> is_empty_regex m) ms \<and> set ms \<inter> dom (snd (path_entry st p)) = {}"
    unfolding check_models_Inr(1) by auto
  assume a: "validateAdvancedCustomRouteModels i p ms st = Inr st'"
  show "vs_model_list st' = vs_model_list st \<and> vs_balance st' = vs_balance st
     \<and> (\<forall>q. q \<noteq> p \<longrightarrow> path_entry st' q = path_entry st q)
     \<and> (fst (path_entry st' p) \<noteq> None \<longleftrightarrow> ms = []) \<and> dom (snd (path_entry st' p)) = dom (snd (path_entry st p)) \<union> set ms"
  proof (cases "ms = []")
    case True
    then show ?thesis using a
      by (auto simp: validateAdvancedCustomRouteModels_def path_entry_def [symmetric] Let_def split: if_splits) (auto simp: path_entry_def)
  next
    case False
    then obtain M where M: "check_models i ms [] (snd (path_entry st p)) = Inr M" "st' = st\<lparr>vs_paths := (vs_paths st)(p \<mapsto> (None, M))\<rparr>"
      using a by (auto simp: validateAdvancedCustomRouteModels_def path_entry_def [symmetric] Let_def rbind_def split: if_splits sum.splits)
    then show ?thesis using False check_models_Inr(2) [OF M(1)] by (simp add: path_entry_def)
  qed
qed


lemma management_clash:
  assumes "list_all (route_ok parse_url) rs" "management_route r"
  shows "(\<forall>r0 \<in> set rs. routes_compatible r0 r) \<longleftrightarrow> (\<forall>r0 \<in> set rs. route_path r0 \<noteq> route_path r)"
  using assms by (fastforce simp: list_all_iff routes_compatible_def route_ok_def management_route_def management_ok_def)

lemma describes_compatible:
  assumes "describes rs st"
  shows "fst (path_entry st (route_path r)) = None \<and> set (route_models r) \<inter> dom (snd (path_entry st (route_path r))) = {}
    \<longleftrightarrow> (\<forall>r0 \<in> set rs. routes_compatible r0 r)"
proof -
  have c: "fst (path_entry st (route_path r)) = None \<longleftrightarrow> (\<forall>r0 \<in> set rs. route_path r0 = route_path r \<longrightarrow> route_models r0 \<noteq> [])"
    and m: "dom (snd (path_entry st (route_path r))) = (\<Union>r0 \<in> {r0 \<in> set rs. route_path r0 = route_path r}. set (route_models r0))"
    using assms unfolding describes_def by blast+
  show ?thesis unfolding c m routes_compatible_def by blast
qed

lemma check_route_stages:
  "(\<exists>st'. check_route parse_url i r st = Inr st') \<longleftrightarrow>
     route_path r \<noteq> [] \<and> js_starts_with (js ''/'') (route_path r) \<and> \<not> js_includes (js ''?'') (route_path r) \<and> target_ok parse_url r
     \<and> (\<exists>st1. (if management_route r then check_management i r st else Inr st) = Inr st1
             \<and> (\<exists>st2. validateAdvancedCustomRouteModels i (route_path r) (route_models r) st1 = Inr st2))"
  by (auto simp: check_route_def Let_def rbind_Inr_iff check_target_Inr(2) management_route_def route_models_def)

lemma check_route_result:
  assumes "check_route parse_url i r st = Inr st'"
  shows "\<exists>st1. (if management_route r then check_management i r st else Inr st) = Inr st1
             \<and> validateAdvancedCustomRouteModels i (route_path r) (route_models r) st1 = Inr st'"
proof -
  obtain st1 st2 where s: "(if management_route r then check_management i r st else Inr st) = Inr st1"
      "validateAdvancedCustomRouteModels i (route_path r) (route_models r) st1 = Inr st2" "target_ok parse_url r"
    using check_route_stages assms by metis
  have "check_target parse_url i r st2 = Inr st2"
    using s(3) check_target_Inr(1) [of parse_url i r st2] check_target_Inr(2) [of parse_url i r st2]
    by (auto simp: check_target_def target_ok_def route_converter_def isAdvancedCustomPassThroughAllowed_def Let_def)
  then have "st2 = st'"
    using assms s by (auto simp: check_route_def Let_def rbind_def management_route_def route_models_def split: if_splits)
  then show ?thesis using s by blast
qed

lemma management_step:
  assumes d: "describes rs st" and m: "(if management_route r then check_management i r st else Inr st) = Inr st1"
  shows "path_entry st1 = path_entry st"
    and "vs_model_list st1 \<noteq> None \<longleftrightarrow> vs_model_list st \<noteq> None \<or> route_path r = ADVANCED_CUSTOM_MODEL_LIST_PATH"
    and "vs_balance st1 \<noteq> None \<longleftrightarrow> vs_balance st \<noteq> None \<or> route_path r = ADVANCED_CUSTOM_BALANCE_PATH"
proof -
  have "vs_paths st1 = vs_paths st \<and> (vs_model_list st1 \<noteq> None \<longleftrightarrow> vs_model_list st \<noteq> None \<or> route_path r = ADVANCED_CUSTOM_MODEL_LIST_PATH)
     \<and> (vs_balance st1 \<noteq> None \<longleftrightarrow> vs_balance st \<noteq> None \<or> route_path r = ADVANCED_CUSTOM_BALANCE_PATH)"
  proof (cases "management_route r")
    case True
    then show ?thesis using check_management_Inr(2) [OF d True] m by simp
  next
    case False
    then show ?thesis using m by (auto simp: management_route_def isAdvancedCustomManagementPath_def)
  qed
  then show "path_entry st1 = path_entry st"
    and "vs_model_list st1 \<noteq> None \<longleftrightarrow> vs_model_list st \<noteq> None \<or> route_path r = ADVANCED_CUSTOM_MODEL_LIST_PATH"
    and "vs_balance st1 \<noteq> None \<longleftrightarrow> vs_balance st \<noteq> None \<or> route_path r = ADVANCED_CUSTOM_BALANCE_PATH"
    by (auto simp: path_entry_def fun_eq_iff)
qed

lemma check_route_accepts:
  assumes d: "describes rs st" and ok: "list_all (route_ok parse_url) rs"
  shows "(\<exists>st'. check_route parse_url i r st = Inr st') \<longleftrightarrow> route_ok parse_url r \<and> (\<forall>r0 \<in> set rs. routes_compatible r0 r)"
proof -
  have models: "(\<exists>st2. validateAdvancedCustomRouteModels i (route_path r) (route_models r) st1 = Inr st2)
      \<longleftrightarrow> distinct (route_models r) \<and> list_all (\<lambda>m. \<not> is_empty_regex m) (route_models r) \<and> (\<forall>r0 \<in> set rs. routes_compatible r0 r)"
    if "(if management_route r then check_management i r st else Inr st) = Inr st1" for st1
    unfolding check_route_models_Inr(1) management_step(1) [OF d that] describes_compatible [OF d, symmetric] by blast
  have mgmt: "(\<exists>st1. (if management_route r then check_management i r st else Inr st) = Inr st1)
      \<longleftrightarrow> (management_route r \<longrightarrow> management_ok r \<and> (\<forall>r0 \<in> set rs. routes_compatible r0 r))"
    using check_management_Inr(1) [OF d] management_clash [OF ok] by simp
  show ?thesis unfolding check_route_stages route_ok_def using models mgmt by blast
qed

lemma check_route_describes:
  assumes d: "describes rs st" and c: "check_route parse_url i r st = Inr st'"
    and new: "\<forall>r0 \<in> set rs. routes_compatible r0 r"
  shows "describes (rs @ [r]) st'"
proof -
  obtain st1 where m: "(if management_route r then check_management i r st else Inr st) = Inr st1"
    and v: "validateAdvancedCustomRouteModels i (route_path r) (route_models r) st1 = Inr st'"
    using check_route_result [OF c] by blast
  note ms = management_step [OF d m] and vs = check_route_models_Inr(2) [OF v]
  have here: "(fst (path_entry st' (route_path r)) \<noteq> None \<longleftrightarrow> route_models r = [])"
    "dom (snd (path_entry st' (route_path r))) = dom (snd (path_entry st (route_path r))) \<union> set (route_models r)"
    using vs ms(1) by auto
  have other: "path_entry st' p = path_entry st p" if "p \<noteq> route_path r" for p
    using vs ms(1) that by auto
  have none: "\<not> (\<exists>r0 \<in> set rs. route_path r0 = route_path r \<and> route_models r0 = [])"
    using new unfolding routes_compatible_def by auto
  have "(fst (path_entry st' p) \<noteq> None \<longleftrightarrow> (\<exists>r0 \<in> set (rs @ [r]). route_path r0 = p \<and> route_models r0 = []))
      \<and> dom (snd (path_entry st' p)) = (\<Union>r0 \<in> {r0 \<in> set (rs @ [r]). route_path r0 = p}. set (route_models r0))" for p
  proof (cases "p = route_path r")
    case True
    have "dom (snd (path_entry st p)) = (\<Union>r0 \<in> {r0 \<in> set rs. route_path r0 = p}. set (route_models r0))"
      using d unfolding describes_def by blast
    then show ?thesis using True here none by auto
  next
    case False
    have "{r0 \<in> set (rs @ [r]). route_path r0 = p} = {r0 \<in> set rs. route_path r0 = p}" using False by auto
    then show ?thesis using d False unfolding describes_def other [OF False] by auto
  qed
  then show ?thesis using d vs ms(2,3) unfolding describes_def by (simp; blast)
qed

lemma check_routes_exact:
  assumes "describes rs st" "list_all (route_ok parse_url) rs" "sorted_wrt routes_compatible rs"
  shows "check_routes parse_url i rest st = None \<longleftrightarrow>
    list_all (route_ok parse_url) (rs @ rest) \<and> sorted_wrt routes_compatible (rs @ rest)"
  using assms
proof (induction rest arbitrary: i rs st)
  case Nil
  then show ?case by simp
next
  case (Cons r rest)
  note acc = check_route_accepts [OF Cons.prems(1,2), of i r]
  show ?case
  proof (cases "\<exists>st'. check_route parse_url i r st = Inr st'")
    case True
    then obtain st' where st': "check_route parse_url i r st = Inr st'" by blast
    have ok: "route_ok parse_url r" "\<forall>r0 \<in> set rs. routes_compatible r0 r" using True acc by blast+
    have "describes (rs @ [r]) st'" by (rule check_route_describes [OF Cons.prems(1) st' ok(2)])
    then show ?thesis using Cons.IH [of "rs @ [r]" st' "i + 1"] st' ok Cons.prems
      by (simp add: sorted_wrt_append)
  next
    case False
    then obtain e where "check_route parse_url i r st = Inl e" by (cases "check_route parse_url i r st") auto
    moreover have "\<not> (route_ok parse_url r \<and> (\<forall>r0 \<in> set rs. routes_compatible r0 r))" using False acc by blast
    ultimately show ?thesis by (auto simp: sorted_wrt_append)
  qed
qed

text \<open>
  C35: The validation of a channel's custom routes accepts a configuration exactly if it is there, has a route,
  every normalised route is well formed by itself (an incoming path that starts with a slash and has no query,
  model rules without duplicates and empty patterns, an upstream target that is an absolute path or an http URL,
  a registered converter that fits the path, pass-through only for native forwarding, complete authentication, and for
  the model-list and balance routes no rules, no converter, no placeholder and no pass-through), and, of any two routes
  on the same path, the earlier one is not a catch-all and shares no model rule with the later one.
\<close>

theorem route_validation_exact:
  "validateAdvancedCustomConfig parse_url config = None \<longleftrightarrow>
     (case config of None \<Rightarrow> False
      | Some c \<Rightarrow> normalizeAdvancedCustomConfig c \<noteq> [] \<and> list_all (route_ok parse_url) (normalizeAdvancedCustomConfig c)
                 \<and> sorted_wrt routes_compatible (normalizeAdvancedCustomConfig c))"
proof -
  have "describes [] empty_validation" by (simp add: describes_def empty_validation_def path_entry_def)
  from check_routes_exact [OF this] show ?thesis
    by (simp add: validateAdvancedCustomConfig_def Let_def split: option.split)
qed


subsection \<open>Editing\<close>

lemma text_or_text_or [simp]: "text_or (Some (text_or s d)) d = text_or s d"
  by (simp add: text_or_def split: option.split)

lemma route_path_normalize [simp]: "route_path (normalizeAdvancedCustomRoute r) = route_path r"
  by (simp add: route_path_def normalizeAdvancedCustomRoute_def text_or_def Let_def js_trim_no_space split: option.split)

lemma normalize_models_idem: "normalizeAdvancedCustomRouteModels (Some (normalizeAdvancedCustomRouteModels ms)) = normalizeAdvancedCustomRouteModels ms"
proof -
  have "nonempty_texts (map js_trim (nonempty_texts (map js_trim xs))) = nonempty_texts (map js_trim xs)" for xs
    by (induction xs) auto
  then show ?thesis by (cases ms) (simp_all add: normalizeAdvancedCustomRouteModels_def)
qed

lemma normalizeAdvancedCustomRoute_idem [simp]:
  "normalizeAdvancedCustomRoute (normalizeAdvancedCustomRoute r) = normalizeAdvancedCustomRoute r"
proof -
  have none: "none \<noteq> []" by (simp add: none_def)
  have "text_or (Some (text_or c none)) none = text_or c none" for c by simp
  moreover have "text_or (Some t) [] = t" for t by (simp add: text_or_def)
  ultimately show ?thesis
    using normalize_models_idem [of "cr_models r"]
    by (cases "cr_auth r") (simp_all add: normalizeAdvancedCustomRoute_def getAdvancedCustomRouteUpstreamPath_def Let_def
        normalizeAdvancedCustomRouteModels_def)
qed

lemma normalizeAdvancedCustomConfig_idem:
  "normalizeAdvancedCustomConfig (Some (normalizeAdvancedCustomConfig c)) = normalizeAdvancedCustomConfig c"
  by (cases c) (simp_all add: normalizeAdvancedCustomConfig_def)


lemma find_update_first: "P y \<Longrightarrow> find P (update_first P y xs) = Some y"
  by (induction xs) auto

lemma filter_update_first: "P y \<Longrightarrow> filter (\<lambda>x. \<not> P x) (update_first P y xs) = filter (\<lambda>x. \<not> P x) xs"
  by (induction xs) auto

lemma filter_remove_first: "filter (\<lambda>x. \<not> P x) (remove_first P xs) = filter (\<lambda>x. \<not> P x) xs"
  by (induction xs) auto

lemma map_update_first: "(\<And>x. P (f x) = P x) \<Longrightarrow> map f (update_first P y xs) = update_first P (f y) (map f xs)"
  by (induction xs) auto

lemma map_remove_first: "(\<And>x. P (f x) = P x) \<Longrightarrow> map f (remove_first P xs) = remove_first P (map f xs)"
  by (induction xs) auto

lemma map_normalize_normalized [simp]:
  "map normalizeAdvancedCustomRoute (normalizeAdvancedCustomConfig c) = normalizeAdvancedCustomConfig c"
  by (cases c) (simp_all add: normalizeAdvancedCustomConfig_def)

text \<open>A management route that is written is read back, and the routes on other paths stay as they were.\<close>

theorem management_route_written:
  assumes "js_trim path = path"
  shows "getAdvancedCustomManagementRoute (replaceAdvancedCustomManagementRoute c path (Some r)) path
      = Some (normalizeAdvancedCustomRoute
                \<lparr>cr_incoming_path = Some path, cr_upstream_path = cr_upstream_path r, cr_converter = Some none, cr_models = None,
                 cr_auth = cr_auth r, cr_pass_through = None\<rparr>)"
    and "filter (\<lambda>r. route_path r \<noteq> path) (normalizeAdvancedCustomConfig (replaceAdvancedCustomManagementRoute c path route))
      = filter (\<lambda>r. route_path r \<noteq> path) (normalizeAdvancedCustomConfig c)"
proof -
  let ?P = "\<lambda>r. route_path r = path"
  let ?m = "\<lambda>r. \<lparr>cr_incoming_path = Some path, cr_upstream_path = Some (text_or (cr_upstream_path r) []), cr_converter = Some none,
                  cr_models = Some [], cr_auth = cr_auth r, cr_pass_through = None\<rparr>"
  have P: "?P (normalizeAdvancedCustomRoute (?m r))" for r
    unfolding route_path_normalize using assms by (simp add: route_path_def)
  have upd: "normalizeAdvancedCustomConfig (replaceAdvancedCustomManagementRoute c path (Some r))
      = update_first ?P (normalizeAdvancedCustomRoute (?m r)) (normalizeAdvancedCustomConfig c)" for r
    by (simp add: replaceAdvancedCustomManagementRoute_def normalizeAdvancedCustomConfig_def [of "Some _"] map_update_first)
  have rem: "normalizeAdvancedCustomConfig (replaceAdvancedCustomManagementRoute c path None)
      = remove_first ?P (normalizeAdvancedCustomConfig c)"
    by (simp add: replaceAdvancedCustomManagementRoute_def normalizeAdvancedCustomConfig_def [of "Some _"] map_remove_first)
  have "normalizeAdvancedCustomRoute (?m r) = normalizeAdvancedCustomRoute
      \<lparr>cr_incoming_path = Some path, cr_upstream_path = cr_upstream_path r, cr_converter = Some none, cr_models = None,
       cr_auth = cr_auth r, cr_pass_through = None\<rparr>"
    by (simp add: normalizeAdvancedCustomRoute_def normalizeAdvancedCustomRouteModels_def getAdvancedCustomRouteUpstreamPath_def)
  then show "getAdvancedCustomManagementRoute (replaceAdvancedCustomManagementRoute c path (Some r)) path
      = Some (normalizeAdvancedCustomRoute
                \<lparr>cr_incoming_path = Some path, cr_upstream_path = cr_upstream_path r, cr_converter = Some none, cr_models = None,
                 cr_auth = cr_auth r, cr_pass_through = None\<rparr>)"
    unfolding getAdvancedCustomManagementRoute_def upd using find_update_first [of ?P, OF P [of r]] by metis
  show "filter (\<lambda>r. route_path r \<noteq> path) (normalizeAdvancedCustomConfig (replaceAdvancedCustomManagementRoute c path route))
      = filter (\<lambda>r. route_path r \<noteq> path) (normalizeAdvancedCustomConfig c)"
    using filter_update_first [of ?P, OF P] filter_remove_first [of ?P]
    by (cases route) (simp_all add: upd rem)
qed

text \<open>Replacing the forwarding routes keeps the management routes and installs exactly the given routes.\<close>

theorem forwarding_routes_replaced:
  assumes "list_all (\<lambda>r. \<not> management_route r) fs"
  shows "\<exists>rs. replaceAdvancedCustomForwardingRoutes c fs = Some rs \<and> filter (\<lambda>r. \<not> management_route r) rs = fs
    \<and> filter management_route rs = filter management_route (normalizeAdvancedCustomConfig c)"
proof -
  let ?rs = "normalizeAdvancedCustomConfig c" and ?k = "length (takeWhile management_route (normalizeAdvancedCustomConfig c))"
  have "filter management_route ?rs = filter management_route (take ?k ?rs) @ filter management_route (drop ?k ?rs)"
    by (metis append_take_drop_id filter_append)
  then show ?thesis using assms
    by (auto simp: replaceAdvancedCustomForwardingRoutes_def Let_def list_all_iff filter_empty_conv)
qed

text \<open>Every template is valid, whatever the URL parser does.\<close>

lemma native_routes_valid:
  "list_all (route_ok parse_url) (map normalizeAdvancedCustomRoute
     (createOpenAINativeRoutes @ createClaudeNativeRoutes @ createGeminiNativeRoutes @ createGatewayNativeRoutes))"
  by code_simp


lemma native_routes_compatible:
  "sorted_wrt routes_compatible (map normalizeAdvancedCustomRoute
     (createOpenAINativeRoutes @ createClaudeNativeRoutes @ createGeminiNativeRoutes @ createGatewayNativeRoutes))"
  by code_simp

theorem templates_valid: "validateAdvancedCustomConfig parse_url (Some (getAdvancedCustomTemplateConfig key)) = None"
proof -
  let ?all = "map normalizeAdvancedCustomRoute
     (createOpenAINativeRoutes @ createClaudeNativeRoutes @ createGeminiNativeRoutes @ createGatewayNativeRoutes)"
  have ne: "createOpenAINativeRoutes \<noteq> []" "createClaudeNativeRoutes \<noteq> []" "createGeminiNativeRoutes \<noteq> []"
    by (simp_all add: createOpenAINativeRoutes_def createClaudeNativeRoutes_def createGeminiNativeRoutes_def)
  obtain d where d: "describes [] d" "d = empty_validation" by (simp add: describes_def empty_validation_def path_entry_def)
  have part: "check_routes parse_url 0 (map normalizeAdvancedCustomRoute rs) empty_validation = None"
    if "map normalizeAdvancedCustomRoute (pre @ rs @ post) = ?all" for pre rs post
  proof -
    have "list_all (route_ok parse_url) (map normalizeAdvancedCustomRoute (pre @ rs @ post))"
        "sorted_wrt routes_compatible (map normalizeAdvancedCustomRoute (pre @ rs @ post))"
      unfolding that by (rule native_routes_valid, rule native_routes_compatible)
    then show ?thesis using check_routes_exact [of "[]" empty_validation parse_url 0] d by (simp add: sorted_wrt_append)
  qed
  have "\<exists>rs. getAdvancedCustomTemplateConfig key = Some rs \<and> rs \<noteq> []
      \<and> check_routes parse_url 0 (map normalizeAdvancedCustomRoute rs) empty_validation = None"
    using ne part [of "[]" "createOpenAINativeRoutes @ createClaudeNativeRoutes @ createGeminiNativeRoutes @ createGatewayNativeRoutes" "[]"]
      part [of "[]" createOpenAINativeRoutes "createClaudeNativeRoutes @ createGeminiNativeRoutes @ createGatewayNativeRoutes"]
      part [of createOpenAINativeRoutes createClaudeNativeRoutes "createGeminiNativeRoutes @ createGatewayNativeRoutes"]
      part [of "createOpenAINativeRoutes @ createClaudeNativeRoutes" createGeminiNativeRoutes createGatewayNativeRoutes]
    by (simp add: getAdvancedCustomTemplateConfig_def ADVANCED_CUSTOM_TEMPLATE_OPTIONS_def)
  then show ?thesis by (auto simp: validateAdvancedCustomConfig_def normalizeAdvancedCustomConfig_def)
qed

end
