(* ===== verification/Stream_Controller.thy ===== *)
theory Stream_Controller
  imports Js_Json
begin

section \<open>The stream of a chat answer\<close>

text \<open>
  \<open>features/playground/hooks/use-stream-request.ts\<close> (\<open>createStreamRequestController\<close>) and
  \<open>features/playground/lib/streaming/stream-utils.ts\<close>. A controller holds at most one event source and
  counts requests; \<open>send\<close> waits for headers, and its listeners outlive it. The controller is a step
  relation: a step is a call of the page (send, stop, dispose) or one answer of the environment to a
  request (headers, a message, an error, a change of the connection state), in any order. Handlers
  run to completion, and callbacks do not call the controller back. The effects are the log.
\<close>

subsection \<open>Messages of the stream\<close>

datatype update_kind = Reasoning | Content

type_synonym stream_update = "update_kind \<times> jsval"

definition API_REQUEST_ERROR :: jsstring where
  "API_REQUEST_ERROR = js ''Request error occurred''"

definition PARSE_ERROR :: jsstring where
  "PARSE_ERROR = js ''Error parsing response data''"

definition STREAM_START_ERROR :: jsstring where
  "STREAM_START_ERROR = js ''Error establishing connection''"

definition CONNECTION_CLOSED :: jsstring where
  "CONNECTION_CLOSED = js ''Connection closed''"

text \<open>\<open>v?.[0]\<close>\<close>

fun first_element :: "jsval \<Rightarrow> jsval" where
  "first_element (VArr (v # _)) = v"
| "first_element (VObj ps) = js_get (VObj ps) (js ''0'')"
| "first_element (VStr (c # _)) = VStr [c]"
| "first_element _ = VUndefined"

definition truthy_update :: "update_kind \<Rightarrow> jsval \<Rightarrow> stream_update list" where
  "truthy_update kind v = (if js_truthy v then [(kind, v)] else [])"

text \<open>\<open>None\<close> when it throws: the data is no JSON, or is null.\<close>

definition parseStreamMessageUpdates :: "jsstring \<Rightarrow> stream_update list option" where
  "parseStreamMessageUpdates data =
     (case json_parse data of
        None \<Rightarrow> None
      | Some chunk \<Rightarrow>
          if is_nullish chunk then None
          else (let delta = js_get (first_element (js_get chunk (js ''choices''))) (js ''delta'') in
                Some (if \<not> js_truthy delta then []
                      else truthy_update Reasoning (js_get delta (js ''reasoning_content''))
                             @ truthy_update Content (js_get delta (js ''content'')))))"

definition isStreamDoneMessage :: "jsstring \<Rightarrow> bool" where
  "isStreamDoneMessage data \<longleftrightarrow> data = js ''[DONE]''"

definition isStreamClosedReadyState :: "nat option \<Rightarrow> bool" where
  "isStreamClosedReadyState ready \<longleftrightarrow> ready = Some 2"

definition getStreamReadyStateError :: "nat option \<Rightarrow> nat option \<Rightarrow> jsstring option" where
  "getStreamReadyStateError ready status =
     (case (ready, status) of
        (Some r, Some s) \<Rightarrow>
          if 2 \<le> r \<and> s \<noteq> 200 then Some (js ''HTTP '' @ int_text (int s) @ js '': '' @ CONNECTION_CLOSED) else None
      | _ \<Rightarrow> None)"

text \<open>The message and the code of a failed stream. Both are passed on as the server sent them.\<close>

definition or_value :: "jsval \<Rightarrow> jsval \<Rightarrow> jsval" where
  "or_value a b = (if js_truthy a then a else b)"

definition parseStreamErrorDetails :: "jsstring option \<Rightarrow> jsval \<times> jsval" where
  "parseStreamErrorDetails data =
     (let d = (case data of Some s \<Rightarrow> s | None \<Rightarrow> []);
          fallback = VStr (if d = [] then API_REQUEST_ERROR else d) in
      if d = [] then (VUndefined, fallback)
      else (case json_parse d of
              None \<Rightarrow> (VUndefined, fallback)
            | Some parsed \<Rightarrow>
                let err = js_get parsed (js ''error'') in
                if \<not> js_truthy err then (VUndefined, fallback)
                else (or_value (js_get err (js ''code'')) VUndefined, or_value (js_get err (js ''message'')) fallback)))"

subsection \<open>The controller\<close>

text \<open>A request, and the source it creates, are named by the generation of the request.\<close>

datatype stream_effect =
    Streaming bool
  | Created nat
  | Started nat
  | Closed nat
  | On_update nat stream_update
  | On_complete nat
  | On_error nat jsval jsval

record controller =
  sc_source :: "nat option"
  sc_generation :: nat
  sc_waiting :: "nat list"
  sc_created :: "nat list"
  sc_completed :: "nat list"
  sc_log :: "stream_effect list"

definition new_controller :: controller where
  "new_controller = \<lparr>sc_source = None, sc_generation = 0, sc_waiting = [], sc_created = [], sc_completed = [], sc_log = []\<rparr>"

definition emit :: "stream_effect list \<Rightarrow> controller \<Rightarrow> controller" where
  "emit es s = s\<lparr>sc_log := sc_log s @ es\<rparr>"

definition close_previous :: "controller \<Rightarrow> stream_effect list" where
  "close_previous s = (case sc_source s of Some g \<Rightarrow> [Closed g] | None \<Rightarrow> [])"

definition closeActiveSource :: "nat \<Rightarrow> controller \<Rightarrow> controller" where
  "closeActiveSource g s =
     (if sc_source s = Some g then emit [Closed g, Streaming False] (s\<lparr>sc_source := None\<rparr>) else emit [Closed g] s)"

definition isCurrent :: "nat \<Rightarrow> controller \<Rightarrow> bool" where
  "isCurrent g s \<longleftrightarrow> sc_generation s = g \<and> sc_source s = Some g"

definition listening :: "nat \<Rightarrow> controller \<Rightarrow> bool" where
  "listening g s \<longleftrightarrow> isCurrent g s \<and> g \<notin> set (sc_completed s)"

definition handleError :: "nat \<Rightarrow> jsval \<Rightarrow> jsval \<Rightarrow> controller \<Rightarrow> controller" where
  "handleError g message code s =
     (if \<not> listening g s then s
      else closeActiveSource g (emit [On_error g message code] (s\<lparr>sc_completed := g # sc_completed s\<rparr>)))"

text \<open>\<open>send\<close> up to the request for headers.\<close>

definition send_request :: "controller \<Rightarrow> controller" where
  "send_request s =
     (let g = sc_generation s + 1 in
      emit (close_previous s @ [Streaming False])
        (s\<lparr>sc_generation := g, sc_source := None, sc_waiting := g # sc_waiting s\<rparr>))"

text \<open>\<open>send\<close> after the headers were refused, with the message of the error.\<close>

definition headers_refused :: "nat \<Rightarrow> jsstring option \<Rightarrow> controller \<Rightarrow> controller" where
  "headers_refused g message s =
     (let s' = s\<lparr>sc_waiting := removeAll g (sc_waiting s)\<rparr> in
      if sc_generation s \<noteq> g then s'
      else emit [On_error g (VStr (case message of Some m \<Rightarrow> m | None \<Rightarrow> STREAM_START_ERROR)) VUndefined] s')"

text \<open>\<open>send\<close> after the headers arrived; \<open>throws\<close> tells whether starting the source throws.\<close>

definition headers_ready :: "nat \<Rightarrow> bool \<Rightarrow> controller \<Rightarrow> controller" where
  "headers_ready g throws s =
     (let s' = s\<lparr>sc_waiting := removeAll g (sc_waiting s)\<rparr> in
      if sc_generation s \<noteq> g then s'
      else (let opened = emit [Created g, Streaming True] (s'\<lparr>sc_source := Some g, sc_created := g # sc_created s\<rparr>) in
            if \<not> isCurrent g opened then opened
            else if throws then handleError g (VStr STREAM_START_ERROR) VUndefined (emit [Started g] opened)
            else emit [Started g] opened))"

definition on_message :: "nat \<Rightarrow> jsstring option \<Rightarrow> controller \<Rightarrow> controller" where
  "on_message g data s =
     (if \<not> listening g s then s
      else (let d = (case data of Some d \<Rightarrow> d | None \<Rightarrow> []) in
            if isStreamDoneMessage d
            then emit [On_complete g] (closeActiveSource g (s\<lparr>sc_completed := g # sc_completed s\<rparr>))
            else (case parseStreamMessageUpdates d of
                    Some updates \<Rightarrow> emit (map (On_update g) updates) s
                  | None \<Rightarrow> handleError g (VStr PARSE_ERROR) VUndefined s)))"

definition on_error_event :: "nat \<Rightarrow> nat option \<Rightarrow> jsstring option \<Rightarrow> controller \<Rightarrow> controller" where
  "on_error_event g ready data s =
     (if \<not> listening g s then s
      else if isStreamClosedReadyState ready then s
      else (case parseStreamErrorDetails data of (code, message) \<Rightarrow> handleError g message code s))"

definition on_ready_state :: "nat \<Rightarrow> nat option \<Rightarrow> nat option \<Rightarrow> controller \<Rightarrow> controller" where
  "on_ready_state g ready status s =
     (if \<not> listening g s then s
      else (case getStreamReadyStateError ready status of
              Some message \<Rightarrow> handleError g (VStr message) VUndefined s
            | None \<Rightarrow> s))"

definition cancel :: "bool \<Rightarrow> controller \<Rightarrow> controller" where
  "cancel notify s =
     emit (close_previous s @ (if notify then [Streaming False] else []))
       (s\<lparr>sc_generation := sc_generation s + 1, sc_source := None\<rparr>)"

subsection \<open>Steps\<close>

datatype stream_event =
    Send
  | Cancel bool
  | Refused nat "jsstring option"
  | Granted nat bool
  | Message nat "jsstring option"
  | Failure nat "nat option" "jsstring option"
  | Ready_state nat "nat option" "nat option"

inductive stream_step :: "controller \<Rightarrow> stream_event \<Rightarrow> controller \<Rightarrow> bool" where
  Send: "stream_step s Send (send_request s)"
| Cancel: "stream_step s (Cancel notify) (cancel notify s)"
| Refused: "g \<in> set (sc_waiting s) \<Longrightarrow> stream_step s (Refused g message) (headers_refused g message s)"
| Granted: "g \<in> set (sc_waiting s) \<Longrightarrow> stream_step s (Granted g throws) (headers_ready g throws s)"
| Message: "g \<in> set (sc_created s) \<Longrightarrow> stream_step s (Message g data) (on_message g data s)"
| Failure: "g \<in> set (sc_created s) \<Longrightarrow> stream_step s (Failure g ready data) (on_error_event g ready data s)"
| Ready_state: "g \<in> set (sc_created s) \<Longrightarrow>
    stream_step s (Ready_state g ready status) (on_ready_state g ready status s)"

inductive_cases stream_stepE: "stream_step s e s'"

text \<open>A run: what happened since the controller was made.\<close>

inductive stream_run :: "stream_event list \<Rightarrow> controller \<Rightarrow> bool" where
  Fresh: "stream_run [] new_controller"
| Step: "stream_run es s \<Longrightarrow> stream_step s e s' \<Longrightarrow> stream_run (es @ [e]) s'"

subsection \<open>Callbacks of a request\<close>

fun callback_of :: "nat \<Rightarrow> stream_effect \<Rightarrow> bool" where
  "callback_of g (On_update h _) = (g = h)"
| "callback_of g (On_complete h) = (g = h)"
| "callback_of g (On_error h _ _) = (g = h)"
| "callback_of g _ = False"

fun final_callback :: "stream_effect \<Rightarrow> bool" where
  "final_callback (On_complete _) = True"
| "final_callback (On_error _ _ _) = True"
| "final_callback _ = False"

definition callbacks :: "nat \<Rightarrow> controller \<Rightarrow> stream_effect list" where
  "callbacks g s = filter (callback_of g) (sc_log s)"

text \<open>Updates, and then at most one end.\<close>

definition well_behaved :: "stream_effect list \<Rightarrow> bool" where
  "well_behaved es \<longleftrightarrow> list_all (\<lambda>e. \<not> final_callback e) (butlast es)"

definition ended :: "nat \<Rightarrow> controller \<Rightarrow> bool" where
  "ended g s \<longleftrightarrow> list_ex final_callback (callbacks g s)"

text \<open>
  The invariant of a request: its callbacks are well behaved; a request that was not sent yet, or
  waits for headers, has none; a request marked completed has ended; and the open source belongs to
  the newest request, which has not ended.
\<close>

definition request_ok :: "controller \<Rightarrow> nat \<Rightarrow> bool" where
  "request_ok s g \<longleftrightarrow>
     well_behaved (callbacks g s)
     \<and> (sc_generation s < g \<longrightarrow> callbacks g s = [] \<and> g \<notin> set (sc_waiting s) \<and> g \<notin> set (sc_created s))
     \<and> (g \<in> set (sc_waiting s) \<longrightarrow> callbacks g s = [] \<and> g \<notin> set (sc_created s))
     \<and> (g \<in> set (sc_completed s) \<longrightarrow> g \<in> set (sc_created s) \<and> ended g s)
     \<and> (sc_source s = Some g \<longrightarrow> g = sc_generation s \<and> g \<in> set (sc_created s) \<and> \<not> ended g s)"

definition controller_ok :: "controller \<Rightarrow> bool" where
  "controller_ok s \<longleftrightarrow> (\<forall>g. request_ok s g)"

subsection \<open>The invariant holds\<close>

lemma callbacks_emit [simp]: "callbacks g (emit es s) = callbacks g s @ filter (callback_of g) es"
  by (simp add: callbacks_def emit_def)

lemma callbacks_fields [simp]:
  "callbacks g (s\<lparr>sc_source := x\<rparr>) = callbacks g s" "callbacks g (s\<lparr>sc_generation := n\<rparr>) = callbacks g s"
  "callbacks g (s\<lparr>sc_waiting := ws\<rparr>) = callbacks g s" "callbacks g (s\<lparr>sc_created := cs\<rparr>) = callbacks g s"
  "callbacks g (s\<lparr>sc_completed := cs\<rparr>) = callbacks g s"
  by (simp_all add: callbacks_def)

lemma emit_fields [simp]:
  "sc_source (emit es s) = sc_source s" "sc_generation (emit es s) = sc_generation s"
  "sc_waiting (emit es s) = sc_waiting s" "sc_created (emit es s) = sc_created s"
  "sc_completed (emit es s) = sc_completed s"
  by (simp_all add: emit_def)

lemma well_behaved_append:
  "list_all (\<lambda>e. \<not> final_callback e) cs \<Longrightarrow> list_all (\<lambda>e. \<not> final_callback e) us \<Longrightarrow> well_behaved (cs @ us)"
  "list_all (\<lambda>e. \<not> final_callback e) cs \<Longrightarrow> well_behaved (cs @ [e])"
  by (auto simp: well_behaved_def list_all_iff butlast_append dest!: in_set_butlastD split: if_splits)

lemma well_behaved_simps [simp]: "well_behaved []" "well_behaved [e]"
  by (simp_all add: well_behaved_def)

lemma not_ended: "\<not> ended g s \<longleftrightarrow> list_all (\<lambda>e. \<not> final_callback e) (callbacks g s)"
  by (simp add: ended_def list_all_iff list_ex_iff)

lemma close_previous_silent [simp]: "filter (callback_of g) (close_previous s) = []"
  by (simp add: close_previous_def split: option.split)

lemma okD: "controller_ok s \<Longrightarrow> request_ok s g"
  by (simp add: controller_ok_def)

lemma listening_ok:
  assumes "controller_ok s" and "listening g s"
  shows "g = sc_generation s" "g \<in> set (sc_created s)" "\<not> ended g s" "sc_source s = Some g" "g \<notin> set (sc_waiting s)"
    "g \<notin> set (sc_completed s)"
  using okD [OF assms(1), of g] assms(2) by (auto simp: request_ok_def listening_def isCurrent_def)

lemma ok_finish:
  assumes ok: "controller_ok s" and l: "listening g s"
    and es: "\<And>h. filter (callback_of h) es = (if h = g then [e] else [])" and e: "final_callback e"
  shows "controller_ok (emit es (s\<lparr>sc_source := None, sc_completed := g # sc_completed s\<rparr>))"
  unfolding controller_ok_def
proof
  note g = listening_ok [OF ok l]
  have w: "well_behaved (callbacks g s @ [e])" using g(3) well_behaved_append(2) by (simp add: not_ended)
  show "request_ok (emit es (s\<lparr>sc_source := None, sc_completed := g # sc_completed s\<rparr>)) h" for h
  proof (cases "h = g")
    case True
    then show ?thesis using g(1,2,5) e w by (simp add: request_ok_def es ended_def)
  next
    case False
    then show ?thesis using okD [OF ok, of h] by (simp add: request_ok_def es ended_def)
  qed
qed

lemma ok_update:
  assumes ok: "controller_ok s" and l: "listening g s"
    and es: "\<And>h. filter (callback_of h) es = (if h = g then us else [])" and us: "list_all (\<lambda>e. \<not> final_callback e) us"
  shows "controller_ok (emit es s)"
  unfolding controller_ok_def
proof
  note g = listening_ok [OF ok l]
  have w: "well_behaved (callbacks g s @ us)" using g(3) us well_behaved_append(1) by (simp add: not_ended)
  have n: "\<not> list_ex final_callback us" using us by (simp add: list_all_iff list_ex_iff)
  show "request_ok (emit es s) h" for h
  proof (cases "h = g")
    case True
    then show ?thesis using okD [OF ok, of h] g w n by (auto simp: request_ok_def es ended_def)
  next
    case False
    then show ?thesis using okD [OF ok, of h] by (simp add: request_ok_def es ended_def)
  qed
qed

text \<open>Effects that are no callbacks do not matter.\<close>

lemma ok_silent:
  assumes "controller_ok s" and "\<And>h. filter (callback_of h) es = []"
  shows "controller_ok (emit es s)"
  using assms by (simp add: controller_ok_def request_ok_def ended_def)

lemma handleError_ok: "controller_ok s \<Longrightarrow> controller_ok (handleError g m c s)"
proof (cases "listening g s")
  case True
  assume ok: "controller_ok s"
  have "handleError g m c s = emit [On_error g m c, Closed g, Streaming False]
      (s\<lparr>sc_source := None, sc_completed := g # sc_completed s\<rparr>)"
    using True listening_ok(4) [OF ok True] by (simp add: handleError_def closeActiveSource_def emit_def)
  then show ?thesis using ok_finish [OF ok True, of "[On_error g m c, Closed g, Streaming False]" "On_error g m c"] by simp
qed (simp add: handleError_def)

lemma on_message_ok: "controller_ok s \<Longrightarrow> controller_ok (on_message g data s)"
proof (cases "listening g s")
  case True
  assume ok: "controller_ok s"
  have "emit [On_complete g] (closeActiveSource g (s\<lparr>sc_completed := g # sc_completed s\<rparr>))
      = emit [Closed g, Streaming False, On_complete g] (s\<lparr>sc_source := None, sc_completed := g # sc_completed s\<rparr>)"
    using listening_ok(4) [OF ok True] by (simp add: closeActiveSource_def emit_def)
  moreover have "controller_ok (emit [Closed g, Streaming False, On_complete g]
      (s\<lparr>sc_source := None, sc_completed := g # sc_completed s\<rparr>))"
    using ok_finish [OF ok True, of _ "On_complete g"] by simp
  moreover have "controller_ok (emit (map (On_update g) us) s)" for us
    by (rule ok_update [OF ok True, where us = "map (On_update g) us"]) (auto simp: filter_map comp_def list_all_iff)
  ultimately show ?thesis using True ok handleError_ok by (simp add: on_message_def Let_def split: option.split)
qed (simp add: on_message_def)

lemma headers_refused_ok:
  assumes ok: "controller_ok s" and g: "g \<in> set (sc_waiting s)"
  shows "controller_ok (headers_refused g m s)"
  unfolding controller_ok_def
proof
  have "request_ok s g" by (rule okD [OF ok])
  then have w: "callbacks g s = []" "g \<notin> set (sc_created s)" "g \<notin> set (sc_completed s)" "sc_source s \<noteq> Some g"
    using g by (auto simp: request_ok_def)
  show "request_ok (headers_refused g m s) h" for h
    using okD [OF ok, of h] w
    by (cases "h = g"; cases "sc_generation s = g") (auto simp: request_ok_def headers_refused_def Let_def ended_def)
qed

lemma headers_ready_ok:
  assumes ok: "controller_ok s" and g: "g \<in> set (sc_waiting s)"
  shows "controller_ok (headers_ready g throws s)"
proof (cases "sc_generation s = g")
  case True
  define opened where "opened = emit [Created g, Streaming True]
    (s\<lparr>sc_waiting := removeAll g (sc_waiting s), sc_source := Some g, sc_created := g # sc_created s\<rparr>)"
  have "request_ok s g" by (rule okD [OF ok])
  then have w: "callbacks g s = []" "g \<notin> set (sc_completed s)" using g by (auto simp: request_ok_def)
  have "request_ok opened h" for h
    using okD [OF ok, of h] w True unfolding opened_def
    by (cases "h = g") (auto simp: request_ok_def ended_def)
  then have "controller_ok (emit [Started g] opened)" by (intro ok_silent) (simp_all add: controller_ok_def)
  moreover have "isCurrent g opened" using True by (simp add: isCurrent_def opened_def)
  ultimately show ?thesis
    using True handleError_ok by (simp add: headers_ready_def Let_def flip: opened_def)
next
  case False
  have "request_ok (headers_ready g throws s) h" for h
    using okD [OF ok, of h] False by (auto simp: request_ok_def headers_ready_def Let_def ended_def)
  then show ?thesis by (simp add: controller_ok_def)
qed

lemma send_ok: "controller_ok s \<Longrightarrow> controller_ok (send_request s)"
  unfolding controller_ok_def
proof
  fix h assume "\<forall>g. request_ok s g"
  then have "request_ok s h" by simp
  then show "request_ok (send_request s) h" by (auto simp: request_ok_def send_request_def Let_def ended_def)
qed

lemma cancel_ok: "controller_ok s \<Longrightarrow> controller_ok (cancel notify s)"
  unfolding controller_ok_def
proof
  fix h assume "\<forall>g. request_ok s g"
  then have "request_ok s h" by simp
  then show "request_ok (cancel notify s) h" by (auto simp: request_ok_def cancel_def ended_def)
qed

lemma stream_step_ok:
  assumes "stream_step s e s'" and ok: "controller_ok s"
  shows "controller_ok s'"
  using assms(1)
proof cases
  case Send
  then show ?thesis using send_ok [OF ok] by simp
next
  case (Cancel notify)
  then show ?thesis using cancel_ok [OF ok] by simp
next
  case (Refused g message)
  then show ?thesis using headers_refused_ok [OF ok] by simp
next
  case (Granted g throws)
  then show ?thesis using headers_ready_ok [OF ok] by simp
next
  case (Message g data)
  then show ?thesis using on_message_ok [OF ok] by simp
next
  case (Failure g ready data)
  then show ?thesis using ok handleError_ok by (simp add: on_error_event_def split: prod.split)
next
  case (Ready_state g ready status)
  then show ?thesis using ok handleError_ok by (simp add: on_ready_state_def split: option.split)
qed

lemma run_ok: "stream_run es s \<Longrightarrow> controller_ok s"
proof (induction rule: stream_run.induct)
  case Fresh
  show ?case by (simp add: controller_ok_def request_ok_def new_controller_def callbacks_def ended_def)
next
  case (Step es s e s')
  then show ?case using stream_step_ok by simp
qed

subsection \<open>Open sources and the streaming flag\<close>

fun last_flag :: "bool \<Rightarrow> stream_effect list \<Rightarrow> bool" where
  "last_flag b [] = b"
| "last_flag b (Streaming x # es) = last_flag x es"
| "last_flag b (_ # es) = last_flag b es"

lemma last_flag_append [simp]: "last_flag b (xs @ ys) = last_flag (last_flag b xs) ys"
  by (induction b xs rule: last_flag.induct) simp_all

lemma last_flag_updates [simp]: "last_flag b (map (On_update g) us) = b"
  by (induction us) simp_all

text \<open>What the page was told last.\<close>

definition shown_streaming :: "controller \<Rightarrow> bool" where
  "shown_streaming s = last_flag False (sc_log s)"

text \<open>\<open>disposed\<close> tells whether the controller was disposed of, which does not reset the flag.\<close>

definition sources_ok :: "bool \<Rightarrow> controller \<Rightarrow> bool" where
  "sources_ok disposed s \<longleftrightarrow>
     (\<forall>g \<in> set (sc_created s). Closed g \<in> set (sc_log s) \<or> sc_source s = Some g)
     \<and> (sc_source s \<noteq> None \<longrightarrow> shown_streaming s)
     \<and> (\<not> disposed \<longrightarrow> shown_streaming s \<longrightarrow> sc_source s \<noteq> None)"

lemmas sources_simps = sources_ok_def shown_streaming_def emit_def Let_def

lemma handleError_sources: "sources_ok d s \<Longrightarrow> sources_ok d (handleError g m c s)"
  by (auto simp: sources_simps handleError_def closeActiveSource_def listening_def isCurrent_def)

lemma on_message_sources: "sources_ok d s \<Longrightarrow> sources_ok d (on_message g data s)"
  using handleError_sources [of d s]
  by (auto simp: sources_simps on_message_def closeActiveSource_def listening_def isCurrent_def split: option.split)

lemma headers_ready_sources:
  assumes ok: "controller_ok s" and g: "g \<in> set (sc_waiting s)" and src: "sources_ok d s"
  shows "sources_ok d (headers_ready g throws s)"
proof (cases "sc_generation s = g")
  case True
  have "sc_source s \<noteq> Some h" for h using okD [OF ok, of h] g True by (auto simp: request_ok_def)
  then have "sc_source s = None" by (cases "sc_source s") auto
  then have "sources_ok d (emit [Started g] (emit [Created g, Streaming True]
      (s\<lparr>sc_waiting := removeAll g (sc_waiting s), sc_source := Some g, sc_created := g # sc_created s\<rparr>)))"
    using src by (auto simp: sources_simps)
  then show ?thesis using True handleError_sources by (simp add: headers_ready_def Let_def isCurrent_def)
qed (use src in \<open>simp add: headers_ready_def sources_simps\<close>)

lemma stream_step_sources:
  assumes "stream_step s e s'" and ok: "controller_ok s" and src: "sources_ok d s"
  shows "sources_ok (d \<or> e = Cancel False) s'"
  using assms(1)
proof cases
  case Send
  then show ?thesis using src by (auto simp: sources_simps send_request_def close_previous_def split: option.splits)
next
  case (Cancel notify)
  then show ?thesis using src by (auto simp: sources_simps cancel_def close_previous_def split: option.splits)
next
  case (Refused g message)
  then show ?thesis using src by (auto simp: sources_simps headers_refused_def)
next
  case (Granted g throws)
  then show ?thesis using headers_ready_sources [OF ok _ src] by simp
next
  case (Message g data)
  then show ?thesis using on_message_sources [OF src] by simp
next
  case (Failure g ready data)
  then show ?thesis using src handleError_sources by (simp add: on_error_event_def split: prod.split)
next
  case (Ready_state g ready status)
  then show ?thesis using src handleError_sources by (simp add: on_ready_state_def split: option.split)
qed

lemma run_sources: "stream_run es s \<Longrightarrow> sources_ok (Cancel False \<in> set es) s"
proof (induction rule: stream_run.induct)
  case Fresh
  show ?case by (simp add: sources_simps new_controller_def)
next
  case (Step es s e s')
  then show ?case using stream_step_sources [OF Step.hyps(2) run_ok [OF Step.hyps(1)] Step.IH]
    by (simp add: disj_commute eq_commute)
qed

text \<open>A request that was superseded, or that waits or has ended, hears nothing.\<close>

lemma handleError_stale: "g \<noteq> sc_generation s \<Longrightarrow> callbacks g (handleError h m c s) = callbacks g s"
  by (auto simp: handleError_def closeActiveSource_def listening_def isCurrent_def)

lemma on_message_stale: "g \<noteq> sc_generation s \<Longrightarrow> callbacks g (on_message h data s) = callbacks g s"
  using handleError_stale [of g s h]
  by (auto simp: on_message_def closeActiveSource_def listening_def isCurrent_def Let_def filter_map comp_def split: option.split)

lemma step_stale:
  assumes "stream_step s e s'" and "g \<noteq> sc_generation s"
  shows "callbacks g s' = callbacks g s"
  using assms(1)
proof cases
  case Send
  then show ?thesis by (simp add: send_request_def Let_def)
next
  case (Cancel notify)
  then show ?thesis by (simp add: cancel_def)
next
  case (Refused h message)
  then show ?thesis using assms(2) by (simp add: headers_refused_def Let_def)
next
  case (Granted h throws)
  then show ?thesis using assms(2) handleError_stale [of g] by (auto simp: headers_ready_def Let_def)
next
  case (Message h data)
  then show ?thesis using assms(2) on_message_stale by simp
next
  case (Failure h ready data)
  then show ?thesis using assms(2) handleError_stale by (simp add: on_error_event_def split: prod.split)
next
  case (Ready_state h ready status)
  then show ?thesis using assms(2) handleError_stale by (simp add: on_ready_state_def split: option.split)
qed

text \<open>
  C24: Whatever the order of the page's calls and the answers to its requests: each request gets updates
  and then at most one end, a completion or an error; a source that was created and not closed is the
  active one, belongs to the newest request and that request has not ended; a step calls back only for
  the newest request, so a request that was replaced or stopped hears nothing more.
\<close>

theorem stream_protocol:
  assumes "stream_run es s"
  shows "well_behaved (callbacks g s)
    \<and> (g \<in> set (sc_created s) \<and> Closed g \<notin> set (sc_log s) \<longrightarrow>
        sc_source s = Some g \<and> g = sc_generation s \<and> \<not> ended g s)
    \<and> (stream_step s e s' \<and> callbacks g s' \<noteq> callbacks g s \<longrightarrow> g = sc_generation s)"
  using okD [OF run_ok [OF assms], of g] run_sources [OF assms] step_stale [of s e s' g]
  by (auto simp: request_ok_def sources_ok_def)

lemma run_step: "stream_run es s \<Longrightarrow> stream_step s e s' \<Longrightarrow> es' = es @ [e] \<Longrightarrow> stream_run es' s'"
  by (simp add: stream_run.Step)

lemma first_stream: "stream_run [Send, Granted 1 False] (headers_ready 1 False (send_request new_controller))"
  by (rule run_step [of "[Send]"], rule run_step [of "[]"], rule Fresh, rule stream_step.Send, simp, rule stream_step.Granted)
    (simp_all add: send_request_def new_controller_def emit_def)

lemma first_stream_state:
  "headers_ready 1 False (send_request new_controller) = \<lparr>sc_source = Some 1, sc_generation = 1, sc_waiting = [],
     sc_created = [1], sc_completed = [], sc_log = [Streaming False, Created 1, Streaming True, Started 1]\<rparr>"
  by (simp add: headers_ready_def send_request_def new_controller_def emit_def close_previous_def Let_def isCurrent_def)

lemmas stream_simps = callbacks_def on_message_def listening_def isCurrent_def isStreamDoneMessage_def
  closeActiveSource_def emit_def ended_def cancel_def close_previous_def shown_streaming_def

theorem stream_protocol_witness:
  "let s = headers_ready 1 False (send_request new_controller); s' = on_message 1 (Some (js ''[DONE]'')) s in
   callbacks 1 s' = [On_complete 1] \<and> callbacks 1 s' \<noteq> callbacks 1 s \<and> 1 = sc_generation s
   \<and> well_behaved (callbacks 1 s) \<and> Closed 1 \<notin> set (sc_log s) \<and> sc_source s = Some 1 \<and> \<not> ended 1 s"
proof -
  let ?s = "headers_ready 1 False (send_request new_controller)"
  have "stream_step ?s (Message 1 (Some (js ''[DONE]''))) (on_message 1 (Some (js ''[DONE]'')) ?s)"
    by (rule stream_step.Message) (unfold first_stream_state, simp)
  then show ?thesis
    using stream_protocol [OF first_stream, of 1 "Message 1 (Some (js ''[DONE]''))" "on_message 1 (Some (js ''[DONE]'')) ?s"]
    unfolding first_stream_state by (simp add: Let_def stream_simps)
qed

text \<open>
  While the page is mounted, the streaming flag that it was given last is set exactly when a source
  is open; disposing of the controller leaves no source open either.
\<close>

theorem streaming_flag_faithful:
  assumes "stream_run es s"
  shows "(Cancel False \<notin> set es \<longrightarrow> (shown_streaming s \<longleftrightarrow> sc_source s \<noteq> None))
    \<and> (stream_step s (Cancel b) s' \<longrightarrow> (\<forall>g \<in> set (sc_created s'). Closed g \<in> set (sc_log s')))"
proof -
  have "stream_step s (Cancel b) s' \<Longrightarrow> sc_source s' = None" by (auto elim!: stream_stepE simp: cancel_def)
  then show ?thesis
    using run_sources [OF assms] run_sources [OF stream_run.Step [OF assms, of "Cancel b" s']]
    by (auto simp: sources_ok_def)
qed

theorem streaming_flag_faithful_witness:
  "let s = headers_ready 1 False (send_request new_controller); s' = cancel True s in
   shown_streaming s \<and> sc_source s \<noteq> None \<and> (\<forall>g \<in> set (sc_created s'). Closed g \<in> set (sc_log s')) \<and> sc_created s' = [1]"
  using streaming_flag_faithful [OF first_stream, of True "cancel True (headers_ready 1 False (send_request new_controller))"]
    stream_step.Cancel [of "headers_ready 1 False (send_request new_controller)" True]
  unfolding first_stream_state by (simp add: Let_def stream_simps)

subsection \<open>Delivery\<close>

text \<open>
  The messages of an open stream, one after the other: their updates are called back in order, and the
  closing message completes the request.
\<close>

definition deliver :: "nat \<Rightarrow> jsstring list \<Rightarrow> controller \<Rightarrow> controller" where
  "deliver g ds s = foldl (\<lambda>s d. on_message g (Some d) s) s ds"

lemma deliver_run:
  assumes "stream_run es s" and "g \<in> set (sc_created s)"
  shows "stream_run (es @ map (\<lambda>d. Message g (Some d)) ds) (deliver g ds s) \<and> g \<in> set (sc_created (deliver g ds s))"
proof (induction ds rule: rev_induct)
  case Nil
  show ?case using assms by (simp add: deliver_def)
next
  case (snoc d ds)
  have created: "sc_created (on_message g x t) = sc_created t" for x t
    by (simp add: on_message_def Let_def handleError_def closeActiveSource_def split: option.split)
  have "stream_step (deliver g ds s) (Message g (Some d)) (on_message g (Some d) (deliver g ds s))"
    using snoc.IH by (intro stream_step.Message) simp
  then show ?case using snoc.IH created stream_run.Step
    by (fastforce simp: deliver_def simp del: append_assoc simp flip: append_assoc)
qed

lemma deliver_updates:
  assumes "listening g s" and "list_all2 (\<lambda>d us. \<not> isStreamDoneMessage d \<and> parseStreamMessageUpdates d = Some us) ds uss"
  shows "listening g (deliver g ds s) \<and> callbacks g (deliver g ds s) = callbacks g s @ map (On_update g) (concat uss)"
  using assms(2,1)
proof (induction arbitrary: s rule: list_all2_induct)
  case Nil
  then show ?case by (simp add: deliver_def)
next
  case (Cons d ds us uss)
  then have s: "on_message g (Some d) s = emit (map (On_update g) us) s" by (simp add: on_message_def)
  have "listening g (emit (map (On_update g) us) s)"
    using Cons.prems by (simp add: listening_def isCurrent_def)
  then show ?case using Cons.IH s by (simp add: deliver_def filter_map comp_def)
qed

lemma deliver_all:
  assumes "listening g s" and "list_all2 (\<lambda>d us. \<not> isStreamDoneMessage d \<and> parseStreamMessageUpdates d = Some us) ds uss"
  shows "callbacks g (deliver g (ds @ [js ''[DONE]'']) s) = callbacks g s @ map (On_update g) (concat uss) @ [On_complete g]
    \<and> sc_source (deliver g (ds @ [js ''[DONE]'']) s) = None"
proof -
  have s: "deliver g (ds @ [d]) s = on_message g (Some d) (deliver g ds s)" for d by (simp add: deliver_def)
  show ?thesis
    using deliver_updates [OF assms] unfolding s
    by (auto simp: on_message_def isStreamDoneMessage_def closeActiveSource_def listening_def isCurrent_def)
qed

end
