(* ===== verification/Playground_Messages.thy ===== *)
theory Playground_Messages
  imports Stream_Controller
begin

section \<open>Messages of the playground\<close>

text \<open>
  \<open>features/playground/types.ts\<close> and the files of \<open>features/playground/lib/message\<close>: messages with their
  versions, reasoning and timing, the separation of \<open>think\<close> tags, the application of streamed chunks,
  completion and errors of an answer, and the edits of a conversation. An absent property is \<open>None\<close>.
  The places of an operation that read \<open>Date.now()\<close> get \<open>now 0\<close>, \<open>now 1\<close>, \<open>now 2\<close> in their order, and
  keys made by \<open>nanoid\<close> are arguments too.
\<close>

subsection \<open>Data\<close>

datatype message_role = User | Assistant | System

datatype message_status = Loading | Streaming_status | Complete_status | Error_status

record message_version =
  mv_id :: jsstring
  mv_content :: jsstring

record reasoning =
  rs_content :: jsstring
  rs_duration :: jsnum
  rs_startedAt :: "jsnum option"
  rs_completedAt :: "jsnum option"
  rs_durationMs :: "jsnum option"

record message =
  msg_key :: jsstring
  msg_from :: message_role
  msg_versions :: "message_version list"
  msg_createdAt :: "jsnum option"
  msg_startedAt :: "jsnum option"
  msg_completedAt :: "jsnum option"
  msg_durationMs :: "jsnum option"
  msg_sources :: "(jsstring \<times> jsstring) list option"
  msg_reasoning :: "reasoning option"
  msg_isReasoningStreaming :: "bool option"
  msg_isReasoningComplete :: "bool option"
  msg_isContentComplete :: "bool option"
  msg_status :: "message_status option"
  msg_errorCode :: "jsstring option option"

type_synonym clock = "nat \<Rightarrow> jsnum"

subsection \<open>Versions and contents\<close>

definition createMessageVersion :: "jsstring \<Rightarrow> jsstring \<Rightarrow> message_version" where
  "createMessageVersion nanoid content = \<lparr>mv_id = nanoid, mv_content = content\<rparr>"

definition getCurrentVersion :: "message \<Rightarrow> message_version" where
  "getCurrentVersion m =
     (case msg_versions m of v # _ \<Rightarrow> v | [] \<Rightarrow> \<lparr>mv_id = js ''default'', mv_content = []\<rparr>)"

definition getMessageContent :: "message \<Rightarrow> jsstring" where
  "getMessageContent m = mv_content (getCurrentVersion m)"

definition hasMessageContent :: "message \<Rightarrow> bool" where
  "hasMessageContent m \<longleftrightarrow> js_trim (getMessageContent m) \<noteq> []"

definition updateCurrentVersionContent :: "message \<Rightarrow> jsstring \<Rightarrow> message" where
  "updateCurrentVersionContent m content =
     m\<lparr>msg_versions := [(getCurrentVersion m)\<lparr>mv_content := content\<rparr>]\<rparr>"

definition createUserMessage :: "jsstring \<Rightarrow> jsstring \<Rightarrow> jsstring \<Rightarrow> jsnum \<Rightarrow> message" where
  "createUserMessage key nanoid content createdAt =
     \<lparr>msg_key = key, msg_from = User, msg_versions = [createMessageVersion nanoid content],
      msg_createdAt = Some createdAt, msg_startedAt = None, msg_completedAt = None, msg_durationMs = None,
      msg_sources = None, msg_reasoning = None, msg_isReasoningStreaming = None, msg_isReasoningComplete = None,
      msg_isContentComplete = None, msg_status = None, msg_errorCode = None\<rparr>"

definition createLoadingAssistantMessage :: "jsstring \<Rightarrow> jsstring \<Rightarrow> jsnum \<Rightarrow> message" where
  "createLoadingAssistantMessage key nanoid startedAt =
     \<lparr>msg_key = key, msg_from = Assistant, msg_versions = [createMessageVersion nanoid []],
      msg_createdAt = Some startedAt, msg_startedAt = Some startedAt, msg_completedAt = None, msg_durationMs = None,
      msg_sources = None, msg_reasoning = None, msg_isReasoningStreaming = Some False,
      msg_isReasoningComplete = Some False, msg_isContentComplete = Some False, msg_status = Some Loading,
      msg_errorCode = None\<rparr>"

definition isValidMessage :: "message \<Rightarrow> bool" where
  "isValidMessage m \<longleftrightarrow> msg_versions m \<noteq> [] \<and> \<not> (msg_from m = Assistant \<and> \<not> hasMessageContent m)"

definition formatMessageForAPI :: "message \<Rightarrow> message_role \<times> jsstring" where
  "formatMessageForAPI m = (msg_from m, mv_content (getCurrentVersion m))"

subsection \<open>Contents with images\<close>

datatype content_part = Text_part "jsstring option" | Image_part jsstring

definition buildMessageContent :: "jsstring \<Rightarrow> jsstring list \<Rightarrow> jsstring + content_part list" where
  "buildMessageContent content imageUrls =
     (let validImages = filter (\<lambda>url. js_trim url \<noteq> []) imageUrls in
      if validImages = [] then Inl content
      else Inr (Text_part (Some content) # map (\<lambda>url. Image_part (js_trim url)) validImages))"

fun is_text_part :: "content_part \<Rightarrow> bool" where
  "is_text_part (Text_part _) = True"
| "is_text_part (Image_part _) = False"

fun getTextContent :: "jsstring + content_part list \<Rightarrow> jsstring" where
  "getTextContent (Inl content) = content"
| "getTextContent (Inr parts) =
     (case find is_text_part parts of Some (Text_part (Some content)) \<Rightarrow> content | _ \<Rightarrow> [])"

subsection \<open>Timing\<close>

definition or_option :: "'a option \<Rightarrow> 'a option \<Rightarrow> 'a option" where
  "or_option a b = (case a of Some x \<Rightarrow> Some x | None \<Rightarrow> b)"

definition or_default :: "'a option \<Rightarrow> 'a \<Rightarrow> 'a" where
  "or_default a d = (case a of Some x \<Rightarrow> x | None \<Rightarrow> d)"

definition completeAssistantTiming :: "message \<Rightarrow> jsnum \<Rightarrow> message" where
  "completeAssistantTiming m completedAt =
     (if msg_from m \<noteq> Assistant then m
      else (let startedAt = or_default (or_option (msg_startedAt m) (msg_createdAt m)) completedAt in
            m\<lparr>msg_startedAt := Some startedAt, msg_completedAt := Some completedAt,
              msg_durationMs := Some (js_max (JFin 0) (js_sub completedAt startedAt))\<rparr>))"

definition startReasoningTiming :: "message \<Rightarrow> jsnum \<Rightarrow> reasoning" where
  "startReasoningTiming m startedAt =
     (case msg_reasoning m of
        None \<Rightarrow> \<lparr>rs_content = [], rs_duration = JFin 0, rs_startedAt = Some startedAt, rs_completedAt = None, rs_durationMs = None\<rparr>
      | Some r \<Rightarrow> r\<lparr>rs_startedAt := Some (or_default (rs_startedAt r) startedAt)\<rparr>)"

definition completeReasoningTiming :: "message \<Rightarrow> jsnum \<Rightarrow> message" where
  "completeReasoningTiming m completedAt =
     (case msg_reasoning m of
        None \<Rightarrow> m
      | Some r \<Rightarrow>
          if rs_durationMs r \<noteq> None then m
          else (let startedAt = or_default (or_option (rs_startedAt r) (msg_startedAt m)) completedAt;
                    durationMs = js_max (JFin 0) (js_sub completedAt startedAt) in
                m\<lparr>msg_reasoning := Some (r\<lparr>rs_startedAt := Some startedAt, rs_completedAt := Some completedAt,
                    rs_durationMs := Some durationMs, rs_duration := js_ceil (js_div durationMs (JFin 1000))\<rparr>)\<rparr>))"

subsection \<open>Think tags\<close>

fun find_sub :: "jsstring \<Rightarrow> jsstring \<Rightarrow> nat option" where
  "find_sub p [] = (if p = [] then Some 0 else None)"
| "find_sub p (c # s) = (if js_starts_with p (c # s) then Some 0 else map_option Suc (find_sub p s))"

text \<open>\<open>s.indexOf(p, from)\<close> for a position within \<open>s\<close>.\<close>

definition js_index_of :: "jsstring \<Rightarrow> jsstring \<Rightarrow> nat \<Rightarrow> nat option" where
  "js_index_of s p from = map_option (\<lambda>i. from + i) (find_sub p (drop from s))"

lemma find_sub_Some: "find_sub p s = Some i \<Longrightarrow> i + length p \<le> length s \<and> take (length p) (drop i s) = p"
proof (induction p s arbitrary: i rule: find_sub.induct)
  case (2 p c s)
  then show ?case
  proof (cases "js_starts_with p (c # s)")
    case True
    then have "length p \<le> length (c # s)" by (metis js_starts_with_iff length_append le_add1)
    then show ?thesis using 2 True by (auto simp: js_starts_with_def)
  qed auto
qed (auto split: if_splits)

lemma js_index_of_Some:
  assumes "js_index_of s p from = Some i" and "p \<noteq> []"
  shows "from \<le> i \<and> i + length p \<le> length s"
proof -
  obtain k where k: "find_sub p (drop from s) = Some k" "i = from + k"
    using assms(1) by (auto simp: js_index_of_def)
  then have "k + length p \<le> length s - from" using find_sub_Some [OF k(1)] by simp
  then show ?thesis using k(2) assms(2) by (cases p) auto
qed

definition think_open :: jsstring where
  "think_open = js ''<think>''"

definition think_close :: jsstring where
  "think_close = js ''</think>''"

record think_tags =
  tt_visible :: jsstring
  tt_reasoning :: jsstring
  tt_unclosed :: bool

function think_loop :: "jsstring \<Rightarrow> nat \<Rightarrow> jsstring list \<Rightarrow> jsstring list \<Rightarrow> jsstring list \<times> jsstring list \<times> bool" where
  "think_loop content pos visible thoughts =
     (case js_index_of content think_open pos of
        None \<Rightarrow> (if pos < length content then visible @ [drop pos content] else visible, thoughts, False)
      | Some openPos \<Rightarrow>
          let visible' = (if pos < openPos then visible @ [js_slice content pos openPos] else visible) in
          (case js_index_of content think_close (openPos + 7) of
             None \<Rightarrow> (visible', thoughts @ [drop (openPos + 7) content], True)
           | Some closePos \<Rightarrow>
               think_loop content (closePos + 8) visible' (thoughts @ [js_slice content (openPos + 7) closePos])))"
  by pat_completeness auto

termination
proof (relation "measure (\<lambda>(content, pos, _). length content - pos)", goal_cases)
  case 1
  show ?case by simp
next
  case (2 content pos visible thoughts openPos x closePos)
  have "pos \<le> openPos" "openPos + 7 \<le> closePos" "closePos + 8 \<le> length content"
    using 2 js_index_of_Some [of content think_open pos openPos] js_index_of_Some [of content think_close "openPos + 7" closePos]
    by (simp_all add: think_open_def think_close_def)
  then show ?case by simp
qed

declare think_loop.simps [simp del]

definition parseThinkTags :: "jsstring \<Rightarrow> think_tags" where
  "parseThinkTags content =
     (if \<not> js_includes think_open content then \<lparr>tt_visible = content, tt_reasoning = [], tt_unclosed = False\<rparr>
      else (case think_loop content 0 [] [] of
              (visible, thoughts, unclosed) \<Rightarrow>
                \<lparr>tt_visible = js_trim (js_join [] visible), tt_reasoning = js_trim (js_join [10, 10] thoughts),
                 tt_unclosed = unclosed\<rparr>))"

subsection \<open>Streaming\<close>

definition processStreamingContent :: "clock \<Rightarrow> message \<Rightarrow> jsstring \<Rightarrow> message" where
  "processStreamingContent now m chunk =
     (let fullContent = mv_content (getCurrentVersion m) @ chunk in
      if msg_reasoning m = None \<and> \<not> js_includes think_open fullContent
      then (updateCurrentVersionContent m fullContent)\<lparr>msg_isReasoningStreaming := Some False\<rparr>
      else (let tags = parseThinkTags fullContent;
                finalReasoning = (if tt_reasoning tags \<noteq> []
                                  then Some ((startReasoningTiming m (now 0))\<lparr>rs_content := tt_reasoning tags\<rparr>)
                                  else msg_reasoning m) in
            (updateCurrentVersionContent m fullContent)
              \<lparr>msg_reasoning := finalReasoning, msg_isReasoningStreaming := Some (tt_unclosed tags)\<rparr>))"

definition getAppendableChunk :: "jsstring \<Rightarrow> jsstring \<Rightarrow> jsstring" where
  "getAppendableChunk currentContent chunk =
     (if currentContent = [] \<or> \<not> js_starts_with currentContent chunk then chunk
      else drop (length currentContent) chunk)"

definition applyStreamingChunk :: "clock \<Rightarrow> message \<Rightarrow> update_kind \<Rightarrow> jsstring \<Rightarrow> message" where
  "applyStreamingChunk now m kind chunk =
     (if msg_status m = Some Error_status then m
      else if kind = Reasoning then
        (let r = startReasoningTiming m (now 0) in
         m\<lparr>msg_reasoning := Some (r\<lparr>rs_content := rs_content r @ getAppendableChunk (rs_content r) chunk\<rparr>),
           msg_isReasoningStreaming := Some True, msg_status := Some Streaming_status\<rparr>)
      else
        (let contentMessage = processStreamingContent now m (getAppendableChunk (mv_content (getCurrentVersion m)) chunk) in
         (if msg_isReasoningStreaming contentMessage = Some True then contentMessage
          else completeReasoningTiming contentMessage (now 1))\<lparr>msg_status := Some Streaming_status\<rparr>))"

definition or_nonempty :: "jsstring option \<Rightarrow> jsstring \<Rightarrow> jsstring" where
  "or_nonempty a b = (case a of Some (c # s) \<Rightarrow> c # s | _ \<Rightarrow> b)"

definition finalizeMessage :: "clock \<Rightarrow> message \<Rightarrow> jsstring option \<Rightarrow> message" where
  "finalizeMessage now m apiReasoningContent =
     (let content = mv_content (getCurrentVersion m);
          tags = (if js_includes think_open content then Some (parseThinkTags content) else None);
          visibleContent = or_default (map_option tt_visible tags) content;
          finalReasoning = or_nonempty apiReasoningContent
            (or_nonempty (map_option rs_content (msg_reasoning m)) (or_nonempty (map_option tt_reasoning tags) []));
          finalized = (updateCurrentVersionContent m visibleContent)
            \<lparr>msg_reasoning := (if finalReasoning \<noteq> [] then Some ((startReasoningTiming m (now 0))\<lparr>rs_content := finalReasoning\<rparr>)
                              else None),
             msg_isReasoningStreaming := Some False\<rparr> in
      completeReasoningTiming finalized (now 1))"

definition completeAssistantMessage :: "clock \<Rightarrow> message \<Rightarrow> message" where
  "completeAssistantMessage now m =
     completeAssistantTiming ((finalizeMessage now m None)\<lparr>msg_status := Some Complete_status\<rparr>) (now 2)"

definition isAssistantMessageFinal :: "message \<Rightarrow> bool" where
  "isAssistantMessageFinal m \<longleftrightarrow> msg_status m = Some Complete_status \<or> msg_status m = Some Error_status"

definition isAssistantMessagePending :: "message \<Rightarrow> bool" where
  "isAssistantMessagePending m \<longleftrightarrow> msg_status m = Some Loading \<or> msg_status m = Some Streaming_status"

definition isPendingAssistantMessage :: "message \<Rightarrow> bool" where
  "isPendingAssistantMessage m \<longleftrightarrow> msg_from m = Assistant \<and> isAssistantMessagePending m"

text \<open>A choice of a response: the content and the reasoning content of its message.\<close>

type_synonym choice = "jsstring option \<times> jsstring option"

definition applyChatCompletionChoice :: "clock \<Rightarrow> message \<Rightarrow> choice \<Rightarrow> message" where
  "applyChatCompletionChoice now m choice =
     completeAssistantTiming
       ((finalizeMessage now (updateCurrentVersionContent m (or_nonempty (fst choice) [])) (snd choice))
          \<lparr>msg_status := Some Complete_status\<rparr>) (now 2)"

definition hasChatCompletionChoice :: "choice list \<Rightarrow> bool" where
  "hasChatCompletionChoice choices \<longleftrightarrow> choices \<noteq> []"

definition applyChatCompletionResponse :: "clock \<Rightarrow> message \<Rightarrow> choice list \<Rightarrow> message option" where
  "applyChatCompletionResponse now m choices =
     (case choices of [] \<Rightarrow> None | choice # _ \<Rightarrow> Some (applyChatCompletionChoice now m choice))"

definition INTERRUPTED :: jsstring where
  "INTERRUPTED = js ''Generation was interrupted''"

text \<open>The position of the last element that satisfies \<open>P\<close>, found from the end.\<close>

definition last_index :: "('a \<Rightarrow> bool) \<Rightarrow> 'a list \<Rightarrow> nat option" where
  "last_index P xs = find (\<lambda>i. P (xs ! i)) (rev [0..<length xs])"

definition sanitize_message :: "(jsstring \<Rightarrow> jsstring) \<Rightarrow> clock \<Rightarrow> message \<Rightarrow> message" where
  "sanitize_message t now m =
     (let finalized = finalizeMessage now m None;
          hasReasoning = (case msg_reasoning finalized of Some r \<Rightarrow> js_trim (rs_content r) \<noteq> [] | None \<Rightarrow> False) in
      if hasMessageContent finalized \<or> hasReasoning
      then completeAssistantTiming (finalized\<lparr>msg_status := Some Complete_status, msg_isReasoningStreaming := Some False\<rparr>) (now 2)
      else completeAssistantTiming
             ((updateCurrentVersionContent finalized (t API_REQUEST_ERROR @ js '': '' @ t INTERRUPTED))
                \<lparr>msg_status := Some Error_status, msg_isReasoningStreaming := Some False\<rparr>) (now 2))"

definition sanitizeMessagesOnLoad :: "(jsstring \<Rightarrow> jsstring) \<Rightarrow> clock \<Rightarrow> message list \<Rightarrow> message list" where
  "sanitizeMessagesOnLoad t now messages =
     (case last_index isPendingAssistantMessage messages of
        None \<Rightarrow> messages
      | Some i \<Rightarrow> messages[i := sanitize_message t now (messages ! i)])"

subsection \<open>Updates of a conversation\<close>

definition updateLastAssistantMessage :: "message list \<Rightarrow> (message \<Rightarrow> message) \<Rightarrow> message list" where
  "updateLastAssistantMessage messages updater =
     (if messages = [] \<or> msg_from (last messages) \<noteq> Assistant then messages
      else butlast messages @ [updater (last messages)])"

definition updateAssistantMessageWithError ::
    "clock \<Rightarrow> message list \<Rightarrow> jsstring \<Rightarrow> jsstring option \<Rightarrow> jsstring \<Rightarrow> message list" where
  "updateAssistantMessageWithError now messages errorMessage errorCode title =
     updateLastAssistantMessage messages (\<lambda>m.
       completeAssistantTiming
         ((updateCurrentVersionContent m (title @ js '': '' @ errorMessage))
            \<lparr>msg_status := Some Error_status, msg_isReasoningStreaming := Some False,
             msg_errorCode := Some (case errorCode of Some (c # s) \<Rightarrow> Some (c # s) | _ \<Rightarrow> None)\<rparr>) (now 0))"

definition appendUserMessagePair :: "(nat \<Rightarrow> jsstring) \<Rightarrow> clock \<Rightarrow> message list \<Rightarrow> jsstring \<Rightarrow> message list" where
  "appendUserMessagePair nanoid now messages content =
     messages @ [createUserMessage (nanoid 0) (nanoid 1) content (now 0), createLoadingAssistantMessage (nanoid 2) (nanoid 3) (now 0)]"

fun find_index :: "('a \<Rightarrow> bool) \<Rightarrow> 'a list \<Rightarrow> nat option" where
  "find_index P [] = None"
| "find_index P (x # xs) = (if P x then Some 0 else map_option Suc (find_index P xs))"

definition createRegeneratedMessages ::
    "(nat \<Rightarrow> jsstring) \<Rightarrow> clock \<Rightarrow> message list \<Rightarrow> jsstring \<Rightarrow> message list option" where
  "createRegeneratedMessages nanoid now messages messageKey =
     (case find_index (\<lambda>m. msg_key m = messageKey) messages of
        None \<Rightarrow> None
      | Some i \<Rightarrow>
          Some (take (if msg_from (messages ! i) = User then i + 1 else i) messages
                @ [createLoadingAssistantMessage (nanoid 0) (nanoid 1) (now 0)]))"

definition removeMessageByKey :: "message list \<Rightarrow> jsstring \<Rightarrow> message list" where
  "removeMessageByKey messages messageKey = filter (\<lambda>m. msg_key m \<noteq> messageKey) messages"

fun previous_user :: "message list \<Rightarrow> nat \<Rightarrow> message option" where
  "previous_user messages 0 = None"
| "previous_user messages (Suc i) =
     (if msg_from (messages ! i) = User then Some (messages ! i) else previous_user messages i)"

definition getPreviousUserMessage :: "message list \<Rightarrow> nat \<Rightarrow> message option" where
  "getPreviousUserMessage messages beforeIndex = previous_user messages beforeIndex"

definition edit_message :: "jsstring \<Rightarrow> jsstring \<Rightarrow> bool \<Rightarrow> jsnum \<Rightarrow> message \<Rightarrow> message" where
  "edit_message messageKey content shouldSubmit submittedAt m =
     (if msg_key m = messageKey
      then (updateCurrentVersionContent m content)
             \<lparr>msg_createdAt := (if shouldSubmit then Some submittedAt else msg_createdAt m)\<rparr>
      else m)"

definition applyMessageEdit ::
    "(nat \<Rightarrow> jsstring) \<Rightarrow> clock \<Rightarrow> message list \<Rightarrow> jsstring \<Rightarrow> jsstring \<Rightarrow> bool \<Rightarrow> (message list \<times> bool) option" where
  "applyMessageEdit nanoid now messages messageKey content shouldSubmit =
     (case find_index (\<lambda>m. msg_key m = messageKey) messages of
        None \<Rightarrow> None
      | Some i \<Rightarrow>
          let updated = map (edit_message messageKey content shouldSubmit (now 0)) messages in
          if \<not> shouldSubmit \<or> msg_from (updated ! i) \<noteq> User then Some (updated, False)
          else Some (take (i + 1) updated @ [createLoadingAssistantMessage (nanoid 0) (nanoid 1) (now 0)], True))"

definition getEditingMessageContent :: "message list \<Rightarrow> jsstring option \<Rightarrow> jsstring" where
  "getEditingMessageContent messages editingKey =
     (case editingKey of
        Some (c # s) \<Rightarrow> (case find (\<lambda>m. msg_key m = c # s) messages of Some m \<Rightarrow> getMessageContent m | None \<Rightarrow> [])
      | _ \<Rightarrow> [])"

subsection \<open>Think tags are separated exactly\<close>

lemma find_sub_None: "find_sub p s = None \<longleftrightarrow> \<not> js_includes p s"
  by (induction p s rule: find_sub.induct) auto

text \<open>A word whose first unit does not occur again does not overlap itself.\<close>

lemma starts_with_overlap:
  assumes "js_starts_with (c # w) (v @ (c # w) @ s)" and "v \<noteq> []" and "c \<notin> set w"
  shows "js_includes (c # w) v"
proof (cases "length v < length (c # w)")
  case True
  have p: "take (length (c # w)) (v @ (c # w) @ s) = c # w" using assms(1) by (simp only: js_starts_with_def)
  have "(c # w) ! length v = take (length (c # w)) (v @ (c # w) @ s) ! length v" by (simp only: p)
  also have "\<dots> = (v @ (c # w) @ s) ! length v" using True by (rule nth_take)
  also have "\<dots> = c" by (simp add: nth_append)
  finally have "c \<in> set w" using True assms(2) by (cases v) auto
  then show ?thesis using assms(3) by simp
next
  case False
  then have "take (length (c # w)) v = c # w" using assms(1) by (simp add: js_starts_with_def)
  then show ?thesis using js_includes_iff [of "c # w" v] append_take_drop_id [of "length (c # w)" v]
    by (metis append_Nil)
qed

lemma find_sub_first:
  assumes "\<not> js_includes (c # w) v" and "c \<notin> set w"
  shows "find_sub (c # w) (v @ (c # w) @ s) = Some (length v)"
  using assms(1)
proof (induction v)
  case Nil
  show ?case by (simp add: js_starts_with_def)
next
  case (Cons d v)
  have "\<not> js_starts_with (c # w) ((d # v) @ (c # w) @ s)"
    using starts_with_overlap [of c w "d # v" s] Cons.prems assms(2) by blast
  then show ?case using Cons by simp
qed

lemma first_occurrence:
  assumes "js_includes p s" and "p \<noteq> []"
  shows "\<exists>v r. s = v @ p @ r \<and> \<not> js_includes p v"
proof -
  obtain i where i: "find_sub p s = Some i" using assms(1) find_sub_None [of p s] by auto
  have "\<not> js_includes p (take i s)" using i assms(2)
  proof (induction p s arbitrary: i rule: find_sub.induct)
    case (2 p c s)
    show ?case
    proof (cases "js_starts_with p (c # s)")
      case True
      then show ?thesis using 2 by auto
    next
      case False
      then obtain j where j: "find_sub p s = Some j" "i = Suc j" using 2 by auto
      have "\<not> js_starts_with p (c # take j s)"
        using False by (metis append_Cons append_assoc append_take_drop_id js_starts_with_iff)
      then show ?thesis using 2 False j by simp
    qed
  qed simp
  moreover have "s = take i s @ p @ drop (i + length p) s"
    using find_sub_Some [OF i] by (metis add.commute append_take_drop_id drop_drop)
  ultimately show ?thesis by blast
qed

text \<open>A text as visible parts and closed thoughts.\<close>

definition print_thoughts :: "(jsstring \<times> jsstring) list \<Rightarrow> jsstring" where
  "print_thoughts bs = concat (map (\<lambda>(v, r). v @ think_open @ r @ think_close) bs)"

definition plain_thoughts :: "(jsstring \<times> jsstring) list \<Rightarrow> bool" where
  "plain_thoughts bs \<longleftrightarrow> list_all (\<lambda>(v, r). \<not> js_includes think_open v \<and> \<not> js_includes think_close r) bs"

lemma length_tags [simp]: "length think_open = 7" "length think_close = 8"
  by (simp_all add: think_open_def think_close_def)

lemma index_open:
  "\<not> js_includes think_open v \<Longrightarrow> js_index_of (pre @ v @ think_open @ s) think_open (length pre) = Some (length pre + length v)"
  using find_sub_first [of 60 "tl think_open" v s] by (simp add: js_index_of_def think_open_def)

lemma index_close:
  "\<not> js_includes think_close r \<Longrightarrow>
   js_index_of (pre @ think_open @ r @ think_close @ s) think_close (length pre + 7) = Some (length pre + 7 + length r)"
  using find_sub_first [of 60 "tl think_close" r s] by (simp add: js_index_of_def think_open_def think_close_def)

lemma think_loop_block:
  assumes "\<not> js_includes think_open v" and "\<not> js_includes think_close r"
  shows "think_loop (pre @ v @ think_open @ r @ think_close @ s) (length pre) visible thoughts =
    think_loop (pre @ v @ think_open @ r @ think_close @ s) (length (pre @ v @ think_open @ r @ think_close))
      (visible @ filter (\<lambda>p. p \<noteq> []) [v]) (thoughts @ [r])"
proof -
  let ?s = "pre @ v @ think_open @ r @ think_close @ s"
  have o: "js_index_of ?s think_open (length pre) = Some (length pre + length v)"
    by (rule index_open [OF assms(1)])
  have c: "js_index_of ?s think_close (length pre + length v + 7) = Some (length pre + length v + 7 + length r)"
    using index_close [OF assms(2), of "pre @ v" s] by simp
  have slices: "js_slice ?s (length pre) (length pre + length v) = v"
      "js_slice ?s (length pre + length v + 7) (length pre + length v + 7 + length r) = r"
    by (simp_all add: js_slice_def think_open_def)
  show ?thesis
    by (subst think_loop.simps) (simp only: o c slices Let_def option.case, simp add: add.commute add.left_commute)
qed

lemma think_loop_blocks:
  "plain_thoughts bs \<Longrightarrow>
   think_loop (pre @ print_thoughts bs @ s) (length pre) visible thoughts =
   think_loop (pre @ print_thoughts bs @ s) (length (pre @ print_thoughts bs))
     (visible @ filter (\<lambda>p. p \<noteq> []) (map fst bs)) (thoughts @ map snd bs)"
proof (induction bs arbitrary: pre visible thoughts)
  case Nil
  then show ?case by (simp add: print_thoughts_def)
next
  case (Cons b bs)
  obtain v r where b: "b = (v, r)" by (cases b)
  have plain: "\<not> js_includes think_open v" "\<not> js_includes think_close r" "plain_thoughts bs"
    using Cons.prems b by (simp_all add: plain_thoughts_def)
  have split: "print_thoughts (b # bs) = v @ think_open @ r @ think_close @ print_thoughts bs"
    by (simp add: b print_thoughts_def)
  note split = split [unfolded b]
  show ?case
    using think_loop_block [OF plain(1,2), of pre "print_thoughts bs @ s" visible thoughts]
      Cons.IH [OF plain(3), of "pre @ v @ think_open @ r @ think_close" "visible @ filter (\<lambda>p. p \<noteq> []) [v]" "thoughts @ [r]"]
    by (simp add: split b del: think_loop.simps)
qed

lemma think_loop_end:
  assumes "\<not> js_includes think_open v"
  shows "think_loop (pre @ v) (length pre) visible thoughts = (visible @ filter (\<lambda>p. p \<noteq> []) [v], thoughts, False)"
proof -
  have "js_index_of (pre @ v) think_open (length pre) = None" using assms by (simp add: js_index_of_def find_sub_None)
  then show ?thesis by (subst think_loop.simps) simp
qed

lemma think_loop_open:
  assumes "\<not> js_includes think_open v" and "\<not> js_includes think_close r"
  shows "think_loop (pre @ v @ think_open @ r) (length pre) visible thoughts =
    (visible @ filter (\<lambda>p. p \<noteq> []) [v], thoughts @ [r], True)"
proof -
  have c: "js_index_of (pre @ v @ think_open @ r) think_close (length pre + length v + 7) = None"
    using assms(2) by (simp add: js_index_of_def find_sub_None think_open_def)
  show ?thesis
    by (subst think_loop.simps) (simp add: index_open [OF assms(1)] c js_slice_def Let_def)
qed

lemma js_join_Nil: "js_join [] (xs @ filter (\<lambda>p. p \<noteq> []) ys) = js_join [] (xs @ ys)"
  "js_join [] (filter (\<lambda>p. p \<noteq> []) ys) = concat ys"
proof -
  have c: "js_join [] zs = concat zs" for zs by (induction "[] :: jsstring" zs rule: js_join.induct) auto
  have f: "concat (filter (\<lambda>p. p \<noteq> []) zs) = concat zs" for zs :: "jsstring list" by (induction zs) auto
  show "js_join [] (xs @ filter (\<lambda>p. p \<noteq> []) ys) = js_join [] (xs @ ys)" "js_join [] (filter (\<lambda>p. p \<noteq> []) ys) = concat ys"
    by (simp_all add: c f)
qed

lemma includes_thoughts: "bs \<noteq> [] \<Longrightarrow> js_includes think_open (print_thoughts bs @ s)" "js_includes think_open (v @ think_open @ r)"
proof -
  show "bs \<noteq> [] \<Longrightarrow> js_includes think_open (print_thoughts bs @ s)"
    by (cases bs) (auto simp: js_includes_iff print_thoughts_def intro: exI [where x = "fst (hd bs)"])
  show "js_includes think_open (v @ think_open @ r)" by (auto simp: js_includes_iff)
qed

lemma parse_closed_thoughts:
  assumes "plain_thoughts bs" and "\<not> js_includes think_open v" and "bs \<noteq> []"
  shows "parseThinkTags (print_thoughts bs @ v) =
    \<lparr>tt_visible = js_trim (concat (map fst bs) @ v), tt_reasoning = js_trim (js_join [10, 10] (map snd bs)), tt_unclosed = False\<rparr>"
  using think_loop_blocks [OF assms(1), of "[]" v "[]" "[]"] think_loop_end [OF assms(2), of "print_thoughts bs"]
    includes_thoughts(1) [OF assms(3), of v] js_join_Nil(2) [of "map fst bs @ [v]"]
  by (simp add: parseThinkTags_def del: filter.simps)

lemma parse_open_thought:
  assumes "plain_thoughts bs" and "\<not> js_includes think_open v" and "\<not> js_includes think_close r"
  shows "parseThinkTags (print_thoughts bs @ v @ think_open @ r) =
    \<lparr>tt_visible = js_trim (concat (map fst bs) @ v), tt_reasoning = js_trim (js_join [10, 10] (map snd bs @ [r])), tt_unclosed = True\<rparr>"
  using think_loop_blocks [OF assms(1), of "[]" "v @ think_open @ r" "[]" "[]"]
    think_loop_open [OF assms(2,3), of "print_thoughts bs"]
    includes_thoughts(2) [of "print_thoughts bs @ v" r] js_join_Nil(2) [of "map fst bs @ [v]"]
  by (simp add: parseThinkTags_def del: filter.simps)

lemma thoughts_cover:
  "\<exists>bs v r. plain_thoughts bs \<and> \<not> js_includes think_open v \<and> \<not> js_includes think_close r
     \<and> (content = print_thoughts bs @ v \<or> content = print_thoughts bs @ v @ think_open @ r)"
proof (induction "length content" arbitrary: content rule: less_induct)
  case less
  show ?case
  proof (cases "js_includes think_open content")
    case False
    moreover have "\<not> js_includes think_close []" by (simp add: think_close_def)
    ultimately show ?thesis
      by (intro exI [of _ "[]"] exI [of _ content]) (simp add: plain_thoughts_def print_thoughts_def)
  next
    case True
    obtain v s where s: "content = v @ think_open @ s" "\<not> js_includes think_open v"
      using first_occurrence [OF True] by (auto simp: think_open_def)
    show ?thesis
    proof (cases "js_includes think_close s")
      case False
      with s show ?thesis
        by (intro exI [of _ "[]"] exI [of _ v] exI [of _ s]) (simp add: plain_thoughts_def print_thoughts_def)
    next
      case True
      obtain r s' where r: "s = r @ think_close @ s'" "\<not> js_includes think_close r"
        using first_occurrence [OF True] by (auto simp: think_close_def)
      have "length s' < length content" using s(1) r(1) by simp
      from less [OF this] obtain bs v' r' where
        IH: "plain_thoughts bs" "\<not> js_includes think_open v'" "\<not> js_includes think_close r'"
          "s' = print_thoughts bs @ v' \<or> s' = print_thoughts bs @ v' @ think_open @ r'" by blast
      then show ?thesis using s r
        by (intro exI [of _ "(v, r) # bs"] exI [of _ v'] exI [of _ r']) (auto simp: plain_thoughts_def print_thoughts_def)
    qed
  qed
qed

text \<open>
  C29: A message text is separated exactly at its think tags. Take a text of visible parts and closed
  thoughts, the visible parts without an opening tag and the thoughts without a closing one: with a
  thought in it, the visible parts are joined as they are and the thoughts by blank lines, both
  trimmed; without, the text is visible unchanged. A thought that is still open counts as reasoning
  to the end of the text, and the text is reported as unclosed. Every text has this form.
\<close>

theorem think_tags_exact:
  assumes "plain_thoughts bs" and "\<not> js_includes think_open v"
  shows "parseThinkTags (print_thoughts bs @ v) =
      (if bs = [] then \<lparr>tt_visible = v, tt_reasoning = [], tt_unclosed = False\<rparr>
       else \<lparr>tt_visible = js_trim (concat (map fst bs) @ v), tt_reasoning = js_trim (js_join [10, 10] (map snd bs)),
             tt_unclosed = False\<rparr>)
    \<and> (\<not> js_includes think_close r \<longrightarrow> parseThinkTags (print_thoughts bs @ v @ think_open @ r) =
      \<lparr>tt_visible = js_trim (concat (map fst bs) @ v), tt_reasoning = js_trim (js_join [10, 10] (map snd bs @ [r])),
       tt_unclosed = True\<rparr>)
    \<and> (\<exists>bs v r. plain_thoughts bs \<and> \<not> js_includes think_open v \<and> \<not> js_includes think_close r
         \<and> (content = print_thoughts bs @ v \<or> content = print_thoughts bs @ v @ think_open @ r))"
proof -
  have "parseThinkTags (print_thoughts [] @ v) = \<lparr>tt_visible = v, tt_reasoning = [], tt_unclosed = False\<rparr>"
    using assms(2) by (simp add: parseThinkTags_def print_thoughts_def)
  then show ?thesis
    using parse_closed_thoughts [OF assms] parse_open_thought [OF assms] thoughts_cover [of content] by simp
qed

theorem think_tags_exact_witness:
  "parseThinkTags (js ''a<think>b</think>c<think>d'') =
     \<lparr>tt_visible = js ''ac'', tt_reasoning = js ''b'' @ [10, 10] @ js ''d'', tt_unclosed = True\<rparr>"
  using think_tags_exact [of "[(js ''a'', js ''b'')]" "js ''c''" "js ''d''" "[]"]
  by (simp add: plain_thoughts_def print_thoughts_def think_open_def think_close_def js_trim_def is_space_def
    js_starts_with_def)

end
