(* ===== verification/Chat_Handler.thy ===== *)
theory Chat_Handler
  imports Playground_Messages
begin

section \<open>Sending and receiving in the playground\<close>

text \<open>
  \<open>features/playground/hooks/use-chat-handler.ts\<close>, \<open>hooks/use-playground-conversation.ts\<close> and
  \<open>lib/streaming/payload-builder.ts\<close>. Requests are numbered; chunks of an answer are collected and
  written to the last message by a timer. Writing goes through a React state updater, which React
  runs when it renders the page, in the order of the calls, or already at the call: a queue that the
  event \<open>Render\<close> empties, and a flag that the next updater is run at once. The flag is set only by
  \<open>Render\<close>, so it is set only while the queue is empty. The events come in any order; a timer that is
  not running does not fire. Calls of the stream controller, of the server and of the toaster are
  recorded.
\<close>

subsection \<open>The request\<close>

record playground_config =
  pc_model :: jsstring
  pc_group :: jsstring
  pc_temperature :: jsnum
  pc_top_p :: jsnum
  pc_max_tokens :: jsnum
  pc_frequency_penalty :: jsnum
  pc_presence_penalty :: jsnum
  pc_seed :: "jsnum option"
  pc_stream :: bool

record parameter_enabled =
  pe_temperature :: bool
  pe_top_p :: bool
  pe_max_tokens :: bool
  pe_frequency_penalty :: bool
  pe_presence_penalty :: bool
  pe_seed :: bool

record chat_request =
  cr_model :: jsstring
  cr_group :: jsstring
  cr_messages :: "(message_role \<times> jsstring) list"
  cr_stream :: bool
  cr_temperature :: "jsnum option"
  cr_top_p :: "jsnum option"
  cr_max_tokens :: "jsnum option"
  cr_frequency_penalty :: "jsnum option"
  cr_presence_penalty :: "jsnum option"
  cr_seed :: "jsnum option"

definition when_set :: "bool \<Rightarrow> 'a \<Rightarrow> 'a option" where
  "when_set b x = (if b then Some x else None)"

definition buildChatCompletionPayload :: "message list \<Rightarrow> playground_config \<Rightarrow> parameter_enabled \<Rightarrow> chat_request" where
  "buildChatCompletionPayload messages config enabled =
     \<lparr>cr_model = pc_model config, cr_group = pc_group config,
      cr_messages = map formatMessageForAPI (filter isValidMessage messages), cr_stream = pc_stream config,
      cr_temperature = when_set (pe_temperature enabled) (pc_temperature config),
      cr_top_p = when_set (pe_top_p enabled) (pc_top_p config),
      cr_max_tokens = when_set (pe_max_tokens enabled) (pc_max_tokens config),
      cr_frequency_penalty = when_set (pe_frequency_penalty enabled) (pc_frequency_penalty config),
      cr_presence_penalty = when_set (pe_presence_penalty enabled) (pc_presence_penalty config),
      cr_seed = (if pe_seed enabled then pc_seed config else None)\<rparr>"

subsection \<open>Errors in words\<close>

definition NETWORK_ERROR :: jsstring where
  "NETWORK_ERROR = js ''Network connection failed or server not responding''"

definition KNOWN_ERROR_MESSAGES :: "jsstring list" where
  "KNOWN_ERROR_MESSAGES =
     [API_REQUEST_ERROR, NETWORK_ERROR, PARSE_ERROR, STREAM_START_ERROR, CONNECTION_CLOSED, INTERRUPTED]"

text \<open>\<open>localize\<close> is \<open>localizeConsoleErrorText\<close>, which translates a message or names the failure.\<close>

definition getPlaygroundDisplayError :: "(jsstring \<Rightarrow> jsstring) \<Rightarrow> jsstring \<Rightarrow> jsstring" where
  "getPlaygroundDisplayError localize err =
     (let trimmed = js_trim err in
      if trimmed = [] then localize []
      else if trimmed \<in> set KNOWN_ERROR_MESSAGES then localize trimmed
      else if js_ends_with (js '': '' @ CONNECTION_CLOSED) trimmed
      then take (length trimmed - length CONNECTION_CLOSED) trimmed @ localize CONNECTION_CLOSED
      else localize trimmed)"

subsection \<open>State\<close>

text \<open>What is passed to \<open>onMessageUpdate\<close>, with the request that it belongs to.\<close>

datatype chat_update =
    Replace "message list"
  | Append nat jsstring jsstring
  | Finish nat
  | Fail nat jsstring "jsstring option" jsstring
  | Answer nat "choice list"
  | Settle nat
  | Remove jsstring

datatype chat_call =
    Send_stream nat chat_request
  | Stop_stream
  | Post nat chat_request
  | Abort nat
  | Server_error jsstring

record chat =
  ch_messages :: "message list"
  ch_queue :: "chat_update list"
  ch_eager :: bool
  ch_generation :: nat
  ch_pending_generation :: nat
  ch_pending_content :: jsstring
  ch_pending_reasoning :: jsstring
  ch_timer :: "nat option"
  ch_requesting :: bool
  ch_abort :: "nat option"
  ch_aborted :: "nat list"
  ch_calls :: "chat_call list"

definition mergePendingStreamChunk :: "jsstring \<Rightarrow> jsstring \<Rightarrow> jsstring" where
  "mergePendingStreamChunk currentChunk nextChunk =
     (if currentChunk = [] \<or> \<not> js_starts_with currentChunk nextChunk then currentChunk @ nextChunk else nextChunk)"

subsection \<open>Updaters\<close>

definition append_chunks :: "clock \<Rightarrow> jsstring \<Rightarrow> jsstring \<Rightarrow> message \<Rightarrow> message" where
  "append_chunks now reasoning content m =
     (let m' = (if reasoning \<noteq> [] then applyStreamingChunk now m Reasoning reasoning else m) in
      if content \<noteq> [] then applyStreamingChunk (\<lambda>i. now (i + 1)) m' Content content else m')"

fun run_update :: "clock \<Rightarrow> nat \<Rightarrow> chat_update \<Rightarrow> message list \<Rightarrow> message list" where
  "run_update now current (Replace messages) prev = messages"
| "run_update now current (Remove key) prev = removeMessageByKey prev key"
| "run_update now current (Append g reasoning content) prev =
     (if g \<noteq> current then prev else updateLastAssistantMessage prev (append_chunks now reasoning content))"
| "run_update now current (Finish g) prev =
     (if g \<noteq> current then prev
      else updateLastAssistantMessage prev
             (\<lambda>m. if isAssistantMessageFinal m then m else completeAssistantMessage now m))"
| "run_update now current (Fail g displayError errorCode errorTitle) prev =
     (if g \<noteq> current then prev else updateAssistantMessageWithError now prev displayError errorCode errorTitle)"
| "run_update now current (Answer g choices) prev =
     (if g \<noteq> current then prev
      else updateLastAssistantMessage prev (\<lambda>m. or_default (applyChatCompletionResponse now m choices) m))"
| "run_update now current (Settle g) prev =
     (if g \<noteq> current then prev
      else updateLastAssistantMessage prev
             (\<lambda>m. if isAssistantMessagePending m then completeAssistantMessage now m else m))"

primrec run_queue :: "(nat \<Rightarrow> clock) \<Rightarrow> nat \<Rightarrow> chat_update list \<Rightarrow> message list \<Rightarrow> message list" where
  "run_queue clocks current [] messages = messages"
| "run_queue clocks current (u # us) messages =
     run_queue (\<lambda>i. clocks (Suc i)) current us (run_update (clocks 0) current u messages)"

definition onMessageUpdate :: "clock \<Rightarrow> chat_update \<Rightarrow> chat \<Rightarrow> chat" where
  "onMessageUpdate now u s =
     (if ch_eager s then s\<lparr>ch_messages := run_update now (ch_generation s) u (ch_messages s), ch_eager := False\<rparr>
      else s\<lparr>ch_queue := ch_queue s @ [u]\<rparr>)"

definition render :: "(nat \<Rightarrow> clock) \<Rightarrow> bool \<Rightarrow> chat \<Rightarrow> chat" where
  "render clocks eager s =
     s\<lparr>ch_messages := run_queue clocks (ch_generation s) (ch_queue s) (ch_messages s), ch_queue := [], ch_eager := eager\<rparr>"

subsection \<open>Handlers\<close>

definition calls :: "chat_call list \<Rightarrow> chat \<Rightarrow> chat" where
  "calls cs s = s\<lparr>ch_calls := ch_calls s @ cs\<rparr>"

definition discardPendingStreamUpdates :: "nat \<Rightarrow> chat \<Rightarrow> chat" where
  "discardPendingStreamUpdates g s =
     s\<lparr>ch_timer := None, ch_pending_generation := g, ch_pending_content := [], ch_pending_reasoning := []\<rparr>"

definition flushStreamUpdates :: "clock \<Rightarrow> nat \<Rightarrow> chat \<Rightarrow> chat" where
  "flushStreamUpdates now g s =
     (if g \<noteq> ch_generation s then s
      else (let s' = s\<lparr>ch_timer := None\<rparr>; reasoning = ch_pending_reasoning s; content = ch_pending_content s in
            if ch_pending_generation s \<noteq> g then s'
            else if reasoning = [] \<and> content = [] then s'
            else onMessageUpdate now (Append g reasoning content)
                   (s'\<lparr>ch_pending_content := [], ch_pending_reasoning := []\<rparr>)))"

definition scheduleStreamFlush :: "nat \<Rightarrow> chat \<Rightarrow> chat" where
  "scheduleStreamFlush g s =
     (if g \<noteq> ch_generation s \<or> ch_timer s \<noteq> None then s else s\<lparr>ch_timer := Some g\<rparr>)"

definition timer_fires :: "clock \<Rightarrow> chat \<Rightarrow> chat" where
  "timer_fires now s = (case ch_timer s of Some g \<Rightarrow> flushStreamUpdates now g s | None \<Rightarrow> s)"

definition handleStreamUpdate :: "nat \<Rightarrow> update_kind \<Rightarrow> jsstring \<Rightarrow> chat \<Rightarrow> chat" where
  "handleStreamUpdate g kind chunk s =
     (if g \<noteq> ch_generation s \<or> ch_pending_generation s \<noteq> g then s
      else scheduleStreamFlush g
             (case kind of
                Reasoning \<Rightarrow> s\<lparr>ch_pending_reasoning := mergePendingStreamChunk (ch_pending_reasoning s) chunk\<rparr>
              | Content \<Rightarrow> s\<lparr>ch_pending_content := mergePendingStreamChunk (ch_pending_content s) chunk\<rparr>))"

definition handleStreamComplete :: "clock \<Rightarrow> clock \<Rightarrow> nat \<Rightarrow> chat \<Rightarrow> chat" where
  "handleStreamComplete now now' g s =
     (if g \<noteq> ch_generation s then s
      else onMessageUpdate now' (Finish g) ((flushStreamUpdates now g s)\<lparr>ch_requesting := False\<rparr>))"

definition handleStreamError ::
    "(jsstring \<Rightarrow> jsstring) \<Rightarrow> jsstring \<Rightarrow> clock \<Rightarrow> clock \<Rightarrow> nat \<Rightarrow> jsstring \<Rightarrow> jsstring option \<Rightarrow> chat \<Rightarrow> chat" where
  "handleStreamError localize errorTitle now now' g err errorCode s =
     (if g \<noteq> ch_generation s then s
      else (let displayError = getPlaygroundDisplayError localize err in
            onMessageUpdate now' (Fail g displayError errorCode errorTitle)
              (calls [Server_error displayError] ((flushStreamUpdates now g s)\<lparr>ch_requesting := False\<rparr>))))"

text \<open>\<open>abortControllerRef.current?.abort()\<close>\<close>

definition abort_current :: "chat \<Rightarrow> chat" where
  "abort_current s =
     (case ch_abort s of
        Some g \<Rightarrow> calls [Abort g] (s\<lparr>ch_abort := None, ch_aborted := g # ch_aborted s\<rparr>)
      | None \<Rightarrow> s)"

definition sendStreamingChat :: "playground_config \<Rightarrow> parameter_enabled \<Rightarrow> message list \<Rightarrow> chat \<Rightarrow> chat" where
  "sendStreamingChat config enabled messages s =
     (let g = ch_generation s + 1 in
      calls [Send_stream g (buildChatCompletionPayload messages config enabled)]
        ((discardPendingStreamUpdates g (abort_current (s\<lparr>ch_generation := g\<rparr>)))\<lparr>ch_requesting := True\<rparr>))"

definition sendNonStreamingChat :: "playground_config \<Rightarrow> parameter_enabled \<Rightarrow> message list \<Rightarrow> chat \<Rightarrow> chat" where
  "sendNonStreamingChat config enabled messages s =
     (let g = ch_generation s + 1 in
      calls [Post g (buildChatCompletionPayload messages config enabled)]
        ((abort_current (discardPendingStreamUpdates g (calls [Stop_stream] (s\<lparr>ch_generation := g\<rparr>))))
           \<lparr>ch_abort := Some g, ch_requesting := True\<rparr>))"

definition sendChat :: "playground_config \<Rightarrow> parameter_enabled \<Rightarrow> message list \<Rightarrow> chat \<Rightarrow> chat" where
  "sendChat config enabled messages s =
     (if pc_stream config then sendStreamingChat config enabled messages s
      else sendNonStreamingChat config enabled messages s)"

text \<open>The \<open>finally\<close> block of a request without a stream.\<close>

definition request_over :: "nat \<Rightarrow> chat \<Rightarrow> chat" where
  "request_over g s = (if ch_generation s = g then s\<lparr>ch_abort := None, ch_requesting := False\<rparr> else s)"

definition answered ::
    "(jsstring \<Rightarrow> jsstring) \<Rightarrow> jsstring \<Rightarrow> clock \<Rightarrow> clock \<Rightarrow> nat \<Rightarrow> choice list \<Rightarrow> chat \<Rightarrow> chat" where
  "answered localize errorTitle now now' g choices s =
     request_over g
       (if g \<in> set (ch_aborted s) \<or> ch_generation s \<noteq> g then s
        else if \<not> hasChatCompletionChoice choices
        then handleStreamError localize errorTitle now now' g API_REQUEST_ERROR None s
        else onMessageUpdate now (Answer g choices) s)"

definition answer_failed ::
    "(jsstring \<Rightarrow> jsstring) \<Rightarrow> jsstring \<Rightarrow> clock \<Rightarrow> clock \<Rightarrow> nat \<Rightarrow> jsstring \<Rightarrow> jsstring option \<Rightarrow> chat \<Rightarrow> chat" where
  "answer_failed localize errorTitle now now' g errorMessage errorCode s =
     request_over g
       (if g \<in> set (ch_aborted s) \<or> ch_generation s \<noteq> g then s
        else handleStreamError localize errorTitle now now' g errorMessage errorCode s)"

definition stopGeneration :: "clock \<Rightarrow> clock \<Rightarrow> chat \<Rightarrow> chat" where
  "stopGeneration now now' s =
     (let stopped = ch_generation s; idle = stopped + 1;
          flushed = flushStreamUpdates now stopped s;
          stopped_stream = calls [Stop_stream] (discardPendingStreamUpdates idle (flushed\<lparr>ch_generation := idle\<rparr>)) in
      onMessageUpdate now' (Settle idle) ((abort_current stopped_stream)\<lparr>ch_requesting := False\<rparr>))"

definition unmount :: "chat \<Rightarrow> chat" where
  "unmount s = abort_current (s\<lparr>ch_generation := ch_generation s + 1, ch_timer := None\<rparr>)"

subsection \<open>Events\<close>

datatype chat_event =
    Start playground_config parameter_enabled "message list" clock
  | Delete jsstring clock
  | Chunk nat update_kind jsstring
  | Completed nat clock clock
  | Failed nat jsstring "jsstring option" clock clock
  | Answered nat "choice list" clock clock
  | Answer_failed nat jsstring "jsstring option" clock clock
  | Timer clock
  | Stop clock clock
  | Render "nat \<Rightarrow> clock" bool
  | Unmount

fun chat_step :: "(jsstring \<Rightarrow> jsstring) \<Rightarrow> jsstring \<Rightarrow> chat_event \<Rightarrow> chat \<Rightarrow> chat" where
  "chat_step localize title (Start config enabled messages now) s =
     sendChat config enabled messages (onMessageUpdate now (Replace messages) s)"
| "chat_step localize title (Delete key now) s = onMessageUpdate now (Remove key) s"
| "chat_step localize title (Chunk g kind chunk) s = handleStreamUpdate g kind chunk s"
| "chat_step localize title (Completed g now now') s = handleStreamComplete now now' g s"
| "chat_step localize title (Failed g err code now now') s = handleStreamError localize title now now' g err code s"
| "chat_step localize title (Answered g choices now now') s = answered localize title now now' g choices s"
| "chat_step localize title (Answer_failed g err code now now') s = answer_failed localize title now now' g err code s"
| "chat_step localize title (Timer now) s = timer_fires now s"
| "chat_step localize title (Stop now now') s = stopGeneration now now' s"
| "chat_step localize title (Render clocks eager) s = render clocks eager s"
| "chat_step localize title Unmount s = unmount s"

definition run_chat :: "(jsstring \<Rightarrow> jsstring) \<Rightarrow> jsstring \<Rightarrow> chat_event list \<Rightarrow> chat \<Rightarrow> chat" where
  "run_chat localize title es s = foldl (\<lambda>s e. chat_step localize title e s) s es"

end
