(* ===== verification/Chat_Delivery.thy ===== *)
theory Chat_Delivery
  imports Chat_Handler
begin

section \<open>What a streamed answer becomes\<close>

text \<open>
  The handler of \<open>Chat_Handler\<close> against the order of events: the chunks of an answer, the timer, the
  renderings of the page and the callbacks of older requests interleave as they like.
\<close>

subsection \<open>The texts of a message\<close>

definition reasoning_text :: "message \<Rightarrow> jsstring" where
  "reasoning_text m = (case msg_reasoning m of Some r \<Rightarrow> rs_content r | None \<Rightarrow> [])"

definition open_answer :: "message \<Rightarrow> bool" where
  "open_answer m \<longleftrightarrow> msg_from m = Assistant \<and> isAssistantMessagePending m"

lemma content_simps [simp]:
  "getMessageContent (updateCurrentVersionContent m c) = c"
  "msg_from (updateCurrentVersionContent m c) = msg_from m"
  "msg_status (updateCurrentVersionContent m c) = msg_status m"
  "msg_key (updateCurrentVersionContent m c) = msg_key m"
  "msg_reasoning (updateCurrentVersionContent m c) = msg_reasoning m"
  by (simp_all add: getMessageContent_def updateCurrentVersionContent_def getCurrentVersion_def)

lemma content_fields [simp]:
  "getMessageContent (m\<lparr>msg_reasoning := r\<rparr>) = getMessageContent m"
  "getMessageContent (m\<lparr>msg_status := st\<rparr>) = getMessageContent m"
  "getMessageContent (m\<lparr>msg_isReasoningStreaming := b\<rparr>) = getMessageContent m"
  by (simp_all add: getMessageContent_def getCurrentVersion_def)

lemma reasoning_timing [simp]:
  "getMessageContent (completeReasoningTiming m t) = getMessageContent m"
  "reasoning_text (completeReasoningTiming m t) = reasoning_text m"
  "msg_from (completeReasoningTiming m t) = msg_from m"
  "msg_key (completeReasoningTiming m t) = msg_key m"
  "msg_status (completeReasoningTiming m t) = msg_status m"
  "rs_content (startReasoningTiming m t) = reasoning_text m"
  by (simp_all add: completeReasoningTiming_def startReasoningTiming_def reasoning_text_def Let_def getMessageContent_def
      getCurrentVersion_def split: option.split)

lemma assistant_timing [simp]:
  "getMessageContent (completeAssistantTiming m t) = getMessageContent m"
  "reasoning_text (completeAssistantTiming m t) = reasoning_text m"
  "msg_from (completeAssistantTiming m t) = msg_from m"
  "msg_key (completeAssistantTiming m t) = msg_key m"
  "msg_status (completeAssistantTiming m t) = msg_status m"
  by (simp_all add: completeAssistantTiming_def reasoning_text_def Let_def getMessageContent_def getCurrentVersion_def)

lemma reasoning_text_fields [simp]:
  "reasoning_text (m\<lparr>msg_reasoning := Some r\<rparr>) = rs_content r"
  "reasoning_text (m\<lparr>msg_reasoning := msg_reasoning n\<rparr>) = reasoning_text n"
  "reasoning_text (m\<lparr>msg_status := st\<rparr>) = reasoning_text m"
  "reasoning_text (m\<lparr>msg_isReasoningStreaming := b\<rparr>) = reasoning_text m"
  "reasoning_text (updateCurrentVersionContent m c) = reasoning_text m"
  by (simp_all add: reasoning_text_def)

lemma parse_without_tags: "\<not> js_includes think_open c \<Longrightarrow> tt_reasoning (parseThinkTags c) = []"
  "\<not> js_includes think_open c \<Longrightarrow> tt_unclosed (parseThinkTags c) = False"
  by (simp_all add: parseThinkTags_def)

lemma streaming_content:
  assumes "\<not> js_includes think_open (getMessageContent m @ c)"
  shows "getMessageContent (processStreamingContent now m c) = getMessageContent m @ c"
    "reasoning_text (processStreamingContent now m c) = reasoning_text m"
    "msg_from (processStreamingContent now m c) = msg_from m"
    "msg_key (processStreamingContent now m c) = msg_key m"
  using assms parse_without_tags [of "getMessageContent m @ c"]
  by (simp_all add: processStreamingContent_def Let_def flip: getMessageContent_def)

lemma open_no_error: "open_answer m \<Longrightarrow> msg_status m \<noteq> Some Error_status"
  by (auto simp: open_answer_def isAssistantMessagePending_def)

lemma apply_reasoning:
  assumes "open_answer m" and "reasoning_text m = [] \<or> \<not> js_starts_with (reasoning_text m) r"
  shows "open_answer (applyStreamingChunk now m Reasoning r)"
    "getMessageContent (applyStreamingChunk now m Reasoning r) = getMessageContent m"
    "reasoning_text (applyStreamingChunk now m Reasoning r) = reasoning_text m @ r"
    "msg_key (applyStreamingChunk now m Reasoning r) = msg_key m"
  using assms open_no_error [OF assms(1)]
  by (auto simp: open_answer_def isAssistantMessagePending_def applyStreamingChunk_def Let_def getAppendableChunk_def)

lemma apply_content:
  assumes "open_answer m" and "getMessageContent m = [] \<or> \<not> js_starts_with (getMessageContent m) c"
    and "\<not> js_includes think_open (getMessageContent m @ c)"
  shows "open_answer (applyStreamingChunk now m Content c)"
    "getMessageContent (applyStreamingChunk now m Content c) = getMessageContent m @ c"
    "reasoning_text (applyStreamingChunk now m Content c) = reasoning_text m"
    "msg_key (applyStreamingChunk now m Content c) = msg_key m"
  using assms streaming_content [OF assms(3)] open_no_error [OF assms(1)]
  by (auto simp: open_answer_def isAssistantMessagePending_def applyStreamingChunk_def Let_def
      getAppendableChunk_def simp flip: getMessageContent_def)

lemma append_chunks_text:
  assumes "open_answer m"
    and "r = [] \<or> reasoning_text m = [] \<or> \<not> js_starts_with (reasoning_text m) r"
    and "c = [] \<or> getMessageContent m = [] \<or> \<not> js_starts_with (getMessageContent m) c"
    and "\<not> js_includes think_open (getMessageContent m @ c)"
  shows "open_answer (append_chunks now r c m) \<and> getMessageContent (append_chunks now r c m) = getMessageContent m @ c
    \<and> reasoning_text (append_chunks now r c m) = reasoning_text m @ r \<and> msg_key (append_chunks now r c m) = msg_key m"
proof -
  define m' where "m' = (if r \<noteq> [] then applyStreamingChunk now m Reasoning r else m)"
  have m': "open_answer m'" "getMessageContent m' = getMessageContent m" "reasoning_text m' = reasoning_text m @ r"
      "msg_key m' = msg_key m"
    using assms(1,2) apply_reasoning [OF assms(1), of r now] by (auto simp: m'_def)
  show ?thesis
  proof (cases "c = []")
    case True
    then show ?thesis using m' by (simp add: append_chunks_def flip: m'_def)
  next
    case False
    then show ?thesis using m' assms(3,4) apply_content [OF m'(1), of c] by (simp add: append_chunks_def flip: m'_def)
  qed
qed

lemma complete_text:
  assumes "open_answer m" and "\<not> js_includes think_open (getMessageContent m)"
  shows "getMessageContent (completeAssistantMessage now m) = getMessageContent m
    \<and> reasoning_text (completeAssistantMessage now m) = reasoning_text m
    \<and> msg_status (completeAssistantMessage now m) = Some Complete_status
    \<and> msg_from (completeAssistantMessage now m) = Assistant \<and> msg_key (completeAssistantMessage now m) = msg_key m"
proof -
  have t: "or_nonempty (map_option rs_content (msg_reasoning m)) [] = reasoning_text m"
    by (cases "msg_reasoning m"; cases "rs_content (the (msg_reasoning m))") (simp_all add: or_nonempty_def reasoning_text_def)
  have [simp]: "reasoning_text (x\<lparr>msg_reasoning := None\<rparr>) = []" for x by (simp add: reasoning_text_def)
  show ?thesis
    using assms t
    by (simp add: completeAssistantMessage_def finalizeMessage_def Let_def open_answer_def or_default_def or_nonempty_def [of None]
        flip: getMessageContent_def)
qed

subsection \<open>Chunks that repeat nothing\<close>




subsection \<open>The invariant of an answer\<close>


text \<open>The messages once React has run what is queued.\<close>

definition settled :: "(message list \<Rightarrow> bool) \<Rightarrow> chat \<Rightarrow> bool" where
  "settled Q s \<longleftrightarrow> (\<forall>clocks. Q (run_queue clocks (ch_generation s) (ch_queue s) (ch_messages s)))"


definition eager_ok :: "chat \<Rightarrow> bool" where
  "eager_ok s \<longleftrightarrow> (ch_eager s \<longrightarrow> ch_queue s = [])"



lemma settled_fields [simp]:
  "settled Q (s\<lparr>ch_timer := t\<rparr>) = settled Q s" "settled Q (s\<lparr>ch_requesting := b\<rparr>) = settled Q s"
  "settled Q (s\<lparr>ch_pending_content := c\<rparr>) = settled Q s" "settled Q (s\<lparr>ch_pending_reasoning := c\<rparr>) = settled Q s"
  "eager_ok (s\<lparr>ch_timer := t\<rparr>) = eager_ok s" "eager_ok (s\<lparr>ch_requesting := b\<rparr>) = eager_ok s"
  "eager_ok (s\<lparr>ch_pending_content := c\<rparr>) = eager_ok s" "eager_ok (s\<lparr>ch_pending_reasoning := c\<rparr>) = eager_ok s"
  by (simp_all add: settled_def eager_ok_def)

lemma update_fields [simp]:
  "ch_generation (onMessageUpdate now u s) = ch_generation s"
  "ch_pending_generation (onMessageUpdate now u s) = ch_pending_generation s"
  "ch_pending_content (onMessageUpdate now u s) = ch_pending_content s"
  "ch_pending_reasoning (onMessageUpdate now u s) = ch_pending_reasoning s"
  "ch_timer (onMessageUpdate now u s) = ch_timer s"
  "ch_requesting (onMessageUpdate now u s) = ch_requesting s"
  by (simp_all add: onMessageUpdate_def)









lemma schedule_fields [simp]:
  "settled Q (scheduleStreamFlush g s) = settled Q s" "eager_ok (scheduleStreamFlush g s) = eager_ok s"
  "ch_generation (scheduleStreamFlush g s) = ch_generation s"
  "ch_pending_generation (scheduleStreamFlush g s) = ch_pending_generation s"
  "ch_pending_content (scheduleStreamFlush g s) = ch_pending_content s"
  "ch_pending_reasoning (scheduleStreamFlush g s) = ch_pending_reasoning s"
  by (simp_all add: scheduleStreamFlush_def)





subsection \<open>Callbacks of superseded requests\<close>

text \<open>The request that an event is a callback of, and the request that an updater belongs to.\<close>

fun event_request :: "chat_event \<Rightarrow> nat option" where
  "event_request (Chunk g _ _) = Some g"
| "event_request (Completed g _ _) = Some g"
| "event_request (Failed g _ _ _ _) = Some g"
| "event_request (Answered g _ _ _) = Some g"
| "event_request (Answer_failed g _ _ _ _) = Some g"
| "event_request _ = None"

fun update_request :: "chat_update \<Rightarrow> nat option" where
  "update_request (Append g _ _) = Some g"
| "update_request (Finish g) = Some g"
| "update_request (Fail g _ _ _) = Some g"
| "update_request (Answer g _) = Some g"
| "update_request (Settle g) = Some g"
| "update_request _ = None"

lemma stale_event: "event_request e = Some g \<Longrightarrow> g \<noteq> ch_generation s \<Longrightarrow> chat_step localize title e s = s"
  by (cases e) (auto simp: handleStreamUpdate_def handleStreamComplete_def handleStreamError_def answered_def
      answer_failed_def request_over_def)

lemma stale_update: "update_request u = Some g \<Longrightarrow> g \<noteq> current \<Longrightarrow> run_update now current u ms = ms"
  by (cases u) auto


lemma eager_ok_fields [simp]:
  "eager_ok (calls cs s) = eager_ok s" "eager_ok (discardPendingStreamUpdates g s) = eager_ok s"
  "eager_ok (s\<lparr>ch_generation := g\<rparr>) = eager_ok s" "eager_ok (s\<lparr>ch_abort := a\<rparr>) = eager_ok s"
  "eager_ok (abort_current s) = eager_ok s" "eager_ok (request_over g s) = eager_ok s"
  by (simp_all add: eager_ok_def calls_def discardPendingStreamUpdates_def abort_current_def request_over_def split: option.split)





subsection \<open>From the request to the complete answer\<close>

definition new_chat :: "message list \<Rightarrow> chat" where
  "new_chat messages =
     \<lparr>ch_messages = messages, ch_queue = [], ch_eager = False, ch_generation = 0, ch_pending_generation = 0,
      ch_pending_content = [], ch_pending_reasoning = [], ch_timer = None, ch_requesting = False, ch_abort = None,
      ch_aborted = [], ch_calls = []\<rparr>"









subsection \<open>From the messages of the stream to the page\<close>






definition sample_config :: playground_config where
  "sample_config = \<lparr>pc_model = [], pc_group = [], pc_temperature = JFin 1, pc_top_p = JFin 1, pc_max_tokens = JFin 1,
     pc_frequency_penalty = JFin 0, pc_presence_penalty = JFin 0, pc_seed = None, pc_stream = True\<rparr>"

definition sample_enabled :: parameter_enabled where
  "sample_enabled = \<lparr>pe_temperature = True, pe_top_p = True, pe_max_tokens = False, pe_frequency_penalty = True,
     pe_presence_penalty = True, pe_seed = False\<rparr>"



lemma loading_open [simp]: "open_answer (createLoadingAssistantMessage k n t)"
  "getMessageContent (createLoadingAssistantMessage k n t) = []" "reasoning_text (createLoadingAssistantMessage k n t) = []"
  "msg_key (createLoadingAssistantMessage k n t) = k" "msg_reasoning (createLoadingAssistantMessage k n t) = None"
  by (simp_all add: createLoadingAssistantMessage_def open_answer_def isAssistantMessagePending_def getMessageContent_def
      getCurrentVersion_def createMessageVersion_def reasoning_text_def)


text \<open>
  C26: A request that was replaced or stopped does not touch the conversation any more: its callbacks can
  be left out of any further run without changing the state, and updates that it still has in the
  queue change nothing when React runs them.
\<close>

theorem superseded_answers_ignored:
  assumes "g < ch_generation s"
  shows "run_chat localize title es s = run_chat localize title (filter (\<lambda>e. event_request e \<noteq> Some g) es) s
    \<and> (list_all (\<lambda>u. update_request u = Some g) us \<longrightarrow> run_queue clocks (ch_generation s) us ms = ms)"
proof
  have gen: "ch_generation t \<le> ch_generation (chat_step localize title e t)" for e t
    by (cases e) (simp_all add: sendChat_def sendStreamingChat_def sendNonStreamingChat_def handleStreamUpdate_def
        handleStreamComplete_def handleStreamError_def answered_def answer_failed_def request_over_def timer_fires_def
        stopGeneration_def render_def unmount_def abort_current_def calls_def discardPendingStreamUpdates_def
        flushStreamUpdates_def scheduleStreamFlush_def Let_def split: option.split update_kind.split)
  show "run_chat localize title es s = run_chat localize title (filter (\<lambda>e. event_request e \<noteq> Some g) es) s"
    using assms unfolding run_chat_def
  proof (induction es arbitrary: s)
    case (Cons e es)
    then show ?case using stale_event [of e g s] less_le_trans [OF Cons.prems gen] by auto
  qed simp
  have "list_all (\<lambda>u. update_request u = Some g) us \<Longrightarrow> run_queue clocks (ch_generation s) us ms = ms"
    using assms stale_update by (induction us arbitrary: clocks) auto
  then show "list_all (\<lambda>u. update_request u = Some g) us \<longrightarrow> run_queue clocks (ch_generation s) us ms = ms" by blast
qed

theorem superseded_answers_ignored_witness:
  "run_chat id [] [Stop (\<lambda>_. JFin 0) (\<lambda>_. JFin 0), Chunk 0 Content (js ''x'')] ((new_chat [])\<lparr>ch_generation := 1\<rparr>) =
   run_chat id [] [Stop (\<lambda>_. JFin 0) (\<lambda>_. JFin 0)] ((new_chat [])\<lparr>ch_generation := 1\<rparr>)
   \<and> run_queue (\<lambda>_ _. JFin 0) 1 [Append 0 [] (js ''x'')] [] = []"
  using superseded_answers_ignored [of 0 "(new_chat [])\<lparr>ch_generation := 1\<rparr>" id "[]"
      "[Stop (\<lambda>_. JFin 0) (\<lambda>_. JFin 0), Chunk 0 Content (js ''x'')]" "[Append 0 [] (js ''x'')]" "\<lambda>_ _. JFin 0" "[]"]
  by (simp add: new_chat_def del: run_queue.simps)

subsection \<open>Where text is lost\<close>





text \<open>
  The state of a request that was started and rendered and has received one chunk, and the page after
  it was stopped.
\<close>

lemma settle_answer:
  assumes "open_answer m" and "\<not> js_includes think_open (getMessageContent m)"
  shows "\<exists>m'. run_update now g (Settle g) (base @ [m]) = base @ [m'] \<and> getMessageContent m' = getMessageContent m
    \<and> msg_status m' = Some Complete_status"
  using complete_text [OF assms, of now] assms(1) by (simp add: updateLastAssistantMessage_def open_answer_def)

lemma stopped_page:
  assumes "pc_stream config" and "c \<noteq> []"
  shows "run_chat localize title
      [Start config enabled (base @ [m]) t, Render ts e, Chunk 1 Content c, Stop t1 t2, Render ts' b] (new_chat messages)
    = render ts' b (stopGeneration t1 t2
        \<lparr>ch_messages = base @ [m], ch_queue = [], ch_eager = e, ch_generation = 1, ch_pending_generation = 1,
         ch_pending_content = c, ch_pending_reasoning = [], ch_timer = Some 1, ch_requesting = True, ch_abort = None,
         ch_aborted = [], ch_calls = [Send_stream 1 (buildChatCompletionPayload (base @ [m]) config enabled)]\<rparr>)"
  using assms by (simp add: run_chat_def sendChat_def sendStreamingChat_def new_chat_def onMessageUpdate_def Let_def abort_current_def
      discardPendingStreamUpdates_def calls_def render_def handleStreamUpdate_def scheduleStreamFlush_def mergePendingStreamChunk_def)

lemma stop_result:
  "ch_messages (render ts' b (stopGeneration t1 t2
        \<lparr>ch_messages = base @ [m], ch_queue = [], ch_eager = e, ch_generation = 1, ch_pending_generation = 1,
         ch_pending_content = c, ch_pending_reasoning = [], ch_timer = Some 1, ch_requesting = True, ch_abort = None,
         ch_aborted = [], ch_calls = cs\<rparr>)) =
   (if c = [] then (if e then run_update t2 2 (Settle 2) (base @ [m]) else run_update (ts' 0) 2 (Settle 2) (base @ [m]))
    else if e then run_update (ts' 0) 2 (Settle 2) (run_update t1 1 (Append 1 [] c) (base @ [m]))
    else run_update (ts' 1) 2 (Settle 2) (base @ [m]))"
  by (simp add: stopGeneration_def flushStreamUpdates_def onMessageUpdate_def Let_def abort_current_def
      discardPendingStreamUpdates_def calls_def render_def numeral_2_eq_2 del: run_update.simps(7))

text \<open>
  C28: Stopping an answer writes the pending chunk only if React runs its updater at once. The updater
  compares the request with the current one, and the stop has moved on to the next number before a
  rendering runs the updater: then the pending text is dropped and the answer is completed without it.
\<close>

theorem stop_may_drop_pending:
  assumes "pc_stream config" and "c \<noteq> []" and "\<not> js_includes think_open c"
  shows "\<exists>m. ch_messages (run_chat localize title
        [Start config enabled (base @ [createLoadingAssistantMessage k n t0]) t, Render ts e, Chunk 1 Content c, Stop t1 t2, Render ts' b]
        (new_chat messages)) = base @ [m]
      \<and> getMessageContent m = (if e then c else []) \<and> msg_status m = Some Complete_status"
proof -
  let ?m = "createLoadingAssistantMessage k n t0"
  have n: "\<not> js_includes think_open []" by (simp add: think_open_def)
  have "\<exists>m. run_update t1 1 (Append 1 [] c) (base @ [?m]) = base @ [m] \<and> open_answer m \<and> getMessageContent m = c"
    using append_chunks_text [OF loading_open(1), of "[]" k n t0 c t1] assms(3) loading_open(1) [of k n t0]
    by (simp add: updateLastAssistantMessage_def open_answer_def)
  then obtain m where m: "run_update t1 1 (Append 1 [] c) (base @ [?m]) = base @ [m]" "open_answer m" "getMessageContent m = c"
    by blast
  show ?thesis
    using settle_answer [of ?m "ts' 1" 2 base] settle_answer [OF m(2), of "ts' 0" 2 base] m(1,3) assms(2,3) n
    by (simp only: stopped_page [OF assms(1,2)] stop_result) (cases e; simp)
qed

theorem stop_may_drop_pending_witness:
  "\<exists>m. ch_messages (run_chat id []
        [Start sample_config sample_enabled ([] @ [createLoadingAssistantMessage [1] [2] (JFin 0)]) (\<lambda>_. JFin 0), Render (\<lambda>_ _. JFin 0) False,
         Chunk 1 Content (js ''ha''), Stop (\<lambda>_. JFin 0) (\<lambda>_. JFin 0), Render (\<lambda>_ _. JFin 0) False] (new_chat [])) = [] @ [m]
      \<and> getMessageContent m = (if False then js ''ha'' else []) \<and> msg_status m = Some Complete_status"
  by (rule stop_may_drop_pending) (simp_all add: sample_config_def think_open_def js_starts_with_def)

end
