(* ===== verification/Playground_Storage.thy ===== *)
theory Playground_Storage
  imports Chat_Handler Js_Stringify Auth_Store
begin

section \<open>The stored conversation\<close>

text \<open>
  \<open>features/playground/lib/storage/storage.ts\<close> and \<open>storage-schema.ts\<close>: conversations and settings of the
  playground in \<open>localStorage\<close>, under keys of the signed-in user. The storage is a map from keys to
  texts; \<open>full\<close> tells whether it refuses to write. What the schemas of \<open>zod\<close> accept is written out:
  objects lose unknown keys, an optional key may be absent but not null, numbers are finite.
\<close>

type_synonym local_storage = "jsstring \<rightharpoonup> jsstring"

definition MAX_STORED_MESSAGES :: nat where "MAX_STORED_MESSAGES = 100"

definition MAX_STORED_MESSAGES_BYTES :: nat where "MAX_STORED_MESSAGES_BYTES = 1024 * 1024"

definition MAX_LOADED_MESSAGES_CHARS :: nat where "MAX_LOADED_MESSAGES_CHARS = 120000"

definition MAX_LOADED_MESSAGE_CHARS :: nat where "MAX_LOADED_MESSAGE_CHARS = 40000"

definition MIN_PREFIX_COLLAPSE_LENGTH :: nat where "MIN_PREFIX_COLLAPSE_LENGTH = 2000"

definition MIN_REPEATED_SECTION_COUNT :: nat where "MIN_REPEATED_SECTION_COUNT = 3"

definition TRUNCATED_CONTENT_SUFFIX :: jsstring where "TRUNCATED_CONTENT_SUFFIX = 10 # 10 # js ''[...]''"

definition CONFIG_KEY :: jsstring where "CONFIG_KEY = js ''playground_config''"

definition MESSAGES_KEY :: jsstring where "MESSAGES_KEY = js ''playground_messages''"

definition PARAMETER_ENABLED_KEY :: jsstring where "PARAMETER_ENABLED_KEY = js ''playground_parameter_enabled''"

definition STORAGE_KEYS :: "jsstring list" where
  "STORAGE_KEYS = [CONFIG_KEY, MESSAGES_KEY, PARAMETER_ENABLED_KEY]"

subsection \<open>Schemas\<close>

fun z_string :: "jsval \<Rightarrow> jsstring option" where
  "z_string (VStr s) = Some s"
| "z_string _ = None"

fun z_number :: "jsval \<Rightarrow> jsnum option" where
  "z_number (VNum x) = (if js_is_finite x then Some x else None)"
| "z_number _ = None"

fun z_boolean :: "jsval \<Rightarrow> bool option" where
  "z_boolean (VBool b) = Some b"
| "z_boolean _ = None"

fun z_optional :: "(jsval \<Rightarrow> 'a option) \<Rightarrow> jsval \<Rightarrow> 'a option option" where
  "z_optional f VUndefined = Some None"
| "z_optional f v = map_option Some (f v)"

fun z_nullable :: "(jsval \<Rightarrow> 'a option) \<Rightarrow> jsval \<Rightarrow> 'a option option" where
  "z_nullable f VNull = Some None"
| "z_nullable f v = map_option Some (f v)"

fun z_all :: "(jsval \<Rightarrow> 'a option) \<Rightarrow> jsval list \<Rightarrow> 'a list option" where
  "z_all f [] = Some []"
| "z_all f (v # vs) = (case f v of None \<Rightarrow> None | Some x \<Rightarrow> map_option (\<lambda>xs. x # xs) (z_all f vs))"

fun z_array :: "(jsval \<Rightarrow> 'a option) \<Rightarrow> jsval \<Rightarrow> 'a list option" where
  "z_array f (VArr vs) = z_all f vs"
| "z_array f _ = None"

fun is_plain_object :: "jsval \<Rightarrow> bool" where
  "is_plain_object (VObj _) = True"
| "is_plain_object _ = False"

fun role_text :: "message_role \<Rightarrow> jsstring" where
  "role_text User = js ''user''"
| "role_text Assistant = js ''assistant''"
| "role_text System = js ''system''"

fun status_text :: "message_status \<Rightarrow> jsstring" where
  "status_text Loading = js ''loading''"
| "status_text Streaming_status = js ''streaming''"
| "status_text Complete_status = js ''complete''"
| "status_text Error_status = js ''error''"

definition z_enum :: "('a \<Rightarrow> jsstring) \<Rightarrow> 'a list \<Rightarrow> jsval \<Rightarrow> 'a option" where
  "z_enum name xs v = find (\<lambda>x. v = VStr (name x)) xs"

definition messageRoleSchema :: "jsval \<Rightarrow> message_role option" where
  "messageRoleSchema = z_enum role_text [User, Assistant, System]"

definition messageStatusSchema :: "jsval \<Rightarrow> message_status option" where
  "messageStatusSchema = z_enum status_text [Loading, Streaming_status, Complete_status, Error_status]"

definition obind :: "'a option \<Rightarrow> ('a \<Rightarrow> 'b option) \<Rightarrow> 'b option" where
  "obind x f = (case x of Some a \<Rightarrow> f a | None \<Rightarrow> None)"

definition object_guard :: "jsval \<Rightarrow> 'a option \<Rightarrow> 'a option" where
  "object_guard v x = (if is_plain_object v then x else None)"

definition messageVersionSchema :: "jsval \<Rightarrow> message_version option" where
  "messageVersionSchema v = object_guard v
     (obind (z_string (js_get v (js ''id''))) (\<lambda>i.
      obind (z_string (js_get v (js ''content''))) (\<lambda>c.
      Some \<lparr>mv_id = i, mv_content = c\<rparr>)))"

definition sourceSchema :: "jsval \<Rightarrow> (jsstring \<times> jsstring) option" where
  "sourceSchema v = object_guard v
     (obind (z_string (js_get v (js ''href''))) (\<lambda>h.
      obind (z_string (js_get v (js ''title''))) (\<lambda>t. Some (h, t))))"

definition reasoningSchema :: "jsval \<Rightarrow> reasoning option" where
  "reasoningSchema v = object_guard v
     (obind (z_string (js_get v (js ''content''))) (\<lambda>c.
      obind (z_number (js_get v (js ''duration''))) (\<lambda>d.
      obind (z_optional z_number (js_get v (js ''startedAt''))) (\<lambda>s.
      obind (z_optional z_number (js_get v (js ''completedAt''))) (\<lambda>e.
      obind (z_optional z_number (js_get v (js ''durationMs''))) (\<lambda>ms.
      Some \<lparr>rs_content = c, rs_duration = d, rs_startedAt = s, rs_completedAt = e, rs_durationMs = ms\<rparr>))))))"

definition messageSchema :: "jsval \<Rightarrow> message option" where
  "messageSchema v = object_guard v
     (obind (z_string (js_get v (js ''key''))) (\<lambda>key.
      obind (messageRoleSchema (js_get v (js ''from''))) (\<lambda>from.
      obind (z_array messageVersionSchema (js_get v (js ''versions''))) (\<lambda>versions.
      if versions = [] then None else
      obind (z_optional z_number (js_get v (js ''createdAt''))) (\<lambda>createdAt.
      obind (z_optional z_number (js_get v (js ''startedAt''))) (\<lambda>startedAt.
      obind (z_optional z_number (js_get v (js ''completedAt''))) (\<lambda>completedAt.
      obind (z_optional z_number (js_get v (js ''durationMs''))) (\<lambda>durationMs.
      obind (z_optional (z_array sourceSchema) (js_get v (js ''sources''))) (\<lambda>sources.
      obind (z_optional reasoningSchema (js_get v (js ''reasoning''))) (\<lambda>r.
      obind (z_optional z_boolean (js_get v (js ''isReasoningStreaming''))) (\<lambda>rstr.
      obind (z_optional z_boolean (js_get v (js ''isReasoningComplete''))) (\<lambda>rc.
      obind (z_optional z_boolean (js_get v (js ''isContentComplete''))) (\<lambda>cc.
      obind (z_optional messageStatusSchema (js_get v (js ''status''))) (\<lambda>status.
      obind (z_optional (z_nullable z_string) (js_get v (js ''errorCode''))) (\<lambda>errorCode.
      Some \<lparr>msg_key = key, msg_from = from, msg_versions = versions, msg_createdAt = createdAt,
            msg_startedAt = startedAt, msg_completedAt = completedAt, msg_durationMs = durationMs,
            msg_sources = sources, msg_reasoning = r, msg_isReasoningStreaming = rstr,
            msg_isReasoningComplete = rc, msg_isContentComplete = cc, msg_status = status,
            msg_errorCode = errorCode\<rparr>)))))))))))))))"

definition messagesSchema :: "jsval \<Rightarrow> message list option" where
  "messagesSchema = z_array messageSchema"

subsection \<open>Messages as JSON\<close>

text \<open>The object that a schema returns: its keys in the order of the schema, undefined ones absent.\<close>

definition present :: "(jsstring \<times> jsval) list \<Rightarrow> jsval" where
  "present ps = VObj (filter (\<lambda>p. snd p \<noteq> VUndefined) ps)"

fun opt_val :: "('a \<Rightarrow> jsval) \<Rightarrow> 'a option \<Rightarrow> jsval" where
  "opt_val f None = VUndefined"
| "opt_val f (Some x) = f x"

fun null_val :: "('a \<Rightarrow> jsval) \<Rightarrow> 'a option \<Rightarrow> jsval" where
  "null_val f None = VNull"
| "null_val f (Some x) = f x"

definition version_val :: "message_version \<Rightarrow> jsval" where
  "version_val v = VObj [(js ''id'', VStr (mv_id v)), (js ''content'', VStr (mv_content v))]"

definition source_val :: "jsstring \<times> jsstring \<Rightarrow> jsval" where
  "source_val s = VObj [(js ''href'', VStr (fst s)), (js ''title'', VStr (snd s))]"

definition reasoning_val :: "reasoning \<Rightarrow> jsval" where
  "reasoning_val r = present
     [(js ''content'', VStr (rs_content r)), (js ''duration'', VNum (rs_duration r)),
      (js ''startedAt'', opt_val VNum (rs_startedAt r)), (js ''completedAt'', opt_val VNum (rs_completedAt r)),
      (js ''durationMs'', opt_val VNum (rs_durationMs r))]"

definition message_val :: "message \<Rightarrow> jsval" where
  "message_val m = present
     [(js ''key'', VStr (msg_key m)), (js ''from'', VStr (role_text (msg_from m))),
      (js ''versions'', VArr (map version_val (msg_versions m))),
      (js ''createdAt'', opt_val VNum (msg_createdAt m)), (js ''startedAt'', opt_val VNum (msg_startedAt m)),
      (js ''completedAt'', opt_val VNum (msg_completedAt m)), (js ''durationMs'', opt_val VNum (msg_durationMs m)),
      (js ''sources'', opt_val (\<lambda>ss. VArr (map source_val ss)) (msg_sources m)),
      (js ''reasoning'', opt_val reasoning_val (msg_reasoning m)),
      (js ''isReasoningStreaming'', opt_val VBool (msg_isReasoningStreaming m)),
      (js ''isReasoningComplete'', opt_val VBool (msg_isReasoningComplete m)),
      (js ''isContentComplete'', opt_val VBool (msg_isContentComplete m)),
      (js ''status'', opt_val (\<lambda>s. VStr (status_text s)) (msg_status m)),
      (js ''errorCode'', opt_val (null_val VStr) (msg_errorCode m))]"

definition envelope :: "jsval \<Rightarrow> jsval" where
  "envelope data = VObj [(js ''version'', VNum (JFin 1)), (js ''data'', data)]"

subsection \<open>Reading and writing\<close>

text \<open>The key of the signed-in user; the keys without an owner are removed first.\<close>

definition drop_legacy :: "local_storage \<Rightarrow> local_storage" where
  "drop_legacy st = st |` (- set STORAGE_KEYS)"

definition user_key :: "jsstring \<Rightarrow> jsnum \<Rightarrow> jsstring" where
  "user_key key userId = key @ 58 # js_number_text userId"

definition getUserStorageKey :: "auth_state \<Rightarrow> jsstring \<Rightarrow> jsstring option" where
  "getUserStorageKey auth key = map_option (\<lambda>u. user_key key (au_id u)) (as_user auth)"

text \<open>The outer \<open>None\<close> is an exception, the inner one null.\<close>

definition readStoredValue :: "auth_state \<Rightarrow> jsstring \<Rightarrow> local_storage \<Rightarrow> jsval option option \<times> local_storage" where
  "readStoredValue auth baseKey st =
     (let st' = drop_legacy st in
      case getUserStorageKey auth baseKey of
        None \<Rightarrow> (Some None, st')
      | Some key \<Rightarrow>
          (case st' key of
             None \<Rightarrow> (Some None, st')
           | Some saved \<Rightarrow> (if saved = [] then Some None else map_option Some (json_parse saved), st')))"

definition readStoredMessagesValue :: "auth_state \<Rightarrow> local_storage \<Rightarrow> jsval option option \<times> local_storage" where
  "readStoredMessagesValue auth st =
     (let st' = drop_legacy st in
      case getUserStorageKey auth MESSAGES_KEY of
        None \<Rightarrow> (Some None, st')
      | Some key \<Rightarrow>
          (case st' key of
             None \<Rightarrow> (Some None, st')
           | Some saved \<Rightarrow>
               if saved = [] then (Some None, st')
               else if MAX_STORED_MESSAGES_BYTES < length saved then (Some None, st'(key := None))
               else (map_option Some (json_parse saved), st')))"

fun unwrapStoredValue :: "jsval \<Rightarrow> jsval" where
  "unwrapStoredValue (VObj ps) =
     (if js ''version'' \<in> fst ` set ps \<and> js ''data'' \<in> fst ` set ps then js_get (VObj ps) (js ''data'') else VObj ps)"
| "unwrapStoredValue v = v"

definition writeStoredValue :: "bool \<Rightarrow> auth_state \<Rightarrow> jsstring \<Rightarrow> jsval \<Rightarrow> local_storage \<Rightarrow> local_storage" where
  "writeStoredValue full auth baseKey data st =
     (let st' = drop_legacy st in
      case getUserStorageKey auth baseKey of
        None \<Rightarrow> st'
      | Some key \<Rightarrow> if full then st' else st'(key \<mapsto> json_stringify (envelope data)))"

subsection \<open>Bounds on what is kept\<close>

definition trimMessages :: "message list \<Rightarrow> message list" where
  "trimMessages messages =
     (if length messages \<le> MAX_STORED_MESSAGES then messages
      else drop (length messages - MAX_STORED_MESSAGES) messages)"

definition getMessageSize :: "message \<Rightarrow> nat" where
  "getMessageSize m =
     foldl (\<lambda>n v. n + length (mv_content v)) 0 (msg_versions m)
       + (case msg_reasoning m of Some r \<Rightarrow> length (rs_content r) | None \<Rightarrow> 0)"

definition truncateText :: "jsstring \<Rightarrow> nat \<Rightarrow> jsstring" where
  "truncateText content maxLength =
     (if length content \<le> maxLength then content
      else if maxLength \<le> length TRUNCATED_CONTENT_SUFFIX then take maxLength content
      else take (maxLength - length TRUNCATED_CONTENT_SUFFIX) content @ TRUNCATED_CONTENT_SUFFIX)"

fun size_loop :: "message list \<Rightarrow> nat \<Rightarrow> message list \<Rightarrow> message list" where
  "size_loop [] totalSize result = result"
| "size_loop (m # ms) totalSize result =
     (if result \<noteq> [] \<and> MAX_LOADED_MESSAGES_CHARS < totalSize + getMessageSize m then result
      else size_loop ms (totalSize + getMessageSize m) (result @ [m]))"

definition trimMessagesByContentSize :: "message list \<Rightarrow> message list" where
  "trimMessagesByContentSize messages = rev (size_loop (rev messages) 0 [])"

subsection \<open>Repeated sections\<close>

definition line_end :: "nat \<Rightarrow> bool" where
  "line_end c \<longleftrightarrow> c = 10 \<or> c = 13 \<or> c = 8232 \<or> c = 8233"

text \<open>
  \<open>^#{2,6}\s+\d+\.\s+.+$\<close> at the start of a line: the length of the match. The white space after the
  point is taken whole when something follows it; at the end of the text it gives back units until a
  unit of the line is left for the heading.
\<close>

definition heading_tail :: "jsstring \<Rightarrow> nat option" where
  "heading_tail s =
     (let w = takeWhile is_space s; r = dropWhile is_space s in
      if w = [] then None
      else if r \<noteq> [] then Some (length w + length (takeWhile (\<lambda>c. \<not> line_end c) r))
      else (case find (\<lambda>k. \<not> line_end (w ! k)) (rev [1..<length w]) of
              Some k \<Rightarrow> Some (k + length (takeWhile (\<lambda>c. \<not> line_end c) (drop k w)))
            | None \<Rightarrow> None))"

definition heading_match :: "jsstring \<Rightarrow> nat option" where
  "heading_match s =
     (let h = takeWhile (\<lambda>c. c = 35) s; r1 = drop (length h) s;
          w = takeWhile is_space r1; r2 = drop (length w) r1;
          d = takeWhile is_digit r2; r3 = drop (length d) r2 in
      if length h < 2 \<or> 6 < length h \<or> w = [] \<or> d = [] \<or> take 1 r3 \<noteq> [46] then None
      else map_option (\<lambda>n. length h + length w + length d + 1 + n) (heading_tail (drop 1 r3)))"

lemma heading_match_pos: "heading_match s = Some n \<Longrightarrow> 0 < n"
  by (auto simp: heading_match_def Let_def split: if_splits)

function section_loop :: "nat \<Rightarrow> bool \<Rightarrow> jsstring \<Rightarrow> (jsstring \<times> nat) list" where
  "section_loop i start [] = []"
| "section_loop i start (c # s) =
     (case (if start then heading_match (c # s) else None) of
        Some n \<Rightarrow> (take n (c # s), i) # section_loop (i + n) False (drop n (c # s))
      | None \<Rightarrow> section_loop (i + 1) (line_end c) s)"
  by pat_completeness auto
termination
  by (relation "measure (\<lambda>(_, _, s). length s)") (auto dest!: heading_match_pos split: if_splits)

definition getSectionOccurrences :: "jsstring \<Rightarrow> (jsstring \<times> nat) list" where
  "getSectionOccurrences content = section_loop 0 True content"

definition getHeadingCounts :: "(jsstring \<times> nat) list \<Rightarrow> jsstring \<Rightarrow> nat" where
  "getHeadingCounts occurrences heading = count_list (map fst occurrences) heading"

fun repeated_loop :: "(jsstring \<Rightarrow> nat) \<Rightarrow> (jsstring \<times> nat) list \<Rightarrow> jsstring list \<Rightarrow> nat list" where
  "repeated_loop counts [] seen = []"
| "repeated_loop counts (p # ps) seen =
     (if counts (fst p) < MIN_REPEATED_SECTION_COUNT \<or> fst p \<in> set seen then repeated_loop counts ps seen
      else snd p # repeated_loop counts ps (fst p # seen))"

definition findLastRepeatedSectionRunStart :: "jsstring \<Rightarrow> nat option" where
  "findLastRepeatedSectionRunStart content =
     (let occurrences = getSectionOccurrences content;
          indexes = repeated_loop (getHeadingCounts occurrences) (rev occurrences) [] in
      if indexes = [] then None else Some (foldr min indexes (hd indexes)))"

definition collapseRepeatedSectionSnapshots :: "jsstring \<Rightarrow> jsstring" where
  "collapseRepeatedSectionSnapshots content =
     (if length content < MIN_PREFIX_COLLAPSE_LENGTH then content
      else (case findLastRepeatedSectionRunStart content of
              None \<Rightarrow> content
            | Some start \<Rightarrow> drop start content))"

subsection \<open>Loading and saving\<close>

definition load_version :: "message_version \<Rightarrow> message_version" where
  "load_version v =
     v\<lparr>mv_content := truncateText (collapseRepeatedSectionSnapshots (mv_content v)) MAX_LOADED_MESSAGE_CHARS\<rparr>"

definition load_texts :: "message \<Rightarrow> message" where
  "load_texts m =
     m\<lparr>msg_versions := map load_version (msg_versions m),
       msg_reasoning := map_option (\<lambda>r. r\<lparr>rs_content := truncateText (rs_content r) MAX_LOADED_MESSAGE_CHARS\<rparr>) (msg_reasoning m)\<rparr>"

definition has_reasoning :: "message \<Rightarrow> bool" where
  "has_reasoning m \<longleftrightarrow> (case msg_reasoning m of Some r \<Rightarrow> js_trim (rs_content r) \<noteq> [] | None \<Rightarrow> False)"

definition normalizeStoredMessageForLoad :: "clock \<Rightarrow> message \<Rightarrow> message" where
  "normalizeStoredMessageForLoad now m =
     (let normalized = load_texts m in
      if \<not> isAssistantMessagePending normalized then normalized
      else if \<not> hasMessageContent normalized \<and> \<not> has_reasoning normalized then normalized
      else (let completedAt = or_default (or_option (msg_completedAt normalized)
                  (or_option (obind (msg_reasoning normalized) rs_completedAt)
                    (or_option (msg_startedAt normalized) (msg_createdAt normalized)))) (now 0) in
            completeAssistantTiming
              ((finalizeMessage (\<lambda>i. now (i + 1)) normalized None)
                 \<lparr>msg_status := Some Complete_status, msg_isReasoningStreaming := Some False\<rparr>) completedAt))"

text \<open>A list built from the stored one, one clock for each message.\<close>

fun normalize_all :: "(nat \<Rightarrow> clock) \<Rightarrow> message list \<Rightarrow> message list" where
  "normalize_all clocks [] = []"
| "normalize_all clocks (m # ms) =
     normalizeStoredMessageForLoad (clocks 0) m # normalize_all (\<lambda>i. clocks (Suc i)) ms"

definition saveMessages :: "bool \<Rightarrow> auth_state \<Rightarrow> message list \<Rightarrow> local_storage \<Rightarrow> local_storage" where
  "saveMessages full auth messages st =
     (case messagesSchema (VArr (map message_val (trimMessages messages))) of
        None \<Rightarrow> st
      | Some parsed \<Rightarrow> writeStoredValue full auth MESSAGES_KEY (VArr (map message_val parsed)) st)"

definition load_pipeline :: "(jsstring \<Rightarrow> jsstring) \<Rightarrow> (nat \<Rightarrow> clock) \<Rightarrow> clock \<Rightarrow> message list \<Rightarrow> message list" where
  "load_pipeline t clocks now parsed =
     sanitizeMessagesOnLoad t now (trimMessagesByContentSize (trimMessages (normalize_all clocks parsed)))"

text \<open>
  \<open>trimMessagesByContentSize\<close> always returns a new array, so the test whether anything changed always
  holds and what was loaded is saved again.
\<close>

definition loadMessages ::
    "bool \<Rightarrow> (jsstring \<Rightarrow> jsstring) \<Rightarrow> (nat \<Rightarrow> clock) \<Rightarrow> clock \<Rightarrow> auth_state \<Rightarrow> local_storage \<Rightarrow> message list option \<times> local_storage" where
  "loadMessages full t clocks now auth st =
     (case readStoredMessagesValue auth st of
        (None, st') \<Rightarrow> (None, st')
      | (Some None, st') \<Rightarrow> (None, st')
      | (Some (Some saved), st') \<Rightarrow>
          if \<not> js_truthy saved then (None, st')
          else (case messagesSchema (unwrapStoredValue saved) of
                  None \<Rightarrow> (None, st')
                | Some parsed \<Rightarrow>
                    let sanitized = load_pipeline t clocks now parsed in
                    (Some sanitized, saveMessages full auth sanitized st')))"

definition clearPlaygroundData :: "auth_state \<Rightarrow> local_storage \<Rightarrow> local_storage" where
  "clearPlaygroundData auth st =
     (case as_user auth of
        None \<Rightarrow> drop_legacy st
      | Some u \<Rightarrow> drop_legacy st |` (- set (map (\<lambda>key. user_key key (au_id u)) STORAGE_KEYS)))"

subsection \<open>Settings\<close>

text \<open>\<open>Partial<PlaygroundConfig>\<close> and \<open>Partial<ParameterEnabled>\<close>.\<close>

record config_part =
  cp_model :: "jsstring option"
  cp_group :: "jsstring option"
  cp_temperature :: "jsnum option"
  cp_top_p :: "jsnum option"
  cp_max_tokens :: "jsnum option"
  cp_frequency_penalty :: "jsnum option"
  cp_presence_penalty :: "jsnum option"
  cp_seed :: "jsnum option option"
  cp_stream :: "bool option"

record enabled_part =
  ep_temperature :: "bool option"
  ep_top_p :: "bool option"
  ep_max_tokens :: "bool option"
  ep_frequency_penalty :: "bool option"
  ep_presence_penalty :: "bool option"
  ep_seed :: "bool option"

definition playgroundConfigSchema :: "jsval \<Rightarrow> config_part option" where
  "playgroundConfigSchema v = object_guard v
     (obind (z_optional z_string (js_get v (js ''model''))) (\<lambda>model.
      obind (z_optional z_string (js_get v (js ''group''))) (\<lambda>group.
      obind (z_optional z_number (js_get v (js ''temperature''))) (\<lambda>temperature.
      obind (z_optional z_number (js_get v (js ''top_p''))) (\<lambda>top_p.
      obind (z_optional z_number (js_get v (js ''max_tokens''))) (\<lambda>max_tokens.
      obind (z_optional z_number (js_get v (js ''frequency_penalty''))) (\<lambda>frequency_penalty.
      obind (z_optional z_number (js_get v (js ''presence_penalty''))) (\<lambda>presence_penalty.
      obind (z_optional (z_nullable z_number) (js_get v (js ''seed''))) (\<lambda>seed.
      obind (z_optional z_boolean (js_get v (js ''stream''))) (\<lambda>stream.
      Some \<lparr>cp_model = model, cp_group = group, cp_temperature = temperature, cp_top_p = top_p,
            cp_max_tokens = max_tokens, cp_frequency_penalty = frequency_penalty,
            cp_presence_penalty = presence_penalty, cp_seed = seed, cp_stream = stream\<rparr>))))))))))"

definition parameterEnabledSchema :: "jsval \<Rightarrow> enabled_part option" where
  "parameterEnabledSchema v = object_guard v
     (obind (z_optional z_boolean (js_get v (js ''temperature''))) (\<lambda>temperature.
      obind (z_optional z_boolean (js_get v (js ''top_p''))) (\<lambda>top_p.
      obind (z_optional z_boolean (js_get v (js ''max_tokens''))) (\<lambda>max_tokens.
      obind (z_optional z_boolean (js_get v (js ''frequency_penalty''))) (\<lambda>frequency_penalty.
      obind (z_optional z_boolean (js_get v (js ''presence_penalty''))) (\<lambda>presence_penalty.
      obind (z_optional z_boolean (js_get v (js ''seed''))) (\<lambda>seed.
      Some \<lparr>ep_temperature = temperature, ep_top_p = top_p, ep_max_tokens = max_tokens,
            ep_frequency_penalty = frequency_penalty, ep_presence_penalty = presence_penalty, ep_seed = seed\<rparr>)))))))"

definition config_val :: "config_part \<Rightarrow> jsval" where
  "config_val c = present
     [(js ''model'', opt_val VStr (cp_model c)), (js ''group'', opt_val VStr (cp_group c)),
      (js ''temperature'', opt_val VNum (cp_temperature c)), (js ''top_p'', opt_val VNum (cp_top_p c)),
      (js ''max_tokens'', opt_val VNum (cp_max_tokens c)),
      (js ''frequency_penalty'', opt_val VNum (cp_frequency_penalty c)),
      (js ''presence_penalty'', opt_val VNum (cp_presence_penalty c)),
      (js ''seed'', opt_val (null_val VNum) (cp_seed c)), (js ''stream'', opt_val VBool (cp_stream c))]"

definition enabled_val :: "enabled_part \<Rightarrow> jsval" where
  "enabled_val e = present
     [(js ''temperature'', opt_val VBool (ep_temperature e)), (js ''top_p'', opt_val VBool (ep_top_p e)),
      (js ''max_tokens'', opt_val VBool (ep_max_tokens e)),
      (js ''frequency_penalty'', opt_val VBool (ep_frequency_penalty e)),
      (js ''presence_penalty'', opt_val VBool (ep_presence_penalty e)), (js ''seed'', opt_val VBool (ep_seed e))]"

definition empty_config :: config_part where
  "empty_config = \<lparr>cp_model = None, cp_group = None, cp_temperature = None, cp_top_p = None, cp_max_tokens = None,
     cp_frequency_penalty = None, cp_presence_penalty = None, cp_seed = None, cp_stream = None\<rparr>"

definition empty_enabled :: enabled_part where
  "empty_enabled = \<lparr>ep_temperature = None, ep_top_p = None, ep_max_tokens = None, ep_frequency_penalty = None,
     ep_presence_penalty = None, ep_seed = None\<rparr>"

definition load_part ::
    "'a \<Rightarrow> (jsval \<Rightarrow> 'a option) \<Rightarrow> jsval option option \<times> local_storage \<Rightarrow> 'a \<times> local_storage" where
  "load_part nothing schema stored =
     (case fst stored of
        Some (Some saved) \<Rightarrow> if js_truthy saved then or_default (schema (unwrapStoredValue saved)) nothing else nothing
      | _ \<Rightarrow> nothing,
      snd stored)"

definition loadConfig :: "auth_state \<Rightarrow> local_storage \<Rightarrow> config_part \<times> local_storage" where
  "loadConfig auth st = load_part empty_config playgroundConfigSchema (readStoredValue auth CONFIG_KEY st)"

definition saveConfig :: "bool \<Rightarrow> auth_state \<Rightarrow> config_part \<Rightarrow> local_storage \<Rightarrow> local_storage" where
  "saveConfig full auth config st =
     (case playgroundConfigSchema (config_val config) of
        None \<Rightarrow> st
      | Some parsed \<Rightarrow> writeStoredValue full auth CONFIG_KEY (config_val parsed) st)"

definition loadParameterEnabled :: "auth_state \<Rightarrow> local_storage \<Rightarrow> enabled_part \<times> local_storage" where
  "loadParameterEnabled auth st =
     load_part empty_enabled parameterEnabledSchema (readStoredValue auth PARAMETER_ENABLED_KEY st)"

definition saveParameterEnabled :: "bool \<Rightarrow> auth_state \<Rightarrow> enabled_part \<Rightarrow> local_storage \<Rightarrow> local_storage" where
  "saveParameterEnabled full auth enabled st =
     (case parameterEnabledSchema (enabled_val enabled) of
        None \<Rightarrow> st
      | Some parsed \<Rightarrow> writeStoredValue full auth PARAMETER_ENABLED_KEY (enabled_val parsed) st)"

definition DEFAULT_CONFIG :: playground_config where
  "DEFAULT_CONFIG = \<lparr>pc_model = js ''gpt-4o'', pc_group = js ''default'', pc_temperature = round64 (7 / 10),
     pc_top_p = JFin 1, pc_max_tokens = JFin 4096, pc_frequency_penalty = JFin 0, pc_presence_penalty = JFin 0,
     pc_seed = None, pc_stream = True\<rparr>"

definition DEFAULT_PARAMETER_ENABLED :: parameter_enabled where
  "DEFAULT_PARAMETER_ENABLED = \<lparr>pe_temperature = True, pe_top_p = True, pe_max_tokens = False,
     pe_frequency_penalty = True, pe_presence_penalty = True, pe_seed = False\<rparr>"

definition getInitialPlaygroundConfig :: "auth_state \<Rightarrow> local_storage \<Rightarrow> playground_config" where
  "getInitialPlaygroundConfig auth st =
     (let c = fst (loadConfig auth st); d = DEFAULT_CONFIG in
      \<lparr>pc_model = or_default (cp_model c) (pc_model d), pc_group = or_default (cp_group c) (pc_group d),
       pc_temperature = or_default (cp_temperature c) (pc_temperature d), pc_top_p = or_default (cp_top_p c) (pc_top_p d),
       pc_max_tokens = or_default (cp_max_tokens c) (pc_max_tokens d),
       pc_frequency_penalty = or_default (cp_frequency_penalty c) (pc_frequency_penalty d),
       pc_presence_penalty = or_default (cp_presence_penalty c) (pc_presence_penalty d),
       pc_seed = or_default (cp_seed c) (pc_seed d), pc_stream = or_default (cp_stream c) (pc_stream d)\<rparr>)"

definition getInitialParameterEnabled :: "auth_state \<Rightarrow> local_storage \<Rightarrow> parameter_enabled" where
  "getInitialParameterEnabled auth st =
     (let e = fst (loadParameterEnabled auth st); d = DEFAULT_PARAMETER_ENABLED in
      \<lparr>pe_temperature = or_default (ep_temperature e) (pe_temperature d), pe_top_p = or_default (ep_top_p e) (pe_top_p d),
       pe_max_tokens = or_default (ep_max_tokens e) (pe_max_tokens d),
       pe_frequency_penalty = or_default (ep_frequency_penalty e) (pe_frequency_penalty d),
       pe_presence_penalty = or_default (ep_presence_penalty e) (pe_presence_penalty d),
       pe_seed = or_default (ep_seed e) (pe_seed d)\<rparr>)"

end
