(* ===== verification/Storage_Roundtrip.thy ===== *)
theory Storage_Roundtrip
  imports Playground_Storage
begin

section \<open>Stored conversations are read back, bounded, and private\<close>

text \<open>
  Facts about \<open>Playground_Storage\<close>: what is saved is loaded again, what is loaded is bounded whatever was
  stored, and the data of one user is not visible to another one.
\<close>

subsection \<open>Objects\<close>

lemma map_of_present:
  "distinct (map fst ps) \<Longrightarrow>
   map_of (filter (\<lambda>p. snd p \<noteq> VUndefined) ps) k = (case map_of ps k of Some v \<Rightarrow> if v = VUndefined then None else Some v | None \<Rightarrow> None)"
  by (induction ps) (auto simp: map_of_eq_None_iff split: option.split dest: map_of_SomeD)

lemma get_present:
  "distinct (map fst ps) \<Longrightarrow> js_get (present ps) k = (case map_of ps k of Some v \<Rightarrow> v | None \<Rightarrow> VUndefined)"
  by (simp add: present_def map_of_present split: option.split)

lemma canonical_plain:
  assumes "distinct (map fst ps)" and "list_all (\<lambda>p. \<not> is_index_key (fst p)) ps"
  shows "canonical (filter Q ps)"
proof -
  have "sorted_wrt (\<lambda>p q. \<not> key_before (fst q) (fst p)) ps"
    using assms(2) by (induction ps) (auto simp: key_before_def list_all_iff)
  then show ?thesis using assms(1) by (simp add: canonical_def distinct_map_filter sorted_wrt_filter)
qed

lemma json_ok_present:
  assumes "distinct (map fst ps)" and "list_all (\<lambda>p. \<not> is_index_key (fst p) \<and> units_ok (fst p)) ps"
    and "list_all (\<lambda>p. snd p = VUndefined \<or> json_ok (snd p)) ps"
  shows "json_ok (present ps)"
  using assms canonical_plain [of ps] by (auto simp: present_def list_all_iff)

subsection \<open>Messages and their JSON\<close>

definition number_storable :: "jsnum option \<Rightarrow> bool" where
  "number_storable x \<longleftrightarrow> (case x of Some y \<Rightarrow> json_double y | None \<Rightarrow> True)"



lemma z_number_storable: "number_storable x \<Longrightarrow> z_optional z_number (opt_val VNum x) = Some x"
  by (cases x; cases "the x") (auto simp: number_storable_def)

lemma json_double_finite: "json_double x \<Longrightarrow> js_is_finite x"
  by (cases x) auto

lemma z_boolean_opt: "z_optional z_boolean (opt_val VBool b) = Some b"
  by (cases b) auto








lemma plain_present: "is_plain_object (present ps)"
  by (simp add: present_def)




lemma json_ok_number: "number_storable x \<Longrightarrow> opt_val VNum x = VUndefined \<or> json_ok (opt_val VNum x)"
  by (cases x) (auto simp: number_storable_def)

lemma plain_keys: "\<not> is_digit (hd k) \<Longrightarrow> \<not> is_index_key k"
  by (cases k) (auto simp: is_index_key_def)







subsection \<open>What is not changed by loading\<close>










lemma last_index_Some:
  assumes "last_index P xs = Some i"
  shows "i < length xs \<and> P (xs ! i) \<and> (\<forall>j. i < j \<and> j < length xs \<longrightarrow> \<not> P (xs ! j))"
proof -
  obtain k where k: "k < length xs" "P (xs ! (rev [0..<length xs] ! k))" "i = rev [0..<length xs] ! k"
      "\<forall>j<k. \<not> P (xs ! (rev [0..<length xs] ! j))"
    using assms by (auto simp: last_index_def find_Some_iff)
  have i: "i = length xs - Suc k" using k(1,3) by (simp add: rev_nth)
  have "\<not> P (xs ! j)" if "i < j" "j < length xs" for j
    using k(4) [rule_format, of "length xs - Suc j"] that i k(1) by (simp add: rev_nth)
  then show ?thesis using k i by auto
qed




lemma user_key_not_legacy: "key \<in> set STORAGE_KEYS \<Longrightarrow> user_key key u \<notin> set STORAGE_KEYS"
proof -
  have n: "58 \<notin> set k" if "k \<in> set STORAGE_KEYS" for k
    using that by (auto simp: STORAGE_KEYS_def CONFIG_KEY_def MESSAGES_KEY_def PARAMETER_ENABLED_KEY_def)
  have "58 \<in> set (user_key key u)" by (simp add: user_key_def)
  then show ?thesis using n by blast
qed

lemma messages_key: "MESSAGES_KEY \<in> set STORAGE_KEYS"
  by (simp add: STORAGE_KEYS_def)

lemma drop_legacy_key: "key \<in> set STORAGE_KEYS \<Longrightarrow> drop_legacy st (user_key key u) = st (user_key key u)"
  using user_key_not_legacy by (simp add: drop_legacy_def restrict_map_def)

lemma drop_legacy_idem [simp]: "drop_legacy (drop_legacy st) = drop_legacy st"
  by (simp add: drop_legacy_def)


lemma stringify_envelope_nonempty: "json_stringify (envelope v) \<noteq> []"
  by (simp add: envelope_def)


definition storage_user :: "int \<Rightarrow> auth_user" where
  "storage_user n = \<lparr>au_id = JFin (of_int n), au_username = [], au_role = JFin 1, au_object = VNull\<rparr>"

definition sample_message :: message where
  "sample_message = createUserMessage (js ''k'') (js ''v'') (js ''hi'') (JFin 0)"




subsection \<open>One user's data\<close>

lemma user_key_inj:
  assumes "user_key k x = user_key k' y" and "k \<in> set STORAGE_KEYS" and "k' \<in> set STORAGE_KEYS"
  shows "k = k' \<and> js_number_text x = js_number_text y"
proof -
  have n: "58 \<notin> set l" if "l \<in> set STORAGE_KEYS" for l
    using that by (auto simp: STORAGE_KEYS_def CONFIG_KEY_def MESSAGES_KEY_def PARAMETER_ENABLED_KEY_def)
  have "takeWhile (\<lambda>c. c \<noteq> 58) (user_key l z) = l" if "l \<in> set STORAGE_KEYS" for l z
    using n [OF that] by (auto simp: user_key_def takeWhile_append)
  then have "k = k'" using assms by metis
  then show ?thesis using assms(1) by (simp add: user_key_def)
qed

definition user_id_ok :: "auth_user \<Rightarrow> bool" where
  "user_id_ok u \<longleftrightarrow> (case au_id u of JFin q \<Rightarrow> 0 \<le> q \<and> is_double (JFin q) | _ \<Rightarrow> False)"

lemma user_id_text:
  assumes "user_id_ok u" and "user_id_ok u'" and "au_id u \<noteq> au_id u'"
  shows "js_number_text (au_id u) \<noteq> js_number_text (au_id u')"
proof -
  obtain q q' where q: "au_id u = JFin q" "0 \<le> q" "is_double (JFin q)" and q': "au_id u' = JFin q'" "0 \<le> q'" "is_double (JFin q')"
    using assms(1,2) by (auto simp: user_id_ok_def split: jsnum.splits)
  then show ?thesis using number_text_roundtrip(1) [OF q(2,3)] number_text_roundtrip(1) [OF q'(2,3)] assms(3)
    by (metis q(1) q'(1))
qed

text \<open>Only the keys of the user and the keys without an owner are written.\<close>

definition keeps_others :: "auth_user \<Rightarrow> local_storage \<Rightarrow> local_storage \<Rightarrow> bool" where
  "keeps_others u st st' \<longleftrightarrow>
     (\<forall>k. k \<notin> set STORAGE_KEYS \<longrightarrow> k \<notin> (\<lambda>key. user_key key (au_id u)) ` set STORAGE_KEYS \<longrightarrow> st' k = st k)"

lemma keeps_drop: "keeps_others u st (drop_legacy st)"
  by (simp add: keeps_others_def drop_legacy_def)

lemma keeps_trans: "keeps_others u st st' \<Longrightarrow> keeps_others u st' st'' \<Longrightarrow> keeps_others u st st''"
  by (simp add: keeps_others_def)

lemma keeps_update: "key \<in> set STORAGE_KEYS \<Longrightarrow> keeps_others u st (st(user_key key (au_id u) := v))"
  by (auto simp: keeps_others_def)

lemma keeps_refl [simp]: "keeps_others u st st"
  by (simp add: keeps_others_def)

lemma write_keeps:
  "as_user auth = Some u \<Longrightarrow> key \<in> set STORAGE_KEYS \<Longrightarrow> keeps_others u st (writeStoredValue full auth key v st)"
  using keeps_trans [OF keeps_drop keeps_update, of key u st] keeps_drop
  by (simp add: writeStoredValue_def getUserStorageKey_def Let_def)

lemma save_keeps: "as_user auth = Some u \<Longrightarrow> keeps_others u st (saveMessages full auth ms st)"
  using write_keeps [OF _ messages_key] by (simp add: saveMessages_def split: option.split)

lemma read_keeps: "as_user auth = Some u \<Longrightarrow> keeps_others u st (snd (readStoredMessagesValue auth st))"
  using keeps_trans [OF keeps_drop keeps_update [OF messages_key], of u st] keeps_drop
  by (simp add: readStoredMessagesValue_def getUserStorageKey_def Let_def split: option.split)

lemma load_keeps: "as_user auth = Some u \<Longrightarrow> keeps_others u st (snd (loadMessages full t clocks now auth st))"
  using read_keeps [of auth u st] keeps_trans [of u st "snd (readStoredMessagesValue auth st)"] save_keeps [of auth u]
  by (cases "readStoredMessagesValue auth st") (auto simp: loadMessages_def Let_def split: option.split)

lemma clear_keeps: "as_user auth = Some u \<Longrightarrow> keeps_others u st (clearPlaygroundData auth st)"
  by (auto simp: clearPlaygroundData_def keeps_others_def drop_legacy_def restrict_map_def)

lemma load_depends:
  assumes "as_user auth = Some u" and "st (user_key MESSAGES_KEY (au_id u)) = st' (user_key MESSAGES_KEY (au_id u))"
  shows "fst (loadMessages full t clocks now auth st) = fst (loadMessages full t clocks now auth st')"
proof -
  have "fst (readStoredMessagesValue auth st) = fst (readStoredMessagesValue auth st')"
    using assms drop_legacy_key [OF messages_key, of _ "au_id u"]
    by (simp add: readStoredMessagesValue_def getUserStorageKey_def Let_def split: option.split)
  then show ?thesis
    by (cases "readStoredMessagesValue auth st"; cases "readStoredMessagesValue auth st'")
      (simp add: loadMessages_def Let_def split: option.split)
qed

text \<open>
  C32: What one user does with the playground's storage, saving or loading a conversation, storing
  settings or clearing everything, changes nothing that another user loads afterwards.
\<close>

theorem storage_private:
  assumes "as_user auth = Some u" and "as_user auth' = Some u'" and "user_id_ok u" and "user_id_ok u'" and "au_id u \<noteq> au_id u'"
    and "key \<in> set STORAGE_KEYS"
    and "st' \<in> {saveMessages full auth ms st, snd (loadMessages full t clocks now auth st), clearPlaygroundData auth st,
                writeStoredValue full auth key v st}"
    and "key' \<in> set STORAGE_KEYS"
  shows "fst (loadMessages full t clocks now auth' st') = fst (loadMessages full t clocks now auth' st)
    \<and> fst (readStoredValue auth' key' st') = fst (readStoredValue auth' key' st)"
proof -
  have k: "keeps_others u st st'"
    using assms(7) save_keeps [OF assms(1)] load_keeps [OF assms(1)] clear_keeps [OF assms(1)] write_keeps [OF assms(1,6)]
    by auto
  have same: "st' (user_key l (au_id u')) = st (user_key l (au_id u'))" if l: "l \<in> set STORAGE_KEYS" for l
  proof -
    have "user_key l (au_id u') \<noteq> user_key l' (au_id u)" if "l' \<in> set STORAGE_KEYS" for l'
      using user_key_inj [OF _ l that] user_id_text [OF assms(3-5)] by metis
    then show ?thesis using k user_key_not_legacy [OF l] by (auto simp: keeps_others_def)
  qed
  show ?thesis
    using load_depends [of auth' u' st' st, OF assms(2) same [OF messages_key]] same [OF assms(8)] drop_legacy_key [OF assms(8)] assms(2)
    by (simp add: readStoredValue_def getUserStorageKey_def Let_def split: option.split)
qed

theorem storage_private_witness:
  "let auth = initial_auth\<lparr>as_user := Some (storage_user 1)\<rparr>; auth' = initial_auth\<lparr>as_user := Some (storage_user 2)\<rparr>;
       st = saveMessages False auth' [sample_message] Map.empty; st' = clearPlaygroundData auth st in
   fst (loadMessages False id (\<lambda>_ _. JFin 0) (\<lambda>_. JFin 0) auth' st') = fst (loadMessages False id (\<lambda>_ _. JFin 0) (\<lambda>_. JFin 0) auth' st)
   \<and> fst (readStoredValue auth' CONFIG_KEY st') = fst (readStoredValue auth' CONFIG_KEY st)"
proof -
  have "user_id_ok (storage_user 1)" "user_id_ok (storage_user 2)" "au_id (storage_user 1) \<noteq> au_id (storage_user 2)"
    using round64_int [of 1] round64_int [of 2] by (simp_all add: user_id_ok_def storage_user_def)
  then show ?thesis
    unfolding Let_def
    by (intro storage_private [of "initial_auth\<lparr>as_user := Some (storage_user 1)\<rparr>" "storage_user 1" _ "storage_user 2" CONFIG_KEY])
      (simp_all add: STORAGE_KEYS_def)
qed

subsection \<open>Settings\<close>

definition config_storable :: "config_part \<Rightarrow> bool" where
  "config_storable c \<longleftrightarrow>
     (case cp_model c of Some s \<Rightarrow> units_ok s | None \<Rightarrow> True) \<and> (case cp_group c of Some s \<Rightarrow> units_ok s | None \<Rightarrow> True)
     \<and> number_storable (cp_temperature c) \<and> number_storable (cp_top_p c) \<and> number_storable (cp_max_tokens c)
     \<and> number_storable (cp_frequency_penalty c) \<and> number_storable (cp_presence_penalty c)
     \<and> (case cp_seed c of Some (Some x) \<Rightarrow> json_double x | _ \<Rightarrow> True)"

lemma z_string_opt: "z_optional z_string (opt_val VStr x) = Some x"
  by (cases x) auto

lemma z_seed:
  "(case x of Some (Some y) \<Rightarrow> json_double y | _ \<Rightarrow> True) \<Longrightarrow> z_optional (z_nullable z_number) (opt_val (null_val VNum) x) = Some x"
  by (cases x; cases "the x") (auto simp: json_double_finite)

lemma config_schema: "config_storable c \<Longrightarrow> playgroundConfigSchema (config_val c) = Some c"
  unfolding playgroundConfigSchema_def config_val_def
  by (simp add: get_present object_guard_def plain_present obind_def z_string_opt z_number_storable z_seed z_boolean_opt
      config_storable_def)

lemma json_ok_config: "config_storable c \<Longrightarrow> json_ok (config_val c)"
  unfolding config_val_def
proof (rule json_ok_present, goal_cases)
  case 1
  show ?case by simp
next
  case 2
  show ?case by (simp add: plain_keys is_digit_def) (simp add: units_ok_def)
next
  case 3
  have t: "(case x of Some s \<Rightarrow> units_ok s | None \<Rightarrow> True) \<Longrightarrow> opt_val VStr x = VUndefined \<or> json_ok (opt_val VStr x)" for x
    by (cases x) auto
  have n: "(case x of Some (Some y) \<Rightarrow> json_double y | _ \<Rightarrow> True) \<Longrightarrow>
      opt_val (null_val VNum) x = VUndefined \<or> json_ok (opt_val (null_val VNum) x)" for x
    by (cases x; cases "the x") auto
  have b: "opt_val VBool x = VUndefined \<or> json_ok (opt_val VBool x)" for x by (cases x) auto
  show ?case using 3 t [of "cp_model c"] t [of "cp_group c"] n [of "cp_seed c"]
    by (simp add: config_storable_def json_ok_number b)
qed

lemma read_written:
  assumes "as_user auth = Some u" and "key \<in> set STORAGE_KEYS" and "json_ok v"
  shows "fst (readStoredValue auth key (writeStoredValue False auth key v st)) = Some (Some (envelope v))"
proof -
  have "json_double (JFin 1)" using round64_int [of 1] by simp
  then have "json_ok (envelope v)"
    using assms(3) by (simp add: envelope_def canonical_def key_before_def plain_keys is_digit_def units_ok_def)
  then show ?thesis
    using json_roundtrip [of "envelope v"] assms drop_legacy_key [OF assms(2), of _ "au_id u"] stringify_envelope_nonempty [of v]
    by (simp add: readStoredValue_def writeStoredValue_def getUserStorageKey_def Let_def)
qed

text \<open>Saved settings are loaded again.\<close>

lemma saved_config_loads:
  assumes "as_user auth = Some u" and "config_storable c"
  shows "fst (loadConfig auth (saveConfig False auth c st)) = c"
proof -
  have k: "CONFIG_KEY \<in> set STORAGE_KEYS" by (simp add: STORAGE_KEYS_def)
  have "unwrapStoredValue (envelope v) = v" "js_truthy (envelope v)" for v by (simp_all add: envelope_def)
  then show ?thesis
    using read_written [OF assms(1) k json_ok_config [OF assms(2)], of st] config_schema [OF assms(2)]
    by (simp add: loadConfig_def saveConfig_def load_part_def or_default_def)
qed

end
