(* ===== verification/Storage_Bounds.thy ===== *)
theory Storage_Bounds
  imports Storage_Roundtrip
begin

section \<open>What is loaded is bounded\<close>

text \<open>
  Whatever was stored, a loaded conversation is a bounded end of it, its texts are bounded, and pending
  answers that have a text are completed.
\<close>

subsection \<open>Texts\<close>

definition texts_bounded :: "message \<Rightarrow> bool" where
  "texts_bounded m \<longleftrightarrow>
     list_all (\<lambda>v. length (mv_content v) \<le> MAX_LOADED_MESSAGE_CHARS) (msg_versions m)
     \<and> (case msg_reasoning m of Some r \<Rightarrow> length (rs_content r) \<le> MAX_LOADED_MESSAGE_CHARS | None \<Rightarrow> True)"






subsection \<open>Finalizing shortens\<close>

definition reasoning_length :: "message \<Rightarrow> nat" where
  "reasoning_length m = (case msg_reasoning m of Some r \<Rightarrow> length (rs_content r) | None \<Rightarrow> 0)"

lemma size_sum: "getMessageSize m = sum_list (map (length \<circ> mv_content) (msg_versions m)) + reasoning_length m"
proof -
  have "foldl (\<lambda>n v. n + length (mv_content v)) k vs = k + sum_list (map (length \<circ> mv_content) vs)"
    for k and vs :: "message_version list"
    by (induction vs arbitrary: k) auto
  then show ?thesis by (simp add: getMessageSize_def reasoning_length_def)
qed



lemma reasoning_timing_length [simp]:
  "reasoning_length (completeReasoningTiming m t) = reasoning_length m"
  "msg_versions (completeReasoningTiming m t) = msg_versions m"
  "reasoning_length (completeAssistantTiming m t) = reasoning_length m"
  "msg_versions (completeAssistantTiming m t) = msg_versions m"
  "msg_status (completeAssistantTiming m t) = msg_status m"
  by (auto simp: completeReasoningTiming_def completeAssistantTiming_def reasoning_length_def Let_def split: option.split)

lemma reasoning_length_fields [simp]:
  "reasoning_length (m\<lparr>msg_status := st\<rparr>) = reasoning_length m"
  "reasoning_length (m\<lparr>msg_isReasoningStreaming := b\<rparr>) = reasoning_length m"
  "reasoning_length (m\<lparr>msg_reasoning := None\<rparr>) = 0"
  "reasoning_length (m\<lparr>msg_reasoning := Some r\<rparr>) = length (rs_content r)"
  by (simp_all add: reasoning_length_def)


lemma texts_bounded_iff:
  "texts_bounded m \<longleftrightarrow> list_all (\<lambda>v. length (mv_content v) \<le> MAX_LOADED_MESSAGE_CHARS) (msg_versions m)
     \<and> reasoning_length m \<le> MAX_LOADED_MESSAGE_CHARS"
  by (simp add: texts_bounded_def reasoning_length_def split: option.split)



lemma texts_bounded_fields [simp]:
  "texts_bounded (completeAssistantTiming m t) = texts_bounded m"
  "texts_bounded (m\<lparr>msg_status := st\<rparr>) = texts_bounded m"
  "texts_bounded (m\<lparr>msg_isReasoningStreaming := b\<rparr>) = texts_bounded m"
  by (simp_all add: texts_bounded_iff)

lemma size_fields [simp]:
  "getMessageSize (completeAssistantTiming m t) = getMessageSize m"
  "getMessageSize (m\<lparr>msg_status := st\<rparr>) = getMessageSize m"
  "getMessageSize (m\<lparr>msg_isReasoningStreaming := b\<rparr>) = getMessageSize m"
  by (simp_all add: size_sum)



subsection \<open>The end of the list\<close>




subsection \<open>Pending answers\<close>


lemma load_texts_status [simp]: "msg_status (load_texts m) = msg_status m" "msg_from (load_texts m) = msg_from m"
  by (simp_all add: load_texts_def)

lemma pending_fields [simp]:
  "isAssistantMessagePending (load_texts m) = isAssistantMessagePending m"
  by (simp add: isAssistantMessagePending_def)










end
