(* ===== verification/Billing_Types.thy ===== *)
theory Billing_Types
  imports Js_Value
begin

section \<open>Billing expressions: syntax trees, diagnostics, traversal\<close>

text \<open>
  \<open>web/src/features/pricing/lib/billing-expression/types.ts\<close>: the token variables, the
  functions of the language with their arity, the expression tree with source spans, the
  diagnostics, and the bounded post-order traversal \<open>visitExpression\<close> that every later pass
  uses. The operators and function names, which the source keeps as strings checked against
  fixed tables by the parser, are datatypes here; the tables give their spelling.
\<close>

subsection \<open>Vocabulary\<close>

datatype token_variable =
    Var_p | Var_c | Var_len | Var_cr | Var_cc | Var_cc1h | Var_img | Var_img_o | Var_img_cr
  | Var_image_count | Var_ai | Var_ao

definition TOKEN_VARIABLES :: "(jsstring \<times> token_variable) list" where
  "TOKEN_VARIABLES =
     [(js ''p'', Var_p), (js ''c'', Var_c), (js ''len'', Var_len), (js ''cr'', Var_cr),
      (js ''cc'', Var_cc), (js ''cc1h'', Var_cc1h), (js ''img'', Var_img),
      (js ''img_o'', Var_img_o), (js ''img_cr'', Var_img_cr),
      (js ''image_count'', Var_image_count), (js ''ai'', Var_ai), (js ''ao'', Var_ao)]"

fun variable_name :: "token_variable \<Rightarrow> jsstring" where
  "variable_name Var_p = js ''p''"
| "variable_name Var_c = js ''c''"
| "variable_name Var_len = js ''len''"
| "variable_name Var_cr = js ''cr''"
| "variable_name Var_cc = js ''cc''"
| "variable_name Var_cc1h = js ''cc1h''"
| "variable_name Var_img = js ''img''"
| "variable_name Var_img_o = js ''img_o''"
| "variable_name Var_img_cr = js ''img_cr''"
| "variable_name Var_image_count = js ''image_count''"
| "variable_name Var_ai = js ''ai''"
| "variable_name Var_ao = js ''ao''"

datatype time_function = Hour | Minute | Weekday | Month | Day

datatype billing_function =
    Fn_tier | Fn_fixed | Fn_param | Fn_header | Fn_has | Fn_u | Fn_time time_function
  | Fn_min | Fn_max | Fn_abs | Fn_ceil | Fn_floor

definition BILLING_FUNCTIONS :: "(jsstring \<times> billing_function) list" where
  "BILLING_FUNCTIONS =
     [(js ''tier'', Fn_tier), (js ''fixed'', Fn_fixed), (js ''param'', Fn_param),
      (js ''header'', Fn_header), (js ''has'', Fn_has), (js ''u'', Fn_u),
      (js ''hour'', Fn_time Hour), (js ''minute'', Fn_time Minute),
      (js ''weekday'', Fn_time Weekday), (js ''month'', Fn_time Month), (js ''day'', Fn_time Day),
      (js ''min'', Fn_min), (js ''max'', Fn_max), (js ''abs'', Fn_abs), (js ''ceil'', Fn_ceil),
      (js ''floor'', Fn_floor)]"

fun function_arity :: "billing_function \<Rightarrow> nat" where
  "function_arity Fn_tier = 2"
| "function_arity Fn_has = 2"
| "function_arity Fn_min = 2"
| "function_arity Fn_max = 2"
| "function_arity _ = 1"

definition is_time_function :: "billing_function \<Rightarrow> bool" where
  "is_time_function f \<longleftrightarrow> (case f of Fn_time _ \<Rightarrow> True | _ \<Rightarrow> False)"

datatype unary_operator = Op_not | Op_pos | Op_neg

datatype binary_operator =
    Op_or | Op_and | Op_eq | Op_ne | Op_lt | Op_le | Op_gt | Op_ge
  | Op_add | Op_sub | Op_mul | Op_div | Op_mod

subsection \<open>Expression trees\<close>

datatype literal_value = L_string jsstring | L_number jsnum | L_boolean bool | L_nil

text \<open>
  Every node carries the span \<open>start\<close>, \<open>end\<close> of the source text it was read from. The flag of
  a literal is the source's optional \<open>integer\<close>, false where the property is absent.
\<close>

datatype expression_node =
    Literal literal_value bool (node_start: nat) (node_end: nat)
  | Variable token_variable (node_start: nat) (node_end: nat)
  | Call billing_function "expression_node list" (node_start: nat) (node_end: nat)
  | Unary unary_operator expression_node (node_start: nat) (node_end: nat)
  | Binary binary_operator expression_node expression_node (node_start: nat) (node_end: nat)
  | Conditional expression_node expression_node expression_node (node_start: nat) (node_end: nat)

text \<open>\<open>{ ...expression, start, end }\<close>: a parenthesised expression keeps its node, with the
  span of the parentheses.\<close>

fun with_span :: "expression_node \<Rightarrow> nat \<Rightarrow> nat \<Rightarrow> expression_node" where
  "with_span (Literal v i _ _) s e = Literal v i s e"
| "with_span (Variable x _ _) s e = Variable x s e"
| "with_span (Call f as _ _) s e = Call f as s e"
| "with_span (Unary p n _ _) s e = Unary p n s e"
| "with_span (Binary p l r _ _) s e = Binary p l r s e"
| "with_span (Conditional c y n _ _) s e = Conditional c y n s e"

fun node_children :: "expression_node \<Rightarrow> expression_node list" where
  "node_children (Literal _ _ _ _) = []"
| "node_children (Variable _ _ _) = []"
| "node_children (Call _ args _ _) = args"
| "node_children (Unary _ operand _ _) = [operand]"
| "node_children (Binary _ left right _ _) = [left, right]"
| "node_children (Conditional condition yes no _ _) = [condition, yes, no]"

lemma node_children_size: "c \<in> set (node_children n) \<Longrightarrow> size c < size n"
  by (cases n) (auto simp: less_Suc_eq_le size_list_estimation' intro: trans_le_add1 trans_le_add2)

subsection \<open>Diagnostics\<close>

datatype diagnostic_code =
  D_syntax | D_unsupported | D_missing_context | D_type | D_number | D_limit

record expression_diagnostic =
  diag_code :: diagnostic_code
  diag_detail :: jsstring
  diag_position :: "nat option"

text \<open>What a \<open>catch\<close> clause can receive: an error of this library, or any other error, of
  which only the message is used.\<close>

datatype js_error =
    BillingExpressionError expression_diagnostic
  | OtherError jsstring

abbreviation billing_error :: "diagnostic_code \<Rightarrow> jsstring \<Rightarrow> nat option \<Rightarrow> js_error" where
  "billing_error code detail position \<equiv>
     BillingExpressionError
       \<lparr>diag_code = code, diag_detail = detail, diag_position = position\<rparr>"

datatype failure_status = S_unsupported | S_invalid | S_missing_context

record expression_failure =
  fail_status :: failure_status
  fail_diagnostic :: expression_diagnostic

fun error_diagnostic :: "js_error \<Rightarrow> expression_diagnostic" where
  "error_diagnostic (BillingExpressionError d) = d"
| "error_diagnostic (OtherError m) =
     \<lparr>diag_code = D_syntax, diag_detail = m, diag_position = None\<rparr>"

fun diagnostic_status :: "diagnostic_code \<Rightarrow> failure_status" where
  "diagnostic_status D_missing_context = S_missing_context"
| "diagnostic_status D_unsupported = S_unsupported"
| "diagnostic_status D_limit = S_unsupported"
| "diagnostic_status _ = S_invalid"

definition expressionFailure :: "js_error \<Rightarrow> expression_failure" where
  "expressionFailure error =
     \<lparr>fail_status = diagnostic_status (diag_code (error_diagnostic error)),
      fail_diagnostic = error_diagnostic error\<rparr>"

subsection \<open>The bounded post-order traversal\<close>

fun node_count :: "expression_node \<Rightarrow> nat" where
  "node_count (Literal _ _ _ _) = 1"
| "node_count (Variable _ _ _) = 1"
| "node_count (Call _ args _ _) = Suc (sum_list (map node_count args))"
| "node_count (Unary _ operand _ _) = Suc (node_count operand)"
| "node_count (Binary _ left right _ _) = Suc (node_count left + node_count right)"
| "node_count (Conditional c y n _ _) = Suc (node_count c + node_count y + node_count n)"

lemma node_count_children: "node_count n = Suc (sum_list (map node_count (node_children n)))"
  by (cases n) auto

text \<open>An entry of the work stack: the node, whether its children were pushed, its depth.\<close>

type_synonym visit_entry = "expression_node \<times> bool \<times> nat"

definition entry_weight :: "visit_entry \<Rightarrow> nat" where
  "entry_weight = (\<lambda>(n, visited, d). if visited then 1 else 2 * node_count n)"

lemma sum_entry_weight_children:
  "sum_list (map (entry_weight \<circ> (\<lambda>c. (c, False, d))) cs) = 2 * sum_list (map node_count cs)"
  by (induction cs) (auto simp: entry_weight_def)

definition depth_error :: js_error where
  "depth_error = billing_error D_limit (js ''expression depth'') None"

function visit_loop ::
  "(expression_node \<Rightarrow> 's \<Rightarrow> js_error + 's) \<Rightarrow> visit_entry list \<Rightarrow> 's \<Rightarrow> js_error + 's" where
  "visit_loop visitor [] s = Inr s"
| "visit_loop visitor ((node, visited, depth) # stack) s =
     (if 256 < depth then Inl depth_error
      else if visited then rbind (visitor node s) (\<lambda>s. visit_loop visitor stack s)
      else visit_loop visitor
             (map (\<lambda>child. (child, False, depth + 1)) (node_children node)
                @ (node, True, depth) # stack) s)"
  by pat_completeness auto
termination
proof (relation "measure (\<lambda>(visitor, stack, s). sum_list (map entry_weight stack))", goal_cases)
  case (3 visitor node visited depth stack s)
  have "2 * node_count node = Suc (Suc (2 * sum_list (map node_count (node_children node))))"
    using node_count_children [of node] by simp
  with 3 show ?case
    by (simp add: sum_entry_weight_children comp_def [symmetric]) (simp add: entry_weight_def)
qed (auto simp: entry_weight_def)

definition visitExpression ::
  "expression_node \<Rightarrow> (expression_node \<Rightarrow> 's \<Rightarrow> js_error + 's) \<Rightarrow> 's \<Rightarrow> js_error + 's" where
  "visitExpression node visitor s = visit_loop visitor [(node, False, 0)] s"

text \<open>The dependencies: the token variables and the functions an expression mentions.\<close>

record dependencies =
  dep_variables :: "token_variable set"
  dep_functions :: "billing_function set"

definition collect_dependency :: "expression_node \<Rightarrow> dependencies \<Rightarrow> js_error + dependencies" where
  "collect_dependency part d =
     Inr (case part of
            Variable x _ _ \<Rightarrow> d\<lparr>dep_variables := insert x (dep_variables d)\<rparr>
          | Call f _ _ _ \<Rightarrow> d\<lparr>dep_functions := insert f (dep_functions d)\<rparr>
          | _ \<Rightarrow> d)"

definition expressionDependencies :: "expression_node \<Rightarrow> js_error + dependencies" where
  "expressionDependencies node =
     visitExpression node collect_dependency \<lparr>dep_variables = {}, dep_functions = {}\<rparr>"

subsection \<open>The traversal is the post-order of the tree\<close>

text \<open>The reference: the nodes of a tree, children before their parent, from left to right.\<close>

fun postorder :: "expression_node \<Rightarrow> expression_node list" where
  "postorder (Literal v i s e) = [Literal v i s e]"
| "postorder (Variable x s e) = [Variable x s e]"
| "postorder (Call f args s e) = concat (map postorder args) @ [Call f args s e]"
| "postorder (Unary p operand s e) = postorder operand @ [Unary p operand s e]"
| "postorder (Binary p left right s e) =
     postorder left @ postorder right @ [Binary p left right s e]"
| "postorder (Conditional c y n s e) =
     postorder c @ postorder y @ postorder n @ [Conditional c y n s e]"

text \<open>The depth of the deepest node, the root at depth 0.\<close>

fun node_depth :: "expression_node \<Rightarrow> nat" where
  "node_depth (Literal _ _ _ _) = 0"
| "node_depth (Variable _ _ _) = 0"
| "node_depth (Call _ args _ _) = foldr (\<lambda>a m. max (Suc (node_depth a)) m) args 0"
| "node_depth (Unary _ operand _ _) = Suc (node_depth operand)"
| "node_depth (Binary _ left right _ _) = Suc (max (node_depth left) (node_depth right))"
| "node_depth (Conditional c y n _ _) = Suc (max (node_depth c) (max (node_depth y) (node_depth n)))"

lemma postorder_children: "postorder n = concat (map postorder (node_children n)) @ [n]"
  by (cases n) auto

lemma foldr_max_le: "foldr (\<lambda>a m. max (f a) m) xs 0 \<le> (b::nat) \<longleftrightarrow> (\<forall>a \<in> set xs. f a \<le> b)"
  by (induction xs) auto

lemma node_depth_le_iff: "node_depth n \<le> b \<longleftrightarrow> (\<forall>c \<in> set (node_children n). Suc (node_depth c) \<le> b)"
  by (cases n) (auto simp: foldr_max_le)

lemma node_depth_child: "c \<in> set (node_children n) \<Longrightarrow> Suc (node_depth c) \<le> node_depth n"
  using node_depth_le_iff by blast

lemma postorder_self [simp]: "n \<in> set (postorder n)"
  using postorder_children [of n] by simp

lemma postorder_child: "c \<in> set (node_children n) \<Longrightarrow> set (postorder c) \<subseteq> set (postorder n)"
  using postorder_children [of n] by auto

lemma postorder_trans: "m \<in> set (postorder n) \<Longrightarrow> set (postorder m) \<subseteq> set (postorder n)"
proof (induction "size n" arbitrary: n rule: less_induct)
  case less
  show ?case
  proof (cases "m = n")
    case False
    with less.prems obtain c where c: "c \<in> set (node_children n)" "m \<in> set (postorder c)"
      using postorder_children [of n] by auto
    then have "set (postorder m) \<subseteq> set (postorder c)"
      using less.hyps node_children_size by blast
    then show ?thesis using postorder_child c by blast
  qed simp
qed

text \<open>Pushing a list of children visits them one after the other.\<close>

lemma visit_loop_entries:
  assumes "\<And>c stack s. c \<in> set cs \<Longrightarrow>
      visit_loop f ((c, False, d) # stack) s = rbind (rfold f (postorder c) s) (visit_loop f stack)"
  shows "visit_loop f (map (\<lambda>c. (c, False, d)) cs @ stack) s =
      rbind (rfold f (concat (map postorder cs)) s) (visit_loop f stack)"
  using assms
proof (induction cs arbitrary: s)
  case (Cons c cs)
  have "visit_loop f (map (\<lambda>c. (c, False, d)) (c # cs) @ stack) s =
      rbind (rfold f (postorder c) s) (visit_loop f (map (\<lambda>c. (c, False, d)) cs @ stack))"
    using Cons.prems [of c] by simp
  also have "\<dots> = rbind (rfold f (postorder c) s)
      (\<lambda>s. rbind (rfold f (concat (map postorder cs)) s) (visit_loop f stack))"
    using Cons.IH Cons.prems by (intro rbind_cong) auto
  finally show ?case by (simp add: rfold_append rbind_assoc)
qed simp

lemma visit_loop_postorder:
  "node_depth n + d \<le> 256 \<Longrightarrow>
   visit_loop f ((n, False, d) # stack) s = rbind (rfold f (postorder n) s) (visit_loop f stack)"
proof (induction "size n" arbitrary: n d stack s rule: less_induct)
  case less
  have IH: "visit_loop f ((c, False, d + 1) # stack) s =
      rbind (rfold f (postorder c) s) (visit_loop f stack)"
    if "c \<in> set (node_children n)" for c stack s
    using less.hyps [OF node_children_size [OF that]] node_depth_child [OF that] less.prems by simp
  have "visit_loop f ((n, False, d) # stack) s =
      visit_loop f (map (\<lambda>c. (c, False, d + 1)) (node_children n) @ (n, True, d) # stack) s"
    using less.prems by simp
  also have "\<dots> = rbind (rfold f (concat (map postorder (node_children n))) s)
      (visit_loop f ((n, True, d) # stack))"
    by (rule visit_loop_entries) (rule IH)
  also have "\<dots> = rbind (rfold f (concat (map postorder (node_children n))) s)
      (\<lambda>s. rbind (f n s) (visit_loop f stack))"
    using less.prems by (intro rbind_cong) auto
  finally show ?case
    by (subst postorder_children [of n]) (simp add: rfold_append rbind_assoc cong: rbind_cong)
qed

text \<open>
  A tree that is too deep is refused, whatever the visitor does. The converse direction:
  the traversal only returns a value on a tree within the bound.
\<close>

lemma visit_loop_returns_stack:
  "visit_loop f stack s = Inr t \<Longrightarrow> e \<in> set stack \<Longrightarrow> snd (snd e) \<le> 256"
proof (induction f stack s arbitrary: t rule: visit_loop.induct)
  case (2 f n v d stack s)
  then show ?case by (auto split: if_splits simp: rbind_eq_Inr)
qed simp

lemma visit_loop_returns_depth:
  "visit_loop f stack s = Inr t \<Longrightarrow> (n, False, d) \<in> set stack \<Longrightarrow> node_depth n + d \<le> 256"
proof (induction f stack s arbitrary: t n d rule: visit_loop.induct)
  case (2 f m v k stack s)
  from "2.prems" have k: "k \<le> 256" by (auto split: if_splits)
  show ?case
  proof (cases "(n, False, d) \<in> set stack")
    case True
    with "2" k show ?thesis
      by (cases v) (auto simp: rbind_eq_Inr)
  next
    case False
    with "2.prems" have m: "m = n" "\<not> v" "k = d" by auto
    have "node_depth c + (d + 1) \<le> 256" if "c \<in> set (node_children n)" for c
    proof (rule "2.IH"(2))
      show "visit_loop f (map (\<lambda>child. (child, False, k + 1)) (node_children m)
          @ (m, True, k) # stack) s = Inr t"
        using "2.prems"(1) m k by simp
    qed (use m k that in auto)
    then show ?thesis
      using k m node_depth_le_iff [of n "256 - d"] by fastforce
  qed
qed simp

lemma visitExpression_returns_depth: "visitExpression n f s = Inr t \<Longrightarrow> node_depth n \<le> 256"
  using visit_loop_returns_depth [of f "[(n, False, 0)]" s t n 0] by (simp add: visitExpression_def)

lemma visitExpression_postorder:
  "node_depth n \<le> 256 \<Longrightarrow> visitExpression n f s = rfold f (postorder n) s"
  using visit_loop_postorder [of n 0 f "[]" s]
  by (cases "rfold f (postorder n) s") (simp_all add: visitExpression_def)

lemma visitExpression_Inr:
  "visitExpression n f s = Inr t \<longleftrightarrow> node_depth n \<le> 256 \<and> rfold f (postorder n) s = Inr t"
  using visitExpression_returns_depth visitExpression_postorder by metis

subsection \<open>Dependencies are the variables and functions of the tree\<close>

definition tree_variables :: "expression_node \<Rightarrow> token_variable set" where
  "tree_variables n = {x. \<exists>s e. Variable x s e \<in> set (postorder n)}"

definition tree_functions :: "expression_node \<Rightarrow> billing_function set" where
  "tree_functions n = {f. \<exists>args s e. Call f args s e \<in> set (postorder n)}"

lemma rfold_collect_dependency:
  "rfold collect_dependency ns d =
     Inr \<lparr>dep_variables = dep_variables d \<union> {x. \<exists>s e. Variable x s e \<in> set ns},
          dep_functions = dep_functions d \<union> {f. \<exists>args s e. Call f args s e \<in> set ns}\<rparr>"
proof (induction ns arbitrary: d)
  case (Cons n ns)
  then show ?case by (cases n) (auto simp: collect_dependency_def)
qed simp

lemma expressionDependencies_Inr:
  "expressionDependencies n = Inr d \<longleftrightarrow>
     node_depth n \<le> 256 \<and> d = \<lparr>dep_variables = tree_variables n, dep_functions = tree_functions n\<rparr>"
  by (auto simp: expressionDependencies_def visitExpression_Inr rfold_collect_dependency
      tree_variables_def tree_functions_def)

subsection \<open>Properties\<close>

text \<open>
  The iterative traversal with its explicit stack returns exactly on the trees of depth at
  most 256, and there it is the fold of the visitor over the recursive post-order; on a deeper
  tree it never returns a value, whatever the visitor does.
\<close>

theorem visitExpression_is_postorder:
  "visitExpression n f s = Inr t \<longleftrightarrow> node_depth n \<le> 256 \<and> rfold f (postorder n) s = Inr t"
  by (rule visitExpression_Inr)

end
