(* ===== verification/Billing_Lexer.thy ===== *)
theory Billing_Lexer
  imports Billing_Types Js_Text
begin

section \<open>The lexer of the billing expression parser\<close>

text \<open>
  \<open>BillingParser.next\<close> of \<open>billing-expression/parser.ts\<close>: one lexeme is read at the cursor, on
  demand, so that an error in the text after a syntax error is never reported. The regular
  expressions of the source are written out as functions that return the matched prefix.
\<close>

subsection \<open>Lexemes\<close>

datatype lexeme_kind = K_number | K_string | K_symbol | K_name | K_end

record lexeme =
  lex_text :: jsstring
  lex_start :: nat
  lex_end :: nat
  lex_value :: literal_value
  lex_integer :: bool
  lex_kind :: lexeme_kind

definition plain_lexeme :: "lexeme_kind \<Rightarrow> jsstring \<Rightarrow> nat \<Rightarrow> lexeme" where
  "plain_lexeme kind text start =
     \<lparr>lex_text = text, lex_start = start, lex_end = start + length text, lex_value = L_nil,
      lex_integer = False, lex_kind = kind\<rparr>"

subsection \<open>Numbers\<close>

text \<open>\<open>!/[.eE]/.test(text)\<close>\<close>

definition is_integer_text :: "jsstring \<Rightarrow> bool" where
  "is_integer_text text = list_all (\<lambda>c. c \<noteq> 46 \<and> c \<noteq> 101 \<and> c \<noteq> 69) text"

definition number_lexeme :: "jsstring \<Rightarrow> nat \<Rightarrow> js_error + lexeme" where
  "number_lexeme text start =
     (if \<not> js_is_finite (js_number_of text)
      then Inl (billing_error D_number text (Some start))
      else if is_integer_text text \<and> \<not> js_is_safe_integer (js_number_of text)
      then Inl (billing_error D_unsupported (js ''integer precision'') (Some start))
      else Inr \<lparr>lex_text = text, lex_start = start, lex_end = start + length text,
                lex_value = L_number (js_number_of text), lex_integer = is_integer_text text,
                lex_kind = K_number\<rparr>)"

subsection \<open>Strings\<close>

text \<open>The one-letter escapes: n, r, t, b, f, v, backslash, both quotes and the slash.\<close>

definition string_escapes :: "(nat \<times> nat) list" where
  "string_escapes =
     [(110, 10), (114, 13), (116, 9), (98, 8), (102, 12), (118, 11), (92, 92), (34, 34),
      (39, 39), (47, 47)]"

definition hex_digits_value :: "jsstring \<Rightarrow> nat" where
  "hex_digits_value h = foldl (\<lambda>acc c. 16 * acc + hex_value c) 0 h"

definition unterminated :: "nat \<Rightarrow> js_error" where
  "unterminated start = billing_error D_syntax (js ''unterminated string'') (Some start)"

definition hex_length :: "nat \<Rightarrow> nat" where
  "hex_length escaped = (if escaped = 117 then 4 else 2)"

text \<open>
  \<open>lex_string quote start cursor value rest\<close> reads the characters after the opening quote:
  \<open>rest\<close> is the source from \<open>cursor\<close> on, \<open>value\<close> what was read so far. It returns the value and
  the cursor after the closing quote.
\<close>

fun lex_string ::
  "nat \<Rightarrow> nat \<Rightarrow> nat \<Rightarrow> jsstring \<Rightarrow> jsstring \<Rightarrow> js_error + jsstring \<times> nat" where
  "lex_string quote start cursor value [] = Inl (unterminated start)"
| "lex_string quote start cursor value (char # rest) =
     (if char = quote then Inr (value, cursor + 1)
      else if char = 10 \<or> char = 13 then Inl (unterminated start)
      else if char \<noteq> 92 then lex_string quote start (cursor + 1) (value @ [char]) rest
      else (case rest of
        [] \<Rightarrow> Inl (billing_error D_unsupported (js ''string escape'') (Some (cursor + 1)))
      | escaped # rest' \<Rightarrow>
          (case map_of string_escapes escaped of
             Some c \<Rightarrow> lex_string quote start (cursor + 2) (value @ [c]) rest'
           | None \<Rightarrow>
               if escaped = 117 \<or> escaped = 120
               then if length (take (hex_length escaped) rest') \<noteq> hex_length escaped
                         \<or> \<not> list_all is_hex (take (hex_length escaped) rest')
                    then Inl (unterminated start)
                    else lex_string quote start (cursor + 2 + hex_length escaped)
                           (value @ [hex_digits_value (take (hex_length escaped) rest')])
                           (drop (hex_length escaped) rest')
               else Inl (billing_error D_unsupported (js ''string escape'') (Some (cursor + 1))))))"

definition string_lexeme :: "jsstring \<Rightarrow> nat \<Rightarrow> nat \<Rightarrow> js_error + lexeme" where
  "string_lexeme source quote start =
     rbind (lex_string quote start (start + 1) [] (drop (start + 1) source))
       (\<lambda>(value, cursor).
          Inr \<lparr>lex_text = js_slice source start cursor, lex_start = start, lex_end = cursor,
               lex_value = L_string value, lex_integer = False, lex_kind = K_string\<rparr>)"

subsection \<open>Names and symbols\<close>

definition match_name :: "jsstring \<Rightarrow> jsstring" where
  "match_name rest =
     (case rest of c # cs \<Rightarrow> if is_alpha_us c then c # takeWhile is_word cs else [] | [] \<Rightarrow> [])"

definition two_char_symbols :: "jsstring list" where
  "two_char_symbols =
     [js ''&&'', js ''||'', js ''=='', js ''!='', js ''<='', js ''>='']"

definition one_char_symbols :: jsstring where
  "one_char_symbols = js ''+-*/%<>()!?:,''"

definition match_operator :: "jsstring \<Rightarrow> jsstring" where
  "match_operator rest =
     (if take 2 rest \<in> set two_char_symbols then take 2 rest
      else case rest of c # _ \<Rightarrow> if c \<in> set one_char_symbols then [c] else [] | [] \<Rightarrow> [])"

subsection \<open>The next lexeme\<close>

definition skip_space :: "jsstring \<Rightarrow> nat \<Rightarrow> nat" where
  "skip_space source cursor = cursor + length (takeWhile is_space (drop cursor source))"

text \<open>The lexeme that starts at a position that holds no space.\<close>

definition lexeme_at :: "jsstring \<Rightarrow> nat \<Rightarrow> js_error + lexeme" where
  "lexeme_at source start =
     (case drop start source of
        [] \<Rightarrow> Inr (plain_lexeme K_end [] start)
      | c # _ \<Rightarrow>
          if match_number (drop start source) \<noteq> []
          then number_lexeme (match_number (drop start source)) start
          else if c = 34 \<or> c = 39 then string_lexeme source c start
          else if match_name (drop start source) \<noteq> []
          then Inr (plain_lexeme K_name (match_name (drop start source)) start)
          else if match_operator (drop start source) \<noteq> []
          then Inr (plain_lexeme K_symbol (match_operator (drop start source)) start)
          else Inl (billing_error D_unsupported [c] (Some start)))"

text \<open>
  The parser's fields. \<open>cursor\<close> is always the end of the current lexeme, \<open>count\<close> the number of
  lexemes read, \<open>depth\<close> the nesting of \<open>expression\<close> calls.
\<close>

record parser_state =
  cursor :: nat
  lex_count :: nat
  parse_depth :: nat
  current :: lexeme

definition next_lexeme :: "jsstring \<Rightarrow> nat \<Rightarrow> nat \<Rightarrow> js_error + lexeme" where
  "next_lexeme source count position =
     guard_throw (10000 < count + 1) (billing_error D_limit (js ''expression tokens'') None)
       (lexeme_at source (skip_space source position))"

definition advance :: "jsstring \<Rightarrow> parser_state \<Rightarrow> js_error + parser_state" where
  "advance source st =
     rbind (next_lexeme source (lex_count st) (cursor st))
       (\<lambda>l. Inr (st\<lparr>cursor := lex_end l, lex_count := lex_count st + 1, current := l\<rparr>))"

text \<open>The version prefix \<open>/^\s*v(\d+):/\<close>: the digits and the length of the match.\<close>

definition match_version :: "jsstring \<Rightarrow> (jsstring \<times> nat) option" where
  "match_version source =
     (case dropWhile is_space source of
        c # rest \<Rightarrow>
          if c = 118 \<and> takeWhile is_digit rest \<noteq> []
             \<and> take 1 (dropWhile is_digit rest) = [58]
          then Some (takeWhile is_digit rest,
                 length (takeWhile is_space source) + 2 + length (takeWhile is_digit rest))
          else None
      | [] \<Rightarrow> None)"

definition initial_lexeme :: lexeme where
  "initial_lexeme = plain_lexeme K_end [] 0"

definition new_parser :: "jsstring \<Rightarrow> js_error + parser_state" where
  "new_parser source =
     guard_throw (65536 < length source) (billing_error D_limit (js ''expression length'') None)
       (case match_version source of
          Some (version, n) \<Rightarrow>
            guard_throw (version \<noteq> js ''1'')
              (billing_error D_unsupported (take n source) None)
              (advance source \<lparr>cursor = n, lex_count = 0, parse_depth = 0,
                 current = initial_lexeme\<rparr>)
        | None \<Rightarrow>
            advance source \<lparr>cursor = 0, lex_count = 0, parse_depth = 0,
              current = initial_lexeme\<rparr>)"

text \<open>\<open>take()\<close> returns the current lexeme and reads the next one.\<close>

definition take_lexeme :: "jsstring \<Rightarrow> parser_state \<Rightarrow> js_error + lexeme \<times> parser_state" where
  "take_lexeme source st = rbind (advance source st) (\<lambda>st'. Inr (current st, st'))"

definition expect_lexeme ::
  "jsstring \<Rightarrow> jsstring \<Rightarrow> parser_state \<Rightarrow> js_error + lexeme \<times> parser_state" where
  "expect_lexeme source text st =
     guard_throw (lex_text (current st) \<noteq> text)
       (billing_error D_syntax (js ''expected '' @ text) (Some (lex_start (current st))))
       (take_lexeme source st)"

subsection \<open>Lexemes make progress\<close>

text \<open>
  \<open>lexeme_ok source l\<close>: the lexeme lies within the source, it is empty exactly at the end.
\<close>

definition lexeme_ok :: "jsstring \<Rightarrow> lexeme \<Rightarrow> bool" where
  "lexeme_ok source l \<longleftrightarrow>
     lex_start l \<le> lex_end l \<and> lex_end l \<le> length source
     \<and> (if lex_kind l = K_end then lex_start l = length source \<and> lex_text l = []
        else lex_start l < lex_end l \<and> lex_text l \<noteq> [])"

lemma length_match_name: "length (match_name rest) \<le> length rest"
  by (auto simp: match_name_def length_takeWhile_le split: list.splits)

lemma length_match_operator: "length (match_operator rest) \<le> length rest"
  by (auto simp: match_operator_def split: list.splits)

lemma lex_string_cursor:
  "lex_string q st cur v rest = Inr (v', cur') \<Longrightarrow> cur < cur' \<and> cur' \<le> cur + length rest"
proof (induction q st cur v rest rule: lex_string.induct)
  case (2 quote start cur v char rest)
  show ?case
  proof (cases "char = quote \<or> char = 10 \<or> char = 13 \<or> char \<noteq> 92")
    case True
    with "2.prems" "2.IH"(1) show ?thesis by (auto split: if_splits)
  next
    case False
    with "2.prems" obtain e r where rest: "rest = e # r" by (cases rest) auto
    show ?thesis
    proof (cases "map_of string_escapes e")
      case (Some c)
      have "cur + 2 < cur' \<and> cur' \<le> cur + 2 + length r"
        using "2.prems" False Some by (intro "2.IH"(3)) (auto simp: rest)
      then show ?thesis by (simp add: rest)
    next
      case None
      let ?h = "hex_length e"
      have h: "length (take ?h r) = ?h"
        and rec: "lex_string quote start (cur + 2 + ?h) (v @ [hex_digits_value (take ?h r)])
            (drop ?h r) = Inr (v', cur')"
        and e: "e = 117 \<or> e = 120" "list_all is_hex (take ?h r)"
        using "2.prems" False None by (auto simp: rest split: if_splits)
      have "cur + 2 + ?h < cur' \<and> cur' \<le> cur + 2 + ?h + length (drop ?h r)"
        using rec False None h e by (intro "2.IH"(2)) (auto simp: rest)
      then show ?thesis using h by (simp add: rest)
    qed
  qed
qed simp

lemma lexeme_at_ok:
  assumes "lexeme_at source start = Inr l" and "start \<le> length source"
  shows "lexeme_ok source l \<and> lex_start l = start"
proof (cases "drop start source")
  case Nil
  with assms show ?thesis by (auto simp: lexeme_at_def plain_lexeme_def lexeme_ok_def)
next
  case (Cons c cs)
  let ?r = "drop start source"
  have len: "length ?r = length source - start" by simp
  consider
      (number) "match_number ?r \<noteq> []" "number_lexeme (match_number ?r) start = Inr l"
    | (string) "string_lexeme source c start = Inr l"
    | (name) "match_name ?r \<noteq> []" "l = plain_lexeme K_name (match_name ?r) start"
    | (operator) "match_operator ?r \<noteq> []" "l = plain_lexeme K_symbol (match_operator ?r) start"
    using assms Cons by (auto simp: lexeme_at_def simp del: drop_eq_Nil split: if_splits)
  then show ?thesis
  proof cases
    case number
    then show ?thesis using length_match_number [of ?r] assms(2) len
      by (auto simp: number_lexeme_def lexeme_ok_def split: if_splits)
  next
    case string
    then obtain v cur where v: "lex_string c start (start + 1) [] (drop (start + 1) source) = Inr (v, cur)"
      and l: "l = \<lparr>lex_text = js_slice source start cur, lex_start = start, lex_end = cur,
               lex_value = L_string v, lex_integer = False, lex_kind = K_string\<rparr>"
      by (auto simp: string_lexeme_def rbind_eq_Inr)
    have "start < length source" using Cons by (metis drop_eq_Nil2 list.distinct(1) not_less)
    with lex_string_cursor [OF v] l show ?thesis
      by (auto simp: lexeme_ok_def js_slice_def)
  next
    case name
    then show ?thesis using length_match_name [of ?r] assms(2) len
      by (auto simp: plain_lexeme_def lexeme_ok_def)
  next
    case operator
    then show ?thesis using length_match_operator [of ?r] assms(2) len
      by (auto simp: plain_lexeme_def lexeme_ok_def)
  qed
qed

lemma skip_space_bounds:
  "cur \<le> length source \<Longrightarrow> cur \<le> skip_space source cur \<and> skip_space source cur \<le> length source"
  using length_takeWhile_le [of is_space "drop cur source"] by (simp add: skip_space_def)

text \<open>The invariant of the parser state.\<close>

definition parser_ok :: "jsstring \<Rightarrow> parser_state \<Rightarrow> bool" where
  "parser_ok source st \<longleftrightarrow> lexeme_ok source (current st) \<and> cursor st = lex_end (current st)"

lemma advance_ok:
  assumes "advance source st = Inr st'" and "cursor st \<le> length source"
  shows "parser_ok source st'" and "cursor st \<le> lex_start (current st')"
    and "parse_depth st' = parse_depth st"
proof -
  obtain l where l: "lexeme_at source (skip_space source (cursor st)) = Inr l"
    and st': "st' = st\<lparr>cursor := lex_end l, lex_count := lex_count st + 1, current := l\<rparr>"
    using assms(1) by (auto simp: advance_def next_lexeme_def rbind_eq_Inr)
  note b = skip_space_bounds [OF assms(2)]
  show "parser_ok source st'" and "cursor st \<le> lex_start (current st')"
    and "parse_depth st' = parse_depth st"
    using lexeme_at_ok [OF l] b by (auto simp: st' parser_ok_def)
qed

lemma take_lexeme_ok:
  assumes "take_lexeme source st = Inr (l, st')" and "parser_ok source st"
  shows "l = current st" and "parser_ok source st'" and "lex_end l \<le> lex_start (current st')"
    and "lexeme_ok source l" and "parse_depth st' = parse_depth st"
proof -
  have a: "advance source st = Inr st'" and l: "l = current st"
    using assms(1) by (auto simp: take_lexeme_def rbind_eq_Inr)
  have "cursor st \<le> length source" using assms(2) by (simp add: parser_ok_def lexeme_ok_def)
  with advance_ok [OF a] assms(2) l
  show "l = current st" and "parser_ok source st'" and "lex_end l \<le> lex_start (current st')"
    and "lexeme_ok source l" and "parse_depth st' = parse_depth st"
    by (auto simp: parser_ok_def)
qed

lemma expect_lexeme_ok:
  assumes "expect_lexeme source text st = Inr (l, st')" and "parser_ok source st"
  shows "l = current st" and "parser_ok source st'" and "lex_end l \<le> lex_start (current st')"
    and "lexeme_ok source l" and "lex_text l = text" and "parse_depth st' = parse_depth st"
proof -
  have "take_lexeme source st = Inr (l, st')" and "lex_text (current st) = text"
    using assms(1) by (auto simp: expect_lexeme_def)
  with take_lexeme_ok [OF _ assms(2)]
  show "l = current st" and "parser_ok source st'" and "lex_end l \<le> lex_start (current st')"
    and "lexeme_ok source l" and "lex_text l = text" and "parse_depth st' = parse_depth st"
    by auto
qed

lemma match_version_le: "match_version source = Some (v, n) \<Longrightarrow> n \<le> length source"
proof -
  assume "match_version source = Some (v, n)"
  then obtain rest where r: "dropWhile is_space source = 118 # rest"
    and c: "take 1 (dropWhile is_digit rest) = [58]"
    and n: "n = length (takeWhile is_space source) + 2 + length (takeWhile is_digit rest)"
    by (auto simp: match_version_def split: list.splits if_splits)
  have "length source = length (takeWhile is_space source) + length (118 # rest)"
    by (metis r length_append takeWhile_dropWhile_id)
  moreover have "length rest = length (takeWhile is_digit rest) + length (dropWhile is_digit rest)"
    by (metis length_append takeWhile_dropWhile_id)
  moreover have "1 \<le> length (dropWhile is_digit rest)" using c by (cases "dropWhile is_digit rest") auto
  ultimately show ?thesis using n by simp
qed

lemma new_parser_ok: "new_parser source = Inr st \<Longrightarrow> parser_ok source st \<and> parse_depth st = 0"
proof -
  assume np: "new_parser source = Inr st"
  then obtain n where "n \<le> length source"
    and a: "advance source \<lparr>cursor = n, lex_count = 0, parse_depth = 0, current = initial_lexeme\<rparr> = Inr st"
    by (auto simp: new_parser_def split: option.splits dest: match_version_le)
  then show ?thesis using advance_ok(1,3) [OF a] by simp
qed

end
