(* ===== verification/Billing_Parser.thy ===== *)
theory Billing_Parser
  imports Billing_Lexer
begin

section \<open>The precedence-climbing parser\<close>

text \<open>
  \<open>BillingParser\<close> of \<open>billing-expression/parser.ts\<close>. The methods \<open>expression\<close> and \<open>primary\<close> are
  mutually recursive, and the loops inside them are functions of their own
  (\<open>binary_loop\<close>, \<open>argument_loop\<close>). They take the parser state and return it. The recursion
  follows the source text rather than a data structure, so the functions carry fuel; running
  out of it is an \<open>OtherError\<close>, which the source would report as a generic error. The fuel
  \<open>3 * length source + 3\<close> given by \<open>parse_source\<close> is always enough
  (\<open>parse_source_no_other_error\<close>), because every round consumes a lexeme.
\<close>

subsection \<open>Definitions\<close>

definition PRECEDENCE :: "(jsstring \<times> binary_operator \<times> nat) list" where
  "PRECEDENCE =
     [(js ''||'', Op_or, 1), (js ''&&'', Op_and, 2), (js ''=='', Op_eq, 3), (js ''!='', Op_ne, 3),
      (js ''<'', Op_lt, 4), (js ''<='', Op_le, 4), (js ''>'', Op_gt, 4), (js ''>='', Op_ge, 4),
      (js ''+'', Op_add, 5), (js ''-'', Op_sub, 5), (js ''*'', Op_mul, 6), (js ''/'', Op_div, 6),
      (js ''%'', Op_mod, 6)]"

definition unary_operators :: "(jsstring \<times> unary_operator) list" where
  "unary_operators = [(js ''!'', Op_not), (js ''+'', Op_pos), (js ''-'', Op_neg)]"

definition out_of_fuel :: js_error where
  "out_of_fuel = OtherError (js ''out of fuel'')"

text \<open>A name that no parenthesis follows is a constant or a token variable.\<close>

definition variable_node :: "lexeme \<Rightarrow> js_error + expression_node" where
  "variable_node token =
     (case map_of TOKEN_VARIABLES (lex_text token) of
        Some x \<Rightarrow> Inr (Variable x (lex_start token) (lex_end token))
      | None \<Rightarrow> Inl (billing_error D_unsupported (lex_text token) (Some (lex_start token))))"

definition call_node ::
  "lexeme \<Rightarrow> billing_function \<Rightarrow> expression_node list \<Rightarrow> nat \<Rightarrow> js_error + expression_node" where
  "call_node token f args e =
     guard_throw (length args \<noteq> function_arity f)
       (billing_error D_type (lex_text token) (Some (lex_start token)))
       (Inr (Call f args (lex_start token) e))"

fun expression ::
  "jsstring \<Rightarrow> nat \<Rightarrow> nat \<Rightarrow> parser_state \<Rightarrow> js_error + expression_node \<times> parser_state"
and binary_loop ::
  "jsstring \<Rightarrow> nat \<Rightarrow> nat \<Rightarrow> expression_node \<Rightarrow> parser_state
     \<Rightarrow> js_error + expression_node \<times> parser_state"
and primary :: "jsstring \<Rightarrow> nat \<Rightarrow> parser_state \<Rightarrow> js_error + expression_node \<times> parser_state"
and argument_loop ::
  "jsstring \<Rightarrow> nat \<Rightarrow> expression_node list \<Rightarrow> parser_state
     \<Rightarrow> js_error + expression_node list \<times> parser_state" where
  "expression source 0 minimum st = Inl out_of_fuel"
| "expression source (Suc fuel) minimum st =
     guard_throw (128 < parse_depth st + 1)
       (billing_error D_limit (js ''expression depth'') None)
       (rbind (primary source fuel (st\<lparr>parse_depth := parse_depth st + 1\<rparr>)) (\<lambda>(left, st).
        rbind (binary_loop source fuel minimum left st) (\<lambda>(left, st).
        if minimum = 0 \<and> lex_text (current st) = js ''?''
        then rbind (take_lexeme source st) (\<lambda>(_, st).
             rbind (expression source fuel 0 st) (\<lambda>(yes, st).
             rbind (expect_lexeme source (js '':'') st) (\<lambda>(_, st).
             rbind (expression source fuel 0 st) (\<lambda>(no, st).
             Inr (Conditional left yes no (node_start left) (node_end no),
                  st\<lparr>parse_depth := parse_depth st - 1\<rparr>)))))
        else Inr (left, st\<lparr>parse_depth := parse_depth st - 1\<rparr>))))"
| "binary_loop source 0 minimum left st = Inl out_of_fuel"
| "binary_loop source (Suc fuel) minimum left st =
     (case map_of PRECEDENCE (lex_text (current st)) of
        None \<Rightarrow> Inr (left, st)
      | Some (operator, prec) \<Rightarrow>
          if prec < minimum then Inr (left, st)
          else rbind (take_lexeme source st) (\<lambda>(_, st).
               rbind (expression source fuel (prec + 1) st) (\<lambda>(right, st).
               binary_loop source fuel minimum
                 (Binary operator left right (node_start left) (node_end right)) st)))"
| "primary source 0 st = Inl out_of_fuel"
| "primary source (Suc fuel) st =
     rbind (take_lexeme source st) (\<lambda>(token, st).
       if lex_kind token = K_number \<or> lex_kind token = K_string
       then Inr (Literal (lex_value token) (lex_integer token) (lex_start token) (lex_end token), st)
       else if lex_text token = js ''(''
       then rbind (expression source fuel 0 st) (\<lambda>(e, st).
            rbind (expect_lexeme source (js '')'') st) (\<lambda>(close, st).
            Inr (with_span e (lex_start token) (lex_end close), st)))
       else case map_of unary_operators (lex_text token) of
         Some operator \<Rightarrow>
           rbind (expression source fuel 7 st) (\<lambda>(operand, st).
           Inr (Unary operator operand (lex_start token) (node_end operand), st))
       | None \<Rightarrow>
           if lex_kind token \<noteq> K_name
           then Inl (billing_error D_syntax (lex_text token) (Some (lex_start token)))
           else if lex_text token = js ''nil''
           then Inr (Literal L_nil False (lex_start token) (lex_end token), st)
           else if lex_text token = js ''true'' \<or> lex_text token = js ''false''
           then Inr (Literal (L_boolean (lex_text token = js ''true'')) False
                       (lex_start token) (lex_end token), st)
           else if lex_text (current st) \<noteq> js ''(''
           then rbind (variable_node token) (\<lambda>n. Inr (n, st))
           else case map_of BILLING_FUNCTIONS (lex_text token) of
             None \<Rightarrow> Inl (billing_error D_unsupported (lex_text token) (Some (lex_start token)))
           | Some f \<Rightarrow>
               rbind (take_lexeme source st) (\<lambda>(_, st).
               rbind (argument_loop source fuel [] st) (\<lambda>(args, st).
               rbind (expect_lexeme source (js '')'') st) (\<lambda>(close, st).
               rbind (call_node token f args (lex_end close)) (\<lambda>n. Inr (n, st))))))"
| "argument_loop source 0 args st = Inl out_of_fuel"
| "argument_loop source (Suc fuel) args st =
     (if lex_text (current st) = js '')'' then Inr (args, st)
      else rbind (expression source fuel 0 st) (\<lambda>(arg, st).
           if lex_text (current st) \<noteq> js '','' then Inr (args @ [arg], st)
           else rbind (take_lexeme source st) (\<lambda>(_, st).
                argument_loop source fuel (args @ [arg]) st)))"

definition parser_fuel :: "jsstring \<Rightarrow> nat" where
  "parser_fuel source = 3 * length source + 3"

text \<open>\<open>new BillingParser(source).parse()\<close>\<close>

definition parse_source :: "jsstring \<Rightarrow> js_error + expression_node" where
  "parse_source source =
     rbind (new_parser source) (\<lambda>st.
     rbind (expression source (parser_fuel source) 0 st) (\<lambda>(node, st).
     guard_throw (lex_kind (current st) \<noteq> K_end)
       (billing_error D_unsupported (lex_text (current st)) (Some (lex_start (current st))))
       (Inr node)))"

end
