(* ===== verification/Billing_Spans.thy ===== *)
theory Billing_Spans
  imports Billing_Parser
begin

section \<open>Spans and termination of the parser\<close>

text \<open>
  Two contracts of the parser of \<open>billing-expression/parser.ts\<close>. The spans of a parsed tree nest
  strictly, so no two nodes of a tree are equal and comparing nodes by value is the reference
  comparison \<open>rule.node === node\<close> of the source. And the parser always answers: the fuel of
  the model never runs out, so every error is one that the source throws itself.
\<close>

subsection \<open>Source spans\<close>

text \<open>
  \<open>chained lo cs hi\<close>: the spans of the nodes \<open>cs\<close> lie between \<open>lo\<close> and \<open>hi\<close>, from left to
  right, without overlap. \<open>spans_ok n\<close>: every node of the tree covers some text, its children
  lie inside it in order, no child covers the same text as its parent, and a call has the
  number of arguments of its function.
\<close>

fun chained :: "nat \<Rightarrow> expression_node list \<Rightarrow> nat \<Rightarrow> bool" where
  "chained lo [] hi = (lo \<le> hi)"
| "chained lo (c # cs) hi = (lo \<le> node_start c \<and> node_start c < node_end c \<and> chained (node_end c) cs hi)"

fun arity_ok :: "expression_node \<Rightarrow> bool" where
  "arity_ok (Call f args _ _) = (length args = function_arity f)"
| "arity_ok _ = True"

definition span_step :: "expression_node \<Rightarrow> bool" where
  "span_step n \<longleftrightarrow>
     arity_ok n \<and> node_start n < node_end n \<and> chained (node_start n) (node_children n) (node_end n)
     \<and> (\<forall>c \<in> set (node_children n). (node_start c, node_end c) \<noteq> (node_start n, node_end n))"

definition spans_ok :: "expression_node \<Rightarrow> bool" where
  "spans_ok n \<longleftrightarrow> (\<forall>m \<in> set (postorder n). span_step m)"

lemma chained_append:
  "chained lo (cs @ ds) hi \<longleftrightarrow> (\<exists>mid. chained lo cs mid \<and> chained mid ds hi)"
proof (induction cs arbitrary: lo)
  case Nil
  then show ?case
    by (cases ds) (auto intro: exI [of _ lo])
qed auto

lemma chained_mono: "chained lo cs hi \<Longrightarrow> lo' \<le> lo \<Longrightarrow> hi \<le> hi' \<Longrightarrow> chained lo' cs hi'"
  by (induction cs arbitrary: lo lo') auto

lemma chained_le: "chained lo cs hi \<Longrightarrow> lo \<le> hi"
  by (induction cs arbitrary: lo) fastforce+

lemma chained_bounds:
  "chained lo cs hi \<Longrightarrow> c \<in> set cs \<Longrightarrow> lo \<le> node_start c \<and> node_start c < node_end c \<and> node_end c \<le> hi"
proof (induction cs arbitrary: lo)
  case (Cons d ds)
  then show ?case using chained_le [of "node_end d" ds hi] by fastforce
qed simp

lemma spans_ok_iff: "spans_ok n \<longleftrightarrow> span_step n \<and> (\<forall>c \<in> set (node_children n). spans_ok c)"
  using postorder_children [of n] by (auto simp: spans_ok_def)

lemma spans_ok_step: "spans_ok n \<Longrightarrow> span_step n"
  using spans_ok_iff [of n] by simp

lemma spans_ok_span: "spans_ok n \<Longrightarrow> node_start n < node_end n"
  using spans_ok_step [of n] by (simp add: span_step_def)

lemma with_span_children [simp]: "node_children (with_span n s e) = node_children n"
  by (cases n) auto

lemma with_span_span [simp]: "node_start (with_span n s e) = s" "node_end (with_span n s e) = e"
  by (cases n; simp)+

lemma with_span_arity [simp]: "arity_ok (with_span n s e) = arity_ok n"
  by (cases n) auto

lemma spans_ok_with_span:
  assumes "spans_ok n" and "s < node_start n" and "node_end n \<le> e"
  shows "spans_ok (with_span n s e)"
proof -
  have "span_step n" using assms(1) by (rule spans_ok_step)
  then have "span_step (with_span n s e)"
    using assms(2,3) chained_bounds [of "node_start n" "node_children n" "node_end n"]
    by (fastforce simp: span_step_def intro: chained_mono)
  with assms(1) show ?thesis using spans_ok_iff [of n] spans_ok_iff [of "with_span n s e"] by simp
qed

lemma node_span_simps [simp]:
  "node_start (Binary p l r s e) = s" "node_end (Binary p l r s e) = e"
  by simp_all

lemma spans_ok_Binary:
  "spans_ok l \<Longrightarrow> spans_ok r \<Longrightarrow> node_end l \<le> node_start r \<Longrightarrow>
   spans_ok (Binary p l r (node_start l) (node_end r))"
  using spans_ok_span [of l] spans_ok_span [of r]
  by (subst spans_ok_iff) (auto simp: span_step_def)

lemma spans_ok_Conditional:
  "spans_ok c \<Longrightarrow> spans_ok y \<Longrightarrow> spans_ok n \<Longrightarrow> node_end c \<le> node_start y \<Longrightarrow>
   node_end y \<le> node_start n \<Longrightarrow> spans_ok (Conditional c y n (node_start c) (node_end n))"
  using spans_ok_span [of c] spans_ok_span [of y] spans_ok_span [of n]
  by (subst spans_ok_iff) (auto simp: span_step_def)

lemma spans_ok_Unary:
  "spans_ok n \<Longrightarrow> s < node_start n \<Longrightarrow> spans_ok (Unary p n s (node_end n))"
  using spans_ok_span [of n] by (subst spans_ok_iff) (auto simp: span_step_def)

lemma spans_ok_Call:
  assumes "\<forall>a \<in> set args. spans_ok a" and "s < lo" and "chained lo args hi" and "hi \<le> e"
    and "length args = function_arity f"
  shows "spans_ok (Call f args s e)"
proof -
  have "s < e" using chained_le [OF assms(3)] assms(2,4) by linarith
  moreover have "\<forall>a \<in> set args. s < node_start a"
    using chained_bounds [OF assms(3)] assms(2) by fastforce
  ultimately show ?thesis
    using assms chained_mono [OF assms(3), of s e]
    by (subst spans_ok_iff) (auto simp: span_step_def)
qed

subsection \<open>What the parser returns\<close>

text \<open>The state a parsing method leaves, and where the node it returns lies.\<close>

definition parsed :: "jsstring \<Rightarrow> parser_state \<Rightarrow> expression_node \<Rightarrow> parser_state \<Rightarrow> bool" where
  "parsed source st n st' \<longleftrightarrow>
     parser_ok source st' \<and> spans_ok n \<and> lex_start (current st) \<le> node_start n
     \<and> node_end n \<le> lex_start (current st')"

definition looped ::
  "jsstring \<Rightarrow> expression_node \<Rightarrow> parser_state \<Rightarrow> expression_node \<Rightarrow> parser_state \<Rightarrow> bool" where
  "looped source left st n st' \<longleftrightarrow>
     parser_ok source st' \<and> spans_ok n \<and> node_start n = node_start left
     \<and> node_end n \<le> lex_start (current st')
     \<and> lex_start (current st) \<le> lex_start (current st')"

definition argued ::
  "jsstring \<Rightarrow> nat \<Rightarrow> parser_state \<Rightarrow> expression_node list \<Rightarrow> parser_state \<Rightarrow> bool" where
  "argued source lo st args st' \<longleftrightarrow>
     parser_ok source st' \<and> (\<forall>a \<in> set args. spans_ok a)
     \<and> chained lo args (lex_start (current st')) \<and> lex_start (current st) \<le> lex_start (current st')"

lemma parser_ok_depth [simp]: "parser_ok source (st\<lparr>parse_depth := d\<rparr>) = parser_ok source st"
  by (simp add: parser_ok_def)

lemma parsed_depth [simp]:
  "parsed source (st\<lparr>parse_depth := d\<rparr>) n st' = parsed source st n st'"
  "parsed source st n (st'\<lparr>parse_depth := d\<rparr>) = parsed source st n st'"
  by (simp_all add: parsed_def)

lemma spans_ok_leaf [simp]:
  "spans_ok (Literal v i s e) = (s < e)" "spans_ok (Variable x s e) = (s < e)"
  using spans_ok_iff [of "Literal v i s e"] spans_ok_iff [of "Variable x s e"]
  by (auto simp: span_step_def)

text \<open>One step of each method, from the contracts of the methods it calls.\<close>

lemma parsed_expression_step:
  assumes prim: "\<And>st n st'. parser_ok source st \<Longrightarrow> primary source fuel st = Inr (n, st') \<Longrightarrow>
        parsed source st n st'"
    and loop: "\<And>m left st n st'. parser_ok source st \<Longrightarrow> spans_ok left \<Longrightarrow>
        node_end left \<le> lex_start (current st) \<Longrightarrow>
        binary_loop source fuel m left st = Inr (n, st') \<Longrightarrow> looped source left st n st'"
    and expr: "\<And>m st n st'. parser_ok source st \<Longrightarrow> expression source fuel m st = Inr (n, st') \<Longrightarrow>
        parsed source st n st'"
    and ok: "parser_ok source st"
    and ret: "expression source (Suc fuel) m st = Inr (n, st')"
  shows "parsed source st n st'"
proof -
  obtain l1 s1 l2 s2 where
    p: "primary source fuel (st\<lparr>parse_depth := parse_depth st + 1\<rparr>) = Inr (l1, s1)" and
    b: "binary_loop source fuel m l1 s1 = Inr (l2, s2)" and
    rest: "(if m = 0 \<and> lex_text (current s2) = js ''?''
        then rbind (take_lexeme source s2) (\<lambda>(_, st).
             rbind (expression source fuel 0 st) (\<lambda>(yes, st).
             rbind (expect_lexeme source (js '':'') st) (\<lambda>(_, st).
             rbind (expression source fuel 0 st) (\<lambda>(no, st).
             Inr (Conditional l2 yes no (node_start l2) (node_end no),
                  st\<lparr>parse_depth := parse_depth st - 1\<rparr>)))))
        else Inr (l2, s2\<lparr>parse_depth := parse_depth s2 - 1\<rparr>)) = Inr (n, st')"
    using ret by (auto simp: rbind_eq_Inr)
  have P: "parsed source st l1 s1" using prim [OF _ p] ok by simp
  then have L: "looped source l1 s1 l2 s2" using loop [OF _ _ _ b] by (simp add: parsed_def)
  show ?thesis
  proof (cases "m = 0 \<and> lex_text (current s2) = js ''?''")
    case False
    with rest P L show ?thesis by (auto simp: parsed_def looped_def)
  next
    case True
    then obtain t3 s3 yes s4 t5 s5 no s6 where
      3: "take_lexeme source s2 = Inr (t3, s3)" and
      4: "expression source fuel 0 s3 = Inr (yes, s4)" and
      5: "expect_lexeme source (js '':'') s4 = Inr (t5, s5)" and
      6: "expression source fuel 0 s5 = Inr (no, s6)" and
      n: "n = Conditional l2 yes no (node_start l2) (node_end no)"
         "st' = s6\<lparr>parse_depth := parse_depth s6 - 1\<rparr>"
      using rest by (auto simp: rbind_eq_Inr)
    have o2: "parser_ok source s2" using L by (simp add: looped_def)
    note k3 = take_lexeme_ok [OF 3 o2]
    have P4: "parsed source s3 yes s4" using expr [OF k3(2) 4] .
    then have o4: "parser_ok source s4" by (simp add: parsed_def)
    note k5 = expect_lexeme_ok [OF 5 o4]
    have P6: "parsed source s5 no s6" using expr [OF k5(2) 6] .
    have "spans_ok n"
      unfolding n using L P4 P6 k3 k5
      by (intro spans_ok_Conditional) (auto simp: parsed_def looped_def lexeme_ok_def)
    then show ?thesis
      using P L P4 P6 k3 k5 unfolding n by (auto simp: parsed_def looped_def lexeme_ok_def)
  qed
qed

lemma looped_binary_step:
  assumes loop: "\<And>m left st n st'. parser_ok source st \<Longrightarrow> spans_ok left \<Longrightarrow>
        node_end left \<le> lex_start (current st) \<Longrightarrow>
        binary_loop source fuel m left st = Inr (n, st') \<Longrightarrow> looped source left st n st'"
    and expr: "\<And>m st n st'. parser_ok source st \<Longrightarrow> expression source fuel m st = Inr (n, st') \<Longrightarrow>
        parsed source st n st'"
    and ok: "parser_ok source st" "spans_ok left" "node_end left \<le> lex_start (current st)"
    and ret: "binary_loop source (Suc fuel) m left st = Inr (n, st')"
  shows "looped source left st n st'"
proof -
  consider (stop) "n = left" "st' = st"
    | (step) p k t1 s1 right s2 where
        "take_lexeme source st = Inr (t1, s1)" "expression source fuel (k + 1) s1 = Inr (right, s2)"
        "binary_loop source fuel m (Binary p left right (node_start left) (node_end right)) s2 = Inr (n, st')"
    using ret by (auto simp: rbind_eq_Inr split: option.splits if_splits)
  then show ?thesis
  proof cases
    case stop
    with ok show ?thesis by (simp add: looped_def)
  next
    case step
    note k1 = take_lexeme_ok [OF step(1) ok(1)]
    have P: "parsed source s1 right s2" using expr [OF k1(2) step(2)] .
    let ?b = "Binary p left right (node_start left) (node_end right)"
    have "spans_ok ?b"
      using P ok k1 by (intro spans_ok_Binary) (auto simp: parsed_def lexeme_ok_def)
    moreover have "node_end ?b \<le> lex_start (current s2)" "parser_ok source s2"
      using P by (auto simp: parsed_def)
    ultimately have "looped source ?b s2 n st'" using loop [OF _ _ _ step(3)] by blast
    then show ?thesis using P k1 ok(1) spans_ok_span [of right]
      by (auto simp: looped_def parsed_def lexeme_ok_def)
  qed
qed

lemma spans_ok_leaf_token:
  assumes "lexeme_ok source t" and "lex_text t \<noteq> []" and "lex_end t \<le> lex_start (current st')"
    and "parser_ok source st'" and "lex_start (current st) \<le> lex_start t"
  shows "parsed source st (Literal v i (lex_start t) (lex_end t)) st'"
    and "parsed source st (Variable x (lex_start t) (lex_end t)) st'"
  using assms by (auto simp: parsed_def lexeme_ok_def split: if_splits)

lemma parsed_primary_step:
  assumes expr: "\<And>m st n st'. parser_ok source st \<Longrightarrow> expression source fuel m st = Inr (n, st') \<Longrightarrow>
        parsed source st n st'"
    and args: "\<And>lo as st as' st'. parser_ok source st \<Longrightarrow> (\<forall>a \<in> set as. spans_ok a) \<Longrightarrow>
        chained lo as (lex_start (current st)) \<Longrightarrow>
        argument_loop source fuel as st = Inr (as', st') \<Longrightarrow> argued source lo st as' st'"
    and ok: "parser_ok source st"
    and ret: "primary source (Suc fuel) st = Inr (n, st')"
  shows "parsed source st n st'"
proof -
  obtain t s1 where t: "take_lexeme source st = Inr (t, s1)"
    using ret by (auto simp: rbind_eq_Inr)
  note k = take_lexeme_ok [OF t ok]
  consider
      (leaf) v i where "n = Literal v i (lex_start t) (lex_end t)" "st' = s1" "lex_text t \<noteq> []"
    | (paren) e s2 c where "expression source fuel 0 s1 = Inr (e, s2)" "lex_text t = js ''(''"
        "expect_lexeme source (js '')'') s2 = Inr (c, st')" "n = with_span e (lex_start t) (lex_end c)"
    | (unary) p e where "expression source fuel 7 s1 = Inr (e, st')" "lex_text t \<noteq> []"
        "n = Unary p e (lex_start t) (node_end e)"
    | (var) x where "n = Variable x (lex_start t) (lex_end t)" "st' = s1" "lex_text t \<noteq> []"
    | (call) f o1 s2 as s3 c where "lex_text t \<noteq> []" "take_lexeme source s1 = Inr (o1, s2)"
        "argument_loop source fuel [] s2 = Inr (as, s3)"
        "expect_lexeme source (js '')'') s3 = Inr (c, st')" "n = Call f as (lex_start t) (lex_end c)"
        "length as = function_arity f"
  proof -
    have nonempty: "lex_text t \<noteq> []" if "lex_kind t \<noteq> K_end"
      using k(4) that by (auto simp: lexeme_ok_def split: if_splits)
    from ret t show ?thesis
      using that nonempty
      by (auto simp: variable_node_def call_node_def rbind_eq_Inr unary_operators_def
          split: option.splits if_splits)
  qed
  then show ?thesis
  proof cases
    case leaf
    then show ?thesis using spans_ok_leaf_token(1) [OF k(4) _ k(3) k(2)] k(1) by simp
  next
    case paren
    have P: "parsed source s1 e s2" using expr [OF k(2) paren(1)] .
    then have "parser_ok source s2" by (simp add: parsed_def)
    note k3 = expect_lexeme_ok [OF paren(3) this]
    have "lex_start t < lex_end t" using k(4) paren(2) by (auto simp: lexeme_ok_def split: if_splits)
    then have "spans_ok n"
      unfolding paren(4) using P k k3
      by (intro spans_ok_with_span) (auto simp: parsed_def lexeme_ok_def)
    then show ?thesis using k k3 paren(4) by (auto simp: parsed_def)
  next
    case unary
    have P: "parsed source s1 e st'" using expr [OF k(2) unary(1)] .
    have "lex_start t < lex_end t" using k(4) unary(2) by (auto simp: lexeme_ok_def split: if_splits)
    then have "spans_ok n"
      unfolding unary(3) using P k by (intro spans_ok_Unary) (auto simp: parsed_def)
    then show ?thesis using P k unary(3) by (auto simp: parsed_def)
  next
    case var
    then show ?thesis using spans_ok_leaf_token(2) [OF k(4) _ k(3) k(2)] k(1) by simp
  next
    case call
    note k2 = take_lexeme_ok [OF call(2) k(2)]
    have A: "argued source (lex_start (current s2)) s2 as s3"
      by (rule args [OF k2(2) _ _ call(3)]) auto
    then have "parser_ok source s3" by (simp add: argued_def)
    note k4 = expect_lexeme_ok [OF call(4) this]
    have "lex_start t < lex_end t" using k(4) call(1) by (auto simp: lexeme_ok_def split: if_splits)
    then have "spans_ok n"
      unfolding call(5) using A k k2 k4 call(6)
      by (intro spans_ok_Call [of _ _ "lex_start (current s2)" "lex_start (current s3)"])
        (auto simp: argued_def lexeme_ok_def)
    then show ?thesis using k k4 call(5) by (auto simp: parsed_def)
  qed
qed

lemma argued_argument_step:
  assumes expr: "\<And>m st n st'. parser_ok source st \<Longrightarrow> expression source fuel m st = Inr (n, st') \<Longrightarrow>
        parsed source st n st'"
    and args: "\<And>lo as st as' st'. parser_ok source st \<Longrightarrow> (\<forall>a \<in> set as. spans_ok a) \<Longrightarrow>
        chained lo as (lex_start (current st)) \<Longrightarrow>
        argument_loop source fuel as st = Inr (as', st') \<Longrightarrow> argued source lo st as' st'"
    and ok: "parser_ok source st" "\<forall>a \<in> set as. spans_ok a" "chained lo as (lex_start (current st))"
    and ret: "argument_loop source (Suc fuel) as st = Inr (as', st')"
  shows "argued source lo st as' st'"
proof -
  consider (stop) "as' = as" "st' = st"
    | (last) a where "expression source fuel 0 st = Inr (a, st')" "as' = as @ [a]"
    | (more) a s1 t s2 where "expression source fuel 0 st = Inr (a, s1)"
        "take_lexeme source s1 = Inr (t, s2)" "argument_loop source fuel (as @ [a]) s2 = Inr (as', st')"
    using ret by (auto simp: rbind_eq_Inr split: if_splits)
  then show ?thesis
  proof cases
    case stop
    with ok show ?thesis by (simp add: argued_def)
  next
    case last
    have "parsed source st a st'" using expr [OF ok(1) last(1)] .
    then show ?thesis using ok last(2) spans_ok_span [of a]
      by (auto simp: argued_def parsed_def chained_append intro!: exI [of _ "lex_start (current st)"])
  next
    case more
    have P: "parsed source st a s1" using expr [OF ok(1) more(1)] .
    then have "parser_ok source s1" by (simp add: parsed_def)
    note k = take_lexeme_ok [OF more(2) this]
    have mid: "lex_start (current s1) \<le> lex_start (current s2)" using k by (auto simp: lexeme_ok_def)
    have "chained lo (as @ [a]) (lex_start (current s2))"
      using ok(3) P mid spans_ok_span [of a]
      by (auto simp: parsed_def chained_append intro!: exI [of _ "lex_start (current st)"])
    moreover have "\<forall>b \<in> set (as @ [a]). spans_ok b" using ok(2) P by (simp add: parsed_def)
    ultimately have "argued source lo s2 as' st'" using args [OF k(2) _ _ more(3)] by blast
    then show ?thesis using P mid spans_ok_span [of a] by (auto simp: argued_def parsed_def)
  qed
qed

lemma parser_spans:
  shows "parser_ok source st \<Longrightarrow> expression source fuel m st = Inr (n, st') \<Longrightarrow> parsed source st n st'"
    and "parser_ok source st \<Longrightarrow> spans_ok left \<Longrightarrow> node_end left \<le> lex_start (current st) \<Longrightarrow>
      binary_loop source fuel m left st = Inr (n, st') \<Longrightarrow> looped source left st n st'"
    and "parser_ok source st \<Longrightarrow> primary source fuel st = Inr (n, st') \<Longrightarrow> parsed source st n st'"
    and "parser_ok source st \<Longrightarrow> (\<forall>a \<in> set as. spans_ok a) \<Longrightarrow>
      chained lo as (lex_start (current st)) \<Longrightarrow>
      argument_loop source fuel as st = Inr (as', st') \<Longrightarrow> argued source lo st as' st'"
proof (induction fuel arbitrary: st n st' m left as as' lo)
  case (Suc fuel)
  { case 1 show ?case by (rule parsed_expression_step [where fuel = fuel]) (fact Suc.IH "1")+ }
  { case 2 show ?case by (rule looped_binary_step [where fuel = fuel]) (fact Suc.IH "2")+ }
  { case 3 show ?case by (rule parsed_primary_step [where fuel = fuel]) (fact Suc.IH "3")+ }
  { case 4 show ?case by (rule argued_argument_step [where fuel = fuel]) (fact Suc.IH "4")+ }
qed simp_all

subsection \<open>No two nodes of a parsed tree are equal\<close>

definition node_span :: "expression_node \<Rightarrow> nat \<times> nat" where
  "node_span n = (node_start n, node_end n)"

lemma spans_ok_nested:
  "spans_ok n \<Longrightarrow> m \<in> set (postorder n) \<Longrightarrow>
   node_start n \<le> node_start m \<and> node_start m < node_end m \<and> node_end m \<le> node_end n"
proof (induction "size n" arbitrary: n rule: less_induct)
  case less
  show ?case
  proof (cases "m = n")
    case True
    with less.prems show ?thesis using spans_ok_span by auto
  next
    case False
    then obtain c where c: "c \<in> set (node_children n)" "m \<in> set (postorder c)"
      using less.prems(2) postorder_children [of n] by auto
    have "spans_ok c" using less.prems(1) c(1) spans_ok_iff [of n] by blast
    then have "node_start c \<le> node_start m \<and> node_start m < node_end m \<and> node_end m \<le> node_end c"
      using less.hyps [OF node_children_size [OF c(1)]] c(2) by blast
    moreover have "node_start n \<le> node_start c \<and> node_end c \<le> node_end n"
      using spans_ok_step [OF less.prems(1)] chained_bounds c(1) unfolding span_step_def by blast
    ultimately show ?thesis by linarith
  qed
qed

lemma distinct_spans_chained:
  assumes "chained lo cs hi" and "\<forall>c \<in> set cs. spans_ok c"
    and "\<forall>c \<in> set cs. distinct (map node_span (postorder c))"
  shows "distinct (map node_span (concat (map postorder cs)))"
  using assms
proof (induction cs arbitrary: lo)
  case (Cons c cs)
  have "node_span m \<noteq> node_span m'"
    if m: "m \<in> set (postorder c)" and d: "d \<in> set cs" and m': "m' \<in> set (postorder d)" for m d m'
  proof -
    have "node_end c \<le> node_start d"
      using Cons.prems(1) chained_bounds [of "node_end c" cs hi d] d by auto
    then show ?thesis
      using spans_ok_nested [of c m] spans_ok_nested [of d m'] Cons.prems(2) m d m'
      by (auto simp: node_span_def)
  qed
  with Cons show ?case by (auto simp: image_iff) (metis image_eqI)
qed simp

lemma spans_ok_distinct: "spans_ok n \<Longrightarrow> distinct (map node_span (postorder n))"
proof (induction "size n" arbitrary: n rule: less_induct)
  case less
  have step: "span_step n" and sub: "\<forall>c \<in> set (node_children n). spans_ok c"
    using less.prems spans_ok_iff [of n] by auto
  have dc: "distinct (map node_span (concat (map postorder (node_children n))))"
    using step sub less.hyps node_children_size
    by (intro distinct_spans_chained [of "node_start n" _ "node_end n"]) (auto simp: span_step_def)
  have ne: "node_span m \<noteq> node_span n" if c: "c \<in> set (node_children n)" and m: "m \<in> set (postorder c)" for c m
  proof
    assume "node_span m = node_span n"
    moreover have "node_start n \<le> node_start c \<and> node_end c \<le> node_end n"
      using step chained_bounds c unfolding span_step_def by blast
    moreover have "node_start c \<le> node_start m \<and> node_end m \<le> node_end c"
      using spans_ok_nested [of c m] sub c m by blast
    ultimately have "(node_start c, node_end c) = (node_start n, node_end n)"
      by (simp add: node_span_def)
    then show False using step c unfolding span_step_def by blast
  qed
  have "node_span n \<notin> set (map node_span (concat (map postorder (node_children n))))"
    using ne by auto metis
  with dc show ?case
    by (subst postorder_children) simp
qed

subsection \<open>The parser always answers\<close>

fun is_billing_error :: "js_error \<Rightarrow> bool" where
  "is_billing_error (BillingExpressionError _) = True"
| "is_billing_error (OtherError _) = False"

lemma lex_string_error: "lex_string q st cur v rest = Inl e \<Longrightarrow> is_billing_error e"
proof (induction q st cur v rest rule: lex_string.induct)
  case (2 quote start cur v char rest)
  show ?case
  proof (cases "char = quote \<or> char = 10 \<or> char = 13 \<or> char \<noteq> 92")
    case True
    with "2.prems" "2.IH"(1) show ?thesis by (auto simp: unterminated_def split: if_splits)
  next
    case False
    show ?thesis
    proof (cases rest)
      case Nil
      with "2.prems" False show ?thesis by auto
    next
      case (Cons x r)
      with "2.prems" "2.IH"(2) [of x r] "2.IH"(3) [of x r] False show ?thesis
        by (cases "map_of string_escapes x") (auto simp: unterminated_def split: if_splits)
    qed
  qed
qed (auto simp: unterminated_def)

lemma lexeme_at_error: "lexeme_at source start = Inl e \<Longrightarrow> is_billing_error e"
  by (auto simp: lexeme_at_def number_lexeme_def string_lexeme_def rbind_eq_Inl dest: lex_string_error
      split: list.splits if_splits)

lemma advance_error: "advance source st = Inl e \<Longrightarrow> is_billing_error e"
  by (auto simp: advance_def next_lexeme_def rbind_eq_Inl guard_throw_eq_Inl dest: lexeme_at_error
      split: if_splits)

lemma take_lexeme_error: "take_lexeme source st = Inl e \<Longrightarrow> is_billing_error e"
  by (auto simp: take_lexeme_def rbind_eq_Inl dest: advance_error)

lemma expect_lexeme_error: "expect_lexeme source text st = Inl e \<Longrightarrow> is_billing_error e"
  by (auto simp: expect_lexeme_def guard_throw_eq_Inl dest: take_lexeme_error split: if_splits)

lemma node_errors:
  "variable_node t = Inl e \<Longrightarrow> is_billing_error e"
  "call_node t f as n = Inl e \<Longrightarrow> is_billing_error e"
  by (auto simp: variable_node_def call_node_def guard_throw_eq_Inl split: option.splits if_splits)

lemmas lexer_errors = take_lexeme_error expect_lexeme_error node_errors

text \<open>How much of the source is left from the current lexeme on.\<close>

definition unread :: "jsstring \<Rightarrow> parser_state \<Rightarrow> nat" where
  "unread source st = length source - lex_start (current st)"

lemma unread_depth [simp]: "unread source (st\<lparr>parse_depth := d\<rparr>) = unread source st"
  by (simp add: unread_def)

lemma unread_take:
  assumes "parser_ok source st" and "take_lexeme source st = Inr (t, st')"
  shows "lex_text t \<noteq> [] \<Longrightarrow> unread source st' < unread source st"
    and "unread source st' \<le> unread source st" and "parser_ok source st'"
  using take_lexeme_ok [OF assms(2,1)] assms(1)
  by (auto simp: unread_def parser_ok_def lexeme_ok_def split: if_splits)

lemma unread_expect:
  assumes "parser_ok source st" and "expect_lexeme source text st = Inr (t, st')"
  shows "unread source st' \<le> unread source st" and "parser_ok source st'"
  using unread_take(2,3) [OF assms(1), of t st'] assms(2) by (auto simp: expect_lexeme_def)

lemma unread_parsed:
  assumes "parsed source st n st'"
  shows "unread source st' < unread source st" and "parser_ok source st'"
  using assms spans_ok_span [of n]
  by (auto simp: parsed_def unread_def parser_ok_def lexeme_ok_def)

lemma unread_looped:
  assumes "looped source left st n st'"
  shows "unread source st' \<le> unread source st" and "parser_ok source st'"
  using assms by (auto simp: looped_def unread_def)

text \<open>
  With fuel for what is left to read, every error of a method is one the source throws. The
  four methods need slightly different amounts, so that each call has less to do.
\<close>

definition answers :: "nat \<Rightarrow> jsstring \<Rightarrow> nat \<Rightarrow> (parser_state \<Rightarrow> js_error + 'a) \<Rightarrow> bool" where
  "answers k source fuel f \<longleftrightarrow>
     (\<forall>st e. parser_ok source st \<longrightarrow> 3 * unread source st + k \<le> fuel \<longrightarrow> f st = Inl e \<longrightarrow>
        is_billing_error e)"

lemma answersI:
  assumes "\<And>st e. parser_ok source st \<Longrightarrow> 3 * unread source st + k \<le> fuel \<Longrightarrow> f st = Inl e \<Longrightarrow>
      is_billing_error e"
  shows "answers k source fuel f"
  using assms by (simp add: answers_def)

lemma answersD:
  "answers k source fuel f \<Longrightarrow> f st = Inl e \<Longrightarrow> parser_ok source st \<Longrightarrow>
   3 * unread source st + k \<le> fuel \<Longrightarrow> is_billing_error e"
  by (simp add: answers_def)

lemma answers_expression_step:
  assumes P: "answers 1 source fuel (primary source fuel)"
    and L: "\<And>left. spans_ok left \<Longrightarrow>
        answers 3 source fuel (\<lambda>st. if node_end left \<le> lex_start (current st)
          then binary_loop source fuel m left st else Inr (left, st))"
    and E: "answers 2 source fuel (expression source fuel 0)"
  shows "answers 2 source (Suc fuel) (expression source (Suc fuel) m)"
proof (rule answersI)
  fix st e
  assume ok: "parser_ok source st" and fuel: "3 * unread source st + 2 \<le> Suc fuel"
    and err: "expression source (Suc fuel) m st = Inl e"
  let ?st = "st\<lparr>parse_depth := parse_depth st + 1\<rparr>"
  consider (depth) "is_billing_error e"
    | (prim) "primary source fuel ?st = Inl e"
    | (loop) l1 s1 where "primary source fuel ?st = Inr (l1, s1)"
        "binary_loop source fuel m l1 s1 = Inl e"
    | (tern) l1 s1 l2 s2 where "primary source fuel ?st = Inr (l1, s1)"
        "binary_loop source fuel m l1 s1 = Inr (l2, s2)" "lex_text (current s2) = js ''?''"
        "rbind (take_lexeme source s2) (\<lambda>(_, st).
         rbind (expression source fuel 0 st) (\<lambda>(yes, st).
         rbind (expect_lexeme source (js '':'') st) (\<lambda>(_, st).
         rbind (expression source fuel 0 st) (\<lambda>(no, st).
         Inr (Conditional l2 yes no (node_start l2) (node_end no),
              st\<lparr>parse_depth := parse_depth st - 1\<rparr>))))) = Inl e"
    using err by (auto simp: guard_throw_eq_Inl rbind_eq_Inl split: if_splits)
  then show "is_billing_error e"
  proof cases
    case prim
    then show ?thesis using fuel ok by (intro answersD [OF P, of ?st]) auto
  next
    case loop
    have p: "parsed source st l1 s1" using parser_spans(3) [OF _ loop(1)] ok by simp
    have "answers 3 source fuel (\<lambda>st. if node_end l1 \<le> lex_start (current st)
          then binary_loop source fuel m l1 st else Inr (l1, st))"
      using L p by (simp add: parsed_def)
    then show ?thesis
      using loop(2) unread_parsed [OF p] p fuel by (elim answersD [of _ _ _ _ s1]) (auto simp: parsed_def)
  next
    case tern
    have p: "parsed source st l1 s1" using parser_spans(3) [OF _ tern(1)] ok by simp
    then have l: "looped source l1 s1 l2 s2" using parser_spans(2) [OF _ _ _ tern(2)] by (simp add: parsed_def)
    note u = unread_parsed [OF p] unread_looped [OF l]
    show ?thesis
    proof (cases "take_lexeme source s2")
      case (Inl a)
      with tern(4) show ?thesis by (auto dest: lexer_errors)
    next
      case (Inr a)
      then obtain t s3 where t: "take_lexeme source s2 = Inr (t, s3)" by (cases a) auto
      note u3 = unread_take [OF u(4) t]
      show ?thesis
      proof (cases "expression source fuel 0 s3")
        case (Inl a)
        have "is_billing_error a" using u u3 fuel by (intro answersD [OF E Inl]) auto
        with tern(4) t Inl show ?thesis by simp
      next
        case (Inr a)
        then obtain y s4 where y: "expression source fuel 0 s3 = Inr (y, s4)" by (cases a) auto
        note u4 = unread_parsed [OF parser_spans(1) [OF u3(3) y]]
        show ?thesis
        proof (cases "expect_lexeme source (js '':'') s4")
          case (Inl a)
          with tern(4) t y show ?thesis by (auto dest: lexer_errors)
        next
          case (Inr a)
          then obtain c s5 where c: "expect_lexeme source (js '':'') s4 = Inr (c, s5)" by (cases a) auto
          note u5 = unread_expect [OF u4(2) c]
          have e5: "expression source fuel 0 s5 = Inl e"
            using tern(4) t y c by (auto simp: rbind_eq_Inl)
          show ?thesis using u u3 u4 u5 fuel by (intro answersD [OF E e5]) auto
        qed
      qed
    qed
  qed
qed

lemma answers_loop_step:
  assumes L: "\<And>left. spans_ok left \<Longrightarrow>
        answers 3 source fuel (\<lambda>st. if node_end left \<le> lex_start (current st)
          then binary_loop source fuel m left st else Inr (left, st))"
    and E: "\<And>k. answers 2 source fuel (expression source fuel k)"
    and left: "spans_ok left"
  shows "answers 3 source (Suc fuel) (\<lambda>st. if node_end left \<le> lex_start (current st)
          then binary_loop source (Suc fuel) m left st else Inr (left, st))"
proof (rule answersI)
  fix st e
  assume ok: "parser_ok source st" and fuel: "3 * unread source st + 3 \<le> Suc fuel"
    and err: "(if node_end left \<le> lex_start (current st)
          then binary_loop source (Suc fuel) m left st else Inr (left, st)) = Inl e"
  then have pos: "node_end left \<le> lex_start (current st)" by (auto split: if_splits)
  have ne: "lex_text (current st) \<noteq> []"
    using err by (cases "lex_text (current st)") (auto simp: PRECEDENCE_def split: if_splits)
  from err pos consider
      (take) "take_lexeme source st = Inl e"
    | (expr) t s1 k where "take_lexeme source st = Inr (t, s1)" "expression source fuel k s1 = Inl e"
    | (loop) t s1 k r s2 p where "take_lexeme source st = Inr (t, s1)"
        "expression source fuel k s1 = Inr (r, s2)"
        "binary_loop source fuel m (Binary p left r (node_start left) (node_end r)) s2 = Inl e"
    by (auto simp: rbind_eq_Inl split: option.splits if_splits)
  then show "is_billing_error e"
  proof cases
    case take
    then show ?thesis by (rule lexer_errors)
  next
    case expr
    have "t = current st" using take_lexeme_ok [OF expr(1) ok] by simp
    then show ?thesis using unread_take [OF ok expr(1)] ne fuel
      by (intro answersD [OF E expr(2)]) auto
  next
    case loop
    have t: "t = current st" using take_lexeme_ok [OF loop(1) ok] by simp
    note u = unread_take [OF ok loop(1)]
    have p: "parsed source s1 r s2" using parser_spans(1) [OF u(3) loop(2)] .
    let ?b = "Binary p left r (node_start left) (node_end r)"
    have "spans_ok ?b"
      using p left pos take_lexeme_ok [OF loop(1) ok]
      by (intro spans_ok_Binary) (auto simp: parsed_def lexeme_ok_def)
    from L [OF this] show ?thesis
      using loop(3) unread_parsed [OF p] u t ne fuel p
      by (elim answersD [of _ _ _ _ s2]) (auto simp: parsed_def)
  qed
qed

lemma answers_argument_step:
  assumes E: "answers 2 source fuel (expression source fuel 0)"
    and A: "\<And>as. answers 3 source fuel (argument_loop source fuel as)"
  shows "answers 3 source (Suc fuel) (argument_loop source (Suc fuel) as)"
proof (rule answersI)
  fix st e
  assume ok: "parser_ok source st" and fuel: "3 * unread source st + 3 \<le> Suc fuel"
    and err: "argument_loop source (Suc fuel) as st = Inl e"
  from err consider
      (expr) "expression source fuel 0 st = Inl e"
    | (take) a s1 where "expression source fuel 0 st = Inr (a, s1)" "take_lexeme source s1 = Inl e"
    | (more) a s1 t s2 where "expression source fuel 0 st = Inr (a, s1)"
        "take_lexeme source s1 = Inr (t, s2)" "argument_loop source fuel (as @ [a]) s2 = Inl e"
    by (auto simp: rbind_eq_Inl split: if_splits)
  then show "is_billing_error e"
  proof cases
    case expr
    then show ?thesis using fuel ok by (intro answersD [OF E]) auto
  next
    case take
    then show ?thesis by (auto dest: lexer_errors)
  next
    case more
    note u1 = unread_parsed [OF parser_spans(1) [OF ok more(1)]]
    note u2 = unread_take [OF u1(2) more(2)]
    show ?thesis using u1 u2 fuel by (intro answersD [OF A more(3)]) auto
  qed
qed

lemma answers_primary_step:
  assumes E: "\<And>k. answers 2 source fuel (expression source fuel k)"
    and A: "\<And>as. answers 3 source fuel (argument_loop source fuel as)"
  shows "answers 1 source (Suc fuel) (primary source (Suc fuel))"
proof (rule answersI)
  fix st e
  assume ok: "parser_ok source st" and fuel: "3 * unread source st + 1 \<le> Suc fuel"
    and err: "primary source (Suc fuel) st = Inl e"
  show "is_billing_error e"
  proof (cases "take_lexeme source st")
    case (Inl a)
    with err show ?thesis by (auto dest: lexer_errors)
  next
    case (Inr a)
    then obtain t s1 where t: "take_lexeme source st = Inr (t, s1)" by (cases a) auto
    note u = unread_take [OF ok t]
    have nonempty: "lex_text t \<noteq> []" if "lex_kind t \<noteq> K_end"
      using take_lexeme_ok(4) [OF t ok] that by (auto simp: lexeme_ok_def split: if_splits)
    have "is_billing_error e \<or> lex_text t \<noteq> [] \<and>
        ((\<exists>k. expression source fuel k s1 = Inl e) \<or>
         (\<exists>k n s2. expression source fuel k s1 = Inr (n, s2)
            \<and> expect_lexeme source (js '')'') s2 = Inl e) \<or>
         take_lexeme source s1 = Inl e \<or>
         (\<exists>o1 s2. take_lexeme source s1 = Inr (o1, s2) \<and> argument_loop source fuel [] s2 = Inl e) \<or>
         (\<exists>o1 s2 as s3. take_lexeme source s1 = Inr (o1, s2)
            \<and> argument_loop source fuel [] s2 = Inr (as, s3)
            \<and> expect_lexeme source (js '')'') s3 = Inl e))"
      using err t nonempty
      by (auto simp: rbind_eq_Inl unary_operators_def split: option.splits if_splits dest: lexer_errors)
    then consider (thrown) "is_billing_error e"
      | (expr) k where "lex_text t \<noteq> []" "expression source fuel k s1 = Inl e"
      | (args) o1 s2 where "lex_text t \<noteq> []" "take_lexeme source s1 = Inr (o1, s2)"
          "argument_loop source fuel [] s2 = Inl e"
      by (auto dest: lexer_errors)
    then show ?thesis
    proof cases
      case expr
      then show ?thesis using u fuel by (intro answersD [OF E expr(2)]) auto
    next
      case args
      then show ?thesis using u unread_take [OF u(3) args(2)] fuel
        by (intro answersD [OF A args(3)]) auto
    qed
  qed
qed

lemma parser_answers:
  shows "answers 2 source fuel (expression source fuel m)"
    and "spans_ok left \<Longrightarrow> answers 3 source fuel (\<lambda>st. if node_end left \<le> lex_start (current st)
          then binary_loop source fuel m left st else Inr (left, st))"
    and "answers 1 source fuel (primary source fuel)"
    and "answers 3 source fuel (argument_loop source fuel as)"
proof (induction fuel arbitrary: m left as)
  case 0
  { case 1 show ?case by (simp add: answers_def) }
  { case 2 show ?case by (simp add: answers_def) }
  { case 3 show ?case by (simp add: answers_def) }
  { case 4 show ?case by (simp add: answers_def) }
next
  case (Suc fuel)
  { case 1 show ?case by (rule answers_expression_step) (fact Suc.IH)+ }
  { case 2 show ?case by (rule answers_loop_step) (fact Suc.IH "2")+ }
  { case 3 show ?case by (rule answers_primary_step) (fact Suc.IH)+ }
  { case 4 show ?case by (rule answers_argument_step) (fact Suc.IH)+ }
qed

lemma new_parser_error: "new_parser source = Inl e \<Longrightarrow> is_billing_error e"
  by (auto simp: new_parser_def guard_throw_eq_Inl dest: advance_error split: if_splits option.splits)

lemma parse_source_no_other_error: "parse_source source = Inl e \<Longrightarrow> is_billing_error e"
proof -
  assume err: "parse_source source = Inl e"
  show ?thesis
  proof (cases "new_parser source")
    case (Inl a)
    with err show ?thesis by (auto simp: parse_source_def dest: new_parser_error)
  next
    case (Inr st)
    have "parser_ok source st" using new_parser_ok [OF Inr] by simp
    moreover have "3 * unread source st + 2 \<le> parser_fuel source"
      by (simp add: unread_def parser_fuel_def)
    ultimately show ?thesis
      using err Inr answersD [OF parser_answers(1)]
      by (auto simp: parse_source_def rbind_eq_Inl guard_throw_eq_Inl split: if_splits)
  qed
qed

lemma parse_source_spans:
  assumes "parse_source source = Inr n"
  shows "spans_ok n" and "node_end n \<le> length source"
proof -
  obtain st st' where st: "new_parser source = Inr st"
    and e: "expression source (parser_fuel source) 0 st = Inr (n, st')"
    using assms by (auto simp: parse_source_def rbind_eq_Inr)
  have "parsed source st n st'"
    using parser_spans(1) [OF _ e] new_parser_ok [OF st] by simp
  then show "spans_ok n" and "node_end n \<le> length source"
    by (auto simp: parsed_def parser_ok_def lexeme_ok_def)
qed

subsection \<open>Properties\<close>

text \<open>
  C1: the parser answers on every input. The fuel \<open>parser_fuel\<close> is never exhausted and no
  TypeError escapes: the outcome is a tree or an error of this library with its diagnostic.
\<close>

theorem parser_always_answers:
  "(\<exists>n. parse_source source = Inr n) \<or> (\<exists>d. parse_source source = Inl (BillingExpressionError d))"
  using parse_source_no_other_error [of source]
  by (cases "parse_source source") (auto elim: is_billing_error.elims)

text \<open>
  C2: in a parsed tree no two nodes have the same span, every span is non-empty, lies inside the
  span of the root, and the root inside the source. The source uses object identity of nodes as
  keys (\<open>types.get(child)\<close>, \<open>rule.node === node\<close>); by this property structural equality of nodes
  decides the same question.
\<close>

theorem parser_node_identity:
  assumes "parse_source source = Inr n"
  shows "distinct (map node_span (postorder n)) \<and> distinct (postorder n)
    \<and> (\<forall>m \<in> set (postorder n). node_start n \<le> node_start m \<and> node_start m < node_end m
          \<and> node_end m \<le> node_end n \<and> node_end m \<le> length source)"
proof -
  note ok = parse_source_spans [OF assms]
  have "distinct (map node_span (postorder n))" using spans_ok_distinct [OF ok(1)] .
  then show ?thesis using spans_ok_nested [OF ok(1)] ok(2) by (fastforce simp: distinct_map)
qed

theorem parser_node_identity_witness:
  "parse_source (js ''p + c'') = Inr (Binary Op_add (Variable Var_p 0 1) (Variable Var_c 4 5) 0 5)
   \<and> distinct (map node_span [Variable Var_p 0 1, Variable Var_c 4 5,
       Binary Op_add (Variable Var_p 0 1) (Variable Var_c 4 5) 0 5])"
proof
  show p: "parse_source (js ''p + c'') =
      Inr (Binary Op_add (Variable Var_p 0 1) (Variable Var_c 4 5) 0 5)"
    by code_simp
  show "distinct (map node_span [Variable Var_p 0 1, Variable Var_c 4 5,
       Binary Op_add (Variable Var_p 0 1) (Variable Var_c 4 5) 0 5])"
    using parser_node_identity [OF p] by simp
qed

end
