(* ===== verification/Billing_Compile.thy ===== *)
theory Billing_Compile
  imports Billing_Spans
begin

section \<open>Type check, fixed prices, request rules, and the compilation cache\<close>

text \<open>
  The rest of \<open>billing-expression/parser.ts\<close>: \<open>checkExpressionTypes\<close>, which assigns a type to
  every node in one post-order pass, \<open>validateFixedPricingTree\<close>, the collection of the request
  rules, and \<open>compileBillingExpression\<close> with its first-in-first-out cache of 128 results.
\<close>

subsection \<open>Types\<close>

datatype expression_type = T_number | T_string | T_boolean | T_nil | T_dynamic

fun type_name :: "expression_type \<Rightarrow> jsstring" where
  "type_name T_number = js ''number''"
| "type_name T_string = js ''string''"
| "type_name T_boolean = js ''boolean''"
| "type_name T_nil = js ''nil''"
| "type_name T_dynamic = js ''dynamic''"

type_synonym type_map = "expression_node \<rightharpoonup> expression_type"

definition requireType :: "type_map \<Rightarrow> expression_node \<Rightarrow> expression_type \<Rightarrow> js_error + unit" where
  "requireType types child expected =
     guard_throw (types child \<noteq> Some expected \<and> types child \<noteq> Some T_dynamic)
       (billing_error D_type (type_name expected @ js '' operand'') (Some (node_start child)))
       (Inr ())"

text \<open>\<open>node.args[i]\<close>; the parser has checked the arity, an absent argument would be a TypeError.\<close>

definition argument :: "expression_node list \<Rightarrow> nat \<Rightarrow> js_error + expression_node" where
  "argument args i = (if i < length args then Inr (args ! i) else Inl (OtherError (js ''TypeError'')))"

fun require_all :: "type_map \<Rightarrow> expression_node list \<Rightarrow> expression_type \<Rightarrow> js_error + unit" where
  "require_all types [] expected = Inr ()"
| "require_all types (a # as) expected =
     rbind (requireType types a expected) (\<lambda>_. require_all types as expected)"

definition require_argument ::
  "type_map \<Rightarrow> expression_node list \<Rightarrow> nat \<Rightarrow> expression_type \<Rightarrow> js_error + unit" where
  "require_argument types args i expected =
     rbind (argument args i) (\<lambda>a. requireType types a expected)"

fun literal_type :: "literal_value \<Rightarrow> expression_type" where
  "literal_type L_nil = T_nil"
| "literal_type (L_number _) = T_number"
| "literal_type (L_string _) = T_string"
| "literal_type (L_boolean _) = T_boolean"

definition comparison_operators :: "binary_operator set" where
  "comparison_operators = {Op_eq, Op_ne, Op_lt, Op_le, Op_gt, Op_ge}"

definition binary_type ::
  "type_map \<Rightarrow> binary_operator \<Rightarrow> expression_node \<Rightarrow> expression_node \<Rightarrow> js_error + expression_type" where
  "binary_type types operator left right =
     (if operator = Op_and \<or> operator = Op_or
      then rbind (requireType types left T_boolean) (\<lambda>_.
           rbind (requireType types right T_boolean) (\<lambda>_. Inr T_boolean))
      else if operator \<in> comparison_operators then Inr T_boolean
      else if operator = Op_add \<and> types left = Some T_string \<and> types right = Some T_string
      then Inr T_string
      else rbind (requireType types left T_number) (\<lambda>_.
           rbind (requireType types right T_number) (\<lambda>_. Inr T_number)))"

fun call_type ::
  "type_map \<Rightarrow> billing_function \<Rightarrow> expression_node list \<Rightarrow> js_error + expression_type" where
  "call_type types Fn_param args = rbind (require_argument types args 0 T_string) (\<lambda>_. Inr T_dynamic)"
| "call_type types Fn_u args = rbind (require_argument types args 0 T_string) (\<lambda>_. Inr T_dynamic)"
| "call_type types Fn_header args = rbind (require_argument types args 0 T_string) (\<lambda>_. Inr T_string)"
| "call_type types (Fn_time _) args = rbind (require_argument types args 0 T_string) (\<lambda>_. Inr T_number)"
| "call_type types Fn_has args = rbind (require_argument types args 1 T_string) (\<lambda>_. Inr T_boolean)"
| "call_type types Fn_tier args =
     rbind (require_argument types args 0 T_string) (\<lambda>_.
     rbind (require_argument types args 1 T_number) (\<lambda>_. Inr T_number))"
| "call_type types f args = rbind (require_all types args T_number) (\<lambda>_. Inr T_number)"

fun node_type :: "type_map \<Rightarrow> expression_node \<Rightarrow> js_error + expression_type" where
  "node_type types (Literal v _ _ _) = Inr (literal_type v)"
| "node_type types (Variable _ _ _) = Inr T_number"
| "node_type types (Unary operator operand _ _) =
     (if operator = Op_not
      then rbind (requireType types operand T_boolean) (\<lambda>_. Inr T_boolean)
      else rbind (requireType types operand T_number) (\<lambda>_. Inr T_number))"
| "node_type types (Conditional condition yes no _ _) =
     rbind (requireType types condition T_boolean) (\<lambda>_.
       Inr (if types yes = types no
            then (case types yes of Some t \<Rightarrow> t | None \<Rightarrow> T_dynamic) else T_dynamic))"
| "node_type types (Binary operator left right _ _) = binary_type types operator left right"
| "node_type types (Call f args _ _) = call_type types f args"

definition check_node :: "expression_node \<Rightarrow> type_map \<Rightarrow> js_error + type_map" where
  "check_node node types = rbind (node_type types node) (\<lambda>result. Inr (types(node \<mapsto> result)))"

definition checkExpressionTypes :: "expression_node \<Rightarrow> js_error + type_map" where
  "checkExpressionTypes ast = visitExpression ast check_node Map.empty"

subsection \<open>Request rules and fixed prices\<close>

record request_rule =
  rule_node :: expression_node
  rule_condition :: expression_node
  rule_multiplier :: jsnum
  rule_cond :: jsstring

definition containsPricingMarker :: "expression_node \<Rightarrow> js_error + bool" where
  "containsPricingMarker node =
     rbind (expressionDependencies node)
       (\<lambda>d. Inr (Fn_tier \<in> dep_functions d \<or> Fn_fixed \<in> dep_functions d))"

definition fixed_pricing_error :: "expression_node \<Rightarrow> js_error" where
  "fixed_pricing_error node =
     billing_error D_type
       (js ''Use tier(name, fixed(amount)) with a finite, non-negative numeric literal; combine pricing branches only with conditions and request multipliers.'')
       (Some (node_start node))"

definition find_rule :: "request_rule list \<Rightarrow> expression_node \<Rightarrow> request_rule option" where
  "find_rule rules node = find (\<lambda>rule. rule_node rule = node) rules"

text \<open>A factor that may scale a price: the image count, or a request rule with a non-negative
  multiplier whose condition names no price.\<close>

definition pricing_factor :: "request_rule list \<Rightarrow> expression_node \<Rightarrow> js_error + bool" where
  "pricing_factor rules factor =
     (case factor of
        Variable Var_image_count _ _ \<Rightarrow> Inr True
      | _ \<Rightarrow>
        (case find_rule rules factor of
           None \<Rightarrow> Inr False
         | Some rule \<Rightarrow>
             if js_le (JFin 0) (rule_multiplier rule)
             then rbind (containsPricingMarker (rule_condition rule)) (\<lambda>m. Inr (\<not> m))
             else Inr False))"

definition million :: jsnum where
  "million = JFin 1000000"

text \<open>The second argument of \<open>tier\<close>: a literal fixed price, or an expression without markers.\<close>

definition validate_price :: "expression_node \<Rightarrow> expression_node \<Rightarrow> js_error + unit" where
  "validate_price node price =
     (case price of
        Call Fn_fixed args _ _ \<Rightarrow>
          (case args of
             Literal (L_number x) _ _ _ # _ \<Rightarrow>
               if js_le (JFin 0) x \<and> js_is_finite (js_mul x million) then Inr ()
               else Inl (fixed_pricing_error node)
           | _ \<Rightarrow> Inl (fixed_pricing_error node))
      | _ \<Rightarrow>
        rbind (containsPricingMarker price)
          (\<lambda>m. if m then Inl (fixed_pricing_error node) else Inr ()))"

fun validateFixedPricingTree :: "expression_node \<Rightarrow> request_rule list \<Rightarrow> js_error + unit" where
  "validateFixedPricingTree (Conditional condition yes no s e) rules =
     rbind (containsPricingMarker condition) (\<lambda>marked.
       if \<not> marked
       then rbind (validateFixedPricingTree yes rules) (\<lambda>_. validateFixedPricingTree no rules)
       else Inl (fixed_pricing_error (Conditional condition yes no s e)))"
| "validateFixedPricingTree (Binary operator left right s e) rules =
     (if operator = Op_mul
      then rbind (pricing_factor rules right) (\<lambda>f.
           if f then validateFixedPricingTree left rules
           else rbind (pricing_factor rules left) (\<lambda>f.
                if f then validateFixedPricingTree right rules
                else Inl (fixed_pricing_error (Binary operator left right s e))))
      else Inl (fixed_pricing_error (Binary operator left right s e)))"
| "validateFixedPricingTree (Call f args s e) rules =
     (case (f, args) of
        (Fn_tier, [label, price]) \<Rightarrow>
          rbind (containsPricingMarker label) (\<lambda>marked.
            if \<not> marked then validate_price (Call f args s e) price
            else Inl (fixed_pricing_error (Call f args s e)))
      | _ \<Rightarrow> Inl (fixed_pricing_error (Call f args s e)))"
| "validateFixedPricingTree node rules = Inl (fixed_pricing_error node)"

text \<open>A request rule: \<open>condition ? multiplier : 1\<close> with a condition that looks at the request or
  at the time.\<close>

definition request_probes :: "billing_function set" where
  "request_probes =
     {Fn_param, Fn_header, Fn_time Hour, Fn_time Minute, Fn_time Weekday, Fn_time Month, Fn_time Day}"

definition rule_shape :: "expression_node \<Rightarrow> (expression_node \<times> jsnum) option" where
  "rule_shape node =
     (case node of
        Conditional condition yes no _ _ \<Rightarrow>
          (case yes of
             Literal (L_number m) _ _ _ \<Rightarrow>
               (case no of
                  Literal (L_number one) _ _ _ \<Rightarrow>
                    if js_num_eq one (JFin 1) then Some (condition, m) else None
                | _ \<Rightarrow> None)
           | _ \<Rightarrow> None)
      | _ \<Rightarrow> None)"

definition collect_rule ::
  "jsstring \<Rightarrow> expression_node \<Rightarrow> request_rule list \<Rightarrow> js_error + request_rule list" where
  "collect_rule source node rules =
     (case rule_shape node of
        None \<Rightarrow> Inr rules
      | Some (condition, m) \<Rightarrow>
          rbind (expressionDependencies condition) (\<lambda>d.
            if dep_functions d \<inter> request_probes = {} then Inr rules
            else Inr (rules @
              [\<lparr>rule_node = node, rule_condition = condition, rule_multiplier = m,
                rule_cond = js_slice source (node_start condition) (node_end condition)\<rparr>])))"

subsection \<open>Compilation\<close>

record compiled_expression =
  comp_source :: jsstring
  comp_ast :: expression_node
  comp_variables :: "token_variable set"
  comp_functions :: "billing_function set"
  comp_rules :: "request_rule list"

datatype compilation_result = Ready compiled_expression | Compile_failed expression_failure

definition compile_steps :: "jsstring \<Rightarrow> js_error + compiled_expression" where
  "compile_steps source =
     rbind (parse_source source) (\<lambda>ast.
     rbind (checkExpressionTypes ast) (\<lambda>_.
     rbind (expressionDependencies ast) (\<lambda>d.
     rbind (visitExpression ast (collect_rule source) []) (\<lambda>rules.
     rbind (if Fn_fixed \<in> dep_functions d then validateFixedPricingTree ast rules else Inr ()) (\<lambda>_.
     Inr \<lparr>comp_source = source, comp_ast = ast, comp_variables = dep_variables d,
          comp_functions = dep_functions d, comp_rules = rules\<rparr>)))))"

text \<open>\<open>compiled.status === 'ready'\<close>\<close>

fun compilation_ready :: "compilation_result \<Rightarrow> bool" where
  "compilation_ready (Ready _) = True"
| "compilation_ready (Compile_failed _) = False"

text \<open>The result that is not yet in the cache.\<close>

definition compile_expression :: "jsstring \<Rightarrow> compilation_result" where
  "compile_expression source =
     (case compile_steps source of
        Inl e \<Rightarrow> Compile_failed (expressionFailure e)
      | Inr c \<Rightarrow> Ready c)"

text \<open>The cache is a JavaScript Map: its entries in the order of insertion.\<close>

type_synonym compile_cache = "(jsstring \<times> compilation_result) list"

definition compileBillingExpression ::
  "jsstring \<Rightarrow> compile_cache \<Rightarrow> compilation_result \<times> compile_cache" where
  "compileBillingExpression source cache =
     (case map_of cache source of
        Some cached \<Rightarrow> (cached, cache)
      | None \<Rightarrow>
          (compile_expression source,
           (if 128 \<le> length cache then tl cache else cache)
             @ [(source, compile_expression source)]))"

subsection \<open>The type map assigns every node the type of its children's types\<close>

definition well_typed :: "type_map \<Rightarrow> expression_node \<Rightarrow> bool" where
  "well_typed types n \<longleftrightarrow> (\<forall>m \<in> set (postorder n). \<exists>t. types m = Some t \<and> node_type types m = Inr t)"

text \<open>The type of a node depends on the types of its children only.\<close>

lemma requireType_cong: "types c = types' c \<Longrightarrow> requireType types c t = requireType types' c t"
  by (simp add: requireType_def)

lemma require_all_cong:
  "(\<And>c. c \<in> set as \<Longrightarrow> types c = types' c) \<Longrightarrow> require_all types as t = require_all types' as t"
proof (induction as)
  case (Cons a as)
  have "requireType types a t = requireType types' a t" by (rule requireType_cong) (simp add: Cons.prems)
  then show ?case using Cons by simp
qed simp

lemma require_argument_cong:
  "(\<And>c. c \<in> set as \<Longrightarrow> types c = types' c) \<Longrightarrow>
   require_argument types as i t = require_argument types' as i t"
  using requireType_cong [of types "as ! i" types' t] nth_mem [of i as]
  by (auto simp: require_argument_def argument_def)

lemma call_type_cong:
  "(\<And>c. c \<in> set as \<Longrightarrow> types c = types' c) \<Longrightarrow> call_type types f as = call_type types' f as"
  using require_all_cong [of as types types'] require_argument_cong [of as types types']
  by (cases f) simp_all

lemma node_type_cong:
  assumes "\<And>c. c \<in> set (node_children n) \<Longrightarrow> types c = types' c"
  shows "node_type types n = node_type types' n"
  using assms requireType_cong [of types _ types']
  by (cases n) (auto simp: binary_type_def intro: call_type_cong)

lemma check_fold_well_typed:
  assumes "rfold check_node ns types = Inr types'"
    and "\<And>n c. n \<in> set ns \<Longrightarrow> c \<in> set (node_children n) \<Longrightarrow> c \<in> dom types \<union> set ns"
    and "\<And>xs n ys. ns = xs @ n # ys \<Longrightarrow> set (node_children n) \<subseteq> dom types \<union> set xs"
    and "\<forall>m \<in> dom types. set (node_children m) \<subseteq> dom types \<and> node_type types m = Inr (the (types m))"
  shows "set ns \<union> dom types \<subseteq> dom types' \<and>
    (\<forall>m \<in> dom types'. set (node_children m) \<subseteq> dom types' \<and> node_type types' m = Inr (the (types' m)))"
  using assms
proof (induction ns arbitrary: types)
  case (Cons n ns)
  obtain t where t: "node_type types n = Inr t" and rest: "rfold check_node ns (types(n \<mapsto> t)) = Inr types'"
    using Cons.prems(1) by (auto simp: check_node_def [of n] rbind_eq_Inr)
  let ?T = "types(n \<mapsto> t)"
  have ch: "set (node_children n) \<subseteq> dom types" using Cons.prems(3) [of "[]" n ns] by simp
  have same: "types m = ?T m" if "m \<in> dom types" for m
  proof (cases "m = n")
    case True
    with Cons.prems(4) that t show ?thesis by (auto simp: domIff)
  qed simp
  have inv: "\<forall>m \<in> dom ?T. set (node_children m) \<subseteq> dom ?T \<and> node_type ?T m = Inr (the (?T m))"
  proof
    fix m assume m: "m \<in> dom ?T"
    have sub: "set (node_children m) \<subseteq> dom types" using m ch Cons.prems(4) by auto
    then have "node_type ?T m = node_type types m"
      by (intro node_type_cong) (metis same subsetD)
    moreover have "node_type types m = Inr (the (?T m))"
      using m t Cons.prems(4) same by (cases "m = n") auto
    ultimately show "set (node_children m) \<subseteq> dom ?T \<and> node_type ?T m = Inr (the (?T m))"
      using sub by auto
  qed
  have "set ns \<union> dom ?T \<subseteq> dom types' \<and>
    (\<forall>m \<in> dom types'. set (node_children m) \<subseteq> dom types' \<and> node_type types' m = Inr (the (types' m)))"
  proof (rule Cons.IH [OF rest _ _ inv])
    show "c \<in> dom ?T \<union> set ns" if "m \<in> set ns" "c \<in> set (node_children m)" for m c
      using Cons.prems(2) [of m c] that by auto
    show "set (node_children m) \<subseteq> dom ?T \<union> set xs" if "ns = xs @ m # ys" for xs m ys
      using Cons.prems(3) [of "n # xs" m ys] that by auto
  qed
  then show ?case by auto
qed auto

text \<open>In the post-order of a tree the children of a node come before it.\<close>

lemma postorder_prefix_children:
  "postorder n = xs @ m # ys \<Longrightarrow> set (node_children m) \<subseteq> set xs"
proof (induction "size n" arbitrary: n xs ys rule: less_induct)
  case less
  have eq: "concat (map postorder (node_children n)) @ [n] = xs @ m # ys"
    using less.prems postorder_children [of n] by simp
  show ?case
  proof (cases ys rule: rev_cases)
    case Nil
    then have "xs = concat (map postorder (node_children n))" "m = n" using eq by auto
    then show ?thesis by auto
  next
    case (snoc zs z)
    then have "concat (map postorder (node_children n)) = xs @ m # zs" using eq by auto
    then obtain as c bs us vs where c: "node_children n = as @ c # bs"
      and p: "postorder c = us @ m # vs" and xs: "xs = concat (map postorder as) @ us"
    proof -
      assume *: "concat (map postorder (node_children n)) = xs @ m # zs"
      have "\<exists>as c bs us vs. cs = as @ c # bs \<and> postorder c = us @ m # vs
          \<and> xs = concat (map postorder as) @ us"
        if "concat (map postorder cs) = xs @ m # zs" for cs xs
        using that
      proof (induction cs arbitrary: xs)
        case (Cons d ds)
        from Cons.prems consider us where "postorder d = xs @ m # us"
          | us where "xs = postorder d @ us" "concat (map postorder ds) = us @ m # zs"
          by (auto simp: append_eq_append_conv2 append_eq_Cons_conv)
        then show ?case
        proof cases
          case 1
          then show ?thesis by (intro exI [of _ "[]"]) auto
        next
          case 2
          then obtain as c bs vs ws where "ds = as @ c # bs" "postorder c = vs @ m # ws"
            "us = concat (map postorder as) @ vs" using Cons.IH by blast
          with 2 show ?thesis by (intro exI [of _ "d # as"]) auto
        qed
      qed simp
      from this [OF *] show thesis using that by blast
    qed
    have "size c < size n" using c node_children_size [of c n] by simp
    from less.hyps [OF this p] xs show ?thesis by auto
  qed
qed

lemma checkExpressionTypes_well_typed:
  assumes "checkExpressionTypes n = Inr types"
  shows "well_typed types n" and "node_depth n \<le> 256"
proof -
  have d: "node_depth n \<le> 256" and f: "rfold check_node (postorder n) Map.empty = Inr types"
    using assms by (auto simp: checkExpressionTypes_def visitExpression_Inr)
  show "node_depth n \<le> 256" by (fact d)
  have "set (postorder n) \<union> dom (Map.empty :: type_map) \<subseteq> dom types \<and>
    (\<forall>m \<in> dom types. set (node_children m) \<subseteq> dom types \<and> node_type types m = Inr (the (types m)))"
  proof (rule check_fold_well_typed)
    show "rfold check_node (postorder n) Map.empty = Inr types" by (fact f)
    show "c \<in> dom (Map.empty :: type_map) \<union> set (postorder n)"
      if "m \<in> set (postorder n)" "c \<in> set (node_children m)" for m c
      using that postorder_trans [of m n] postorder_child [of c m] postorder_self [of c] by blast
    show "set (node_children m) \<subseteq> dom (Map.empty :: type_map) \<union> set xs" if "postorder n = xs @ m # ys" for xs m ys
      using postorder_prefix_children [OF that] by simp
  qed simp
  then show "well_typed types n"
    unfolding well_typed_def by (metis Un_subset_iff domD option.sel subsetD)
qed

subsection \<open>What compilation returns\<close>

lemma node_depth_postorder: "m \<in> set (postorder n) \<Longrightarrow> node_depth m \<le> node_depth n"
proof (induction "size n" arbitrary: n rule: less_induct)
  case less
  show ?case
  proof (cases "m = n")
    case False
    then obtain c where c: "c \<in> set (node_children n)" "m \<in> set (postorder c)"
      using less.prems postorder_children [of n] by auto
    then show ?thesis
      using less.hyps [OF node_children_size [OF c(1)] c(2)] node_depth_child [OF c(1)] by simp
  qed simp
qed

definition is_request_rule :: "expression_node \<Rightarrow> bool" where
  "is_request_rule n \<longleftrightarrow>
     (case rule_shape n of None \<Rightarrow> False | Some (c, m) \<Rightarrow> tree_functions c \<inter> request_probes \<noteq> {})"

definition make_rule :: "jsstring \<Rightarrow> expression_node \<Rightarrow> request_rule" where
  "make_rule source n =
     (case rule_shape n of
        Some (c, m) \<Rightarrow>
          \<lparr>rule_node = n, rule_condition = c, rule_multiplier = m,
           rule_cond = js_slice source (node_start c) (node_end c)\<rparr>
      | None \<Rightarrow> undefined)"

lemma rule_shape_Some:
  "rule_shape n = Some (c, m) \<longleftrightarrow>
     (\<exists>i s1 e1 one j s2 e2 s e. n = Conditional c (Literal (L_number m) i s1 e1)
        (Literal (L_number one) j s2 e2) s e \<and> js_num_eq one (JFin 1))"
  by (auto simp: rule_shape_def split: expression_node.splits literal_value.splits if_splits)

lemma rule_node_make_rule: "is_request_rule n \<Longrightarrow> rule_node (make_rule source n) = n"
  by (auto simp: is_request_rule_def make_rule_def split: option.splits)

lemma rfold_collect_rule:
  assumes "\<And>n. n \<in> set ns \<Longrightarrow> node_depth n \<le> 256"
  shows "rfold (collect_rule source) ns rules =
    Inr (rules @ map (make_rule source) (filter is_request_rule ns))"
  using assms
proof (induction ns arbitrary: rules)
  case (Cons n ns)
  have "collect_rule source n rules =
      Inr (rules @ map (make_rule source) (filter is_request_rule [n]))"
  proof (cases "rule_shape n")
    case None
    then show ?thesis by (simp add: collect_rule_def is_request_rule_def)
  next
    case (Some cm)
    obtain c m where cm: "cm = (c, m)" by fastforce
    have "c \<in> set (node_children n)" using Some cm by (auto simp: rule_shape_Some)
    then have "node_depth c \<le> 256" using node_depth_child [of c n] Cons.prems [of n] by simp
    then have "expressionDependencies c =
        Inr \<lparr>dep_variables = tree_variables c, dep_functions = tree_functions c\<rparr>"
      by (simp add: expressionDependencies_Inr)
    with Some cm show ?thesis
      by (simp add: collect_rule_def is_request_rule_def make_rule_def)
  qed
  with Cons show ?case by simp
qed simp

definition request_rules_of :: "jsstring \<Rightarrow> expression_node \<Rightarrow> request_rule list" where
  "request_rules_of source ast = map (make_rule source) (filter is_request_rule (postorder ast))"

lemma compile_steps_InrD:
  assumes "compile_steps source = Inr c"
  shows "parse_source source = Inr (comp_ast c)" and "comp_source c = source"
    and "\<exists>types. well_typed types (comp_ast c)" and "node_depth (comp_ast c) \<le> 256"
    and "comp_variables c = tree_variables (comp_ast c)"
    and "comp_functions c = tree_functions (comp_ast c)"
    and "comp_rules c = request_rules_of source (comp_ast c)"
    and "Fn_fixed \<in> comp_functions c \<Longrightarrow> validateFixedPricingTree (comp_ast c) (comp_rules c) = Inr ()"
proof -
  obtain ast types d rules where
    1: "parse_source source = Inr ast" and 2: "checkExpressionTypes ast = Inr types" and
    3: "expressionDependencies ast = Inr d" and
    4: "visitExpression ast (collect_rule source) [] = Inr rules" and
    5: "Fn_fixed \<in> dep_functions d \<Longrightarrow> validateFixedPricingTree ast rules = Inr ()" and
    c: "c = \<lparr>comp_source = source, comp_ast = ast, comp_variables = dep_variables d,
          comp_functions = dep_functions d, comp_rules = rules\<rparr>"
    using assms by (auto simp: compile_steps_def rbind_eq_Inr split: if_splits)
  have w: "well_typed types ast" and dep: "node_depth ast \<le> 256"
    using checkExpressionTypes_well_typed [OF 2] by auto
  have "rules = request_rules_of source ast"
    using 4 rfold_collect_rule [of "postorder ast" source "[]"]
      order_trans [OF node_depth_postorder dep]
    by (simp add: visitExpression_Inr request_rules_of_def)
  then show "parse_source source = Inr (comp_ast c)" and "comp_source c = source"
    and "\<exists>types. well_typed types (comp_ast c)" and "node_depth (comp_ast c) \<le> 256"
    and "comp_variables c = tree_variables (comp_ast c)"
    and "comp_functions c = tree_functions (comp_ast c)"
    and "comp_rules c = request_rules_of source (comp_ast c)"
    and "Fn_fixed \<in> comp_functions c \<Longrightarrow> validateFixedPricingTree (comp_ast c) (comp_rules c) = Inr ()"
    using 1 3 5 w dep by (auto simp: c expressionDependencies_Inr)
qed

lemma compile_expression_Ready: "compile_expression source = Ready c \<longleftrightarrow> compile_steps source = Inr c"
  by (auto simp: compile_expression_def split: sum.splits)

lemma distinct_request_rules:
  assumes "compile_steps source = Inr c"
  shows "distinct (map rule_node (comp_rules c))"
proof -
  have "spans_ok (comp_ast c)" using compile_steps_InrD(1) [OF assms] parse_source_spans by blast
  then have "distinct (postorder (comp_ast c))"
    using spans_ok_distinct distinct_map by blast
  moreover have "map rule_node (comp_rules c) = filter is_request_rule (postorder (comp_ast c))"
    using compile_steps_InrD(7) [OF assms] rule_node_make_rule
    by (auto simp: request_rules_of_def intro!: map_idI)
  ultimately show ?thesis by simp
qed

subsection \<open>The cache\<close>

text \<open>
  The interface of a memo table: a call returns what the function returns, whatever was called
  before. The clients of \<open>compileBillingExpression\<close> rely on no more than this.
\<close>

fun call_all :: "('k \<Rightarrow> 'm \<Rightarrow> 'v \<times> 'm) \<Rightarrow> 'k list \<Rightarrow> 'm \<Rightarrow> 'v list \<times> 'm" where
  "call_all call [] m = ([], m)"
| "call_all call (k # ks) m =
     (fst (call k m) # fst (call_all call ks (snd (call k m))),
      snd (call_all call ks (snd (call k m))))"

locale memo_table =
  fixes call :: "'k \<Rightarrow> 'm \<Rightarrow> 'v \<times> 'm"
    and spec :: "'k \<Rightarrow> 'v"
    and invar :: "'m \<Rightarrow> bool"
  assumes call_result: "invar m \<Longrightarrow> fst (call k m) = spec k"
    and call_invar: "invar m \<Longrightarrow> invar (snd (call k m))"
begin

lemma call_all_transparent:
  "invar m \<Longrightarrow> fst (call_all call ks m) = map spec ks \<and> invar (snd (call_all call ks m))"
  by (induction ks arbitrary: m) (simp_all add: call_result call_invar)

end

text \<open>The invariant of the cache: distinct keys, at most 128 of them, each with its result.\<close>

definition cache_ok :: "compile_cache \<Rightarrow> bool" where
  "cache_ok cache \<longleftrightarrow>
     distinct (map fst cache) \<and> length cache \<le> 128
     \<and> (\<forall>(k, r) \<in> set cache. r = compile_expression k)"

lemma cache_ok_lookup: "cache_ok cache \<Longrightarrow> map_of cache k = Some r \<Longrightarrow> r = compile_expression k"
  by (auto simp: cache_ok_def dest: map_of_SomeD)

lemma cache_ok_tl: "cache_ok cache \<Longrightarrow> cache_ok (tl cache)"
  by (cases cache) (auto simp: cache_ok_def)

lemma cache_ok_insert:
  assumes "cache_ok cache" and "map_of cache k = None" and "length cache < 128"
  shows "cache_ok (cache @ [(k, compile_expression k)])"
  using assms by (auto simp: cache_ok_def map_of_eq_None_iff)

lemma compile_cached_invar:
  assumes "cache_ok cache"
  shows "cache_ok (snd (compileBillingExpression k cache))"
proof (cases "map_of cache k")
  case (Some r)
  with assms show ?thesis by (simp add: compileBillingExpression_def)
next
  case None
  let ?c = "if 128 \<le> length cache then tl cache else cache"
  have "cache_ok ?c" using assms cache_ok_tl by simp
  moreover have "map_of ?c k = None"
    using None by (cases cache) (auto split: if_splits)
  moreover have "length ?c < 128" using assms by (auto simp: cache_ok_def)
  ultimately show ?thesis using None cache_ok_insert by (simp add: compileBillingExpression_def)
qed

interpretation compile_memo: memo_table compileBillingExpression compile_expression cache_ok
proof unfold_locales
  show "fst (compileBillingExpression k cache) = compile_expression k" if "cache_ok cache" for cache k
    using that by (auto simp: compileBillingExpression_def dest: cache_ok_lookup split: option.splits)
qed (rule compile_cached_invar)

subsection \<open>Every failure of compilation is a diagnosed one\<close>

lemma rfold_error:
  assumes "rfold f xs s = Inl e" and "\<And>x s e. x \<in> set xs \<Longrightarrow> f x s = Inl e \<Longrightarrow> is_billing_error e"
  shows "is_billing_error e"
  using assms by (induction xs arbitrary: s) (auto simp: rbind_eq_Inl)

lemma visit_loop_error:
  assumes "visit_loop f stack s = Inl e"
    and "\<And>n m s e. n \<in> fst ` set stack \<Longrightarrow> m \<in> set (postorder n) \<Longrightarrow> f m s = Inl e \<Longrightarrow> is_billing_error e"
  shows "is_billing_error e"
  using assms
proof (induction f stack s rule: visit_loop.induct)
  case (2 f n v d stack s)
  show ?case
  proof (cases "256 < d")
    case True
    with "2.prems"(1) show ?thesis by (auto simp: depth_error_def)
  next
    case False
    show ?thesis
    proof (cases v)
      case True
      show ?thesis
      proof (cases "f n s")
        case (Inl a)
        then have "f n s = Inl e" using "2.prems"(1) True False by simp
        then show ?thesis by (intro "2.prems"(2) [of n n]) auto
      next
        case (Inr s')
        have r: "visit_loop f stack s' = Inl e" using "2.prems"(1) True False Inr by simp
        show ?thesis
          by (rule "2.IH"(1) [OF False True Inr r]) (rule "2.prems"(2), auto)
      qed
    next
      case nv: False
      have "is_billing_error e'" if "m \<in> fst ` set (map (\<lambda>c. (c, False, d + 1)) (node_children n)
            @ (n, True, d) # stack)" "k \<in> set (postorder m)" "f k s' = Inl e'" for m k s' e'
      proof -
        from that(1) consider "m \<in> set (node_children n)" | "m \<in> fst ` set ((n, v, d) # stack)" by auto
        then show ?thesis
          using "2.prems"(2) [of m k s' e'] "2.prems"(2) [of n k s' e'] that(2,3) postorder_child [of m n]
          by cases auto
      qed
      with "2.IH"(2) [OF False nv] "2.prems"(1) False nv show ?thesis by auto
    qed
  qed
qed simp

lemma visitExpression_error:
  assumes "visitExpression n f s = Inl e"
    and "\<And>m s e. m \<in> set (postorder n) \<Longrightarrow> f m s = Inl e \<Longrightarrow> is_billing_error e"
  shows "is_billing_error e"
  using visit_loop_error [of f "[(n, False, 0)]" s e] assms by (simp add: visitExpression_def)

lemma requireType_error: "requireType types c t = Inl e \<Longrightarrow> is_billing_error e"
  by (auto simp: requireType_def guard_throw_eq_Inl split: if_splits)

lemma require_all_error: "require_all types as t = Inl e \<Longrightarrow> is_billing_error e"
  by (induction as) (auto simp: rbind_eq_Inl dest: requireType_error)

lemma require_argument_error:
  "require_argument types as i t = Inl e \<Longrightarrow> i < length as \<Longrightarrow> is_billing_error e"
  by (auto simp: require_argument_def argument_def dest: requireType_error)

lemma call_type_error:
  "call_type types f as = Inl e \<Longrightarrow> length as = function_arity f \<Longrightarrow> is_billing_error e"
  by (cases f) (auto simp: rbind_eq_Inl dest: require_argument_error require_all_error)

lemma node_type_error: "node_type types n = Inl e \<Longrightarrow> arity_ok n \<Longrightarrow> is_billing_error e"
  by (cases n) (auto simp: rbind_eq_Inl binary_type_def dest: requireType_error call_type_error split: if_splits)

lemma expressionDependencies_error: "expressionDependencies n = Inl e \<Longrightarrow> is_billing_error e"
  unfolding expressionDependencies_def
  by (rule visitExpression_error) (auto simp: collect_dependency_def)

lemma containsPricingMarker_error: "containsPricingMarker n = Inl e \<Longrightarrow> is_billing_error e"
  by (auto simp: containsPricingMarker_def rbind_eq_Inl dest: expressionDependencies_error)

lemma pricing_factor_error: "pricing_factor rules n = Inl e \<Longrightarrow> is_billing_error e"
  by (auto simp: pricing_factor_def rbind_eq_Inl dest: containsPricingMarker_error
      split: expression_node.splits token_variable.splits option.splits if_splits)

lemma fixed_pricing_error_billing [simp]: "is_billing_error (fixed_pricing_error n)"
  by (simp add: fixed_pricing_error_def)

lemma validate_price_error: "validate_price n p = Inl e \<Longrightarrow> is_billing_error e"
  by (auto simp: validate_price_def rbind_eq_Inl dest: containsPricingMarker_error
      split: expression_node.splits billing_function.splits list.splits literal_value.splits if_splits)

lemma validateFixedPricingTree_error:
  "validateFixedPricingTree n rules = Inl e \<Longrightarrow> is_billing_error e"
proof (induction n rules rule: validateFixedPricingTree.induct)
  case (3 f args s e' rules)
  then show ?case
    by (auto simp: rbind_eq_Inl dest: containsPricingMarker_error validate_price_error
        split: prod.splits billing_function.splits list.splits if_splits)
next
  case (1 c y n s e' rules)
  then show ?case by (auto simp: rbind_eq_Inl dest: containsPricingMarker_error split: if_splits)
next
  case (2 p l r s e' rules)
  then show ?case by (auto simp: rbind_eq_Inl dest: pricing_factor_error split: if_splits)
qed auto

lemma compile_steps_error: "compile_steps source = Inl e \<Longrightarrow> is_billing_error e"
proof -
  assume err: "compile_steps source = Inl e"
  show ?thesis
  proof (cases "parse_source source")
    case (Inl e')
    with err show ?thesis by (auto simp: compile_steps_def dest: parse_source_no_other_error)
  next
    case (Inr ast)
    have arity: "arity_ok m" if "m \<in> set (postorder ast)" for m
      using parse_source_spans(1) [OF Inr] that by (simp add: spans_ok_def span_step_def)
    have check: "checkExpressionTypes ast = Inl e' \<Longrightarrow> is_billing_error e'" for e'
      unfolding checkExpressionTypes_def
      by (erule visitExpression_error)
        (auto simp: check_node_def rbind_eq_Inl dest: node_type_error arity)
    have collect: "visitExpression ast (collect_rule source) [] = Inl e' \<Longrightarrow> is_billing_error e'" for e'
      by (erule visitExpression_error)
        (auto simp: collect_rule_def rbind_eq_Inl dest: expressionDependencies_error
          split: option.splits if_splits)
    from err Inr check collect show ?thesis
      by (auto simp: compile_steps_def rbind_eq_Inl split: if_splits
          dest: expressionDependencies_error validateFixedPricingTree_error)
  qed
qed

subsection \<open>Properties\<close>



text \<open>
  C4: a compiled expression is what its source says. The source parses to its tree, the tree is
  well typed and within the depth bound, its sets of variables and functions are those that occur
  in the tree, and its request rules are, in post-order and without repetition, the nodes
  \<open>condition ? multiplier : 1\<close> whose condition probes the request or the time.
\<close>

theorem compile_contents:
  assumes "compile_expression source = Ready c"
  shows "parse_source source = Inr (comp_ast c) \<and> comp_source c = source
    \<and> (\<exists>types. well_typed types (comp_ast c)) \<and> node_depth (comp_ast c) \<le> 256
    \<and> comp_variables c = tree_variables (comp_ast c)
    \<and> comp_functions c = tree_functions (comp_ast c)
    \<and> map rule_node (comp_rules c) = filter is_request_rule (postorder (comp_ast c))
    \<and> distinct (map rule_node (comp_rules c))"
proof -
  have steps: "compile_steps source = Inr c" using assms compile_expression_Ready by simp
  note facts = compile_steps_InrD [OF steps]
  have "map rule_node (comp_rules c) = filter is_request_rule (postorder (comp_ast c))"
    using facts(7) rule_node_make_rule by (auto simp: request_rules_of_def intro!: map_idI)
  with facts distinct_request_rules [OF steps] show ?thesis by simp
qed

theorem compile_contents_witness:
  "\<exists>c. compile_expression (js ''p + c'') = Ready c \<and> parse_source (js ''p + c'') = Inr (comp_ast c)"
proof -
  have "\<exists>c. compile_expression (js ''p + c'') = Ready c"
  proof (cases "compile_expression (js ''p + c'')")
    case (Compile_failed f)
    moreover have "compilation_ready (compile_expression (js ''p + c''))" by code_simp
    ultimately show ?thesis by simp
  qed simp
  then obtain c where "compile_expression (js ''p + c'') = Ready c" by blast
  from this compile_contents [OF this] show ?thesis by blast
qed

text \<open>
  Compilation never fails with an undiagnosed error. Whatever the text, the result is a
  compiled expression or the failure of a diagnosis the compiler itself raised; the fallback of
  \<open>expressionFailure\<close> for other errors is never taken.
\<close>

theorem compile_failures_diagnosed:
  "(\<exists>c. compile_expression source = Ready c)
   \<or> (\<exists>d. compile_steps source = Inl (BillingExpressionError d)
        \<and> compile_expression source =
            Compile_failed \<lparr>fail_status = diagnostic_status (diag_code d), fail_diagnostic = d\<rparr>)"
proof (cases "compile_steps source")
  case (Inl e)
  then obtain d where "e = BillingExpressionError d"
    using compile_steps_error is_billing_error.elims(2) by blast
  with Inl show ?thesis by (simp add: compile_expression_def expressionFailure_def)
qed (simp add: compile_expression_def)

text \<open>
  C5: the cache is transparent and bounded. Any sequence of compilations that starts from the
  empty cache returns what compiling each text afresh would return, and leaves a cache of at most
  128 entries with distinct keys, each holding the result for its key.
\<close>

theorem compile_cache_transparent:
  "fst (call_all compileBillingExpression sources []) = map compile_expression sources
   \<and> cache_ok (snd (call_all compileBillingExpression sources []))"
  by (rule compile_memo.call_all_transparent) (simp add: cache_ok_def)

end
