(* ===== verification/Js_Date.thy ===== *)
theory Js_Date
  imports Js_Text
begin

section \<open>Dates\<close>

text \<open>
  A \<open>Date\<close> is its time value: the milliseconds since the epoch, or \<open>None\<close> for an invalid date.
  The UTC getters follow the language definition. \<open>Intl.DateTimeFormat\<close> depends on the time zone
  data of the host and is a parameter wherever it is used.
\<close>

type_synonym js_date = "int option"

definition ms_per_day :: int where
  "ms_per_day = 86400000"

definition utc_hours :: "int \<Rightarrow> int" where
  "utc_hours t = t mod ms_per_day div 3600000"

definition utc_minutes :: "int \<Rightarrow> int" where
  "utc_minutes t = t mod 3600000 div 60000"

definition utc_weekday :: "int \<Rightarrow> int" where
  "utc_weekday t = (t div ms_per_day + 4) mod 7"

text \<open>
  The month and the day of a day number, counted in eras of 400 years that begin on 1 March, so
  that the leap day is the last day of its year.
\<close>

definition day_of_era :: "int \<Rightarrow> int" where
  "day_of_era days = (days + 719468) mod 146097"

definition year_of_era :: "int \<Rightarrow> int" where
  "year_of_era doe = (doe - doe div 1460 + doe div 36524 - doe div 146096) div 365"

definition day_of_year :: "int \<Rightarrow> int" where
  "day_of_year doe = doe - (365 * year_of_era doe + year_of_era doe div 4 - year_of_era doe div 100)"

definition march_month :: "int \<Rightarrow> int" where
  "march_month doy = (5 * doy + 2) div 153"

definition utc_month :: "int \<Rightarrow> int" where
  "utc_month t =
     (let m = march_month (day_of_year (day_of_era (t div ms_per_day)))
      in if m < 10 then m + 3 else m - 9)"

definition utc_date :: "int \<Rightarrow> int" where
  "utc_date t =
     (let doy = day_of_year (day_of_era (t div ms_per_day))
      in doy - (153 * march_month doy + 2) div 5 + 1)"

subsection \<open>Ranges\<close>

lemma utc_hours_range: "0 \<le> utc_hours t \<and> utc_hours t \<le> 23"
proof -
  have "0 \<le> t mod 86400000" "t mod 86400000 < 86400000" by simp_all
  then show ?thesis unfolding utc_hours_def ms_per_day_def by linarith
qed

lemma utc_minutes_range: "0 \<le> utc_minutes t \<and> utc_minutes t \<le> 59"
proof -
  have "0 \<le> t mod 3600000" "t mod 3600000 < 3600000" by simp_all
  then show ?thesis unfolding utc_minutes_def by linarith
qed

lemma utc_weekday_range: "0 \<le> utc_weekday t \<and> utc_weekday t \<le> 6"
proof -
  have "0 \<le> (t div ms_per_day + 4) mod 7" "(t div ms_per_day + 4) mod 7 < 7" by simp_all
  then show ?thesis unfolding utc_weekday_def by linarith
qed

lemma day_of_era_range: "0 \<le> day_of_era d \<and> day_of_era d \<le> 146096"
proof -
  have "0 \<le> (d + 719468) mod 146097" "(d + 719468) mod 146097 < 146097" by simp_all
  then show ?thesis unfolding day_of_era_def by linarith
qed

end
