(* ===== verification/Billing_Runtime.thy ===== *)
theory Billing_Runtime
  imports Billing_Compile Js_Date
begin

section \<open>Evaluation of billing expressions\<close>

text \<open>
  \<open>billing-expression/runtime.ts\<close>: the lookup of a request path, the text of a JSON value as the
  backend prints it, the time in a zone, and the evaluator \<open>BillingRuntime\<close> with the two
  functions that use it. The fields that the evaluator changes are a state record that is threaded
  through; an error discards it, as the source discards the runtime object. The nesting
  \<open>this.depth\<close>, which a \<open>finally\<close> clause always restores, is the argument \<open>depth\<close>: the number of
  calls of \<open>evaluate\<close> that are in progress.
\<close>

subsection \<open>Request paths\<close>

definition path_error :: "jsstring \<Rightarrow> js_error" where
  "path_error path = billing_error D_unsupported path None"

definition path_wildcards :: jsstring where
  "path_wildcards = js ''*?[]()|@!''"

text \<open>\<open>split_path path part rest\<close>: the parts of the rest of the path, \<open>part\<close> the part being read.\<close>

fun split_path :: "jsstring \<Rightarrow> jsstring \<Rightarrow> jsstring \<Rightarrow> js_error + jsstring list" where
  "split_path path part [] = Inr [part]"
| "split_path path part (char # rest) =
     (if char = 92
      then (case rest of
              [] \<Rightarrow> Inl (path_error path)
            | escaped # rest' \<Rightarrow> split_path path (part @ [escaped]) rest')
      else if char = 46
      then rbind (split_path path [] rest) (\<lambda>parts. Inr (part # parts))
      else if char \<in> set path_wildcards then Inl (path_error path)
      else split_path path (part @ [char]) rest)"

definition array_item :: "jsval list \<Rightarrow> jsstring \<Rightarrow> jsval" where
  "array_item items key =
     (if js_is_safe_integer (js_number_of key)
         \<and> nat \<lfloor>js_val (js_number_of key)\<rfloor> < length items
      then items ! nat \<lfloor>js_val (js_number_of key)\<rfloor> else VUndefined)"

fun walk_path :: "jsstring \<Rightarrow> jsval \<Rightarrow> jsstring list \<Rightarrow> js_error + jsval" where
  "walk_path path value [] = Inr (if is_nullish value then VNull else value)"
| "walk_path path value (key # keys) =
     (case value of
        VArr items \<Rightarrow>
          if key = js ''#''
          then (if keys = [] then Inr (VNum (js_of_nat (length items))) else Inl (path_error path))
          else if key = [] \<or> \<not> list_all is_digit key then Inr VNull
          else walk_path path (array_item items key) keys
      | VObj props \<Rightarrow>
          (case map_of props key of
             None \<Rightarrow> Inr VNull
           | Some item \<Rightarrow> walk_path path item keys)
      | _ \<Rightarrow> Inr VNull)"

definition readRequestPath :: "jsval \<Rightarrow> jsstring \<Rightarrow> js_error + jsval" where
  "readRequestPath body rawPath =
     (if js_trim rawPath = [] then Inr VNull
      else rbind (split_path (js_trim rawPath) [] (js_trim rawPath))
             (\<lambda>parts. walk_path (js_trim rawPath) body parts))"

subsection \<open>The text of a request value\<close>

fun insert_entry :: "jsstring \<times> jsval \<Rightarrow> (jsstring \<times> jsval) list \<Rightarrow> (jsstring \<times> jsval) list" where
  "insert_entry e [] = [e]"
| "insert_entry e (f # fs) =
     (if js_str_less (fst f) (fst e) then f # insert_entry e fs else e # f # fs)"

definition sort_entries :: "(jsstring \<times> jsval) list \<Rightarrow> (jsstring \<times> jsval) list" where
  "sort_entries es = foldr insert_entry es []"

fun rmap :: "('a \<Rightarrow> 'e + 'b) \<Rightarrow> 'a list \<Rightarrow> 'e + 'b list" where
  "rmap f [] = Inr []"
| "rmap f (x # xs) = rbind (f x) (\<lambda>y. rbind (rmap f xs) (\<lambda>ys. Inr (y # ys)))"

definition two_digits :: "int \<Rightarrow> jsstring" where
  "two_digits n = (if n < 10 then 48 # digits_text n else digits_text n)"

text \<open>The text of a finite number, in Go's \<open>%v\<close> format.\<close>

definition number_string :: "jsnum \<Rightarrow> jsstring" where
  "number_string x =
     (case x of
        JFin q \<Rightarrow>
          if q \<noteq> 0 \<and> (6 \<le> exponential_exponent q \<or> exponential_exponent q < - 4)
          then exponential_mantissa q @ [101]
                 @ (if exponential_exponent q < 0 then [45] else [43])
                 @ two_digits \<bar>exponential_exponent q\<bar>
          else js_number_text x
      | JNegZero \<Rightarrow> js ''-0''
      | _ \<Rightarrow> js_number_text x)"

function billingString :: "jsval \<Rightarrow> nat \<Rightarrow> js_error + jsstring" where
  "billingString v depth =
     (if 128 < depth then Inl (billing_error D_limit (js ''request value depth'') None)
      else case v of
        VUndefined \<Rightarrow> Inr (js ''<nil>'')
      | VNull \<Rightarrow> Inr (js ''<nil>'')
      | VArr items \<Rightarrow>
          rbind (rmap (\<lambda>item. billingString item (depth + 1)) items)
            (\<lambda>texts. Inr (js ''['' @ js_join (js '' '') texts @ js '']''))
      | VObj props \<Rightarrow>
          rbind (rmap (\<lambda>(key, item). rbind (billingString item (depth + 1))
                    (\<lambda>text. Inr (key @ js '':'' @ text))) (sort_entries props))
            (\<lambda>texts. Inr (js ''map['' @ js_join (js '' '') texts @ js '']''))
      | VNum x \<Rightarrow>
          if js_is_finite x then Inr (number_string x)
          else Inl (billing_error D_number (js ''request number'') None)
      | VBool b \<Rightarrow> Inr (if b then js ''true'' else js ''false'')
      | VStr s \<Rightarrow> Inr s)"
  by pat_completeness auto
termination
  by (relation "measure (\<lambda>(v, depth). 129 - depth)") auto

declare billingString.simps [simp del]

subsection \<open>Time in a zone\<close>

text \<open>The values of the five time functions.\<close>

record time_values =
  tv_hour :: jsnum
  tv_minute :: jsnum
  tv_weekday :: jsnum
  tv_month :: jsnum
  tv_day :: jsnum

fun time_value :: "time_values \<Rightarrow> time_function \<Rightarrow> jsnum" where
  "time_value v Hour = tv_hour v"
| "time_value v Minute = tv_minute v"
| "time_value v Weekday = tv_weekday v"
| "time_value v Month = tv_month v"
| "time_value v Day = tv_day v"

text \<open>What \<open>formatToParts\<close> returns, one text per part, and what \<open>Intl.DateTimeFormat\<close> does for a
  time zone: it throws, or it gives the resolved zone name and formats a time.\<close>

record zone_parts =
  part_hour :: jsstring
  part_minute :: jsstring
  part_weekday :: jsstring
  part_month :: jsstring
  part_day :: jsstring

type_synonym intl_zones = "jsstring \<Rightarrow> (jsstring \<times> (int \<Rightarrow> zone_parts)) option"

definition is_zone_unit :: "nat \<Rightarrow> bool" where
  "is_zone_unit u \<longleftrightarrow> is_word u \<or> u = 43 \<or> u = 45"

definition zone_segment_ok :: "jsstring \<Rightarrow> bool" where
  "zone_segment_ok w =
     (case w of [] \<Rightarrow> False | c # cs \<Rightarrow> 65 \<le> c \<and> c \<le> 90 \<and> list_all is_zone_unit cs)"

definition zone_name_ok :: "jsstring \<Rightarrow> bool" where
  "zone_name_ok timezone = list_all zone_segment_ok (js_split 47 timezone)"

definition utc_time_values :: "int \<Rightarrow> time_values" where
  "utc_time_values t =
     \<lparr>tv_hour = JFin (of_int (utc_hours t)), tv_minute = JFin (of_int (utc_minutes t)),
      tv_weekday = JFin (of_int (utc_weekday t)), tv_month = JFin (of_int (utc_month t)),
      tv_day = JFin (of_int (utc_date t))\<rparr>"

definition weekday_names :: "jsstring list" where
  "weekday_names =
     [js ''Sun'', js ''Mon'', js ''Tue'', js ''Wed'', js ''Thu'', js ''Fri'', js ''Sat'']"

fun index_from :: "nat \<Rightarrow> jsstring \<Rightarrow> jsstring list \<Rightarrow> jsnum" where
  "index_from i w [] = JFin (- 1)"
| "index_from i w (v # vs) = (if v = w then JFin (of_nat i) else index_from (i + 1) w vs)"

definition parts_time_values :: "zone_parts \<Rightarrow> time_values" where
  "parts_time_values p =
     \<lparr>tv_hour = js_string_to_number (part_hour p), tv_minute = js_string_to_number (part_minute p),
      tv_weekday = index_from 0 (part_weekday p) weekday_names,
      tv_month = js_string_to_number (part_month p), tv_day = js_string_to_number (part_day p)\<rparr>"

definition billing_zone :: "jsstring \<Rightarrow> jsstring" where
  "billing_zone zone = (if js_trim zone = [] then js ''UTC'' else js_trim zone)"

text \<open>The formatter, or \<open>None\<close> when one of the statements of the \<open>try\<close> block throws.\<close>

definition zone_formatter :: "intl_zones \<Rightarrow> jsstring \<Rightarrow> (int \<Rightarrow> zone_parts) option" where
  "zone_formatter intl timezone =
     (if \<not> zone_name_ok timezone then None
      else case intl timezone of
             None \<Rightarrow> None
           | Some (resolved, format) \<Rightarrow>
               if js_lower resolved = js_lower timezone \<and> resolved \<noteq> timezone then None
               else Some format)"

definition timeInBillingZone :: "intl_zones \<Rightarrow> js_date \<Rightarrow> jsstring \<Rightarrow> js_error + time_values" where
  "timeInBillingZone intl now zone =
     (case now of
        None \<Rightarrow> Inl (billing_error D_type (js ''simulation time'') None)
      | Some t \<Rightarrow>
          if billing_zone zone = js ''Local''
          then Inl (billing_error D_unsupported (js ''server Local timezone'') None)
          else case zone_formatter intl (billing_zone zone) of
                 None \<Rightarrow> Inr (utc_time_values t)
               | Some format \<Rightarrow> Inr (parts_time_values (format t)))"

subsection \<open>Every sequence of keys has a path\<close>

text \<open>The path that names a sequence of keys: the special characters escaped, the keys separated
  by dots.\<close>

definition escape_unit :: "nat \<Rightarrow> jsstring" where
  "escape_unit c = (if c = 92 \<or> c = 46 \<or> c \<in> set path_wildcards then [92, c] else [c])"

definition escape_key :: "jsstring \<Rightarrow> jsstring" where
  "escape_key key = concat (map escape_unit key)"

definition path_of :: "jsstring list \<Rightarrow> jsstring" where
  "path_of keys = js_join [46] (map escape_key keys)"

lemma split_path_escaped:
  "split_path path part (escape_key key @ rest) = split_path path (part @ key) rest"
  by (induction key arbitrary: part) (auto simp: escape_key_def escape_unit_def)

lemma split_path_of: "keys \<noteq> [] \<Longrightarrow> split_path path [] (path_of keys) = Inr keys"
proof (induction keys rule: induct_list012)
  case (2 k)
  then show ?case using split_path_escaped [of path "[]" k "[]"] by (simp add: path_of_def)
next
  case (3 k l ks)
  then show ?case using split_path_escaped [of path "[]" k] by (simp add: path_of_def)
qed simp

subsection \<open>Properties\<close>

text \<open>
  No key is out of reach of a request path. For every non-empty sequence of keys the escaped
  path reads exactly these keys, whatever characters they contain, as long as the path is not
  changed by the trimming that precedes the lookup.
\<close>

theorem request_path_roundtrip:
  assumes "keys \<noteq> []" and "path_of keys \<noteq> []" and "js_trim (path_of keys) = path_of keys"
  shows "readRequestPath body (path_of keys) = walk_path (path_of keys) body keys"
  using assms split_path_of by (simp add: readRequestPath_def)

theorem request_path_roundtrip_witness:
  "readRequestPath (VObj [(js ''a.b'', VObj [(js ''c'', VBool True)])]) (path_of [js ''a.b'', js ''c'']) =
   walk_path (path_of [js ''a.b'', js ''c'']) (VObj [(js ''a.b'', VObj [(js ''c'', VBool True)])])
     [js ''a.b'', js ''c'']
   \<and> walk_path (path_of [js ''a.b'', js ''c'']) (VObj [(js ''a.b'', VObj [(js ''c'', VBool True)])])
     [js ''a.b'', js ''c''] = Inr (VBool True)"
proof
  have "path_of [js ''a.b'', js ''c''] \<noteq> []" by code_simp
  moreover have "js_trim (path_of [js ''a.b'', js ''c'']) = path_of [js ''a.b'', js ''c'']" by code_simp
  ultimately show "readRequestPath (VObj [(js ''a.b'', VObj [(js ''c'', VBool True)])])
      (path_of [js ''a.b'', js ''c'']) = walk_path (path_of [js ''a.b'', js ''c''])
      (VObj [(js ''a.b'', VObj [(js ''c'', VBool True)])]) [js ''a.b'', js ''c'']"
    by (intro request_path_roundtrip) simp_all
qed code_simp

text \<open>
  Without usable time zone data the hour, the minute and the weekday of a valid date are
  those of UTC, in their ranges, and the only zone that is refused is the server's local one.
\<close>

theorem zone_fallback_ranges:
  "case timeInBillingZone (\<lambda>_. None) (Some t) zone of
     Inl e \<Rightarrow> billing_zone zone = js ''Local''
   | Inr v \<Rightarrow> (\<exists>h m w. time_value v Hour = JFin (of_int h) \<and> 0 \<le> h \<and> h \<le> 23
        \<and> time_value v Minute = JFin (of_int m) \<and> 0 \<le> m \<and> m \<le> 59
        \<and> time_value v Weekday = JFin (of_int w) \<and> 0 \<le> w \<and> w \<le> 6)"
  using utc_hours_range [of t] utc_minutes_range [of t] utc_weekday_range [of t]
  by (auto simp: timeInBillingZone_def zone_formatter_def utc_time_values_def)

end
