(* ===== verification/Billing_Evaluate.thy ===== *)
theory Billing_Evaluate
  imports Billing_Runtime
begin

section \<open>The evaluator\<close>

text \<open>
  The class \<open>BillingRuntime\<close> of \<open>billing-expression/runtime.ts\<close> and its two users,
  \<open>evaluateBillingCondition\<close> and \<open>evaluateBillingExpression\<close>. The evaluation of a well-typed tree
  is shown to respect the static types, to produce only finite numbers, and to fail only with
  diagnosed errors.
\<close>

subsection \<open>Context, values, state\<close>

record request_context =
  req_body :: jsval
  req_headers :: "(jsstring \<times> jsval) list option"

record simulation_context =
  ctx_tokens :: "(jsstring \<times> jsval) list option"
  ctx_request :: "request_context option"
  ctx_usage :: "(jsstring \<times> jsval) list option"
  ctx_now :: "js_date option"
  ctx_image_count :: "jsnum option"

definition empty_context :: simulation_context where
  "empty_context =
     \<lparr>ctx_tokens = None, ctx_request = None, ctx_usage = None, ctx_now = None,
      ctx_image_count = None\<rparr>"

record runtime_value =
  rv_value :: jsval
  rv_integer :: bool

abbreviation plain_value :: "jsval \<Rightarrow> runtime_value" where
  "plain_value v \<equiv> \<lparr>rv_value = v, rv_integer = False\<rparr>"

text \<open>The trace of one request rule.\<close>

record rule_trace =
  tr_cond :: jsstring
  tr_multiplier :: jsnum
  tr_matched :: bool

datatype billing_unit = Unit_token | Unit_request

record runtime_state =
  rs_rules :: "rule_trace list"
  rs_matched_tier :: jsstring
  rs_unit :: billing_unit
  rs_fixed_price :: "jsnum option"
  rs_times :: "(jsstring \<times> time_values) list"

text \<open>What the evaluator reads and does not change: the compiled expression, the context, the
  normalised headers, the time, and the host's time zones.\<close>

record runtime_env =
  env_compiled :: compiled_expression
  env_context :: simulation_context
  env_headers :: "jsstring \<rightharpoonup> jsstring"
  env_now :: js_date
  env_intl :: intl_zones

definition add_header ::
  "jsstring \<times> jsval \<Rightarrow> (jsstring \<rightharpoonup> jsstring) \<Rightarrow> js_error + (jsstring \<rightharpoonup> jsstring)" where
  "add_header entry headers =
     (case snd entry of
        VStr raw \<Rightarrow>
          Inr (if js_trim (fst entry) \<noteq> [] \<and> js_trim raw \<noteq> []
               then headers(js_lower (js_trim (fst entry)) \<mapsto> js_trim raw) else headers)
      | _ \<Rightarrow> Inl (billing_error D_type (js ''request header'') None))"

definition context_headers :: "simulation_context \<Rightarrow> (jsstring \<times> jsval) list" where
  "context_headers context =
     (case ctx_request context of
        None \<Rightarrow> []
      | Some request \<Rightarrow> (case req_headers request of None \<Rightarrow> [] | Some hs \<Rightarrow> hs))"

definition initial_trace :: "request_rule \<Rightarrow> rule_trace" where
  "initial_trace rule =
     \<lparr>tr_cond = rule_cond rule, tr_multiplier = rule_multiplier rule, tr_matched = False\<rparr>"

definition initial_state :: "compiled_expression \<Rightarrow> runtime_state" where
  "initial_state compiled =
     \<lparr>rs_rules = map initial_trace (comp_rules compiled), rs_matched_tier = [],
      rs_unit = Unit_token, rs_fixed_price = None, rs_times = []\<rparr>"

text \<open>\<open>new BillingRuntime(compiled, context)\<close>; \<open>clock\<close> is what \<open>new Date()\<close> returns.\<close>

definition new_runtime ::
  "intl_zones \<Rightarrow> js_date \<Rightarrow> compiled_expression \<Rightarrow> simulation_context
     \<Rightarrow> js_error + runtime_env \<times> runtime_state" where
  "new_runtime intl clock compiled context =
     rbind (rfold add_header (context_headers context) Map.empty) (\<lambda>headers.
       Inr (\<lparr>env_compiled = compiled, env_context = context, env_headers = headers,
             env_now = (case ctx_now context of None \<Rightarrow> clock | Some d \<Rightarrow> d), env_intl = intl\<rparr>,
            initial_state compiled))"

subsection \<open>Operands\<close>

definition boolean_result ::
  "expression_node \<Rightarrow> js_error + runtime_value \<times> runtime_state \<Rightarrow> js_error + bool \<times> runtime_state" where
  "boolean_result node result =
     rbind result (\<lambda>(v, st).
       case rv_value v of
         VBool b \<Rightarrow> Inr (b, st)
       | _ \<Rightarrow> Inl (billing_error D_type (js ''boolean condition'') (Some (node_start node))))"

definition numeric_result ::
  "expression_node \<Rightarrow> js_error + runtime_value \<times> runtime_state
     \<Rightarrow> js_error + (jsnum \<times> bool) \<times> runtime_state" where
  "numeric_result node result =
     rbind result (\<lambda>(v, st).
       case rv_value v of
         VNum x \<Rightarrow> Inr ((x, rv_integer v), st)
       | _ \<Rightarrow> Inl (billing_error D_type (js ''numeric operand'') (Some (node_start node))))"

definition string_result ::
  "expression_node \<Rightarrow> js_error + runtime_value \<times> runtime_state \<Rightarrow> js_error + jsstring \<times> runtime_state" where
  "string_result node result =
     rbind result (\<lambda>(v, st).
       case rv_value v of
         VStr s \<Rightarrow> Inr (s, st)
       | _ \<Rightarrow> Inl (billing_error D_type (js ''string argument'') (Some (node_start node))))"

fun literal_jsval :: "literal_value \<Rightarrow> jsval" where
  "literal_jsval (L_string s) = VStr s"
| "literal_jsval (L_number x) = VNum x"
| "literal_jsval (L_boolean b) = VBool b"
| "literal_jsval L_nil = VNull"

definition image_count_value :: "runtime_env \<Rightarrow> nat \<Rightarrow> js_error + runtime_value" where
  "image_count_value env start =
     (case ctx_image_count (env_context env) of
        None \<Rightarrow> Inr (plain_value (VNum (JFin 1)))
      | Some x \<Rightarrow>
          if \<not> js_is_integer x \<or> js_lt x (JFin 1) \<or> js_lt (JFin 128) x
          then Inl (billing_error D_number (js ''image_count must be between 1 and 128'') (Some start))
          else Inr (plain_value (VNum x)))"

text \<open>\<open>this.context.tokens?.[name]\<close>\<close>

definition token_count :: "simulation_context \<Rightarrow> token_variable \<Rightarrow> jsval" where
  "token_count context x =
     (case ctx_tokens context of
        None \<Rightarrow> VUndefined
      | Some tokens \<Rightarrow> js_get (VObj tokens) (variable_name x))"

definition variable_value :: "runtime_env \<Rightarrow> token_variable \<Rightarrow> nat \<Rightarrow> js_error + runtime_value" where
  "variable_value env x start =
     (if x = Var_image_count then image_count_value env start
      else case token_count (env_context env) x of
             VUndefined \<Rightarrow> Inl (billing_error D_missing_context (variable_name x) (Some start))
           | VNum n \<Rightarrow>
               if js_lt n (JFin 0)
               then Inl (billing_error D_number (variable_name x) (Some start))
               else Inr (plain_value (VNum n))
           | _ \<Rightarrow> Inl (billing_error D_number (variable_name x) (Some start)))"

subsection \<open>Operators\<close>

definition operator_name :: "binary_operator \<Rightarrow> jsstring" where
  "operator_name operator =
     (case operator of
        Op_or \<Rightarrow> js ''||'' | Op_and \<Rightarrow> js ''&&'' | Op_eq \<Rightarrow> js ''=='' | Op_ne \<Rightarrow> js ''!=''
      | Op_lt \<Rightarrow> js ''<'' | Op_le \<Rightarrow> js ''<='' | Op_gt \<Rightarrow> js ''>'' | Op_ge \<Rightarrow> js ''>=''
      | Op_add \<Rightarrow> js ''+'' | Op_sub \<Rightarrow> js ''-'' | Op_mul \<Rightarrow> js ''*'' | Op_div \<Rightarrow> js ''/''
      | Op_mod \<Rightarrow> js ''%'')"

definition is_equality :: "binary_operator \<Rightarrow> bool" where
  "is_equality operator \<longleftrightarrow> operator = Op_eq \<or> operator = Op_ne"

definition equality_value :: "binary_operator \<Rightarrow> jsval \<Rightarrow> jsval \<Rightarrow> nat \<Rightarrow> js_error + runtime_value" where
  "equality_value operator a b start =
     (if a \<noteq> VNull \<and> b \<noteq> VNull \<and> (is_object_val a \<or> is_object_val b)
      then Inl (billing_error D_unsupported (js ''object comparison'') (Some start))
      else Inr (plain_value (VBool (js_strict_eq a b = (operator = Op_eq)))))"

fun number_comparison :: "binary_operator \<Rightarrow> jsnum \<Rightarrow> jsnum \<Rightarrow> bool option" where
  "number_comparison Op_lt x y = Some (js_lt x y)"
| "number_comparison Op_le x y = Some (js_le x y)"
| "number_comparison Op_gt x y = Some (js_lt y x)"
| "number_comparison Op_ge x y = Some (js_le y x)"
| "number_comparison _ x y = None"

fun string_comparison :: "binary_operator \<Rightarrow> jsstring \<Rightarrow> jsstring \<Rightarrow> bool option" where
  "string_comparison Op_lt s t = Some (js_str_less s t)"
| "string_comparison Op_le s t = Some (\<not> js_str_less t s)"
| "string_comparison Op_gt s t = Some (js_str_less t s)"
| "string_comparison Op_ge s t = Some (\<not> js_str_less s t)"
| "string_comparison _ s t = None"

text \<open>The arithmetic operators; \<open>integer\<close> says that both operands are integer literals or were
  computed from such.\<close>

fun arithmetic_value ::
  "binary_operator \<Rightarrow> jsnum \<Rightarrow> jsnum \<Rightarrow> bool \<Rightarrow> nat \<Rightarrow> js_error + runtime_value" where
  "arithmetic_value Op_add x y integer start = Inr \<lparr>rv_value = VNum (js_add x y), rv_integer = integer\<rparr>"
| "arithmetic_value Op_sub x y integer start = Inr \<lparr>rv_value = VNum (js_sub x y), rv_integer = integer\<rparr>"
| "arithmetic_value Op_mul x y integer start = Inr \<lparr>rv_value = VNum (js_mul x y), rv_integer = integer\<rparr>"
| "arithmetic_value Op_div x y integer start = Inr (plain_value (VNum (js_div x y)))"
| "arithmetic_value Op_mod x y integer start =
     (if \<not> integer then Inl (billing_error D_type (js ''integer modulo'') (Some start))
      else Inr \<lparr>rv_value = VNum (js_mod x y), rv_integer = True\<rparr>)"
| "arithmetic_value operator x y integer start =
     Inl (billing_error D_unsupported (operator_name operator) (Some start))"

text \<open>Everything after the two operands were evaluated.\<close>

definition binary_value ::
  "binary_operator \<Rightarrow> runtime_value \<Rightarrow> runtime_value \<Rightarrow> nat \<Rightarrow> js_error + runtime_value" where
  "binary_value operator l r start =
     (if is_equality operator then equality_value operator (rv_value l) (rv_value r) start
      else case (rv_value l, rv_value r) of
        (VStr s, VStr t) \<Rightarrow>
          if operator = Op_add then Inr (plain_value (VStr (s @ t)))
          else (case string_comparison operator s t of
                  Some b \<Rightarrow> Inr (plain_value (VBool b))
                | None \<Rightarrow> Inl (billing_error D_type (operator_name operator) (Some start)))
      | (VNum x, VNum y) \<Rightarrow>
          (case number_comparison operator x y of
             Some b \<Rightarrow> Inr (plain_value (VBool b))
           | None \<Rightarrow> arithmetic_value operator x y (rv_integer l \<and> rv_integer r) start)
      | _ \<Rightarrow> Inl (billing_error D_type (operator_name operator) (Some start)))"

subsection \<open>Calls\<close>

definition has_value :: "jsval \<Rightarrow> jsstring \<Rightarrow> js_error + runtime_value" where
  "has_value source substring =
     (if is_nullish source \<or> substring = [] then Inr (plain_value (VBool False))
      else rbind (billingString source 0) (\<lambda>text. Inr (plain_value (VBool (js_includes substring text)))))"

definition param_value :: "runtime_env \<Rightarrow> jsstring \<Rightarrow> nat \<Rightarrow> js_error + runtime_value" where
  "param_value env path start =
     (case ctx_request (env_context env) of
        None \<Rightarrow> Inl (billing_error D_missing_context (js ''request body'') (Some start))
      | Some request \<Rightarrow> rbind (readRequestPath (req_body request) path) (\<lambda>v. Inr (plain_value v)))"

definition header_value :: "runtime_env \<Rightarrow> jsstring \<Rightarrow> nat \<Rightarrow> js_error + runtime_value" where
  "header_value env name start =
     (case ctx_request (env_context env) of
        None \<Rightarrow> Inl (billing_error D_missing_context (js ''request headers'') (Some start))
      | Some request \<Rightarrow>
          Inr (plain_value (VStr (case env_headers env (js_lower (js_trim name)) of
                                    Some v \<Rightarrow> v | None \<Rightarrow> []))))"

definition usage_value :: "runtime_env \<Rightarrow> jsstring \<Rightarrow> nat \<Rightarrow> js_error + runtime_value" where
  "usage_value env name start =
     (case ctx_usage (env_context env) of
        None \<Rightarrow> Inl (billing_error D_missing_context (js ''task usage'') (Some start))
      | Some usage \<Rightarrow>
          Inr (plain_value (case map_of usage name of Some v \<Rightarrow> v | None \<Rightarrow> VNull)))"

text \<open>The values of a zone are computed once per evaluation.\<close>

definition zone_time ::
  "runtime_env \<Rightarrow> jsstring \<Rightarrow> runtime_state \<Rightarrow> js_error + time_values \<times> runtime_state" where
  "zone_time env zone st =
     (case map_of (rs_times st) zone of
        Some values \<Rightarrow> Inr (values, st)
      | None \<Rightarrow>
          rbind (timeInBillingZone (env_intl env) (env_now env) zone) (\<lambda>values.
            Inr (values, st\<lparr>rs_times := (zone, values) # rs_times st\<rparr>)))"

text \<open>The functions of one text argument.\<close>

fun text_call ::
  "runtime_env \<Rightarrow> billing_function \<Rightarrow> jsstring \<Rightarrow> nat \<Rightarrow> runtime_state
     \<Rightarrow> js_error + runtime_value \<times> runtime_state" where
  "text_call env Fn_param path start st = rbind (param_value env path start) (\<lambda>v. Inr (v, st))"
| "text_call env Fn_header name start st = rbind (header_value env name start) (\<lambda>v. Inr (v, st))"
| "text_call env Fn_u name start st = rbind (usage_value env name start) (\<lambda>v. Inr (v, st))"
| "text_call env (Fn_time f) zone start st =
     rbind (zone_time env (js_trim zone) st) (\<lambda>(values, st).
       Inr (\<lparr>rv_value = VNum (time_value values f), rv_integer = True\<rparr>, st))"
| "text_call env _ _ start st = Inl (billing_error D_unsupported [] None)"

definition takes_text :: "billing_function \<Rightarrow> bool" where
  "takes_text f \<longleftrightarrow> f = Fn_param \<or> f = Fn_header \<or> f = Fn_u \<or> is_time_function f"

text \<open>The functions of one number argument.\<close>

fun number_call ::
  "billing_function \<Rightarrow> jsnum \<Rightarrow> runtime_state \<Rightarrow> js_error + runtime_value \<times> runtime_state" where
  "number_call Fn_fixed x st =
     Inr (plain_value (VNum (js_mul x million)),
          st\<lparr>rs_unit := Unit_request, rs_fixed_price := Some x\<rparr>)"
| "number_call Fn_abs x st = Inr (plain_value (VNum (js_abs x)), st)"
| "number_call Fn_floor x st = Inr (plain_value (VNum (js_floor x)), st)"
| "number_call Fn_ceil x st = Inr (plain_value (VNum (js_ceil x)), st)"
| "number_call _ x st = Inl (billing_error D_unsupported [] None)"

fun two_number_call :: "billing_function \<Rightarrow> jsnum \<Rightarrow> jsnum \<Rightarrow> jsnum" where
  "two_number_call Fn_min x y = js_min x y"
| "two_number_call _ x y = js_max x y"

subsection \<open>Evaluation\<close>

text \<open>\<open>this.requestRules[ruleIndex].matched = true\<close> for the rule of this node, when there is one.\<close>

fun rule_index :: "request_rule list \<Rightarrow> expression_node \<Rightarrow> nat option" where
  "rule_index [] node = None"
| "rule_index (rule # rules) node =
     (if rule_node rule = node then Some 0 else map_option Suc (rule_index rules node))"

definition mark_rule :: "runtime_env \<Rightarrow> expression_node \<Rightarrow> bool \<Rightarrow> runtime_state \<Rightarrow> runtime_state" where
  "mark_rule env node condition st =
     (case rule_index (comp_rules (env_compiled env)) node of
        Some i \<Rightarrow>
          if condition
          then st\<lparr>rs_rules := (rs_rules st)[i := (rs_rules st ! i)\<lparr>tr_matched := True\<rparr>]\<rparr>
          else st
      | None \<Rightarrow> st)"

text \<open>The checks that \<open>evaluate\<close> makes on every value.\<close>

definition check_value ::
  "expression_node \<Rightarrow> runtime_value \<Rightarrow> runtime_state \<Rightarrow> js_error + runtime_value \<times> runtime_state" where
  "check_value node v st =
     (case rv_value v of
        VNum x \<Rightarrow>
          if \<not> js_is_finite x
          then Inl (billing_error D_number (js ''non-finite result'') (Some (node_start node)))
          else if rv_integer v \<and> \<not> js_is_safe_integer x
          then Inl (billing_error D_unsupported (js ''integer precision'') (Some (node_start node)))
          else Inr (v, st)
      | _ \<Rightarrow> Inr (v, st))"

definition evaluation_depth_error :: js_error where
  "evaluation_depth_error = billing_error D_limit (js ''evaluation depth'') None"

definition missing_argument :: js_error where
  "missing_argument = OtherError (js ''TypeError'')"

function (sequential) evaluate ::
  "runtime_env \<Rightarrow> nat \<Rightarrow> expression_node \<Rightarrow> runtime_state \<Rightarrow> js_error + runtime_value \<times> runtime_state"
and evaluate_node ::
  "runtime_env \<Rightarrow> nat \<Rightarrow> expression_node \<Rightarrow> runtime_state \<Rightarrow> js_error + runtime_value \<times> runtime_state" where
  "evaluate env depth node st =
     guard_throw (256 < depth + 1) evaluation_depth_error
       (rbind (evaluate_node env (depth + 1) node st) (\<lambda>(v, st). check_value node v st))"
| "evaluate_node env depth (Literal v integer _ _) st =
     Inr (\<lparr>rv_value = literal_jsval v, rv_integer = integer\<rparr>, st)"
| "evaluate_node env depth (Variable x start _) st =
     rbind (variable_value env x start) (\<lambda>v. Inr (v, st))"
| "evaluate_node env depth (Conditional condition yes no s e) st =
     rbind (boolean_result condition (evaluate env depth condition st)) (\<lambda>(b, st).
       if b then evaluate env depth yes (mark_rule env (Conditional condition yes no s e) b st)
       else evaluate env depth no (mark_rule env (Conditional condition yes no s e) b st))"
| "evaluate_node env depth (Unary operator operand _ _) st =
     (if operator = Op_not
      then rbind (boolean_result operand (evaluate env depth operand st)) (\<lambda>(b, st).
             Inr (plain_value (VBool (\<not> b)), st))
      else rbind (numeric_result operand (evaluate env depth operand st)) (\<lambda>((x, integer), st).
             Inr (\<lparr>rv_value = VNum (if operator = Op_neg then js_uminus x else x),
                   rv_integer = integer\<rparr>, st)))"
| "evaluate_node env depth (Binary operator left right start _) st =
     (if operator = Op_and
      then rbind (boolean_result left (evaluate env depth left st)) (\<lambda>(a, st).
             if a then rbind (boolean_result right (evaluate env depth right st)) (\<lambda>(b, st).
                         Inr (plain_value (VBool b), st))
             else Inr (plain_value (VBool False), st))
      else if operator = Op_or
      then rbind (boolean_result left (evaluate env depth left st)) (\<lambda>(a, st).
             if a then Inr (plain_value (VBool True), st)
             else rbind (boolean_result right (evaluate env depth right st)) (\<lambda>(b, st).
                    Inr (plain_value (VBool b), st)))
      else rbind (evaluate env depth left st) (\<lambda>(l, st).
           rbind (evaluate env depth right st) (\<lambda>(r, st).
           rbind (binary_value operator l r start) (\<lambda>v. Inr (v, st)))))"
| "evaluate_node env depth (Call f [] start _) st = Inl missing_argument"
| "evaluate_node env depth (Call f (a # args) start _) st =
     (if takes_text f
      then rbind (string_result a (evaluate env depth a st)) (\<lambda>(text, st).
             text_call env f text start st)
      else if function_arity f = 1
      then rbind (numeric_result a (evaluate env depth a st)) (\<lambda>((x, _), st). number_call f x st)
      else (case args of
        [] \<Rightarrow> Inl missing_argument
      | b # _ \<Rightarrow>
          if f = Fn_has
          then rbind (evaluate env depth a st) (\<lambda>(v, st).
               rbind (string_result b (evaluate env depth b st)) (\<lambda>(substring, st).
               rbind (has_value (rv_value v) substring) (\<lambda>v. Inr (v, st))))
          else if f = Fn_tier
          then rbind (string_result a (evaluate env depth a st)) (\<lambda>(name, st).
               rbind (numeric_result b (evaluate env depth b st)) (\<lambda>((x, _), st).
               Inr (plain_value (VNum x), st\<lparr>rs_matched_tier := name\<rparr>)))
          else rbind (numeric_result a (evaluate env depth a st)) (\<lambda>((x, _), st).
               rbind (numeric_result b (evaluate env depth b st)) (\<lambda>((y, _), st).
               Inr (plain_value (VNum (two_number_call f x y)), st)))))"
  by pat_completeness auto
termination
  by (relation "measure (\<lambda>x. case x of Inl (env, d, n, st) \<Rightarrow> 2 * size n + 1 | Inr (env, d, n, st) \<Rightarrow> 2 * size n)")
    auto

declare evaluate.simps [simp del]

subsection \<open>Entry points\<close>

text \<open>A condition, evaluated with no context but the time: its value, or \<open>None\<close> when it is not
  a boolean or needs more context.\<close>

definition evaluateBillingCondition ::
  "intl_zones \<Rightarrow> compiled_expression \<Rightarrow> expression_node \<Rightarrow> js_date \<Rightarrow> bool option" where
  "evaluateBillingCondition intl compiled node now =
     (case rbind (new_runtime intl now compiled (empty_context\<lparr>ctx_now := Some now\<rparr>))
             (\<lambda>(env, st). evaluate env 0 node st) of
        Inl _ \<Rightarrow> None
      | Inr (v, st) \<Rightarrow> (case rv_value v of VBool b \<Rightarrow> Some b | _ \<Rightarrow> None))"

record evaluation_success =
  ev_cost :: jsnum
  ev_unit :: billing_unit
  ev_image_count :: "jsnum option"
  ev_fixed_price :: "jsnum option"
  ev_matched_tier :: jsstring
  ev_rules :: "rule_trace list"

datatype evaluation_result = Evaluated evaluation_success | Eval_failed expression_failure

definition check_token :: "jsstring \<times> jsval \<Rightarrow> unit \<Rightarrow> js_error + unit" where
  "check_token entry u =
     (case snd entry of
        VNum x \<Rightarrow>
          if \<not> js_is_finite x \<or> js_lt x (JFin 0)
          then Inl (billing_error D_number (fst entry) None) else Inr ()
      | _ \<Rightarrow> Inl (billing_error D_number (fst entry) None))"

definition check_tokens :: "simulation_context \<Rightarrow> js_error + unit" where
  "check_tokens context =
     rfold check_token (case ctx_tokens context of None \<Rightarrow> [] | Some ts \<Rightarrow> ts) ()"

definition success_of ::
  "compiled_expression \<Rightarrow> simulation_context \<Rightarrow> runtime_value \<Rightarrow> runtime_state
     \<Rightarrow> js_error + evaluation_success" where
  "success_of compiled context result st =
     (case rv_value result of
        VNum x \<Rightarrow>
          if \<not> js_is_finite x \<or> js_lt x (JFin 0)
          then Inl (billing_error D_number (js ''billing result'') None)
          else Inr \<lparr>ev_cost = x, ev_unit = rs_unit st,
                 ev_image_count =
                   (if Var_image_count \<in> comp_variables compiled
                    then Some (case ctx_image_count context of None \<Rightarrow> JFin 1 | Some n \<Rightarrow> n)
                    else None),
                 ev_fixed_price = rs_fixed_price st, ev_matched_tier = rs_matched_tier st,
                 ev_rules = rs_rules st\<rparr>
      | _ \<Rightarrow> Inl (billing_error D_number (js ''billing result'') None))"

text \<open>The \<open>try\<close> block of \<open>evaluateBillingExpression\<close>.\<close>

definition evaluate_steps ::
  "intl_zones \<Rightarrow> js_date \<Rightarrow> compiled_expression \<Rightarrow> simulation_context
     \<Rightarrow> js_error + evaluation_success" where
  "evaluate_steps intl clock compiled context =
     rbind (check_tokens context) (\<lambda>_.
     rbind (new_runtime intl clock compiled context) (\<lambda>(env, st).
     rbind (evaluate env 0 (comp_ast compiled) st) (\<lambda>(result, st).
     success_of compiled context result st)))"

definition evaluate_compilation ::
  "intl_zones \<Rightarrow> js_date \<Rightarrow> compilation_result \<Rightarrow> simulation_context \<Rightarrow> evaluation_result" where
  "evaluate_compilation intl clock compilation context =
     (case compilation of
        Compile_failed failure \<Rightarrow> Eval_failed failure
      | Ready compiled \<Rightarrow>
          (case evaluate_steps intl clock compiled context of
             Inl e \<Rightarrow> Eval_failed (expressionFailure e)
           | Inr success \<Rightarrow> Evaluated success))"

datatype expression_input = From_source jsstring | From_compiled compiled_expression

definition evaluateBillingExpression ::
  "intl_zones \<Rightarrow> js_date \<Rightarrow> expression_input \<Rightarrow> simulation_context \<Rightarrow> compile_cache
     \<Rightarrow> evaluation_result \<times> compile_cache" where
  "evaluateBillingExpression intl clock input context cache =
     (case input of
        From_source source \<Rightarrow>
          (evaluate_compilation intl clock (fst (compileBillingExpression source cache)) context,
           snd (compileBillingExpression source cache))
      | From_compiled compiled \<Rightarrow>
          (evaluate_compilation intl clock (Ready compiled) context, cache))"

subsection \<open>Inversion of the operand checks\<close>

lemma boolean_result_Inr [simp]:
  "boolean_result n r = Inr (b, st) \<longleftrightarrow> (\<exists>v. r = Inr (v, st) \<and> rv_value v = VBool b)"
proof (cases r)
  case (Inr p)
  then show ?thesis by (cases p; cases "rv_value (fst p)") (auto simp: boolean_result_def)
qed (simp add: boolean_result_def)

lemma numeric_result_Inr [simp]:
  "numeric_result n r = Inr (xi, st) \<longleftrightarrow>
     (\<exists>v. r = Inr (v, st) \<and> rv_value v = VNum (fst xi) \<and> rv_integer v = snd xi)"
proof (cases r)
  case (Inr p)
  then show ?thesis by (cases xi; cases p; cases "rv_value (fst p)") (auto simp: numeric_result_def)
qed (simp add: numeric_result_def)

lemma string_result_Inr [simp]:
  "string_result n r = Inr (s, st) \<longleftrightarrow> (\<exists>v. r = Inr (v, st) \<and> rv_value v = VStr s)"
proof (cases r)
  case (Inr p)
  then show ?thesis by (cases p; cases "rv_value (fst p)") (auto simp: string_result_def)
qed (simp add: string_result_def)

lemma check_value_Inr:
  "check_value n v st = Inr (w, st') \<longleftrightarrow>
     w = v \<and> st' = st
     \<and> (\<forall>x. rv_value v = VNum x \<longrightarrow> js_is_finite x \<and> (rv_integer v \<longrightarrow> js_is_safe_integer x))"
  by (auto simp: check_value_def split: jsval.splits)

lemma evaluate_Inr:
  "evaluate env d n st = Inr (v, st') \<longleftrightarrow>
     d + 1 \<le> 256 \<and> evaluate_node env (d + 1) n st = Inr (v, st')
     \<and> (\<forall>x. rv_value v = VNum x \<longrightarrow> js_is_finite x \<and> (rv_integer v \<longrightarrow> js_is_safe_integer x))"
  by (auto simp: evaluate.simps rbind_eq_Inr check_value_Inr)

subsection \<open>Invariants of the evaluator's state\<close>

text \<open>
  The evaluator changes its state in four ways only. A predicate that these keep is kept by every
  evaluation.
\<close>

locale runtime_invariant =
  fixes env :: runtime_env and invar :: "runtime_state \<Rightarrow> bool"
  assumes mark: "invar st \<Longrightarrow> invar (mark_rule env node b st)"
    and fixed: "invar st \<Longrightarrow> invar (st\<lparr>rs_unit := Unit_request, rs_fixed_price := Some x\<rparr>)"
    and tier: "invar st \<Longrightarrow> invar (st\<lparr>rs_matched_tier := name\<rparr>)"
    and times: "invar st \<Longrightarrow> map_of (rs_times st) zone = None \<Longrightarrow>
      timeInBillingZone (env_intl env) (env_now env) zone = Inr values \<Longrightarrow>
      invar (st\<lparr>rs_times := (zone, values) # rs_times st\<rparr>)"
begin

lemma zone_time_invar: "zone_time env zone st = Inr (values, st') \<Longrightarrow> invar st \<Longrightarrow> invar st'"
  by (auto simp: zone_time_def rbind_eq_Inr times split: option.splits)

lemma text_call_invar: "text_call env f text start st = Inr (v, st') \<Longrightarrow> invar st \<Longrightarrow> invar st'"
  by (cases f) (auto simp: rbind_eq_Inr dest: zone_time_invar)

lemma number_call_invar: "number_call f x st = Inr (v, st') \<Longrightarrow> invar st \<Longrightarrow> invar st'"
  by (cases f) (auto simp: fixed)

lemma evaluate_node_invar:
  "evaluate_node env d n st = Inr (v, st') \<Longrightarrow> invar st \<Longrightarrow> invar st'"
proof (induction n arbitrary: d st v st')
  case (Call f args s e)
  show ?case
  proof (cases args)
    case (Cons a bs)
    then have a: "evaluate_node env d' a t = Inr (w, t') \<Longrightarrow> invar t \<Longrightarrow> invar t'" for d' t w t'
      using Call.IH [of a] by simp
    have b: "bs = b # cs \<Longrightarrow> evaluate_node env d' b t = Inr (w, t') \<Longrightarrow> invar t \<Longrightarrow> invar t'"
      for b cs d' t w t'
      using Call.IH [of b] Cons by simp
    show ?thesis
      using Call.prems Cons
      by (cases bs) (auto simp: rbind_eq_Inr evaluate_Inr tier split: if_splits
          dest!: text_call_invar number_call_invar dest: a b)
  qed (use Call.prems in simp)
next
  case (Binary p l r s e)
  then show ?case
    by (auto simp: rbind_eq_Inr evaluate_Inr split: if_splits)
next
  case (Conditional c y n s e)
  then show ?case
    by (auto simp: rbind_eq_Inr evaluate_Inr split: if_splits) (blast intro: mark)+
next
  case (Unary p n s e)
  then show ?case
    by (auto simp: rbind_eq_Inr evaluate_Inr split: if_splits)
qed (auto simp: rbind_eq_Inr)

lemma evaluate_invar: "evaluate env d n st = Inr (v, st') \<Longrightarrow> invar st \<Longrightarrow> invar st'"
  unfolding evaluate_Inr using evaluate_node_invar by blast

end

text \<open>The traces keep the conditions and multipliers of the compiled rules, in their order.\<close>

definition traces_of :: "request_rule list \<Rightarrow> runtime_state \<Rightarrow> bool" where
  "traces_of rules st \<longleftrightarrow>
     map (\<lambda>t. (tr_cond t, tr_multiplier t)) (rs_rules st)
       = map (\<lambda>r. (rule_cond r, rule_multiplier r)) rules"

lemma mark_rule_simps [simp]:
  "rs_matched_tier (mark_rule env n b st) = rs_matched_tier st"
  "rs_unit (mark_rule env n b st) = rs_unit st"
  "rs_fixed_price (mark_rule env n b st) = rs_fixed_price st"
  "rs_times (mark_rule env n b st) = rs_times st"
  by (simp_all add: mark_rule_def split: option.splits)

lemma mark_rule_traces:
  "map (\<lambda>t. (tr_cond t, tr_multiplier t)) (rs_rules (mark_rule env n b st)) =
   map (\<lambda>t. (tr_cond t, tr_multiplier t)) (rs_rules st)"
proof -
  have "map f (xs[i := (xs ! i)\<lparr>tr_matched := True\<rparr>]) = map f xs"
    if "f = (\<lambda>t. (tr_cond t, tr_multiplier t))" for f :: "rule_trace \<Rightarrow> jsstring \<times> jsnum" and xs i
    using that by (cases "i < length xs") (simp_all add: map_update list_update_same_conv list_update_beyond)
  then show ?thesis by (auto simp: mark_rule_def split: option.splits)
qed

interpretation traces: runtime_invariant env "traces_of rules"
  by unfold_locales (simp_all add: traces_of_def mark_rule_traces)

text \<open>The unit is the request exactly when a fixed price was evaluated.\<close>

definition unit_ok :: "runtime_state \<Rightarrow> bool" where
  "unit_ok st \<longleftrightarrow> (rs_unit st = Unit_request \<longleftrightarrow> rs_fixed_price st \<noteq> None)"

interpretation units: runtime_invariant env unit_ok
  by unfold_locales (simp_all add: unit_ok_def)

text \<open>The cached time values of a zone are those the zone has at the time of the evaluation.\<close>

definition times_ok :: "runtime_env \<Rightarrow> runtime_state \<Rightarrow> bool" where
  "times_ok env st \<longleftrightarrow>
     (\<forall>(zone, values) \<in> set (rs_times st). timeInBillingZone (env_intl env) (env_now env) zone = Inr values)"

interpretation times: runtime_invariant env "times_ok env"
  by unfold_locales (auto simp: times_ok_def)

text \<open>The unit only ever moves from token to request, and a matched rule stays matched.\<close>

definition matched_grows :: "rule_trace list \<Rightarrow> runtime_state \<Rightarrow> bool" where
  "matched_grows ts st \<longleftrightarrow>
     length (rs_rules st) = length ts
     \<and> (\<forall>i < length ts. tr_matched (ts ! i) \<longrightarrow> tr_matched (rs_rules st ! i))"

lemma tr_matched_update: "tr_matched (ts ! i) \<Longrightarrow> tr_matched (ts[k := (ts ! k)\<lparr>tr_matched := True\<rparr>] ! i)"
  by (cases "k = i"; cases "i < length ts") (simp_all add: list_update_beyond)

interpretation matches: runtime_invariant env "matched_grows ts"
  by unfold_locales (auto simp: matched_grows_def mark_rule_def tr_matched_update split: option.splits)

subsection \<open>The values of a well-typed tree\<close>

text \<open>A value conforms to a static type; a \<open>dynamic\<close> type promises nothing.\<close>

fun conforms :: "jsval \<Rightarrow> expression_type \<Rightarrow> bool" where
  "conforms v T_number = is_number_val v"
| "conforms v T_string = is_string_val v"
| "conforms v T_boolean = is_boolean_val v"
| "conforms v T_nil = (v = VNull)"
| "conforms v T_dynamic = True"

text \<open>What the checks of \<open>evaluate\<close> guarantee of every value.\<close>

definition value_ok :: "runtime_value \<Rightarrow> bool" where
  "value_ok v \<longleftrightarrow>
     (\<forall>x. rv_value v = VNum x \<longrightarrow> js_is_finite x \<and> (rv_integer v \<longrightarrow> js_is_safe_integer x))"

lemma evaluate_value_ok: "evaluate env d n st = Inr (v, st') \<Longrightarrow> value_ok v"
  by (simp add: evaluate_Inr value_ok_def)

lemma requireType_conforms:
  assumes "requireType types c t = Inr ()" and "types c = Some t'"
  shows "t' = t \<or> t' = T_dynamic"
  using assms by (simp add: requireType_def)

lemma text_call_conforms:
  "text_call env f text start st = Inr (v, st') \<Longrightarrow> call_type types f args = Inr t \<Longrightarrow>
   conforms (rv_value v) t"
  by (cases f) (auto simp: rbind_eq_Inr header_value_def split: option.splits)

lemma number_call_conforms:
  "number_call f x st = Inr (v, st') \<Longrightarrow> call_type types f args = Inr t \<Longrightarrow> conforms (rv_value v) t"
  by (cases f) (auto simp: rbind_eq_Inr)


text \<open>
  A sum of two operands that are both \<open>dynamic\<close> is given the type \<open>number\<close>, although two texts
  are concatenated when it is evaluated. Such sums are the only place where a value can leave its
  static type.
\<close>

definition static_sum :: "type_map \<Rightarrow> expression_node \<Rightarrow> bool" where
  "static_sum types m =
     (case m of
        Binary Op_add l r _ _ \<Rightarrow> \<not> (types l = Some T_dynamic \<and> types r = Some T_dynamic)
      | _ \<Rightarrow> True)"

definition static_sums :: "type_map \<Rightarrow> expression_node \<Rightarrow> bool" where
  "static_sums types n \<longleftrightarrow> (\<forall>m \<in> set (postorder n). static_sum types m)"

definition has_static_type :: "type_map \<Rightarrow> expression_node \<Rightarrow> runtime_value \<Rightarrow> bool" where
  "has_static_type types n v \<longleftrightarrow> (\<exists>t. types n = Some t \<and> conforms (rv_value v) t)"

lemma well_typed_child: "well_typed types n \<Longrightarrow> c \<in> set (node_children n) \<Longrightarrow> well_typed types c"
  using postorder_child [of c n] by (auto simp: well_typed_def)

lemma static_sums_child: "static_sums types n \<Longrightarrow> c \<in> set (node_children n) \<Longrightarrow> static_sums types c"
  using postorder_child [of c n] by (auto simp: static_sums_def)

lemma well_typed_node: "well_typed types n \<Longrightarrow> \<exists>t. types n = Some t \<and> node_type types n = Inr t"
  by (simp add: well_typed_def)

lemma static_sums_node: "static_sums types n \<Longrightarrow> static_sum types n"
  by (simp add: static_sums_def)

lemma conforms_cases:
  "conforms (VNum x) t \<longleftrightarrow> t = T_number \<or> t = T_dynamic"
  "conforms (VStr s) t \<longleftrightarrow> t = T_string \<or> t = T_dynamic"
  "conforms (VBool b) t \<longleftrightarrow> t = T_boolean \<or> t = T_dynamic"
  "conforms VNull t \<longleftrightarrow> t = T_nil \<or> t = T_dynamic"
  by (cases t; simp)+

lemma arithmetic_value_number:
  "arithmetic_value p x y i start = Inr v \<Longrightarrow> \<exists>z. rv_value v = VNum z"
  by (cases p) (auto split: if_splits)

lemma binary_value_conforms:
  assumes v: "binary_value p l r start = Inr v" and t: "binary_type types p nl nr = Inr t"
    and p: "p \<noteq> Op_and" "p \<noteq> Op_or"
    and l: "has_static_type types nl l" and r: "has_static_type types nr r"
    and ss: "p = Op_add \<Longrightarrow> \<not> (types nl = Some T_dynamic \<and> types nr = Some T_dynamic)"
  shows "conforms (rv_value v) t"
proof (cases "is_equality p")
  case True
  with v t p show ?thesis
    by (auto simp: binary_value_def equality_value_def binary_type_def is_equality_def
        comparison_operators_def split: if_splits)
next
  case ne: False
  show ?thesis
  proof (cases "p \<in> comparison_operators")
    case True
    then have "t = T_boolean" using t p by (simp add: binary_type_def)
    moreover have "is_boolean_val (rv_value v)"
      using v ne True by (cases p) (auto simp: binary_value_def comparison_operators_def
          is_equality_def split: jsval.splits)
    ultimately show ?thesis by simp
  next
    case False
    then have cmp: "number_comparison p x y = None" "string_comparison p s s' = None" for x y s s'
      using ne p by (cases p; simp add: comparison_operators_def is_equality_def)+
    consider (num) x y where "rv_value l = VNum x" "rv_value r = VNum y"
        "arithmetic_value p x y (rv_integer l \<and> rv_integer r) start = Inr v"
      | (str) a b where "p = Op_add" "rv_value l = VStr a" "rv_value r = VStr b"
        "v = plain_value (VStr (a @ b))"
      using v ne cmp by (auto simp: binary_value_def split: jsval.splits if_splits)
    then show ?thesis
    proof cases
      case num
      then have "t = T_number \<or> t = T_string \<and> types nl = Some T_string"
        using t False p by (auto simp: binary_type_def rbind_eq_Inr split: if_splits)
      with num l arithmetic_value_number [OF num(3)] show ?thesis
        by (auto simp: has_static_type_def)
    next
      case str
      then have "types nl \<in> {Some T_string, Some T_dynamic}" "types nr \<in> {Some T_string, Some T_dynamic}"
        using l r by (auto simp: has_static_type_def conforms_cases)
      with ss str(1) t have "t = T_string"
        by (auto simp: binary_type_def comparison_operators_def rbind_eq_Inr requireType_def split: if_splits)
      with str show ?thesis by simp
    qed
  qed
qed

lemma literal_conforms: "conforms (literal_jsval x) (literal_type x)"
  by (cases x) auto

lemma variable_value_number: "variable_value env x start = Inr v \<Longrightarrow> is_number_val (rv_value v)"
  by (auto simp: variable_value_def image_count_value_def split: if_splits option.splits jsval.splits)

lemma has_value_boolean: "has_value a s = Inr v \<Longrightarrow> is_boolean_val (rv_value v)"
  by (auto simp: has_value_def rbind_eq_Inr split: if_splits)

lemma call_node_conforms:
  assumes t: "call_type types f args = Inr t" and v: "evaluate_node env d (Call f args s e) st = Inr (v, st')"
  shows "conforms (rv_value v) t"
proof -
  obtain a bs where args: "args = a # bs" using v by (cases args) auto
  show ?thesis
  proof (cases "takes_text f \<or> function_arity f = 1")
    case True
    with t v args show ?thesis
      by (auto simp: rbind_eq_Inr dest: text_call_conforms number_call_conforms split: if_splits)
  next
    case False
    then have "f \<in> {Fn_has, Fn_tier, Fn_min, Fn_max}" by (cases f) (auto simp: takes_text_def is_time_function_def)
    with False t v args show ?thesis
      by (cases bs) (auto simp: rbind_eq_Inr dest: has_value_boolean split: if_splits)
  qed
qed

lemma evaluate_node_conforms:
  "well_typed types n \<Longrightarrow> static_sums types n \<Longrightarrow> evaluate_node env d n st = Inr (v, st') \<Longrightarrow>
   has_static_type types n v"
proof (induction n arbitrary: d st v st')
  case (Literal x i s e)
  with well_typed_node [OF Literal.prems(1)] show ?case by (auto simp: has_static_type_def literal_conforms)
next
  case (Variable x s e)
  with well_typed_node [OF Variable.prems(1)] show ?case
    by (auto simp: has_static_type_def rbind_eq_Inr dest: variable_value_number)
next
  case (Call f args s e)
  with well_typed_node [OF Call.prems(1)] call_node_conforms show ?case
    by (auto simp: has_static_type_def)
next
  case (Unary p n s e)
  with well_typed_node [OF Unary.prems(1)] show ?case
    by (auto simp: has_static_type_def rbind_eq_Inr split: if_splits)
next
  case (Binary p l r s e)
  have sub: "well_typed types l" "static_sums types l" "well_typed types r" "static_sums types r"
    using Binary.prems well_typed_child [of types] static_sums_child [of types] by fastforce+
  obtain t where t: "types (Binary p l r s e) = Some t" "binary_type types p l r = Inr t"
    using well_typed_node [OF Binary.prems(1)] by auto
  have ss: "p = Op_add \<Longrightarrow> \<not> (types l = Some T_dynamic \<and> types r = Some T_dynamic)"
    using static_sums_node [OF Binary.prems(2)] by (auto simp: static_sum_def)
  show ?case
  proof (cases "p = Op_and \<or> p = Op_or")
    case True
    with Binary.prems(3) have "is_boolean_val (rv_value v)"
      by (auto simp: rbind_eq_Inr split: if_splits)
    moreover have "t = T_boolean" using True t(2) by (auto simp: binary_type_def rbind_eq_Inr)
    ultimately show ?thesis using t(1) by (simp add: has_static_type_def)
  next
    case False
    then obtain a b st1 st2 where a: "evaluate_node env (d + 1) l st = Inr (a, st1)"
      and b: "evaluate_node env (d + 1) r st1 = Inr (b, st2)" and v: "binary_value p a b s = Inr v"
      using Binary.prems(3) by (auto simp: rbind_eq_Inr evaluate_Inr)
    have "conforms (rv_value v) t"
      using binary_value_conforms [OF v t(2) _ _ Binary.IH(1) [OF sub(1,2) a] Binary.IH(2) [OF sub(3,4) b]]
        False ss by blast
    then show ?thesis using t(1) by (simp add: has_static_type_def)
  qed
next
  case (Conditional c y n s e)
  have sub: "well_typed types y" "static_sums types y" "well_typed types n" "static_sums types n"
    using Conditional.prems well_typed_child [of types] static_sums_child [of types] by fastforce+
  obtain t where t: "types (Conditional c y n s e) = Some t"
    "t = (if types y = types n then (case types y of Some t \<Rightarrow> t | None \<Rightarrow> T_dynamic) else T_dynamic)"
    using well_typed_node [OF Conditional.prems(1)] by (auto simp: rbind_eq_Inr)
  obtain st1 where "evaluate_node env (d + 1) y st1 = Inr (v, st') \<or> evaluate_node env (d + 1) n st1 = Inr (v, st')"
    using Conditional.prems(3) by (auto simp: rbind_eq_Inr evaluate_Inr split: if_splits; blast)
  then have "has_static_type types y v \<or> has_static_type types n v"
    using Conditional.IH(2) [OF sub(1,2)] Conditional.IH(3) [OF sub(3,4)] by blast
  then show ?case using t by (auto simp: has_static_type_def split: if_splits)
qed

lemma evaluate_conforms:
  assumes "well_typed types n" and "static_sums types n" and "evaluate env d n st = Inr (v, st')"
  shows "has_static_type types n v"
  using evaluate_node_conforms [OF assms(1,2)] assms(3) unfolding evaluate_Inr by blast

subsection \<open>Every failure of evaluation is a diagnosed one\<close>

lemma path_error_billing [simp]: "is_billing_error (path_error path)"
  by (simp add: path_error_def)

lemma split_path_error: "split_path path part rest = Inl e \<Longrightarrow> is_billing_error e"
proof (induction path part rest rule: split_path.induct)
  case (2 path part c rest)
  then show ?case by (cases rest) (auto simp: rbind_eq_Inl split: if_splits)
qed simp

lemma walk_path_error: "walk_path path v keys = Inl e \<Longrightarrow> is_billing_error e"
proof (induction keys arbitrary: v)
  case (Cons k ks)
  then show ?case by (cases v) (auto split: if_splits option.splits)
qed simp

lemma readRequestPath_error: "readRequestPath body path = Inl e \<Longrightarrow> is_billing_error e"
  by (auto simp: readRequestPath_def rbind_eq_Inl dest: split_path_error walk_path_error split: if_splits)

lemma rmap_error:
  "rmap f xs = Inl e \<Longrightarrow> (\<And>x e. x \<in> set xs \<Longrightarrow> f x = Inl e \<Longrightarrow> is_billing_error e) \<Longrightarrow> is_billing_error e"
  by (induction xs) (auto simp: rbind_eq_Inl)

lemma billingString_error: "billingString v depth = Inl e \<Longrightarrow> is_billing_error e"
proof (induction v depth arbitrary: e rule: billingString.induct)
  case (1 v depth)
  show ?case
  proof (cases "128 < depth")
    case True
    with "1.prems" show ?thesis by (auto simp: billingString.simps [of v])
  next
    case False
    show ?thesis
    proof (cases v)
      case (VArr items)
      have "rmap (\<lambda>item. billingString item (depth + 1)) items = Inl e"
        using "1.prems" False unfolding billingString.simps [of v depth] by (simp add: VArr rbind_eq_Inl)
      then show ?thesis by (rule rmap_error) (use "1.IH"(1) [OF False VArr] in auto)
    next
      case (VObj props)
      have "rmap (\<lambda>(key, item). rbind (billingString item (depth + 1))
          (\<lambda>text. Inr (key @ js '':'' @ text))) (sort_entries props) = Inl e"
        using "1.prems" False unfolding billingString.simps [of v depth] by (simp add: VObj rbind_eq_Inl)
      then show ?thesis
        by (rule rmap_error) (use "1.IH"(2) [OF False VObj] in \<open>auto simp: rbind_eq_Inl\<close>)
    qed (use "1.prems" [unfolded billingString.simps [of v depth]] False in \<open>auto split: if_splits\<close>)
  qed
qed

lemma text_call_error: "text_call env f text start st = Inl e \<Longrightarrow> is_billing_error e"
  by (cases f) (auto simp: rbind_eq_Inl param_value_def header_value_def usage_value_def zone_time_def
      timeInBillingZone_def dest: readRequestPath_error split: option.splits if_splits)

lemma number_call_error: "number_call f x st = Inl e \<Longrightarrow> is_billing_error e"
  by (cases f) auto

lemma binary_value_error: "binary_value p l r start = Inl e \<Longrightarrow> is_billing_error e"
  by (cases p) (auto simp: binary_value_def is_equality_def equality_value_def
      split: if_splits jsval.splits)

lemma variable_value_error: "variable_value env x start = Inl e \<Longrightarrow> is_billing_error e"
  by (auto simp: variable_value_def image_count_value_def split: if_splits option.splits jsval.splits)

lemma check_value_error: "check_value n v st = Inl e \<Longrightarrow> is_billing_error e"
  by (auto simp: check_value_def split: jsval.splits if_splits)

lemma operand_error:
  "boolean_result n r = Inl e \<Longrightarrow> r = Inl e \<or> is_billing_error e"
  "numeric_result n r = Inl e \<Longrightarrow> r = Inl e \<or> is_billing_error e"
  "string_result n r = Inl e \<Longrightarrow> r = Inl e \<or> is_billing_error e"
proof -
  have "r = Inl e \<or> is_billing_error e"
    if "boolean_result n r = Inl e \<or> numeric_result n r = Inl e \<or> string_result n r = Inl e"
  proof (cases r)
    case (Inr p)
    with that show ?thesis
      by (cases p; cases "rv_value (fst p)")
        (auto simp: boolean_result_def numeric_result_def string_result_def)
  qed (use that in \<open>auto simp: boolean_result_def numeric_result_def string_result_def\<close>)
  then show "boolean_result n r = Inl e \<Longrightarrow> r = Inl e \<or> is_billing_error e"
    and "numeric_result n r = Inl e \<Longrightarrow> r = Inl e \<or> is_billing_error e"
    and "string_result n r = Inl e \<Longrightarrow> r = Inl e \<or> is_billing_error e" by blast+
qed

lemma has_value_error: "has_value a s = Inl e \<Longrightarrow> is_billing_error e"
  by (auto simp: has_value_def rbind_eq_Inl dest: billingString_error split: if_splits)

lemma evaluate_node_error:
  "\<forall>m \<in> set (postorder n). arity_ok m \<Longrightarrow> evaluate_node env d n st = Inl e \<Longrightarrow> is_billing_error e"
proof (induction n arbitrary: d st e)
  case (Call f args s t)
  have sub: "evaluate env d' a st' = Inl e' \<Longrightarrow> is_billing_error e'" if "a \<in> set args" for a d' st' e'
    using Call.IH [OF that] Call.prems(1) that
    by (auto simp: evaluate.simps guard_throw_eq_Inl evaluation_depth_error_def rbind_eq_Inl
        dest: check_value_error split: if_splits)
  have ar: "length args = function_arity f"
    using Call.prems(1) by simp
  consider a where "args = [a]" "function_arity f = 1" | a b where "args = [a, b]" "function_arity f = 2"
    using ar by (cases f) (auto simp: length_Suc_conv numeral_2_eq_2)
  then show ?case
  proof cases
    case 1
    with Call.prems(2) sub [of a] show ?thesis
      by (auto simp: rbind_eq_Inl dest!: operand_error dest: text_call_error number_call_error split: if_splits)
  next
    case 2
    with Call.prems(2) sub [of a] sub [of b] show ?thesis
      by (cases f) (auto simp: rbind_eq_Inl takes_text_def is_time_function_def
          dest!: operand_error dest: has_value_error split: if_splits)
  qed
next
  case (Unary p n s t)
  have "evaluate env d' n st' = Inl e' \<Longrightarrow> is_billing_error e'" for d' st' e'
    using Unary by (auto simp: evaluate.simps guard_throw_eq_Inl evaluation_depth_error_def
        rbind_eq_Inl dest: check_value_error split: if_splits)
  with Unary.prems(2) show ?case by (auto simp: rbind_eq_Inl dest: operand_error split: if_splits)
next
  case (Binary p l r s t)
  have "evaluate env d' l st' = Inl e' \<Longrightarrow> is_billing_error e'"
    "evaluate env d' r st' = Inl e' \<Longrightarrow> is_billing_error e'" for d' st' e'
    using Binary by (auto simp: evaluate.simps guard_throw_eq_Inl evaluation_depth_error_def
        rbind_eq_Inl dest: check_value_error split: if_splits)
  with Binary.prems(2) show ?case
    by (auto simp: rbind_eq_Inl dest: operand_error binary_value_error split: if_splits)
next
  case (Conditional c y n s t)
  have "evaluate env d' c st' = Inl e' \<Longrightarrow> is_billing_error e'"
    "evaluate env d' y st' = Inl e' \<Longrightarrow> is_billing_error e'"
    "evaluate env d' n st' = Inl e' \<Longrightarrow> is_billing_error e'" for d' st' e'
    using Conditional by (auto simp: evaluate.simps guard_throw_eq_Inl evaluation_depth_error_def
        rbind_eq_Inl dest: check_value_error split: if_splits)
  with Conditional.prems(2) show ?case
    by (auto simp: rbind_eq_Inl dest: operand_error split: if_splits)
qed (auto simp: rbind_eq_Inl dest: variable_value_error)

lemma evaluate_error:
  "\<forall>m \<in> set (postorder n). arity_ok m \<Longrightarrow> evaluate env d n st = Inl e \<Longrightarrow> is_billing_error e"
  using evaluate_node_error
  by (auto simp: evaluate.simps guard_throw_eq_Inl evaluation_depth_error_def rbind_eq_Inl
      dest: check_value_error split: if_splits)

lemma new_runtime_error: "new_runtime intl clock c context = Inl e \<Longrightarrow> is_billing_error e"
proof -
  assume "new_runtime intl clock c context = Inl e"
  then have "rfold add_header (context_headers context) Map.empty = Inl e"
    by (auto simp: new_runtime_def rbind_eq_Inl)
  then show ?thesis by (rule rfold_error) (auto simp: add_header_def split: jsval.splits)
qed

lemma check_tokens_error: "check_tokens context = Inl e \<Longrightarrow> is_billing_error e"
  unfolding check_tokens_def
  by (erule rfold_error) (auto simp: check_token_def split: jsval.splits if_splits)

lemma success_of_error: "success_of c context v st = Inl e \<Longrightarrow> is_billing_error e"
  by (auto simp: success_of_def split: jsval.splits if_splits)

lemma evaluate_steps_error:
  assumes "\<forall>m \<in> set (postorder (comp_ast c)). arity_ok m" and "evaluate_steps intl clock c context = Inl e"
  shows "is_billing_error e"
  using assms(2) evaluate_error [OF assms(1)]
  by (auto simp: evaluate_steps_def rbind_eq_Inl
      dest: check_tokens_error new_runtime_error success_of_error)

lemma compiled_arity:
  "compile_steps source = Inr c \<Longrightarrow> \<forall>m \<in> set (postorder (comp_ast c)). arity_ok m"
  using compile_steps_InrD(1) parse_source_spans(1) by (fastforce simp: spans_ok_def span_step_def)

subsection \<open>More context never changes a value\<close>

text \<open>
  \<open>context_extends n env env'\<close>: the second environment agrees with the first on what the first
  provides and the tree asks for. The image count, which has a default, must be the same if the
  tree mentions it.
\<close>

definition context_extends :: "expression_node \<Rightarrow> runtime_env \<Rightarrow> runtime_env \<Rightarrow> bool" where
  "context_extends n env env' \<longleftrightarrow>
     env_compiled env' = env_compiled env \<and> env_now env' = env_now env \<and> env_intl env' = env_intl env
     \<and> (\<forall>x \<in> tree_variables n. x \<noteq> Var_image_count \<longrightarrow>
          token_count (env_context env) x = VUndefined
          \<or> token_count (env_context env') x = token_count (env_context env) x)
     \<and> (Var_image_count \<in> tree_variables n \<longrightarrow>
          ctx_image_count (env_context env') = ctx_image_count (env_context env))
     \<and> (tree_functions n \<inter> {Fn_param, Fn_header} = {}
        \<or> ctx_request (env_context env) = None
        \<or> ctx_request (env_context env') = ctx_request (env_context env)
          \<and> env_headers env' = env_headers env)
     \<and> (Fn_u \<notin> tree_functions n
        \<or> ctx_usage (env_context env) = None
        \<or> ctx_usage (env_context env') = ctx_usage (env_context env))"

lemma tree_variables_child: "c \<in> set (node_children n) \<Longrightarrow> tree_variables c \<subseteq> tree_variables n"
  using postorder_child [of c n] by (auto simp: tree_variables_def)

lemma tree_functions_child: "c \<in> set (node_children n) \<Longrightarrow> tree_functions c \<subseteq> tree_functions n"
  using postorder_child [of c n] by (auto simp: tree_functions_def)

lemma context_extends_child:
  "context_extends n env env' \<Longrightarrow> c \<in> set (node_children n) \<Longrightarrow> context_extends c env env'"
  using tree_variables_child [of c n] tree_functions_child [of c n] unfolding context_extends_def by blast

lemma context_extendsD:
  assumes "context_extends n env env'"
  shows "env_compiled env' = env_compiled env" "env_now env' = env_now env" "env_intl env' = env_intl env"
    and "f \<in> tree_functions n \<Longrightarrow> f = Fn_param \<or> f = Fn_header \<Longrightarrow>
      ctx_request (env_context env) = Some q \<Longrightarrow> ctx_request (env_context env') = Some q \<and> env_headers env' = env_headers env"
    and "Fn_u \<in> tree_functions n \<Longrightarrow> ctx_usage (env_context env) = Some us \<Longrightarrow> ctx_usage (env_context env') = Some us"
    and "Var_image_count \<in> tree_variables n \<Longrightarrow>
      ctx_image_count (env_context env') = ctx_image_count (env_context env)"
    and "x \<in> tree_variables n \<Longrightarrow> x \<noteq> Var_image_count \<Longrightarrow> token_count (env_context env) x = VNum k \<Longrightarrow>
      token_count (env_context env') x = VNum k"
  using assms unfolding context_extends_def by (force+)

lemma text_call_extends:
  assumes "context_extends n env env'" and "f \<in> tree_functions n"
    and "text_call env f text start st = Inr r"
  shows "text_call env' f text start st = Inr r"
proof (cases f)
  case (Fn_time tf)
  with assms(3) context_extendsD(1-3) [OF assms(1)] show ?thesis
    by (simp add: zone_time_def split: option.splits)
qed (use assms(2,3) context_extendsD(4) [OF assms(1,2)] context_extendsD(5) [OF assms(1)] in
  \<open>auto simp: rbind_eq_Inr param_value_def header_value_def usage_value_def split: option.splits\<close>)

lemma variable_value_token:
  "x \<noteq> Var_image_count \<Longrightarrow> variable_value env x s = Inr v \<longleftrightarrow>
     (\<exists>k. token_count (env_context env) x = VNum k \<and> \<not> js_lt k (JFin 0) \<and> v = plain_value (VNum k))"
  by (cases "token_count (env_context env) x") (auto simp: variable_value_def)

lemma variable_extends:
  assumes "context_extends (Variable x s e) env env'" and "variable_value env x s = Inr v"
  shows "variable_value env' x s = Inr v"
proof -
  have x: "x \<in> tree_variables (Variable x s e)" by (auto simp: tree_variables_def)
  show ?thesis
  proof (cases "x = Var_image_count")
    case True
    with assms(2) context_extendsD(6) [OF assms(1)] x show ?thesis
      by (simp add: variable_value_def image_count_value_def)
  next
    case False
    with assms(2) context_extendsD(7) [OF assms(1) x False] show ?thesis
      by (auto simp: variable_value_token)
  qed
qed

lemma mark_rule_extends: "context_extends n env env' \<Longrightarrow> mark_rule env' m b st = mark_rule env m b st"
  by (simp add: mark_rule_def context_extends_def)

lemma evaluate_node_extends:
  "context_extends n env env' \<Longrightarrow> evaluate_node env d n st = Inr (v, st') \<Longrightarrow>
   evaluate_node env' d n st = Inr (v, st')"
proof (induction n arbitrary: d st v st')
  case (Variable x s e)
  then show ?case using variable_extends by (auto simp: rbind_eq_Inr)
next
  case (Call f args s e)
  have sub: "evaluate env d' a t = Inr (w, t') \<Longrightarrow> evaluate env' d' a t = Inr (w, t')"
    if "a \<in> set args" for a d' t w t'
    using Call.IH [OF that] context_extends_child [OF Call.prems(1), of a] that by (simp add: evaluate_Inr)
  obtain a bs where args: "args = a # bs" using Call.prems(2) by (cases args) auto
  have a: "a \<in> set args" using args by simp
  have f: "f \<in> tree_functions (Call f args s e)" by (auto simp: tree_functions_def)
  show ?case
  proof (cases "takes_text f \<or> function_arity f = 1")
    case True
    then show ?thesis
      using Call.prems(2) args
      by (auto simp: rbind_eq_Inr text_call_extends [OF Call.prems(1) f] dest!: sub [OF a] split: if_splits)
  next
    case False
    then obtain b cs where bs: "bs = b # cs" using Call.prems(2) args by (cases bs) auto
    then have b: "b \<in> set args" using args by simp
    show ?thesis
      using Call.prems(2) args False bs
      by (auto simp: rbind_eq_Inr dest!: sub [OF a] sub [OF b] split: if_splits)
  qed
next
  case (Unary p n s e)
  have "evaluate env d' n t = Inr (w, t') \<Longrightarrow> evaluate env' d' n t = Inr (w, t')" for d' t w t'
    using Unary.IH context_extends_child [OF Unary.prems(1), of n] by (simp add: evaluate_Inr)
  with Unary.prems(2) show ?case by (fastforce simp: rbind_eq_Inr split: if_splits)
next
  case (Binary p l r s e)
  have l: "evaluate env d' l t = Inr (w, t') \<Longrightarrow> evaluate env' d' l t = Inr (w, t')"
    and r: "evaluate env d' r t = Inr (w, t') \<Longrightarrow> evaluate env' d' r t = Inr (w, t')" for d' t w t'
    using Binary.IH context_extends_child [OF Binary.prems(1)] by (simp_all add: evaluate_Inr)
  show ?case
    using Binary.prems(2) by (auto simp: rbind_eq_Inr dest!: l r split: if_splits)
next
  case (Conditional c y n s e)
  have c: "evaluate env d' c t = Inr (w, t') \<Longrightarrow> evaluate env' d' c t = Inr (w, t')"
    and y: "evaluate env d' y t = Inr (w, t') \<Longrightarrow> evaluate env' d' y t = Inr (w, t')"
    and n: "evaluate env d' n t = Inr (w, t') \<Longrightarrow> evaluate env' d' n t = Inr (w, t')" for d' t w t'
    using Conditional.IH context_extends_child [OF Conditional.prems(1)] by (simp_all add: evaluate_Inr)
  obtain b st1 u where "evaluate env d c st = Inr (u, st1)" "rv_value u = VBool b"
    "evaluate env d (if b then y else n) (mark_rule env (Conditional c y n s e) b st1) = Inr (v, st')"
    using Conditional.prems(2) by (auto simp: rbind_eq_Inr split: if_splits)
  then show ?case
    using mark_rule_extends [OF Conditional.prems(1)]
    by (cases b) (auto simp: boolean_result_def dest!: c y n)
qed simp

lemma evaluate_extends:
  "context_extends n env env' \<Longrightarrow> evaluate env d n st = Inr (v, st') \<Longrightarrow> evaluate env' d n st = Inr (v, st')"
  unfolding evaluate_Inr using evaluate_node_extends by blast

lemma new_runtime_Inr:
  "new_runtime intl clock c context = Inr (env, st) \<longleftrightarrow>
     st = initial_state c
     \<and> (\<exists>headers. rfold add_header (context_headers context) Map.empty = Inr headers
          \<and> env = \<lparr>env_compiled = c, env_context = context, env_headers = headers,
               env_now = (case ctx_now context of None \<Rightarrow> clock | Some d \<Rightarrow> d), env_intl = intl\<rparr>)"
  by (auto simp: new_runtime_def rbind_eq_Inr)

lemma initial_state_ok:
  "traces_of (comp_rules c) (initial_state c)" "unit_ok (initial_state c)" "times_ok env (initial_state c)"
  by (simp_all add: traces_of_def unit_ok_def times_ok_def initial_state_def initial_trace_def)

lemma js_not_lt_zero: "js_is_finite x \<Longrightarrow> \<not> js_lt x (JFin 0) \<longleftrightarrow> js_nonneg x"
  by (cases x) (auto simp: js_nonneg_def)

lemma evaluate_steps_Inr:
  assumes "evaluate_steps intl clock c context = Inr r"
  obtains env v x st where
    "new_runtime intl clock c context = Inr (env, initial_state c)"
    "evaluate env 0 (comp_ast c) (initial_state c) = Inr (v, st)"
    "rv_value v = VNum x" "js_is_finite x" "\<not> js_lt x (JFin 0)"
    "ev_cost r = x" "ev_unit r = rs_unit st" "ev_fixed_price r = rs_fixed_price st" "ev_rules r = rs_rules st"
    "ev_matched_tier r = rs_matched_tier st"
proof -
  obtain env st0 v st where *: "new_runtime intl clock c context = Inr (env, st0)"
    "evaluate env 0 (comp_ast c) st0 = Inr (v, st)" "success_of c context v st = Inr r"
    using assms by (auto simp: evaluate_steps_def rbind_eq_Inr)
  then have "st0 = initial_state c" by (simp add: new_runtime_Inr)
  with * that show thesis
    by (cases "rv_value v") (auto simp: success_of_def split: if_splits)
qed

subsection \<open>The value does not depend on the state\<close>

text \<open>
  The state only collects a trace and caches times. From any two states with correct time caches,
  and at any smaller depth, a tree evaluates to the same value.
\<close>

definition evals :: "runtime_env \<Rightarrow> nat \<Rightarrow> expression_node \<Rightarrow> runtime_value \<Rightarrow> bool" where
  "evals env d n v \<longleftrightarrow>
     (\<forall>st. times_ok env st \<longrightarrow> (\<exists>st'. evaluate env d n st = Inr (v, st') \<and> times_ok env st'))"

lemma evalsE:
  assumes "evals env d n v" and "times_ok env st"
  obtains st' where "evaluate env d n st = Inr (v, st')" "times_ok env st'"
  using assms by (auto simp: evals_def)

lemma zone_time_value:
  assumes "zone_time env zone st = Inr (values, st')" and "times_ok env st" and "times_ok env st2"
  shows "\<exists>st2'. zone_time env zone st2 = Inr (values, st2') \<and> times_ok env st2'"
proof -
  have "timeInBillingZone (env_intl env) (env_now env) zone = Inr values"
    using assms(1,2) by (auto simp: zone_time_def times_ok_def rbind_eq_Inr dest: map_of_SomeD split: option.splits)
  with assms(3) show ?thesis
    by (cases "map_of (rs_times st2) zone") (auto simp: zone_time_def times_ok_def dest!: map_of_SomeD)
qed

lemma text_call_value:
  assumes "text_call env f text start st = Inr (v, st')" and "times_ok env st" and "times_ok env st2"
  shows "\<exists>st2'. text_call env f text start st2 = Inr (v, st2') \<and> times_ok env st2'"
proof (cases f)
  case (Fn_time tf)
  with assms obtain tv where "zone_time env (js_trim text) st = Inr (tv, st')"
    and v: "v = \<lparr>rv_value = VNum (time_value tv tf), rv_integer = True\<rparr>"
    by (auto simp: rbind_eq_Inr)
  from zone_time_value [OF this(1) assms(2,3)] v Fn_time show ?thesis by auto
qed (use assms in \<open>auto simp: rbind_eq_Inr\<close>)

lemma number_call_value:
  assumes "number_call f x st = Inr (v, st')" and "times_ok env st2"
  shows "\<exists>st2'. number_call f x st2 = Inr (v, st2') \<and> times_ok env st2'"
  using assms by (cases f) (auto simp: times_ok_def)

lemma times_ok_state [simp]:
  "times_ok env (mark_rule env' n b st) = times_ok env st"
  "times_ok env (st\<lparr>rs_matched_tier := name\<rparr>) = times_ok env st"
  by (simp_all add: times_ok_def)

lemma evals_evaluate:
  assumes "\<And>st. times_ok env st \<Longrightarrow> \<exists>st'. evaluate_node env (d + 1) n st = Inr (v, st') \<and> times_ok env st'"
    and "d + 1 \<le> 256" and "value_ok v"
  shows "evals env d n v"
  using assms unfolding evals_def evaluate_Inr value_ok_def by blast

lemma evaluate_node_value:
  "evaluate_node env d n st = Inr (v, st') \<Longrightarrow> times_ok env st \<Longrightarrow> times_ok env st2 \<Longrightarrow> d2 \<le> d \<Longrightarrow>
   \<exists>st2'. evaluate_node env d2 n st2 = Inr (v, st2') \<and> times_ok env st2'"
proof (induction n arbitrary: d st v st' st2 d2)
  case (Call f args s e)
  have sub: "evals env d2 a w \<and> times_ok env t'"
    if "a \<in> set args" "evaluate env d a t = Inr (w, t')" "times_ok env t" for a t w t'
    using that Call.IH [OF that(1)] Call.prems(4) times.evaluate_invar [OF that(2,3)]
    unfolding evaluate_Inr value_ok_def [symmetric]
    by (intro conjI evals_evaluate) (auto simp: value_ok_def)
  obtain a bs where args: "args = a # bs" using Call.prems(1) by (cases args) auto
  show ?case
  proof (cases "takes_text f \<or> function_arity f = 1")
    case True
    then obtain w t where w: "evaluate env d a st = Inr (w, t)"
      and rest: "if takes_text f then \<exists>x. rv_value w = VStr x \<and> text_call env f x s t = Inr (v, st')
        else \<exists>x. rv_value w = VNum x \<and> number_call f x t = Inr (v, st')"
      using Call.prems(1) args by (auto simp: rbind_eq_Inr split: if_splits)
    then obtain t2 where "evaluate env d2 a st2 = Inr (w, t2)" "times_ok env t2" "times_ok env t"
      using sub [of a st w t] Call.prems(2,3) args by (auto elim: evalsE)
    with rest True args text_call_value [of env f _ s t v st' t2] number_call_value [of f _ t v st' env t2]
    show ?thesis by (auto simp: numeric_result_def string_result_def split: if_splits)
  next
    case False
    then obtain b cs where bs: "bs = b # cs" using Call.prems(1) args by (cases bs) auto
    have ab: "a \<in> set args" "b \<in> set args" using args bs by auto
    obtain w t u t' where w: "evaluate env d a st = Inr (w, t)" and u: "evaluate env d b t = Inr (u, t')"
      using Call.prems(1) args bs False by (auto simp: rbind_eq_Inr split: if_splits)
    obtain t2 where t2: "evaluate env d2 a st2 = Inr (w, t2)" "times_ok env t2" and ok: "times_ok env t"
      using sub [OF ab(1) w] Call.prems(2,3) by (auto elim: evalsE)
    obtain t2' where "evaluate env d2 b t2 = Inr (u, t2')" "times_ok env t2'"
      using sub [OF ab(2) u ok] t2(2) by (auto elim: evalsE)
    with t2 w u args bs False Call.prems(1) show ?thesis
      by (auto simp: rbind_eq_Inr split: if_splits)
  qed
next
  case (Unary p n s e)
  obtain w t where w: "evaluate env d n st = Inr (w, t)"
    using Unary.prems(1) by (auto simp: rbind_eq_Inr split: if_splits)
  obtain t2 where "evaluate env d2 n st2 = Inr (w, t2)" "times_ok env t2"
    using w Unary.IH [of "d + 1" st w t st2 "d2 + 1"] Unary.prems(2-4) unfolding evaluate_Inr by auto
  with w Unary.prems(1) show ?case
    by (auto simp: rbind_eq_Inr split: if_splits)
next
  case (Binary p l r s e)
  obtain w t where w: "evaluate env d l st = Inr (w, t)"
    using Binary.prems(1) by (auto simp: rbind_eq_Inr split: if_splits)
  obtain t2 where t2: "evaluate env d2 l st2 = Inr (w, t2)" "times_ok env t2"
    using w Binary.IH(1) [of "d + 1" st w t st2 "d2 + 1"] Binary.prems(2-4) unfolding evaluate_Inr by auto
  have ok: "times_ok env t" using times.evaluate_invar [OF w] Binary.prems(2) by blast
  have r: "\<exists>t2'. evaluate env d2 r t2 = Inr (u, t2') \<and> times_ok env t2'"
    if "evaluate env d r t = Inr (u, t')" for u t'
    using that Binary.IH(2) [of "d + 1" t u t' t2 "d2 + 1"] ok t2(2) Binary.prems(4)
    unfolding evaluate_Inr by auto
  show ?case
  proof (cases "p = Op_and \<or> p = Op_or")
    case True
    then obtain a where a: "rv_value w = VBool a"
      using Binary.prems(1) w by (auto simp: rbind_eq_Inr split: if_splits)
    then have b: "boolean_result l (Inr (w, u)) = Inr (a, u)" for u by simp
    from True Binary.prems(1) w t2 show ?thesis
      by (cases a) (auto simp: b rbind_eq_Inr split: if_splits dest!: r)
  next
    case False
    with Binary.prems(1) w t2 show ?thesis by (auto simp: rbind_eq_Inr dest!: r)
  qed
next
  case (Conditional c y n s e)
  obtain w t b where w: "evaluate env d c st = Inr (w, t)" "rv_value w = VBool b"
    and br: "evaluate env d (if b then y else n) (mark_rule env (Conditional c y n s e) b t) = Inr (v, st')"
    using Conditional.prems(1) by (auto simp: rbind_eq_Inr split: if_splits)
  obtain t2 where t2: "evaluate env d2 c st2 = Inr (w, t2)" "times_ok env t2"
    using w Conditional.IH(1) [of "d + 1" st w t st2 "d2 + 1"] Conditional.prems(2-4)
    unfolding evaluate_Inr by auto
  have ok: "times_ok env t" using times.evaluate_invar [OF w(1)] Conditional.prems(2) by blast
  let ?m = "mark_rule env (Conditional c y n s e) b"
  have "\<exists>st2'. evaluate env d2 (if b then y else n) (?m t2) = Inr (v, st2') \<and> times_ok env st2'"
    using br Conditional.IH(2) [of "d + 1" "?m t" v st' "?m t2" "d2 + 1"]
      Conditional.IH(3) [of "d + 1" "?m t" v st' "?m t2" "d2 + 1"] ok t2(2) Conditional.prems(4)
    unfolding evaluate_Inr by (cases b) auto
  with t2 w(2) show ?case by (cases b) (auto simp: boolean_result_def)
qed (auto simp: rbind_eq_Inr)

lemma evaluate_value:
  assumes "evaluate env d n st = Inr (v, st')" and "times_ok env st" and "d2 \<le> d"
  shows "evals env d2 n v"
  using assms evaluate_node_value [of env "d + 1" n st v st' _ "d2 + 1"]
  unfolding evals_def evaluate_Inr by auto

text \<open>A sample context and a summary of a result, for the evaluation of examples.\<close>

definition sample_context :: simulation_context where
  "sample_context =
     empty_context\<lparr>ctx_tokens := Some [(js ''p'', VNum (JFin 3)), (js ''c'', VNum (JFin 4))]\<rparr>"

definition result_summary :: "evaluation_result \<Rightarrow> (jsnum \<times> jsstring) option" where
  "result_summary r =
     (case r of Evaluated s \<Rightarrow> Some (ev_cost s, ev_matched_tier s) | Eval_failed _ \<Rightarrow> None)"

lemma result_summary_Some:
  assumes "result_summary (evaluate_compilation intl clock compiled context) = Some (x, tier)"
  obtains c r where "compiled = Ready c" "evaluate_steps intl clock c context = Inr r"
    "ev_cost r = x" "ev_matched_tier r = tier"
  using assms
  by (auto simp: result_summary_def evaluate_compilation_def
      split: evaluation_result.splits compilation_result.splits sum.splits)

subsection \<open>Properties\<close>

text \<open>
  C6: soundness of a successful evaluation. The cost of a successful simulation is a finite
  number that is not negative, it is billed per request exactly when a fixed price was evaluated,
  and the trace of the request rules lists the compiled rules, in order, with their conditions
  and multipliers.
\<close>

theorem evaluation_success_sound:
  assumes "evaluate_steps intl clock c context = Inr r"
  shows "js_is_finite (ev_cost r) \<and> js_nonneg (ev_cost r)
    \<and> (ev_unit r = Unit_request \<longleftrightarrow> ev_fixed_price r \<noteq> None)
    \<and> map (\<lambda>t. (tr_cond t, tr_multiplier t)) (ev_rules r)
        = map (\<lambda>q. (rule_cond q, rule_multiplier q)) (comp_rules c)"
proof -
  from assms obtain env v x st where
    e: "evaluate env 0 (comp_ast c) (initial_state c) = Inr (v, st)" and
    x: "js_is_finite x" "\<not> js_lt x (JFin 0)" "ev_cost r = x" "ev_unit r = rs_unit st"
      "ev_fixed_price r = rs_fixed_price st" "ev_rules r = rs_rules st"
    by (rule evaluate_steps_Inr) blast
  have "unit_ok st" using units.evaluate_invar [OF e] initial_state_ok by blast
  moreover have "traces_of (comp_rules c) st" using traces.evaluate_invar [OF e] initial_state_ok by blast
  ultimately show ?thesis using x js_not_lt_zero by (auto simp: unit_ok_def traces_of_def)
qed

theorem evaluation_success_sound_witness:
  "\<exists>c r. compile_expression (js ''tier(\"a\", p + c)'') = Ready c
     \<and> evaluate_steps (\<lambda>_. None) None c sample_context = Inr r \<and> js_nonneg (ev_cost r)
     \<and> ev_cost r = JFin 7 \<and> ev_matched_tier r = js ''a''"
proof -
  have "result_summary (evaluate_compilation (\<lambda>_. None) None
      (compile_expression (js ''tier(\"a\", p + c)'')) sample_context) = Some (JFin 7, js ''a'')"
    by code_simp
  then obtain c r where "compile_expression (js ''tier(\"a\", p + c)'') = Ready c"
    "evaluate_steps (\<lambda>_. None) None c sample_context = Inr r"
    "ev_cost r = JFin 7" "ev_matched_tier r = js ''a''"
    by (rule result_summary_Some)
  with evaluation_success_sound show ?thesis by blast
qed

text \<open>
  C7: type soundness. A tree that passes the type check, and in which no sum has two operands of
  dynamic type, evaluates to a value of its static type; a number among the values is finite,
  and within the safe integers when it is flagged as an integer.
\<close>

theorem evaluation_type_sound:
  assumes "checkExpressionTypes n = Inr types" and "static_sums types n"
    and "evaluate env d n st = Inr (v, st')"
  shows "has_static_type types n v \<and> value_ok v"
  using evaluate_conforms [OF checkExpressionTypes_well_typed(1) [OF assms(1)] assms(2,3)]
    evaluate_value_ok [OF assms(3)] by simp

theorem evaluation_type_sound_witness:
  "has_static_type [Literal (L_boolean True) False 1 5 \<mapsto> T_boolean,
       Unary Op_not (Literal (L_boolean True) False 1 5) 0 5 \<mapsto> T_boolean]
     (Unary Op_not (Literal (L_boolean True) False 1 5) 0 5) (plain_value (VBool False))"
proof -
  let ?n = "Unary Op_not (Literal (L_boolean True) False 1 5) 0 5"
  let ?types = "[Literal (L_boolean True) False 1 5 \<mapsto> T_boolean, ?n \<mapsto> T_boolean]"
  have "checkExpressionTypes ?n = Inr ?types"
    by (simp add: checkExpressionTypes_def visitExpression_postorder check_node_def requireType_def)
  moreover have "static_sums ?types ?n" by (simp add: static_sums_def static_sum_def)
  moreover have "evaluate env 0 ?n st = Inr (plain_value (VBool False), st)" for env st
    by (simp add: evaluate.simps check_value_def boolean_result_def)
  ultimately show ?thesis using evaluation_type_sound by blast
qed

text \<open>
  The exception of C2 is real. The sum of two request parameters passes the type check as a
  number, yet with a body that gives both parameters a text it evaluates to their concatenation.
\<close>

theorem dynamic_sum_type_gap:
  "\<exists>n types env st v st'. checkExpressionTypes n = Inr types \<and> types n = Some T_number
     \<and> evaluate env 0 n st = Inr (v, st') \<and> rv_value v = VStr (js ''xy'')"
proof -
  let ?a = "Call Fn_param [Literal (L_string (js ''a'')) False 6 9] 0 10"
  let ?b = "Call Fn_param [Literal (L_string (js ''b'')) False 19 22] 13 23"
  let ?n = "Binary Op_add ?a ?b 0 23"
  let ?env = "\<lparr>env_compiled = undefined, env_context = empty_context\<lparr>ctx_request :=
      Some \<lparr>req_body = VObj [(js ''a'', VStr (js ''x'')), (js ''b'', VStr (js ''y''))], req_headers = None\<rparr>\<rparr>,
      env_headers = Map.empty, env_now = None, env_intl = (\<lambda>_. None)\<rparr>"
  have "\<exists>types. checkExpressionTypes ?n = Inr types \<and> types ?n = Some T_number"
    by (simp add: checkExpressionTypes_def visitExpression_postorder check_node_def requireType_def
        require_argument_def argument_def binary_type_def comparison_operators_def)
  moreover have "readRequestPath (VObj [(js ''a'', VStr (js ''x'')), (js ''b'', VStr (js ''y''))]) (js ''a'')
      = Inr (VStr (js ''x''))"
    "readRequestPath (VObj [(js ''a'', VStr (js ''x'')), (js ''b'', VStr (js ''y''))]) (js ''b'')
      = Inr (VStr (js ''y''))"
    by code_simp+
  then have "evaluate ?env 0 ?n st = Inr (plain_value (VStr (js ''xy'')), st)" for st
    by (simp add: evaluate.simps check_value_def string_result_def takes_text_def param_value_def
        binary_value_def is_equality_def)
  ultimately show ?thesis by fastforce
qed

text \<open>
  C8: a simulation never fails with an undiagnosed error. For every text, context, clock and
  time zone data the result is a success or a failure whose status is determined by the code of
  the diagnosis.
\<close>

theorem evaluation_failures_diagnosed:
  "case evaluate_compilation intl clock (compile_expression source) context of
     Evaluated r \<Rightarrow> True
   | Eval_failed f \<Rightarrow> fail_status f = diagnostic_status (diag_code (fail_diagnostic f))
       \<and> (\<exists>d. (compile_steps source = Inl (BillingExpressionError d)
             \<or> (\<exists>c. compile_steps source = Inr c
                  \<and> evaluate_steps intl clock c context = Inl (BillingExpressionError d)))
           \<and> fail_diagnostic f = d)"
proof (cases "compile_steps source")
  case (Inl e)
  then obtain d where "e = BillingExpressionError d"
    using compile_steps_error is_billing_error.elims(2) by blast
  with Inl show ?thesis
    by (simp add: evaluate_compilation_def compile_expression_def expressionFailure_def)
next
  case (Inr c)
  show ?thesis
  proof (cases "evaluate_steps intl clock c context")
    case (Inl e)
    then obtain d where "e = BillingExpressionError d"
      using evaluate_steps_error [OF compiled_arity [OF Inr]] is_billing_error.elims(2) by blast
    with Inl Inr show ?thesis
      by (simp add: evaluate_compilation_def compile_expression_def expressionFailure_def)
  qed (use Inr in \<open>simp add: evaluate_compilation_def compile_expression_def\<close>)
qed

text \<open>
  C9: a condition that is decided by the time alone is decided correctly. If
  \<open>evaluateBillingCondition\<close> answers, and the condition does not mention the image count, every
  later evaluation of the condition in a full context with the same time gives the same answer.
\<close>

theorem time_condition_stable:
  assumes "evaluateBillingCondition intl c n now = Some b"
    and "Var_image_count \<notin> tree_variables n"
    and "ctx_now ctx = Some now" and "new_runtime intl clock c ctx = Inr (env, st)"
  shows "\<exists>v st'. evaluate env 0 n st = Inr (v, st') \<and> rv_value v = VBool b"
proof -
  obtain env0 v st' where 0: "new_runtime intl now c (empty_context\<lparr>ctx_now := Some now\<rparr>) = Inr (env0, initial_state c)"
    and e: "evaluate env0 0 n (initial_state c) = Inr (v, st')" and v: "rv_value v = VBool b"
  proof -
    obtain env0 st0 v st' where *: "new_runtime intl now c (empty_context\<lparr>ctx_now := Some now\<rparr>) = Inr (env0, st0)"
      "evaluate env0 0 n st0 = Inr (v, st')" "rv_value v = VBool b"
      using assms(1)
      by (auto simp: evaluateBillingCondition_def rbind_eq_Inr split: sum.splits jsval.splits)
    then have "st0 = initial_state c" by (simp add: new_runtime_Inr)
    with * that show thesis by blast
  qed
  have "context_extends n env0 env"
    using 0 assms(2-4)
    by (auto simp: context_extends_def new_runtime_Inr empty_context_def token_count_def)
  with e v assms(4) evaluate_extends show ?thesis by (auto simp: new_runtime_Inr)
qed

theorem time_condition_stable_witness:
  "\<exists>v st'. evaluate \<lparr>env_compiled = \<lparr>comp_source = [], comp_ast = Literal (L_boolean True) False 0 4,
        comp_variables = {}, comp_functions = {}, comp_rules = []\<rparr>,
      env_context = sample_context\<lparr>ctx_now := Some (Some 0)\<rparr>, env_headers = Map.empty, env_now = Some 0,
      env_intl = (\<lambda>_. None)\<rparr> 0 (Literal (L_boolean True) False 0 4)
      (initial_state \<lparr>comp_source = [], comp_ast = Literal (L_boolean True) False 0 4,
        comp_variables = {}, comp_functions = {}, comp_rules = []\<rparr>) = Inr (v, st') \<and> rv_value v = VBool True"
  by (rule time_condition_stable [where intl = "\<lambda>_. None" and clock = None and
        ctx = "sample_context\<lparr>ctx_now := Some (Some 0)\<rparr>" and now = "Some 0"])
    (simp_all add: evaluateBillingCondition_def new_runtime_def empty_context_def context_headers_def
      evaluate.simps check_value_def tree_variables_def sample_context_def)

text \<open>
  The cache of zone times changes nothing. Whatever was evaluated before, asking for the time
  of a zone gives what \<open>timeInBillingZone\<close> gives for the time of the evaluation.
\<close>

theorem zone_times_transparent:
  assumes "evaluate env d n (initial_state c) = Inr (v, st)"
  shows "map_sum id fst (zone_time env zone st) = timeInBillingZone (env_intl env) (env_now env) zone"
proof -
  have "times_ok env st" using times.evaluate_invar [OF assms] initial_state_ok by blast
  then show ?thesis
    by (cases "map_of (rs_times st) zone"; cases "timeInBillingZone (env_intl env) (env_now env) zone")
      (auto simp: zone_time_def times_ok_def dest!: map_of_SomeD)
qed

theorem zone_times_transparent_witness:
  "map_sum id fst (zone_time \<lparr>env_compiled = \<lparr>comp_source = [], comp_ast = Literal L_nil False 0 3,
        comp_variables = {}, comp_functions = {}, comp_rules = []\<rparr>,
      env_context = empty_context, env_headers = Map.empty, env_now = Some 0, env_intl = (\<lambda>_. None)\<rparr> []
      (initial_state \<lparr>comp_source = [], comp_ast = Literal L_nil False 0 3,
        comp_variables = {}, comp_functions = {}, comp_rules = []\<rparr>))
   = timeInBillingZone (\<lambda>_. None) (Some 0) []"
  using zone_times_transparent [where n = "Literal L_nil False 0 3" and d = 0 and v = "plain_value VNull"
      and env = "\<lparr>env_compiled = \<lparr>comp_source = [], comp_ast = Literal L_nil False 0 3,
        comp_variables = {}, comp_functions = {}, comp_rules = []\<rparr>,
      env_context = empty_context, env_headers = Map.empty, env_now = Some 0, env_intl = (\<lambda>_. None)\<rparr>"]
  by (simp add: evaluate.simps check_value_def)

end
