(* ===== verification/Billing_Display.thy ===== *)
theory Billing_Display
  imports Billing_Evaluate
begin

section \<open>Reading price tiers out of an expression\<close>

text \<open>
  \<open>billing-expression/display.ts\<close>: the functions that recognise a chain of price tiers in a
  compiled expression for the price tables. They are checked against the evaluator: what the
  table shows is what is charged.
\<close>

subsection \<open>Token tiers\<close>

record token_condition =
  tc_var :: token_variable
  tc_op :: binary_operator
  tc_value :: jsnum

record token_tier =
  tt_condition_text :: "jsstring option"
  tt_image_count :: bool
  tt_unit :: "billing_unit option"
  tt_fixed_price :: "jsnum option"
  tt_label :: jsstring
  tt_conditions :: "token_condition list"
  tt_prices :: "(token_variable \<times> jsnum) list"

fun flattenBinary :: "expression_node \<Rightarrow> binary_operator \<Rightarrow> expression_node list" where
  "flattenBinary (Binary p left right s e) operator =
     (if p = operator then flattenBinary left operator @ flattenBinary right operator
      else [Binary p left right s e])"
| "flattenBinary node operator = [node]"

text \<open>One comparison of a token count with a number that is not negative.\<close>

definition token_condition_of :: "expression_node \<Rightarrow> token_condition option" where
  "token_condition_of part =
     (case part of
        Binary p (Variable x _ _) (Literal (L_number n) _ _ _) _ _ \<Rightarrow>
          if p \<in> {Op_lt, Op_le, Op_gt, Op_ge} \<and> x \<in> {Var_p, Var_c, Var_len} \<and> \<not> js_lt n (JFin 0)
          then Some \<lparr>tc_var = x, tc_op = p, tc_value = n\<rparr> else None
      | _ \<Rightarrow> None)"

definition tokenConditions :: "expression_node \<Rightarrow> token_condition list option" where
  "tokenConditions node = those (map token_condition_of (flattenBinary node Op_and))"

definition nonnegativePriceLiteral :: "expression_node \<Rightarrow> jsnum option" where
  "nonnegativePriceLiteral node =
     (case node of
        Literal (L_number x) _ _ _ \<Rightarrow> if js_le (JFin 0) x then Some x else None
      | Unary Op_neg (Literal (L_number x) _ _ _) _ _ \<Rightarrow>
          if js_num_eq x (JFin 0) then Some JNegZero else None
      | _ \<Rightarrow> None)"

definition is_zero_literal :: "expression_node \<Rightarrow> bool" where
  "is_zero_literal node =
     (case node of Literal (L_number x) _ _ _ \<Rightarrow> js_num_eq x (JFin 0) | _ \<Rightarrow> False)"

text \<open>\<open>len - ai\<close>, the text tokens of an audio request.\<close>

definition is_text_remainder :: "expression_node \<Rightarrow> bool" where
  "is_text_remainder node =
     (case node of
        Binary Op_sub (Variable Var_len _ _) (Variable Var_ai _ _) _ _ \<Rightarrow> True
      | _ \<Rightarrow> False)"

definition max_remainder :: "expression_node \<Rightarrow> expression_node \<Rightarrow> expression_node option" where
  "max_remainder a b =
     (if is_zero_literal a then Some b else if is_zero_literal b then Some a else None)"

definition price_variable :: "expression_node \<Rightarrow> token_variable option" where
  "price_variable input =
     (case input of
        Variable x _ _ \<Rightarrow> if x \<noteq> Var_len \<and> x \<noteq> Var_image_count then Some x else None
      | Call Fn_max [a, b] _ _ \<Rightarrow>
          (case max_remainder a b of
             Some r \<Rightarrow> if is_text_remainder r then Some Var_p else None
           | None \<Rightarrow> None)
      | _ \<Rightarrow> None)"

text \<open>A term \<open>variable * price\<close> or \<open>price * variable\<close>: the input and the price.\<close>

definition price_term :: "expression_node \<Rightarrow> (expression_node \<times> jsnum) option" where
  "price_term term =
     (case term of
        Binary Op_mul left right _ _ \<Rightarrow>
          (case nonnegativePriceLiteral right of
             Some price \<Rightarrow> Some (left, price)
           | None \<Rightarrow> (case nonnegativePriceLiteral left of
                        Some price \<Rightarrow> Some (right, price)
                      | None \<Rightarrow> None))
      | _ \<Rightarrow> None)"

fun tier_prices ::
  "expression_node list \<Rightarrow> (token_variable \<times> jsnum) list \<Rightarrow> (token_variable \<times> jsnum) list option" where
  "tier_prices [] prices = Some prices"
| "tier_prices (term # terms) prices =
     (case price_term term of
        None \<Rightarrow> None
      | Some (input, price) \<Rightarrow>
          (case price_variable input of
             None \<Rightarrow> None
           | Some x \<Rightarrow>
               if x \<in> fst ` set prices then None
               else tier_prices terms (prices @ [(x, price)])))"

text \<open>\<open>fixed(amount)\<close> with a number literal.\<close>

definition fixed_amount :: "expression_node \<Rightarrow> jsnum option" where
  "fixed_amount body =
     (case body of
        Call Fn_fixed (Literal (L_number x) _ _ _ # _) _ _ \<Rightarrow> Some x
      | _ \<Rightarrow> None)"

definition tokenTier :: "expression_node \<Rightarrow> token_condition list \<Rightarrow> token_tier option" where
  "tokenTier node conditions =
     (case node of
        Call Fn_tier (Literal (L_string label) _ _ _ # body # _) _ _ \<Rightarrow>
          (case fixed_amount body of
             Some x \<Rightarrow>
               Some \<lparr>tt_condition_text = None, tt_image_count = False, tt_unit = Some Unit_request,
                 tt_fixed_price = Some x, tt_label = label, tt_conditions = conditions,
                 tt_prices = []\<rparr>
           | None \<Rightarrow>
               (case tier_prices (flattenBinary body Op_add) [] of
                  None \<Rightarrow> None
                | Some prices \<Rightarrow>
                    if prices = [] then None
                    else Some \<lparr>tt_condition_text = None, tt_image_count = False, tt_unit = None,
                      tt_fixed_price = None, tt_label = label, tt_conditions = conditions,
                      tt_prices = prices\<rparr>))
      | _ \<Rightarrow> None)"

text \<open>The \<open>while\<close> loop of \<open>readTokenTierChain\<close>.\<close>

fun tier_chain :: "expression_node \<Rightarrow> token_tier list option" where
  "tier_chain (Conditional condition yes no _ _) =
     (case tokenConditions condition of
        None \<Rightarrow> None
      | Some conditions \<Rightarrow>
          (case tokenTier yes conditions of
             None \<Rightarrow> None
           | Some tier \<Rightarrow> map_option ((#) tier) (tier_chain no)))"
| "tier_chain node = map_option (\<lambda>tier. [tier]) (tokenTier node [])"

text \<open>\<open>ai > 0\<close> or \<open>ao > 0\<close>.\<close>

definition audio_presence :: "expression_node \<Rightarrow> token_variable option" where
  "audio_presence part =
     (case part of
        Binary Op_gt (Variable x _ _) zero _ _ \<Rightarrow>
          if (x = Var_ai \<or> x = Var_ao) \<and> is_zero_literal zero then Some x else None
      | _ \<Rightarrow> None)"

definition audio_tiers :: "expression_node \<Rightarrow> token_tier list option" where
  "audio_tiers node =
     (case node of
        Conditional (Binary Op_or left right _ _) yes no _ _ \<Rightarrow>
          if card (set (List.map_filter audio_presence [left, right])) = 2
          then (case tokenTier yes [] of
                  None \<Rightarrow> None
                | Some audio \<Rightarrow>
                    (case tokenTier no [] of
                       None \<Rightarrow> None
                     | Some text \<Rightarrow>
                         Some [audio\<lparr>tt_condition_text := Some (js ''Audio requests'')\<rparr>,
                               text\<lparr>tt_condition_text := Some (js ''Text-only requests'')\<rparr>]))
          else None
      | _ \<Rightarrow> None)"

definition is_image_count :: "expression_node \<Rightarrow> bool" where
  "is_image_count node = (case node of Variable Var_image_count _ _ \<Rightarrow> True | _ \<Rightarrow> False)"

definition image_pricing :: "expression_node \<Rightarrow> expression_node option" where
  "image_pricing node =
     (case node of
        Binary Op_mul left right _ _ \<Rightarrow>
          if is_image_count left then Some right
          else if is_image_count right then Some left else None
      | _ \<Rightarrow> None)"

lemma image_pricing_size: "image_pricing n = Some m \<Longrightarrow> size m < size n"
  by (auto simp: image_pricing_def split: expression_node.splits binary_operator.splits if_splits)

function readTokenTierChain :: "expression_node \<Rightarrow> token_tier list option" where
  "readTokenTierChain node =
     (case audio_tiers node of
        Some tiers \<Rightarrow> Some tiers
      | None \<Rightarrow>
          (case image_pricing node of
             Some pricing \<Rightarrow>
               map_option (map (\<lambda>tier. tier\<lparr>tt_image_count := True\<rparr>)) (readTokenTierChain pricing)
           | None \<Rightarrow> tier_chain node))"
  by pat_completeness auto
termination
  by (relation "measure size") (auto simp: image_pricing_size)

declare readTokenTierChain.simps [simp del]

subsection \<open>Tiers that depend on the time\<close>

definition time_math :: "billing_function set" where
  "time_math = {Fn_min, Fn_max, Fn_abs, Fn_ceil, Fn_floor}"

definition isTimeCondition :: "expression_node \<Rightarrow> js_error + bool" where
  "isTimeCondition node =
     rbind (expressionDependencies node) (\<lambda>d.
       Inr (dep_variables d = {}
         \<and> (\<exists>f \<in> dep_functions d. is_time_function f)
         \<and> (\<forall>f \<in> dep_functions d. is_time_function f \<or> f \<in> time_math)))"

type_synonym time_path = "(expression_node \<times> bool) list"

record time_token_tier =
  tm_tier :: token_tier
  tm_path :: time_path
  tm_text :: jsstring

definition and_text :: jsstring where
  "and_text = js '' && ''"

definition path_text :: "jsstring \<Rightarrow> time_path \<Rightarrow> jsstring" where
  "path_text source path =
     js_join and_text
       (map (\<lambda>(condition, matches).
          (if matches then [] else js ''!'')
            @ js ''('' @ js_slice source (node_start condition) (node_end condition) @ js '')'') path)"

definition condition_text :: "token_condition \<Rightarrow> jsstring" where
  "condition_text c =
     variable_name (tc_var c) @ js '' '' @ operator_name (tc_op c) @ js '' '' @ js_number_text (tc_value c)"

definition time_tier :: "jsstring \<Rightarrow> time_path \<Rightarrow> token_tier \<Rightarrow> time_token_tier" where
  "time_tier source path tier =
     \<lparr>tm_tier = tier, tm_path = path,
      tm_text = js_join and_text (path_text source path # map condition_text (tt_conditions tier))\<rparr>"

text \<open>The branch at a node whose condition, if any, is no time condition.\<close>

definition time_leaf :: "jsstring \<Rightarrow> expression_node \<Rightarrow> time_path \<Rightarrow> time_token_tier list option" where
  "time_leaf source node path =
     (case readTokenTierChain node of
        None \<Rightarrow> None
      | Some tiers \<Rightarrow> if path = [] then None else Some (map (time_tier source path) tiers))"

text \<open>\<open>!yes || !no ? null : [...yes, ...no]\<close>\<close>

definition both_branches :: "'a list option \<Rightarrow> 'a list option \<Rightarrow> 'a list option" where
  "both_branches yes no =
     (case yes of None \<Rightarrow> None | Some ys \<Rightarrow> (case no of None \<Rightarrow> None | Some ns \<Rightarrow> Some (ys @ ns)))"

fun timeTierBranches ::
  "jsstring \<Rightarrow> expression_node \<Rightarrow> time_path \<Rightarrow> js_error + time_token_tier list option" where
  "timeTierBranches source (Conditional condition yes no s e) path =
     rbind (isTimeCondition condition) (\<lambda>timed.
       if timed
       then rbind (timeTierBranches source yes (path @ [(condition, True)])) (\<lambda>ys.
            rbind (timeTierBranches source no (path @ [(condition, False)])) (\<lambda>ns.
            Inr (both_branches ys ns)))
       else Inr (time_leaf source (Conditional condition yes no s e) path))"
| "timeTierBranches source node path = Inr (time_leaf source node path)"

definition path_matches :: "intl_zones \<Rightarrow> compiled_expression \<Rightarrow> js_date \<Rightarrow> time_path \<Rightarrow> bool" where
  "path_matches intl compiled now path =
     list_all (\<lambda>(condition, matches).
       evaluateBillingCondition intl compiled condition now = Some matches) path"

definition readTimeTokenPricing ::
  "intl_zones \<Rightarrow> jsstring \<Rightarrow> js_date option
     \<Rightarrow> js_error + (time_token_tier list \<times> time_token_tier list) option" where
  "readTimeTokenPricing intl source now =
     (case compile_expression source of
        Compile_failed _ \<Rightarrow> Inr None
      | Ready compiled \<Rightarrow>
          rbind (timeTierBranches (comp_source compiled) (comp_ast compiled) []) (\<lambda>branches.
            Inr (map_option (\<lambda>tiers.
              (tiers,
               case now of
                 None \<Rightarrow> []
               | Some t \<Rightarrow> filter (\<lambda>tier. path_matches intl compiled t (tm_path tier)) tiers))
              branches)))"

subsection \<open>What the token tiers mean\<close>

text \<open>
  The reference: the conditions of a tier are comparisons of token counts, and the tier that
  applies is the first one whose conditions all hold.
\<close>

definition condition_holds :: "simulation_context \<Rightarrow> token_condition \<Rightarrow> bool" where
  "condition_holds context c \<longleftrightarrow>
     (case token_count context (tc_var c) of
        VNum x \<Rightarrow> number_comparison (tc_op c) x (tc_value c) = Some True
      | _ \<Rightarrow> False)"

definition tier_applies :: "simulation_context \<Rightarrow> token_tier \<Rightarrow> bool" where
  "tier_applies context tier = list_all (condition_holds context) (tt_conditions tier)"

definition selected_tier :: "simulation_context \<Rightarrow> token_tier list \<Rightarrow> token_tier option" where
  "selected_tier context tiers = find (tier_applies context) tiers"

lemma those_map_iff: "those (map f xs) = Some ys \<longleftrightarrow> list_all2 (\<lambda>x y. f x = Some y) xs ys"
proof (induction xs arbitrary: ys)
  case (Cons x xs)
  then show ?case by (cases "f x") (auto simp: list_all2_Cons1)
qed auto

lemma token_condition_of_Some:
  "token_condition_of n = Some c \<longleftrightarrow>
     (\<exists>p x k i s1 e1 s2 e2 s e. n = Binary p (Variable x s1 e1) (Literal (L_number k) i s2 e2) s e
        \<and> p \<in> {Op_lt, Op_le, Op_gt, Op_ge} \<and> x \<in> {Var_p, Var_c, Var_len} \<and> \<not> js_lt k (JFin 0)
        \<and> c = \<lparr>tc_var = x, tc_op = p, tc_value = k\<rparr>)"
  by (auto simp: token_condition_of_def split: expression_node.splits literal_value.splits if_splits)

lemma evaluate_variable:
  assumes "evaluate env d (Variable x s e) st = Inr (v, st')" and "x \<noteq> Var_image_count"
  shows "st' = st \<and> (\<exists>k. token_count (env_context env) x = VNum k \<and> rv_value v = VNum k
    \<and> js_nonneg k \<and> js_is_finite k)"
  using assms by (auto simp: evaluate_Inr rbind_eq_Inr variable_value_token js_not_lt_zero)

lemma evaluate_literal:
  "evaluate env d (Literal l i s e) st = Inr (v, st') \<Longrightarrow> st' = st \<and> rv_value v = literal_jsval l"
  by (auto simp: evaluate_Inr)

lemma evaluate_strict_binary:
  assumes "evaluate env d (Binary p l r s e) st = Inr (v, st')" and "p \<noteq> Op_and" "p \<noteq> Op_or"
  obtains a b st1 where "evaluate env (d + 1) l st = Inr (a, st1)" "evaluate env (d + 1) r st1 = Inr (b, st')"
    "binary_value p a b s = Inr v" "value_ok v"
proof -
  from assms obtain a b st1 where "evaluate env (d + 1) l st = Inr (a, st1)"
    "evaluate env (d + 1) r st1 = Inr (b, st')" "binary_value p a b s = Inr v"
    unfolding evaluate_Inr [of env d] by (auto simp: rbind_eq_Inr)
  with that evaluate_value_ok [OF assms(1)] show thesis by blast
qed

lemma evaluate_token_condition:
  assumes "token_condition_of n = Some c" and "evaluate env d n st = Inr (v, st')"
  shows "st' = st \<and> rv_value v = VBool (condition_holds (env_context env) c)"
proof -
  obtain p x k i s1 e1 s2 e2 s e where n: "n = Binary p (Variable x s1 e1) (Literal (L_number k) i s2 e2) s e"
    and p: "p \<in> {Op_lt, Op_le, Op_gt, Op_ge}" and x: "x \<noteq> Var_image_count"
    and c: "c = \<lparr>tc_var = x, tc_op = p, tc_value = k\<rparr>"
    using assms(1) unfolding token_condition_of_Some by auto
  obtain a b st1 where a: "evaluate env (d + 1) (Variable x s1 e1) st = Inr (a, st1)"
    and b: "evaluate env (d + 1) (Literal (L_number k) i s2 e2) st1 = Inr (b, st')"
    and v: "binary_value p a b s = Inr v"
    using assms(2) p unfolding n by (auto elim: evaluate_strict_binary)
  from evaluate_variable [OF a x] evaluate_literal [OF b] v p show ?thesis
    by (auto simp: binary_value_def is_equality_def c condition_holds_def)
qed

lemma evaluate_and:
  assumes "evaluate env d (Binary Op_and l r s e) st = Inr (v, st')"
  obtains a b st1 where "evaluate env (d + 1) l st = Inr (a, st1)" "rv_value a = VBool b"
    "if b then (\<exists>w c. evaluate env (d + 1) r st1 = Inr (w, st') \<and> rv_value w = VBool c \<and> rv_value v = VBool c)
     else st' = st1 \<and> rv_value v = VBool False"
  using assms unfolding evaluate_Inr [of env d] by (fastforce simp: rbind_eq_Inr split: if_splits)

lemma evaluate_token_conditions:
  assumes "list_all2 (\<lambda>m c. token_condition_of m = Some c) (flattenBinary n Op_and) cs"
    and "evaluate env d n st = Inr (v, st')"
  shows "st' = st \<and> rv_value v = VBool (list_all (condition_holds (env_context env)) cs)"
  using assms
proof (induction n Op_and arbitrary: cs d v st' rule: flattenBinary.induct)
  case (1 p l r s e)
  show ?case
  proof (cases "p = Op_and")
    case True
    with "1.prems"(1) obtain as bs where cs: "cs = as @ bs"
      and l: "list_all2 (\<lambda>m c. token_condition_of m = Some c) (flattenBinary l Op_and) as"
      and r: "list_all2 (\<lambda>m c. token_condition_of m = Some c) (flattenBinary r Op_and) bs"
      by (auto simp: list_all2_append1)
    from "1.prems"(2) True obtain a b st1 where a: "evaluate env (d + 1) l st = Inr (a, st1)" "rv_value a = VBool b"
      and rest: "if b then (\<exists>w c. evaluate env (d + 1) r st1 = Inr (w, st') \<and> rv_value w = VBool c \<and> rv_value v = VBool c)
        else st' = st1 \<and> rv_value v = VBool False"
      by (auto elim: evaluate_and)
    have "st1 = st \<and> b = list_all (condition_holds (env_context env)) as"
      using "1.hyps"(1) [OF True l a(1)] a(2) by simp
    with rest "1.hyps"(2) [OF True r] show ?thesis by (auto simp: cs split: if_splits)
  next
    case False
    with "1.prems"(1) obtain c where "cs = [c]" "token_condition_of (Binary p l r s e) = Some c"
      by (auto simp: list_all2_Cons1)
    with evaluate_token_condition "1.prems"(2) show ?thesis by simp
  qed
qed (auto simp: list_all2_Cons1 dest: evaluate_token_condition)

subsection \<open>What a tier charges\<close>

text \<open>A term that the tier reader accepts: an input that it knows, times a price.\<close>

definition priced :: "expression_node \<Rightarrow> bool" where
  "priced t \<longleftrightarrow> (\<exists>i q x. price_term t = Some (i, q) \<and> price_variable i = Some x)"

lemma tier_prices_priced: "tier_prices ts ps = Some qs \<Longrightarrow> \<forall>t \<in> set ts. priced t"
  by (induction ts ps arbitrary: qs rule: tier_prices.induct)
    (auto simp: priced_def split: option.splits if_splits)

lemma tier_prices_append:
  "tier_prices ts ps = Some qs \<Longrightarrow> distinct (map fst ps) \<Longrightarrow>
   distinct (map fst qs) \<and> (\<exists>rs. qs = ps @ rs \<and> length rs = length ts)"
proof (induction ts ps arbitrary: qs rule: tier_prices.induct)
  case (2 t ts ps)
  from "2.prems"(1) obtain i q x where "price_term t = Some (i, q)" "price_variable i = Some x"
    "x \<notin> fst ` set ps" "tier_prices ts (ps @ [(x, q)]) = Some qs"
    by (auto split: option.splits if_splits)
  with "2.IH" [of "(i, q)" i q x qs] "2.prems"(2) show ?case by (fastforce simp: length_Suc_conv)
qed simp

text \<open>The values a node can have without touching the state: numbers that are not negative.\<close>

definition charges :: "runtime_state \<Rightarrow> runtime_value \<times> runtime_state \<Rightarrow> bool" where
  "charges st r \<longleftrightarrow> snd r = st \<and> (\<exists>x. rv_value (fst r) = VNum x \<and> js_nonneg x \<and> js_is_finite x)"

lemma evaluate_finite: "evaluate env d n st = Inr (v, st') \<Longrightarrow> rv_value v = VNum x \<Longrightarrow> js_is_finite x"
  by (simp add: evaluate_Inr)

lemma js_zero_cases: "js_num_eq x (JFin 0) \<Longrightarrow> x = JFin 0 \<or> x = JNegZero"
  by (cases x) (auto simp: js_num_eq_def)

lemma nonnegativePriceLiteral_cases:
  assumes "nonnegativePriceLiteral n = Some q"
  obtains (lit) i s e where "n = Literal (L_number q) i s e" "js_nonneg q"
  | (neg) x i s1 e1 s e where "n = Unary Op_neg (Literal (L_number x) i s1 e1) s e" "x = JFin 0 \<or> x = JNegZero"
  using assms
  by (auto simp: nonnegativePriceLiteral_def js_nonneg_def dest: js_zero_cases
      split: expression_node.splits literal_value.splits unary_operator.splits if_splits)

lemma price_literal_charges:
  assumes "nonnegativePriceLiteral n = Some q" and "evaluate env d n st = Inr r"
  shows "charges st r"
proof -
  obtain v st' where r: "r = (v, st')" by fastforce
  from assms(1) have "st' = st \<and> (\<exists>x. rv_value v = VNum x \<and> js_nonneg x)"
  proof (cases rule: nonnegativePriceLiteral_cases)
    case lit
    with evaluate_literal assms(2) show ?thesis unfolding r by fastforce
  next
    case (neg x i s1 e1 s e)
    with assms(2) show ?thesis unfolding r evaluate_Inr [of env d] neg(1)
      by (auto simp: rbind_eq_Inr dest!: evaluate_literal)
  qed
  with evaluate_finite assms(2) show ?thesis unfolding charges_def r by fastforce
qed

lemma binary_number_value:
  assumes "binary_value p a b s = Inr v" and "rv_value a = VNum x" "rv_value b = VNum y"
  shows "p = Op_mul \<Longrightarrow> rv_value v = VNum (js_mul x y)" and "p = Op_add \<Longrightarrow> rv_value v = VNum (js_add x y)"
    and "p = Op_sub \<Longrightarrow> rv_value v = VNum (js_sub x y)"
  using assms by (auto simp: binary_value_def is_equality_def)

lemma product_charges:
  assumes "evaluate env d (Binary Op_mul l r s e) st = Inr w"
    and "\<And>st w. evaluate env (d + 1) l st = Inr w \<Longrightarrow> charges st w"
    and "\<And>st w. evaluate env (d + 1) r st = Inr w \<Longrightarrow> charges st w"
  shows "charges st w"
proof -
  obtain v st' where w: "w = (v, st')" by fastforce
  from assms(1) obtain a b st1 where a: "evaluate env (d + 1) l st = Inr (a, st1)"
    and b: "evaluate env (d + 1) r st1 = Inr (b, st')" and v: "binary_value Op_mul a b s = Inr v"
    unfolding w by (auto elim: evaluate_strict_binary)
  from assms(2) [OF a] assms(3) [OF b] obtain x y where st: "st1 = st" "st' = st"
    and x: "rv_value a = VNum x" "js_nonneg x" "js_is_finite x"
    and y: "rv_value b = VNum y" "js_nonneg y" "js_is_finite y"
    by (auto simp: charges_def)
  have "rv_value v = VNum (js_mul x y)" using binary_number_value(1) [OF v x(1) y(1)] by simp
  moreover have "js_nonneg (js_mul x y)" using js_nonneg_mul x y by blast
  ultimately show ?thesis using st evaluate_finite [OF assms(1) [unfolded w]] by (simp add: charges_def w)
qed

lemma sum_charges:
  assumes "evaluate env d (Binary Op_add l r s e) st = Inr w"
    and "\<And>st w. evaluate env (d + 1) l st = Inr w \<Longrightarrow> charges st w"
    and "\<And>st w. evaluate env (d + 1) r st = Inr w \<Longrightarrow> charges st w"
  shows "charges st w"
proof -
  obtain v st' where w: "w = (v, st')" by fastforce
  from assms(1) obtain a b st1 where a: "evaluate env (d + 1) l st = Inr (a, st1)"
    and b: "evaluate env (d + 1) r st1 = Inr (b, st')" and v: "binary_value Op_add a b s = Inr v"
    unfolding w by (auto elim: evaluate_strict_binary)
  from assms(2) [OF a] assms(3) [OF b] obtain x y where st: "st1 = st" "st' = st"
    and x: "rv_value a = VNum x" "js_nonneg x" and y: "rv_value b = VNum y" "js_nonneg y"
    by (auto simp: charges_def)
  have "rv_value v = VNum (js_add x y)" using binary_number_value(2) [OF v x(1) y(1)] by simp
  moreover have "js_nonneg (js_add x y)" using js_nonneg_add x y by blast
  ultimately show ?thesis using st evaluate_finite [OF assms(1) [unfolded w]] by (simp add: charges_def w)
qed

lemma js_nonneg_max: "js_nonneg x \<Longrightarrow> y \<noteq> JNaN \<Longrightarrow> js_nonneg (js_max x y) \<and> js_nonneg (js_max y x)"
  by (cases x; cases y) (auto simp: js_max_def)

lemma zero_literal_value:
  assumes "is_zero_literal n" and "evaluate env d n st = Inr (v, st')"
  shows "st' = st \<and> (\<exists>x. rv_value v = VNum x \<and> js_nonneg x)"
  using assms evaluate_literal [of env d]
  by (fastforce simp: is_zero_literal_def js_num_eq_def js_nonneg_def
      split: expression_node.splits literal_value.splits)

lemma text_remainder_value:
  assumes "is_text_remainder n" and "evaluate env d n st = Inr (v, st')"
  shows "st' = st \<and> (\<exists>x. rv_value v = VNum x \<and> x \<noteq> JNaN)"
proof -
  obtain s1 e1 s2 e2 s e where n: "n = Binary Op_sub (Variable Var_len s1 e1) (Variable Var_ai s2 e2) s e"
    using assms(1) by (auto simp: is_text_remainder_def split: expression_node.splits binary_operator.splits token_variable.splits)
  from assms(2) obtain a b st1 where a: "evaluate env (d + 1) (Variable Var_len s1 e1) st = Inr (a, st1)"
    and b: "evaluate env (d + 1) (Variable Var_ai s2 e2) st1 = Inr (b, st')" and v: "binary_value Op_sub a b s = Inr v"
    unfolding n by (auto elim: evaluate_strict_binary)
  from evaluate_variable [OF a] evaluate_variable [OF b] obtain x y where
    "st1 = st" "st' = st" "rv_value a = VNum x" "rv_value b = VNum y" by auto
  moreover from this have "rv_value v = VNum (js_sub x y)" using binary_number_value(3) [OF v] by simp
  ultimately show ?thesis using evaluate_finite [OF assms(2)] by fastforce
qed

lemma price_input_charges:
  assumes "price_variable i = Some x" and "evaluate env d i st = Inr w"
  shows "charges st w"
proof -
  obtain v st' where w: "w = (v, st')" by fastforce
  from assms(1) consider (var) s e where "i = Variable x s e" "x \<noteq> Var_image_count"
    | (max) a b r s e where "i = Call Fn_max [a, b] s e" "max_remainder a b = Some r" "is_text_remainder r"
    by (auto simp: price_variable_def split: expression_node.splits billing_function.splits
        list.splits option.splits if_splits)
  then show ?thesis
  proof cases
    case var
    with assms(2) show ?thesis unfolding w var(1) by (auto simp: charges_def dest: evaluate_variable)
  next
    case max
    from assms(2) obtain u1 u2 st1 y z where u: "evaluate env (d + 1) a st = Inr (u1, st1)"
      "evaluate env (d + 1) b st1 = Inr (u2, st')" "rv_value u1 = VNum y" "rv_value u2 = VNum z"
      "rv_value v = VNum (js_max y z)"
      unfolding w max(1) evaluate_Inr [of env d]
      by (auto simp: rbind_eq_Inr takes_text_def is_time_function_def)
    have "is_zero_literal a \<and> is_text_remainder b \<or> is_zero_literal b \<and> is_text_remainder a"
      using max(2,3) by (auto simp: max_remainder_def split: if_splits)
    then have "st1 = st \<and> st' = st \<and> js_nonneg (js_max y z)"
      using u zero_literal_value [OF _ u(1)] zero_literal_value [OF _ u(2)]
        text_remainder_value [OF _ u(1)] text_remainder_value [OF _ u(2)] js_nonneg_max by fastforce
    with u evaluate_finite assms(2) show ?thesis unfolding charges_def w by fastforce
  qed
qed

lemma priced_charges:
  assumes "priced t" and "evaluate env d t st = Inr w"
  shows "charges st w"
proof -
  obtain l r s e i q x where t: "t = Binary Op_mul l r s e" and x: "price_variable i = Some x"
    and lr: "nonnegativePriceLiteral r = Some q \<and> i = l \<or> nonnegativePriceLiteral l = Some q \<and> i = r"
    using assms(1)
    by (auto simp: priced_def price_term_def split: expression_node.splits binary_operator.splits option.splits)
  show ?thesis
    by (rule product_charges [OF assms(2) [unfolded t]])
      (use lr x price_literal_charges price_input_charges in blast)+
qed

lemma priced_sum_charges:
  "\<forall>t \<in> set (flattenBinary n Op_add). priced t \<Longrightarrow> evaluate env d n st = Inr w \<Longrightarrow> charges st w"
proof (induction n Op_add arbitrary: d st w rule: flattenBinary.induct)
  case (1 p l r s e)
  show ?case
  proof (cases "p = Op_add")
    case True
    with "1.prems"(1) have "\<forall>t \<in> set (flattenBinary l Op_add). priced t" "\<forall>t \<in> set (flattenBinary r Op_add). priced t"
      by auto
    with "1.hyps" True show ?thesis by (intro sum_charges [OF "1.prems"(2) [unfolded True]]) blast+
  next
    case False
    with "1.prems" priced_charges show ?thesis by simp
  qed
qed (auto dest: priced_charges)

text \<open>
  \<open>charged_as t st v st'\<close>: an evaluation from \<open>st\<close> to \<open>st'\<close> with value \<open>v\<close> is what the tier \<open>t\<close>
  shows: its label is recorded, a fixed price is charged as such, and otherwise the amount is a
  number that is not negative.
\<close>

definition charged_as ::
  "token_tier \<Rightarrow> runtime_state \<Rightarrow> runtime_value \<Rightarrow> runtime_state \<Rightarrow> bool" where
  "charged_as t st v st' \<longleftrightarrow>
     rs_matched_tier st' = tt_label t
     \<and> (case tt_fixed_price t of
          Some x \<Rightarrow> rv_value v = VNum (js_mul x million) \<and> rs_unit st' = Unit_request
            \<and> rs_fixed_price st' = Some x
        | None \<Rightarrow> (\<exists>y. rv_value v = VNum y \<and> js_nonneg y) \<and> rs_unit st' = rs_unit st
            \<and> rs_fixed_price st' = rs_fixed_price st)"

lemma tokenTier_Some:
  assumes "tokenTier n cs = Some t"
  obtains l i s1 e1 body rest s e where
    "n = Call Fn_tier (Literal (L_string l) i s1 e1 # body # rest) s e"
    "tt_label t = l" "tt_conditions t = cs" "tt_condition_text t = None"
    "(\<exists>x. fixed_amount body = Some x \<and> tt_fixed_price t = Some x)
     \<or> tt_fixed_price t = None \<and> (\<forall>u \<in> set (flattenBinary body Op_add). priced u)"
  using assms
  by (auto simp: tokenTier_def dest: tier_prices_priced
      split: expression_node.splits billing_function.splits list.splits literal_value.splits
        option.splits if_splits)

lemma tokenTier_plain: "tokenTier n cs = Some t \<Longrightarrow> tt_condition_text t = None"
  by (auto elim: tokenTier_Some)

lemma evaluate_fixed:
  assumes "fixed_amount body = Some x" and "evaluate env d body st = Inr (v, st')"
  shows "rv_value v = VNum (js_mul x million)
    \<and> st' = st\<lparr>rs_unit := Unit_request, rs_fixed_price := Some x\<rparr>"
proof -
  obtain i s1 e1 rest s e where "body = Call Fn_fixed (Literal (L_number x) i s1 e1 # rest) s e"
    using assms(1)
    by (auto simp: fixed_amount_def split: expression_node.splits billing_function.splits
        list.splits literal_value.splits)
  with assms(2) show ?thesis
    unfolding evaluate_Inr [of env d]
    by (auto simp: rbind_eq_Inr takes_text_def is_time_function_def dest!: evaluate_literal)
qed

lemma tokenTier_charged:
  assumes "tokenTier n cs = Some t" and "evaluate env d n st = Inr (v, st')"
  shows "tt_conditions t = cs \<and> charged_as t st v st'"
proof -
  from assms(1) obtain l i s1 e1 body rest s e where
    n: "n = Call Fn_tier (Literal (L_string l) i s1 e1 # body # rest) s e"
    and t: "tt_label t = l" "tt_conditions t = cs"
    and body: "(\<exists>x. fixed_amount body = Some x \<and> tt_fixed_price t = Some x)
      \<or> tt_fixed_price t = None \<and> (\<forall>u \<in> set (flattenBinary body Op_add). priced u)"
    by (rule tokenTier_Some) blast
  from assms(2) obtain w st1 y where w: "evaluate env (d + 1) body st = Inr (w, st1)" "rv_value w = VNum y"
    and v: "rv_value v = VNum y" "st' = st1\<lparr>rs_matched_tier := l\<rparr>"
    unfolding n evaluate_Inr [of env d]
    by (auto simp: rbind_eq_Inr takes_text_def is_time_function_def dest!: evaluate_literal)
  show ?thesis
  proof (cases "tt_fixed_price t")
    case None
    with body priced_sum_charges [OF _ w(1)] w(2) v t show ?thesis
      by (auto simp: charged_as_def charges_def)
  next
    case (Some x)
    with body have "fixed_amount body = Some x" by simp
    from evaluate_fixed [OF this w(1)] w(2) v t Some show ?thesis by (simp add: charged_as_def)
  qed
qed

lemma evaluate_conditional:
  assumes "evaluate env d (Conditional c y n s e) st = Inr (v, st')"
  obtains w st1 b where "evaluate env (d + 1) c st = Inr (w, st1)" "rv_value w = VBool b"
    "evaluate env (d + 1) (if b then y else n) (mark_rule env (Conditional c y n s e) b st1) = Inr (v, st')"
proof -
  from assms have "evaluate_node env (d + 1) (Conditional c y n s e) st = Inr (v, st')"
    unfolding evaluate_Inr by blast
  with that show thesis by (auto simp: rbind_eq_Inr split: if_splits)
qed

lemma charged_as_mark [simp]: "charged_as t (mark_rule env n b st) v st' = charged_as t st v st'"
  by (simp add: charged_as_def split: option.split)

lemma tier_chain_charged:
  "tier_chain n = Some tiers \<Longrightarrow> evaluate env d n st = Inr (v, st') \<Longrightarrow>
   \<exists>t. selected_tier (env_context env) tiers = Some t \<and> charged_as t st v st'"
proof (induction n arbitrary: tiers d st v st' rule: tier_chain.induct)
  case (1 c y n s e)
  from "1.prems"(1) obtain cs t ts where cs: "tokenConditions c = Some cs" and t: "tokenTier y cs = Some t"
    and ts: "tier_chain n = Some ts" and tiers: "tiers = t # ts"
    by (auto split: option.splits)
  from "1.prems"(2) obtain w st1 b where w: "evaluate env (d + 1) c st = Inr (w, st1)" "rv_value w = VBool b"
    and br: "evaluate env (d + 1) (if b then y else n) (mark_rule env (Conditional c y n s e) b st1) = Inr (v, st')"
    by (rule evaluate_conditional)
  have b: "st1 = st" "b = list_all (condition_holds (env_context env)) cs"
    using evaluate_token_conditions [OF _ w(1), of cs] cs w(2)
    by (auto simp: tokenConditions_def those_map_iff)
  have t': "tt_conditions t = cs" using t by (auto elim: tokenTier_Some)
  show ?case
  proof (cases b)
    case True
    with br have "evaluate env (d + 1) y (mark_rule env (Conditional c y n s e) b st1) = Inr (v, st')" by simp
    from tokenTier_charged [OF t this] have "charged_as t st v st'" using b(1) by simp
    with True b t' show ?thesis by (simp add: tiers selected_tier_def tier_applies_def)
  next
    case False
    with br have "evaluate env (d + 1) n (mark_rule env (Conditional c y n s e) b st1) = Inr (v, st')" by simp
    from "1.IH" [OF cs t ts this] False b t' show ?thesis
      by (auto simp: tiers selected_tier_def tier_applies_def)
  qed
qed (auto simp: selected_tier_def tier_applies_def dest: tokenTier_charged)

text \<open>
  The same for the whole reader: the evaluated tier is one of those shown, and it is the selected
  one when the tiers are told apart by their conditions.
\<close>

definition shown_in :: "simulation_context \<Rightarrow> token_tier list \<Rightarrow> runtime_state \<Rightarrow> bool" where
  "shown_in context tiers st \<longleftrightarrow>
     (\<exists>t \<in> set tiers. rs_matched_tier st = tt_label t
        \<and> (list_all (\<lambda>u. tt_condition_text u = None) tiers \<longrightarrow> selected_tier context tiers = Some t))"

lemma selected_tier_in: "selected_tier context tiers = Some t \<Longrightarrow> t \<in> set tiers"
  by (auto simp: selected_tier_def find_Some_iff)

lemma selected_tier_image:
  "selected_tier context (map (\<lambda>t. t\<lparr>tt_image_count := True\<rparr>) ts)
     = map_option (\<lambda>t. t\<lparr>tt_image_count := True\<rparr>) (selected_tier context ts)"
  by (induction ts) (auto simp: selected_tier_def tier_applies_def)

lemma audio_tiers_shown:
  assumes "audio_tiers n = Some tiers" and "evaluate env d n st = Inr (v, st')"
  shows "shown_in context tiers st'"
proof -
  obtain c y m s e a t where n: "n = Conditional c y m s e" and a: "tokenTier y [] = Some a"
    and t: "tokenTier m [] = Some t"
    and tiers: "tiers = [a\<lparr>tt_condition_text := Some (js ''Audio requests'')\<rparr>,
      t\<lparr>tt_condition_text := Some (js ''Text-only requests'')\<rparr>]"
    using assms(1)
    by (auto simp: audio_tiers_def split: expression_node.splits binary_operator.splits option.splits if_splits)
  from assms(2) obtain w st1 b where
    "evaluate env (d + 1) (if b then y else m) (mark_rule env n b st1) = Inr (v, st')"
    unfolding n by (auto elim: evaluate_conditional)
  with tokenTier_charged [OF a, of env "d + 1"] tokenTier_charged [OF t, of env "d + 1"]
  show ?thesis by (cases b) (auto simp: tiers shown_in_def charged_as_def)
qed

lemma evaluate_image_count:
  "is_image_count n \<Longrightarrow> evaluate env d n st = Inr (v, st') \<Longrightarrow> st' = st"
  by (auto simp: is_image_count_def evaluate_Inr rbind_eq_Inr split: expression_node.splits token_variable.splits)

lemma readTokenTierChain_shown:
  "readTokenTierChain n = Some tiers \<Longrightarrow> evaluate env d n st = Inr (v, st') \<Longrightarrow>
   shown_in (env_context env) tiers st'"
proof (induction n arbitrary: tiers d st v st' rule: readTokenTierChain.induct)
  case (1 n)
  consider (audio) "audio_tiers n = Some tiers"
    | (image) m ts where "audio_tiers n = None" "image_pricing n = Some m" "readTokenTierChain m = Some ts"
        "tiers = map (\<lambda>t. t\<lparr>tt_image_count := True\<rparr>) ts"
    | (chain) "tier_chain n = Some tiers"
    using "1.prems"(1) by (subst (asm) readTokenTierChain.simps) (auto split: option.splits)
  then show ?case
  proof cases
    case audio
    with audio_tiers_shown "1.prems"(2) show ?thesis by blast
  next
    case image
    obtain l r s e where n: "n = Binary Op_mul l r s e"
      and lr: "is_image_count l \<and> m = r \<or> is_image_count r \<and> m = l"
      using image(2)
      by (auto simp: image_pricing_def split: expression_node.splits binary_operator.splits if_splits)
    from "1.prems"(2) obtain a b st1 where ab: "evaluate env (d + 1) l st = Inr (a, st1)"
      "evaluate env (d + 1) r st1 = Inr (b, st')"
      unfolding n by (auto elim: evaluate_strict_binary)
    obtain d' st0 u where "evaluate env d' m st0 = Inr (u, st')"
      using lr ab evaluate_image_count by blast
    from "1.IH" [OF image(1,2,3) this] show ?thesis
      by (auto simp: shown_in_def image(4) selected_tier_image list_all_iff)
  next
    case chain
    have plain: "list_all (\<lambda>u. tt_condition_text u = None) tiers"
      using chain
      by (induction n arbitrary: tiers rule: tier_chain.induct)
        (auto split: option.splits dest: tokenTier_plain)
    from tier_chain_charged [OF chain "1.prems"(2)] plain show ?thesis
      by (auto simp: shown_in_def charged_as_def dest: selected_tier_in)
  qed
qed

subsection \<open>What the time tiers mean\<close>

lemma isTimeCondition_Inr:
  "isTimeCondition n = Inr True \<Longrightarrow>
     tree_variables n = {} \<and> (\<forall>f \<in> tree_functions n. is_time_function f \<or> f \<in> time_math)"
  by (auto simp: isTimeCondition_def rbind_eq_Inr expressionDependencies_Inr)

lemma isTimeCondition_depth: "node_depth n \<le> 256 \<Longrightarrow> \<exists>b. isTimeCondition n = Inr b"
  by (auto simp: isTimeCondition_def rbind_eq_Inr expressionDependencies_Inr)

lemma time_condition_decided:
  assumes env: "new_runtime intl clock c context = Inr (env, st0)" and now: "ctx_now context = Some t"
    and n: "isTimeCondition n = Inr True"
    and e: "evaluate env d n st = Inr (v, st')" "rv_value v = VBool b" and ok: "times_ok env st"
  shows "evaluateBillingCondition intl c n t = Some b"
proof -
  obtain env0 where 0: "new_runtime intl t c (empty_context\<lparr>ctx_now := Some t\<rparr>) = Inr (env0, initial_state c)"
    by (auto simp: new_runtime_Inr context_headers_def empty_context_def)
  have "evals env 0 n v" using evaluate_value [OF e(1) ok] by simp
  then obtain st1 where "evaluate env 0 n (initial_state c) = Inr (v, st1)"
    using initial_state_ok(3) by (rule evalsE)
  moreover have "context_extends n env env0"
  proof -
    have "tree_variables n = {}" "tree_functions n \<inter> {Fn_param, Fn_header} = {}" "Fn_u \<notin> tree_functions n"
      using isTimeCondition_Inr [OF n] by (auto simp: is_time_function_def time_math_def)
    with env 0 now show ?thesis by (auto simp: context_extends_def new_runtime_Inr)
  qed
  ultimately have "evaluate env0 0 n (initial_state c) = Inr (v, st1)" by (rule evaluate_extends [rotated])
  with 0 e(2) show ?thesis by (simp add: evaluateBillingCondition_def)
qed

lemma both_branches_Some:
  "both_branches ys ns = Some xs \<longleftrightarrow> (\<exists>as bs. ys = Some as \<and> ns = Some bs \<and> xs = as @ bs)"
  by (auto simp: both_branches_def split: option.splits)

lemma time_leaf_shown:
  assumes "time_leaf source n path = Some tiers" and "evaluate env d n st = Inr (v, st')"
    and "path_matches intl c t path"
  shows "\<exists>x \<in> set tiers. path_matches intl c t (tm_path x) \<and> rs_matched_tier st' = tt_label (tm_tier x)"
proof -
  obtain ts where "readTokenTierChain n = Some ts" "tiers = map (time_tier source path) ts"
    using assms(1) by (auto simp: time_leaf_def split: option.splits if_splits)
  with readTokenTierChain_shown assms(2,3) show ?thesis
    by (fastforce simp: shown_in_def time_tier_def)
qed

lemma timeTierBranches_shown:
  assumes env: "new_runtime intl clock c context = Inr (env, st0)" and now: "ctx_now context = Some t"
  shows "timeTierBranches source n path = Inr (Some tiers) \<Longrightarrow> evaluate env d n st = Inr (v, st') \<Longrightarrow>
    times_ok env st \<Longrightarrow> path_matches intl c t path \<Longrightarrow>
    \<exists>x \<in> set tiers. path_matches intl c t (tm_path x) \<and> rs_matched_tier st' = tt_label (tm_tier x)"
proof (induction source n path arbitrary: tiers d st v st' rule: timeTierBranches.induct)
  case (1 source cnd y n s e path)
  obtain timed where timed: "isTimeCondition cnd = Inr timed"
    using "1.prems"(1) by (auto simp: rbind_eq_Inr)
  show ?case
  proof (cases timed)
    case False
    with "1.prems"(1) timed have "time_leaf source (Conditional cnd y n s e) path = Some tiers" by simp
    from time_leaf_shown [OF this "1.prems"(2,4)] show ?thesis .
  next
    case True
    with "1.prems"(1) timed obtain as bs where
      ab: "timeTierBranches source y (path @ [(cnd, True)]) = Inr (Some as)"
        "timeTierBranches source n (path @ [(cnd, False)]) = Inr (Some bs)" and tiers: "tiers = as @ bs"
      by (auto simp: rbind_eq_Inr both_branches_Some)
    from "1.prems"(2) obtain w st1 b where w: "evaluate env (d + 1) cnd st = Inr (w, st1)" "rv_value w = VBool b"
      and br: "evaluate env (d + 1) (if b then y else n) (mark_rule env (Conditional cnd y n s e) b st1) = Inr (v, st')"
      by (rule evaluate_conditional)
    have dec: "evaluateBillingCondition intl c cnd t = Some b"
      by (rule time_condition_decided [OF env now _ w "1.prems"(3)]) (use timed True in simp)
    have ok: "times_ok env st1" using times.evaluate_invar [OF w(1)] "1.prems"(3) .
    have path: "path_matches intl c t (path @ [(cnd, b)])" using "1.prems"(4) dec by (simp add: path_matches_def)
    let ?st = "mark_rule env (Conditional cnd y n s e) b st1"
    have ok': "times_ok env ?st" using ok by simp
    show ?thesis
    proof (cases b)
      case True
      from \<open>timed\<close> timed have td: "isTimeCondition cnd = Inr timed" timed by auto
      have "evaluate env (d + 1) y ?st = Inr (v, st')" using br True by simp
      from "1.IH"(1) [OF td ab(1) this ok'] path True show ?thesis by (auto simp: tiers)
    next
      case False
      from \<open>timed\<close> timed have td: "isTimeCondition cnd = Inr timed" timed by auto
      have "evaluate env (d + 1) n ?st = Inr (v, st')" using br False by simp
      from "1.IH"(2) [OF td ab(1) ab(2) this ok'] path False show ?thesis by (auto simp: tiers)
    qed
  qed
qed (auto dest: time_leaf_shown)

lemma timeTierBranches_total: "node_depth n \<le> 256 \<Longrightarrow> \<exists>r. timeTierBranches source n path = Inr r"
proof (induction source n path rule: timeTierBranches.induct)
  case (1 source c y n s e path)
  obtain b where b: "isTimeCondition c = Inr b" using isTimeCondition_depth "1.prems" by fastforce
  from "1.prems" have dp: "node_depth y \<le> 256" "node_depth n \<le> 256" by auto
  show ?case
  proof (cases b)
    case True
    with "1.IH"(1) [OF b _ dp(1)] "1.IH"(2) [OF b _ _ dp(2)] b show ?thesis
      by (fastforce simp: rbind_eq_Inr)
  qed (simp add: b)
qed auto

subsection \<open>Properties\<close>



text \<open>
  C11: the list of current tiers contains the charged one. If the prices of an expression depend on
  the time, and a simulation at a given time succeeds, then the tier that is charged is among the
  tiers that \<open>readTimeTokenPricing\<close> reports as current for that time.
\<close>

theorem current_tiers_complete:
  assumes "readTimeTokenPricing intl source (Some t) = Inr (Some (tiers, active))"
    and "compile_expression source = Ready c" and "ctx_now context = Some t"
    and "evaluate_steps intl clock c context = Inr r"
  shows "\<exists>x \<in> set active. ev_matched_tier r = tt_label (tm_tier x)"
proof -
  from assms(4) obtain env v x st where
    env: "new_runtime intl clock c context = Inr (env, initial_state c)" and
    e: "evaluate env 0 (comp_ast c) (initial_state c) = Inr (v, st)" and
    r: "ev_matched_tier r = rs_matched_tier st"
    by (rule evaluate_steps_Inr) blast
  have b: "timeTierBranches (comp_source c) (comp_ast c) [] = Inr (Some tiers)"
    and cur: "active = filter (\<lambda>x. path_matches intl c t (tm_path x)) tiers"
    using assms(1,2) by (auto simp: readTimeTokenPricing_def rbind_eq_Inr)
  have "path_matches intl c t []" by (simp add: path_matches_def)
  from timeTierBranches_shown [OF env assms(3) b e initial_state_ok(3) this] r cur
  show ?thesis by auto
qed

theorem current_tiers_complete_witness:
  "\<exists>tiers active c r. readTimeTokenPricing (\<lambda>_. None)
      (js ''hour(\"UTC\") < 12 ? tier(\"a\", p * 2) : tier(\"b\", p * 3)'') (Some (Some 0)) = Inr (Some (tiers, active))
     \<and> evaluate_steps (\<lambda>_. None) None c (sample_context\<lparr>ctx_now := Some (Some 0)\<rparr>) = Inr r
     \<and> (\<exists>x \<in> set active. ev_matched_tier r = tt_label (tm_tier x))"
proof -
  let ?src = "js ''hour(\"UTC\") < 12 ? tier(\"a\", p * 2) : tier(\"b\", p * 3)''"
  let ?ctx = "sample_context\<lparr>ctx_now := Some (Some 0)\<rparr>"
  have sample: "case compile_expression ?src of
      Ready c \<Rightarrow> result_summary (evaluate_compilation (\<lambda>_. None) None (Ready c) ?ctx) = Some (JFin 6, js ''a'')
        \<and> (case timeTierBranches (comp_source c) (comp_ast c) [] of
             Inr (Some ts) \<Rightarrow> length ts = 2 | _ \<Rightarrow> False)
    | Compile_failed _ \<Rightarrow> False"
    by code_simp
  then obtain c where c: "compile_expression ?src = Ready c" by (auto split: compilation_result.splits)
  from sample c obtain r where r: "evaluate_steps (\<lambda>_. None) None c ?ctx = Inr r"
    by (auto elim: result_summary_Some)
  from sample c obtain ts where "timeTierBranches (comp_source c) (comp_ast c) [] = Inr (Some ts)"
    by (auto split: sum.splits option.splits)
  then obtain tiers active where p: "readTimeTokenPricing (\<lambda>_. None) ?src (Some (Some 0)) = Inr (Some (tiers, active))"
    using c by (simp add: readTimeTokenPricing_def)
  have "ctx_now ?ctx = Some (Some 0)" by simp
  from current_tiers_complete [OF p c this r] p r show ?thesis by blast
qed

text \<open>
  Reading the time tiers never throws: for every text the answer is a table or none.
\<close>

theorem readTimeTokenPricing_total: "\<exists>answer. readTimeTokenPricing intl source now = Inr answer"
proof (cases "compile_expression source")
  case (Ready c)
  then have "node_depth (comp_ast c) \<le> 256"
    using compile_steps_InrD(4) compile_expression_Ready by blast
  with timeTierBranches_total Ready show ?thesis by (fastforce simp: readTimeTokenPricing_def rbind_eq_Inr)
qed (simp add: readTimeTokenPricing_def)

end
