(* ===== verification/Js_Collections.thy ===== *)
theory Js_Collections
  imports Js_Number "HOL-Library.Multiset" "HOL-Library.AList"
begin

section \<open>Sorted arrays and maps that tally\<close>

text \<open>
  \<open>Array.prototype.sort\<close>, which is stable, with a comparison given as \<open>le\<close> (its result is not
  positive), and the idiom by which the client groups rows: a \<open>Map\<close>, kept in insertion order, whose
  entry of a key is created on the first row of the key and then changed by every row. The locale
  \<open>tally\<close> states what such a map holds when the entries add up an amount.
\<close>

subsection \<open>Sorting with a comparison\<close>

fun insort_by :: "('a \<Rightarrow> 'a \<Rightarrow> bool) \<Rightarrow> 'a \<Rightarrow> 'a list \<Rightarrow> 'a list" where
  "insort_by le x [] = [x]"
| "insort_by le x (y # ys) = (if le x y then x # y # ys else y # insort_by le x ys)"

definition sort_by :: "('a \<Rightarrow> 'a \<Rightarrow> bool) \<Rightarrow> 'a list \<Rightarrow> 'a list" where
  "sort_by le xs = foldr (insort_by le) xs []"

lemma mset_insort_by: "mset (insort_by le x xs) = add_mset x (mset xs)"
  by (induction xs) auto

lemma mset_sort_by [simp]: "mset (sort_by le xs) = mset xs"
  unfolding sort_by_def by (induction xs) (auto simp: mset_insort_by)

lemma set_sort_by [simp]: "set (sort_by le xs) = set xs"
  by (metis mset_sort_by set_mset_mset)

lemma distinct_sort_by: "distinct (map f (sort_by le xs)) = distinct (map f xs)"
  by (metis mset_eq_imp_distinct_iff mset_map mset_sort_by)

lemma sum_list_sort_by: "sum_list (map (f :: 'a \<Rightarrow> 'b :: comm_monoid_add) (sort_by le xs)) = sum_list (map f xs)"
  by (metis mset_map mset_sort_by sum_mset_sum_list)

lemma sum_list_filter_sort_by:
  "sum_list (map (f :: 'a \<Rightarrow> 'b :: comm_monoid_add) (filter P (sort_by le xs))) = sum_list (map f (filter P xs))"
  by (metis mset_filter mset_map mset_sort_by sum_mset_sum_list)

text \<open>The sign of a difference, as a comparison function returns it, and \<open>a || b\<close> on signs.\<close>

fun js_signum :: "jsnum \<Rightarrow> int" where
  "js_signum JNaN = 0"
| "js_signum (JInf neg) = (if neg then - 1 else 1)"
| "js_signum JNegZero = 0"
| "js_signum (JFin q) = (if q < 0 then - 1 else if q = 0 then 0 else 1)"

definition or_sign :: "int \<Rightarrow> int \<Rightarrow> int" where
  "or_sign a b = (if a = 0 then b else a)"

definition js_sort :: "('a \<Rightarrow> 'a \<Rightarrow> int) \<Rightarrow> 'a list \<Rightarrow> 'a list" where
  "js_sort cmp xs = sort_by (\<lambda>a b. cmp a b \<le> 0) xs"

lemma js_sort_simps [simp]:
  "mset (js_sort cmp xs) = mset xs" "set (js_sort cmp xs) = set xs"
  by (simp_all add: js_sort_def)

lemmas sum_list_js_sort = sum_list_sort_by [of _ "\<lambda>a b. cmp a b \<le> 0" for cmp, folded js_sort_def]
  sum_list_filter_sort_by [of _ _ "\<lambda>a b. cmp a b \<le> 0" for cmp, folded js_sort_def]

subsection \<open>Maps\<close>

text \<open>\<open>const v = map.get(k) ?? fresh; change v; map.set(k, v)\<close>\<close>

definition bump :: "'k \<Rightarrow> 'v \<Rightarrow> ('v \<Rightarrow> 'v) \<Rightarrow> ('k \<times> 'v) list \<Rightarrow> ('k \<times> 'v) list" where
  "bump k fresh change m =
     AList.update k (change (case map_of m k of Some v \<Rightarrow> v | None \<Rightarrow> fresh)) m"

lemma map_of_bump [simp]:
  "map_of (bump k fresh change m) =
     (map_of m)(k \<mapsto> change (case map_of m k of Some v \<Rightarrow> v | None \<Rightarrow> fresh))"
  by (simp add: bump_def update_conv')

lemma keys_bump [simp]: "fst ` set (bump k fresh change m) = insert k (fst ` set m)"
  by (simp add: bump_def dom_update)

lemma distinct_bump [simp]: "distinct (map fst m) \<Longrightarrow> distinct (map fst (bump k fresh change m))"
  by (simp add: bump_def distinct_update)

lemma sum_map_entries:
  "distinct (map fst m) \<Longrightarrow> (\<Sum>p\<leftarrow>m. f (fst p) (snd p)) = (\<Sum>k\<in>fst ` set m. f k (the (map_of m k)))"
  for f :: "'k \<Rightarrow> 'v \<Rightarrow> 'c :: comm_monoid_add"
proof (induction m)
  case (Cons p m)
  then have p: "fst p \<notin> fst ` set m" by simp
  have "(\<Sum>k\<in>fst ` set m. f k (the (map_of (p # m) k))) = (\<Sum>k\<in>fst ` set m. f k (the (map_of m k)))"
    using p by (intro sum.cong) (force simp: image_iff)+
  with Cons p show ?case by (cases p) simp
qed simp

subsection \<open>Tallies\<close>

text \<open>
  A map built from a list of events. An event \<open>e\<close> goes to the entry of \<open>key e\<close>, created as \<open>fresh e\<close> and
  changed by \<open>add e\<close>; \<open>amount\<close> is the number that is added up. Adding is exact as long as the amount stays
  below \<open>bound\<close>, which for doubles is the range of the safe integers.
\<close>

locale tally =
  fixes key :: "'e \<Rightarrow> 'k" and fresh :: "'e \<Rightarrow> 'v" and add :: "'e \<Rightarrow> 'v \<Rightarrow> 'v"
    and amount :: "'v \<Rightarrow> jsnum" and weight :: "'e \<Rightarrow> int" and valid :: "'e \<Rightarrow> bool" and bound :: int
  assumes fresh_amount: "amount (fresh e) = JFin 0"
    and add_amount: "valid e \<Longrightarrow> amount v = JFin (of_int n) \<Longrightarrow> 0 \<le> n \<Longrightarrow> n + weight e < bound \<Longrightarrow>
      amount (add e v) = JFin (of_int (n + weight e))"
    and weight_nonneg: "valid e \<Longrightarrow> 0 \<le> weight e"
begin

definition tally_of :: "'e list \<Rightarrow> ('k \<times> 'v) list" where
  "tally_of es = fold (\<lambda>e m. bump (key e) (fresh e) (add e) m) es []"

definition total :: "'k \<Rightarrow> 'e list \<Rightarrow> int" where
  "total k es = sum_list (map weight (filter (\<lambda>e. key e = k) es))"

lemma tally_snoc: "tally_of (es @ [e]) = bump (key e) (fresh e) (add e) (tally_of es)"
  by (simp add: tally_of_def)

lemma tally_keys: "fst ` set (tally_of es) = key ` set es"
  by (induction es rule: rev_induct) (simp_all add: tally_snoc tally_of_def)

lemma tally_distinct: "distinct (map fst (tally_of es))"
  by (induction es rule: rev_induct) (simp_all add: tally_snoc tally_of_def)

lemma total_simps: "total k [] = 0" "total k (es @ [e]) = total k es + (if key e = k then weight e else 0)"
  by (simp_all add: total_def)

lemma total_nonneg: "list_all valid es \<Longrightarrow> 0 \<le> total k es"
  by (induction es rule: rev_induct) (auto simp: total_simps intro: add_nonneg_nonneg weight_nonneg)

lemma tally_amount:
  assumes "list_all valid es" and "\<And>k. total k es < bound" and "k \<in> key ` set es"
  shows "\<exists>v. map_of (tally_of es) k = Some v \<and> amount v = JFin (of_int (total k es))"
  using assms
proof (induction es arbitrary: k rule: rev_induct)
  case (snoc e es)
  have below: "total j es < bound" for j
    using snoc.prems(2) [of j] weight_nonneg [of e] snoc.prems(1) by (simp add: total_simps split: if_splits)
  show ?case
  proof (cases "k = key e")
    case True
    define v where "v = (case map_of (tally_of es) k of Some v \<Rightarrow> v | None \<Rightarrow> fresh e)"
    have "amount v = JFin (of_int (total k es))"
    proof (cases "k \<in> key ` set es")
      case True
      then show ?thesis using snoc.IH [OF _ below True] snoc.prems(1) by (auto simp: v_def)
    next
      case False
      then have "map_of (tally_of es) k = None" by (simp add: map_of_eq_None_iff tally_keys)
      moreover have "total k es = 0" using False by (induction es) (auto simp: total_def)
      ultimately show ?thesis by (simp add: v_def fresh_amount)
    qed
    moreover have "total k es + weight e < bound" using snoc.prems(2) [of k] True by (simp add: total_simps)
    ultimately have "amount (add e v) = JFin (of_int (total k es + weight e))"
      using snoc.prems(1) total_nonneg [of es k] by (intro add_amount) auto
    then show ?thesis using True by (simp add: tally_snoc v_def total_simps)
  next
    case False
    then have "k \<in> key ` set es" using snoc.prems(3) by auto
    then show ?thesis using snoc.IH [OF _ below] snoc.prems(1) False by (simp add: tally_snoc total_simps)
  qed
qed simp

text \<open>What adding does not change comes from the event that created the entry.\<close>

lemma tally_attr:
  assumes "\<And>e v. attr (add e v) = attr v" and "map_of (tally_of es) k = Some v"
  shows "\<exists>e \<in> set es. key e = k \<and> attr v = attr (fresh e)"
  using assms(2)
proof (induction es arbitrary: v rule: rev_induct)
  case (snoc e es)
  show ?case
  proof (cases "k = key e")
    case True
    then have "attr v = attr (case map_of (tally_of es) k of Some w \<Rightarrow> w | None \<Rightarrow> fresh e)"
      using snoc.prems assms(1) by (auto simp: tally_snoc)
    then show ?thesis using snoc.IH True by (cases "map_of (tally_of es) k") auto
  next
    case False
    then show ?thesis using snoc by (auto simp: tally_snoc)
  qed
qed (simp add: tally_of_def)

text \<open>The amounts of the entries whose key is accepted add up to the weights of their events.\<close>

lemma tally_sum:
  assumes "list_all valid es" and "\<And>k. total k es < bound"
  shows "(\<Sum>p\<leftarrow>filter (\<lambda>p. P (fst p)) (tally_of es). js_val (amount (snd p)))
    = of_int (sum_list (map weight (filter (\<lambda>e. P (key e)) es)))"
proof -
  let ?m = "filter (\<lambda>p. P (fst p)) (tally_of es)"
  have d: "distinct (map fst ?m)" by (simp add: tally_distinct distinct_map_filter)
  have "(\<Sum>p\<leftarrow>?m. js_val (amount (snd p))) = (\<Sum>p\<leftarrow>?m. of_int (total (fst p) es))"
  proof (intro arg_cong [where f = sum_list] map_cong refl)
    fix p assume p: "p \<in> set ?m"
    then have "fst p \<in> key ` set es" using tally_keys [of es] by auto
    moreover have "map_of (tally_of es) (fst p) = Some (snd p)" using p tally_distinct [of es] by auto
    ultimately show "js_val (amount (snd p)) = of_int (total (fst p) es)"
      using tally_amount [OF assms] by force
  qed
  also have "\<dots> = of_int (\<Sum>k\<in>fst ` set ?m. total k es)"
    using sum_map_entries [OF d, of "\<lambda>k v. of_int (total k es)"] by (simp add: of_int_sum)
  also have "(\<Sum>k\<in>fst ` set ?m. total k es) = sum_list (map weight (filter (\<lambda>e. P (key e)) es))"
  proof -
    have "fst ` set ?m = {k \<in> fst ` set (tally_of es). P k}" by auto
    then have "fst ` set ?m = {k \<in> key ` set es. P k}" by (simp only: tally_keys)
    moreover have "finite K \<Longrightarrow> key ` set fs \<subseteq> K \<Longrightarrow>
        (\<Sum>k\<in>{k \<in> K. P k}. total k fs) = sum_list (map weight (filter (\<lambda>e. P (key e)) fs))" for K fs
      by (induction fs rule: rev_induct) (auto simp: total_simps sum.distrib sum.If_cases)
    ultimately show ?thesis by simp
  qed
  finally show ?thesis .
qed

end

end
