(* ===== verification/Condition_Display.thy ===== *)
theory Condition_Display
  imports Billing_Display Js_Collections
begin

section \<open>Conditions in words\<close>

text \<open>
  \<open>features/pricing/lib/billing-expression/condition-display.ts\<close>: the condition of a price tier as a text
  for people. Comparisons of one time function in one zone are drawn together into a range.
  Parameters, gathered in \<open>words_env\<close>: the translation function, the short names of the days of the
  week (\<open>Intl.DateTimeFormat\<close>), numbers in a locale, and canonical locale names.
\<close>

subsection \<open>Locales\<close>

record words_env =
  we_t :: "jsstring \<Rightarrow> (jsstring \<times> jsval) list \<Rightarrow> jsstring"
  we_weekday :: "jsstring \<Rightarrow> int \<Rightarrow> jsstring"
  we_number :: "jsstring \<Rightarrow> jsnum \<Rightarrow> jsstring"
  we_canonical :: "jsstring \<Rightarrow> jsstring option"

definition toIntlLocale :: "words_env \<Rightarrow> jsstring option \<Rightarrow> jsstring option" where
  "toIntlLocale env code =
     (case code of
        None \<Rightarrow> None
      | Some s \<Rightarrow>
          if s = [] then None
          else if s = js ''zhCN'' then Some (js ''zh-CN'')
          else if s = js ''zhTW'' then Some (js ''zh-TW'')
          else we_canonical env s)"

definition DEFAULT_INTL_LOCALE :: jsstring where
  "DEFAULT_INTL_LOCALE = js ''zh-CN''"

definition resolveIntlLocale :: "words_env \<Rightarrow> jsstring option \<Rightarrow> jsstring" where
  "resolveIntlLocale env code = (case toIntlLocale env code of Some l \<Rightarrow> l | None \<Rightarrow> DEFAULT_INTL_LOCALE)"

subsection \<open>Descriptions\<close>

datatype description_kind = D_calendar | D_clock | D_combined

record description =
  ds_text :: jsstring
  ds_kind :: description_kind
  ds_timezone :: jsstring
  ds_disjunction :: bool

record time_comparison =
  cp_name :: time_function
  cp_timezone :: jsstring
  cp_operator :: binary_operator
  cp_value :: jsnum

primrec DOMAINS :: "time_function \<Rightarrow> int \<times> int" where
  "DOMAINS Hour = (0, 24)"
| "DOMAINS Minute = (0, 60)"
| "DOMAINS Weekday = (0, 7)"
| "DOMAINS Month = (1, 13)"
| "DOMAINS Day = (1, 32)"

definition timeComparison :: "expression_node \<Rightarrow> time_comparison option" where
  "timeComparison node =
     (case node of
        Binary op (Call (Fn_time f) (Literal (L_string zone) _ _ _ # _) _ _) (Literal (L_number x) _ _ _) _ _ \<Rightarrow>
          if op \<in> {Op_eq, Op_ge, Op_gt, Op_le, Op_lt} \<and> js_is_integer x
          then Some \<lparr>cp_name = f, cp_timezone = (if js_trim zone = [] then js ''UTC'' else js_trim zone),
                     cp_operator = op, cp_value = x\<rparr>
          else None
      | _ \<Rightarrow> None)"

text \<open>One comparison narrows the range.\<close>

definition narrow :: "time_comparison \<Rightarrow> jsnum \<times> jsnum \<Rightarrow> jsnum \<times> jsnum" where
  "narrow c r =
     (let x = cp_value c in
      case cp_operator c of
        Op_ge \<Rightarrow> (js_max (fst r) x, snd r)
      | Op_gt \<Rightarrow> (js_max (fst r) (js_add x (JFin 1)), snd r)
      | Op_lt \<Rightarrow> (fst r, js_min (snd r) x)
      | Op_le \<Rightarrow> (fst r, js_min (snd r) (js_add x (JFin 1)))
      | Op_eq \<Rightarrow> (js_max (fst r) x, js_min (snd r) (js_add x (JFin 1)))
      | _ \<Rightarrow> r)"

definition domain_range :: "time_function \<Rightarrow> jsnum \<times> jsnum" where
  "domain_range f = (JFin (of_int (fst (DOMAINS f))), JFin (of_int (snd (DOMAINS f))))"

definition time_range :: "time_function \<Rightarrow> time_comparison list \<Rightarrow> jsnum \<times> jsnum" where
  "time_range f cs = fold narrow cs (domain_range f)"

text \<open>\<open>padStart(2, '0')\<close>\<close>

definition pad2 :: "jsstring \<Rightarrow> jsstring" where
  "pad2 s = replicate (2 - length s) 48 @ s"

definition range_words :: "words_env \<Rightarrow> jsval \<Rightarrow> jsval \<Rightarrow> jsstring" where
  "range_words env a b =
     we_t env (js ''{{start}}'' @ [8211] @ js ''{{end}}'') [(js ''start'', a), (js ''end'', b)]"

definition hour_text :: "jsnum \<Rightarrow> jsstring" where
  "hour_text x = pad2 (js_number_text x) @ js '':00''"

definition calendar_label :: "time_function \<Rightarrow> jsstring" where
  "calendar_label f = (case f of Minute \<Rightarrow> js ''Minute'' | Month \<Rightarrow> js ''Month'' | _ \<Rightarrow> js ''Day'')"

definition weekday_words :: "words_env \<Rightarrow> jsstring \<Rightarrow> jsnum \<Rightarrow> jsnum \<Rightarrow> jsstring" where
  "weekday_words env locale start stop =
     (let day = (\<lambda>x. we_weekday env (resolveIntlLocale env (Some locale)) \<lfloor>js_val x\<rfloor>);
          last = js_sub stop (JFin 1) in
      if js_num_eq start last then day start else range_words env (VStr (day start)) (VStr (day last)))"

definition calendar_words :: "words_env \<Rightarrow> time_function \<Rightarrow> jsnum \<Rightarrow> jsnum \<Rightarrow> jsstring" where
  "calendar_words env f start stop =
     (let last = js_sub stop (JFin 1) in
      we_t env (calendar_label f) [] @ js '': ''
        @ (if js_num_eq start last then js_number_text start else range_words env (VNum start) (VNum last)))"

definition describeTimeRange ::
  "words_env \<Rightarrow> jsstring \<Rightarrow> time_comparison \<Rightarrow> time_comparison list \<Rightarrow> description option" where
  "describeTimeRange env locale first cs =
     (let f = cp_name first; (start, stop) = time_range f (first # cs) in
      if js_le stop start then None
      else Some
        \<lparr>ds_text = (case f of
             Hour \<Rightarrow> range_words env (VStr (hour_text start)) (VStr (hour_text stop))
           | Weekday \<Rightarrow> weekday_words env locale start stop
           | _ \<Rightarrow> calendar_words env f start stop),
         ds_kind = (if f = Hour then D_clock else D_calendar), ds_timezone = cp_timezone first,
         ds_disjunction = False\<rparr>)"

definition variable_label :: "token_variable \<Rightarrow> jsstring option" where
  "variable_label x =
     (if x = Var_p then Some (js ''Input'') else if x = Var_c then Some (js ''Output'')
      else if x = Var_len then Some (js ''Full input length'') else None)"

text \<open>A token count compared with a number.\<close>

definition count_words :: "words_env \<Rightarrow> jsstring \<Rightarrow> expression_node \<Rightarrow> description option option" where
  "count_words env locale node =
     (case node of
        Binary op (Variable x _ _) (Literal (L_number n) _ _ _) _ _ \<Rightarrow>
          if op \<in> {Op_lt, Op_le, Op_gt, Op_ge, Op_eq, Op_ne}
          then Some (map_option (\<lambda>label.
                 \<lparr>ds_text = we_t env label [] @ js '' '' @ operator_name op @ js '' ''
                    @ we_number env (resolveIntlLocale env (Some locale)) n,
                  ds_kind = D_combined, ds_timezone = [], ds_disjunction = False\<rparr>) (variable_label x))
          else None
      | _ \<Rightarrow> None)"

text \<open>The comparisons grouped by function and zone, in the order of their first members.\<close>

definition group_comparisons :: "time_comparison list \<Rightarrow> time_comparison list list" where
  "group_comparisons cs =
     map snd (fold (\<lambda>c. bump (cp_name c, cp_timezone c) [] (\<lambda>group. group @ [c])) cs [])"

definition describe_group :: "words_env \<Rightarrow> jsstring \<Rightarrow> time_comparison list \<Rightarrow> description option" where
  "describe_group env locale cs = (case cs of [] \<Rightarrow> None | c # cs \<Rightarrow> describeTimeRange env locale c cs)"

definition in_parens :: "bool \<Rightarrow> description \<Rightarrow> jsstring" where
  "in_parens is_and d = (if is_and \<and> ds_disjunction d then [40] @ ds_text d @ [41] else ds_text d)"

definition joined_words :: "words_env \<Rightarrow> bool \<Rightarrow> description list \<Rightarrow> jsstring" where
  "joined_words env is_and parts =
     (case parts of
        [] \<Rightarrow> []
      | d # ds \<Rightarrow>
          fold (\<lambda>d text. we_t env (if is_and then js ''{{first}} and {{second}}'' else js ''{{first}} or {{second}}'')
                 [(js ''first'', VStr text), (js ''second'', VStr (in_parens is_and d))]) ds (in_parens is_and d))"

definition combine_parts :: "words_env \<Rightarrow> bool \<Rightarrow> description list \<Rightarrow> description option" where
  "combine_parts env is_and parts =
     (let zones = js_unique (nonempty_texts (map ds_timezone parts));
          calendars = filter (\<lambda>d. ds_kind d = D_calendar) parts;
          clocks = filter (\<lambda>d. ds_kind d = D_clock) parts in
      if parts = [] \<or> length zones > 1 then None
      else if length parts = 1 then Some (hd parts)
      else if is_and \<and> length parts = 2 \<and> length calendars = 1 \<and> length clocks = 1
      then Some \<lparr>ds_text = ds_text (hd calendars) @ js '' '' @ ds_text (hd clocks), ds_kind = D_combined,
                 ds_timezone = ds_timezone (hd parts), ds_disjunction = False\<rparr>
      else Some \<lparr>ds_text = joined_words env is_and parts,
                 ds_kind = (if length clocks = length parts then D_clock else D_combined),
                 ds_timezone = (if zones = [] then [] else hd zones), ds_disjunction = \<not> is_and\<rparr>)"

lemma flatten_size: "part \<in> set (flattenBinary node op) \<Longrightarrow> size part \<le> size node"
  by (induction node op rule: flattenBinary.induct) (auto split: if_splits)

function describeBillingCondition :: "words_env \<Rightarrow> jsstring \<Rightarrow> expression_node \<Rightarrow> description option" where
  "describeBillingCondition env locale node =
     (case node of
        Unary Op_not operand _ _ \<Rightarrow>
          map_option (\<lambda>d. d\<lparr>ds_text := we_t env (js ''Outside these times: {{condition}}'')
                                [(js ''condition'', VStr (ds_text d))], ds_kind := D_combined\<rparr>)
            (describeBillingCondition env locale operand)
      | _ \<Rightarrow>
          (case count_words env locale node of
             Some d \<Rightarrow> d
           | None \<Rightarrow>
               (case timeComparison node of
                  Some c \<Rightarrow> describeTimeRange env locale c []
                | None \<Rightarrow>
                    (case node of
                       Binary op left right _ _ \<Rightarrow>
                         if op \<noteq> Op_and \<and> op \<noteq> Op_or then None
                         else (let nodes = flattenBinary left op @ flattenBinary right op;
                                   is_and = (op = Op_and);
                                   rest = (if is_and then filter (\<lambda>n. timeComparison n = None) nodes else nodes);
                                   groups = (if is_and then group_comparisons (List.map_filter timeComparison nodes) else [])
                               in
                               case (those (map (\<lambda>n. describeBillingCondition env locale n) rest),
                                     those (map (describe_group env locale) groups)) of
                                 (Some parts, Some ranges) \<Rightarrow> combine_parts env is_and (parts @ ranges)
                               | _ \<Rightarrow> None)
                     | _ \<Rightarrow> None))))"
  by pat_completeness auto
termination
  by (relation "measure (\<lambda>(env, locale, node). size node)")
    (auto dest!: flatten_size split: if_splits simp: less_Suc_eq_le intro: le_trans trans_le_add1 trans_le_add2)

definition formatBillingCondition :: "words_env \<Rightarrow> jsstring \<Rightarrow> jsstring \<Rightarrow> jsstring option" where
  "formatBillingCondition env locale source =
     (case compile_expression source of
        Compile_failed _ \<Rightarrow> None
      | Ready compiled \<Rightarrow>
          map_option (\<lambda>d.
            if ds_timezone d = [] then ds_text d
            else we_t env (js ''{{condition}} ({{timezone}})'')
                   [(js ''condition'', VStr (ds_text d)), (js ''timezone'', VStr (ds_timezone d))])
            (describeBillingCondition env locale (comp_ast compiled)))"

subsection \<open>Ranges are exact\<close>

text \<open>What the evaluator makes of a comparison when the time function has a value.\<close>

definition comparison_holds :: "time_comparison \<Rightarrow> int \<Rightarrow> bool" where
  "comparison_holds c v \<longleftrightarrow>
     binary_value (cp_operator c) (plain_value (VNum (JFin (of_int v)))) (plain_value (VNum (cp_value c))) 0
       = Inr (plain_value (VBool True))"

definition comparison_ok :: "time_comparison \<Rightarrow> bool" where
  "comparison_ok c \<longleftrightarrow>
     cp_operator c \<in> {Op_eq, Op_ge, Op_gt, Op_le, Op_lt}
     \<and> cp_value c = JFin (of_int \<lfloor>js_val (cp_value c)\<rfloor>) \<and> \<bar>\<lfloor>js_val (cp_value c)\<rfloor>\<bar> < 9007199254740991"

definition in_range :: "jsnum \<times> jsnum \<Rightarrow> int \<Rightarrow> bool" where
  "in_range r v \<longleftrightarrow> js_le (fst r) (JFin (of_int v)) \<and> js_lt (JFin (of_int v)) (snd r)"

definition in_domain :: "time_function \<Rightarrow> int \<Rightarrow> bool" where
  "in_domain f v \<longleftrightarrow> fst (DOMAINS f) \<le> v \<and> v < snd (DOMAINS f)"

lemma js_max_int: "js_max (JFin (of_int a)) (JFin (of_int b)) = JFin (of_int (max a b))"
  by (auto simp: js_max_def)

lemma js_min_int: "js_min (JFin (of_int a)) (JFin (of_int b)) = JFin (of_int (min a b))"
  by (auto simp: js_min_def)

lemma js_succ_int: "\<bar>k\<bar> < 9007199254740991 \<Longrightarrow> js_add (JFin (of_int k)) (JFin 1) = JFin (of_int (k + 1))"
  using round64_int [of "k + 1"] by simp

lemma holds_int:
  assumes "cp_value c = JFin (of_int k)"
  shows "cp_operator c = Op_eq \<Longrightarrow> comparison_holds c v \<longleftrightarrow> v = k" "cp_operator c = Op_ge \<Longrightarrow> comparison_holds c v \<longleftrightarrow> k \<le> v"
    "cp_operator c = Op_gt \<Longrightarrow> comparison_holds c v \<longleftrightarrow> k < v" "cp_operator c = Op_le \<Longrightarrow> comparison_holds c v \<longleftrightarrow> v \<le> k"
    "cp_operator c = Op_lt \<Longrightarrow> comparison_holds c v \<longleftrightarrow> v < k"
  using assms
  by (auto simp: comparison_holds_def binary_value_def is_equality_def equality_value_def js_num_eq_def)

lemma narrow_int:
  assumes "comparison_ok c"
  shows "\<exists>a' b'. narrow c (JFin (of_int a), JFin (of_int b)) = (JFin (of_int a'), JFin (of_int b'))
    \<and> (\<forall>v. a' \<le> v \<and> v < b' \<longleftrightarrow> a \<le> v \<and> v < b \<and> comparison_holds c v)"
proof -
  obtain k where k: "cp_value c = JFin (of_int k)" "\<bar>k\<bar> < 9007199254740991"
    using assms unfolding comparison_ok_def by blast
  note narrowed = narrow_def k(1) Let_def fst_conv snd_conv js_max_int js_min_int js_succ_int [OF k(2)]
  consider "cp_operator c = Op_eq" | "cp_operator c = Op_ge" | "cp_operator c = Op_gt" | "cp_operator c = Op_le"
    | "cp_operator c = Op_lt"
    using assms unfolding comparison_ok_def by blast
  then show ?thesis
  proof cases
    case 1
    show ?thesis
    proof (intro exI conjI allI)
      show "narrow c (JFin (of_int a), JFin (of_int b)) = (JFin (of_int (max a k)), JFin (of_int (min b (k + 1))))"
        by (simp only: narrowed 1 binary_operator.case)
      show "max a k \<le> v \<and> v < min b (k + 1) \<longleftrightarrow> a \<le> v \<and> v < b \<and> comparison_holds c v" for v
        using holds_int(1) [OF k(1) 1, of v] by auto
    qed
  next
    case 2
    show ?thesis
    proof (intro exI conjI allI)
      show "narrow c (JFin (of_int a), JFin (of_int b)) = (JFin (of_int (max a k)), JFin (of_int (b)))"
        by (simp only: narrowed 2 binary_operator.case)
      show "max a k \<le> v \<and> v < b \<longleftrightarrow> a \<le> v \<and> v < b \<and> comparison_holds c v" for v
        using holds_int(2) [OF k(1) 2, of v] by auto
    qed
  next
    case 3
    show ?thesis
    proof (intro exI conjI allI)
      show "narrow c (JFin (of_int a), JFin (of_int b)) = (JFin (of_int (max a (k + 1))), JFin (of_int (b)))"
        by (simp only: narrowed 3 binary_operator.case)
      show "max a (k + 1) \<le> v \<and> v < b \<longleftrightarrow> a \<le> v \<and> v < b \<and> comparison_holds c v" for v
        using holds_int(3) [OF k(1) 3, of v] by auto
    qed
  next
    case 4
    show ?thesis
    proof (intro exI conjI allI)
      show "narrow c (JFin (of_int a), JFin (of_int b)) = (JFin (of_int (a)), JFin (of_int (min b (k + 1))))"
        by (simp only: narrowed 4 binary_operator.case)
      show "a \<le> v \<and> v < min b (k + 1) \<longleftrightarrow> a \<le> v \<and> v < b \<and> comparison_holds c v" for v
        using holds_int(4) [OF k(1) 4, of v] by auto
    qed
  next
    case 5
    show ?thesis
    proof (intro exI conjI allI)
      show "narrow c (JFin (of_int a), JFin (of_int b)) = (JFin (of_int (a)), JFin (of_int (min b k)))"
        by (simp only: narrowed 5 binary_operator.case)
      show "a \<le> v \<and> v < min b k \<longleftrightarrow> a \<le> v \<and> v < b \<and> comparison_holds c v" for v
        using holds_int(5) [OF k(1) 5, of v] by auto
    qed
  qed
qed

lemma narrow_all:
  assumes "list_all comparison_ok cs"
  shows "\<exists>a' b'. fold narrow cs (JFin (of_int a), JFin (of_int b)) = (JFin (of_int a'), JFin (of_int b'))
    \<and> (\<forall>v. a' \<le> v \<and> v < b' \<longleftrightarrow> a \<le> v \<and> v < b \<and> list_all (\<lambda>c. comparison_holds c v) cs)"
  using assms
proof (induction cs arbitrary: a b)
  case (Cons c cs)
  obtain a1 b1 where 1: "narrow c (JFin (of_int a), JFin (of_int b)) = (JFin (of_int a1), JFin (of_int b1))"
    "\<forall>v. a1 \<le> v \<and> v < b1 \<longleftrightarrow> a \<le> v \<and> v < b \<and> comparison_holds c v"
    using narrow_int [of c a b] Cons.prems by auto
  obtain a2 b2 where 2: "fold narrow cs (JFin (of_int a1), JFin (of_int b1)) = (JFin (of_int a2), JFin (of_int b2))"
    "\<forall>v. a2 \<le> v \<and> v < b2 \<longleftrightarrow> a1 \<le> v \<and> v < b1 \<and> list_all (\<lambda>c. comparison_holds c v) cs"
    using Cons.IH [of a1 b1] Cons.prems by auto
  show ?case
  proof (intro exI conjI allI)
    show "fold narrow (c # cs) (JFin (of_int a), JFin (of_int b)) = (JFin (of_int a2), JFin (of_int b2))"
      using 1(1) 2(1) by simp
    show "a2 \<le> v \<and> v < b2 \<longleftrightarrow> a \<le> v \<and> v < b \<and> list_all (\<lambda>c. comparison_holds c v) (c # cs)" for v
      using 1(2) [rule_format, of v] 2(2) [rule_format, of v] by auto
  qed
qed auto

lemma time_range_int:
  assumes "list_all comparison_ok cs"
  obtains a b where "time_range f cs = (JFin (of_int a), JFin (of_int b))"
    "\<And>v. a \<le> v \<and> v < b \<longleftrightarrow> in_domain f v \<and> list_all (\<lambda>c. comparison_holds c v) cs"
  using narrow_all [OF assms, of "fst (DOMAINS f)" "snd (DOMAINS f)"]
  unfolding time_range_def domain_range_def in_domain_def by (elim exE conjE) auto

lemma group_lookup:
  "map_of (fold (\<lambda>c. bump (cp_name c, cp_timezone c) [] (\<lambda>group. group @ [c])) cs []) k
    = (let g = filter (\<lambda>c. (cp_name c, cp_timezone c) = k) cs in if g = [] then None else Some g)"
  by (induction cs rule: rev_induct) (auto simp: Let_def)

lemma group_keys_distinct:
  "distinct (map fst (fold (\<lambda>c. bump (cp_name c, cp_timezone c) [] (\<lambda>group. group @ [c])) cs []))"
  by (induction cs rule: rev_induct) simp_all

lemma snd_image_iff: "v \<in> snd ` A \<longleftrightarrow> (\<exists>k. (k, v) \<in> A)"
  by force

text \<open>The groups are the comparisons of each function and zone.\<close>

lemma groups_iff:
  "g \<in> set (group_comparisons cs) \<longleftrightarrow>
     g \<noteq> [] \<and> (\<exists>k. g = filter (\<lambda>c. (cp_name c, cp_timezone c) = k) cs)"
proof -
  let ?m = "fold (\<lambda>c. bump (cp_name c, cp_timezone c) [] (\<lambda>group. group @ [c])) cs []"
  have "g \<in> set (group_comparisons cs) \<longleftrightarrow> (\<exists>k. (k, g) \<in> set ?m)"
    unfolding group_comparisons_def set_map by (rule snd_image_iff)
  also have "\<dots> \<longleftrightarrow> (\<exists>k. map_of ?m k = Some g)" using map_of_eq_Some_iff [OF group_keys_distinct] by blast
  also have "\<dots> \<longleftrightarrow> g \<noteq> [] \<and> (\<exists>k. g = filter (\<lambda>c. (cp_name c, cp_timezone c) = k) cs)"
    unfolding group_lookup Let_def by auto
  finally show ?thesis .
qed

lemma group_members:
  assumes "g \<in> set (group_comparisons cs)"
  shows "g \<noteq> []" "set g \<subseteq> set cs" "c \<in> set g \<Longrightarrow> cp_name c = cp_name (hd g) \<and> cp_timezone c = cp_timezone (hd g)"
proof -
  obtain k where g: "g \<noteq> []" "g = filter (\<lambda>c. (cp_name c, cp_timezone c) = k) cs"
    using assms unfolding groups_iff by (elim conjE exE)
  have k: "(cp_name d, cp_timezone d) = k" "d \<in> set cs" if "d \<in> set g" for d
    using that by (subst (asm) g(2), simp only: set_filter mem_Collect_eq)+
  show "g \<noteq> []" by (rule g(1))
  show "set g \<subseteq> set cs" by (intro subsetI k(2))
  show "cp_name c = cp_name (hd g) \<and> cp_timezone c = cp_timezone (hd g)" if "c \<in> set g"
    using k(1) [OF that] k(1) [OF hd_in_set [OF g(1)]] by auto
qed

lemma grouped: "c \<in> set cs \<Longrightarrow> \<exists>g \<in> set (group_comparisons cs). c \<in> set g"
  by (intro bexI [of _ "filter (\<lambda>d. (cp_name d, cp_timezone d) = (cp_name c, cp_timezone c)) cs"])
    (auto simp: groups_iff filter_empty_conv)

text \<open>
  C12: the displayed time ranges say exactly when a condition holds. For comparisons of time functions
  with safe integers and values of these functions in their domains, the evaluator finds all
  comparisons true exactly when each displayed range contains the value of its function in its zone,
  and a group of comparisons has no description exactly when no value satisfies it.
\<close>

theorem time_ranges_exact:
  assumes ok: "list_all comparison_ok cs" and dom: "\<forall>f z. in_domain f (val f z)"
  shows "(list_all (\<lambda>c. comparison_holds c (val (cp_name c) (cp_timezone c))) cs \<longleftrightarrow>
      list_all (\<lambda>g. in_range (time_range (cp_name (hd g)) g) (val (cp_name (hd g)) (cp_timezone (hd g))))
        (group_comparisons cs))
    \<and> list_all (\<lambda>g. describe_group env locale g = None \<longleftrightarrow>
        \<not> (\<exists>v. in_domain (cp_name (hd g)) v \<and> list_all (\<lambda>c. comparison_holds c v) g)) (group_comparisons cs)"
proof -
  have grp: "list_all comparison_ok g" if "g \<in> set (group_comparisons cs)" for g
    using group_members(2) [OF that] ok unfolding list_all_iff by blast
  have range: "in_range (time_range (cp_name (hd g)) g) (val (cp_name (hd g)) (cp_timezone (hd g))) \<longleftrightarrow>
      list_all (\<lambda>c. comparison_holds c (val (cp_name c) (cp_timezone c))) g"
    if g: "g \<in> set (group_comparisons cs)" for g
  proof -
    obtain a b where r: "time_range (cp_name (hd g)) g = (JFin (of_int a), JFin (of_int b))"
      "\<And>v. a \<le> v \<and> v < b \<longleftrightarrow> in_domain (cp_name (hd g)) v \<and> list_all (\<lambda>c. comparison_holds c v) g"
      using time_range_int [OF grp [OF g]] by metis
    have "list_all (\<lambda>c. comparison_holds c (val (cp_name (hd g)) (cp_timezone (hd g)))) g
        \<longleftrightarrow> list_all (\<lambda>c. comparison_holds c (val (cp_name c) (cp_timezone c))) g"
      using group_members(3) [OF g] unfolding list_all_iff by (intro ball_cong) simp_all
    then show ?thesis using r(2) dom by (simp add: in_range_def r(1))
  qed
  have "list_all (\<lambda>c. comparison_holds c (val (cp_name c) (cp_timezone c))) cs \<longleftrightarrow>
      list_all (list_all (\<lambda>c. comparison_holds c (val (cp_name c) (cp_timezone c)))) (group_comparisons cs)"
    unfolding list_all_iff using grouped group_members(2) by blast
  moreover have "describe_group env locale g = None \<longleftrightarrow>
      \<not> (\<exists>v. in_domain (cp_name (hd g)) v \<and> list_all (\<lambda>c. comparison_holds c v) g)"
    if g: "g \<in> set (group_comparisons cs)" for g
  proof -
    obtain c ds where cd: "g = c # ds" using group_members(1) [OF g] by (cases g) auto
    obtain a b where r: "time_range (cp_name c) g = (JFin (of_int a), JFin (of_int b))"
      "\<And>v. a \<le> v \<and> v < b \<longleftrightarrow> in_domain (cp_name c) v \<and> list_all (\<lambda>c. comparison_holds c v) g"
      using time_range_int [OF grp [OF g]] by metis
    have "describe_group env locale g = None \<longleftrightarrow> b \<le> a"
      using r(1) by (simp add: describe_group_def describeTimeRange_def cd Let_def)
    also have "\<dots> \<longleftrightarrow> \<not> (\<exists>v. a \<le> v \<and> v < b)" by (meson le_less_trans linorder_not_le order_refl)
    finally show ?thesis using r(2) by (simp add: cd)
  qed
  ultimately show ?thesis using range by (simp add: list_all_iff)
qed

text \<open>From nine to six in UTC, at ten o'clock.\<close>

definition example_comparison :: "binary_operator \<Rightarrow> rat \<Rightarrow> time_comparison" where
  "example_comparison op x = \<lparr>cp_name = Hour, cp_timezone = [85], cp_operator = op, cp_value = JFin x\<rparr>"

definition example_value :: "time_function \<Rightarrow> jsstring \<Rightarrow> int" where
  "example_value f z = (if f = Hour then 10 else 1)"

theorem time_ranges_exact_witness:
  "list_all (\<lambda>g. in_range (time_range (cp_name (hd g)) g) (example_value (cp_name (hd g)) (cp_timezone (hd g))))
     (group_comparisons [example_comparison Op_ge 9, example_comparison Op_lt 18])"
proof -
  have ok: "list_all comparison_ok [example_comparison Op_ge 9, example_comparison Op_lt 18]"
    by (simp add: comparison_ok_def example_comparison_def)
  have dom: "\<forall>f z. in_domain f (example_value f z)"
  proof (intro allI)
    show "in_domain f (example_value f z)" for f z by (cases f) (simp_all add: in_domain_def example_value_def)
  qed
  have "list_all (\<lambda>c. comparison_holds c (example_value (cp_name c) (cp_timezone c)))
      [example_comparison Op_ge 9, example_comparison Op_lt 18]"
    by (simp add: comparison_holds_def example_comparison_def example_value_def binary_value_def is_equality_def)
  then show ?thesis using time_ranges_exact [OF ok dom] by blast
qed

end
