(* ===== verification/Billing_Structure.thy ===== *)
theory Billing_Structure
  imports Js_Prelude
begin

section \<open>Structural splitting of expression texts\<close>

text \<open>
  \<open>billing-expression/structure.ts\<close>: the two helpers that take a text apart without parsing it,
  so that they also work on texts outside the simulated grammar. Both keep track of quotes and of
  the nesting of brackets.
\<close>

subsection \<open>Splitting at an operator\<close>

text \<open>
  \<open>split_scan operator segment depth quote rest\<close> returns the untrimmed segments, or \<open>None\<close> when a
  question mark outside brackets and quotes makes the text a conditional. \<open>segment\<close> is the text
  from \<open>start\<close> to the current position.
\<close>

definition bracket_depth :: "nat \<Rightarrow> int \<Rightarrow> int" where
  "bracket_depth char depth =
     (if char = 40 \<or> char = 91 \<or> char = 123 then depth + 1
      else if char = 41 \<or> char = 93 \<or> char = 125 then depth - 1 else depth)"

function split_scan ::
  "jsstring \<Rightarrow> jsstring \<Rightarrow> int \<Rightarrow> nat option \<Rightarrow> jsstring \<Rightarrow> jsstring list option" where
  "split_scan operator segment depth quote [] = Some [segment]"
| "split_scan operator segment depth (Some q) (char # rest) =
     (if char = 92
      then (case rest of
              [] \<Rightarrow> Some [segment @ [char]]
            | escaped # rest' \<Rightarrow> split_scan operator (segment @ [char, escaped]) depth (Some q) rest')
      else split_scan operator (segment @ [char]) depth (if char = q then None else Some q) rest)"
| "split_scan operator segment depth None (char # rest) =
     (if char = 34 \<or> char = 39
      then split_scan operator (segment @ [char]) depth (Some char) rest
      else if bracket_depth char depth \<noteq> 0
      then split_scan operator (segment @ [char]) (bracket_depth char depth) None rest
      else if char = 63 then None
      else if js_starts_with operator (char # rest)
      then map_option ((#) segment)
             (split_scan operator [] (bracket_depth char depth) None (drop (length operator - 1) rest))
      else split_scan operator (segment @ [char]) (bracket_depth char depth) None rest)"
  by pat_completeness auto
termination
  by (relation "measure (\<lambda>(op, seg, d, q, rest). length rest)") auto

definition splitExpressionAtTopLevel :: "jsstring \<Rightarrow> jsstring \<Rightarrow> jsstring list" where
  "splitExpressionAtTopLevel source operator =
     (case split_scan operator [] 0 None source of
        None \<Rightarrow> [js_trim source]
      | Some segments \<Rightarrow> filter (\<lambda>s. s \<noteq> []) (map js_trim segments))"

subsection \<open>Removing outer parentheses\<close>

text \<open>Whether the parenthesis that opens the text closes at its last character.\<close>

definition paren_depth :: "nat \<Rightarrow> int \<Rightarrow> int" where
  "paren_depth char depth = (if char = 40 then depth + 1 else if char = 41 then depth - 1 else depth)"

fun closes_at_end :: "int \<Rightarrow> nat option \<Rightarrow> jsstring \<Rightarrow> bool" where
  "closes_at_end depth quote [] = False"
| "closes_at_end depth (Some q) (char # rest) =
     (if char = 92 then (case rest of [] \<Rightarrow> False | _ # rest' \<Rightarrow> closes_at_end depth (Some q) rest')
      else closes_at_end depth (if char = q then None else Some q) rest)"
| "closes_at_end depth None (char # rest) =
     (if char = 34 \<or> char = 39 then closes_at_end depth (Some char) rest
      else if paren_depth char depth = 0 then rest = []
      else closes_at_end (paren_depth char depth) None rest)"

definition wrapped :: "jsstring \<Rightarrow> bool" where
  "wrapped expression \<longleftrightarrow>
     js_starts_with [40] expression \<and> js_ends_with [41] expression \<and> closes_at_end 0 None expression"

text \<open>\<open>expression.slice(1, -1).trim()\<close>\<close>

definition inner_text :: "jsstring \<Rightarrow> jsstring" where
  "inner_text expression = js_trim (butlast (tl expression))"

lemma inner_text_shorter: "wrapped e \<Longrightarrow> length (inner_text e) < length e"
proof -
  assume "wrapped e"
  then have "e \<noteq> []" by (auto simp: wrapped_def js_starts_with_def)
  then have "length (butlast (tl e)) < length e" by (cases e) auto
  then show ?thesis using length_js_trim_le [of "butlast (tl e)"] by (simp add: inner_text_def)
qed

function unwrap_loop :: "jsstring \<Rightarrow> jsstring" where
  "unwrap_loop expression =
     (if wrapped expression then unwrap_loop (inner_text expression) else expression)"
  by pat_completeness auto
termination
  by (relation "measure length") (auto simp: inner_text_shorter)

declare unwrap_loop.simps [simp del]

definition unwrapExpressionParens :: "jsstring \<Rightarrow> jsstring" where
  "unwrapExpressionParens source = unwrap_loop (js_trim source)"

subsection \<open>Splitting loses nothing\<close>

lemma js_join_Cons: "xs \<noteq> [] \<Longrightarrow> js_join sep (x # xs) = x @ sep @ js_join sep xs"
  by (cases xs) auto

lemma split_scan_nonempty: "split_scan op seg d q rest = Some ss \<Longrightarrow> ss \<noteq> []"
  by (induction op seg d q rest arbitrary: ss rule: split_scan.induct)
    (auto split: if_splits list.splits)

lemma split_scan_join:
  "op \<noteq> [] \<Longrightarrow> split_scan op seg d q rest = Some ss \<Longrightarrow> js_join op ss = seg @ rest"
proof (induction op seg d q rest arbitrary: ss rule: split_scan.induct)
  case (2 op seg d q c rest)
  then show ?case by (cases rest) (auto split: if_splits)
next
  case (3 op seg d c rest)
  show ?case
  proof (cases "c = 34 \<or> c = 39 \<or> bracket_depth c d \<noteq> 0 \<or> c = 63 \<or> \<not> js_starts_with op (c # rest)")
    case True
    with 3 show ?thesis by (auto split: if_splits)
  next
    case False
    then obtain ts where ts: "split_scan op [] (bracket_depth c d) None (drop (length op - 1) rest) = Some ts"
      and ss: "ss = seg # ts"
      using "3.prems"(2) by auto
    have "js_join op ts = drop (length op - 1) rest" using "3.IH"(3) "3.prems"(1) False ts by auto
    moreover have "op @ drop (length op - 1) rest = c # rest"
      using False "3.prems"(1) append_take_drop_id [of "length op" "c # rest"]
      by (cases op) (auto simp: js_starts_with_def)
    ultimately show ?thesis
      using split_scan_nonempty [OF ts] by (simp add: ss js_join_Cons)
  qed
qed auto

lemma unwrap_loop_not_wrapped: "\<not> wrapped (unwrap_loop e)"
  by (induction e rule: unwrap_loop.induct) (simp add: unwrap_loop.simps)

lemma unwrap_loop_trimmed: "js_trim e = e \<Longrightarrow> js_trim (unwrap_loop e) = unwrap_loop e"
  by (induction e rule: unwrap_loop.induct) (simp add: unwrap_loop.simps inner_text_def)

subsection \<open>Properties\<close>

text \<open>
  Splitting at an operator is lossless. Unless the text is a conditional, which is returned
  whole, the result is the list of the non-empty trimmed segments of a decomposition of the text:
  the untrimmed segments joined with the operator are the text again.
\<close>

theorem split_lossless:
  assumes "operator \<noteq> []"
  shows "splitExpressionAtTopLevel source operator = [js_trim source]
    \<or> (\<exists>segments. js_join operator segments = source
         \<and> splitExpressionAtTopLevel source operator = filter (\<lambda>s. s \<noteq> []) (map js_trim segments))"
proof (cases "split_scan operator [] 0 None source")
  case (Some ss)
  with split_scan_join [OF assms Some] show ?thesis by (auto simp: splitExpressionAtTopLevel_def)
qed (simp add: splitExpressionAtTopLevel_def)

theorem split_lossless_witness:
  "splitExpressionAtTopLevel (js ''(a + b) * c * \"d*e\"'') (js ''*'') = [js ''(a + b)'', js ''c'', js ''\"d*e\"'']
   \<and> (\<exists>segments. js_join (js ''*'') segments = js ''(a + b) * c * \"d*e\"'')"
proof
  show s: "splitExpressionAtTopLevel (js ''(a + b) * c * \"d*e\"'') (js ''*'') =
      [js ''(a + b)'', js ''c'', js ''\"d*e\"'']"
    by code_simp
  have "js ''*'' \<noteq> []" by simp
  from split_lossless [OF this, of "js ''(a + b) * c * \"d*e\"''"]
  show "\<exists>segments. js_join (js ''*'') segments = js ''(a + b) * c * \"d*e\"''"
    using s by auto
qed

text \<open>
  Unwrapping parentheses ends, and what it returns is trimmed and not wrapped any more, so
  that unwrapping again changes nothing.
\<close>

theorem unwrap_normal_form:
  "\<not> wrapped (unwrapExpressionParens source)
   \<and> js_trim (unwrapExpressionParens source) = unwrapExpressionParens source
   \<and> unwrapExpressionParens (unwrapExpressionParens source) = unwrapExpressionParens source"
proof -
  let ?u = "unwrapExpressionParens source"
  have n: "\<not> wrapped ?u" by (simp add: unwrapExpressionParens_def unwrap_loop_not_wrapped)
  have t: "js_trim ?u = ?u" by (simp add: unwrapExpressionParens_def unwrap_loop_trimmed)
  have "unwrapExpressionParens ?u = unwrap_loop ?u"
    using t by (simp only: unwrapExpressionParens_def [of ?u])
  with n t show ?thesis by (simp add: unwrap_loop.simps)
qed

end
