(* ===== verification/Request_Rules.thy ===== *)
theory Request_Rules
  imports Billing_Types Billing_Structure Js_Json
begin

section \<open>Request rules: the rule editor's reader and writer\<close>

text \<open>
  The second half of \<open>features/pricing/lib/billing-expr.ts\<close>: a request rule multiplies the price when
  conditions on the request or on the time hold. The rule editor reads rules out of an expression
  text with regular expressions and writes them back. The patterns are anchored and the character
  after each repetition is outside the repeated class, so a pattern is modelled as a chain of prefix
  tests and maximal runs; a text that \<open>JSON.parse\<close> refuses outside a \<open>try\<close> is an error, \<open>Inl\<close>.
\<close>

subsection \<open>Conditions\<close>

definition SOURCE_TIME :: jsstring where "SOURCE_TIME = js ''time''"
definition SOURCE_HEADER :: jsstring where "SOURCE_HEADER = js ''header''"
definition SOURCE_PARAM :: jsstring where "SOURCE_PARAM = js ''param''"

datatype match_mode = M_eq | M_contains | M_gt | M_gte | M_lt | M_lte | M_exists | M_range

definition MATCH_MODES :: "(jsstring \<times> match_mode) list" where
  "MATCH_MODES = [(js ''eq'', M_eq), (js ''contains'', M_contains), (js ''gt'', M_gt), (js ''gte'', M_gte),
     (js ''lt'', M_lt), (js ''lte'', M_lte), (js ''exists'', M_exists), (js ''range'', M_range)]"

definition TIME_FUNCS :: "(jsstring \<times> time_function) list" where
  "TIME_FUNCS = [(js ''hour'', Hour), (js ''minute'', Minute), (js ''weekday'', Weekday),
     (js ''month'', Month), (js ''day'', Day)]"

fun time_name :: "time_function \<Rightarrow> jsstring" where
  "time_name Hour = js ''hour''"
| "time_name Minute = js ''minute''"
| "time_name Weekday = js ''weekday''"
| "time_name Month = js ''month''"
| "time_name Day = js ''day''"

text \<open>\<open>ParamHeaderCondition\<close> (with whether the source is the header) and \<open>TimeCondition\<close>.\<close>

datatype request_condition =
    Request_cond bool jsstring match_mode jsstring
  | Time_cond time_function jsstring match_mode jsstring jsstring jsstring

record rule_group =
  rg_conditions :: "request_condition list"
  rg_multiplier :: jsstring
  rg_text :: "jsstring option"
  rg_matched :: "bool option"

record rule_trace_row =
  rr_cond :: jsstring
  rr_multiplier :: jsnum
  rr_matched :: bool

subsection \<open>Literals\<close>

definition is_numeric_literal :: "jsstring \<Rightarrow> bool" where
  "is_numeric_literal s =
     (case s of
        [] \<Rightarrow> False
      | c # cs \<Rightarrow> if c = 45 then cs \<noteq> [] \<and> match_number cs = cs else match_number s = s)"

definition is_truth_literal :: "jsstring \<Rightarrow> bool" where
  "is_truth_literal s \<longleftrightarrow> s = js ''true'' \<or> s = js ''false''"

definition parseExprLiteral :: "jsstring \<Rightarrow> jsval option" where
  "parseExprLiteral raw =
     (if is_truth_literal (js_trim raw) \<or> is_numeric_literal (js_trim raw) then Some (VStr (js_trim raw))
      else (case json_parse (js_trim raw) of
              Some VNull \<Rightarrow> None
            | Some v \<Rightarrow> Some v
            | None \<Rightarrow> None))"

fun TIME_FUNC_RANGES :: "time_function \<Rightarrow> rat \<times> rat" where
  "TIME_FUNC_RANGES Hour = (0, 23)"
| "TIME_FUNC_RANGES Minute = (0, 59)"
| "TIME_FUNC_RANGES Weekday = (0, 6)"
| "TIME_FUNC_RANGES Month = (1, 12)"
| "TIME_FUNC_RANGES Day = (1, 31)"

definition isTimeValueInRange :: "time_function \<Rightarrow> jsstring \<Rightarrow> bool" where
  "isTimeValueInRange f s \<longleftrightarrow>
     is_numeric_literal s \<and> js_is_integer (js_string_to_number s)
     \<and> js_le (JFin (fst (TIME_FUNC_RANGES f))) (js_string_to_number s)
     \<and> js_le (js_string_to_number s) (JFin (snd (TIME_FUNC_RANGES f)))"

subsection \<open>Patterns\<close>

definition lit :: "jsstring \<Rightarrow> jsstring \<Rightarrow> jsstring option" where
  "lit p s = (if js_starts_with p s then Some (drop (length p) s) else None)"

text \<open>A maximal, non-empty run of characters.\<close>

definition run_of :: "(nat \<Rightarrow> bool) \<Rightarrow> jsstring \<Rightarrow> (jsstring \<times> jsstring) option" where
  "run_of P s = (if takeWhile P s = [] then None else Some (takeWhile P s, dropWhile P s))"

text \<open>\<open>[\d.eE+-]\<close>\<close>

definition number_char :: "nat \<Rightarrow> bool" where
  "number_char c \<longleftrightarrow> is_digit c \<or> c = 46 \<or> c = 101 \<or> c = 69 \<or> c = 43 \<or> c = 45"

text \<open>\<open>name\("([^"]+)"\)\<close>\<close>

definition match_call :: "jsstring \<Rightarrow> jsstring \<Rightarrow> (jsstring \<times> jsstring) option" where
  "match_call name s =
     Option.bind (lit (name @ [40, 34]) s) (\<lambda>r.
     Option.bind (run_of (\<lambda>c. c \<noteq> 34) r) (\<lambda>(path, r).
     Option.bind (lit [34, 41] r) (\<lambda>r. Some (path, r))))"

fun match_time_names :: "(jsstring \<times> time_function) list \<Rightarrow> jsstring \<Rightarrow> (time_function \<times> jsstring \<times> jsstring) option" where
  "match_time_names [] s = None"
| "match_time_names (f # fs) s =
     (case match_call (fst f) s of
        Some (zone, r) \<Rightarrow> Some (snd f, zone, r)
      | None \<Rightarrow> match_time_names fs s)"

definition match_time_call :: "jsstring \<Rightarrow> (time_function \<times> jsstring \<times> jsstring) option" where
  "match_time_call s = match_time_names TIME_FUNCS s"

definition match_and_or :: "jsstring \<Rightarrow> jsstring option" where
  "match_and_or s = (case lit (js '' && '') s of Some r \<Rightarrow> Some r | None \<Rightarrow> lit (js '' || '') s)"

text \<open>The time range without parentheses, and what follows it.\<close>

definition match_time_range :: "jsstring \<Rightarrow> (time_function \<times> jsstring \<times> jsstring \<times> jsstring \<times> jsstring) option" where
  "match_time_range s =
     Option.bind (match_time_call s) (\<lambda>(f, zone, r).
     Option.bind (lit (js '' >= '') r) (\<lambda>r.
     Option.bind (run_of number_char r) (\<lambda>(lower, r).
     Option.bind (match_and_or r) (\<lambda>r.
     Option.bind (match_call (time_name f) r) (\<lambda>(zone', r).
     if zone' \<noteq> zone then None
     else Option.bind (lit (js '' < '') r) (\<lambda>r.
          Option.bind (run_of number_char r) (\<lambda>(upper, r).
          Some (f, zone, lower, upper, r))))))))"

definition whole_time_range :: "jsstring \<Rightarrow> (time_function \<times> jsstring \<times> jsstring \<times> jsstring) option" where
  "whole_time_range s =
     (case match_time_range s of
        Some (f, zone, lower, upper, []) \<Rightarrow> Some (f, zone, lower, upper)
      | _ \<Rightarrow>
          (case lit [40] s of
             None \<Rightarrow> None
           | Some s' \<Rightarrow>
               (case match_time_range s' of
                  Some (f, zone, lower, upper, r) \<Rightarrow>
                    if r = [41] then Some (f, zone, lower, upper) else None
                | None \<Rightarrow> None)))"

text \<open>\<open>(==|>=|<) \<close> after a space.\<close>

definition match_time_op :: "jsstring \<Rightarrow> (match_mode \<times> jsstring) option" where
  "match_time_op s =
     (case lit (js '' == '') s of
        Some r \<Rightarrow> Some (M_eq, r)
      | None \<Rightarrow>
          (case lit (js '' >= '') s of
             Some r \<Rightarrow> Some (M_gte, r)
           | None \<Rightarrow> map_option (Pair M_lt) (lit (js '' < '') s)))"

definition match_time_scalar :: "jsstring \<Rightarrow> (time_function \<times> jsstring \<times> match_mode \<times> jsstring) option" where
  "match_time_scalar s =
     Option.bind (match_time_call s) (\<lambda>(f, zone, r).
     Option.bind (match_time_op r) (\<lambda>(mode, r).
     Option.bind (run_of number_char r) (\<lambda>(v, r).
     if r = [] then Some (f, zone, mode, v) else None)))"

definition tryParseTimeCondition :: "jsstring \<Rightarrow> request_condition option" where
  "tryParseTimeCondition s =
     (case whole_time_range s of
        Some (f, zone, lower, upper) \<Rightarrow>
          if isTimeValueInRange f lower \<and> isTimeValueInRange f upper
          then Some (Time_cond f zone M_range [] lower upper) else None
      | None \<Rightarrow>
          (case match_time_scalar s of
             Some (f, zone, mode, v) \<Rightarrow>
               if isTimeValueInRange f v then Some (Time_cond f zone mode v [] []) else None
           | None \<Rightarrow> None))"

text \<open>\<open>"(?:[^"\\]|\\.)*"\<close>, after its opening quote: the literal with its quotes, and what follows.\<close>

definition is_line_terminator :: "nat \<Rightarrow> bool" where
  "is_line_terminator c \<longleftrightarrow> c = 10 \<or> c = 13 \<or> c = 8232 \<or> c = 8233"

fun literal_tail :: "jsstring \<Rightarrow> (jsstring \<times> jsstring) option" where
  "literal_tail [] = None"
| "literal_tail (c # r) =
     (if c = 34 then Some ([34], r)
      else if c \<noteq> 92 then map_option (\<lambda>(b, t). (c # b, t)) (literal_tail r)
      else (case r of
              [] \<Rightarrow> None
            | e # r' \<Rightarrow>
                if is_line_terminator e then None
                else map_option (\<lambda>(b, t). (c # e # b, t)) (literal_tail r')))"

definition match_literal :: "jsstring \<Rightarrow> (jsstring \<times> jsstring) option" where
  "match_literal s =
     Option.bind (lit [34] s) (\<lambda>r. map_option (\<lambda>(b, t). (34 # b, t)) (literal_tail r))"

definition match_header_exists :: "jsstring \<Rightarrow> jsstring option" where
  "match_header_exists s =
     Option.bind (match_call (js ''header'') s) (\<lambda>(path, r). if r = js '' != '' @ [34, 34] then Some path else None)"

definition match_param_exists :: "jsstring \<Rightarrow> jsstring option" where
  "match_param_exists s =
     Option.bind (match_call (js ''param'') s) (\<lambda>(path, r). if r = js '' != nil'' then Some path else None)"

text \<open>\<open>has(name("path"), "literal")\<close> to the end of the text.\<close>

definition match_has :: "jsstring \<Rightarrow> jsstring \<Rightarrow> (jsstring \<times> jsstring) option" where
  "match_has name s =
     Option.bind (lit (js ''has('') s) (\<lambda>r.
     Option.bind (match_call name r) (\<lambda>(path, r).
     Option.bind (lit (js '', '') r) (\<lambda>r.
     Option.bind (match_literal r) (\<lambda>(literal, r).
     if r = [41] then Some (path, literal) else None))))"

definition match_param_guard :: "jsstring \<Rightarrow> (jsstring \<times> jsstring) option" where
  "match_param_guard s =
     Option.bind (match_call (js ''param'') s) (\<lambda>(path, r).
     Option.bind (lit (js '' != nil && '') r) (\<lambda>r. Some (path, r)))"

definition match_param_contains :: "jsstring \<Rightarrow> (jsstring \<times> jsstring) option" where
  "match_param_contains s =
     Option.bind (match_param_guard s) (\<lambda>(path, r).
     Option.bind (match_has (js ''param'') r) (\<lambda>(path', literal).
     if path = path' then Some (path, literal) else None))"

definition match_compare_op :: "jsstring \<Rightarrow> (match_mode \<times> jsstring) option" where
  "match_compare_op s =
     (case lit (js '' > '') s of
        Some r \<Rightarrow> Some (M_gt, r)
      | None \<Rightarrow>
          (case lit (js '' >= '') s of
             Some r \<Rightarrow> Some (M_gte, r)
           | None \<Rightarrow>
               (case lit (js '' < '') s of
                  Some r \<Rightarrow> Some (M_lt, r)
                | None \<Rightarrow> map_option (Pair M_lte) (lit (js '' <= '') s))))"

definition match_param_compare :: "jsstring \<Rightarrow> (jsstring \<times> match_mode \<times> jsstring) option" where
  "match_param_compare s =
     Option.bind (match_param_guard s) (\<lambda>(path, r).
     Option.bind (match_call (js ''param'') r) (\<lambda>(path', r).
     Option.bind (match_compare_op r) (\<lambda>(mode, r).
     Option.bind (run_of number_char r) (\<lambda>(v, r).
     if path = path' \<and> r = [] then Some (path, mode, v) else None))))"

text \<open>\<open>(param|header)\("([^"]+)"\) == (.+)\<close>, where the dot matches no line terminator.\<close>

definition match_equals :: "jsstring \<Rightarrow> (bool \<times> jsstring \<times> jsstring) option" where
  "match_equals s =
     Option.bind
       (case match_call (js ''param'') s of
          Some (path, r) \<Rightarrow> Some (False, path, r)
        | None \<Rightarrow> map_option (\<lambda>(path, r). (True, path, r)) (match_call (js ''header'') s))
       (\<lambda>(header, path, r).
     Option.bind (lit (js '' == '') r) (\<lambda>r.
     if r \<noteq> [] \<and> list_all (\<lambda>c. \<not> is_line_terminator c) r then Some (header, path, r) else None))"

subsection \<open>Reading rules\<close>

datatype rule_error = Json_error

definition contains_condition ::
  "bool \<Rightarrow> jsstring \<Rightarrow> jsstring \<Rightarrow> rule_error + request_condition option" where
  "contains_condition header path literal =
     (case json_parse literal of
        Some v \<Rightarrow> Inr (Some (Request_cond header path M_contains (js_to_string v)))
      | None \<Rightarrow> Inl Json_error)"

definition equals_condition :: "bool \<times> jsstring \<times> jsstring \<Rightarrow> request_condition option" where
  "equals_condition m =
     (case m of (header, path, raw) \<Rightarrow>
        map_option (\<lambda>v. Request_cond header path M_eq (js_to_string v)) (parseExprLiteral raw))"

definition tryParseRequestCondition :: "jsstring \<Rightarrow> rule_error + request_condition option" where
  "tryParseRequestCondition s =
     (case tryParseTimeCondition s of
        Some c \<Rightarrow> Inr (Some c)
      | None \<Rightarrow>
     (case match_header_exists s of
        Some path \<Rightarrow> Inr (Some (Request_cond True path M_exists []))
      | None \<Rightarrow>
     (case match_param_exists s of
        Some path \<Rightarrow> Inr (Some (Request_cond False path M_exists []))
      | None \<Rightarrow>
     (case match_has (js ''header'') s of
        Some (path, literal) \<Rightarrow> contains_condition True path literal
      | None \<Rightarrow>
     (case match_param_contains s of
        Some (path, literal) \<Rightarrow> contains_condition False path literal
      | None \<Rightarrow>
     (case match_param_compare s of
        Some (path, mode, v) \<Rightarrow> Inr (Some (Request_cond False path mode v))
      | None \<Rightarrow>
     (case match_equals s of
        Some m \<Rightarrow> Inr (equals_condition m)
      | None \<Rightarrow> Inr None)))))))"

definition tryParseTimeRangePair :: "jsstring \<Rightarrow> jsstring \<Rightarrow> request_condition option" where
  "tryParseTimeRangePair lower upper =
     (case (tryParseTimeCondition lower, tryParseTimeCondition upper) of
        (Some (Time_cond f zone mode v _ _), Some (Time_cond f' zone' mode' v' _ _)) \<Rightarrow>
          if f = f' \<and> zone = zone' \<and> mode = M_gte \<and> mode' = M_lt
          then Some (Time_cond f zone M_range [] v v') else None
      | _ \<Rightarrow> None)"

text \<open>The loop over the parts; a pair of bounds takes two parts.\<close>

fun parse_parts :: "jsstring list \<Rightarrow> rule_error + request_condition list option" where
  "parse_parts [] = Inr (Some [])"
| "parse_parts [part] =
     rbind (tryParseRequestCondition part) (\<lambda>c. Inr (map_option (\<lambda>c. [c]) c))"
| "parse_parts (part # next # parts) =
     (case tryParseTimeRangePair part next of
        Some c \<Rightarrow> rbind (parse_parts parts) (\<lambda>cs. Inr (map_option ((#) c) cs))
      | None \<Rightarrow>
          rbind (tryParseRequestCondition part) (\<lambda>c.
          case c of
            None \<Rightarrow> Inr None
          | Some c \<Rightarrow> rbind (parse_parts (next # parts)) (\<lambda>cs. Inr (map_option ((#) c) cs))))"

definition tryParseRequestConditions :: "jsstring \<Rightarrow> rule_error + request_condition list option" where
  "tryParseRequestConditions s =
     (case tryParseTimeCondition (js_trim s) of
        Some c \<Rightarrow> Inr (Some [c])
      | None \<Rightarrow>
          rbind (parse_parts (splitExpressionAtTopLevel s (js ''&&''))) (\<lambda>cs.
          Inr (if cs = Some [] then None else cs)))"

text \<open>\<open>\((.+) \? ([\d.eE+-]+) : 1\)\<close> with a greedy dot that matches everything: read from the end.\<close>

definition match_factor :: "jsstring \<Rightarrow> (jsstring \<times> jsstring) option" where
  "match_factor s =
     Option.bind (lit (rev (js '' : 1)'')) (rev s)) (\<lambda>r.
     Option.bind (run_of number_char r) (\<lambda>(multiplier, r).
     Option.bind (lit (rev (js '' ? '')) r) (\<lambda>r.
     Option.bind (lit [40] (rev r)) (\<lambda>condition.
     if condition = [] then None else Some (condition, rev multiplier)))))"

definition plain_group :: "request_condition list \<Rightarrow> jsstring \<Rightarrow> rule_group" where
  "plain_group conditions multiplier =
     \<lparr>rg_conditions = conditions, rg_multiplier = multiplier, rg_text = None, rg_matched = None\<rparr>"

definition tryParseRuleGroupFactor :: "jsstring \<Rightarrow> rule_error + rule_group option" where
  "tryParseRuleGroupFactor part =
     (case match_factor part of
        None \<Rightarrow> Inr None
      | Some (condition, multiplier) \<Rightarrow>
          rbind (tryParseRequestConditions condition) (\<lambda>cs.
          Inr (map_option (\<lambda>cs. plain_group cs multiplier) cs)))"

fun parse_factors :: "jsstring list \<Rightarrow> rule_error + rule_group list option" where
  "parse_factors [] = Inr (Some [])"
| "parse_factors (part # parts) =
     rbind (tryParseRuleGroupFactor part) (\<lambda>g.
     case g of
       None \<Rightarrow> Inr None
     | Some g \<Rightarrow> rbind (parse_factors parts) (\<lambda>gs. Inr (map_option ((#) g) gs)))"

definition tryParseRequestRuleExpr :: "jsstring \<Rightarrow> rule_error + rule_group list option" where
  "tryParseRequestRuleExpr expr =
     (if js_trim expr = [] then Inr (Some [])
      else parse_factors (splitExpressionAtTopLevel (js_trim expr) (js ''*'')))"

definition trace_group :: "rule_trace_row \<Rightarrow> rule_error + rule_group" where
  "trace_group row =
     rbind (tryParseRequestConditions (js_trim (rr_cond row))) (\<lambda>cs.
     Inr \<lparr>rg_conditions = (case cs of Some cs \<Rightarrow> cs | None \<Rightarrow> []),
       rg_multiplier = js_number_text (rr_multiplier row),
       rg_text = Some (js_trim (rr_cond row)), rg_matched = Some (rr_matched row)\<rparr>)"

fun requestRuleGroupsFromTrace :: "rule_trace_row list \<Rightarrow> rule_error + rule_group list" where
  "requestRuleGroupsFromTrace [] = Inr []"
| "requestRuleGroupsFromTrace (row # rows) =
     rbind (trace_group row) (\<lambda>g. rbind (requestRuleGroupsFromTrace rows) (\<lambda>gs. Inr (g # gs)))"

subsection \<open>Writing rules\<close>

definition match_options :: "jsstring \<Rightarrow> match_mode list" where
  "match_options source =
     (if source = SOURCE_TIME then [M_eq, M_gte, M_lt, M_range]
      else [M_eq, M_contains, M_exists]
        @ (if source = SOURCE_HEADER then [] else [M_gt, M_gte, M_lt, M_lte]))"

text \<open>A condition with optional fields; the mode and the time function are texts.\<close>

record partial_condition =
  pc_source :: "jsstring option"
  pc_path :: "jsstring option"
  pc_mode :: "jsstring option"
  pc_value :: "jsstring option"
  pc_time_func :: "jsstring option"
  pc_timezone :: "jsstring option"
  pc_range_start :: "jsstring option"
  pc_range_end :: "jsstring option"

definition or_empty :: "jsstring option \<Rightarrow> jsstring" where
  "or_empty s = (case s of Some s \<Rightarrow> s | None \<Rightarrow> [])"

definition checked_mode :: "jsstring \<Rightarrow> match_mode \<Rightarrow> jsstring option \<Rightarrow> match_mode" where
  "checked_mode source otherwise mode =
     (case Option.bind mode (map_of MATCH_MODES) of
        Some m \<Rightarrow> if m \<in> set (match_options source) then m else otherwise
      | None \<Rightarrow> otherwise)"

definition normalizeCondition :: "partial_condition \<Rightarrow> request_condition" where
  "normalizeCondition cond =
     (if pc_source cond = Some SOURCE_TIME
      then Time_cond
             (case Option.bind (pc_time_func cond) (map_of TIME_FUNCS) of Some f \<Rightarrow> f | None \<Rightarrow> Hour)
             (if or_empty (pc_timezone cond) = [] then js ''Asia/Shanghai'' else or_empty (pc_timezone cond))
             (checked_mode SOURCE_TIME M_gte (pc_mode cond))
             (or_empty (pc_value cond)) (or_empty (pc_range_start cond)) (or_empty (pc_range_end cond))
      else Request_cond (pc_source cond = Some SOURCE_HEADER) (or_empty (pc_path cond))
             (checked_mode (if pc_source cond = Some SOURCE_HEADER then SOURCE_HEADER else SOURCE_PARAM) M_eq
               (pc_mode cond))
             (or_empty (pc_value cond)))"

fun mode_name :: "match_mode \<Rightarrow> jsstring" where
  "mode_name M_eq = js ''eq''"
| "mode_name M_contains = js ''contains''"
| "mode_name M_gt = js ''gt''"
| "mode_name M_gte = js ''gte''"
| "mode_name M_lt = js ''lt''"
| "mode_name M_lte = js ''lte''"
| "mode_name M_exists = js ''exists''"
| "mode_name M_range = js ''range''"

fun partial_of :: "request_condition \<Rightarrow> partial_condition" where
  "partial_of (Request_cond header path mode v) =
     \<lparr>pc_source = Some (if header then SOURCE_HEADER else SOURCE_PARAM), pc_path = Some path,
      pc_mode = Some (mode_name mode), pc_value = Some v, pc_time_func = None, pc_timezone = None,
      pc_range_start = None, pc_range_end = None\<rparr>"
| "partial_of (Time_cond f zone mode v lower upper) =
     \<lparr>pc_source = Some SOURCE_TIME, pc_path = None, pc_mode = Some (mode_name mode), pc_value = Some v,
      pc_time_func = Some (time_name f), pc_timezone = Some zone, pc_range_start = Some lower,
      pc_range_end = Some upper\<rparr>"

definition createEmptyCondition :: request_condition where
  "createEmptyCondition = Request_cond False [] M_eq []"

definition createEmptyTimeCondition :: request_condition where
  "createEmptyTimeCondition = Time_cond Hour (js ''Asia/Shanghai'') M_gte [] [] []"

definition createEmptyRuleGroup :: rule_group where
  "createEmptyRuleGroup = plain_group [createEmptyCondition] []"

definition createEmptyTimeRuleGroup :: rule_group where
  "createEmptyTimeRuleGroup = plain_group [createEmptyTimeCondition] []"

definition buildExprLiteral :: "match_mode \<Rightarrow> jsstring \<Rightarrow> jsstring" where
  "buildExprLiteral mode v =
     (if mode = M_contains then json_quote (js_trim v)
      else if is_truth_literal (js_trim v) \<or> is_numeric_literal (js_trim v) then js_trim v
      else json_quote (js_trim v))"

definition call_text :: "jsstring \<Rightarrow> jsstring \<Rightarrow> jsstring" where
  "call_text name arg = name @ [40] @ json_quote arg @ [41]"

fun time_op :: "match_mode \<Rightarrow> jsstring" where
  "time_op M_gte = js ''>=''"
| "time_op M_lt = js ''<''"
| "time_op _ = js ''==''"

definition time_test :: "time_function \<Rightarrow> jsstring \<Rightarrow> jsstring \<Rightarrow> jsstring \<Rightarrow> jsstring" where
  "time_test f zone operator v = call_text (time_name f) zone @ [32] @ operator @ [32] @ v"

definition buildTimeConditionExpr :: "request_condition \<Rightarrow> jsstring" where
  "buildTimeConditionExpr cond =
     (case normalizeCondition (partial_of cond) of
        Time_cond f zone mode v lower upper \<Rightarrow>
          if mode = M_range
          then (if \<not> isTimeValueInRange f (js_trim lower) \<or> \<not> isTimeValueInRange f (js_trim upper) then []
                else if js_lt (js_string_to_number (js_trim upper)) (js_string_to_number (js_trim lower))
                then time_test f zone (js ''>='') (js_trim lower) @ js '' || ''
                       @ time_test f zone (js ''<'') (js_trim upper)
                else time_test f zone (js ''>='') (js_trim lower) @ js '' && ''
                       @ time_test f zone (js ''<'') (js_trim upper))
          else if \<not> isTimeValueInRange f (js_trim v) then []
          else time_test f zone (time_op mode) (js_trim v)
      | _ \<Rightarrow> [])"

fun compare_op :: "match_mode \<Rightarrow> jsstring" where
  "compare_op M_gt = js ''>''"
| "compare_op M_gte = js ''>=''"
| "compare_op M_lt = js ''<''"
| "compare_op _ = js ''<=''"

definition build_source_condition :: "bool \<Rightarrow> jsstring \<Rightarrow> match_mode \<Rightarrow> jsstring \<Rightarrow> jsstring" where
  "build_source_condition header source mode v =
     (case mode of
        M_exists \<Rightarrow> if header then source @ js '' != '' @ [34, 34] else source @ js '' != nil''
      | M_contains \<Rightarrow>
          (if header then [] else source @ js '' != nil && '')
          @ js ''has('' @ source @ js '', '' @ buildExprLiteral mode v @ [41]
      | M_eq \<Rightarrow> source @ js '' == '' @ buildExprLiteral mode v
      | M_range \<Rightarrow> source @ js '' == '' @ buildExprLiteral mode v
      | _ \<Rightarrow>
          if \<not> is_numeric_literal (js_trim v) then []
          else source @ js '' != nil && '' @ source @ [32] @ compare_op mode @ [32] @ js_trim v)"

definition buildRequestConditionExpr :: "request_condition \<Rightarrow> jsstring" where
  "buildRequestConditionExpr cond =
     (case normalizeCondition (partial_of cond) of
        Time_cond _ _ _ _ _ _ \<Rightarrow> buildTimeConditionExpr cond
      | Request_cond header path mode v \<Rightarrow>
          if js_trim path = [] then []
          else build_source_condition header
                 (call_text (if header then js ''header'' else js ''param'') (js_trim path)) mode v)"

definition bracketed :: "jsstring \<Rightarrow> jsstring" where
  "bracketed e = (if js_includes (js '' || '') e then [40] @ e @ [41] else e)"

definition combined_conditions :: "jsstring list \<Rightarrow> jsstring" where
  "combined_conditions es =
     (case es of [e] \<Rightarrow> e | _ \<Rightarrow> js_join (js '' && '') (map bracketed es))"

definition buildRuleGroupFactor :: "rule_group \<Rightarrow> jsstring" where
  "buildRuleGroupFactor g =
     (if \<not> is_numeric_literal (js_trim (rg_multiplier g)) then []
      else if nonempty_texts (map buildRequestConditionExpr (rg_conditions g)) = [] then []
      else [40] @ combined_conditions (nonempty_texts (map buildRequestConditionExpr (rg_conditions g)))
             @ js '' ? '' @ js_trim (rg_multiplier g) @ js '' : 1)'')"

definition buildRequestRuleExpr :: "rule_group list \<Rightarrow> jsstring" where
  "buildRequestRuleExpr groups =
     js_join (js '' * '') (nonempty_texts (map buildRuleGroupFactor groups))"

definition combineBillingExpr :: "jsstring \<Rightarrow> jsstring \<Rightarrow> jsstring" where
  "combineBillingExpr base_expr rule_expr =
     (if js_trim base_expr = [] then []
      else if js_trim rule_expr = [] then js_trim base_expr
      else [40] @ js_trim base_expr @ js '') * '' @ js_trim rule_expr)"

end
