(* ===== verification/Rules_Roundtrip.thy ===== *)
theory Rules_Roundtrip
  imports Request_Rules
begin

section \<open>Written request rules are read back\<close>

text \<open>
  The proofs about \<open>Request_Rules\<close>. A written condition is described by its pieces (\<open>cond_pieces\<close>), each
  of which the scanner of \<open>structure.ts\<close> passes without leaving the top level (\<open>skips\<close>); the reader
  splits a group text into these pieces again and its patterns recognise each piece. The predicate
  \<open>condition_ok\<close> names the conditions for which this works; what it leaves out is the subject of the
  last theorem.
\<close>

subsection \<open>Prefixes and runs\<close>

lemma lit_append [simp]: "lit p (p @ s) = Some s"
  by (simp add: lit_def)

lemma lit_Nil [simp]: "lit [] s = Some s"
  by (simp add: lit_def js_starts_with_def)

lemma lit_Cons [simp]:
  "lit (c # p) [] = None"
  "lit (c # p) (d # s) = (if c = d then lit p s else None)"
  by (auto simp: lit_def js_starts_with_def)

lemma run_of_append:
  "list_all P w \<Longrightarrow> w \<noteq> [] \<Longrightarrow> r = [] \<or> \<not> P (hd r) \<Longrightarrow> run_of P (w @ r) = Some (w, r)"
proof -
  assume w: "list_all P w" "w \<noteq> []" and r: "r = [] \<or> \<not> P (hd r)"
  have "takeWhile P (w @ r) = w" "dropWhile P (w @ r) = r"
    using w r by (cases r; auto simp: list_all_iff takeWhile_append dropWhile_append)+
  with w(2) show ?thesis by (simp add: run_of_def)
qed

text \<open>Paths and time zones that the patterns can read: printable, without quotes and backslashes.\<close>

definition plain_unit_ok :: "nat \<Rightarrow> bool" where
  "plain_unit_ok c \<longleftrightarrow> 32 \<le> c \<and> c < 55296 \<and> c \<noteq> 34 \<and> c \<noteq> 92"

definition path_ok :: "jsstring \<Rightarrow> bool" where
  "path_ok p \<longleftrightarrow> p \<noteq> [] \<and> js_trim p = p \<and> list_all plain_unit_ok p"

lemma quote_plain: "list_all plain_unit_ok p \<Longrightarrow> json_quote_units p = p"
  by (induction p) (auto simp: plain_unit_ok_def short_escapes_def is_low_surrogate_def is_high_surrogate_def)

lemma call_text_plain: "path_ok p \<Longrightarrow> call_text name p = name @ [40, 34] @ p @ [34, 41]"
  by (simp add: call_text_def json_quote_def quote_plain path_ok_def)

lemma match_call_text:
  assumes "path_ok p"
  shows "match_call name (call_text name p @ r) = Some (p, r)"
proof -
  have p: "list_all (\<lambda>c. c \<noteq> 34) p" "p \<noteq> []" using assms by (auto simp: path_ok_def plain_unit_ok_def list_all_iff)
  have "call_text name p @ r = (name @ [40, 34]) @ p @ [34, 41] @ r" using call_text_plain [OF assms] by simp
  moreover have "run_of (\<lambda>c. c \<noteq> 34) (p @ [34, 41] @ r) = Some (p, [34, 41] @ r)"
    using p by (intro run_of_append) auto
  ultimately show ?thesis by (simp only: match_call_def lit_append Option.bind.simps prod.case)
qed

text \<open>A call of another function does not match.\<close>

lemma match_call_other:
  "lit (name @ [40, 34]) s = None \<Longrightarrow> match_call name s = None"
  by (simp add: match_call_def)

lemma match_time_call_text:
  assumes "path_ok zone"
  shows "match_time_call (call_text (time_name f) zone @ r) = Some (f, zone, r)"
proof -
  have other: "match_call (time_name g) (call_text (time_name f) zone @ r) = None" if "f \<noteq> g" for g
    using that call_text_plain [OF assms] by (intro match_call_other, cases f; cases g) simp_all
  show ?thesis
    using match_call_text [OF assms, of "time_name f" r] other
    by (cases f) (simp_all add: match_time_call_def TIME_FUNCS_def del: js_Cons flip: time_name.simps)
qed

subsection \<open>Number texts\<close>

lemma digits_number_chars: "list_all number_char (takeWhile is_digit s)"
  by (auto simp: list_all_iff number_char_def dest: set_takeWhileD)

lemma match_number_chars: "list_all number_char (match_number s)"
proof -
  have fraction: "list_all number_char (match_fraction r)" for r
    using digits_number_chars [of "tl r"] by (cases r) (auto simp: match_fraction_def number_char_def)
  have "list_all number_char (match_mantissa r)" for r
    using fraction digits_number_chars by (simp add: match_mantissa_def)
  moreover have "list_all number_char (match_exponent r)" for r
    using digits_number_chars
    by (auto simp: match_exponent_def exponent_digits_def match_sign_def number_char_def split: list.splits)
  ultimately show ?thesis by (simp add: match_number_def)
qed

lemma numeric_number_chars: "is_numeric_literal s \<Longrightarrow> list_all number_char s \<and> s \<noteq> []"
proof (cases s)
  case (Cons c cs)
  assume n: "is_numeric_literal s"
  show ?thesis
  proof (cases "c = 45")
    case True
    with n Cons match_number_chars [of cs] show ?thesis by (simp add: is_numeric_literal_def number_char_def)
  next
    case False
    with n Cons match_number_chars [of s] show ?thesis by (simp add: is_numeric_literal_def)
  qed
qed (simp add: is_numeric_literal_def)

lemma number_char_cases: "number_char c \<Longrightarrow> 43 \<le> c \<and> c \<le> 101 \<and> c \<noteq> 63 \<and> c \<noteq> 91 \<and> c \<noteq> 93 \<and> c \<noteq> 92"
  by (auto simp: number_char_def is_digit_def)

lemma number_char_not_space: "number_char c \<Longrightarrow> \<not> is_space c"
  by (auto simp: number_char_def is_digit_def is_space_def)

lemma numeric_trimmed: "is_numeric_literal s \<Longrightarrow> js_trim s = s"
  using numeric_number_chars [of s] by (auto intro!: js_trim_no_space simp: list_all_iff number_char_not_space)

lemma in_range_numeric: "isTimeValueInRange f v \<Longrightarrow> is_numeric_literal v"
  by (simp add: isTimeValueInRange_def)

lemma run_number:
  "is_numeric_literal v \<Longrightarrow> r = [] \<or> \<not> number_char (hd r) \<Longrightarrow> run_of number_char (v @ r) = Some (v, r)"
  using numeric_number_chars by (intro run_of_append) auto

lemma number_char_values [simp]:
  "\<not> number_char 32" "\<not> number_char 41" "\<not> number_char 38" "\<not> number_char 124"
  by (simp_all add: number_char_def is_digit_def)

subsection \<open>Time conditions\<close>

lemma time_range_text:
  assumes "path_ok zone" "is_numeric_literal a" "is_numeric_literal b" "r = [] \<or> \<not> number_char (hd r)"
    and "sep = js '' && '' \<or> sep = js '' || ''"
  shows "match_time_range (time_test f zone (js ''>='') a @ sep @ time_test f zone (js ''<'') b @ r)
    = Some (f, zone, a, b, r)"
proof -
  let ?second = "call_text (time_name f) zone @ js '' < '' @ b @ r"
  have whole: "time_test f zone (js ''>='') a @ sep @ time_test f zone (js ''<'') b @ r
      = call_text (time_name f) zone @ js '' >= '' @ a @ sep @ ?second"
    by (simp add: time_test_def)
  have a: "run_of number_char (a @ sep @ ?second) = Some (a, sep @ ?second)"
    using assms(2,5) by (intro run_number) auto
  have sep: "match_and_or (sep @ ?second) = Some ?second"
    using assms(5) by (auto simp: match_and_or_def)
  have b: "run_of number_char (b @ r) = Some (b, r)" using assms(3,4) by (rule run_number)
  show ?thesis
    unfolding whole match_time_range_def match_time_call_text [OF assms(1)] Option.bind.simps prod.case
      lit_append a sep match_call_text [OF assms(1)] b
    by (simp only: if_False simp_thms)
qed

lemma time_scalar_text:
  assumes "path_ok zone" "is_numeric_literal v" "mode \<in> {M_eq, M_gte, M_lt}"
  shows "match_time_scalar (time_test f zone (time_op mode) v) = Some (f, zone, mode, v)"
proof -
  have op: "match_time_op ([32] @ time_op mode @ [32] @ v) = Some (mode, v)"
    using assms(3) by (auto simp: match_time_op_def)
  have v: "run_of number_char v = Some (v, [])" using run_number [OF assms(2), of "[]"] by simp
  show ?thesis
    unfolding time_test_def match_time_scalar_def match_time_call_text [OF assms(1)] Option.bind.simps prod.case op v
    by simp
qed

text \<open>A text that starts with another call, or continues after a single test, is no whole time
  condition.\<close>

lemma no_time_call:
  assumes "\<And>f. lit (time_name f @ [40, 34]) s = None"
  shows "match_time_call s = None"
  using assms [of Hour] assms [of Minute] assms [of Weekday] assms [of Month] assms [of Day]
  by (simp add: match_time_call_def TIME_FUNCS_def match_call_other)

subsection \<open>Quoted texts\<close>

text \<open>The inside of a string literal: no bare quote, and every backslash escapes a character.\<close>

fun body_ok :: "jsstring \<Rightarrow> bool" where
  "body_ok [] = True"
| "body_ok [c] = (c \<noteq> 34 \<and> c \<noteq> 92)"
| "body_ok (c # d # r) =
     (c \<noteq> 34 \<and> (if c = 92 then \<not> is_line_terminator d \<and> body_ok r else body_ok (d # r)))"

lemma body_ok_append: "body_ok a \<Longrightarrow> body_ok b \<Longrightarrow> body_ok (a @ b)"
proof (induction a rule: body_ok.induct)
  case (2 c)
  then show ?case by (cases b) auto
qed (auto split: if_splits)

lemma body_ok_Cons: "c \<noteq> 34 \<Longrightarrow> c \<noteq> 92 \<Longrightarrow> body_ok b \<Longrightarrow> body_ok (c # b)"
  using body_ok_append [of "[c]" b] by simp

lemma body_ok_escape: "\<not> is_line_terminator e \<Longrightarrow> body_ok b \<Longrightarrow> body_ok (92 # e # b)"
  by simp

lemma hex_unit_range: "n < 16 \<Longrightarrow> 48 \<le> hex_unit n \<and> hex_unit n \<le> 102 \<and> hex_unit n \<noteq> 92"
  by (auto simp: hex_unit_def)

lemma body_ok_unicode: "body_ok b \<Longrightarrow> body_ok (unicode_escape n @ b)"
proof -
  assume b: "body_ok b"
  have h: "hex_unit (m mod 16) \<noteq> 34 \<and> hex_unit (m mod 16) \<noteq> 92" for m
    using hex_unit_range [of "m mod 16"] by simp
  have "body_ok (hex4 n @ b)"
    unfolding hex4_def by (simp only: append_Cons append_Nil) (intro body_ok_Cons b; simp add: h)
  then show ?thesis by (simp add: unicode_escape_def is_line_terminator_def)
qed

lemma quote_units_cases:
  obtains (escape) e where "e \<in> {34, 92, 98, 102, 110, 114, 116}" and "json_quote_units (c # cs) = 92 # e # json_quote_units cs"
  | (unicode) "json_quote_units (c # cs) = unicode_escape c @ json_quote_units cs"
  | (plain) "c \<noteq> 34" and "c \<noteq> 92" and "32 \<le> c" and "json_quote_units (c # cs) = c # json_quote_units cs"
  | (pair) d ds where "cs = d # ds" and "55296 \<le> c" and "55296 \<le> d"
      and "json_quote_units (c # cs) = c # d # json_quote_units ds"
proof (cases "map_of short_escapes c")
  case (Some e)
  then have "e \<in> {34, 92, 98, 102, 110, 114, 116}" by (auto simp: short_escapes_def split: if_splits)
  with Some escape show ?thesis by simp
next
  case None
  then have c: "c \<noteq> 34" "c \<noteq> 92" by (auto simp: short_escapes_def split: if_splits)
  show ?thesis
  proof (cases "c < 32 \<or> is_low_surrogate c \<or> \<not> is_high_surrogate c")
    case True
    with None c unicode plain show ?thesis by (cases "c < 32 \<or> is_low_surrogate c") auto
  next
    case high: False
    then have big: "55296 \<le> c" by (simp add: is_high_surrogate_def)
    show ?thesis
    proof (cases "\<exists>d ds. cs = d # ds \<and> is_low_surrogate d")
      case True
      then obtain d ds where "cs = d # ds" "is_low_surrogate d" by blast
      with None high big pair show ?thesis by (simp add: is_low_surrogate_def [of d])
    next
      case False
      with None high unicode show ?thesis by (cases cs) auto
    qed
  qed
qed

lemma body_ok_quote: "body_ok (json_quote_units s)"
proof (induction s rule: length_induct)
  case (1 s)
  show ?case
  proof (cases s)
    case (Cons c cs)
    have ih: "body_ok (json_quote_units t)" if "length t < length s" for t using 1 that by blast
    show ?thesis
      unfolding Cons
    proof (cases c cs rule: quote_units_cases)
      case (escape e)
      with ih [of cs] Cons show "body_ok (json_quote_units (c # cs))" by (auto simp: is_line_terminator_def)
    next
      case unicode
      with ih [of cs] Cons show "body_ok (json_quote_units (c # cs))" by (simp add: body_ok_unicode)
    next
      case plain
      with ih [of cs] Cons show "body_ok (json_quote_units (c # cs))" by (simp add: body_ok_Cons)
    next
      case (pair d ds)
      with ih [of ds] Cons body_ok_Cons [of d "json_quote_units ds"]
        body_ok_Cons [of c "d # json_quote_units ds"]
      show "body_ok (json_quote_units (c # cs))" by simp
    qed
  qed simp
qed

lemma literal_tail_body: "body_ok b \<Longrightarrow> literal_tail (b @ 34 # r) = Some (b @ [34], r)"
  by (induction b rule: body_ok.induct) auto

lemma match_literal_quote: "match_literal (json_quote s @ r) = Some (json_quote s, r)"
  using literal_tail_body [OF body_ok_quote] by (simp add: match_literal_def json_quote_def)

lemma split_scan_body:
  "body_ok b \<Longrightarrow> split_scan op seg d (Some 34) (b @ 34 # r) = split_scan op (seg @ b @ [34]) d None r"
  by (induction b arbitrary: seg rule: body_ok.induct) auto

lemma unicode_escape_units: "x \<in> set (unicode_escape n) \<Longrightarrow> 32 \<le> x \<and> x < 128"
proof -
  have "32 \<le> hex_unit (m mod 16) \<and> hex_unit (m mod 16) < 128" for m
    using hex_unit_range [of "m mod 16"] by simp
  then show "x \<in> set (unicode_escape n) \<Longrightarrow> 32 \<le> x \<and> x < 128"
    by (auto simp: unicode_escape_def hex4_def)
qed

lemma set_quote_units: "x \<in> set (json_quote_units s) \<Longrightarrow> 32 \<le> x \<and> (x \<in> set s \<or> x < 128)"
proof (induction s rule: length_induct)
  case (1 s)
  show ?case
  proof (cases s)
    case (Cons c cs)
    have ih: "32 \<le> x \<and> (x \<in> set t \<or> x < 128)" if "length t < length s" "x \<in> set (json_quote_units t)" for t
      using 1 that by blast
    have x: "x \<in> set (json_quote_units (c # cs))" using "1.prems" Cons by simp
    show ?thesis
    proof (cases c cs rule: quote_units_cases)
      case (escape e)
      with x ih [of cs] Cons show ?thesis by auto
    next
      case unicode
      with x ih [of cs] Cons show ?thesis by (auto dest: unicode_escape_units)
    next
      case plain
      with x ih [of cs] Cons show ?thesis by auto
    next
      case (pair d ds)
      with x ih [of ds] Cons show ?thesis by auto
    qed
  qed (use "1.prems" in simp)
qed

lemma json_parse_quote: "units_ok s \<Longrightarrow> json_parse (json_quote s) = Some (VStr s)"
  by (simp add: json_parse_def json_quote_def json_quote_units_tail del: json_string_tail.simps)

lemma quote_trimmed [simp]: "js_trim (json_quote s) = json_quote s" "json_quote s \<noteq> []"
  by (simp_all add: json_quote_def js_trim_def is_space_def)

subsection \<open>Single conditions\<close>

definition value_ok :: "jsstring \<Rightarrow> bool" where
  "value_ok v \<longleftrightarrow> js_trim v = v \<and> units_ok v \<and> 8232 \<notin> set v \<and> 8233 \<notin> set v"

text \<open>The conditions that the reader recognises. The comparisons and the containment of a request
  parameter are missing: they are written as two tests joined by \<open>&&\<close>, which the reader splits.\<close>

fun condition_ok :: "request_condition \<Rightarrow> bool" where
  "condition_ok (Time_cond f zone mode v lower upper) =
     (path_ok zone \<and>
      (if mode = M_range
       then v = [] \<and> isTimeValueInRange f lower \<and> isTimeValueInRange f upper
       else mode \<in> {M_eq, M_gte, M_lt} \<and> lower = [] \<and> upper = [] \<and> isTimeValueInRange f v))"
| "condition_ok (Request_cond header path mode v) =
     (path_ok path \<and>
      (case mode of
         M_exists \<Rightarrow> v = []
       | M_contains \<Rightarrow> header \<and> value_ok v
       | M_eq \<Rightarrow> value_ok v
       | _ \<Rightarrow> False))"

definition overnight :: "jsstring \<Rightarrow> jsstring \<Rightarrow> bool" where
  "overnight lower upper \<longleftrightarrow> js_lt (js_string_to_number upper) (js_string_to_number lower)"

definition source_name :: "bool \<Rightarrow> jsstring" where
  "source_name header = (if header then js ''header'' else js ''param'')"

lemma normalize_ok: "condition_ok c \<Longrightarrow> normalizeCondition (partial_of c) = c"
proof (cases c)
  case (Time_cond f zone mode v lower upper)
  assume ok: "condition_ok c"
  have "map_of TIME_FUNCS (time_name f) = Some f" by (cases f) (simp_all add: TIME_FUNCS_def)
  moreover have "mode \<in> {M_eq, M_gte, M_lt, M_range}" "zone \<noteq> []"
    using ok Time_cond by (auto simp: path_ok_def split: if_splits)
  ultimately show ?thesis
    unfolding Time_cond by (auto simp: normalizeCondition_def or_empty_def checked_mode_def MATCH_MODES_def match_options_def)
next
  case (Request_cond header path mode v)
  assume ok: "condition_ok c"
  then have "mode \<in> {M_exists, M_contains, M_eq}" using Request_cond by (cases mode) auto
  then show ?thesis
    unfolding Request_cond
    by (auto simp: normalizeCondition_def or_empty_def checked_mode_def MATCH_MODES_def match_options_def
        SOURCE_TIME_def SOURCE_HEADER_def SOURCE_PARAM_def)
qed

lemma build_time_scalar:
  assumes "condition_ok (Time_cond f zone mode v lower upper)" "mode \<noteq> M_range"
  shows "buildRequestConditionExpr (Time_cond f zone mode v lower upper) = time_test f zone (time_op mode) v"
  using assms normalize_ok [OF assms(1)] numeric_trimmed [OF in_range_numeric, of f v]
  by (simp add: buildRequestConditionExpr_def buildTimeConditionExpr_def)

lemma build_time_range:
  assumes "condition_ok (Time_cond f zone M_range v lower upper)"
  shows "buildRequestConditionExpr (Time_cond f zone M_range v lower upper) =
    time_test f zone (js ''>='') lower @ (if overnight lower upper then js '' || '' else js '' && '')
      @ time_test f zone (js ''<'') upper"
  using assms normalize_ok [OF assms(1)] numeric_trimmed [OF in_range_numeric, of f lower]
    numeric_trimmed [OF in_range_numeric, of f upper]
  by (simp add: buildRequestConditionExpr_def buildTimeConditionExpr_def overnight_def)

lemma build_source:
  assumes "condition_ok (Request_cond header path mode v)"
  shows "buildRequestConditionExpr (Request_cond header path mode v) =
    build_source_condition header (call_text (source_name header) path) mode v"
  using assms normalize_ok [OF assms(1)] by (simp add: buildRequestConditionExpr_def source_name_def path_ok_def)

lemma parse_time_scalar:
  assumes "condition_ok (Time_cond f zone mode v lower upper)" "mode \<noteq> M_range"
  shows "tryParseTimeCondition (time_test f zone (time_op mode) v) = Some (Time_cond f zone mode v lower upper)"
proof -
  have ok: "path_ok zone" "is_numeric_literal v" "mode \<in> {M_eq, M_gte, M_lt}" "isTimeValueInRange f v"
    using assms in_range_numeric by auto
  have v: "run_of number_char v = Some (v, [])" using run_number [OF ok(2), of "[]"] by simp
  have range: "match_time_range (time_test f zone (time_op mode) v) = None"
    unfolding time_test_def match_time_range_def match_time_call_text [OF ok(1)] Option.bind.simps prod.case
    using ok(3) v by (auto simp: match_and_or_def)
  have "lit [40] (time_test f zone (time_op mode) v) = None"
    using call_text_plain [OF ok(1)] by (cases f) (simp_all add: time_test_def)
  then have "whole_time_range (time_test f zone (time_op mode) v) = None"
    using range by (simp add: whole_time_range_def)
  with time_scalar_text [OF ok(1,2,3)] ok assms show ?thesis by (simp add: tryParseTimeCondition_def)
qed

lemma parse_time_range:
  assumes "condition_ok (Time_cond f zone M_range v lower upper)" "sep = js '' && '' \<or> sep = js '' || ''"
  shows "tryParseTimeCondition (time_test f zone (js ''>='') lower @ sep @ time_test f zone (js ''<'') upper)
      = Some (Time_cond f zone M_range v lower upper)"
    "tryParseTimeCondition ([40] @ (time_test f zone (js ''>='') lower @ sep @ time_test f zone (js ''<'') upper) @ [41])
      = Some (Time_cond f zone M_range v lower upper)"
proof -
  have ok: "path_ok zone" "is_numeric_literal lower" "is_numeric_literal upper"
    "isTimeValueInRange f lower" "isTimeValueInRange f upper" "v = []"
    using assms in_range_numeric by auto
  let ?t = "time_test f zone (js ''>='') lower @ sep @ time_test f zone (js ''<'') upper"
  have "match_time_range ?t = Some (f, zone, lower, upper, [])"
    using time_range_text [OF ok(1-3) _ assms(2), of "[]" f] by simp
  then show "tryParseTimeCondition ?t = Some (Time_cond f zone M_range v lower upper)"
    using ok by (simp add: tryParseTimeCondition_def whole_time_range_def)
  have inner: "match_time_range (?t @ [41]) = Some (f, zone, lower, upper, [41])"
    using time_range_text [OF ok(1-3) _ assms(2), of "[41]" f] by simp
  have "lit (time_name g @ [40, 34]) ([40] @ x) = None" for g x by (cases g) simp_all
  then have "match_time_call ([40] @ ?t @ [41]) = None" by (rule no_time_call)
  then have "match_time_range ([40] @ ?t @ [41]) = None" by (simp add: match_time_range_def)
  then have "whole_time_range ([40] @ ?t @ [41]) = Some (f, zone, lower, upper)"
    using inner by (simp add: whole_time_range_def)
  then show "tryParseTimeCondition ([40] @ ?t @ [41]) = Some (Time_cond f zone M_range v lower upper)"
    using ok by (simp add: tryParseTimeCondition_def)
qed

text \<open>The texts of the other conditions start with one of three calls.\<close>

definition starts_source :: "jsstring \<Rightarrow> bool" where
  "starts_source s \<longleftrightarrow> lit (js ''header('') s \<noteq> None \<or> lit (js ''param('') s \<noteq> None \<or> lit (js ''has('') s \<noteq> None"

lemma lit_Some: "lit p s = Some r \<longleftrightarrow> s = p @ r"
  by (auto simp: lit_def js_starts_with_iff)

lemma source_no_time: "starts_source s \<Longrightarrow> match_time_call s = None \<and> lit [40] s = None"
proof -
  assume "starts_source s"
  then obtain r where s: "s = js ''header('' @ r \<or> s = js ''param('' @ r \<or> s = js ''has('' @ r"
    by (auto simp: starts_source_def lit_Some)
  have "lit (time_name f @ [40, 34]) s = None" for f using s by (cases f) auto
  with s show ?thesis by (auto intro!: no_time_call)
qed

lemma source_no_time_condition: "starts_source s \<Longrightarrow> tryParseTimeCondition s = None"
  using source_no_time [of s]
  by (simp add: tryParseTimeCondition_def whole_time_range_def match_time_range_def match_time_scalar_def)

lemma call_text_source: "path_ok p \<Longrightarrow> starts_source (call_text (source_name header) p @ r)"
  using call_text_plain [of p] by (cases header) (simp_all add: starts_source_def source_name_def)

lemma other_source: "path_ok p \<Longrightarrow> match_call (source_name (\<not> header)) (call_text (source_name header) p @ r) = None"
  using call_text_plain [of p] by (intro match_call_other, cases header) (simp_all add: source_name_def)

lemma no_has: "path_ok p \<Longrightarrow> match_has name (call_text (source_name header) p @ r) = None"
  using call_text_plain [of p] by (cases header) (simp_all add: match_has_def source_name_def)

lemma literal_reads_back:
  assumes "value_ok v"
  shows "parseExprLiteral (buildExprLiteral M_eq v) = Some (VStr v)"
    and "buildExprLiteral M_eq v \<noteq> []"
    and "list_all (\<lambda>c. \<not> is_line_terminator c) (buildExprLiteral M_eq v)"
proof -
  have v: "js_trim v = v" "units_ok v" "8232 \<notin> set v" "8233 \<notin> set v"
    using assms by (auto simp: value_ok_def)
  have quoted: "\<not> is_truth_literal (json_quote v)" "\<not> is_numeric_literal (json_quote v)"
    by (simp_all add: is_truth_literal_def is_numeric_literal_def json_quote_def match_number_def match_mantissa_def
        match_fraction_def is_digit_def)
  show "parseExprLiteral (buildExprLiteral M_eq v) = Some (VStr v)"
    using v quoted json_parse_quote [OF v(2)] by (simp add: parseExprLiteral_def buildExprLiteral_def)
  have nl: "number_char c \<Longrightarrow> \<not> is_line_terminator c" for c
    by (auto simp: number_char_def is_digit_def is_line_terminator_def)
  have plain: "list_all (\<lambda>c. \<not> is_line_terminator c) v \<and> v \<noteq> []" if "is_truth_literal v \<or> is_numeric_literal v"
  proof (cases "is_truth_literal v")
    case True
    then show ?thesis by (auto simp: is_truth_literal_def is_line_terminator_def)
  next
    case False
    with that numeric_number_chars [of v] nl show ?thesis by (auto simp: list_all_iff)
  qed
  have "list_all (\<lambda>c. \<not> is_line_terminator c) (json_quote v)"
  proof -
    have "\<not> is_line_terminator c" if "c \<in> set (json_quote_units v)" for c
      using set_quote_units [OF that] v(3,4) by (auto simp: is_line_terminator_def)
    then show ?thesis by (simp add: json_quote_def list_all_iff is_line_terminator_def)
  qed
  with plain v(1) show "list_all (\<lambda>c. \<not> is_line_terminator c) (buildExprLiteral M_eq v)"
    and "buildExprLiteral M_eq v \<noteq> []"
    by (auto simp: buildExprLiteral_def)
qed

lemma parse_source_exists:
  assumes "path_ok p"
  shows "tryParseRequestCondition (build_source_condition header (call_text (source_name header) p) M_exists [])
    = Inr (Some (Request_cond header p M_exists []))"
proof -
  let ?r = "if header then js '' != '' @ [34, 34] else js '' != nil''"
  let ?s = "call_text (source_name header) p @ ?r"
  have t: "tryParseTimeCondition ?s = None" using source_no_time_condition [OF call_text_source [OF assms]] .
  have m: "match_call (source_name header) ?s = Some (p, ?r)" by (rule match_call_text [OF assms])
  have o: "match_call (source_name (\<not> header)) ?s = None" by (rule other_source [OF assms])
  have "build_source_condition header (call_text (source_name header) p) M_exists [] = ?s"
    by (simp add: build_source_condition_def)
  then show ?thesis
    using t m o
    by (cases header) (simp_all add: tryParseRequestCondition_def match_header_exists_def match_param_exists_def source_name_def)
qed

lemma parse_source_equals:
  assumes "path_ok p" "value_ok v"
  shows "tryParseRequestCondition (build_source_condition header (call_text (source_name header) p) M_eq v)
    = Inr (Some (Request_cond header p M_eq v))"
proof -
  let ?l = "buildExprLiteral M_eq v"
  let ?s = "call_text (source_name header) p @ js '' == '' @ ?l"
  note l = literal_reads_back [OF assms(2)]
  have t: "tryParseTimeCondition ?s = None" using source_no_time_condition [OF call_text_source [OF assms(1)]] .
  have m: "match_call (source_name header) ?s = Some (p, js '' == '' @ ?l)" by (rule match_call_text [OF assms(1)])
  have o: "match_call (source_name (\<not> header)) ?s = None" by (rule other_source [OF assms(1)])
  have h: "match_has name ?s = None" for name by (rule no_has [OF assms(1)])
  have he: "match_header_exists ?s = None" and pe: "match_param_exists ?s = None" and g: "match_param_guard ?s = None"
    using m o by (cases header; simp add: match_header_exists_def match_param_exists_def match_param_guard_def source_name_def)+
  have "match_equals ?s = Some (header, p, ?l)"
    using m o l by (cases header) (simp_all add: match_equals_def source_name_def)
  moreover have "build_source_condition header (call_text (source_name header) p) M_eq v = ?s"
    by (simp add: build_source_condition_def)
  ultimately show ?thesis
    using t h he pe g l
    by (simp add: tryParseRequestCondition_def match_param_contains_def match_param_compare_def equals_condition_def
        del: js_Cons)
qed

lemma parse_source_contains:
  assumes "path_ok p" "value_ok v"
  shows "tryParseRequestCondition (build_source_condition True (call_text (source_name True) p) M_contains v)
    = Inr (Some (Request_cond True p M_contains v))"
proof -
  let ?s = "js ''has('' @ call_text (js ''header'') p @ js '', '' @ json_quote v @ [41]"
  have v: "js_trim v = v" "units_ok v" using assms(2) by (auto simp: value_ok_def)
  have t: "tryParseTimeCondition ?s = None" by (rule source_no_time_condition) (simp add: starts_source_def)
  have other: "match_call name ?s = None" if "name = js ''header'' \<or> name = js ''param''" for name
    using that by (intro match_call_other) auto
  have "match_has (js ''header'') ?s = Some (p, json_quote v)"
    unfolding match_has_def lit_append Option.bind.simps match_call_text [OF assms(1)] prod.case
      match_literal_quote by simp
  moreover have "build_source_condition True (call_text (source_name True) p) M_contains v = ?s"
    using v by (simp add: build_source_condition_def source_name_def buildExprLiteral_def)
  ultimately show ?thesis
    using t other json_parse_quote [OF v(2)]
    by (simp add: tryParseRequestCondition_def match_header_exists_def match_param_exists_def contains_condition_def
        del: js_Cons)
qed

lemma parse_source_condition:
  assumes "condition_ok (Request_cond header p mode v)"
  shows "tryParseRequestCondition (buildRequestConditionExpr (Request_cond header p mode v))
    = Inr (Some (Request_cond header p mode v))"
  unfolding build_source [OF assms]
  using assms parse_source_exists [of p header] parse_source_equals [of p v header] parse_source_contains [of p v]
  by (cases mode) (auto simp: source_name_def)

subsection \<open>Splitting\<close>

text \<open>\<open>skips op d t\<close>: at nesting depth \<open>d\<close> the splitter passes over \<open>t\<close> without a cut.\<close>

definition skips :: "jsstring \<Rightarrow> int \<Rightarrow> jsstring \<Rightarrow> bool" where
  "skips op d t \<longleftrightarrow> (\<forall>seg r. split_scan op seg d None (t @ r) = split_scan op (seg @ t) d None r)"

lemma skips_append: "skips op d a \<Longrightarrow> skips op d b \<Longrightarrow> skips op d (a @ b)"
  by (simp add: skips_def)

lemma skips_Nil [simp]: "skips op d []"
  by (simp add: skips_def)

definition plain_char :: "jsstring \<Rightarrow> nat \<Rightarrow> bool" where
  "plain_char op c \<longleftrightarrow>
     c \<noteq> 34 \<and> c \<noteq> 39 \<and> c \<noteq> 63 \<and> c \<notin> {40, 41, 91, 93, 123, 125} \<and> op \<noteq> [] \<and> c \<noteq> hd op"

lemma skips_plain: "list_all (plain_char op) t \<Longrightarrow> skips op d t"
proof (induction t)
  case (Cons c t)
  then have c: "plain_char op c" "skips op d t" by auto
  have "\<not> js_starts_with op (c # r)" for r using c(1) by (cases op) (auto simp: plain_char_def js_starts_with_def)
  moreover have "bracket_depth c e = e" for e using c(1) by (auto simp: plain_char_def bracket_depth_def)
  ultimately have "split_scan op seg d None (c # u) = split_scan op (seg @ [c]) d None u" for seg u
    using c(1) by (cases "d = 0") (simp_all add: plain_char_def)
  with c(2) show ?case by (simp add: skips_def)
qed simp

text \<open>Inside brackets every character but quotes and brackets is passed over.\<close>

lemma skips_inside: "0 < d \<Longrightarrow> list_all (\<lambda>c. c \<notin> {34, 39, 40, 41, 91, 93, 123, 125}) t \<Longrightarrow> skips op d t"
proof (induction t)
  case (Cons c t)
  then have "skips op d t" "bracket_depth c d = d" "c \<noteq> 34" "c \<noteq> 39" by (auto simp: bracket_depth_def)
  with \<open>0 < d\<close> show ?case by (simp add: skips_def)
qed simp

lemma skips_quote: "skips op d (json_quote s)"
  using split_scan_body [OF body_ok_quote] by (simp add: skips_def json_quote_def)

lemma skips_parens:
  assumes "skips op (d + 1) t" "0 \<le> d" "op \<noteq> []" "hd op \<noteq> 41"
  shows "skips op d ([40] @ t @ [41])"
proof -
  have "\<not> js_starts_with op (41 # r)" for r using assms(3,4) by (cases op) (auto simp: js_starts_with_def)
  with assms show ?thesis by (simp add: skips_def bracket_depth_def)
qed

lemma number_plain: "is_numeric_literal v \<Longrightarrow> op \<in> {js ''&&'', js ''*''} \<Longrightarrow> list_all (plain_char op) v"
  using numeric_number_chars [of v] by (auto simp: list_all_iff plain_char_def number_char_def is_digit_def)

definition splitter :: "jsstring \<Rightarrow> bool" where
  "splitter op \<longleftrightarrow> op = js ''&&'' \<or> op = js ''*''"

lemma skips_call: "splitter op \<Longrightarrow> 0 \<le> d \<Longrightarrow> list_all (plain_char op) name \<Longrightarrow> skips op d (call_text name arg)"
  unfolding call_text_def
  using skips_append [OF skips_plain skips_parens [OF skips_quote]] by (auto simp: splitter_def)

lemma skips_time_test:
  assumes "splitter op" "0 \<le> d" "is_numeric_literal v" "operator \<in> {js ''>='', js ''<'', js ''==''}"
  shows "skips op d (time_test f zone operator v)"
proof -
  have "list_all (plain_char op) (time_name f)" using assms(1) by (cases f) (auto simp: plain_char_def splitter_def)
  moreover have "list_all (plain_char op) ([32] @ operator @ [32] @ v)"
    using assms number_plain [of v op] by (auto simp: plain_char_def splitter_def)
  ultimately show ?thesis
    unfolding time_test_def by (intro skips_append skips_call skips_plain) (use assms in auto)
qed

definition spaced :: "jsstring \<Rightarrow> jsstring" where
  "spaced op = [32] @ op @ [32]"

lemma spaced_values: "spaced (js ''&&'') = js '' && ''" "spaced (js ''*'') = js '' * ''"
  by (simp_all add: spaced_def)

lemma split_at_operator:
  "splitter op \<Longrightarrow> split_scan op seg 0 None (spaced op @ r) = map_option ((#) (seg @ [32])) (split_scan op [32] 0 None r)"
  by (auto simp: splitter_def spaced_def bracket_depth_def js_starts_with_def)

lemma split_pieces:
  assumes "splitter op"
  shows "pieces \<noteq> [] \<Longrightarrow> list_all (skips op 0) pieces \<Longrightarrow>
   split_scan op seg 0 None (js_join (spaced op) pieces) =
     Some (case pieces of
        [p] \<Rightarrow> [seg @ p]
      | p # ps \<Rightarrow> (seg @ p @ [32]) # map (\<lambda>q. [32] @ q @ [32]) (butlast ps) @ [[32] @ last ps])"
proof (induction pieces arbitrary: seg rule: induct_list012)
  case (2 p)
  then have "skips op 0 p" by simp
  then have "split_scan op seg 0 None p = split_scan op (seg @ p) 0 None []"
    unfolding skips_def by (metis append_Nil2)
  then show ?case by simp
next
  case (3 p q ps)
  let ?rest = "js_join (spaced op) (q # ps)"
  have p: "skips op 0 p" and qs: "list_all (skips op 0) (q # ps)" using "3.prems" by auto
  have "split_scan op seg 0 None (p @ spaced op @ ?rest) = split_scan op (seg @ p) 0 None (spaced op @ ?rest)"
    using p unfolding skips_def by blast
  also have "\<dots> = map_option ((#) (seg @ p @ [32])) (split_scan op [32] 0 None ?rest)"
    using split_at_operator [OF assms, of "seg @ p"] by simp
  also have "\<dots> = Some ((seg @ p @ [32]) # (case q # ps of
        [q] \<Rightarrow> [[32] @ q]
      | q # ps \<Rightarrow> ([32] @ q @ [32]) # map (\<lambda>q. [32] @ q @ [32]) (butlast ps) @ [[32] @ last ps]))"
    using "3.IH"(2) [OF _ qs, of "[32]"] by simp
  finally show ?case by (cases ps) auto
qed simp

text \<open>Texts that \<open>trim\<close> leaves alone, also with a space on either side.\<close>

definition tight :: "jsstring \<Rightarrow> bool" where
  "tight t \<longleftrightarrow> t \<noteq> [] \<and> \<not> is_space (hd t) \<and> \<not> is_space (last t)"

lemma js_trim_tight:
  assumes "tight t" "list_all is_space a" "list_all is_space b"
  shows "js_trim (a @ t @ b) = t"
proof -
  have t: "t \<noteq> []" "\<not> is_space (hd t)" "\<not> is_space (last t)" using assms(1) by (auto simp: tight_def)
  have drop: "dropWhile is_space (w @ s) = s" if "list_all is_space w" "s \<noteq> []" "\<not> is_space (hd s)" for w s
    using that by (cases s) (auto simp: list_all_iff dropWhile_append)
  have "dropWhile is_space (a @ t @ b) = t @ b"
    using drop [OF assms(2), of "t @ b"] t(1,2) by simp
  moreover have "dropWhile is_space (rev b @ rev t) = rev t"
    using drop [of "rev b" "rev t"] assms(3) t(1,3) by (simp add: hd_rev)
  ultimately show ?thesis by (simp add: js_trim_def)
qed

lemma tight_trim: "tight t \<Longrightarrow> js_trim t = t" "tight t \<Longrightarrow> js_trim (32 # t) = t"
  "tight t \<Longrightarrow> js_trim (t @ [32]) = t" "tight t \<Longrightarrow> js_trim (32 # t @ [32]) = t"
  using js_trim_tight [of t "[]" "[]"] js_trim_tight [of t "[32]" "[]"] js_trim_tight [of t "[]" "[32]"]
    js_trim_tight [of t "[32]" "[32]"]
  by (simp_all add: is_space_def)

lemma split_tight_pieces:
  assumes op: "splitter op" and "pieces \<noteq> []" and "list_all (skips op 0) pieces" and "list_all tight pieces"
  shows "splitExpressionAtTopLevel (js_join (spaced op) pieces) op = pieces"
proof -
  have ne: "p \<noteq> []" if "p \<in> set pieces" for p using assms(4) that by (auto simp: list_all_iff tight_def)
  show ?thesis
  proof (cases pieces)
    case (Cons p ps)
    show ?thesis
    proof (cases "ps = []")
      case True
      with Cons assms(4) split_pieces [OF op assms(2,3), of "[]"] show ?thesis
        by (simp add: splitExpressionAtTopLevel_def tight_trim ne del: js_Cons)
    next
      case False
      have ps: "map (\<lambda>q. js_trim ([32] @ q @ [32])) (butlast ps) = butlast ps"
        using assms(4) Cons by (intro map_idI) (auto simp: list_all_iff tight_trim(4) dest!: in_set_butlastD)
      have trims: "js_trim (p @ [32]) = p" "js_trim ([32] @ last ps) = last ps"
        using assms(4) Cons False by (auto simp: list_all_iff intro!: tight_trim)
      have all: "butlast ps @ [last ps] = ps" using False by simp
      have "split_scan op [] 0 None (js_join (spaced op) pieces) =
          Some ((p @ [32]) # map (\<lambda>q. [32] @ q @ [32]) (butlast ps) @ [[32] @ last ps])"
        using split_pieces [OF op assms(2,3), of "[]"] Cons False by (cases ps) (auto simp del: js_Cons)
      moreover have "map js_trim ((p @ [32]) # map (\<lambda>q. [32] @ q @ [32]) (butlast ps) @ [[32] @ last ps]) = pieces"
        using ps trims all Cons by (simp add: comp_def)
      moreover have "filter (\<lambda>s. s \<noteq> []) pieces = pieces" using ne by (simp add: filter_id_conv)
      ultimately show ?thesis by (simp add: splitExpressionAtTopLevel_def del: js_Cons)
    qed
  qed (use assms in simp)
qed

subsection \<open>Groups\<close>

text \<open>The tests that a condition contributes to a group of several conditions.\<close>

fun cond_pieces :: "request_condition \<Rightarrow> jsstring list" where
  "cond_pieces (Time_cond f zone mode v lower upper) =
     (if mode = M_range
      then (if overnight lower upper
            then [[40] @ (time_test f zone (js ''>='') lower @ js '' || '' @ time_test f zone (js ''<'') upper) @ [41]]
            else [time_test f zone (js ''>='') lower, time_test f zone (js ''<'') upper])
      else [time_test f zone (time_op mode) v])"
| "cond_pieces c = [buildRequestConditionExpr c]"

lemma tight_call: "path_ok p \<Longrightarrow> tight (call_text (time_name f) p @ r @ [c])" if "\<not> is_space c"
  using that call_text_plain [of p "time_name f"] by (cases f) (auto simp: tight_def is_space_def)

lemma tight_time_test:
  assumes "path_ok zone" "is_numeric_literal v"
  shows "tight (time_test f zone operator v)"
proof -
  obtain w c where w: "v = w @ [c]" using numeric_number_chars [OF assms(2)] by (cases v rule: rev_cases) auto
  then have "\<not> is_space c" using numeric_number_chars [OF assms(2)] number_char_not_space by auto
  from tight_call [OF this assms(1), of f "[32] @ operator @ [32] @ w"] w show ?thesis by (simp add: time_test_def)
qed

lemma tight_append: "a \<noteq> [] \<Longrightarrow> b \<noteq> [] \<Longrightarrow> \<not> is_space (hd a) \<Longrightarrow> \<not> is_space (last b) \<Longrightarrow> tight (a @ m @ b)"
  by (simp add: tight_def)

lemma literal_shape:
  assumes "value_ok v" "splitter op"
  shows "skips op d (buildExprLiteral M_eq v) \<and> \<not> is_space (last (buildExprLiteral M_eq v))"
proof -
  have v: "js_trim v = v" using assms(1) by (simp add: value_ok_def)
  consider "is_truth_literal v" | "is_numeric_literal v" "\<not> is_truth_literal v"
    | "\<not> is_truth_literal v" "\<not> is_numeric_literal v" by blast
  then show ?thesis
  proof cases
    case 1
    then have "list_all (plain_char op) v" "\<not> is_space (last v)"
      using assms(2) by (auto simp: is_truth_literal_def splitter_def plain_char_def is_space_def)
    with 1 v show ?thesis by (simp add: buildExprLiteral_def skips_plain)
  next
    case 2
    then have "list_all (plain_char op) v" "\<not> is_space (last v)"
      using assms(2) number_plain [of v op] numeric_number_chars [of v] number_char_not_space
      by (auto simp: splitter_def list_all_iff)
    with 2 v show ?thesis by (simp add: buildExprLiteral_def skips_plain)
  next
    case 3
    with v skips_quote [of op d v] show ?thesis by (simp add: buildExprLiteral_def json_quote_def is_space_def)
  qed
qed

lemma source_condition_shape:
  assumes "condition_ok (Request_cond header p mode v)"
  shows "tight (buildRequestConditionExpr (Request_cond header p mode v))"
    and "splitter op \<Longrightarrow> 0 \<le> d \<Longrightarrow> skips op d (buildRequestConditionExpr (Request_cond header p mode v))"
proof -
  have p: "path_ok p" using assms by simp
  have hd: "hd (call_text (source_name header) p @ r) = hd (source_name header)" "call_text (source_name header) p \<noteq> []"
    "\<not> is_space (hd (source_name header))" "\<not> is_space (hd (call_text (source_name header) p))" for r
    by (simp_all add: call_text_def source_name_def is_space_def)
  have call: "skips op d (call_text (source_name header) p)" if "splitter op" "0 \<le> d" for op d
    using that by (intro skips_call) (auto simp: source_name_def splitter_def plain_char_def)
  have words: "skips op d (js '' != '')" "skips op d (js '' != nil'')" "skips op d (js '' == '')" "skips op d (js '', '')"
    "skips op d (js ''has'')" if "splitter op" for op d
    using that by (intro skips_plain; auto simp: splitter_def plain_char_def)+
  have empty: "skips op d [34, 34]" for op d using skips_quote [of op d "[]"] by (simp add: json_quote_def)
  note b = build_source [OF assms] build_source_condition_def
  show "tight (buildRequestConditionExpr (Request_cond header p mode v))"
  proof (cases mode)
    case M_exists
    then show ?thesis
      unfolding b by (cases header) (simp_all add: call_text_def source_name_def tight_def is_space_def)
  next
    case M_contains
    then show ?thesis
      unfolding b using assms by (simp add: tight_def is_space_def)
  next
    case M_eq
    with assms b hd literal_shape [of v "js ''*''" 0] literal_reads_back(2) [of v]
      tight_append [of "call_text (source_name header) p" "buildExprLiteral M_eq v" "js '' == ''"]
    show ?thesis by (simp add: splitter_def)
  qed (use assms in auto)
  assume op: "splitter op" and d: "0 \<le> d"
  show "skips op d (buildRequestConditionExpr (Request_cond header p mode v))"
  proof (cases mode)
    case M_exists
    then show ?thesis
      unfolding b using call [OF op d] words(1,2) [OF op] empty by (auto intro!: skips_append simp del: js_Cons)
  next
    case M_contains
    then have h: "header" and v: "js_trim v = v" using assms by (auto simp: value_ok_def)
    have "skips op (d + 1) (call_text (source_name header) p @ js '', '' @ json_quote v)"
      using call [OF op, of "d + 1"] words(4) [OF op] d skips_quote by (intro skips_append) auto
    then have "skips op d ([40] @ (call_text (source_name header) p @ js '', '' @ json_quote v) @ [41])"
      using op d by (intro skips_parens) (auto simp: splitter_def)
    then have "skips op d (js ''has'' @ [40] @ (call_text (source_name header) p @ js '', '' @ json_quote v) @ [41])"
      using words(5) [OF op] by (rule skips_append [rotated])
    with M_contains h v show ?thesis unfolding b by (simp add: buildExprLiteral_def)
  next
    case M_eq
    with assms have "skips op d (buildExprLiteral M_eq v)" using literal_shape [OF _ op] by simp
    with M_eq show ?thesis
      unfolding b using call [OF op d] words(3) [OF op] by (auto intro!: skips_append simp del: js_Cons)
  qed (use assms in auto)
qed

lemma splitter_values [simp]: "splitter [38, 38]" "splitter [42]"
  by (simp_all add: splitter_def)

lemma source_starts:
  assumes "condition_ok (Request_cond header p mode v)"
  shows "starts_source (buildRequestConditionExpr (Request_cond header p mode v) @ r)"
  unfolding build_source [OF assms]
  using assms
  by (cases mode; cases header)
    (auto simp: build_source_condition_def starts_source_def call_text_def source_name_def)

lemma time_op_values: "mode \<in> {M_eq, M_gte, M_lt} \<Longrightarrow> time_op mode \<in> {js ''>='', js ''<'', js ''==''}"
  by auto

lemma pieces_shape:
  assumes "condition_ok c" "splitter op" "0 \<le> d"
  shows "cond_pieces c \<noteq> [] \<and> (\<forall>piece \<in> set (cond_pieces c). tight piece \<and> skips op d piece)"
proof (cases c)
  case (Request_cond header p mode v)
  with source_condition_shape(1) [of header p mode v] source_condition_shape(2) [of header p mode v op d] assms
  show ?thesis by simp
next
  case (Time_cond f zone mode v lower upper)
  have zone: "path_ok zone" using assms Time_cond by simp
  show ?thesis
  proof (cases "mode = M_range")
    case True
    then have n: "is_numeric_literal lower" "is_numeric_literal upper" using assms Time_cond in_range_numeric by auto
    have t: "skips op e (time_test f zone (js ''>='') lower)" "skips op e (time_test f zone (js ''<'') upper)"
      if "0 \<le> e" for e
      using skips_time_test [OF assms(2) that n(1), of "js ''>=''"] skips_time_test [OF assms(2) that n(2), of "js ''<''"]
      by simp_all
    have "skips op (d + 1) (js '' || '')" using assms(3) by (intro skips_inside) auto
    then have "skips op d ([40] @ (time_test f zone (js ''>='') lower @ js '' || '' @ time_test f zone (js ''<'') upper) @ [41])"
      using t [of "d + 1"] assms(2,3) by (intro skips_parens skips_append) (auto simp: splitter_def)
    with True Time_cond t [OF assms(3)] tight_time_test [OF zone n(1)] tight_time_test [OF zone n(2)] show ?thesis
      by (simp add: tight_def [of "40 # _"] is_space_def del: js_Cons)
  next
    case False
    then have n: "is_numeric_literal v" "mode \<in> {M_eq, M_gte, M_lt}" using assms Time_cond in_range_numeric by auto
    with False Time_cond skips_time_test [OF assms(2,3) n(1) time_op_values [OF n(2)], of f zone] tight_time_test [OF zone n(1)]
    show ?thesis by simp
  qed
qed

fun is_overnight :: "request_condition \<Rightarrow> bool" where
  "is_overnight (Time_cond f zone mode v lower upper) = (mode = M_range \<and> overnight lower upper)"
| "is_overnight _ = False"

text \<open>In a group of several conditions a text with \<open>||\<close> is put in parentheses, which the reader
  understands only around a time range.\<close>

definition no_stray_or :: "request_condition \<Rightarrow> bool" where
  "no_stray_or c \<longleftrightarrow> is_overnight c \<or> \<not> js_includes (js '' || '') (buildRequestConditionExpr c)"

lemma bracketed_pieces:
  assumes "condition_ok c" "no_stray_or c"
  shows "bracketed (buildRequestConditionExpr c) = js_join (js '' && '') (cond_pieces c)"
proof (cases c)
  case (Request_cond header p mode v)
  with assms show ?thesis by (simp add: no_stray_or_def bracketed_def)
next
  case (Time_cond f zone mode v lower upper)
  show ?thesis
  proof (cases "mode = M_range")
    case True
    note b = build_time_range [of f zone v lower upper]
    have "js_includes (js '' || '') (a @ js '' || '' @ e)" for a e by (auto simp: js_includes_iff)
    with True Time_cond assms b show ?thesis by (auto simp: no_stray_or_def bracketed_def)
  next
    case False
    with Time_cond assms build_time_scalar [of f zone mode v lower upper] show ?thesis
      by (simp add: no_stray_or_def bracketed_def)
  qed
qed

lemma js_join_concat:
  "list_all (\<lambda>ps. ps \<noteq> []) pss \<Longrightarrow> js_join sep (map (js_join sep) pss) = js_join sep (concat pss)"
proof (induction pss rule: induct_list012)
  case (3 ps qs pss)
  have append: "js_join sep (xs @ ys) = js_join sep xs @ sep @ js_join sep ys" if "xs \<noteq> []" "ys \<noteq> []" for xs ys
    using that by (induction xs rule: induct_list012) (auto simp: js_join_Cons)
  with 3 show ?case by simp
qed auto

lemma first_time:
  assumes "condition_ok c"
  shows "tryParseTimeCondition (hd (cond_pieces c)) =
    (case c of
       Time_cond f zone mode v lower upper \<Rightarrow>
         if mode = M_range \<and> \<not> overnight lower upper then Some (Time_cond f zone M_gte lower [] []) else Some c
     | _ \<Rightarrow> None)"
proof (cases c)
  case (Request_cond header p mode v)
  have p: "path_ok p" using assms Request_cond by simp
  have "starts_source (buildRequestConditionExpr c)"
    using source_starts [of header p mode v "[]"] assms Request_cond by simp
  with Request_cond source_no_time_condition show ?thesis by simp
next
  case (Time_cond f zone mode v lower upper)
  show ?thesis
  proof (cases "mode = M_range")
    case True
    show ?thesis
    proof (cases "overnight lower upper")
      case True
      with \<open>mode = M_range\<close> Time_cond assms parse_time_range(2) [of f zone v lower upper "js '' || ''"] show ?thesis by simp
    next
      case False
      have "condition_ok (Time_cond f zone M_gte lower [] [])" using True Time_cond assms by simp
      from parse_time_scalar [OF this] False True Time_cond show ?thesis by simp
    qed
  next
    case False
    with Time_cond assms parse_time_scalar [of f zone mode v lower upper] show ?thesis by simp
  qed
qed

definition bound_pair :: "request_condition \<Rightarrow> request_condition \<Rightarrow> bool" where
  "bound_pair c c' =
     (case (c, c') of
        (Time_cond f zone mode _ _ _, Time_cond f' zone' mode' _ _ _) \<Rightarrow>
          f = f' \<and> zone = zone' \<and> mode = M_gte \<and> mode' = M_lt
      | _ \<Rightarrow> False)"

fun within_day :: "request_condition \<Rightarrow> bool" where
  "within_day (Time_cond f zone mode v lower upper) = (mode = M_range \<and> \<not> overnight lower upper)"
| "within_day _ = False"

lemma single_piece:
  assumes "condition_ok c" "\<not> within_day c"
  shows "\<exists>piece. cond_pieces c = [piece] \<and> tryParseRequestCondition piece = Inr (Some c)"
proof (cases c)
  case (Request_cond header p mode v)
  with assms parse_source_condition show ?thesis by simp
next
  case (Time_cond f zone mode v lower upper)
  with assms first_time [OF assms(1)] show ?thesis by (auto simp: tryParseRequestCondition_def split: if_splits)
qed

lemma no_pair:
  assumes "condition_ok c" "condition_ok c'" "\<not> within_day c" "\<not> bound_pair c c'"
  shows "tryParseTimeRangePair (hd (cond_pieces c)) (hd (cond_pieces c')) = None"
  using assms unfolding tryParseTimeRangePair_def first_time [OF assms(1)] first_time [OF assms(2)]
  by (auto simp: bound_pair_def split: request_condition.splits)

lemma parse_pieces:
  "list_all condition_ok cs \<Longrightarrow> successively (\<lambda>c c'. \<not> bound_pair c c') cs \<Longrightarrow>
   parse_parts (concat (map cond_pieces cs)) = Inr (Some cs)"
proof (induction cs)
  case (Cons c cs)
  have ok: "condition_ok c" "list_all condition_ok cs" "successively (\<lambda>c c'. \<not> bound_pair c c') cs"
    and adjacent: "\<And>c' cs'. cs = c' # cs' \<Longrightarrow> \<not> bound_pair c c'"
    using Cons.prems by (auto simp: successively_Cons)
  show ?case
  proof (cases "within_day c")
    case True
    then obtain f zone v lower upper where c: "c = Time_cond f zone M_range v lower upper" "\<not> overnight lower upper"
      by (cases c) auto
    have "condition_ok (Time_cond f zone M_gte lower [] [])" "condition_ok (Time_cond f zone M_lt upper [] [])" "v = []"
      using ok(1) c by auto
    from parse_time_scalar [OF this(1)] parse_time_scalar [OF this(2)] this(3)
    have "tryParseTimeRangePair (time_test f zone (js ''>='') lower) (time_test f zone (js ''<'') upper) = Some c"
      by (simp add: tryParseTimeRangePair_def c)
    with c Cons.IH [OF ok(2,3)] show ?thesis by simp
  next
    case False
    then obtain piece where piece: "cond_pieces c = [piece]" "tryParseRequestCondition piece = Inr (Some c)"
      using single_piece [OF ok(1)] by blast
    show ?thesis
    proof (cases cs)
      case Nil
      with piece show ?thesis by simp
    next
      case (Cons c' cs')
      with ok obtain next_piece ps where n: "cond_pieces c' = next_piece # ps"
        using pieces_shape [of c' "js ''*''" 0] by (cases "cond_pieces c'") auto
      have "\<not> bound_pair c c'" "condition_ok c'" using adjacent ok(2) Cons by auto
      with no_pair [OF ok(1) _ False] piece n have "tryParseTimeRangePair piece next_piece = None" by fastforce
      with piece n Cons Cons.IH [OF ok(2,3)] show ?thesis by simp
    qed
  qed
qed simp

subsection \<open>A group of several conditions is no single time condition\<close>

lemma scalar_continued:
  assumes "path_ok zone" "is_numeric_literal v" "mode \<in> {M_eq, M_gte, M_lt}"
  shows "match_time_scalar (time_test f zone (time_op mode) v @ js '' && '' @ r) = None"
proof -
  have op: "match_time_op ([32] @ time_op mode @ [32] @ v @ js '' && '' @ r) = Some (mode, v @ js '' && '' @ r)"
    using assms(3) by (auto simp: match_time_op_def)
  have v: "run_of number_char (v @ js '' && '' @ r) = Some (v, js '' && '' @ r)"
    using assms(2) by (intro run_number) auto
  have "time_test f zone (time_op mode) v @ js '' && '' @ r =
      call_text (time_name f) zone @ [32] @ time_op mode @ [32] @ v @ js '' && '' @ r"
    by (simp add: time_test_def)
  then show ?thesis
    unfolding match_time_scalar_def
    by (simp only: match_time_call_text [OF assms(1)] Option.bind.simps prod.case op v) simp
qed

lemma bind_Some_iff: "Option.bind m f = Some y \<longleftrightarrow> (\<exists>x. m = Some x \<and> f x = Some y)"
  by (cases m) auto

lemma match_call_Some: "match_call name s = Some (path, r) \<Longrightarrow> s = name @ [40, 34] @ path @ [34, 41] @ r"
proof -
  assume "match_call name s = Some (path, r)"
  then obtain a b where a: "lit (name @ [40, 34]) s = Some a" and b: "run_of (\<lambda>c. c \<noteq> 34) a = Some (path, b)"
    and r: "lit [34, 41] b = Some r"
    by (auto simp: match_call_def bind_Some_iff)
  from b have "a = path @ b" by (auto simp: run_of_def split: if_splits)
  with a r show ?thesis unfolding lit_Some by simp
qed

text \<open>A test that goes on after \<open>&&\<close> is read as a range only if it is a lower bound and an upper
  bound of the same function follows to the end.\<close>

lemma test_continued:
  assumes "path_ok zone" "is_numeric_literal v" "mode \<in> {M_eq, M_gte, M_lt}"
    and "tryParseTimeCondition (time_test f zone (time_op mode) v @ js '' && '' @ r) \<noteq> None"
  shows "mode = M_gte \<and> (\<exists>b. match_time_scalar r = Some (f, zone, M_lt, b))"
proof -
  let ?s = "time_test f zone (time_op mode) v @ js '' && '' @ r"
  have s: "?s = call_text (time_name f) zone @ [32] @ time_op mode @ [32] @ v @ js '' && '' @ r"
    by (simp add: time_test_def)
  have v: "run_of number_char (v @ js '' && '' @ r) = Some (v, js '' && '' @ r)"
    using assms(2) by (intro run_number) auto
  have "lit [40] ?s = None" using call_text_plain [OF assms(1)] unfolding s by (cases f) simp_all
  have "whole_time_range ?s \<noteq> None"
  proof
    assume "whole_time_range ?s = None"
    then have "tryParseTimeCondition ?s = None"
      unfolding tryParseTimeCondition_def scalar_continued [OF assms(1-3)] by simp
    with assms(4) show False by simp
  qed
  then obtain x where x: "match_time_range ?s = Some x" "snd (snd (snd (snd x))) = []"
    using \<open>lit [40] ?s = None\<close> by (auto simp: whole_time_range_def split: option.splits list.splits)
  have mode: "mode = M_gte"
    using x(1) assms(3) unfolding s match_time_range_def match_time_call_text [OF assms(1)] Option.bind.simps prod.case
    by (auto simp: bind_Some_iff)
  have "lit (js '' >= '') ([32] @ time_op mode @ [32] @ v @ js '' && '' @ r) = Some (v @ js '' && '' @ r)"
    using mode by simp
  moreover have "match_and_or (js '' && '' @ r) = Some r" by (simp add: match_and_or_def)
  ultimately have "Option.bind (match_call (time_name f) r) (\<lambda>(zone', r). if zone' \<noteq> zone then None
      else Option.bind (lit (js '' < '') r) (\<lambda>r. Option.bind (run_of number_char r) (\<lambda>(upper, r).
        Some (f, zone, v, upper, r)))) = Some x"
    using x(1) unfolding s match_time_range_def
    by (simp only: match_time_call_text [OF assms(1)] Option.bind.simps prod.case v)
  then obtain r1 r2 b where r1: "match_call (time_name f) r = Some (zone, r1)" and r2: "lit (js '' < '') r1 = Some r2"
    and b: "run_of number_char r2 = Some (b, [])"
    using x(2) by (auto simp: bind_Some_iff split: if_splits)
  have r: "r = call_text (time_name f) zone @ r1"
    using match_call_Some [OF r1] call_text_plain [OF assms(1)] by simp
  have "match_time_op r1 = Some (M_lt, r2)"
    using r2 unfolding lit_Some by (simp add: match_time_op_def)
  then have "match_time_scalar r = Some (f, zone, M_lt, b)"
    unfolding r match_time_scalar_def match_time_call_text [OF assms(1)] using b by simp
  with mode show ?thesis by blast
qed

lemma no_scalar_rest:
  assumes "condition_ok c" "ps = [] \<or> within_day c \<or> \<not> bound_pair c0 c"
    and "match_time_scalar (js_join (js '' && '') (cond_pieces c @ ps)) = Some (f, zone, M_lt, b)"
  shows "ps = [] \<and> (\<exists>v lower upper. c = Time_cond f zone M_lt v lower upper)"
proof (cases c)
  case (Request_cond header p mode v)
  have "starts_source (js_join (js '' && '') (cond_pieces c @ ps))"
    using source_starts [of header p mode v "[]"] source_starts [of header p mode v] assms(1) Request_cond
    by (cases "ps = []") (simp_all add: js_join_Cons)
  from source_no_time [OF this] assms(3) show ?thesis by (simp add: match_time_scalar_def)
next
  case (Time_cond f' zone' mode v lower upper)
  have zone': "path_ok zone'" using assms(1) Time_cond by simp
  show ?thesis
  proof (cases "mode = M_range")
    case False
    then have ok: "is_numeric_literal v" "mode \<in> {M_eq, M_gte, M_lt}" using assms(1) Time_cond in_range_numeric by auto
    show ?thesis
    proof (cases "ps = []")
      case True
      with False Time_cond assms(3) time_scalar_text [OF zone' ok] show ?thesis by simp
    next
      case more: False
      with False Time_cond assms(3) scalar_continued [OF zone' ok] show ?thesis by (simp add: js_join_Cons)
    qed
  next
    case True
    then have ok: "is_numeric_literal lower" "is_numeric_literal upper" using assms(1) Time_cond in_range_numeric by auto
    show ?thesis
    proof (cases "overnight lower upper")
      case False
      have "js_join (js '' && '') (cond_pieces c @ ps) =
          time_test f' zone' (time_op M_gte) lower @ js '' && '' @ js_join (js '' && '') (time_test f' zone' (js ''<'') upper # ps)"
        using True False Time_cond by (simp add: js_join_Cons)
      with scalar_continued [OF zone' ok(1), of M_gte] assms(3) show ?thesis by (simp del: js_Cons)
    next
      case over: True
      obtain r where r: "js_join (js '' && '') (cond_pieces c @ ps) = [40] @ r"
        using over True Time_cond by (cases ps) (auto simp: js_join_Cons)
      have "lit (time_name g @ [40, 34]) ([40] @ x) = None" for g x by (cases g) simp_all
      then have "match_time_call ([40] @ r) = None" by (rule no_time_call)
      with assms(3) r show ?thesis by (simp add: match_time_scalar_def)
    qed
  qed
qed

lemma several_no_time:
  assumes "condition_ok c" "condition_ok c'" "\<not> bound_pair c c'"
  shows "tryParseTimeCondition (js_join (js '' && '') (cond_pieces c @ cond_pieces c' @ ps)) = None"
proof (rule ccontr)
  let ?rest = "cond_pieces c' @ ps"
  have ne: "?rest \<noteq> []" using pieces_shape [OF assms(2), of "[42]" 0] by simp
  assume time: "tryParseTimeCondition (js_join (js '' && '') (cond_pieces c @ ?rest)) \<noteq> None"
  show False
  proof (cases c)
    case (Request_cond header p mode v)
    have "starts_source (js_join (js '' && '') (cond_pieces c @ ?rest))"
      using source_starts [of header p mode v] assms(1) Request_cond ne by (simp add: js_join_Cons)
    from source_no_time_condition [OF this] time show False by simp
  next
    case (Time_cond f zone mode v lower upper)
    have zone: "path_ok zone" using assms(1) Time_cond by simp
    consider "mode \<noteq> M_range" | "mode = M_range" "\<not> overnight lower upper" | "mode = M_range" "overnight lower upper" by blast
    then show False
    proof cases
      case 1
      then have ok: "is_numeric_literal v" "mode \<in> {M_eq, M_gte, M_lt}" using assms(1) Time_cond in_range_numeric by auto
      have "tryParseTimeCondition (time_test f zone (time_op mode) v @ js '' && '' @ js_join (js '' && '') ?rest) \<noteq> None"
        using time 1 Time_cond ne by (simp add: js_join_Cons)
      from test_continued [OF zone ok this] obtain b where "mode = M_gte"
        "match_time_scalar (js_join (js '' && '') ?rest) = Some (f, zone, M_lt, b)" by blast
      with no_scalar_rest [OF assms(2) _ this(2), of c] assms(3) Time_cond show False by (auto simp: bound_pair_def)
    next
      case 2
      then have ok: "is_numeric_literal lower" "is_numeric_literal upper" using assms(1) Time_cond in_range_numeric by auto
      let ?second = "time_test f zone (time_op M_lt) upper @ js '' && '' @ js_join (js '' && '') ?rest"
      have "tryParseTimeCondition (time_test f zone (time_op M_gte) lower @ js '' && '' @ ?second) \<noteq> None"
        using time 2 Time_cond ne by (simp add: js_join_Cons)
      from test_continued [OF zone ok(1) _ this] scalar_continued [OF zone ok(2), of M_lt] show False by auto
    next
      case 3
      then have ok: "is_numeric_literal lower" "is_numeric_literal upper" using assms(1) Time_cond in_range_numeric by auto
      let ?t = "time_test f zone (js ''>='') lower @ js '' || '' @ time_test f zone (js ''<'') upper"
      let ?r = "[41] @ js '' && '' @ js_join (js '' && '') ?rest"
      have whole: "js_join (js '' && '') (cond_pieces c @ ?rest) = [40] @ ?t @ ?r"
        using 3 Time_cond ne by (simp add: js_join_Cons)
      have "lit (time_name g @ [40, 34]) ([40] @ x) = None" for g x by (cases g) simp_all
      then have none: "match_time_call ([40] @ x) = None" for x by (rule no_time_call)
      have "match_time_range (?t @ ?r) = Some (f, zone, lower, upper, ?r)"
        using time_range_text [OF zone ok, of ?r "js '' || ''" f] by simp
      then have "whole_time_range ([40] @ ?t @ ?r) = None"
        using none [of "?t @ ?r"] by (simp add: whole_time_range_def match_time_range_def)
      with none [of "?t @ ?r"] time whole show False
        by (simp add: tryParseTimeCondition_def match_time_scalar_def)
    qed
  qed
qed

subsection \<open>Factors and whole rules\<close>

definition group_ok :: "rule_group \<Rightarrow> bool" where
  "group_ok g \<longleftrightarrow>
     g = plain_group (rg_conditions g) (rg_multiplier g) \<and> is_numeric_literal (rg_multiplier g)
     \<and> rg_conditions g \<noteq> [] \<and> list_all condition_ok (rg_conditions g)
     \<and> (1 < length (rg_conditions g) \<longrightarrow> list_all no_stray_or (rg_conditions g))
     \<and> successively (\<lambda>c c'. \<not> bound_pair c c') (rg_conditions g)"

definition group_text :: "request_condition list \<Rightarrow> jsstring" where
  "group_text cs = combined_conditions (map buildRequestConditionExpr cs)"

lemma build_not_empty: "condition_ok c \<Longrightarrow> buildRequestConditionExpr c \<noteq> []"
proof (cases c)
  case (Request_cond header p mode v)
  assume "condition_ok c"
  with source_condition_shape(1) [of header p mode v] Request_cond show ?thesis by (auto simp: tight_def)
next
  case (Time_cond f zone mode v lower upper)
  assume "condition_ok c"
  with Time_cond build_time_scalar [of f zone mode v lower upper] build_time_range [of f zone v lower upper] show ?thesis
    by (cases "mode = M_range") (auto simp: time_test_def call_text_def)
qed

lemma group_text_pieces:
  assumes "list_all condition_ok cs" "list_all no_stray_or cs" "1 < length cs"
  shows "group_text cs = js_join (js '' && '') (concat (map cond_pieces cs))"
proof -
  have "map (bracketed \<circ> buildRequestConditionExpr) cs = map (js_join (js '' && '') \<circ> cond_pieces) cs"
    using assms(1,2) bracketed_pieces by (auto simp: list_all_iff)
  moreover have "list_all (\<lambda>ps. ps \<noteq> []) (map cond_pieces cs)"
    using assms(1) pieces_shape [of _ "[42]" 0] by (auto simp: list_all_iff)
  moreover obtain c c' cs' where "cs = c # c' # cs'" using assms(3) by (cases cs; cases "tl cs") auto
  ultimately show ?thesis
    using js_join_concat [of "map cond_pieces cs" "js '' && ''"]
    by (simp add: group_text_def combined_conditions_def flip: map_map)
qed

lemma pieces_of_conditions:
  assumes "list_all condition_ok cs" "cs \<noteq> []"
  shows "concat (map cond_pieces cs) \<noteq> []" "list_all (skips (js ''&&'') 0) (concat (map cond_pieces cs))"
    "list_all tight (concat (map cond_pieces cs))"
  using assms pieces_shape [of _ "[38, 38]" 0] by (cases cs; force simp: list_all_iff)+

lemma conditions_read_back:
  assumes "cs \<noteq> []" "list_all condition_ok cs" "1 < length cs \<longrightarrow> list_all no_stray_or cs"
    "successively (\<lambda>c c'. \<not> bound_pair c c') cs"
  shows "tryParseRequestConditions (group_text cs) = Inr (Some cs)"
proof (cases "1 < length cs")
  case True
  note pieces = pieces_of_conditions [OF assms(2,1)]
  have whole: "group_text cs = js_join (js '' && '') (concat (map cond_pieces cs))"
    using group_text_pieces assms True by blast
  have tight: "tight (js_join (js '' && '') ps)" if "ps \<noteq> []" "list_all tight ps" for ps
    using that by (induction ps rule: induct_list012) (auto simp: tight_def js_join_Cons)
  obtain c c' cs' where cs: "cs = c # c' # cs'" using True by (cases cs; cases "tl cs") auto
  have "tryParseTimeCondition (js_trim (group_text cs)) = None"
    using several_no_time [of c c' "concat (map cond_pieces cs')"] assms cs
    unfolding whole tight_trim(1) [OF tight [OF pieces(1,3)]] by simp
  moreover have "splitExpressionAtTopLevel (group_text cs) (js ''&&'') = concat (map cond_pieces cs)"
    using split_tight_pieces [OF _ pieces] unfolding whole spaced_values by simp
  ultimately show ?thesis
    using parse_pieces [OF assms(2,4)] assms(1) by (simp add: tryParseRequestConditions_def)
next
  case False
  then obtain c where cs: "cs = [c]" using assms(1) by (cases cs) auto
  have c: "condition_ok c" using assms(2) cs by simp
  have g: "group_text cs = buildRequestConditionExpr c" by (simp add: cs group_text_def combined_conditions_def)
  show ?thesis
  proof (cases c)
    case (Request_cond header p mode v)
    note shape = source_condition_shape [of header p mode v]
    have "tryParseTimeCondition (buildRequestConditionExpr c) = None"
      using source_starts [of header p mode v "[]"] c Request_cond by (simp add: source_no_time_condition)
    moreover have "splitExpressionAtTopLevel (buildRequestConditionExpr c) (js ''&&'') = [buildRequestConditionExpr c]"
      using split_tight_pieces [of "js ''&&''" "[buildRequestConditionExpr c]"] shape(1) shape(2) [of "js ''&&''" 0] c Request_cond
      by simp
    ultimately show ?thesis
      unfolding tryParseRequestConditions_def g
      using shape(1) c Request_cond parse_source_condition [of header p mode v] by (simp add: cs tight_trim)
  next
    case (Time_cond f zone mode v lower upper)
    have "tryParseTimeCondition (js_trim (buildRequestConditionExpr c)) = Some c"
    proof (cases "mode = M_range")
      case False
      then have "is_numeric_literal v" "path_ok zone" using c Time_cond in_range_numeric by auto
      with False c Time_cond build_time_scalar [of f zone mode v lower upper] parse_time_scalar [of f zone mode v lower upper]
        tight_trim(1) [OF tight_time_test] show ?thesis by simp
    next
      case True
      then have n: "is_numeric_literal lower" "is_numeric_literal upper" "path_ok zone"
        using c Time_cond in_range_numeric by auto
      have "tight (time_test f zone (js ''>='') lower @ sep @ time_test f zone (js ''<'') upper)" for sep
        using tight_time_test [OF n(3,1), of f "js ''>=''"] tight_time_test [OF n(3,2), of f "js ''<''"]
        by (simp add: tight_def)
      from tight_trim(1) [OF this] True c Time_cond build_time_range [of f zone v lower upper]
        parse_time_range(1) [of f zone v lower upper] show ?thesis by (simp del: js_Cons)
    qed
    with g cs show ?thesis by (simp add: tryParseRequestConditions_def)
  qed
qed

lemma match_factor_text:
  assumes "condition \<noteq> []" "is_numeric_literal m"
  shows "match_factor ([40] @ condition @ js '' ? '' @ m @ js '' : 1)'') = Some (condition, m)"
proof -
  have "rev ([40] @ condition @ js '' ? '' @ m @ js '' : 1)'')
      = rev (js '' : 1)'') @ rev m @ rev (js '' ? '') @ rev condition @ [40]" by simp
  moreover have "run_of number_char (rev m @ rev (js '' ? '') @ rev condition @ [40])
      = Some (rev m, rev (js '' ? '') @ rev condition @ [40])"
    using numeric_number_chars [OF assms(2)] by (intro run_of_append) auto
  ultimately show ?thesis
    unfolding match_factor_def using assms(1) by (simp only: lit_append Option.bind.simps prod.case) simp
qed

lemma factor_text: "group_ok g \<Longrightarrow> buildRuleGroupFactor g =
    [40] @ (group_text (rg_conditions g) @ js '' ? '' @ rg_multiplier g @ js '' : 1'') @ [41]"
proof -
  assume g: "group_ok g"
  have "nonempty_texts (map buildRequestConditionExpr (rg_conditions g)) = map buildRequestConditionExpr (rg_conditions g)"
    using g build_not_empty by (auto simp: group_ok_def list_all_iff filter_id_conv)
  with g show ?thesis
    by (simp add: buildRuleGroupFactor_def group_text_def group_ok_def numeric_trimmed)
qed

lemma group_text_skips:
  assumes "cs \<noteq> []" "list_all condition_ok cs" "1 < length cs \<longrightarrow> list_all no_stray_or cs"
  shows "skips (js ''*'') 1 (group_text cs) \<and> group_text cs \<noteq> []"
proof -
  have join: "skips (js ''*'') 1 (js_join (js '' && '') ps)" if "list_all (skips (js ''*'') 1) ps" for ps
    using that
  proof (induction ps rule: induct_list012)
    case (3 p q ps)
    have "skips (js ''*'') 1 (js '' && '')" by (intro skips_inside) auto
    with 3 show ?case by (auto intro!: skips_append simp del: js_Cons)
  qed auto
  have each: "list_all (skips (js ''*'') 1) (cond_pieces c)" if "condition_ok c" for c
    using pieces_shape [OF that, of "js ''*''" 1] by (auto simp: list_all_iff)
  show ?thesis
  proof (cases "1 < length cs")
    case True
    have "list_all (skips (js ''*'') 1) (concat (map cond_pieces cs))"
      using assms(2) each by (fastforce simp: list_all_iff)
    moreover have "concat (map cond_pieces cs) \<noteq> [] \<and> list_all tight (concat (map cond_pieces cs))"
      using pieces_of_conditions [OF assms(2,1)] by simp
    moreover have "js_join sep ps \<noteq> []" if "ps \<noteq> []" "list_all tight ps" for sep ps
      using that by (cases ps; cases "tl ps") (auto simp: tight_def)
    ultimately show ?thesis using group_text_pieces [OF assms(2)] True assms(3) join by simp
  next
    case False
    then obtain c where cs: "cs = [c]" using assms(1) by (cases cs) auto
    have c: "condition_ok c" using assms(2) cs by simp
    have "skips (js ''*'') 1 (buildRequestConditionExpr c)"
    proof (cases c)
      case (Request_cond header p mode v)
      with c source_condition_shape(2) [of header p mode v "js ''*''" 1] show ?thesis by simp
    next
      case (Time_cond f zone mode v lower upper)
      show ?thesis
      proof (cases "mode = M_range")
        case True
        then have n: "is_numeric_literal lower" "is_numeric_literal upper" using c Time_cond in_range_numeric by auto
        have "skips (js ''*'') 1 (js '' || '')" "skips (js ''*'') 1 (js '' && '')" by (intro skips_inside; auto)+
        then have "skips (js ''*'') 1 (if overnight lower upper then js '' || '' else js '' && '')" by simp
        then have "skips (js ''*'') 1 (time_test f zone (js ''>='') lower
            @ (if overnight lower upper then js '' || '' else js '' && '') @ time_test f zone (js ''<'') upper)"
          using n by (intro skips_append skips_time_test) auto
        with True c Time_cond build_time_range [of f zone v lower upper] show ?thesis by (simp del: js_Cons)
      next
        case False
        with c Time_cond each [OF c] build_time_scalar [of f zone mode v lower upper] show ?thesis by simp
      qed
    qed
    then show ?thesis using build_not_empty [OF c] by (simp add: cs group_text_def combined_conditions_def)
  qed
qed

lemma factor_shape:
  assumes "group_ok g"
  shows "tight (buildRuleGroupFactor g) \<and> skips (js ''*'') 0 (buildRuleGroupFactor g)
    \<and> tryParseRuleGroupFactor (buildRuleGroupFactor g) = Inr (Some g)"
proof -
  let ?cs = "rg_conditions g"
  let ?inner = "group_text ?cs @ js '' ? '' @ rg_multiplier g @ js '' : 1''"
  have cs: "?cs \<noteq> []" "list_all condition_ok ?cs" "1 < length ?cs \<longrightarrow> list_all no_stray_or ?cs"
    "successively (\<lambda>c c'. \<not> bound_pair c c') ?cs" and m: "is_numeric_literal (rg_multiplier g)"
    and g: "g = plain_group ?cs (rg_multiplier g)"
    using assms by (simp_all add: group_ok_def)
  note text_skips = group_text_skips [OF cs(1-3)]
  have "skips (js ''*'') 1 (rg_multiplier g)"
    using numeric_number_chars [OF m] by (intro skips_inside) (auto simp: list_all_iff number_char_def is_digit_def)
  moreover have "skips (js ''*'') 1 (js '' ? '')" "skips (js ''*'') 1 (js '' : 1'')" by (intro skips_inside; auto)+
  ultimately have "skips (js ''*'') 1 ?inner" using text_skips by (intro skips_append) auto
  then have "skips (js ''*'') 0 ([40] @ ?inner @ [41])" by (intro skips_parens) auto
  moreover have "match_factor ([40] @ ?inner @ [41]) = Some (group_text ?cs, rg_multiplier g)"
    using match_factor_text [OF _ m, of "group_text ?cs"] text_skips by simp
  ultimately show ?thesis
    using conditions_read_back [OF cs] g unfolding factor_text [OF assms]
    by (simp add: tryParseRuleGroupFactor_def tight_def is_space_def)
qed

lemma parse_factors_all: "list_all group_ok gs \<Longrightarrow> parse_factors (map buildRuleGroupFactor gs) = Inr (Some gs)"
  by (induction gs) (auto simp: factor_shape)

lemma tight_join: "ps \<noteq> [] \<Longrightarrow> list_all tight ps \<Longrightarrow> tight (js_join (js '' * '') ps)"
  by (induction ps rule: induct_list012) (auto simp: tight_def js_join_Cons)

text \<open>The written rules are the factors of their groups, each of which the splitter keeps whole.\<close>

lemma rule_factors:
  assumes "list_all group_ok groups" and "groups \<noteq> []"
  shows "buildRequestRuleExpr groups = js_join (js '' * '') (map buildRuleGroupFactor groups)"
    and "list_all (skips (js ''*'') 0) (map buildRuleGroupFactor groups)"
    and "list_all tight (map buildRuleGroupFactor groups)" and "tight (buildRequestRuleExpr groups)"
proof -
  let ?fs = "map buildRuleGroupFactor groups"
  show fs: "list_all (skips (js ''*'') 0) ?fs" "list_all tight ?fs"
    using assms factor_shape by (auto simp: list_all_iff)
  have "nonempty_texts ?fs = ?fs" using fs(2) by (auto simp: list_all_iff tight_def filter_id_conv)
  then show whole: "buildRequestRuleExpr groups = js_join (js '' * '') ?fs" by (simp add: buildRequestRuleExpr_def)
  show "tight (buildRequestRuleExpr groups)" using tight_join [OF _ fs(2)] assms(2) unfolding whole by simp
qed

lemma rules_read_back:
  assumes "list_all group_ok groups"
  shows "tryParseRequestRuleExpr (buildRequestRuleExpr groups) = Inr (Some groups)"
proof (cases "groups = []")
  case True
  then show ?thesis by (simp add: tryParseRequestRuleExpr_def buildRequestRuleExpr_def js_trim_def)
next
  case False
  note fs = rule_factors [OF assms False]
  have "splitExpressionAtTopLevel (buildRequestRuleExpr groups) (js ''*'') = map buildRuleGroupFactor groups"
    using split_tight_pieces [OF _ _ fs(2,3)] False unfolding fs(1) spaced_values by simp
  then show ?thesis
    using fs(4) parse_factors_all [OF assms] by (simp add: tryParseRequestRuleExpr_def tight_trim) (simp add: tight_def)
qed

text \<open>
  C38: the rule editor reads back what it writes. Rules whose conditions are the readable ones, with
  paths and zones without quotes and control characters, are read back as themselves: the same
  groups, conditions, bounds and multipliers.
\<close>

theorem request_rules_roundtrip:
  assumes "list_all group_ok groups"
  shows "tryParseRequestRuleExpr (buildRequestRuleExpr groups) = Inr (Some groups)"
  using assms by (rule rules_read_back)

definition sample_groups :: "rule_group list" where
  "sample_groups =
     [plain_group [Time_cond Hour (js ''UTC'') M_range [] (js ''21'') (js ''6''),
        Request_cond False (js ''service_tier'') M_eq (js ''fast'')] (js ''3''),
      plain_group [Request_cond True (js ''X-Beta'') M_contains (js ''a'')] (js ''0.5'')]"

theorem request_rules_roundtrip_witness:
  "tryParseRequestRuleExpr (buildRequestRuleExpr sample_groups) = Inr (Some sample_groups)"
proof -
  have "list_all group_ok sample_groups" by code_simp
  then show ?thesis by (rule request_rules_roundtrip)
qed

text \<open>
  C39: a comparison of a request parameter is written but not read. The editor writes it as two
  tests joined by \<open>&&\<close>; the reader splits there before it looks for the pair, and refuses the second
  half. So a rule with such a condition is never read back, whatever its path and its bound.
\<close>

theorem parameter_comparison_not_read:
  assumes "path_ok p" and "is_numeric_literal v" and "mode \<in> {M_gt, M_gte, M_lt, M_lte}"
  shows "tryParseRequestConditions (buildRequestConditionExpr (Request_cond False p mode v)) = Inr None"
proof -
  let ?call = "call_text (js ''param'') p"
  let ?first = "?call @ js '' != nil''"
  let ?second = "?call @ [32] @ compare_op mode @ [32] @ v"
  have source: "js ''param'' = source_name False" by (simp add: source_name_def)
  have op: "compare_op mode \<in> {js ''>'', js ''>='', js ''<'', js ''<=''}" using assms(3) by auto
  have "normalizeCondition (partial_of (Request_cond False p mode v)) = Request_cond False p mode v"
    using assms(3) by (auto simp: normalizeCondition_def or_empty_def checked_mode_def MATCH_MODES_def match_options_def
        SOURCE_TIME_def SOURCE_HEADER_def SOURCE_PARAM_def)
  then have whole: "buildRequestConditionExpr (Request_cond False p mode v) = js_join (js '' && '') [?first, ?second]"
    using assms numeric_trimmed [OF assms(2)]
    by (auto simp: buildRequestConditionExpr_def build_source_condition_def path_ok_def)
  have v: "list_all number_char v" "v \<noteq> []" using numeric_number_chars [OF assms(2)] by auto
  have call: "skips (js ''&&'') 0 ?call" by (intro skips_call) (auto simp: plain_char_def)
  have "skips (js ''&&'') 0 (js '' != nil'')" "skips (js ''&&'') 0 ([32] @ compare_op mode @ [32] @ v)"
    using op number_plain [OF assms(2), of "js ''&&''"] by (intro skips_plain; auto simp: plain_char_def)+
  then have skips: "list_all (skips (js ''&&'') 0) [?first, ?second]" using call by (auto intro!: skips_append)
  have tight: "list_all tight [?first, ?second]"
    using v number_char_not_space by (auto simp: tight_def call_text_def is_space_def list_all_iff)
  have "tryParseTimeCondition (js_trim (buildRequestConditionExpr (Request_cond False p mode v))) = None"
  proof -
    have "starts_source (js_join (js '' && '') [?first, ?second])"
      using call_text_source [OF assms(1), of False] by (simp add: source_name_def)
    moreover have "tight (js_join (js '' && '') [?first, ?second])" using tight by (auto simp: tight_def call_text_def is_space_def)
    ultimately show ?thesis unfolding whole by (simp only: tight_trim(1) source_no_time_condition)
  qed
  moreover have "splitExpressionAtTopLevel (js_join (js '' && '') [?first, ?second]) (js ''&&'') = [?first, ?second]"
    using split_tight_pieces [OF _ _ skips tight] unfolding spaced_values by simp
  moreover have "parse_parts [?first, ?second] = Inr None"
  proof -
    have m: "match_call (js ''param'') (?call @ r) = Some (p, r)" for r by (rule match_call_text [OF assms(1)])
    have h: "match_call (js ''header'') (?call @ r) = None" for r
      using other_source [OF assms(1), of False] by (simp add: source_name_def)
    have t: "tryParseTimeCondition (?call @ r) = None" for r
      using source_no_time_condition [OF call_text_source [OF assms(1)]] unfolding source by blast
    have no_has': "match_has name (?call @ r) = None" for name r unfolding source by (rule no_has [OF assms(1)])
    have first: "tryParseRequestCondition ?first = Inr (Some (Request_cond False p M_exists []))"
      using m h t by (simp add: tryParseRequestCondition_def match_header_exists_def match_param_exists_def)
    have "match_equals ?second = None" "match_param_exists ?second = None" "match_param_guard ?second = None"
      using m [of "[32] @ compare_op mode @ [32] @ v"] op
      by (auto simp: match_equals_def match_param_exists_def match_param_guard_def)
    then have "tryParseRequestCondition ?second = Inr None"
      using t no_has' h
      by (simp add: tryParseRequestCondition_def match_header_exists_def match_param_contains_def match_param_compare_def)
    moreover have "tryParseTimeRangePair ?first ?second = None" using t by (simp add: tryParseTimeRangePair_def)
    ultimately show ?thesis using first by simp
  qed
  ultimately show ?thesis unfolding tryParseRequestConditions_def whole by (simp del: js_Cons)
qed

theorem parameter_comparison_not_read_witness:
  "tryParseRequestConditions (buildRequestConditionExpr (Request_cond False (js ''n'') M_gt (js ''5''))) = Inr None
   \<and> buildRequestConditionExpr (Request_cond False (js ''n'') M_gt (js ''5''))
     = js ''param(\"n\") != nil && param(\"n\") > 5''"
proof
  have "path_ok (js ''n'')" "is_numeric_literal (js ''5'')" by code_simp+
  from parameter_comparison_not_read [OF this, of M_gt]
  show "tryParseRequestConditions (buildRequestConditionExpr (Request_cond False (js ''n'') M_gt (js ''5''))) = Inr None"
    by blast
  show "buildRequestConditionExpr (Request_cond False (js ''n'') M_gt (js ''5''))
     = js ''param(\"n\") != nil && param(\"n\") > 5''"
    by code_simp
qed

end
