(* ===== verification/Billing_Task_Tiers.thy ===== *)
theory Billing_Task_Tiers
  imports Billing_Display Js_Json
begin

section \<open>Price tiers of task expressions\<close>

text \<open>
  The second half of \<open>billing-expression/display.ts\<close>: \<open>taskConditions\<close>, \<open>taskTier\<close> and
  \<open>readTaskTierChain\<close>, which read the tiers of an expression over the usage facts of a task
  plugin. The schema of the facts is a map from field names; a field that a plugin dropped is
  absent from it.
\<close>

subsection \<open>Model\<close>

datatype usage_type = Type_number | Type_boolean

datatype usage_unit = Per_second | Per_count | Per_token | Per_credit

record usage_field =
  uf_type :: "usage_type option"
  uf_unit :: "usage_unit option"
  uf_enum :: "jsstring list option"

type_synonym usage_schema = "(jsstring \<times> usage_field) list"

text \<open>\<open>schema[field]\<close>: an inherited property is a definition without type, unit and enumeration.\<close>

definition schema_field :: "usage_schema \<Rightarrow> jsstring \<Rightarrow> usage_field option" where
  "schema_field schema name =
     (case map_of schema name of
        Some field \<Rightarrow> Some field
      | None \<Rightarrow>
          if name \<in> set prototype_keys then Some \<lparr>uf_type = None, uf_unit = None, uf_enum = None\<rparr>
          else None)"

type_synonym task_condition = "jsstring \<times> jsstring"

record task_tier =
  ta_label :: jsstring
  ta_conditions :: "task_condition list"
  ta_constant :: jsnum
  ta_unit_prices :: "(jsstring \<times> jsnum) list"

text \<open>\<open>u("field")\<close>\<close>

definition usage_call :: "expression_node \<Rightarrow> jsstring option" where
  "usage_call node =
     (case node of
        Call Fn_u (Literal (L_string name) _ _ _ # _) _ _ \<Rightarrow> Some name
      | _ \<Rightarrow> None)"

text \<open>A term \<open>u("field") == literal\<close> of the condition.\<close>

definition usage_equation :: "expression_node \<Rightarrow> (jsstring \<times> literal_value) option" where
  "usage_equation term =
     (case term of
        Binary Op_eq call (Literal l _ _ _) _ _ \<Rightarrow>
          (case usage_call call of Some name \<Rightarrow> Some (name, l) | None \<Rightarrow> None)
      | _ \<Rightarrow> None)"

text \<open>What one term of a condition contributes: the condition is not understood, the term is left
  out, or it is a condition that can or cannot be met.\<close>

datatype term_result = Not_understood | Left_out bool | Understood task_condition bool

fun boolean_text :: "bool \<Rightarrow> jsstring" where
  "boolean_text True = js ''true''"
| "boolean_text False = js ''false''"

definition dropped_term :: "literal_value \<Rightarrow> term_result" where
  "dropped_term l =
     (case l of
        L_boolean b \<Rightarrow> Left_out (\<not> b)
      | L_string _ \<Rightarrow> Left_out True
      | _ \<Rightarrow> Not_understood)"

definition schema_term :: "bool \<Rightarrow> jsstring \<Rightarrow> usage_field \<Rightarrow> literal_value \<Rightarrow> term_result" where
  "schema_term include_boolean name field l =
     (if uf_type field = Some Type_boolean
      then (case l of
              L_boolean b \<Rightarrow>
                if include_boolean then Understood (name, boolean_text b) True else Not_understood
            | _ \<Rightarrow> Not_understood)
      else (case l of
              L_string s \<Rightarrow>
                (case uf_enum field of
                   None \<Rightarrow> Not_understood
                 | Some options \<Rightarrow> Understood (name, s) (s \<in> set options))
            | _ \<Rightarrow> Not_understood))"

definition term_of :: "usage_schema \<Rightarrow> bool \<Rightarrow> expression_node \<Rightarrow> term_result" where
  "term_of schema include_boolean term =
     (case usage_equation term of
        None \<Rightarrow> Not_understood
      | Some (name, l) \<Rightarrow>
          (case schema_field schema name of
             None \<Rightarrow> dropped_term l
           | Some field \<Rightarrow> schema_term include_boolean name field l))"

text \<open>The conditions of a branch and whether it can be reached.\<close>

fun task_terms :: "term_result list \<Rightarrow> (task_condition list \<times> bool) option" where
  "task_terms [] = Some ([], True)"
| "task_terms (t # ts) =
     (case t of
        Not_understood \<Rightarrow> None
      | Left_out ok \<Rightarrow> map_option (\<lambda>(cs, reachable). (cs, ok \<and> reachable)) (task_terms ts)
      | Understood c ok \<Rightarrow> map_option (\<lambda>(cs, reachable). (c # cs, ok \<and> reachable)) (task_terms ts))"

definition taskConditions ::
  "expression_node \<Rightarrow> usage_schema \<Rightarrow> bool \<Rightarrow> (task_condition list \<times> bool) option" where
  "taskConditions node schema include_boolean =
     task_terms (map (term_of schema include_boolean) (flattenBinary node Op_and))"

text \<open>A term of the price: a constant, or a usage fact times a price, divided by a million when the
  unit of the fact is the token.\<close>

definition scaled_term :: "expression_node \<Rightarrow> (expression_node \<times> bool) option" where
  "scaled_term term =
     (case term of
        Binary Op_div left (Literal (L_number m) _ _ _) _ _ \<Rightarrow>
          if js_num_eq m million then Some (left, True) else None
      | Binary Op_div _ _ _ _ \<Rightarrow> None
      | _ \<Rightarrow> Some (term, False))"

definition usage_product :: "expression_node \<Rightarrow> (jsstring \<times> jsnum) option" where
  "usage_product term =
     (case term of
        Binary Op_mul call price _ _ \<Rightarrow>
          (case usage_call call of
             None \<Rightarrow> None
           | Some name \<Rightarrow> map_option (Pair name) (nonnegativePriceLiteral price))
      | _ \<Rightarrow> None)"

record task_prices =
  tp_constant :: "jsnum option"
  tp_units :: "(jsstring \<times> jsnum) list"

definition add_unit_price ::
  "usage_schema \<Rightarrow> jsstring \<Rightarrow> jsnum \<Rightarrow> bool \<Rightarrow> task_prices \<Rightarrow> task_prices option" where
  "add_unit_price schema name price scaled prices =
     (case schema_field schema name of
        None \<Rightarrow> Some prices
      | Some field \<Rightarrow>
          if uf_type field \<noteq> Some Type_number \<or> uf_unit field = None
             \<or> name \<in> fst ` set (tp_units prices)
             \<or> (uf_unit field = Some Per_token) \<noteq> scaled
          then None
          else Some (prices\<lparr>tp_units := js_assign (tp_units prices) name price\<rparr>))"

definition task_price_term ::
  "usage_schema \<Rightarrow> expression_node \<Rightarrow> task_prices \<Rightarrow> task_prices option" where
  "task_price_term schema term prices =
     (case nonnegativePriceLiteral term of
        Some x \<Rightarrow>
          if tp_constant prices \<noteq> None then None else Some (prices\<lparr>tp_constant := Some x\<rparr>)
      | None \<Rightarrow>
          (case scaled_term term of
             None \<Rightarrow> None
           | Some (inner, scaled) \<Rightarrow>
               (case usage_product inner of
                  None \<Rightarrow> None
                | Some (name, price) \<Rightarrow> add_unit_price schema name price scaled prices)))"

fun task_price_terms ::
  "usage_schema \<Rightarrow> expression_node list \<Rightarrow> task_prices \<Rightarrow> task_prices option" where
  "task_price_terms schema [] prices = Some prices"
| "task_price_terms schema (t # ts) prices =
     (case task_price_term schema t prices of
        None \<Rightarrow> None
      | Some prices \<Rightarrow> task_price_terms schema ts prices)"

definition taskTier ::
  "expression_node \<Rightarrow> task_condition list \<Rightarrow> usage_schema \<Rightarrow> task_tier option" where
  "taskTier node conditions schema =
     (case node of
        Call Fn_tier (Literal (L_string label) _ _ _ # body # _) _ _ \<Rightarrow>
          (case task_price_terms schema (flattenBinary body Op_add) \<lparr>tp_constant = None, tp_units = []\<rparr> of
             None \<Rightarrow> None
           | Some prices \<Rightarrow>
               if tp_units prices = [] then None
               else Some \<lparr>ta_label = label, ta_conditions = conditions,
                 ta_constant = (case tp_constant prices of Some x \<Rightarrow> x | None \<Rightarrow> JFin 0),
                 ta_unit_prices = tp_units prices\<rparr>)
      | _ \<Rightarrow> None)"

text \<open>An earlier tier that asks for no more than these conditions takes the branch's requests.\<close>

definition shadowed :: "task_tier list \<Rightarrow> task_condition list \<Rightarrow> bool" where
  "shadowed tiers conditions =
     list_ex (\<lambda>earlier. list_all (\<lambda>c. c \<in> set conditions) (ta_conditions earlier)) tiers"

fun task_chain ::
  "usage_schema \<Rightarrow> bool \<Rightarrow> expression_node \<Rightarrow> task_tier list \<Rightarrow> task_tier list option" where
  "task_chain schema include_boolean (Conditional condition yes no _ _) tiers =
     (case taskConditions condition schema include_boolean of
        None \<Rightarrow> None
      | Some (conditions, reachable) \<Rightarrow>
          if reachable \<and> \<not> shadowed tiers conditions
          then (case taskTier yes conditions schema of
                  None \<Rightarrow> None
                | Some tier \<Rightarrow>
                    if conditions = [] then Some (tiers @ [tier])
                    else task_chain schema include_boolean no (tiers @ [tier]))
          else task_chain schema include_boolean no tiers)"
| "task_chain schema include_boolean node tiers =
     map_option (\<lambda>fallback. tiers @ [fallback]) (taskTier node [] schema)"

definition readTaskTierChain ::
  "expression_node \<Rightarrow> usage_schema \<Rightarrow> bool \<Rightarrow> task_tier list option" where
  "readTaskTierChain node schema include_boolean = task_chain schema include_boolean node []"

subsection \<open>The shape of a chain\<close>

text \<open>No tier is shadowed by an earlier one, and the last tier has no conditions.\<close>

fun unshadowed :: "task_tier list \<Rightarrow> task_tier list \<Rightarrow> bool" where
  "unshadowed earlier [] = True"
| "unshadowed earlier (t # ts) =
     (\<not> shadowed earlier (ta_conditions t) \<and> unshadowed (earlier @ [t]) ts)"

lemma unshadowed_snoc:
  "unshadowed e (ts @ [t]) \<longleftrightarrow> unshadowed e ts \<and> \<not> shadowed (e @ ts) (ta_conditions t)"
  by (induction ts arbitrary: e) auto

lemma taskTier_conditions: "taskTier n cs schema = Some t \<Longrightarrow> ta_conditions t = cs"
  by (auto simp: taskTier_def split: expression_node.splits billing_function.splits list.splits
      literal_value.splits option.splits if_splits)

lemma shadowed_Nil: "(\<forall>t \<in> set tiers. ta_conditions t \<noteq> []) \<Longrightarrow> \<not> shadowed tiers []"
  unfolding shadowed_def list_ex_iff list_all_iff by (metis list.set_intros(1) list.set(1) empty_iff list.exhaust)

lemma task_chain_shape:
  "task_chain schema ib n tiers = Some ts \<Longrightarrow> unshadowed [] tiers \<Longrightarrow> \<forall>t \<in> set tiers. ta_conditions t \<noteq> [] \<Longrightarrow>
   unshadowed [] ts \<and> ta_conditions (last ts) = [] \<and> (\<forall>t \<in> set (butlast ts). ta_conditions t \<noteq> []) \<and> ts \<noteq> []"
proof (induction schema ib n tiers rule: task_chain.induct)
  case (1 schema ib c y n s e tiers)
  from "1.prems"(1) obtain cs reachable where cs: "taskConditions c schema ib = Some (cs, reachable)"
    by (auto split: option.splits)
  show ?case
  proof (cases "reachable \<and> \<not> shadowed tiers cs")
    case True
    with "1.prems"(1) cs obtain t where t: "taskTier y cs schema = Some t" by (auto split: option.splits)
    have tc: "ta_conditions t = cs" using taskTier_conditions [OF t] .
    show ?thesis
    proof (cases "cs = []")
      case cs0: True
      with "1.prems"(1) cs True t have "ts = tiers @ [t]" by auto
      with "1.prems"(2,3) True tc cs0 show ?thesis by (simp add: unshadowed_snoc)
    next
      case False
      have rec: "task_chain schema ib n (tiers @ [t]) = Some ts" using "1.prems"(1) cs True t False by simp
      have "unshadowed [] (tiers @ [t])" "\<forall>u \<in> set (tiers @ [t]). ta_conditions u \<noteq> []"
        using "1.prems"(2,3) True tc False by (simp_all add: unshadowed_snoc)
      with "1.IH"(1) [OF cs _ True t False rec] show ?thesis by simp
    qed
  next
    case False
    have "task_chain schema ib n tiers = Some ts" using "1.prems"(1) cs False by auto
    with "1.IH"(2) [OF cs _ False] "1.prems"(2,3) show ?thesis by simp
  qed
qed (auto simp: unshadowed_snoc shadowed_Nil dest: taskTier_conditions)

subsection \<open>What the task tiers mean\<close>

text \<open>
  The reference: a condition holds when the usage fact has the value it names, a boolean for a
  boolean field and a text otherwise. The facts respect the schema when every fact of an
  enumerated field is one of its values.
\<close>

definition usage_fact :: "simulation_context \<Rightarrow> jsstring \<Rightarrow> jsval" where
  "usage_fact context name =
     (case ctx_usage context of
        None \<Rightarrow> VNull
      | Some facts \<Rightarrow> (case map_of facts name of Some v \<Rightarrow> v | None \<Rightarrow> VNull))"

definition named_value :: "usage_schema \<Rightarrow> task_condition \<Rightarrow> jsval" where
  "named_value schema c =
     (case schema_field schema (fst c) of
        Some field \<Rightarrow>
          if uf_type field = Some Type_boolean then VBool (snd c = js ''true'') else VStr (snd c)
      | None \<Rightarrow> VStr (snd c))"

definition task_condition_holds :: "usage_schema \<Rightarrow> simulation_context \<Rightarrow> task_condition \<Rightarrow> bool" where
  "task_condition_holds schema context c \<longleftrightarrow> usage_fact context (fst c) = named_value schema c"

definition selected_task_tier ::
  "usage_schema \<Rightarrow> simulation_context \<Rightarrow> task_tier list \<Rightarrow> task_tier option" where
  "selected_task_tier schema context tiers =
     find (\<lambda>t. list_all (task_condition_holds schema context) (ta_conditions t)) tiers"

definition facts_ok :: "usage_schema \<Rightarrow> simulation_context \<Rightarrow> bool" where
  "facts_ok schema context \<longleftrightarrow>
     (\<forall>name field options s. schema_field schema name = Some field \<longrightarrow> uf_enum field = Some options \<longrightarrow>
        usage_fact context name = VStr s \<longrightarrow> s \<in> set options)"

text \<open>Every field that a condition of the chain asks for is in the schema.\<close>

definition condition_known :: "usage_schema \<Rightarrow> expression_node \<Rightarrow> bool" where
  "condition_known schema c =
     list_all (\<lambda>t. case usage_equation t of Some (name, _) \<Rightarrow> schema_field schema name \<noteq> None | None \<Rightarrow> True)
       (flattenBinary c Op_and)"

fun fields_known :: "usage_schema \<Rightarrow> expression_node \<Rightarrow> bool" where
  "fields_known schema (Conditional c y n _ _) = (condition_known schema c \<and> fields_known schema n)"
| "fields_known schema _ = True"

lemma usage_equation_Some:
  assumes "usage_equation n = Some (name, l)"
  obtains i s1 e1 rest s2 e2 j s3 e3 s e where
    "n = Binary Op_eq (Call Fn_u (Literal (L_string name) i s1 e1 # rest) s2 e2) (Literal l j s3 e3) s e"
  using assms
  by (auto simp: usage_equation_def usage_call_def split: expression_node.splits binary_operator.splits
      option.splits billing_function.splits list.splits literal_value.splits)

lemma evaluate_usage:
  assumes "evaluate env d (Call Fn_u (Literal (L_string name) i s1 e1 # rest) s e) st = Inr (v, st')"
  shows "st' = st \<and> rv_value v = usage_fact (env_context env) name"
proof -
  from assms obtain u t where u: "evaluate env (d + 1) (Literal (L_string name) i s1 e1) st = Inr (u, st')"
    "rv_value u = VStr t" and v: "usage_value env t s = Inr v"
    unfolding evaluate_Inr [of env d] by (auto simp: rbind_eq_Inr takes_text_def)
  from evaluate_literal [OF u(1)] u(2) v show ?thesis
    by (auto simp: usage_value_def usage_fact_def split: option.splits)
qed

lemma evaluate_equation:
  assumes "usage_equation n = Some (name, l)" and "evaluate env d n st = Inr (v, st')"
  shows "st' = st \<and> rv_value v = VBool (js_strict_eq (usage_fact (env_context env) name) (literal_jsval l))"
proof -
  from assms(1) obtain i s1 e1 rest s2 e2 j s3 e3 s e where
    n: "n = Binary Op_eq (Call Fn_u (Literal (L_string name) i s1 e1 # rest) s2 e2) (Literal l j s3 e3) s e"
    by (rule usage_equation_Some)
  from assms(2) obtain a b st1 where
    a: "evaluate env (d + 1) (Call Fn_u (Literal (L_string name) i s1 e1 # rest) s2 e2) st = Inr (a, st1)"
    and b: "evaluate env (d + 1) (Literal l j s3 e3) st1 = Inr (b, st')" and v: "binary_value Op_eq a b s = Inr v"
    unfolding n by (auto elim: evaluate_strict_binary)
  from evaluate_usage [OF a] evaluate_literal [OF b] v show ?thesis
    by (auto simp: binary_value_def is_equality_def equality_value_def split: if_splits)
qed

text \<open>A term over a known field is worth exactly what the condition read from it says.\<close>

lemma term_of_known:
  assumes "term_of schema ib n = r" and "r \<noteq> Not_understood" and "facts_ok schema (env_context env)"
    and "case usage_equation n of Some (name, _) \<Rightarrow> schema_field schema name \<noteq> None | None \<Rightarrow> True"
    and "evaluate env d n st = Inr (v, st')"
  shows "\<exists>c ok. r = Understood c ok \<and> st' = st \<and> rv_value v = VBool (task_condition_holds schema (env_context env) c)
    \<and> (task_condition_holds schema (env_context env) c \<longrightarrow> ok)"
proof -
  obtain name l where eq: "usage_equation n = Some (name, l)"
    using assms(1,2) by (auto simp: term_of_def split: option.splits)
  with assms(4) obtain field where field: "schema_field schema name = Some field" by auto
  note ev = evaluate_equation [OF eq assms(5)]
  let ?u = "usage_fact (env_context env) name"
  show ?thesis
  proof (cases "uf_type field = Some Type_boolean")
    case True
    then obtain b where l: "l = L_boolean b" and r: "r = Understood (name, boolean_text b) True"
      using assms(1,2) eq field by (auto simp: term_of_def schema_term_def split: literal_value.splits if_splits)
    have "js_strict_eq ?u (VBool b) = (?u = VBool (boolean_text b = js ''true''))"
      by (cases ?u; cases b) auto
    with ev l r True field show ?thesis by (auto simp: task_condition_holds_def named_value_def)
  next
    case False
    then obtain s options where l: "l = L_string s" and opt: "uf_enum field = Some options"
      and r: "r = Understood (name, s) (s \<in> set options)"
      using assms(1,2) eq field
      by (auto simp: term_of_def schema_term_def split: literal_value.splits option.splits if_splits)
    have "js_strict_eq ?u (VStr s) = (?u = VStr s)" by (cases ?u) auto
    with ev l r False field opt assms(3) show ?thesis
      by (auto simp: task_condition_holds_def named_value_def facts_ok_def)
  qed
qed

lemma task_terms_append:
  "task_terms (xs @ ys) = Some r \<longleftrightarrow>
     (\<exists>as p bs q. task_terms xs = Some (as, p) \<and> task_terms ys = Some (bs, q) \<and> r = (as @ bs, p \<and> q))"
proof (induction xs arbitrary: r)
  case (Cons t ts)
  then show ?case by (cases t) (fastforce split: prod.splits)+
qed (auto split: prod.splits)

lemma taskConditions_known:
  assumes "facts_ok schema (env_context env)"
  shows "taskConditions n schema ib = Some (cs, reachable) \<Longrightarrow> condition_known schema n \<Longrightarrow>
    evaluate env d n st = Inr (v, st') \<Longrightarrow>
    st' = st \<and> rv_value v = VBool (list_all (task_condition_holds schema (env_context env)) cs)
    \<and> (list_all (task_condition_holds schema (env_context env)) cs \<longrightarrow> reachable)"
proof (induction n Op_and arbitrary: cs reachable d v st' rule: flattenBinary.induct)
  case (1 p l r s e)
  show ?case
  proof (cases "p = Op_and")
    case True
    with "1.prems"(1,2) obtain as x bs y where l: "taskConditions l schema ib = Some (as, x)" "condition_known schema l"
      and r: "taskConditions r schema ib = Some (bs, y)" "condition_known schema r"
      and cs: "cs = as @ bs" "reachable = (x \<and> y)"
      by (auto simp: taskConditions_def condition_known_def task_terms_append)
    from "1.prems"(3) True obtain a b st1 where a: "evaluate env (d + 1) l st = Inr (a, st1)" "rv_value a = VBool b"
      and rest: "if b then (\<exists>w c. evaluate env (d + 1) r st1 = Inr (w, st') \<and> rv_value w = VBool c \<and> rv_value v = VBool c)
        else st' = st1 \<and> rv_value v = VBool False"
      by (auto elim: evaluate_and)
    note L = "1.hyps"(1) [OF True l a(1)]
    show ?thesis
    proof (cases b)
      case bt: True
      with rest obtain w c where w: "evaluate env (d + 1) r st1 = Inr (w, st')" "rv_value w = VBool c" "rv_value v = VBool c"
        by auto
      from L have "st1 = st" by simp
      with "1.hyps"(2) [OF True r] w L bt a(2) show ?thesis by (auto simp: cs)
    next
      case False
      with rest L a(2) show ?thesis by (auto simp: cs)
    qed
  next
    case False
    let ?n = "Binary p l r s e"
    from False "1.prems"(1) have nu: "term_of schema ib ?n \<noteq> Not_understood"
      by (auto simp: taskConditions_def)
    have known: "case usage_equation ?n of Some (name, _) \<Rightarrow> schema_field schema name \<noteq> None | None \<Rightarrow> True"
      using False "1.prems"(2) by (simp add: condition_known_def)
    from term_of_known [OF refl nu assms known "1.prems"(3)] False "1.prems"(1) show ?thesis
      by (auto simp: taskConditions_def)
  qed
qed (auto simp: taskConditions_def term_of_def usage_equation_def)

lemma task_chain_prefix: "task_chain schema ib n tiers = Some ts \<Longrightarrow> \<exists>us. ts = tiers @ us"
  by (induction schema ib n tiers rule: task_chain.induct)
    (fastforce split: option.splits if_splits)+

lemma evaluate_task_tier:
  assumes "taskTier n cs schema = Some t" and "evaluate env d n st = Inr (v, st')"
  shows "rs_matched_tier st' = ta_label t"
proof -
  from assms(1) obtain i s1 e1 body rest s e where
    n: "n = Call Fn_tier (Literal (L_string (ta_label t)) i s1 e1 # body # rest) s e"
    by (auto simp: taskTier_def split: expression_node.splits billing_function.splits list.splits
        literal_value.splits option.splits if_splits)
  from assms(2) show ?thesis
    unfolding n evaluate_Inr [of env d]
    by (auto simp: rbind_eq_Inr takes_text_def is_time_function_def dest!: evaluate_literal)
qed

lemma task_fallback:
  "taskTier n [] schema = Some t \<Longrightarrow> evaluate env d n st = Inr (v, st') \<Longrightarrow>
   ta_conditions t = [] \<and> rs_matched_tier st' = ta_label t"
  using evaluate_task_tier taskTier_conditions by blast

lemma find_append_None: "(\<forall>x \<in> set xs. \<not> P x) \<Longrightarrow> find P (xs @ ys) = find P ys"
  by (induction xs) auto

lemma task_chain_selected:
  "task_chain schema ib n tiers = Some ts \<Longrightarrow> fields_known schema n \<Longrightarrow>
    evaluate env d n st = Inr (v, st') \<Longrightarrow>
    \<forall>t \<in> set tiers. \<not> list_all (task_condition_holds schema (env_context env)) (ta_conditions t) \<Longrightarrow>
    facts_ok schema (env_context env) \<Longrightarrow>
    \<exists>t. selected_task_tier schema (env_context env) ts = Some t \<and> rs_matched_tier st' = ta_label t"
proof (induction schema ib n tiers arbitrary: d st rule: task_chain.induct)
  case (1 schema ib c y n s e tiers)
  let ?holds = "list_all (task_condition_holds schema (env_context env))"
  note prems = "1.prems"
  from prems(1) obtain cs reachable where cs: "taskConditions c schema ib = Some (cs, reachable)"
    by (auto split: option.splits)
  from prems(3) obtain w st1 b where w: "evaluate env (d + 1) c st = Inr (w, st1)" "rv_value w = VBool b"
    and br: "evaluate env (d + 1) (if b then y else n) (mark_rule env (Conditional c y n s e) b st1) = Inr (v, st')"
    by (rule evaluate_conditional)
  have b: "b = ?holds cs" "?holds cs \<longrightarrow> reachable"
    using taskConditions_known [OF prems(5) cs _ w(1)] prems(2) w(2) by auto
  have kn: "fields_known schema n" using prems(2) by simp
  show ?case
  proof (cases "reachable \<and> \<not> shadowed tiers cs")
    case True
    with prems(1) cs obtain t where t: "taskTier y cs schema = Some t" by (auto split: option.splits)
    have tc: "ta_conditions t = cs" using taskTier_conditions [OF t] .
    show ?thesis
    proof (cases b)
      case bt: True
      have "\<exists>us. ts = (tiers @ [t]) @ us"
        using prems(1) cs True t task_chain_prefix [of schema ib n "tiers @ [t]"] by (auto split: if_splits)
      then have "selected_task_tier schema (env_context env) ts = Some t"
        using prems(4) b bt tc by (auto simp: selected_task_tier_def find_append_None)
      with evaluate_task_tier [OF t] br bt show ?thesis by auto
    next
      case False
      then have ne: "cs \<noteq> []" using b by auto
      have rec: "task_chain schema ib n (tiers @ [t]) = Some ts" using prems(1) cs True t ne by simp
      have "evaluate env (d + 1) n (mark_rule env (Conditional c y n s e) b st1) = Inr (v, st')" using br False by simp
      from "1.IH"(1) [OF cs refl True t ne rec kn this] prems(4,5) False b tc show ?thesis by auto
    qed
  next
    case False
    have "\<not> b"
    proof
      assume b': b
      then have "shadowed tiers cs" using False b by auto
      then obtain t where "t \<in> set tiers" "\<forall>k \<in> set (ta_conditions t). k \<in> set cs"
        by (auto simp: shadowed_def list_ex_iff list_all_iff)
      with prems(4) b b' show False by (auto simp: list_all_iff)
    qed
    then have ev: "evaluate env (d + 1) n (mark_rule env (Conditional c y n s e) b st1) = Inr (v, st')" using br by simp
    have "task_chain schema ib n tiers = Some ts" using prems(1) cs False by auto
    from "1.IH"(2) [OF cs refl False this kn ev] prems(4,5) show ?thesis by auto
  qed
qed (auto simp: selected_task_tier_def find_append_None dest!: task_fallback)

subsection \<open>Properties\<close>

text \<open>
  A chain of task tiers has no dead rows. No tier of a chain is shadowed by an earlier one, and
  the chain ends with its only tier without conditions.
\<close>

theorem task_tiers_unshadowed:
  assumes "readTaskTierChain n schema include_boolean = Some tiers"
  shows "unshadowed [] tiers \<and> tiers \<noteq> [] \<and> ta_conditions (last tiers) = []
    \<and> (\<forall>t \<in> set (butlast tiers). ta_conditions t \<noteq> [])"
  using task_chain_shape [of schema include_boolean n "[]" tiers] assms by (simp add: readTaskTierChain_def)

definition sample_schema :: usage_schema where
  "sample_schema =
     [(js ''n'', \<lparr>uf_type = Some Type_number, uf_unit = Some Per_second, uf_enum = None\<rparr>),
      (js ''m'', \<lparr>uf_type = None, uf_unit = None, uf_enum = Some [js ''hd'', js ''sd'']\<rparr>)]"

definition sample_price :: "jsstring \<Rightarrow> rat \<Rightarrow> expression_node" where
  "sample_price label x =
     Call Fn_tier [Literal (L_string label) False 5 8,
       Binary Op_mul (Call Fn_u [Literal (L_string (js ''n'')) False 12 15] 10 16)
         (Literal (L_number (JFin x)) True 19 20) 10 20] 0 21"

definition sample_task :: expression_node where
  "sample_task =
     Conditional (Binary Op_eq (Call Fn_u [Literal (L_string (js ''m'')) False 2 5] 0 6)
         (Literal (L_string (js ''hd'')) False 10 14) 0 14)
       (sample_price (js ''a'') 2) (sample_price (js ''b'') 1) 0 60"

theorem task_tiers_unshadowed_witness:
  "\<exists>tiers. readTaskTierChain sample_task sample_schema True = Some tiers \<and> length tiers = 2
     \<and> unshadowed [] tiers"
proof -
  have "map_option length (readTaskTierChain sample_task sample_schema True) = Some 2" by code_simp
  then obtain tiers where "readTaskTierChain sample_task sample_schema True = Some tiers" "length tiers = 2"
    by auto
  with task_tiers_unshadowed show ?thesis by blast
qed

text \<open>
  C15: the task table tells the truth. When all fields of the conditions are in the schema and the
  facts of enumerated fields are among their values, an evaluation of the expression records the
  label of the first tier of the table whose conditions hold, although the reader has left out the
  branches that cannot be reached and those that are shadowed.
\<close>

theorem task_table_sound:
  assumes "readTaskTierChain n schema include_boolean = Some tiers" and "fields_known schema n"
    and "facts_ok schema (env_context env)" and "evaluate env d n st = Inr (v, st')"
  shows "\<exists>t. selected_task_tier schema (env_context env) tiers = Some t \<and> rs_matched_tier st' = ta_label t"
  using task_chain_selected [OF _ assms(2,4), of include_boolean "[]" tiers] assms(1,3)
  by (simp add: readTaskTierChain_def)

theorem task_table_sound_witness:
  "\<exists>tiers t v st'. readTaskTierChain sample_task sample_schema True = Some tiers
     \<and> evaluate \<lparr>env_compiled = \<lparr>comp_source = [], comp_ast = sample_task, comp_variables = {},
            comp_functions = {}, comp_rules = []\<rparr>,
          env_context = empty_context\<lparr>ctx_usage := Some [(js ''m'', VStr (js ''sd'')), (js ''n'', VNum (JFin 5))]\<rparr>,
          env_headers = Map.empty, env_now = None, env_intl = (\<lambda>_. None)\<rparr> 0 sample_task
          \<lparr>rs_rules = [], rs_matched_tier = [], rs_unit = Unit_token, rs_fixed_price = None, rs_times = []\<rparr>
        = Inr (v, st')
     \<and> selected_task_tier sample_schema (empty_context\<lparr>ctx_usage :=
          Some [(js ''m'', VStr (js ''sd'')), (js ''n'', VNum (JFin 5))]\<rparr>) tiers = Some t
     \<and> rs_matched_tier st' = ta_label t \<and> ta_label t = js ''b''"
proof -
  let ?ctx = "empty_context\<lparr>ctx_usage := Some [(js ''m'', VStr (js ''sd'')), (js ''n'', VNum (JFin 5))]\<rparr>"
  let ?env = "\<lparr>env_compiled = \<lparr>comp_source = [], comp_ast = sample_task, comp_variables = {},
      comp_functions = {}, comp_rules = []\<rparr>, env_context = ?ctx, env_headers = Map.empty, env_now = None,
      env_intl = (\<lambda>_. None)\<rparr>"
  let ?st = "\<lparr>rs_rules = [], rs_matched_tier = [], rs_unit = Unit_token, rs_fixed_price = None, rs_times = []\<rparr>"
  have "case readTaskTierChain sample_task sample_schema True of
      Some tiers \<Rightarrow> length tiers = 2 | None \<Rightarrow> False" by code_simp
  then obtain tiers where tiers: "readTaskTierChain sample_task sample_schema True = Some tiers"
    by (auto split: option.splits)
  have "case evaluate ?env 0 sample_task ?st of
      Inr (v, st) \<Rightarrow> rs_matched_tier st = js ''b'' | Inl _ \<Rightarrow> False" by code_simp
  then obtain v st' where ev: "evaluate ?env 0 sample_task ?st = Inr (v, st')" "rs_matched_tier st' = js ''b''"
    by (auto split: sum.splits)
  have known: "fields_known sample_schema sample_task" by code_simp
  have facts: "facts_ok sample_schema (env_context ?env)"
    by (auto simp: facts_ok_def sample_schema_def schema_field_def usage_fact_def split: if_splits)
  from task_table_sound [OF tiers known facts ev(1)] tiers ev show ?thesis by auto
qed

end
