(* ===== verification/Billing_Rules.thy ===== *)
theory Billing_Rules
  imports Rules_Roundtrip Billing_Task_Tiers
begin

section \<open>Expressions with request rules\<close>

text \<open>
  The first half of \<open>features/pricing/lib/billing-expr.ts\<close>: the registry of token variables, the tables
  of tiers that the price breakdown shows, and the separation of an expression into its base and its
  request rules, which \<open>combineBillingExpr\<close> of \<open>Request_Rules\<close> puts together again.
\<close>

subsection \<open>The registry\<close>

datatype var_side = Side_input | Side_output | Side_condition

record billing_var =
  bv_key :: jsstring
  bv_field :: "jsstring option"
  bv_tier_field :: "jsstring option"
  bv_label :: jsstring
  bv_short_label :: jsstring
  bv_side :: var_side
  bv_base :: bool
  bv_condition_only :: bool
  bv_group :: "jsstring option"

definition billing_var_of ::
  "jsstring \<Rightarrow> jsstring option \<Rightarrow> jsstring option \<Rightarrow> jsstring \<Rightarrow> jsstring \<Rightarrow> var_side \<Rightarrow> bool \<Rightarrow> bool
     \<Rightarrow> jsstring option \<Rightarrow> billing_var" where
  "billing_var_of key field tier_field label short_label side base condition_only group_name =
     \<lparr>bv_key = key, bv_field = field, bv_tier_field = tier_field, bv_label = label,
      bv_short_label = short_label, bv_side = side, bv_base = base, bv_condition_only = condition_only,
      bv_group = group_name\<rparr>"

definition BILLING_VARS :: "billing_var list" where
  "BILLING_VARS =
     [billing_var_of (js ''p'') (Some (js ''inputPrice'')) (Some (js ''input_unit_cost'')) (js ''Input price'') (js ''Input'') Side_input True False None,
      billing_var_of (js ''c'') (Some (js ''outputPrice'')) (Some (js ''output_unit_cost'')) (js ''Completion price'') (js ''Output'') Side_output True False None,
      billing_var_of (js ''len'') None None (js ''Input length'') (js ''Length'') Side_condition False True None,
      billing_var_of (js ''cr'') (Some (js ''cacheReadPrice'')) (Some (js ''cache_read_unit_cost'')) (js ''Cache read price'') (js ''Cache Read'') Side_input False False (Some (js ''cache'')),
      billing_var_of (js ''cc'') (Some (js ''cacheCreatePrice'')) (Some (js ''cache_create_unit_cost'')) (js ''Cache create price'') (js ''Cache Write'') Side_input False False (Some (js ''cache'')),
      billing_var_of (js ''img_cr'') (Some (js ''imageCachePrice'')) (Some (js ''image_cache_unit_cost'')) (js ''Image cache input price'') (js ''Image Cache'') Side_input False False (Some (js ''cache'')),
      billing_var_of (js ''cc1h'') (Some (js ''cacheCreate1hPrice'')) (Some (js ''cache_create_1h_unit_cost'')) (js ''Cache create (1h) price'') (js ''Cache Write (1h)'') Side_input False False (Some (js ''cache'')),
      billing_var_of (js ''img'') (Some (js ''imagePrice'')) (Some (js ''image_unit_cost'')) (js ''Image input price'') (js ''Image In'') Side_input False False (Some (js ''media'')),
      billing_var_of (js ''img_o'') (Some (js ''imageOutputPrice'')) (Some (js ''image_output_unit_cost'')) (js ''Image output price'') (js ''Image Out'') Side_output False False (Some (js ''media'')),
      billing_var_of (js ''ai'') (Some (js ''audioInputPrice'')) (Some (js ''audio_input_unit_cost'')) (js ''Audio input price'') (js ''Audio In'') Side_input False False (Some (js ''media'')),
      billing_var_of (js ''ao'') (Some (js ''audioOutputPrice'')) (Some (js ''audio_output_unit_cost'')) (js ''Audio output price'') (js ''Audio Out'') Side_output False False (Some (js ''media''))]"

definition BILLING_PRICING_VARS :: "billing_var list" where
  "BILLING_PRICING_VARS = filter (\<lambda>v. \<not> bv_condition_only v) BILLING_VARS"

definition BILLING_CONDITION_VARS :: "jsstring list" where
  "BILLING_CONDITION_VARS = map bv_key (filter (\<lambda>v. bv_base v \<or> bv_condition_only v) BILLING_VARS)"

definition BILLING_VAR_KEY_TO_FIELD :: "(jsstring \<times> jsstring) list" where
  "BILLING_VAR_KEY_TO_FIELD =
     map (\<lambda>v. (bv_key v, case bv_field v of Some f \<Rightarrow> f | None \<Rightarrow> js ''null'')) BILLING_PRICING_VARS"

definition BILLING_EXTRA_VARS :: "billing_var list" where
  "BILLING_EXTRA_VARS = filter (\<lambda>v. \<not> bv_base v \<and> \<not> bv_condition_only v) BILLING_VARS"

text \<open>The field of a tier and the variable of the expression.\<close>

definition BILLING_CACHE_VAR_MAP :: "(jsstring \<times> jsstring) list" where
  "BILLING_CACHE_VAR_MAP =
     map (\<lambda>v. (case bv_tier_field v of Some f \<Rightarrow> f | None \<Rightarrow> js ''null'', bv_key v)) BILLING_EXTRA_VARS"

subsection \<open>Separating the rules\<close>

text \<open>Whether a factor is a request rule: it reads as one, or the compiler traces it as one.\<close>

definition traced_rule :: "jsstring \<Rightarrow> bool" where
  "traced_rule part =
     (case compile_expression part of
        Ready compiled \<Rightarrow> list_ex (\<lambda>rule. rule_node rule = comp_ast compiled) (comp_rules compiled)
      | Compile_failed _ \<Rightarrow> False)"

definition is_rule_part :: "jsstring \<Rightarrow> rule_error + bool" where
  "is_rule_part part =
     rbind (tryParseRequestRuleExpr part) (\<lambda>parsed.
     Inr ((case parsed of Some groups \<Rightarrow> groups \<noteq> [] | None \<Rightarrow> False) \<or> traced_rule part))"

text \<open>The rule factors and the base factors.\<close>

fun sort_parts :: "jsstring list \<Rightarrow> rule_error + jsstring list \<times> jsstring list" where
  "sort_parts [] = Inr ([], [])"
| "sort_parts (part # parts) =
     rbind (is_rule_part part) (\<lambda>rule.
     rbind (sort_parts parts) (\<lambda>(rules, bases).
     Inr (if rule then (part # rules, bases) else (rules, part # bases))))"

definition is_quantity :: "jsstring \<Rightarrow> bool" where
  "is_quantity part \<longleftrightarrow> unwrapExpressionParens part = js ''image_count''"

definition splitBillingExprAndRequestRules :: "jsstring \<Rightarrow> rule_error + jsstring \<times> jsstring" where
  "splitBillingExprAndRequestRules expr =
     (if js_trim expr = [] then Inr ([], [])
      else if length (splitExpressionAtTopLevel (js_trim expr) (js ''*'')) \<le> 1 then Inr (js_trim expr, [])
      else rbind (sort_parts (splitExpressionAtTopLevel (js_trim expr) (js ''*''))) (\<lambda>(rules, bases).
           Inr (if rules = [] \<or> length bases - length (filter is_quantity bases) \<noteq> 1
                then (js_trim expr, [])
                else (js_join (js '' * '') (map unwrapExpressionParens bases), js_join (js '' * '') rules))))"

subsection \<open>Tables\<close>

text \<open>\<open>ParsedTier\<close>: the prices are fields of the object, named by the registry.\<close>

record parsed_tier =
  pt_label :: jsstring
  pt_image_count :: bool
  pt_conditions :: "token_condition list"
  pt_unit :: "billing_unit option"
  pt_fixed_price :: "jsnum option"
  pt_condition_text :: "jsstring option"
  pt_prices :: "(jsstring \<times> jsnum) list"

definition price_field :: "token_variable \<Rightarrow> jsstring" where
  "price_field x =
     (case map_of BILLING_VAR_KEY_TO_FIELD (variable_name x) of Some f \<Rightarrow> f | None \<Rightarrow> js ''undefined'')"

definition mapTokenTier :: "token_tier \<Rightarrow> parsed_tier" where
  "mapTokenTier tier =
     \<lparr>pt_label = tt_label tier, pt_image_count = tt_image_count tier, pt_conditions = tt_conditions tier,
      pt_unit = (if tt_unit tier = Some Unit_request then tt_unit tier else None),
      pt_fixed_price = (if tt_unit tier = Some Unit_request then tt_fixed_price tier else None),
      pt_condition_text = (if tt_condition_text tier = Some [] then None else tt_condition_text tier),
      pt_prices = map (\<lambda>(x, price). (price_field x, price)) (tt_prices tier)\<rparr>"

text \<open>A time tier is a token tier with its own condition text.\<close>

definition described_tier :: "time_token_tier \<Rightarrow> token_tier" where
  "described_tier tier = (tm_tier tier)\<lparr>tt_condition_text := Some (tm_text tier)\<rparr>"

definition parseTiersFromExpr :: "intl_zones \<Rightarrow> jsstring \<Rightarrow> js_error + parsed_tier list" where
  "parseTiersFromExpr intl expr =
     (if expr = [] then Inr []
      else (case compile_expression expr of
              Compile_failed _ \<Rightarrow> Inr []
            | Ready compiled \<Rightarrow>
                (case readTokenTierChain (comp_ast compiled) of
                   Some tiers \<Rightarrow> Inr (map mapTokenTier tiers)
                 | None \<Rightarrow>
                     rbind (readTimeTokenPricing intl expr None) (\<lambda>pricing.
                     Inr (case pricing of
                            Some (tiers, _) \<Rightarrow> map (mapTokenTier \<circ> described_tier) tiers
                          | None \<Rightarrow> [])))))"

definition getCurrentTimePricingTiers ::
  "intl_zones \<Rightarrow> jsstring \<Rightarrow> js_date \<Rightarrow> js_error + parsed_tier list option" where
  "getCurrentTimePricingTiers intl expr now =
     rbind (readTimeTokenPricing intl expr (Some now)) (\<lambda>pricing.
     Inr (map_option (\<lambda>(_, tiers). map (mapTokenTier \<circ> described_tier) tiers) pricing))"

definition parseTaskTiersFromExpr ::
  "jsstring \<Rightarrow> usage_schema option \<Rightarrow> bool \<Rightarrow> rule_error + task_tier list" where
  "parseTaskTiersFromExpr expr schema include_boolean =
     (case schema of
        None \<Rightarrow> Inr []
      | Some schema \<Rightarrow>
          if expr = [] \<or> schema = [] then Inr []
          else rbind (splitBillingExprAndRequestRules expr) (\<lambda>(billing_expr, _).
               Inr (case compile_expression billing_expr of
                      Compile_failed _ \<Rightarrow> []
                    | Ready compiled \<Rightarrow>
                        (case readTaskTierChain (comp_ast compiled) schema include_boolean of
                           Some tiers \<Rightarrow> tiers
                         | None \<Rightarrow> []))))"

subsection \<open>Labels\<close>

text \<open>\<open>replaceAll(/a[=]?|b|c[=]?/g, a)\<close>, where the equals sign may be the wide one: one sign for all spellings
  of a comparison.\<close>

fun one_sign :: "nat \<Rightarrow> nat \<Rightarrow> nat \<Rightarrow> jsstring \<Rightarrow> jsstring" where
  "one_sign plain_sign joined wide [] = []"
| "one_sign plain_sign joined wide [c] = [if c = joined \<or> c = wide then plain_sign else c]"
| "one_sign plain_sign joined wide (c # d # s) =
     (if c = plain_sign \<or> c = wide
      then (if d = 61 \<or> d = 65309 then plain_sign # one_sign plain_sign joined wide s
            else plain_sign # one_sign plain_sign joined wide (d # s))
      else if c = joined then plain_sign # one_sign plain_sign joined wide (d # s)
      else c # one_sign plain_sign joined wide (d # s))"

definition normalizeTierLabel :: "(jsstring \<Rightarrow> jsstring) \<Rightarrow> jsstring option \<Rightarrow> jsstring" where
  "normalizeTierLabel lower label =
     (case label of
        None \<Rightarrow> []
      | Some l \<Rightarrow>
          if l = [] then []
          else lower (filter (\<lambda>c. \<not> is_space c) (one_sign 62 8805 65310 (one_sign 60 8804 65308 l))))"

subsection \<open>Combined expressions are separated again\<close>

text \<open>
  \<open>nested b p q t\<close>: read from nesting depth \<open>b\<close> of all brackets and \<open>p\<close> of the parentheses, the text
  never leaves the outermost level and ends there, outside quotes.
\<close>

fun nested :: "int \<Rightarrow> int \<Rightarrow> nat option \<Rightarrow> jsstring \<Rightarrow> bool" where
  "nested b p q [] \<longleftrightarrow> q = None \<and> b = 1 \<and> p = 1"
| "nested b p (Some q) (c # r) =
     (if c = 92 then (case r of [] \<Rightarrow> False | _ # r' \<Rightarrow> nested b p (Some q) r')
      else nested b p (if c = q then None else Some q) r)"
| "nested b p None (c # r) =
     (if c = 34 \<or> c = 39 then nested b p (Some c) r
      else 0 < bracket_depth c b \<and> 0 < paren_depth c p \<and> nested (bracket_depth c b) (paren_depth c p) None r)"

lemma nested_split:
  "nested b p q t \<Longrightarrow> 0 < b \<Longrightarrow> split_scan op seg b q (t @ r) = split_scan op (seg @ t) 1 None r"
proof (induction b p q t arbitrary: seg rule: nested.induct)
  case (2 b p q c r)
  then show ?case by (auto split: list.splits if_splits)
qed auto

lemma nested_closes: "nested b p q t \<Longrightarrow> 0 < p \<Longrightarrow> closes_at_end p q (t @ [41])"
proof (induction b p q t rule: nested.induct)
  case (2 b p q c r)
  then show ?case by (auto split: list.splits if_splits)
qed (auto simp: paren_depth_def)

lemma nested_wrapped:
  assumes "nested 1 1 None t"
  shows "skips op 1 t" and "wrapped ([40] @ t @ [41])"
  using nested_split [OF assms] nested_closes [OF assms]
  by (simp_all add: skips_def wrapped_def js_starts_with_def js_ends_with_def paren_depth_def)

lemma sort_rule_parts:
  "list_all group_ok groups \<Longrightarrow> sort_parts (map buildRuleGroupFactor groups) = Inr (map buildRuleGroupFactor groups, [])"
proof (induction groups)
  case (Cons g gs)
  have "buildRequestRuleExpr [g] = buildRuleGroupFactor g" using rule_factors(1) [of "[g]"] Cons.prems by simp
  then have "tryParseRequestRuleExpr (buildRuleGroupFactor g) = Inr (Some [g])"
    using rules_read_back [of "[g]"] Cons.prems by simp
  then show ?case using Cons by (simp add: is_rule_part_def)
qed simp

text \<open>
  The two halves of an edited expression come apart as they were put together. A base that is
  properly nested and not itself a rule, combined with the text of request rules, is separated into
  the base without its outer parentheses and the same rules.
\<close>

theorem combined_rules_separate:
  assumes "js_trim base = base" and "base \<noteq> []" and "nested 1 1 None base"
    and "is_rule_part ([40] @ base @ [41]) = Inr False" and "unwrapExpressionParens base \<noteq> js ''image_count''"
    and "groups \<noteq> []" and "list_all group_ok groups"
  shows "splitBillingExprAndRequestRules (combineBillingExpr base (buildRequestRuleExpr groups))
    = Inr (unwrapExpressionParens base, buildRequestRuleExpr groups)"
proof -
  let ?base = "[40] @ base @ [41]" and ?fs = "map buildRuleGroupFactor groups"
  note fs = rule_factors [OF assms(7,6)]
  have base: "skips (js ''*'') 0 ?base" using nested_wrapped(1) [OF assms(3)] by (intro skips_parens) auto
  have tb: "tight ?base" by (simp add: tight_def is_space_def)
  have rules: "js_trim (buildRequestRuleExpr groups) = buildRequestRuleExpr groups" "buildRequestRuleExpr groups \<noteq> []"
    using fs(4) tight_trim(1) by (auto simp: tight_def)
  have whole: "combineBillingExpr base (buildRequestRuleExpr groups) = js_join (js '' * '') (?base # ?fs)"
    using assms(1,2,6) rules fs(1) by (simp add: combineBillingExpr_def js_join_Cons)
  have "tight (js_join (js '' * '') (?base # ?fs))" using tb fs(3) by (intro tight_join) auto
  then have t: "js_trim (js_join (js '' * '') (?base # ?fs)) = js_join (js '' * '') (?base # ?fs)"
    "js_join (js '' * '') (?base # ?fs) \<noteq> []" using tight_trim(1) by (auto simp: tight_def)
  have split: "splitExpressionAtTopLevel (js_join (js '' * '') (?base # ?fs)) (js ''*'') = ?base # ?fs"
    using split_tight_pieces [of "js ''*''" "?base # ?fs"] base tb fs(2,3) unfolding spaced_values by (simp add: splitter_def)
  have "unwrap_loop ?base = unwrap_loop base"
    using nested_wrapped(2) [OF assms(3)] assms(1) by (subst unwrap_loop.simps) (simp add: inner_text_def)
  then have un: "unwrapExpressionParens ?base = unwrapExpressionParens base"
    using assms(1) tight_trim(1) [OF tb] by (simp add: unwrapExpressionParens_def)
  then have "\<not> is_quantity ?base" using assms(5) by (simp add: is_quantity_def)
  moreover have "sort_parts (?base # ?fs) = Inr (?fs, [?base])"
    using assms(4) sort_rule_parts [OF assms(7)] by simp
  moreover have "\<not> length (?base # ?fs) \<le> 1" using assms(6) by (cases groups) auto
  ultimately show ?thesis
    using t un assms(6) fs(1) unfolding splitBillingExprAndRequestRules_def whole t(1) split
    by (simp del: js_Cons sort_parts.simps)
qed

theorem combined_rules_separate_witness:
  "splitBillingExprAndRequestRules (combineBillingExpr (js ''p * 2'') (buildRequestRuleExpr sample_groups))
    = Inr (js ''p * 2'', buildRequestRuleExpr sample_groups)"
proof -
  have "js_trim (js ''p * 2'') = js ''p * 2''" "nested 1 1 None (js ''p * 2'')"
    "is_rule_part ([40] @ js ''p * 2'' @ [41]) = Inr False" "unwrapExpressionParens (js ''p * 2'') = js ''p * 2''"
    "list_all group_ok sample_groups"
    by code_simp+
  from combined_rules_separate [OF this(1) _ this(2,3) _ _ this(5)] this(4)
  show ?thesis by (simp add: sample_groups_def)
qed

end
