(* ===== verification/Task_Config.thy ===== *)
theory Task_Config
  imports Billing_Rules Js_Collections
begin

section \<open>Task prices: the matrix and the tier editor\<close>

text \<open>
  \<open>features/pricing/lib/task-expr.ts\<close>: the editors of task prices. A price table has a row for every
  combination of the enumerated usage fields (the matrix) or an ordered list of tiers; both are
  written as a billing expression and read back from one. \<open>localeCompare\<close> is the parameter \<open>le\<close>, true
  when its result is not positive; the sort is stable. The names of usage fields and prices are own
  properties of their objects.
\<close>

type_synonym collation = "jsstring \<Rightarrow> jsstring \<Rightarrow> bool"

definition collated_entries :: "collation \<Rightarrow> (jsstring \<times> 'a) list \<Rightarrow> (jsstring \<times> 'a) list" where
  "collated_entries le entries = sort_by (\<lambda>a b. le (fst a) (fst b)) entries"

subsection \<open>Configurations\<close>

type_synonym combination = "(jsstring \<times> jsstring) list"

type_synonym price_table = "(jsstring \<times> jsnum) list"

record matrix_row =
  mr_combination :: combination
  mr_constant :: jsnum
  mr_unit_prices :: price_table

definition TASK_TOKEN_PRICE_SCALE :: jsnum where
  "TASK_TOKEN_PRICE_SCALE = JFin 1000000"

definition is_number_field :: "usage_field \<Rightarrow> bool" where
  "is_number_field f \<longleftrightarrow> uf_type f = Some Type_number \<and> uf_unit f \<noteq> None"

definition enum_values :: "usage_field \<Rightarrow> jsstring list" where
  "enum_values f = (case uf_enum f of Some values \<Rightarrow> values | None \<Rightarrow> [])"

definition getTaskNumberFields :: "collation \<Rightarrow> usage_schema \<Rightarrow> usage_schema" where
  "getTaskNumberFields le schema = collated_entries le (filter (\<lambda>e. is_number_field (snd e)) schema)"

definition getTaskEnumFields :: "collation \<Rightarrow> usage_schema \<Rightarrow> usage_schema" where
  "getTaskEnumFields le schema = collated_entries le (filter (\<lambda>e. enum_values (snd e) \<noteq> []) schema)"

definition extend_combinations :: "jsstring \<times> usage_field \<Rightarrow> combination list \<Rightarrow> combination list" where
  "extend_combinations entry combinations =
     concat (map (\<lambda>c. map (js_put c (fst entry)) (enum_values (snd entry))) combinations)"

definition getTaskEnumCombinations :: "collation \<Rightarrow> usage_schema \<Rightarrow> combination list" where
  "getTaskEnumCombinations le schema = fold extend_combinations (getTaskEnumFields le schema) [[]]"

text \<open>\<open>Object.fromEntries\<close>\<close>

definition from_entries :: "(jsstring \<times> 'a) list \<Rightarrow> (jsstring \<times> 'a) list" where
  "from_entries entries = foldl put_plain [] entries"

definition zero_prices :: "collation \<Rightarrow> usage_schema \<Rightarrow> price_table" where
  "zero_prices le schema = from_entries (map (\<lambda>e. (fst e, JFin 0)) (getTaskNumberFields le schema))"

definition createDefaultTaskVisualConfig :: "collation \<Rightarrow> usage_schema \<Rightarrow> task_tier list" where
  "createDefaultTaskVisualConfig le schema =
     [\<lparr>ta_label = js ''base'', ta_conditions = [], ta_constant = JFin 0,
       ta_unit_prices = zero_prices le schema\<rparr>]"

definition createDefaultTaskMatrixConfig :: "collation \<Rightarrow> usage_schema \<Rightarrow> matrix_row list" where
  "createDefaultTaskMatrixConfig le schema =
     map (\<lambda>c. \<lparr>mr_combination = c, mr_constant = JFin 0, mr_unit_prices = zero_prices le schema\<rparr>)
       (getTaskEnumCombinations le schema)"

definition taskMatrixRowLabel :: "collation \<Rightarrow> combination \<Rightarrow> jsstring" where
  "taskMatrixRowLabel le combination =
     (if combination = [] then js ''base'' else js_join [183] (map snd (collated_entries le combination)))"

subsection \<open>The matrix as tiers\<close>

text \<open>\<open>prices[field] ?? 0\<close> for every number field.\<close>

definition listed_price :: "price_table \<Rightarrow> jsstring \<Rightarrow> jsnum" where
  "listed_price prices field = (case map_of prices field of Some x \<Rightarrow> x | None \<Rightarrow> JFin 0)"

definition listed_prices :: "jsstring list \<Rightarrow> price_table \<Rightarrow> price_table" where
  "listed_prices nfields prices = from_entries (map (\<lambda>f. (f, listed_price prices f)) nfields)"

definition same_price :: "jsnum option \<Rightarrow> jsnum option \<Rightarrow> bool" where
  "same_price a b =
     (case (a, b) of (Some x, Some y) \<Rightarrow> js_num_eq x y | (None, None) \<Rightarrow> True | _ \<Rightarrow> False)"

definition same_row_prices :: "jsstring list \<Rightarrow> matrix_row \<Rightarrow> matrix_row \<Rightarrow> bool" where
  "same_row_prices nfields first row \<longleftrightarrow>
     js_num_eq (mr_constant row) (mr_constant first)
     \<and> list_all (\<lambda>f. same_price (map_of (mr_unit_prices row) f) (map_of (mr_unit_prices first) f)) nfields"

definition row_conditions :: "collation \<Rightarrow> bool \<Rightarrow> matrix_row \<Rightarrow> task_condition list" where
  "row_conditions le is_last row = (if is_last then [] else collated_entries le (mr_combination row))"

definition row_tier :: "collation \<Rightarrow> jsstring list \<Rightarrow> bool \<Rightarrow> matrix_row \<Rightarrow> task_tier" where
  "row_tier le nfields is_last row =
     \<lparr>ta_label = taskMatrixRowLabel le (mr_combination row), ta_conditions = row_conditions le is_last row,
      ta_constant = mr_constant row, ta_unit_prices = listed_prices nfields (mr_unit_prices row)\<rparr>"

fun row_tiers :: "collation \<Rightarrow> jsstring list \<Rightarrow> matrix_row list \<Rightarrow> task_tier list" where
  "row_tiers le nfields [] = []"
| "row_tiers le nfields (row # rows) = row_tier le nfields (rows = []) row # row_tiers le nfields rows"

definition taskMatrixToTiers :: "collation \<Rightarrow> matrix_row list \<Rightarrow> usage_schema \<Rightarrow> task_tier list" where
  "taskMatrixToTiers le rows schema =
     (let nfields = map fst (getTaskNumberFields le schema) in
      case rows of
        [] \<Rightarrow> []
      | first # _ \<Rightarrow>
          if nfields = [] then []
          else if list_all (same_row_prices nfields first) rows
          then [\<lparr>ta_label = js ''base'', ta_conditions = [], ta_constant = mr_constant first,
                 ta_unit_prices = listed_prices nfields (mr_unit_prices first)\<rparr>]
          else row_tiers le nfields rows)"

subsection \<open>Tiers as the matrix\<close>

definition row_of_tier :: "jsstring list \<Rightarrow> combination \<Rightarrow> task_tier \<Rightarrow> matrix_row" where
  "row_of_tier nfields combination tier =
     \<lparr>mr_combination = combination, mr_constant = ta_constant tier,
      mr_unit_prices = listed_prices nfields (ta_unit_prices tier)\<rparr>"

text \<open>Every field at most once, with a value of its enumeration.\<close>

fun conditions_fit :: "usage_schema \<Rightarrow> jsstring list \<Rightarrow> task_condition list \<Rightarrow> bool" where
  "conditions_fit schema seen [] = True"
| "conditions_fit schema seen (c # cs) =
     (fst c \<notin> set seen
      \<and> (case schema_field schema (fst c) of
           None \<Rightarrow> False
         | Some field \<Rightarrow> (case uf_enum field of None \<Rightarrow> False | Some values \<Rightarrow> snd c \<in> set values))
      \<and> conditions_fit schema (fst c # seen) cs)"

definition tier_matches :: "combination \<Rightarrow> task_tier \<Rightarrow> bool" where
  "tier_matches combination tier =
     list_all (\<lambda>c. map_of combination (fst c) = Some (snd c)) (ta_conditions tier)"

definition matrix_row_for :: "jsstring list \<Rightarrow> task_tier list \<Rightarrow> combination \<Rightarrow> matrix_row option" where
  "matrix_row_for nfields tiers combination =
     map_option (row_of_tier nfields combination) (find (tier_matches combination) tiers)"

text \<open>The reading of a list of tiers, after they were parsed.\<close>

definition matrix_of_tiers :: "collation \<Rightarrow> usage_schema \<Rightarrow> task_tier list \<Rightarrow> matrix_row list option" where
  "matrix_of_tiers le schema tiers =
     (let nfields = map fst (getTaskNumberFields le schema);
          combinations = getTaskEnumCombinations le schema in
      case tiers of
        [] \<Rightarrow> None
      | first # others \<Rightarrow>
          if others = [] \<and> ta_conditions first = []
          then Some (map (\<lambda>c. row_of_tier nfields c first) combinations)
          else if ta_conditions (last tiers) \<noteq> [] then None
          else if \<not> list_all (\<lambda>t. conditions_fit schema [] (ta_conditions t)) (butlast tiers) then None
          else those (map (matrix_row_for nfields tiers) combinations))"

definition tryParseTaskMatrixConfig ::
  "collation \<Rightarrow> jsstring \<Rightarrow> usage_schema \<Rightarrow> rule_error + matrix_row list option" where
  "tryParseTaskMatrixConfig le expr schema =
     (if expr = [] then Inr None
      else rbind (parseTaskTiersFromExpr expr (Some schema) False) (\<lambda>tiers.
           Inr (matrix_of_tiers le schema tiers)))"

subsection \<open>The preview of a price\<close>

type_synonym usage_sample = "(jsstring \<times> jsval) list"

datatype preview_part =
    Constant_part jsnum
  | Usage_part jsstring (part_amount: jsnum) (part_quantity: jsnum) (part_price: jsnum)

record task_preview =
  tv_tier :: task_tier
  tv_total :: jsnum
  tv_parts :: "preview_part list"

text \<open>\<open>Number(sample[field])\<close>; a sample holds numbers and texts.\<close>

definition sample_number :: "usage_sample \<Rightarrow> jsstring \<Rightarrow> jsnum" where
  "sample_number sample field =
     (case map_of sample field of
        Some (VNum x) \<Rightarrow> x
      | Some (VStr s) \<Rightarrow> js_string_to_number s
      | _ \<Rightarrow> JNaN)"

definition sample_matches :: "usage_sample \<Rightarrow> task_tier \<Rightarrow> bool" where
  "sample_matches sample tier =
     list_all (\<lambda>c. map_of sample (fst c) = Some (VStr (snd c))) (ta_conditions tier)"

definition preview_tier :: "task_tier list \<Rightarrow> usage_sample \<Rightarrow> task_tier" where
  "preview_tier tiers sample =
     (case find (sample_matches sample) (butlast tiers) of Some tier \<Rightarrow> tier | None \<Rightarrow> last tiers)"

definition usable :: "jsnum \<Rightarrow> bool" where
  "usable x \<longleftrightarrow> js_is_finite x \<and> \<not> js_lt x (JFin 0)"

definition is_token_field :: "usage_schema option \<Rightarrow> jsstring \<Rightarrow> bool" where
  "is_token_field schema field =
     (case schema of
        None \<Rightarrow> False
      | Some schema \<Rightarrow>
          (case schema_field schema field of Some f \<Rightarrow> uf_unit f = Some Per_token | None \<Rightarrow> False))"

definition usage_amount :: "usage_schema option \<Rightarrow> jsstring \<Rightarrow> jsnum \<Rightarrow> jsnum \<Rightarrow> jsnum" where
  "usage_amount schema field quantity price =
     (if is_token_field schema field then js_div (js_mul quantity price) TASK_TOKEN_PRICE_SCALE
      else js_mul quantity price)"

fun usage_parts :: "usage_schema option \<Rightarrow> usage_sample \<Rightarrow> price_table \<Rightarrow> preview_part list option" where
  "usage_parts schema sample [] = Some []"
| "usage_parts schema sample ((field, price) # prices) =
     (if \<not> usable price then None
      else if js_num_eq price (JFin 0) then usage_parts schema sample prices
      else if \<not> usable (sample_number sample field) then None
      else if \<not> js_is_finite (usage_amount schema field (sample_number sample field) price) then None
      else map_option
             ((#) (Usage_part field (usage_amount schema field (sample_number sample field) price)
                     (sample_number sample field) price))
             (usage_parts schema sample prices))"

definition constant_parts :: "jsnum \<Rightarrow> preview_part list" where
  "constant_parts x = (if js_lt (JFin 0) x then [Constant_part x] else [])"

definition usage_term :: "usage_schema option \<Rightarrow> preview_part \<Rightarrow> jsstring option" where
  "usage_term schema part =
     (case part of
        Constant_part _ \<Rightarrow> None
      | Usage_part field _ _ price \<Rightarrow>
          if field = [] then None
          else Some (js ''u('' @ json_quote field @ js '') * '' @ js_number_text price
                 @ (if is_token_field schema field then js '' / 1000000'' else [])))"

definition normalized_sample :: "preview_part list \<Rightarrow> usage_sample \<Rightarrow> usage_sample" where
  "normalized_sample parts sample =
     fold (\<lambda>part usage.
       case part of
         Constant_part _ \<Rightarrow> usage
       | Usage_part field _ quantity _ \<Rightarrow> if field = [] then usage else js_assign usage field (VNum quantity))
       parts sample"

definition preview_expression :: "usage_schema option \<Rightarrow> task_tier \<Rightarrow> preview_part list \<Rightarrow> jsstring" where
  "preview_expression schema tier parts =
     js ''tier('' @ json_quote (ta_label tier) @ js '', ''
       @ js_join (js '' + '')
           (js_number_text (ta_constant tier) # List.map_filter (usage_term schema) parts) @ [41]"

definition evaluateTaskVisualConfig ::
  "intl_zones \<Rightarrow> js_date \<Rightarrow> task_tier list \<Rightarrow> usage_sample \<Rightarrow> usage_schema option \<Rightarrow> task_preview option" where
  "evaluateTaskVisualConfig intl clock tiers sample schema =
     (if tiers = [] then None
      else (let tier = preview_tier tiers sample in
            if \<not> usable (ta_constant tier) then None
            else (case usage_parts schema sample (ta_unit_prices tier) of
                    None \<Rightarrow> None
                  | Some parts \<Rightarrow>
                      (case evaluate_compilation intl clock
                              (compile_expression
                                (preview_expression schema tier (constant_parts (ta_constant tier) @ parts)))
                              (empty_context\<lparr>ctx_usage := Some (normalized_sample parts sample)\<rparr>) of
                         Eval_failed _ \<Rightarrow> None
                       | Evaluated success \<Rightarrow>
                           Some \<lparr>tv_tier = tier, tv_total = ev_cost success,
                             tv_parts = constant_parts (ta_constant tier) @ parts\<rparr>))))"

subsection \<open>Tiers as an expression\<close>

definition nonnegative_or_zero :: "jsnum \<Rightarrow> jsnum" where
  "nonnegative_or_zero x = (if js_is_finite x \<and> js_le (JFin 0) x then x else JFin 0)"

definition tier_label :: "nat \<Rightarrow> jsstring \<Rightarrow> jsstring" where
  "tier_label i label =
     (if label \<noteq> [] then label
      else if i = 0 then js ''base'' else js ''tier_'' @ int_text (int (i + 1)))"

definition enum_condition :: "usage_schema \<Rightarrow> task_condition \<Rightarrow> bool" where
  "enum_condition enum_fields c =
     (case map_of enum_fields (fst c) of Some f \<Rightarrow> snd c \<in> set (enum_values f) | None \<Rightarrow> False)"

definition normalized_tier :: "collation \<Rightarrow> usage_schema \<Rightarrow> nat \<Rightarrow> task_tier \<Rightarrow> task_tier" where
  "normalized_tier le schema i tier =
     \<lparr>ta_label = tier_label i (ta_label tier),
      ta_conditions = filter (enum_condition (getTaskEnumFields le schema)) (ta_conditions tier),
      ta_constant = nonnegative_or_zero (ta_constant tier),
      ta_unit_prices = from_entries (map (\<lambda>e. (fst e,
        case map_of (ta_unit_prices tier) (fst e) of Some x \<Rightarrow> nonnegative_or_zero x | None \<Rightarrow> JFin 0))
        (getTaskNumberFields le schema))\<rparr>"

definition normalizeTaskVisualConfig :: "collation \<Rightarrow> task_tier list \<Rightarrow> usage_schema \<Rightarrow> task_tier list" where
  "normalizeTaskVisualConfig le tiers schema =
     (if tiers = [] then createDefaultTaskVisualConfig le schema
      else map (\<lambda>(i, tier). normalized_tier le schema i tier) (enumerate 0 tiers))"

definition price_term_text :: "price_table \<Rightarrow> jsstring \<times> usage_field \<Rightarrow> jsstring" where
  "price_term_text prices entry =
     js ''u('' @ json_quote (fst entry) @ js '') * '' @ js_number_text (listed_price prices (fst entry))
       @ (if uf_unit (snd entry) = Some Per_token then js '' / 1000000'' else [])"

definition generateTaskTierBody :: "task_tier \<Rightarrow> usage_schema \<Rightarrow> jsstring" where
  "generateTaskTierBody tier number_fields =
     js_join (js '' + '')
       ((if js_lt (JFin 0) (ta_constant tier) then [js_number_text (ta_constant tier)] else [])
        @ map (price_term_text (ta_unit_prices tier)) number_fields)"

definition generateTaskTierCall :: "task_tier \<Rightarrow> usage_schema \<Rightarrow> jsstring" where
  "generateTaskTierCall tier number_fields =
     js ''tier('' @ json_quote (ta_label tier) @ js '', '' @ generateTaskTierBody tier number_fields @ [41]"

definition generateTaskCondition :: "task_condition list \<Rightarrow> jsstring" where
  "generateTaskCondition conditions =
     js_join (js '' && '')
       (map (\<lambda>c. js ''u('' @ json_quote (fst c) @ js '') == '' @ json_quote (snd c)) conditions)"

fun generate_parts :: "usage_schema \<Rightarrow> task_tier list \<Rightarrow> jsstring list option" where
  "generate_parts number_fields [] = Some []"
| "generate_parts number_fields (tier # tiers) =
     (if tiers = [] then Some [generateTaskTierCall tier number_fields]
      else if generateTaskCondition (ta_conditions tier) = [] then None
      else map_option
             ((#) (generateTaskCondition (ta_conditions tier) @ js '' ? ''
                     @ generateTaskTierCall tier number_fields))
             (generate_parts number_fields tiers))"

definition generateTaskExprFromConfig :: "collation \<Rightarrow> task_tier list \<Rightarrow> usage_schema \<Rightarrow> jsstring" where
  "generateTaskExprFromConfig le tiers schema =
     (if getTaskNumberFields le schema = [] then []
      else (case generate_parts (getTaskNumberFields le schema) (normalizeTaskVisualConfig le tiers schema) of
              None \<Rightarrow> []
            | Some parts \<Rightarrow> js_join (js '' : '') parts))"

definition tryParseTaskVisualConfig ::
  "collation \<Rightarrow> jsstring \<Rightarrow> usage_schema \<Rightarrow> rule_error + task_tier list option" where
  "tryParseTaskVisualConfig le expr schema =
     (if expr = [] then Inr None
      else rbind (parseTaskTiersFromExpr expr (Some schema) False) (\<lambda>tiers.
           Inr (if tiers = [] then None else Some (normalizeTaskVisualConfig le tiers schema))))"

type_synonym usage_example = "jsstring \<times> usage_sample"

definition evaluateTaskUsageExamples ::
  "intl_zones \<Rightarrow> js_date \<Rightarrow> collation \<Rightarrow> jsstring \<Rightarrow> usage_schema option \<Rightarrow> usage_example list
     \<Rightarrow> rule_error + (jsstring \<times> jsnum) list" where
  "evaluateTaskUsageExamples intl clock le expr schema examples =
     (case schema of
        None \<Rightarrow> Inr []
      | Some schema \<Rightarrow>
          if expr = [] \<or> examples = [] then Inr []
          else rbind (splitBillingExprAndRequestRules expr) (\<lambda>(billing_expr, _).
               rbind (tryParseTaskVisualConfig le billing_expr schema) (\<lambda>config.
               Inr (case config of
                      None \<Rightarrow> []
                    | Some tiers \<Rightarrow>
                        List.map_filter (\<lambda>(label, facts).
                          map_option (\<lambda>r. (label, tv_total r))
                            (evaluateTaskVisualConfig intl clock tiers facts (Some schema))) examples))))"

end
