(* ===== verification/Task_Matrix.thy ===== *)
theory Task_Matrix
  imports Task_Config
begin

section \<open>Round trip of the task price matrix\<close>

text \<open>
  The rows of the matrix editor (\<open>task-expr.ts\<close>) have pairwise different combinations with the same
  keys, so that the tier of a row matches its own combination only and the last tier, which has no
  condition, is reached by the last combination only.
\<close>

subsection \<open>Combinations\<close>

lemma collated_entries_simps [simp]:
  "set (collated_entries le es) = set es" "distinct (map fst (collated_entries le es)) = distinct (map fst es)"
  by (simp_all add: collated_entries_def distinct_sort_by)

text \<open>The keys of an object after an assignment depend on its keys only.\<close>

lemma keys_insert_property: "map fst c = map fst c' \<Longrightarrow> map fst (insert_property k v c) = map fst (insert_property k v' c')"
proof (induction c arbitrary: c')
  case (Cons p c)
  then obtain p' d where "c' = p' # d" "fst p = fst p'" "map fst c = map fst d" by (cases c') auto
  with Cons.IH [of d] show ?case by auto
qed simp

lemma keys_put: "map fst c = map fst c' \<Longrightarrow> map fst (js_put c k v) = map fst (js_put c' k v')"
proof -
  assume k: "map fst c = map fst c'"
  then have "fst ` set c = fst ` set c'" by (metis set_map)
  then show ?thesis
    using k keys_insert_property [OF k] map_fst_update [of k v c] map_fst_update [of k v' c'] by (simp add: js_put_def)
qed

lemma same_object:
  "map fst c = map fst c' \<Longrightarrow> distinct (map fst c) \<Longrightarrow> map_of c = map_of c' \<Longrightarrow> c = c'"
proof -
  assume k: "map fst c = map fst c'" "distinct (map fst c)" "map_of c = map_of c'"
  have snds: "map snd d = map (\<lambda>k. the (map_of d k)) (map fst d)" if "distinct (map fst d)" for d :: "('a \<times> 'b) list"
    using that by (auto simp: map_of_eq_Some_iff)
  have "map snd c = map snd c'" using snds [of c] snds [of c'] k by simp
  then show "c = c'" using k(1) by (metis zip_map_fst_snd)
qed

text \<open>What is true of the combinations of a list of enumerated fields.\<close>

definition combinations_of :: "usage_schema \<Rightarrow> combination list \<Rightarrow> bool" where
  "combinations_of es cs \<longleftrightarrow>
     distinct cs \<and> (\<forall>c \<in> set cs. \<forall>c' \<in> set cs. map fst c = map fst c')
     \<and> (\<forall>c \<in> set cs. distinct (map fst c) \<and> fst ` set c = fst ` set es
          \<and> (\<forall>e \<in> set es. \<exists>v \<in> set (enum_values (snd e)). map_of c (fst e) = Some v))"

lemma combinations_extend:
  assumes "combinations_of es cs" and "fst e \<notin> fst ` set es" and "distinct (enum_values (snd e))"
  shows "combinations_of (es @ [e]) (extend_combinations e cs)"
proof -
  let ?put = "\<lambda>(c, v). js_put c (fst e) v"
  have cs: "distinct cs" "\<forall>c \<in> set cs. \<forall>c' \<in> set cs. map fst c = map fst c'"
    "\<And>c. c \<in> set cs \<Longrightarrow> distinct (map fst c)" "\<And>c. c \<in> set cs \<Longrightarrow> fst ` set c = fst ` set es"
    "\<And>c e. c \<in> set cs \<Longrightarrow> e \<in> set es \<Longrightarrow> \<exists>v \<in> set (enum_values (snd e)). map_of c (fst e) = Some v"
    using assms(1) unfolding combinations_of_def by blast+
  have ext: "extend_combinations e cs = map ?put (List.product cs (enum_values (snd e)))"
    unfolding extend_combinations_def by (induction cs) simp_all
  have fresh: "map_of c (fst e) = None" if "c \<in> set cs" for c
    using cs(4) [OF that] assms(2) by (simp add: map_of_eq_None_iff)
  have "inj_on ?put (set (List.product cs (enum_values (snd e))))"
  proof (rule inj_onI, clarsimp)
    fix c v c' v' assume c: "c \<in> set cs" "c' \<in> set cs" and eq: "js_put c (fst e) v = js_put c' (fst e) v'"
    from arg_cong [OF eq, of map_of] have m: "(map_of c)(fst e \<mapsto> v) = (map_of c')(fst e \<mapsto> v')" by simp
    then have "v = v'" by (metis fun_upd_same option.inject)
    moreover have "map_of c = map_of c'"
      using m fresh [OF c(1)] fresh [OF c(2)] by (metis fun_upd_triv fun_upd_upd)
    ultimately show "c = c' \<and> v = v'" using same_object cs(2,3) c by blast
  qed
  then have "distinct (extend_combinations e cs)"
    using cs(1) assms(3) unfolding ext by (simp add: distinct_map distinct_product)
  moreover have "\<forall>d \<in> set (extend_combinations e cs). \<forall>d' \<in> set (extend_combinations e cs). map fst d = map fst d'"
    unfolding ext using cs(2) by (auto intro!: keys_put)
  moreover have "distinct (map fst d) \<and> fst ` set d = fst ` set (es @ [e])
      \<and> (\<forall>e' \<in> set (es @ [e]). \<exists>v \<in> set (enum_values (snd e')). map_of d (fst e') = Some v)"
    if d: "d \<in> set (extend_combinations e cs)" for d
  proof -
    obtain c v where c: "c \<in> set cs" "v \<in> set (enum_values (snd e))" "d = js_put c (fst e) v" using d unfolding ext by auto
    have "\<exists>w \<in> set (enum_values (snd e')). map_of d (fst e') = Some w" if "e' \<in> set (es @ [e])" for e'
    proof (cases "fst e' = fst e")
      case True
      then have "e' = e" using that assms(2) by (auto simp: image_iff)
      then show ?thesis using c by simp
    next
      case False
      then show ?thesis using that cs(5) [OF c(1), of e'] c(3) by auto
    qed
    then show ?thesis using c cs(3,4) by (auto simp: distinct_js_put keys_js_put)
  qed
  ultimately show ?thesis unfolding combinations_of_def by blast
qed

definition schema_ok :: "usage_schema \<Rightarrow> bool" where
  "schema_ok schema \<longleftrightarrow>
     distinct (map fst schema) \<and> list_all (\<lambda>e. distinct (enum_values (snd e))) schema"

lemma combinations_fold:
  "combinations_of es cs \<Longrightarrow> distinct (map fst (es @ fs)) \<Longrightarrow> \<forall>e \<in> set fs. distinct (enum_values (snd e)) \<Longrightarrow>
   combinations_of (es @ fs) (fold extend_combinations fs cs)"
proof (induction fs arbitrary: es cs)
  case (Cons e fs)
  have "combinations_of (es @ [e]) (extend_combinations e cs)"
    using Cons.prems by (intro combinations_extend) auto
  from Cons.IH [OF this] Cons.prems show ?case by simp
qed simp

lemma enum_combinations:
  assumes "schema_ok schema"
  shows "combinations_of (getTaskEnumFields le schema) (getTaskEnumCombinations le schema)"
    and "distinct (map fst (getTaskEnumFields le schema))"
proof -
  show d: "distinct (map fst (getTaskEnumFields le schema))"
    using assms by (simp add: getTaskEnumFields_def schema_ok_def distinct_map_filter)
  have "combinations_of [] [[]]" by (simp add: combinations_of_def)
  moreover have "\<forall>e \<in> set (getTaskEnumFields le schema). distinct (enum_values (snd e))"
    using assms by (auto simp: getTaskEnumFields_def schema_ok_def list_all_iff)
  ultimately show "combinations_of (getTaskEnumFields le schema) (getTaskEnumCombinations le schema)"
    using combinations_fold [of "[]" "[[]]" "getTaskEnumFields le schema"] d by (simp add: getTaskEnumCombinations_def)
qed

subsection \<open>Rows and tiers\<close>

fun is_fin :: "jsnum \<Rightarrow> bool" where
  "is_fin (JFin _) = True"
| "is_fin _ = False"

text \<open>The prices of a row of a complete matrix.\<close>

definition row_ok :: "jsstring list \<Rightarrow> matrix_row \<Rightarrow> bool" where
  "row_ok fs row \<longleftrightarrow> is_fin (mr_constant row) \<and> list_all (\<lambda>p. is_fin (snd p)) (mr_unit_prices row)
     \<and> mr_unit_prices row = listed_prices fs (mr_unit_prices row)"

text \<open>A matrix of the schema: a row for every combination, with finite prices of exactly the
  number fields.\<close>

definition matrix_ok :: "collation \<Rightarrow> usage_schema \<Rightarrow> matrix_row list \<Rightarrow> bool" where
  "matrix_ok le schema rows \<longleftrightarrow>
     map mr_combination rows = getTaskEnumCombinations le schema
     \<and> list_all (row_ok (map fst (getTaskNumberFields le schema))) rows"

lemma js_num_eq_fin: "is_fin x \<Longrightarrow> is_fin y \<Longrightarrow> js_num_eq x y \<longleftrightarrow> x = y"
  by (cases x; cases y) (auto simp: js_num_eq_def)

lemma from_entries_lookup: "map_of (from_entries es) = fold (\<lambda>e m. m(fst e \<mapsto> snd e)) es Map.empty"
proof -
  have "map_of (foldl put_plain ps es) = fold (\<lambda>e m. m(fst e \<mapsto> snd e)) es (map_of ps)" for ps
    by (induction es arbitrary: ps) (simp_all add: put_plain_def)
  then show ?thesis by (simp add: from_entries_def)
qed

lemma fold_updates: "fold (\<lambda>e m. m(fst e \<mapsto> snd e)) (map (\<lambda>f. (f, g f)) fs) m = (\<lambda>k. if k \<in> set fs then Some (g k) else m k)"
  by (induction fs arbitrary: m) auto

lemma listed_prices_lookup:
  "map_of (listed_prices fs ps) f = (if f \<in> set fs then Some (listed_price ps f) else None)"
  by (simp add: listed_prices_def from_entries_lookup fold_updates)

lemma row_back:
  assumes "mr_unit_prices row = listed_prices fs (mr_unit_prices row)"
  shows "row_of_tier fs (mr_combination row) (row_tier le fs b row) = row"
  using assms by (simp add: row_of_tier_def row_tier_def)

lemma tier_matches_row:
  assumes keys: "map fst c = map fst (mr_combination r)" and d: "distinct (map fst c)"
  shows "tier_matches c (row_tier le fs False r) \<longleftrightarrow> c = mr_combination r"
proof
  have ks: "fst ` set c = fst ` set (mr_combination r)" and d': "distinct (map fst (mr_combination r))"
    using keys d by (metis set_map, metis)
  assume "tier_matches c (row_tier le fs False r)"
  then have m: "map_of c (fst p) = Some (snd p)" if "p \<in> set (mr_combination r)" for p
    using that by (simp add: tier_matches_def row_tier_def row_conditions_def list_all_iff)
  have "map_of c k = map_of (mr_combination r) k" for k
  proof (cases "map_of (mr_combination r) k")
    case None
    then show ?thesis using ks by (metis map_of_eq_None_iff)
  next
    case (Some v)
    then show ?thesis using m [OF map_of_SomeD [OF Some]] by simp
  qed
  then show "c = mr_combination r" using same_object [OF keys d] by blast
next
  assume "c = mr_combination r"
  then show "tier_matches c (row_tier le fs False r)"
    using d by (auto simp: tier_matches_def row_tier_def row_conditions_def list_all_iff)
qed

lemma tier_matches_last: "tier_matches c (row_tier le fs True r)"
  by (simp add: tier_matches_def row_tier_def row_conditions_def)

lemma find_row_tier:
  assumes "row \<in> set rows" and "distinct (map mr_combination rows)"
    and "\<forall>r \<in> set rows. \<forall>r' \<in> set rows. map fst (mr_combination r) = map fst (mr_combination r')"
    and "\<forall>r \<in> set rows. distinct (map fst (mr_combination r))"
  shows "\<exists>b. find (tier_matches (mr_combination row)) (row_tiers le fs rows) = Some (row_tier le fs b row)"
  using assms
proof (induction rows)
  case (Cons r rows)
  have keys: "map fst (mr_combination row) = map fst (mr_combination r)" "distinct (map fst (mr_combination row))"
    using Cons.prems(1,3,4) by (meson list.set_intros(1), meson)
  note agree = tier_matches_row [OF keys, of le fs]
  show ?case
  proof (cases "row = r")
    case True
    then have "tier_matches (mr_combination row) (row_tier le fs (rows = []) r)"
      using agree tier_matches_last by (cases "rows = []") simp_all
    then show ?thesis using True by auto
  next
    case False
    then have row: "row \<in> set rows" using Cons.prems(1) by simp
    then have "rows \<noteq> []" "mr_combination row \<noteq> mr_combination r"
      using Cons.prems(2) by (auto simp: image_iff)
    then have "\<not> tier_matches (mr_combination row) (row_tier le fs (rows = []) r)" using agree by simp
    moreover have "\<exists>b. find (tier_matches (mr_combination row)) (row_tiers le fs rows) = Some (row_tier le fs b row)"
    proof (rule Cons.IH [OF row])
      show "distinct (map mr_combination rows)" using Cons.prems(2) by simp
      show "\<forall>r \<in> set rows. \<forall>r' \<in> set rows. map fst (mr_combination r) = map fst (mr_combination r')"
        using Cons.prems(3) by (meson list.set_intros(2))
      show "\<forall>r \<in> set rows. distinct (map fst (mr_combination r))" using Cons.prems(4) by (meson list.set_intros(2))
    qed
    ultimately show ?thesis by simp
  qed
qed simp

lemma conditions_fit_iff:
  "conditions_fit schema seen cs \<longleftrightarrow>
     distinct (map fst cs) \<and> fst ` set cs \<inter> set seen = {}
     \<and> (\<forall>c \<in> set cs. \<exists>field values. schema_field schema (fst c) = Some field \<and> uf_enum field = Some values \<and> snd c \<in> set values)"
  by (induction schema seen cs rule: conditions_fit.induct) (auto split: option.splits)

lemma row_tiers_empty [simp]: "row_tiers le fs rows = [] \<longleftrightarrow> rows = []"
  by (cases rows) simp_all

lemma row_tiers_last: "rows \<noteq> [] \<Longrightarrow> ta_conditions (last (row_tiers le fs rows)) = []"
  by (induction rows) (auto simp: row_tier_def row_conditions_def)

lemma row_tiers_butlast: "t \<in> set (butlast (row_tiers le fs rows)) \<Longrightarrow> \<exists>r \<in> set rows. t = row_tier le fs False r"
  by (induction rows) (auto split: if_splits)

lemma combination_fits:
  assumes "schema_ok schema" and "c \<in> set (getTaskEnumCombinations le schema)"
  shows "conditions_fit schema [] (collated_entries le c)"
proof -
  let ?es = "getTaskEnumFields le schema"
  have c: "distinct (map fst c)" "fst ` set c = fst ` set ?es"
    "\<And>e. e \<in> set ?es \<Longrightarrow> \<exists>v \<in> set (enum_values (snd e)). map_of c (fst e) = Some v"
    using enum_combinations(1) [OF assms(1), of le] assms(2) unfolding combinations_of_def by blast+
  have "\<exists>field values. schema_field schema (fst p) = Some field \<and> uf_enum field = Some values \<and> snd p \<in> set values"
    if p: "p \<in> set c" for p
  proof -
    obtain e where e: "e \<in> set ?es" "fst e = fst p" using c(2) p by (metis imageE imageI)
    then obtain v where v: "v \<in> set (enum_values (snd e))" "map_of c (fst p) = Some v" using c(3) by metis
    have "v = snd p" using v(2) p c(1) by (metis map_of_is_SomeI option.inject prod.collapse)
    moreover have "e \<in> set schema" using e(1) by (simp add: getTaskEnumFields_def)
    then have "map_of schema (fst p) = Some (snd e)" using assms(1) e(2) by (metis map_of_is_SomeI prod.collapse schema_ok_def)
    ultimately show ?thesis using v(1) by (cases "uf_enum (snd e)") (auto simp: schema_field_def enum_values_def)
  qed
  then show ?thesis using c(1) by (simp add: conditions_fit_iff)
qed

lemma those_map_all: "(\<And>x. x \<in> set xs \<Longrightarrow> f x = Some (g x)) \<Longrightarrow> those (map f xs) = Some (map g xs)"
  by (induction xs) auto

lemma row_price:
  assumes "row_ok fs row" and "f \<in> set fs"
  shows "map_of (mr_unit_prices row) f = Some (listed_price (mr_unit_prices row) f)"
    and "is_fin (listed_price (mr_unit_prices row) f)"
proof -
  show l: "map_of (mr_unit_prices row) f = Some (listed_price (mr_unit_prices row) f)"
    using assms listed_prices_lookup [of fs "mr_unit_prices row" f] by (simp add: row_ok_def)
  show "is_fin (listed_price (mr_unit_prices row) f)"
    using map_of_SomeD [OF l] assms(1) by (fastforce simp: row_ok_def list_all_iff)
qed

lemma same_row_prices_iff:
  assumes "row_ok fs a" and "row_ok fs b"
  shows "same_row_prices fs a b \<longleftrightarrow> mr_constant b = mr_constant a \<and> mr_unit_prices b = mr_unit_prices a"
proof -
  have "same_row_prices fs a b \<longleftrightarrow> mr_constant b = mr_constant a
      \<and> (\<forall>f \<in> set fs. listed_price (mr_unit_prices b) f = listed_price (mr_unit_prices a) f)"
    using assms row_price [OF assms(1)] row_price [OF assms(2)]
    by (auto simp: same_row_prices_def row_ok_def list_all_iff same_price_def js_num_eq_fin)
  also have "\<dots> \<longleftrightarrow> mr_constant b = mr_constant a \<and> mr_unit_prices b = mr_unit_prices a"
  proof -
    have "mr_unit_prices b = mr_unit_prices a"
      if "\<forall>f \<in> set fs. listed_price (mr_unit_prices b) f = listed_price (mr_unit_prices a) f"
    proof -
      have "listed_prices fs (mr_unit_prices b) = listed_prices fs (mr_unit_prices a)"
        using that by (simp add: listed_prices_def cong: map_cong)
      then show ?thesis using assms by (simp add: row_ok_def)
    qed
    then show ?thesis by auto
  qed
  finally show ?thesis .
qed

lemma matrix_ok_rows: "matrix_ok le schema rows \<Longrightarrow> r \<in> set rows \<Longrightarrow> row_ok (map fst (getTaskNumberFields le schema)) r"
  by (simp add: matrix_ok_def list_all_iff)

lemma uniform_matrix:
  assumes "list_all (same_row_prices fs first) rows" and "\<And>r. r \<in> set rows \<Longrightarrow> row_ok fs r" and "row_ok fs first"
    and "ta_constant tier = mr_constant first" and "ta_unit_prices tier = listed_prices fs (mr_unit_prices first)"
  shows "map (\<lambda>c. row_of_tier fs c tier) (map mr_combination rows) = rows"
proof -
  have "row_of_tier fs (mr_combination r) tier = r" if r: "r \<in> set rows" for r
  proof -
    have "mr_constant r = mr_constant first \<and> mr_unit_prices r = mr_unit_prices first"
      using same_row_prices_iff [OF assms(3) assms(2) [OF r]] assms(1) r by (simp add: list_all_iff)
    then show ?thesis using assms(3-5) by (simp add: row_of_tier_def row_ok_def)
  qed
  then show ?thesis by (simp add: map_idI)
qed

lemma full_matrix:
  assumes "schema_ok schema" and "getTaskEnumCombinations le schema = map mr_combination rows"
    and "\<And>r. r \<in> set rows \<Longrightarrow> row_ok fs r"
  shows "those (map (matrix_row_for fs (row_tiers le fs rows)) (map mr_combination rows)) = Some rows"
    and "list_all (\<lambda>t. conditions_fit schema [] (ta_conditions t)) (butlast (row_tiers le fs rows))"
proof -
  have k: "distinct (map mr_combination rows)"
    "\<forall>r \<in> set rows. \<forall>r' \<in> set rows. map fst (mr_combination r) = map fst (mr_combination r')"
    "\<forall>r \<in> set rows. distinct (map fst (mr_combination r))"
    using enum_combinations(1) [OF assms(1), of le] unfolding combinations_of_def assms(2) set_map by blast+
  have "matrix_row_for fs (row_tiers le fs rows) (mr_combination r) = Some r" if r: "r \<in> set rows" for r
  proof -
    obtain b where "find (tier_matches (mr_combination r)) (row_tiers le fs rows) = Some (row_tier le fs b r)"
      using find_row_tier [OF r k] by blast
    then show ?thesis using row_back [of r fs le b] assms(3) [OF r] by (simp add: matrix_row_for_def row_ok_def)
  qed
  then show "those (map (matrix_row_for fs (row_tiers le fs rows)) (map mr_combination rows)) = Some rows"
    using those_map_all [of rows "\<lambda>r. matrix_row_for fs (row_tiers le fs rows) (mr_combination r)" "\<lambda>r. r"]
    by (simp add: comp_def)
  show "list_all (\<lambda>t. conditions_fit schema [] (ta_conditions t)) (butlast (row_tiers le fs rows))"
    using row_tiers_butlast [of _ le fs rows] combination_fits [OF assms(1)] unfolding list_all_iff
    by (force simp: row_tier_def row_conditions_def assms(2))
qed

text \<open>
  C40: the matrix of task prices survives the tiers it is written as. For every schema whose
  enumerations have no repeated value and every complete matrix of it, with finite prices, the tiers
  are read back as the same rows in the same order: the last tier, which has no condition, takes
  exactly the last combination, and a matrix of equal rows, written as one tier, is expanded again.
\<close>

theorem task_matrix_roundtrip:
  assumes "schema_ok schema" and "getTaskNumberFields le schema \<noteq> []" and "matrix_ok le schema rows"
    and "rows \<noteq> []"
  shows "matrix_of_tiers le schema (taskMatrixToTiers le rows schema) = Some rows"
proof -
  define fs where "fs = map fst (getTaskNumberFields le schema)"
  have fs: "fs \<noteq> []" using assms(2) by (simp add: fs_def)
  have comb: "getTaskEnumCombinations le schema = map mr_combination rows"
    using assms(3) by (simp add: matrix_ok_def)
  have ok: "\<And>r. r \<in> set rows \<Longrightarrow> row_ok fs r" using matrix_ok_rows [OF assms(3)] by (simp add: fs_def)
  obtain first others where rows: "rows = first # others" using assms(4) by (cases rows) auto
  show ?thesis
  proof (cases "list_all (same_row_prices fs first) rows")
    case True
    then show ?thesis using fs uniform_matrix [OF True ok] ok [of first]
      by (simp add: taskMatrixToTiers_def matrix_of_tiers_def comb rows del: js_Cons list.map flip: fs_def)
  next
    case False
    have more: "others \<noteq> []" using False ok [of first] same_row_prices_iff [of fs first first] by (auto simp: rows)
    have "taskMatrixToTiers le rows schema = row_tiers le fs rows"
      using False fs by (auto simp: taskMatrixToTiers_def rows simp flip: fs_def)
    moreover have "row_tiers le fs rows = row_tier le fs False first # row_tiers le fs others" using more by (simp add: rows)
    ultimately show ?thesis
      using row_tiers_last [of rows le fs] full_matrix [OF assms(1) comb ok] more rows
      by (auto simp: matrix_of_tiers_def comb simp flip: fs_def split: list.splits)
  qed
qed

text \<open>One number field and one enumerated field with two values, and a matrix with two prices.\<close>

definition example_schema :: usage_schema where
  "example_schema =
     [([115], \<lparr>uf_type = Some Type_number, uf_unit = Some Per_second, uf_enum = None\<rparr>),
      ([113], \<lparr>uf_type = None, uf_unit = None, uf_enum = Some [[97], [98]]\<rparr>)]"

definition example_rows :: "matrix_row list" where
  "example_rows =
     [\<lparr>mr_combination = [([113], [97])], mr_constant = JFin 0, mr_unit_prices = [([115], JFin 1)]\<rparr>,
      \<lparr>mr_combination = [([113], [98])], mr_constant = JFin 1, mr_unit_prices = [([115], JFin 2)]\<rparr>]"

theorem task_matrix_roundtrip_witness:
  "matrix_of_tiers (\<lambda>a b. True) example_schema
     (taskMatrixToTiers (\<lambda>a b. True) example_rows example_schema) = Some example_rows"
proof (rule task_matrix_roundtrip)
  show "schema_ok example_schema" by code_simp
  show "getTaskNumberFields (\<lambda>a b. True) example_schema \<noteq> []" by code_simp
  show "matrix_ok (\<lambda>a b. True) example_schema example_rows" by code_simp
  show "example_rows \<noteq> []" by code_simp
qed

end
