(* ===== verification/Flow_Graph.thy ===== *)
theory Flow_Graph
  imports Js_Collections Js_Text
begin

section \<open>The flow chart of the dashboard\<close>

text \<open>
  \<open>features/dashboard/lib/flow.ts\<close>: usage rows are turned into the nodes and links of a Sankey chart.
  A row is a path through the stages of the viewer's role (user, node, token, group, model,
  channel); nodes and links add up the metrics of the paths through them, small nodes can be folded
  into one \<open>other\<close> node per stage, and labels can be masked. Parameters are translation, \<open>localeCompare\<close>,
  number formatting and the colour schemes of the chart library, gathered in \<open>flow_env\<close>.
\<close>

subsection \<open>Data\<close>

datatype flow_kind = K_user | K_node | K_token | K_group | K_model | K_channel

datatype flow_metric = M_quota | M_tokens | M_requests

datatype overflow_mode = Aggregate | Hide

datatype flow_role = Role_user | Role_admin | Role_root

record flow_row =
  fr_user_id :: "jsnum option"
  fr_username :: "jsstring option"
  fr_node_name :: "jsstring option"
  fr_use_group :: "jsstring option"
  fr_token_id :: "jsnum option"
  fr_token_name :: "jsstring option"
  fr_channel_id :: "jsnum option"
  fr_channel_name :: "jsstring option"
  fr_model_name :: "jsstring option"
  fr_token_used :: "jsnum option"
  fr_count :: "jsnum option"
  fr_quota :: "jsnum option"

record flow_metrics =
  fm_quota :: jsnum
  fm_tokens :: jsnum
  fm_requests :: jsnum

record path_node =
  pn_id :: jsstring
  pn_label :: jsstring
  pn_kind :: flow_kind

record flow_node =
  fn_id :: jsstring
  fn_label :: jsstring
  fn_kind :: flow_kind
  fn_value :: jsnum
  fn_requests :: jsnum
  fn_quota :: jsnum
  fn_tokens :: jsnum
  fn_color :: jsstring
  fn_color_key :: jsstring
  fn_highlighted :: "bool option"
  fn_dimmed :: "bool option"

record flow_link =
  fl_source :: jsstring
  fl_target :: jsstring
  fl_value :: jsnum
  fl_requests :: jsnum
  fl_quota :: jsnum
  fl_tokens :: jsnum
  fl_source_label :: jsstring
  fl_target_label :: jsstring
  fl_color :: jsstring
  fl_link_color :: jsstring
  fl_link_alpha :: jsnum
  fl_hover_color :: jsstring
  fl_color_key :: jsstring
  fl_share :: jsnum
  fl_highlighted :: "bool option"
  fl_dimmed :: "bool option"

record flow_graph =
  fg_nodes :: "flow_node list"
  fg_links :: "flow_link list"

type_synonym node_filter = "flow_kind \<times> jsstring"

text \<open>An entry of the colour schemes: the largest number of colours it is meant for, and the colours.\<close>

type_synonym color_scheme = "(nat option \<times> jsval list) list"

record flow_env =
  fe_t :: "jsstring \<Rightarrow> jsstring"
  fe_collate :: "jsstring \<Rightarrow> jsstring \<Rightarrow> int"
  fe_format :: "jsnum \<Rightarrow> jsstring"
  fe_schemes :: color_scheme

type_synonym token_labels = "(jsnum \<Rightarrow> jsstring) option"

type_synonym kind_labels = "(flow_kind \<Rightarrow> jsstring) option"

record flow_options =
  fo_top_limit :: "jsnum option"
  fo_overflow :: "overflow_mode option"
  fo_other_label :: kind_labels
  fo_active_node :: "node_filter option"
  fo_active_link :: "(jsstring \<times> jsstring) option"
  fo_mask :: bool

definition FLOW_NODE_KINDS :: "flow_kind list" where
  "FLOW_NODE_KINDS = [K_user, K_node, K_token, K_group, K_model, K_channel]"

primrec kind_name :: "flow_kind \<Rightarrow> jsstring" where
  "kind_name K_user = js ''user''"
| "kind_name K_node = js ''node''"
| "kind_name K_token = js ''token''"
| "kind_name K_group = js ''group''"
| "kind_name K_model = js ''model''"
| "kind_name K_channel = js ''channel''"

definition OTHER_FLOW_NODE_IDS :: "flow_kind \<Rightarrow> jsstring" where
  "OTHER_FLOW_NODE_IDS kind = kind_name kind @ js '':__other__''"

definition DEFAULT_OTHER_FLOW_NODE_LABELS :: "flow_kind \<Rightarrow> jsstring" where
  "DEFAULT_OTHER_FLOW_NODE_LABELS kind = js ''Other '' @ kind_name kind @ js ''s''"

definition SENSITIVE_FLOW_KINDS :: "flow_kind list" where
  "SENSITIVE_FLOW_KINDS = [K_user, K_node, K_token, K_group, K_channel]"

subsection \<open>Rows as paths\<close>

definition numberValue :: "jsnum option \<Rightarrow> jsnum" where
  "numberValue v = (case v of Some x \<Rightarrow> if js_is_finite x then x else JFin 0 | None \<Rightarrow> JFin 0)"

definition rowMetrics :: "flow_row \<Rightarrow> flow_metrics" where
  "rowMetrics row =
     \<lparr>fm_quota = numberValue (fr_quota row), fm_tokens = numberValue (fr_token_used row),
      fm_requests = numberValue (fr_count row)\<rparr>"

definition metricValue :: "flow_metrics \<Rightarrow> flow_metric \<Rightarrow> jsnum" where
  "metricValue m metric =
     (case metric of M_requests \<Rightarrow> fm_requests m | M_tokens \<Rightarrow> fm_tokens m | M_quota \<Rightarrow> fm_quota m)"

text \<open>\<open>text || fallback\<close>\<close>

definition or_text :: "jsstring option \<Rightarrow> jsstring \<Rightarrow> jsstring" where
  "or_text s fallback = (case s of Some t \<Rightarrow> if t = [] then fallback else t | None \<Rightarrow> fallback)"

text \<open>The id of a row's user, token or channel: its number, or its name when it has none.\<close>

definition numbered_id :: "jsstring \<Rightarrow> jsnum \<Rightarrow> jsstring option \<Rightarrow> jsstring" where
  "numbered_id prefix n name =
     (if js_lt (JFin 0) n then prefix @ [58] @ js_number_text n
      else prefix @ [58] @ or_text name (js ''unknown''))"

definition userNode :: "flow_env \<Rightarrow> flow_row \<Rightarrow> path_node" where
  "userNode env row =
     (let user_id = numberValue (fr_user_id row) in
      \<lparr>pn_id = numbered_id (js ''user'') user_id (fr_username row),
       pn_label = or_text (fr_username row)
         (if js_lt (JFin 0) user_id then js ''user-'' @ js_number_text user_id
          else fe_t env (js ''Unknown user'')),
       pn_kind = K_user\<rparr>)"

definition nodeNameNode :: "flow_row \<Rightarrow> path_node" where
  "nodeNameNode row =
     (let name = or_text (fr_node_name row) (js ''default-node'') in
      \<lparr>pn_id = js ''node:'' @ name, pn_label = name, pn_kind = K_node\<rparr>)"

definition deletedTokenLabel :: "flow_env \<Rightarrow> jsnum \<Rightarrow> token_labels \<Rightarrow> jsstring" where
  "deletedTokenLabel env token_id ctx =
     (if js_le token_id (JFin 0) then fe_t env (js ''Unknown token'')
      else case ctx of Some f \<Rightarrow> f token_id | None \<Rightarrow> js ''token-'' @ js_number_text token_id)"

definition tokenNode :: "flow_env \<Rightarrow> flow_row \<Rightarrow> token_labels \<Rightarrow> path_node" where
  "tokenNode env row ctx =
     (let token_id = numberValue (fr_token_id row) in
      \<lparr>pn_id = numbered_id (js ''token'') token_id (fr_token_name row),
       pn_label = or_text (fr_token_name row) (deletedTokenLabel env token_id ctx),
       pn_kind = K_token\<rparr>)"

definition groupNode :: "flow_row \<Rightarrow> path_node" where
  "groupNode row =
     (let use_group = or_text (fr_use_group row) (js ''unknown'') in
      \<lparr>pn_id = js ''group:'' @ use_group, pn_label = use_group, pn_kind = K_group\<rparr>)"

definition modelNode :: "flow_env \<Rightarrow> flow_row \<Rightarrow> path_node" where
  "modelNode env row =
     \<lparr>pn_id = js ''model:'' @ or_text (fr_model_name row) (js ''unknown''),
      pn_label = or_text (fr_model_name row) (fe_t env (js ''Unknown model'')), pn_kind = K_model\<rparr>"

definition channelNode :: "flow_env \<Rightarrow> flow_row \<Rightarrow> path_node" where
  "channelNode env row =
     (let channel_id = numberValue (fr_channel_id row) in
      \<lparr>pn_id = numbered_id (js ''channel'') channel_id (fr_channel_name row),
       pn_label = or_text (fr_channel_name row)
         (if js_lt (JFin 0) channel_id then js ''channel-'' @ js_number_text channel_id
          else fe_t env (js ''Unknown'')),
       pn_kind = K_channel\<rparr>)"

primrec NODE_BUILDERS :: "flow_kind \<Rightarrow> flow_env \<Rightarrow> flow_row \<Rightarrow> token_labels \<Rightarrow> path_node" where
  "NODE_BUILDERS K_user = (\<lambda>env row ctx. userNode env row)"
| "NODE_BUILDERS K_node = (\<lambda>env row ctx. nodeNameNode row)"
| "NODE_BUILDERS K_token = (\<lambda>env row ctx. tokenNode env row ctx)"
| "NODE_BUILDERS K_group = (\<lambda>env row ctx. groupNode row)"
| "NODE_BUILDERS K_model = (\<lambda>env row ctx. modelNode env row)"
| "NODE_BUILDERS K_channel = (\<lambda>env row ctx. channelNode env row)"

primrec getFlowStages :: "flow_role \<Rightarrow> flow_kind list" where
  "getFlowStages Role_root = [K_user, K_node, K_token, K_group, K_model, K_channel]"
| "getFlowStages Role_admin = [K_user, K_group, K_model, K_channel]"
| "getFlowStages Role_user = [K_token, K_group, K_model]"

definition MIN_FLOW_STAGES :: nat where
  "MIN_FLOW_STAGES = 2"

definition resolveVisibleStages :: "flow_role \<Rightarrow> flow_kind list option \<Rightarrow> flow_kind list" where
  "resolveVisibleStages role visible =
     (case visible of
        None \<Rightarrow> getFlowStages role
      | Some vs \<Rightarrow>
          let filtered = filter (\<lambda>s. s \<in> set vs) (getFlowStages role) in
          if MIN_FLOW_STAGES \<le> length filtered then filtered else getFlowStages role)"

definition flowPathForStages ::
  "flow_env \<Rightarrow> flow_row \<Rightarrow> flow_kind list \<Rightarrow> token_labels \<Rightarrow> path_node list" where
  "flowPathForStages env row stages ctx = map (\<lambda>stage. NODE_BUILDERS stage env row ctx) stages"

subsection \<open>Colours\<close>

definition DEFAULT_FLOW_CHART_COLOR :: jsstring where
  "DEFAULT_FLOW_CHART_COLOR = js ''#1664FF''"

definition getDashboardChartColors :: "color_scheme \<Rightarrow> nat \<Rightarrow> jsstring list" where
  "getDashboardChartColors schemes n =
     (if schemes = [] then []
      else List.map_filter (\<lambda>v. case v of VStr s \<Rightarrow> Some s | _ \<Rightarrow> None)
        (snd (case find (\<lambda>e. case fst e of None \<Rightarrow> True | Some m \<Rightarrow> m = 0 \<or> n \<le> m) schemes of
                Some e \<Rightarrow> e
              | None \<Rightarrow> last schemes)))"

definition colorAt :: "flow_env \<Rightarrow> nat \<Rightarrow> jsstring list option \<Rightarrow> jsstring" where
  "colorAt env i palette =
     (let colors = (case palette of
                      Some (c # cs) \<Rightarrow> c # cs
                    | _ \<Rightarrow> getDashboardChartColors (fe_schemes env) (i + 1)) in
      if colors = [] then DEFAULT_FLOW_CHART_COLOR else colors ! (i mod length colors))"

definition colorPalette :: "flow_env \<Rightarrow> nat \<Rightarrow> jsstring list option \<Rightarrow> jsstring list" where
  "colorPalette env n palette =
     (case palette of
        Some (c # cs) \<Rightarrow> c # cs
      | _ \<Rightarrow> let colors = getDashboardChartColors (fe_schemes env) n in
             if colors = [] then [DEFAULT_FLOW_CHART_COLOR] else colors)"

definition stableColorMap ::
  "flow_env \<Rightarrow> jsstring list \<Rightarrow> jsstring list option \<Rightarrow> (jsstring \<times> jsstring) list" where
  "stableColorMap env keys palette =
     (let unique = js_unique keys; colors = colorPalette env (length unique) palette in
      map (\<lambda>(i, key). (key, colorAt env i (Some colors))) (enumerate 0 unique))"

text \<open>\<open>/^[0-9a-f]{6}$/i\<close> and \<open>toFixed(2)\<close> of a number between 0 and 1.\<close>

definition is_hex_color :: "jsstring \<Rightarrow> bool" where
  "is_hex_color s \<longleftrightarrow> length s = 6 \<and> list_all is_hex s"

definition pad_digits :: "nat \<Rightarrow> int \<Rightarrow> jsstring" where
  "pad_digits k n = replicate (k - length (digits_text n)) 48 @ digits_text n"

definition fixed2 :: "jsnum \<Rightarrow> jsstring" where
  "fixed2 x =
     (let n = \<lfloor>js_val x * 100 + 1 / 2\<rfloor> in int_text (n div 100) @ [46] @ pad_digits 2 (n mod 100))"

definition alphaColor :: "jsstring \<Rightarrow> jsnum \<Rightarrow> jsstring \<times> jsnum" where
  "alphaColor color alpha =
     (let normalized = js_trim color;
          hex = (if js_starts_with normalized [35] then drop 1 normalized else normalized) in
      if \<not> is_hex_color hex then (normalized, alpha)
      else (let n = radix_digits 16 hex in
            (js ''rgba('' @ int_text (n div 65536 mod 256) @ js '', '' @ int_text (n div 256 mod 256)
               @ js '', '' @ int_text (n mod 256) @ js '', '' @ fixed2 alpha @ [41], JFin 1)))"

subsection \<open>Filters\<close>

definition filterRows :: "flow_env \<Rightarrow> flow_row list \<Rightarrow> jsstring list option \<Rightarrow> flow_row list" where
  "filterRows env rows selected =
     (case selected of
        Some (u # us) \<Rightarrow> filter (\<lambda>row. pn_id (userNode env row) \<in> set (u # us)) rows
      | _ \<Rightarrow> rows)"

text \<open>\<open>set.add(x)\<close>\<close>

definition set_add :: "'a \<Rightarrow> 'a list \<Rightarrow> 'a list" where
  "set_add x xs = (if x \<in> set xs then xs else xs @ [x])"

definition normalizeSelectedNodeFilters ::
  "node_filter list option \<Rightarrow> flow_kind list \<Rightarrow> (flow_kind \<times> jsstring list) list" where
  "normalizeSelectedNodeFilters selected stages =
     fold (\<lambda>(kind, i) filters. if kind \<in> set stages then bump kind [] (set_add i) filters else filters)
       (case selected of Some fs \<Rightarrow> fs | None \<Rightarrow> []) []"

definition pathMatchesNodeFilters :: "path_node list \<Rightarrow> (flow_kind \<times> jsstring list) list \<Rightarrow> bool" where
  "pathMatchesNodeFilters path filters =
     list_all (\<lambda>(kind, ids). list_ex (\<lambda>i. list_ex (\<lambda>node. pn_kind node = kind \<and> pn_id node = i) path) ids)
       filters"

definition filterRowsByNodes ::
  "flow_env \<Rightarrow> flow_row list \<Rightarrow> node_filter list option \<Rightarrow> flow_kind list \<Rightarrow> token_labels \<Rightarrow> flow_row list" where
  "filterRowsByNodes env rows selected stages ctx =
     (let filters = normalizeSelectedNodeFilters selected stages in
      if filters = [] then rows
      else filter (\<lambda>row. pathMatchesNodeFilters (flowPathForStages env row stages ctx) filters) rows)"

definition selectedNodeFiltersExceptKind ::
  "node_filter list option \<Rightarrow> flow_kind \<Rightarrow> node_filter list option" where
  "selectedNodeFiltersExceptKind selected kind =
     (case filter (\<lambda>f. fst f \<noteq> kind) (case selected of Some fs \<Rightarrow> fs | None \<Rightarrow> []) of
        [] \<Rightarrow> None
      | fs \<Rightarrow> Some fs)"

subsection \<open>Nodes and links\<close>

definition fresh_node :: "path_node \<Rightarrow> jsstring \<Rightarrow> jsstring \<Rightarrow> flow_node" where
  "fresh_node node color color_key =
     \<lparr>fn_id = pn_id node, fn_label = pn_label node, fn_kind = pn_kind node, fn_value = JFin 0,
      fn_requests = JFin 0, fn_quota = JFin 0, fn_tokens = JFin 0, fn_color = color,
      fn_color_key = color_key, fn_highlighted = None, fn_dimmed = None\<rparr>"

definition grow_node :: "flow_metrics \<Rightarrow> flow_metric \<Rightarrow> flow_node \<Rightarrow> flow_node" where
  "grow_node m metric node =
     node\<lparr>fn_value := js_add (fn_value node) (metricValue m metric),
          fn_requests := js_add (fn_requests node) (fm_requests m),
          fn_quota := js_add (fn_quota node) (fm_quota m),
          fn_tokens := js_add (fn_tokens node) (fm_tokens m)\<rparr>"

definition addNode ::
  "path_node \<Rightarrow> flow_metrics \<Rightarrow> flow_metric \<Rightarrow> jsstring \<Rightarrow> jsstring
     \<Rightarrow> (jsstring \<times> flow_node) list \<Rightarrow> (jsstring \<times> flow_node) list" where
  "addNode node m metric color color_key nodes =
     bump (pn_id node) (fresh_node node color color_key) (grow_node m metric) nodes"

definition pathLinkKey :: "path_node \<Rightarrow> path_node \<Rightarrow> jsstring" where
  "pathLinkKey a b = pn_id a @ [0] @ pn_id b"

definition linkStableKey :: "flow_link \<Rightarrow> jsstring" where
  "linkStableKey l = fl_source l @ [0] @ fl_target l"

definition fresh_link :: "path_node \<Rightarrow> path_node \<Rightarrow> jsstring \<Rightarrow> jsstring \<Rightarrow> flow_link" where
  "fresh_link a b color color_key =
     \<lparr>fl_source = pn_id a, fl_target = pn_id b, fl_value = JFin 0, fl_requests = JFin 0,
      fl_quota = JFin 0, fl_tokens = JFin 0, fl_source_label = pn_label a, fl_target_label = pn_label b,
      fl_color = color, fl_link_color = color, fl_link_alpha = JFin 1, fl_hover_color = color,
      fl_color_key = color_key, fl_share = JFin 0, fl_highlighted = None, fl_dimmed = None\<rparr>"

definition grow_link :: "flow_metrics \<Rightarrow> flow_metric \<Rightarrow> flow_link \<Rightarrow> flow_link" where
  "grow_link m metric l =
     l\<lparr>fl_value := js_add (fl_value l) (metricValue m metric),
       fl_requests := js_add (fl_requests l) (fm_requests m),
       fl_quota := js_add (fl_quota l) (fm_quota m),
       fl_tokens := js_add (fl_tokens l) (fm_tokens m)\<rparr>"

definition addLink ::
  "path_node \<Rightarrow> path_node \<Rightarrow> flow_metrics \<Rightarrow> flow_metric \<Rightarrow> jsstring \<Rightarrow> jsstring
     \<Rightarrow> (jsstring \<times> flow_link) list \<Rightarrow> (jsstring \<times> flow_link) list" where
  "addLink a b m metric color color_key links =
     bump (pathLinkKey a b) (fresh_link a b color color_key) (grow_link m metric) links"

text \<open>The neighbours on a path.\<close>

fun path_steps :: "path_node list \<Rightarrow> (path_node \<times> path_node) list" where
  "path_steps (a # b # path) = (a, b) # path_steps (b # path)"
| "path_steps _ = []"

subsection \<open>Orders\<close>

definition value_order :: "jsnum \<Rightarrow> jsnum \<Rightarrow> int" where
  "value_order a b = js_signum (js_sub b a)"

definition byValueThenLabel :: "flow_env \<Rightarrow> flow_node \<Rightarrow> flow_node \<Rightarrow> int" where
  "byValueThenLabel env a b =
     or_sign (value_order (fn_value a) (fn_value b)) (fe_collate env (fn_label a) (fn_label b))"

definition link_order :: "flow_env \<Rightarrow> flow_link \<Rightarrow> flow_link \<Rightarrow> int" where
  "link_order env a b =
     or_sign (value_order (fl_value a) (fl_value b)) (fe_collate env (linkStableKey a) (linkStableKey b))"

text \<open>\<open>Number(a) - Number(b)\<close> of optional flags; a missing flag gives NaN.\<close>

definition flag_order :: "bool option \<Rightarrow> bool option \<Rightarrow> int" where
  "flag_order a b = (case (a, b) of (Some x, Some y) \<Rightarrow> of_bool x - of_bool y | _ \<Rightarrow> 0)"

definition byLinkDrawPriority :: "flow_env \<Rightarrow> flow_link \<Rightarrow> flow_link \<Rightarrow> int" where
  "byLinkDrawPriority env a b =
     or_sign (flag_order (fl_dimmed a) (fl_dimmed b))
       (or_sign (flag_order (fl_highlighted b) (fl_highlighted a)) (link_order env a b))"

definition link_alpha :: "nat \<Rightarrow> nat \<Rightarrow> jsnum" where
  "link_alpha n i =
     (if n = 1 then round64 (34 / 100)
      else js_add (round64 (24 / 100))
             (js_mul (js_div (js_of_nat i) (js_of_nat (max (n - 1) 1))) (round64 (2 / 10))))"

text \<open>The links of a source, largest first, get increasing opacity.\<close>

definition display_color :: "flow_env \<Rightarrow> flow_link list \<Rightarrow> flow_link \<Rightarrow> flow_link" where
  "display_color env links l =
     (let sorted = js_sort (link_order env) (filter (\<lambda>k. fl_source k = fl_source l) links);
          i = length (takeWhile (\<lambda>k. linkStableKey k \<noteq> linkStableKey l) sorted);
          color = alphaColor (fl_color l) (link_alpha (length sorted) i) in
      l\<lparr>fl_link_color := fst color, fl_link_alpha := snd color, fl_hover_color := fl_color l\<rparr>)"

definition assignLinkDisplayColors :: "flow_env \<Rightarrow> flow_link list \<Rightarrow> flow_link list" where
  "assignLinkDisplayColors env links = map (display_color env links) links"

subsection \<open>The largest nodes\<close>

definition buildSummary :: "flow_row list \<Rightarrow> flow_metrics" where
  "buildSummary rows =
     fold (\<lambda>row s. let m = rowMetrics row in
       \<lparr>fm_quota = js_add (fm_quota s) (fm_quota m), fm_tokens = js_add (fm_tokens s) (fm_tokens m),
        fm_requests = js_add (fm_requests s) (fm_requests m)\<rparr>) rows
       \<lparr>fm_quota = JFin 0, fm_tokens = JFin 0, fm_requests = JFin 0\<rparr>"

definition normalizeTopNodeLimit :: "jsnum option \<Rightarrow> nat option" where
  "normalizeTopNodeLimit limit =
     (case limit of
        None \<Rightarrow> None
      | Some x \<Rightarrow>
          let parsed = js_floor x in
          if js_is_finite parsed \<and> js_lt (JFin 0) parsed then Some (nat \<lfloor>js_val parsed\<rfloor>) else None)"

definition otherFlowNode :: "flow_kind \<Rightarrow> kind_labels \<Rightarrow> path_node" where
  "otherFlowNode kind labeler =
     \<lparr>pn_id = OTHER_FLOW_NODE_IDS kind,
      pn_label = (case labeler of Some f \<Rightarrow> f kind | None \<Rightarrow> DEFAULT_OTHER_FLOW_NODE_LABELS kind),
      pn_kind = kind\<rparr>"

type_synonym node_rank = "path_node \<times> jsnum"

definition add_rank :: "jsnum \<Rightarrow> path_node \<Rightarrow> (jsstring \<times> node_rank) list \<Rightarrow> (jsstring \<times> node_rank) list" where
  "add_rank x node ranks = bump (pn_id node) (node, JFin 0) (\<lambda>(n, y). (n, js_add y x)) ranks"

definition rank_order :: "flow_env \<Rightarrow> node_rank \<Rightarrow> node_rank \<Rightarrow> int" where
  "rank_order env a b =
     or_sign (value_order (snd a) (snd b))
       (or_sign (fe_collate env (pn_label (fst a)) (pn_label (fst b)))
          (fe_collate env (pn_id (fst a)) (pn_id (fst b))))"

text \<open>The totals of a stage: every row adds to its node of that stage.\<close>

definition stage_totals ::
  "flow_env \<Rightarrow> flow_row list \<Rightarrow> flow_metric \<Rightarrow> flow_kind \<Rightarrow> token_labels \<Rightarrow> (jsstring \<times> node_rank) list" where
  "stage_totals env rows metric stage ctx =
     fold (\<lambda>row. add_rank (metricValue (rowMetrics row) metric) (NODE_BUILDERS stage env row ctx)) rows []"

definition top_ids :: "flow_env \<Rightarrow> nat \<Rightarrow> (jsstring \<times> node_rank) list \<Rightarrow> jsstring list" where
  "top_ids env limit ranks = map (\<lambda>r. pn_id (fst r)) (take limit (js_sort (rank_order env) (map snd ranks)))"

definition buildTopNodeSets ::
  "flow_env \<Rightarrow> flow_row list \<Rightarrow> flow_metric \<Rightarrow> flow_kind list \<Rightarrow> nat option \<Rightarrow> token_labels
     \<Rightarrow> (flow_kind \<times> jsstring list) list option" where
  "buildTopNodeSets env rows metric stages limit ctx =
     (case limit of
        None \<Rightarrow> None
      | Some n \<Rightarrow>
          Some (map (\<lambda>stage. (stage, top_ids env n (stage_totals env rows metric stage ctx))) stages))"

definition isTopFlowNode :: "path_node \<Rightarrow> (flow_kind \<times> jsstring list) list option \<Rightarrow> bool" where
  "isTopFlowNode node sets =
     (case sets of
        None \<Rightarrow> True
      | Some tops \<Rightarrow> (case map_of tops (pn_kind node) of None \<Rightarrow> True | Some ids \<Rightarrow> pn_id node \<in> set ids))"

definition applyTopNodeLimit ::
  "path_node list \<Rightarrow> (flow_kind \<times> jsstring list) list option \<Rightarrow> overflow_mode \<Rightarrow> kind_labels
     \<Rightarrow> path_node list option" where
  "applyTopNodeLimit path sets mode labeler =
     (if sets = None then Some path
      else if list_all (\<lambda>node. isTopFlowNode node sets) path then Some path
      else if mode = Hide then None
      else Some (map (\<lambda>node. if isTopFlowNode node sets then node
                              else otherFlowNode (pn_kind node) labeler) path))"

subsection \<open>Highlights and masking\<close>

definition pathContainsFlowNode :: "path_node list \<Rightarrow> node_filter \<Rightarrow> bool" where
  "pathContainsFlowNode path f = list_ex (\<lambda>node. pn_kind node = fst f \<and> pn_id node = snd f) path"

definition pathContainsFlowLink :: "path_node list \<Rightarrow> jsstring \<times> jsstring \<Rightarrow> bool" where
  "pathContainsFlowLink path l = list_ex (\<lambda>(a, b). pn_id a = fst l \<and> pn_id b = snd l) (path_steps path)"

definition matches_path :: "node_filter option \<Rightarrow> (jsstring \<times> jsstring) option \<Rightarrow> path_node list \<Rightarrow> bool" where
  "matches_path active_node active_link path =
     (case active_link of
        Some l \<Rightarrow> pathContainsFlowLink path l
      | None \<Rightarrow> (case active_node of Some f \<Rightarrow> pathContainsFlowNode path f | None \<Rightarrow> False))"

type_synonym prepared_path = "path_node list \<times> flow_metrics"

definition buildFlowHighlightSets ::
  "prepared_path list \<Rightarrow> node_filter option \<Rightarrow> (jsstring \<times> jsstring) option \<Rightarrow> flow_kind list
     \<Rightarrow> (jsstring list \<times> jsstring list) option" where
  "buildFlowHighlightSets prepared active_node active_link stages =
     (if \<not> (case active_node of Some f \<Rightarrow> fst f \<in> set stages | None \<Rightarrow> False) \<and> active_link = None then None
      else (let paths = filter (matches_path active_node active_link) (map fst prepared);
                nodes = js_unique (concat (map (map pn_id) paths));
                links = js_unique (concat (map (\<lambda>path. map (\<lambda>(a, b). pathLinkKey a b) (path_steps path)) paths)) in
            if nodes = [] then None else Some (nodes, links)))"

definition maskFlowLabel :: "jsstring \<Rightarrow> jsstring" where
  "maskFlowLabel label = (if label = [] then label else replicate 4 8226)"

definition is_masked :: "flow_node \<Rightarrow> bool" where
  "is_masked node \<longleftrightarrow>
     fn_kind node \<in> set SENSITIVE_FLOW_KINDS \<and> fn_id node \<notin> set (map OTHER_FLOW_NODE_IDS FLOW_NODE_KINDS)"

definition mask_node :: "flow_node \<Rightarrow> flow_node" where
  "mask_node node = (if is_masked node then node\<lparr>fn_label := maskFlowLabel (fn_label node)\<rparr> else node)"

text \<open>\<open>maskedById\<close>, keyed by the id of the node.\<close>

definition masked_labels :: "flow_node list \<Rightarrow> (jsstring \<times> jsstring) list" where
  "masked_labels nodes =
     fold (\<lambda>node. AList.update (fn_id node) (maskFlowLabel (fn_label node))) (filter is_masked nodes) []"

definition mask_link :: "(jsstring \<times> jsstring) list \<Rightarrow> flow_link \<Rightarrow> flow_link" where
  "mask_link masked l =
     l\<lparr>fl_source_label := (case map_of masked (fl_source l) of Some s \<Rightarrow> s | None \<Rightarrow> fl_source_label l),
       fl_target_label := (case map_of masked (fl_target l) of Some s \<Rightarrow> s | None \<Rightarrow> fl_target_label l)\<rparr>"

definition maskFlowGraphLabels ::
  "flow_node list \<times> flow_link list \<Rightarrow> flow_node list \<times> flow_link list" where
  "maskFlowGraphLabels g =
     (map mask_node (fst g), map (mask_link (masked_labels (fst g))) (snd g))"

definition highlight_node :: "jsstring list \<Rightarrow> flow_node \<Rightarrow> flow_node" where
  "highlight_node ids node =
     (let on = fn_id node \<in> set ids in node\<lparr>fn_highlighted := Some on, fn_dimmed := Some (\<not> on)\<rparr>)"

definition highlight_link :: "jsstring list \<Rightarrow> flow_link \<Rightarrow> flow_link" where
  "highlight_link ids l =
     (let on = linkStableKey l \<in> set ids in l\<lparr>fl_highlighted := Some on, fl_dimmed := Some (\<not> on)\<rparr>)"

definition applyFlowHighlights ::
  "flow_node list \<times> flow_link list \<Rightarrow> (jsstring list \<times> jsstring list) option
     \<Rightarrow> flow_node list \<times> flow_link list" where
  "applyFlowHighlights g sets =
     (case sets of
        None \<Rightarrow> g
      | Some (node_ids, link_ids) \<Rightarrow> (map (highlight_node node_ids) (fst g), map (highlight_link link_ids) (snd g)))"

subsection \<open>The graph\<close>

definition prepare_paths ::
  "flow_env \<Rightarrow> flow_row list \<Rightarrow> flow_metric \<Rightarrow> flow_kind list \<Rightarrow> token_labels \<Rightarrow> flow_options
     \<Rightarrow> prepared_path list" where
  "prepare_paths env rows metric stages ctx options =
     (let tops = buildTopNodeSets env rows metric stages (normalizeTopNodeLimit (fo_top_limit options)) ctx;
          mode = (case fo_overflow options of Some m \<Rightarrow> m | None \<Rightarrow> Aggregate) in
      List.map_filter (\<lambda>row.
        map_option (\<lambda>path. (path, rowMetrics row))
          (applyTopNodeLimit (flowPathForStages env row stages ctx) tops mode (fo_other_label options))) rows)"

definition first_ids :: "prepared_path list \<Rightarrow> jsstring list" where
  "first_ids prepared =
     List.map_filter (\<lambda>(path, _). case path of a # _ \<Rightarrow> if pn_id a = [] then None else Some (pn_id a) | [] \<Rightarrow> None)
       prepared"

definition path_color :: "flow_env \<Rightarrow> (jsstring \<times> jsstring) list \<Rightarrow> jsstring list option \<Rightarrow> jsstring \<Rightarrow> jsstring" where
  "path_color env colors palette i =
     (case map_of colors i of Some c \<Rightarrow> c | None \<Rightarrow> colorAt env 0 palette)"

definition add_path_nodes ::
  "(jsstring \<Rightarrow> jsstring) \<Rightarrow> flow_metric \<Rightarrow> prepared_path \<Rightarrow> (jsstring \<times> flow_node) list
     \<Rightarrow> (jsstring \<times> flow_node) list" where
  "add_path_nodes color metric prepared nodes =
     (case fst prepared of
        [] \<Rightarrow> nodes
      | first # _ \<Rightarrow>
          fold (\<lambda>node. addNode node (snd prepared) metric (color (pn_id first)) (pn_id first))
            (fst prepared) nodes)"

definition add_path_links ::
  "(jsstring \<Rightarrow> jsstring) \<Rightarrow> flow_metric \<Rightarrow> prepared_path \<Rightarrow> (jsstring \<times> flow_link) list
     \<Rightarrow> (jsstring \<times> flow_link) list" where
  "add_path_links color metric prepared links =
     (case fst prepared of
        [] \<Rightarrow> links
      | first # _ \<Rightarrow>
          fold (\<lambda>(a, b). addLink a b (snd prepared) metric (color (pn_id first)) (pn_id first))
            (path_steps (fst prepared)) links)"

definition link_total :: "jsstring list \<Rightarrow> flow_link list \<Rightarrow> jsnum" where
  "link_total sources links =
     fold (\<lambda>l sum. js_add sum (fl_value l)) (filter (\<lambda>l. fl_source l \<in> set sources) links) (JFin 0)"

definition set_share :: "jsnum \<Rightarrow> flow_link \<Rightarrow> flow_link" where
  "set_share whole l = l\<lparr>fl_share := if js_lt (JFin 0) whole then js_div (fl_value l) whole else JFin 0\<rparr>"

definition endpoint_order :: "flow_env \<Rightarrow> flow_link \<Rightarrow> flow_link \<Rightarrow> int" where
  "endpoint_order env a b =
     or_sign (fe_collate env (fl_source a) (fl_source b)) (fe_collate env (fl_target a) (fl_target b))"

definition graph_of_paths ::
  "flow_env \<Rightarrow> prepared_path list \<Rightarrow> flow_metric \<Rightarrow> flow_kind list \<Rightarrow> jsstring list option \<Rightarrow> flow_options
     \<Rightarrow> flow_graph" where
  "graph_of_paths env prepared metric stages palette options =
     (let colors = stableColorMap env (js_sort (fe_collate env) (first_ids prepared)) palette;
          color = path_color env colors palette;
          nodes = map snd (fold (add_path_nodes color metric) prepared []);
          links = map snd (fold (add_path_links color metric) prepared []);
          masked = (if fo_mask options then maskFlowGraphLabels (nodes, links) else (nodes, links));
          lit = applyFlowHighlights masked
                  (buildFlowHighlightSets prepared (fo_active_node options) (fo_active_link options) stages);
          flow_links = js_sort (endpoint_order env) (snd lit);
          whole = link_total (first_ids prepared) flow_links in
      \<lparr>fg_nodes = js_sort (byValueThenLabel env) (fst lit),
       fg_links = assignLinkDisplayColors env (map (set_share whole) flow_links)\<rparr>)"

definition buildFlowGraph ::
  "flow_env \<Rightarrow> flow_row list \<Rightarrow> flow_metric \<Rightarrow> flow_role \<Rightarrow> jsstring list option \<Rightarrow> flow_kind list option
     \<Rightarrow> token_labels \<Rightarrow> flow_options \<Rightarrow> flow_graph" where
  "buildFlowGraph env rows metric role palette visible ctx options =
     (let stages = resolveVisibleStages role visible in
      graph_of_paths env (prepare_paths env rows metric stages ctx options) metric stages palette options)"

subsection \<open>Filter options\<close>

record filter_option =
  op_kind :: flow_kind
  op_value :: jsstring
  op_label :: jsstring
  op_value_label :: jsstring
  op_value_raw :: jsnum
  op_color :: jsstring

text \<open>\<open>!row.user_id && !row.username\<close>\<close>

definition anonymous :: "flow_row \<Rightarrow> bool" where
  "anonymous row \<longleftrightarrow>
     (case fr_user_id row of Some x \<Rightarrow> \<not> js_truthy (VNum x) | None \<Rightarrow> True)
     \<and> (case fr_username row of Some s \<Rightarrow> s = [] | None \<Rightarrow> True)"

definition user_totals ::
  "flow_env \<Rightarrow> (jsstring \<Rightarrow> jsstring) \<Rightarrow> flow_metric \<Rightarrow> flow_row list \<Rightarrow> (jsstring \<times> jsstring \<times> jsnum \<times> jsstring) list" where
  "user_totals env color metric rows =
     fold (\<lambda>row. let user = userNode env row in
       bump (pn_id user) (pn_label user, JFin 0, color (pn_id user))
         (\<lambda>(label, y, c). (label, js_add y (metricValue (rowMetrics row) metric), c)))
       (filter (\<lambda>row. \<not> anonymous row) rows) []"

definition user_option_order :: "flow_env \<Rightarrow> filter_option \<Rightarrow> filter_option \<Rightarrow> int" where
  "user_option_order env a b =
     or_sign (value_order (op_value_raw a) (op_value_raw b)) (fe_collate env (op_label a) (op_label b))"

definition buildUserFilterOptions ::
  "flow_env \<Rightarrow> flow_row list \<Rightarrow> flow_metric \<Rightarrow> jsstring list option \<Rightarrow> filter_option list" where
  "buildUserFilterOptions env rows metric palette =
     (let colors = stableColorMap env
            (js_sort (fe_collate env) (map (\<lambda>row. pn_id (userNode env row)) rows)) palette in
      js_sort (user_option_order env)
        (map (\<lambda>(i, label, y, c).
                \<lparr>op_kind = K_user, op_value = i, op_label = label, op_value_label = fe_format env y,
                 op_value_raw = y, op_color = c\<rparr>)
          (user_totals env (path_color env colors palette) metric rows)))"

definition stage_index :: "flow_kind list \<Rightarrow> flow_kind \<Rightarrow> nat" where
  "stage_index stages kind =
     (let i = length (takeWhile (\<lambda>k. k \<noteq> kind) stages) in if i < length stages then i else 0)"

definition node_option_order :: "flow_env \<Rightarrow> flow_kind list \<Rightarrow> filter_option \<Rightarrow> filter_option \<Rightarrow> int" where
  "node_option_order env stages a b =
     or_sign (int (stage_index stages (op_kind a)) - int (stage_index stages (op_kind b)))
       (or_sign (user_option_order env a b) (fe_collate env (op_value a) (op_value b)))"

definition nodeFilterKey :: "node_filter \<Rightarrow> jsstring" where
  "nodeFilterKey f = kind_name (fst f) @ [0] @ snd f"

definition option_totals ::
  "flow_env \<Rightarrow> flow_row list \<Rightarrow> flow_metric \<Rightarrow> flow_kind \<Rightarrow> token_labels \<Rightarrow> (jsstring \<times> node_rank) list" where
  "option_totals env rows metric stage ctx =
     fold (\<lambda>row. let node = NODE_BUILDERS stage env row ctx in
       bump (nodeFilterKey (pn_kind node, pn_id node)) (node, JFin 0)
         (\<lambda>(n, y). (n, js_add y (metricValue (rowMetrics row) metric)))) rows []"

definition buildNodeFilterOptions ::
  "flow_env \<Rightarrow> flow_row list \<Rightarrow> flow_metric \<Rightarrow> flow_role \<Rightarrow> flow_kind list option \<Rightarrow> jsstring list option
     \<Rightarrow> token_labels \<Rightarrow> node_filter list option \<Rightarrow> filter_option list" where
  "buildNodeFilterOptions env rows metric role visible palette ctx selected =
     (let stages = resolveVisibleStages role visible;
          ids = js_unique (concat (map (\<lambda>row. map pn_id (flowPathForStages env row stages ctx)) rows));
          colors = stableColorMap env (js_sort (fe_collate env) ids) palette in
      js_sort (node_option_order env stages)
        (concat (map (\<lambda>stage.
          map (\<lambda>(_, node, y).
                 \<lparr>op_kind = pn_kind node, op_value = pn_id node, op_label = pn_label node,
                  op_value_label = fe_format env y, op_value_raw = y,
                  op_color = path_color env colors palette (pn_id node)\<rparr>)
            (option_totals env
               (filterRowsByNodes env rows (selectedNodeFiltersExceptKind selected stage) stages ctx)
               metric stage ctx)) stages)))"

definition buildFlowFilterOptions ::
  "flow_env \<Rightarrow> flow_row list \<Rightarrow> flow_metric \<Rightarrow> jsstring list option \<Rightarrow> flow_role \<Rightarrow> flow_kind list option
     \<Rightarrow> node_filter list option \<Rightarrow> filter_option list \<times> filter_option list" where
  "buildFlowFilterOptions env rows metric palette role visible selected =
     (buildUserFilterOptions env rows metric palette,
      buildNodeFilterOptions env rows metric role visible palette None selected)"

record build_options =
  bo_role :: "flow_role option"
  bo_users :: "jsstring list option"
  bo_nodes :: "node_filter list option"
  bo_palette :: "jsstring list option"
  bo_visible :: "flow_kind list option"
  bo_token_label :: token_labels
  bo_graph :: flow_options

record flow_data =
  fd_summary :: flow_metrics
  fd_flow :: flow_graph
  fd_users :: "filter_option list"
  fd_nodes :: "filter_option list"

definition filtered_rows :: "flow_env \<Rightarrow> flow_row list \<Rightarrow> build_options \<Rightarrow> flow_row list" where
  "filtered_rows env rows options =
     filterRowsByNodes env (filterRows env rows (bo_users options)) (bo_nodes options)
       (resolveVisibleStages (case bo_role options of Some r \<Rightarrow> r | None \<Rightarrow> Role_user) (bo_visible options))
       (bo_token_label options)"

definition buildDashboardFlowData :: "flow_env \<Rightarrow> flow_row list \<Rightarrow> flow_metric \<Rightarrow> build_options \<Rightarrow> flow_data" where
  "buildDashboardFlowData env rows metric options =
     (let role = (case bo_role options of Some r \<Rightarrow> r | None \<Rightarrow> Role_user);
          filtered = filtered_rows env rows options in
      \<lparr>fd_summary = buildSummary filtered,
       fd_flow = buildFlowGraph env filtered metric role (bo_palette options) (bo_visible options)
         (bo_token_label options) (bo_graph options),
       fd_users = buildUserFilterOptions env rows metric (bo_palette options),
       fd_nodes = buildNodeFilterOptions env (filterRows env rows (bo_users options)) metric role
         (bo_visible options) (bo_palette options) (bo_token_label options) (bo_nodes options)\<rparr>)"

end
