(* ===== verification/Flow_Conservation.thy ===== *)
theory Flow_Conservation
  imports Flow_Graph
begin

section \<open>The flow chart conserves its amounts\<close>

text \<open>
  Nodes and links of the chart are tallies over the same paths. Their values are exact sums as long as
  the metrics are whole numbers whose sum is a safe integer, so that what flows into a node is what
  flows out of it, and every stage adds up to the summary.
\<close>

subsection \<open>Exact sums\<close>

definition whole_number :: "jsnum \<Rightarrow> bool" where
  "whole_number x \<longleftrightarrow> x = JFin (of_int \<lfloor>js_val x\<rfloor>) \<and> 0 \<le> \<lfloor>js_val x\<rfloor>"

definition metric_weight :: "flow_metric \<Rightarrow> flow_metrics \<Rightarrow> int" where
  "metric_weight metric m = \<lfloor>js_val (metricValue m metric)\<rfloor>"

definition measured :: "flow_metric \<Rightarrow> flow_metrics \<Rightarrow> bool" where
  "measured metric m \<longleftrightarrow> whole_number (metricValue m metric)"

lemma add_whole:
  assumes "measured metric m" and "x = JFin (of_int n)" and "0 \<le> n" and "n + metric_weight metric m < 9007199254740992"
  shows "js_add x (metricValue m metric) = JFin (of_int (n + metric_weight metric m))"
proof -
  have w: "metricValue m metric = JFin (of_int (metric_weight metric m))" "0 \<le> metric_weight metric m"
    using assms(1) by (simp_all add: measured_def whole_number_def metric_weight_def)
  have "round64 (of_int (n + metric_weight metric m)) = JFin (of_int (n + metric_weight metric m))"
    using w(2) assms(3,4) by (intro round64_int) simp
  then show ?thesis using w(1) assms(2) by simp
qed

lemma metric_weight_nonneg: "measured metric m \<Longrightarrow> 0 \<le> metric_weight metric m"
  by (simp add: measured_def whole_number_def metric_weight_def)

subsection \<open>Nodes and links as tallies\<close>

text \<open>An event: an element of a path, with the path's metrics, colour and first id.\<close>

record 'a flow_event =
  ev_item :: 'a
  ev_metrics :: flow_metrics
  ev_color :: jsstring
  ev_first :: jsstring

definition path_events ::
  "(path_node list \<Rightarrow> 'a list) \<Rightarrow> (jsstring \<Rightarrow> jsstring) \<Rightarrow> prepared_path list \<Rightarrow> 'a flow_event list" where
  "path_events f color prepared =
     concat (map (\<lambda>(path, m). map (\<lambda>x. \<lparr>ev_item = x, ev_metrics = m, ev_color = color (pn_id (hd path)), ev_first = pn_id (hd path)\<rparr>)
       (f path)) prepared)"

interpretation node_tally: tally
  "\<lambda>e. pn_id (ev_item e)" "\<lambda>e. fresh_node (ev_item e) (ev_color e) (ev_first e)"
  "\<lambda>e. grow_node (ev_metrics e) metric" fn_value
  "\<lambda>e. metric_weight metric (ev_metrics e)" "\<lambda>e. measured metric (ev_metrics e)" "9007199254740992"
  for metric
  by unfold_locales (auto simp: fresh_node_def grow_node_def add_whole metric_weight_nonneg)

interpretation link_tally: tally
  "\<lambda>e. pathLinkKey (fst (ev_item e)) (snd (ev_item e))"
  "\<lambda>e. fresh_link (fst (ev_item e)) (snd (ev_item e)) (ev_color e) (ev_first e)"
  "\<lambda>e. grow_link (ev_metrics e) metric" fl_value
  "\<lambda>e. metric_weight metric (ev_metrics e)" "\<lambda>e. measured metric (ev_metrics e)" "9007199254740992"
  for metric
  by unfold_locales (auto simp: fresh_link_def grow_link_def add_whole metric_weight_nonneg)

lemma nodes_are_tally:
  "fold (add_path_nodes color metric) prepared [] = node_tally.tally_of metric (path_events (\<lambda>path. path) color prepared)"
proof -
  have "fold (add_path_nodes color metric) prepared nodes =
      fold (\<lambda>e m. bump (pn_id (ev_item e)) (fresh_node (ev_item e) (ev_color e) (ev_first e)) (grow_node (ev_metrics e) metric) m)
        (path_events (\<lambda>path. path) color prepared) nodes" for nodes
  proof (induction prepared arbitrary: nodes)
    case (Cons p prepared)
    have "addNode n m metric c k = bump (pn_id n) (fresh_node n c k) (grow_node m metric)" for n m c k
      by (simp add: addNode_def fun_eq_iff)
    then show ?case using Cons
      by (cases p; cases "fst p") (simp_all add: path_events_def add_path_nodes_def fold_map comp_def)
  qed (simp add: path_events_def)
  then show ?thesis by (simp add: node_tally.tally_of_def)
qed

lemma links_are_tally:
  "fold (add_path_links color metric) prepared [] = link_tally.tally_of metric (path_events path_steps color prepared)"
proof -
  have "fold (add_path_links color metric) prepared links =
      fold (\<lambda>e m. bump (pathLinkKey (fst (ev_item e)) (snd (ev_item e)))
          (fresh_link (fst (ev_item e)) (snd (ev_item e)) (ev_color e) (ev_first e)) (grow_link (ev_metrics e) metric) m)
        (path_events path_steps color prepared) links" for links
  proof (induction prepared arbitrary: links)
    case (Cons p prepared)
    have "addLink a b m metric c k = bump (pathLinkKey a b) (fresh_link a b c k) (grow_link m metric)" for a b m c k
      by (simp add: addLink_def fun_eq_iff)
    then show ?case using Cons
      by (cases p; cases "fst p")
        (simp_all add: path_events_def add_path_links_def fold_map comp_def case_prod_unfold)
  qed (simp add: path_events_def)
  then show ?thesis by (simp add: link_tally.tally_of_def)
qed

text \<open>The weight of the events about accepted elements.\<close>

lemma events_weight:
  "sum_list (map (\<lambda>e. metric_weight metric (ev_metrics e)) (filter (\<lambda>e. P (ev_item e)) (path_events f color prepared)))
    = (\<Sum>(path, m)\<leftarrow>prepared. metric_weight metric m * int (length (filter P (f path))))"
proof (induction prepared)
  case (Cons p prepared)
  obtain path m where p: "p = (path, m)" by (cases p)
  have "sum_list (map (\<lambda>e. metric_weight metric (ev_metrics e)) (filter (\<lambda>e. P (ev_item e))
        (map (\<lambda>x. \<lparr>ev_item = x, ev_metrics = m, ev_color = d, ev_first = l\<rparr>) xs)))
      = metric_weight metric m * int (length (filter P xs))" for xs d l
    by (induction xs) (simp_all add: algebra_simps)
  then show ?case using Cons p by (simp add: path_events_def)
qed (simp add: path_events_def)

lemma path_steps_ends: "map snd (path_steps path) = tl path" "map fst (path_steps path) = butlast path"
  by (induction path rule: path_steps.induct) simp_all

subsection \<open>Well-formed paths\<close>

definition named :: "path_node \<Rightarrow> bool" where
  "named n \<longleftrightarrow> (\<exists>s. pn_id n = kind_name (pn_kind n) @ 58 # s) \<and> 0 \<notin> set (pn_id n)"

definition paths_ok :: "flow_kind list \<Rightarrow> flow_metric \<Rightarrow> prepared_path list \<Rightarrow> bool" where
  "paths_ok stages metric prepared \<longleftrightarrow>
     distinct stages \<and> (\<forall>(path, m) \<in> set prepared. map pn_kind path = stages \<and> list_all named path \<and> measured metric m)
     \<and> (\<Sum>(path, m)\<leftarrow>prepared. metric_weight metric m) < 9007199254740992"

lemma kind_name_prefix: "kind_name k @ 58 # s = kind_name k' @ 58 # s' \<Longrightarrow> k = k'"
  by (cases k; cases k') (simp_all add: js_def)

lemma named_kind: "named a \<Longrightarrow> named b \<Longrightarrow> pn_id a = pn_id b \<Longrightarrow> pn_kind a = pn_kind b"
  unfolding named_def by (metis kind_name_prefix)

lemma separated_inj: "z \<notin> set a \<Longrightarrow> z \<notin> set a' \<Longrightarrow> a @ z # b = a' @ z # b' \<longleftrightarrow> a = a' \<and> b = b'"
proof (induction a arbitrary: a')
  case Nil
  then show ?case by (cases a') auto
next
  case (Cons c a)
  then show ?case by (cases a') auto
qed

lemma link_key_inj:
  "named a \<Longrightarrow> named a' \<Longrightarrow> pathLinkKey a b = pathLinkKey a' b' \<longleftrightarrow> pn_id a = pn_id a' \<and> pn_id b = pn_id b'"
  by (simp add: named_def pathLinkKey_def separated_inj)

lemma count_le_one: "distinct (map pn_kind path) \<Longrightarrow> list_all named path \<Longrightarrow> length (filter (\<lambda>n. pn_id n = i) path) \<le> 1"
proof (induction path)
  case (Cons a path)
  have "filter (\<lambda>n. pn_id n = pn_id a) path = []"
    unfolding filter_empty_conv
  proof
    fix n assume n: "n \<in> set path"
    then have "pn_kind n \<noteq> pn_kind a" using Cons.prems(1) by (auto dest: sym)
    then show "pn_id n \<noteq> pn_id a" using named_kind [of n a] Cons.prems(2) n by (auto simp: list_all_iff)
  qed
  then show ?case using Cons by (cases "pn_id a = i") auto
qed simp

lemma sum_count_mono:
  assumes "\<And>path m. (path, m) \<in> set prepared \<Longrightarrow> 0 \<le> metric_weight metric m \<and> f path \<le> g path"
  shows "(\<Sum>(path, m)\<leftarrow>prepared. metric_weight metric m * int (f path))
    \<le> (\<Sum>(path, m)\<leftarrow>prepared. metric_weight metric m * int (g path))"
  using assms by (intro sum_list_mono) (auto intro!: mult_left_mono)

lemma paths_okD:
  assumes "paths_ok stages metric prepared" and "(path, m) \<in> set prepared"
  shows "map pn_kind path = stages" "distinct (map pn_kind path)" "list_all named path" "measured metric m"
    "0 \<le> metric_weight metric m"
  using assms metric_weight_nonneg by (auto simp: paths_ok_def)

subsection \<open>Values of the tallies\<close>

lemma one_per_path:
  assumes ok: "paths_ok stages metric prepared"
    and "\<And>path m. (path, m) \<in> set prepared \<Longrightarrow> f path \<le> 1"
  shows "(\<Sum>(path, m)\<leftarrow>prepared. metric_weight metric m * int (f path)) < 9007199254740992"
proof -
  have "(\<Sum>(path, m)\<leftarrow>prepared. metric_weight metric m * int (f path))
      \<le> (\<Sum>(path, m)\<leftarrow>prepared. metric_weight metric m * int 1)"
    using assms(2) paths_okD(5) [OF ok] by (intro sum_count_mono) auto
  then show ?thesis using ok by (simp add: paths_ok_def)
qed

lemma events_measured:
  assumes "paths_ok stages metric prepared"
  shows "list_all (\<lambda>e. measured metric (ev_metrics e)) (path_events f color prepared)"
  using paths_okD(4) [OF assms] by (fastforce simp: path_events_def list_all_iff)

lemma node_total:
  "node_tally.total metric i (path_events (\<lambda>path. path) color prepared)
    = (\<Sum>(path, m)\<leftarrow>prepared. metric_weight metric m * int (length (filter (\<lambda>n. pn_id n = i) path)))"
  using events_weight [of metric "\<lambda>n. pn_id n = i" "\<lambda>path. path" color prepared]
  by (simp add: node_tally.total_def)

lemma node_total_bound:
  assumes "paths_ok stages metric prepared"
  shows "node_tally.total metric i (path_events (\<lambda>path. path) color prepared) < 9007199254740992"
  unfolding node_total using paths_okD [OF assms] count_le_one by (intro one_per_path [OF assms]) blast

lemma steps_target: "length (filter (\<lambda>s. P (snd s)) (path_steps path)) = length (filter P (tl path))"
  using path_steps_ends(1) [of path] length_filter_map [of P snd "path_steps path"] by (simp add: comp_def)

lemma steps_source: "length (filter (\<lambda>s. P (fst s)) (path_steps path)) = length (filter P (butlast path))"
  using path_steps_ends(2) [of path] length_filter_map [of P fst "path_steps path"] by (simp add: comp_def)

lemma step_named: "list_all named path \<Longrightarrow> s \<in> set (path_steps path) \<Longrightarrow> named (fst s) \<and> named (snd s)"
  by (induction path rule: path_steps.induct) auto

lemma length_filter_mono: "(\<And>x. x \<in> set xs \<Longrightarrow> P x \<Longrightarrow> Q x) \<Longrightarrow> length (filter P xs) \<le> length (filter Q xs)"
  by (induction xs) (auto simp: le_SucI)

lemma step_count_le_one:
  assumes "distinct (map pn_kind path)" and "list_all named path"
  shows "length (filter (\<lambda>s. pathLinkKey (fst s) (snd s) = k) (path_steps path)) \<le> 1"
proof (cases "\<exists>s \<in> set (path_steps path). pathLinkKey (fst s) (snd s) = k")
  case True
  then obtain s where s: "s \<in> set (path_steps path)" "pathLinkKey (fst s) (snd s) = k" by blast
  have "pn_id (snd t) = pn_id (snd s)" if "t \<in> set (path_steps path)" "pathLinkKey (fst t) (snd t) = k" for t
    using that s link_key_inj [of "fst t" "fst s" "snd t" "snd s"] step_named [OF assms(2)] by simp
  then have "length (filter (\<lambda>t. pathLinkKey (fst t) (snd t) = k) (path_steps path))
      \<le> length (filter (\<lambda>t. pn_id (snd t) = pn_id (snd s)) (path_steps path))"
    by (intro length_filter_mono) blast
  also have "\<dots> = length (filter (\<lambda>n. pn_id n = pn_id (snd s)) (tl path))" by (rule steps_target)
  also have "\<dots> \<le> 1"
    using assms by (intro count_le_one) (cases path; simp)+
  finally show ?thesis .
next
  case False
  then have "filter (\<lambda>s. pathLinkKey (fst s) (snd s) = k) (path_steps path) = []" by (simp add: filter_empty_conv)
  then show ?thesis by simp
qed

lemma link_total_bound:
  assumes "paths_ok stages metric prepared"
  shows "link_tally.total metric k (path_events path_steps color prepared) < 9007199254740992"
proof -
  have "link_tally.total metric k (path_events path_steps color prepared)
      = (\<Sum>(path, m)\<leftarrow>prepared. metric_weight metric m
           * int (length (filter (\<lambda>s. pathLinkKey (fst s) (snd s) = k) (path_steps path))))"
    using events_weight [of metric "\<lambda>s. pathLinkKey (fst s) (snd s) = k" path_steps color prepared]
    by (simp add: link_tally.total_def)
  also have "\<dots> < 9007199254740992"
    by (intro one_per_path [OF assms] step_count_le_one paths_okD [OF assms]) assumption+
  finally show ?thesis .
qed

text \<open>An entry of the node tally, and the sum over the links that a predicate on their ends accepts.\<close>

lemma node_entry:
  assumes ok: "paths_ok stages metric prepared"
    and n: "n \<in> set (map snd (fold (add_path_nodes color metric) prepared []))"
  shows "fn_value n = JFin (of_int (\<Sum>(path, m)\<leftarrow>prepared.
      metric_weight metric m * int (length (filter (\<lambda>x. pn_id x = fn_id n) path))))"
    and "\<exists>x. named x \<and> pn_id x = fn_id n \<and> pn_kind x = fn_kind n"
proof -
  let ?es = "path_events (\<lambda>path. path) color prepared"
  obtain i where "(i, n) \<in> set (node_tally.tally_of metric ?es)" using n unfolding nodes_are_tally by auto
  then have i: "map_of (node_tally.tally_of metric ?es) i = Some n" by (rule map_of_is_SomeI [OF node_tally.tally_distinct])
  then obtain e where e: "e \<in> set ?es" "pn_id (ev_item e) = i" "fn_id n = pn_id (ev_item e)" "fn_kind n = pn_kind (ev_item e)"
    using node_tally.tally_attr [of "\<lambda>n. (fn_id n, fn_kind n)" metric ?es i n]
    by (auto simp: grow_node_def fresh_node_def)
  obtain path m where p: "(path, m) \<in> set prepared" "ev_item e \<in> set path" using e(1) by (auto simp: path_events_def)
  have "named (ev_item e)" using paths_okD(3) [OF ok p(1)] p(2) by (simp add: list_all_iff)
  then show "\<exists>x. named x \<and> pn_id x = fn_id n \<and> pn_kind x = fn_kind n" using e by metis
  have "i \<in> (\<lambda>e. pn_id (ev_item e)) ` set ?es" using e(1,2) by blast
  from node_tally.tally_amount [OF events_measured [OF ok] node_total_bound [OF ok] this] i
  show "fn_value n = JFin (of_int (\<Sum>(path, m)\<leftarrow>prepared.
      metric_weight metric m * int (length (filter (\<lambda>x. pn_id x = fn_id n) path))))"
    using e(2,3) by (simp add: node_total)
qed

lemma link_sum:
  assumes ok: "paths_ok stages metric prepared"
  shows "(\<Sum>l\<leftarrow>filter (\<lambda>l. Q (fl_source l) (fl_target l)) (map snd (fold (add_path_links color metric) prepared [])).
      js_val (fl_value l))
    = of_int (\<Sum>(path, m)\<leftarrow>prepared. metric_weight metric m
        * int (length (filter (\<lambda>s. Q (pn_id (fst s)) (pn_id (snd s))) (path_steps path))))"
proof -
  let ?es = "path_events path_steps color prepared" and ?T = "link_tally.tally_of metric (path_events path_steps color prepared)"
  define P where "P k \<longleftrightarrow> (\<exists>e \<in> set ?es. pathLinkKey (fst (ev_item e)) (snd (ev_item e)) = k
    \<and> Q (pn_id (fst (ev_item e))) (pn_id (snd (ev_item e))))" for k
  have nm: "named (fst (ev_item e))" if "e \<in> set ?es" for e
    using that step_named paths_okD(3) [OF ok] by (fastforce simp: path_events_def)
  have ev: "P (pathLinkKey (fst (ev_item e)) (snd (ev_item e))) \<longleftrightarrow> Q (pn_id (fst (ev_item e))) (pn_id (snd (ev_item e)))"
    if "e \<in> set ?es" for e
  proof
    assume "P (pathLinkKey (fst (ev_item e)) (snd (ev_item e)))"
    then obtain e' where e': "e' \<in> set ?es" "Q (pn_id (fst (ev_item e'))) (pn_id (snd (ev_item e')))"
      "pathLinkKey (fst (ev_item e')) (snd (ev_item e')) = pathLinkKey (fst (ev_item e)) (snd (ev_item e))"
      unfolding P_def by blast
    then show "Q (pn_id (fst (ev_item e))) (pn_id (snd (ev_item e)))"
      using link_key_inj [OF nm [OF e'(1)] nm [OF that]] by simp
  qed (use that in \<open>auto simp: P_def\<close>)
  have entry: "Q (fl_source (snd p)) (fl_target (snd p)) \<longleftrightarrow> P (fst p)" if "p \<in> set ?T" for p
  proof -
    have "map_of ?T (fst p) = Some (snd p)" using that by (intro map_of_is_SomeI [OF link_tally.tally_distinct]) simp
    then obtain e where "e \<in> set ?es" "pathLinkKey (fst (ev_item e)) (snd (ev_item e)) = fst p"
      "fl_source (snd p) = pn_id (fst (ev_item e))" "fl_target (snd p) = pn_id (snd (ev_item e))"
      using link_tally.tally_attr [of "\<lambda>l. (fl_source l, fl_target l)" metric ?es "fst p" "snd p"]
      by (auto simp: grow_link_def fresh_link_def)
    then show ?thesis using ev [of e] by simp
  qed
  have "(\<Sum>l\<leftarrow>filter (\<lambda>l. Q (fl_source l) (fl_target l)) (map snd ?T). js_val (fl_value l))
      = (\<Sum>p\<leftarrow>filter (\<lambda>p. P (fst p)) ?T. js_val (fl_value (snd p)))"
    using entry by (simp add: filter_map comp_def cong: filter_cong)
  also have "\<dots> = of_int (sum_list (map (\<lambda>e. metric_weight metric (ev_metrics e))
      (filter (\<lambda>e. P (pathLinkKey (fst (ev_item e)) (snd (ev_item e)))) ?es)))"
    by (intro link_tally.tally_sum events_measured [OF ok] link_total_bound [OF ok])
  also have "filter (\<lambda>e. P (pathLinkKey (fst (ev_item e)) (snd (ev_item e)))) ?es
      = filter (\<lambda>e. Q (pn_id (fst (ev_item e))) (pn_id (snd (ev_item e)))) ?es"
    using ev by (intro filter_cong) auto
  finally show ?thesis
    using events_weight [of metric "\<lambda>s. Q (pn_id (fst s)) (pn_id (snd s))" path_steps color prepared]
    by (simp add: links_are_tally)
qed

lemma node_sum:
  assumes ok: "paths_ok stages metric prepared" and kind: "kind \<in> set stages"
  shows "(\<Sum>n\<leftarrow>filter (\<lambda>n. fn_kind n = kind) (map snd (fold (add_path_nodes color metric) prepared [])).
      js_val (fn_value n)) = of_int (\<Sum>(path, m)\<leftarrow>prepared. metric_weight metric m)"
proof -
  let ?es = "path_events (\<lambda>path. path) color prepared"
  let ?T = "node_tally.tally_of metric ?es"
  define P where "P i \<longleftrightarrow> (\<exists>x. named x \<and> pn_id x = i \<and> pn_kind x = kind)" for i
  have P: "P (pn_id x) \<longleftrightarrow> pn_kind x = kind" if "named x" for x
  proof
    assume "P (pn_id x)"
    then obtain y where "named y" "pn_id y = pn_id x" "pn_kind y = kind" unfolding P_def by (elim exE conjE)
    then show "pn_kind x = kind" using named_kind [of y x] that by simp
  next
    assume "pn_kind x = kind"
    then show "P (pn_id x)" unfolding P_def using that by (intro exI [of _ x]) simp
  qed
  have nm: "named (ev_item e)" if "e \<in> set ?es" for e
    using that paths_okD(3) [OF ok] by (fastforce simp: path_events_def list_all_iff)
  have entry: "fn_kind (snd p) = kind \<longleftrightarrow> P (fst p)" if "p \<in> set ?T" for p
  proof -
    have "map_of ?T (fst p) = Some (snd p)" using that by (intro map_of_is_SomeI [OF node_tally.tally_distinct]) simp
    then obtain e where "e \<in> set ?es" "pn_id (ev_item e) = fst p" "fn_kind (snd p) = pn_kind (ev_item e)"
      using node_tally.tally_attr [of fn_kind metric ?es "fst p" "snd p"] by (auto simp: grow_node_def fresh_node_def)
    then show ?thesis using P [OF nm, of e] by simp
  qed
  have one: "length (filter (\<lambda>x. pn_kind x = kind) path) = 1" if "(path, m) \<in> set prepared" for path m
  proof -
    have "length (filter (\<lambda>x. pn_kind x = kind) path) = length (filter (\<lambda>k. k = kind) stages)"
      using paths_okD(1) [OF ok that] length_filter_map [of "\<lambda>k. k = kind" pn_kind path] by (simp add: comp_def)
    then show ?thesis
      using kind ok distinct_length_filter [of stages "\<lambda>k. k = kind"] by (simp add: paths_ok_def Collect_conv_if)
  qed
  have "(\<Sum>n\<leftarrow>filter (\<lambda>n. fn_kind n = kind) (map snd ?T). js_val (fn_value n))
      = (\<Sum>p\<leftarrow>filter (\<lambda>p. P (fst p)) ?T. js_val (fn_value (snd p)))"
    using entry by (simp add: filter_map comp_def cong: filter_cong)
  also have "\<dots> = of_int (sum_list (map (\<lambda>e. metric_weight metric (ev_metrics e)) (filter (\<lambda>e. P (pn_id (ev_item e))) ?es)))"
    by (intro node_tally.tally_sum events_measured [OF ok] node_total_bound [OF ok])
  also have "filter (\<lambda>e. P (pn_id (ev_item e))) ?es = filter (\<lambda>e. pn_kind (ev_item e) = kind) ?es"
    using P [OF nm] by (intro filter_cong) auto
  also have "sum_list (map (\<lambda>e. metric_weight metric (ev_metrics e)) \<dots>)
      = (\<Sum>(path, m)\<leftarrow>prepared. metric_weight metric m * int (length (filter (\<lambda>x. pn_kind x = kind) path)))"
    by (rule events_weight)
  also have "\<dots> = (\<Sum>(path, m)\<leftarrow>prepared. metric_weight metric m)"
    using one by (intro arg_cong [where f = sum_list] map_cong) auto
  finally show ?thesis by (simp add: nodes_are_tally)
qed

subsection \<open>The finished graph\<close>

text \<open>Masking, highlighting, shares, colours and order leave ends, kinds and values alone.\<close>

definition node_view :: "flow_node \<Rightarrow> jsstring \<times> flow_kind \<times> jsnum" where
  "node_view n = (fn_id n, fn_kind n, fn_value n)"

definition link_view :: "flow_link \<Rightarrow> jsstring \<times> jsstring \<times> jsnum" where
  "link_view l = (fl_source l, fl_target l, fl_value l)"

lemma views [simp]:
  "node_view (mask_node n) = node_view n" "node_view (highlight_node ids n) = node_view n"
  "link_view (mask_link masked l) = link_view l" "link_view (highlight_link ids l) = link_view l"
  "link_view (set_share x l) = link_view l" "link_view (display_color env links l) = link_view l"
  by (simp_all add: node_view_def link_view_def mask_node_def highlight_node_def mask_link_def highlight_link_def
      set_share_def display_color_def Let_def)

lemma highlights_views:
  "map node_view (fst (applyFlowHighlights g sets)) = map node_view (fst g)"
  "map link_view (snd (applyFlowHighlights g sets)) = map link_view (snd g)"
  by (auto simp: applyFlowHighlights_def split: option.splits prod.splits)

lemma mask_views:
  "map node_view (fst (maskFlowGraphLabels g)) = map node_view (fst g)"
  "map link_view (snd (maskFlowGraphLabels g)) = map link_view (snd g)"
  by (simp_all add: maskFlowGraphLabels_def)

lemma graph_views:
  obtains color where
    "mset (map node_view (fg_nodes (graph_of_paths env prepared metric stages palette options)))
      = mset (map node_view (map snd (fold (add_path_nodes color metric) prepared [])))"
    "mset (map link_view (fg_links (graph_of_paths env prepared metric stages palette options)))
      = mset (map link_view (map snd (fold (add_path_links color metric) prepared [])))"
proof (rule that)
  let ?color = "path_color env (stableColorMap env (js_sort (fe_collate env) (first_ids prepared)) palette) palette"
  have lv: "map link_view (assignLinkDisplayColors env (map (set_share x) ls)) = map link_view ls" for x ls
    by (simp add: assignLinkDisplayColors_def comp_def)
  show "mset (map node_view (fg_nodes (graph_of_paths env prepared metric stages palette options)))
      = mset (map node_view (map snd (fold (add_path_nodes ?color metric) prepared [])))"
    unfolding graph_of_paths_def Let_def flow_graph.simps mset_map js_sort_simps
    unfolding mset_map [symmetric] highlights_views
    by (cases "fo_mask options") (simp_all only: mask_views if_True if_False fst_conv snd_conv)
  show "mset (map link_view (fg_links (graph_of_paths env prepared metric stages palette options)))
      = mset (map link_view (map snd (fold (add_path_links ?color metric) prepared [])))"
    unfolding graph_of_paths_def Let_def flow_graph.simps lv mset_map js_sort_simps
    unfolding mset_map [symmetric] highlights_views
    by (cases "fo_mask options") (simp_all only: mask_views if_True if_False fst_conv snd_conv)
qed

lemma sum_view:
  assumes "mset (map view xs) = mset (map view ys)"
  shows "sum_list (map (\<lambda>x. f (view x)) (filter (\<lambda>x. P (view x)) xs))
    = (sum_list (map (\<lambda>x. f (view x)) (filter (\<lambda>x. P (view x)) ys)) :: 'b :: comm_monoid_add)"
proof -
  have "sum_list (map (\<lambda>x. f (view x)) (filter (\<lambda>x. P (view x)) zs)) = \<Sum>\<^sub># (image_mset f (filter_mset P (mset (map view zs))))"
    for zs by (induction zs) auto
  then show ?thesis using assms by metis
qed

text \<open>The same facts of the finished graph.\<close>

lemma graph_node:
  assumes ok: "paths_ok stages metric prepared"
    and n: "n \<in> set (fg_nodes (graph_of_paths env prepared metric stages palette options))"
  shows "js_val (fn_value n) = of_int (\<Sum>(path, m)\<leftarrow>prepared.
      metric_weight metric m * int (length (filter (\<lambda>x. pn_id x = fn_id n) path)))"
    and "\<exists>x. named x \<and> pn_id x = fn_id n \<and> pn_kind x = fn_kind n"
proof -
  obtain color where N: "mset (map node_view (fg_nodes (graph_of_paths env prepared metric stages palette options)))
      = mset (map node_view (map snd (fold (add_path_nodes color metric) prepared [])))"
    using graph_views by metis
  have "node_view n \<in> set (map node_view (map snd (fold (add_path_nodes color metric) prepared [])))"
    using n mset_eq_setD [OF N] by (metis image_eqI list.set_map)
  then obtain n0 where n0: "n0 \<in> set (map snd (fold (add_path_nodes color metric) prepared []))" "node_view n = node_view n0"
    by auto
  then have "fn_id n = fn_id n0" "fn_kind n = fn_kind n0" "fn_value n = fn_value n0" by (simp_all add: node_view_def)
  then show "js_val (fn_value n) = of_int (\<Sum>(path, m)\<leftarrow>prepared.
      metric_weight metric m * int (length (filter (\<lambda>x. pn_id x = fn_id n) path)))"
    "\<exists>x. named x \<and> pn_id x = fn_id n \<and> pn_kind x = fn_kind n"
    using node_entry [OF ok n0(1)] by simp_all
qed

lemma graph_link_sum:
  assumes "paths_ok stages metric prepared"
  shows "(\<Sum>l\<leftarrow>filter (\<lambda>l. Q (fl_source l) (fl_target l)) (fg_links (graph_of_paths env prepared metric stages palette options)).
      js_val (fl_value l))
    = of_int (\<Sum>(path, m)\<leftarrow>prepared. metric_weight metric m
        * int (length (filter (\<lambda>s. Q (pn_id (fst s)) (pn_id (snd s))) (path_steps path))))"
proof -
  obtain color where "mset (map link_view (fg_links (graph_of_paths env prepared metric stages palette options)))
      = mset (map link_view (map snd (fold (add_path_links color metric) prepared [])))"
    using graph_views by metis
  from sum_view [OF this, of "\<lambda>v. js_val (snd (snd v))" "\<lambda>v. Q (fst v) (fst (snd v))"] link_sum [OF assms, of Q color]
  show ?thesis by (simp add: link_view_def)
qed

lemma graph_node_sum:
  assumes "paths_ok stages metric prepared" and "kind \<in> set stages"
  shows "(\<Sum>n\<leftarrow>filter (\<lambda>n. fn_kind n = kind) (fg_nodes (graph_of_paths env prepared metric stages palette options)).
      js_val (fn_value n)) = of_int (\<Sum>(path, m)\<leftarrow>prepared. metric_weight metric m)"
proof -
  obtain color where "mset (map node_view (fg_nodes (graph_of_paths env prepared metric stages palette options)))
      = mset (map node_view (map snd (fold (add_path_nodes color metric) prepared [])))"
    using graph_views by metis
  from sum_view [OF this, of "\<lambda>v. js_val (snd (snd v))" "\<lambda>v. fst (snd v) = kind"] node_sum [OF assms, of color]
  show ?thesis by (simp add: node_view_def)
qed

lemma weights_cong:
  "(\<And>path m. (path, m) \<in> set prepared \<Longrightarrow> f path = g path) \<Longrightarrow>
   (\<Sum>(path, m)\<leftarrow>prepared. metric_weight metric m * int (f path)) = (\<Sum>(path, m)\<leftarrow>prepared. metric_weight metric m * int (g path))"
  by (intro arg_cong [where f = sum_list] map_cong) auto

lemma conserved_paths:
  assumes ok: "paths_ok stages metric prepared" and "stages \<noteq> []"
    and G: "G = graph_of_paths env prepared metric stages palette options" and n: "n \<in> set (fg_nodes G)"
  shows "fn_kind n \<noteq> hd stages \<longrightarrow>
      js_val (fn_value n) = (\<Sum>l\<leftarrow>filter (\<lambda>l. fl_target l = fn_id n) (fg_links G). js_val (fl_value l))"
    and "fn_kind n \<noteq> last stages \<longrightarrow>
      js_val (fn_value n) = (\<Sum>l\<leftarrow>filter (\<lambda>l. fl_source l = fn_id n) (fg_links G). js_val (fl_value l))"
proof -
  have node: "js_val (fn_value n) = of_int (\<Sum>(path, m)\<leftarrow>prepared.
      metric_weight metric m * int (length (filter (\<lambda>x. pn_id x = fn_id n) path)))"
    using graph_node(1) [OF ok n [unfolded G]] .
  obtain x where x: "named x" "pn_id x = fn_id n" "pn_kind x = fn_kind n"
    using graph_node(2) [OF ok n [unfolded G]] by (elim exE conjE)
  have other: "pn_id y \<noteq> fn_id n" if "named y" "pn_kind y \<noteq> fn_kind n" for y
    using that x named_kind [of y x] by auto
  have path: "path \<noteq> []" "named (hd path)" "named (last path)" "pn_kind (hd path) = hd stages" "pn_kind (last path) = last stages"
    if "(path, m) \<in> set prepared" for path m
  proof -
    show "path \<noteq> []" using paths_okD(1) [OF ok that] assms(2) by auto
    then show "named (hd path)" "named (last path)" "pn_kind (hd path) = hd stages" "pn_kind (last path) = last stages"
      using paths_okD(1,3) [OF ok that] by (auto simp: list_all_iff hd_map last_map)
  qed
  have into: "length (filter (\<lambda>x. pn_id x = fn_id n) path) = length (filter (\<lambda>s. pn_id (snd s) = fn_id n) (path_steps path))"
    if "fn_kind n \<noteq> hd stages" "(path, m) \<in> set prepared" for path m
    using that(1) path [OF that(2)] steps_target [of "\<lambda>x. pn_id x = fn_id n" path] other [of "hd path"] by (cases path) auto
  have out: "length (filter (\<lambda>x. pn_id x = fn_id n) path) = length (filter (\<lambda>s. pn_id (fst s) = fn_id n) (path_steps path))"
    if "fn_kind n \<noteq> last stages" "(path, m) \<in> set prepared" for path m
    using that(1) path [OF that(2)] steps_source [of "\<lambda>x. pn_id x = fn_id n" path] other [of "last path"]
      filter_append [of "\<lambda>x. pn_id x = fn_id n" "butlast path" "[last path]"] by simp
  show "fn_kind n \<noteq> hd stages \<longrightarrow>
      js_val (fn_value n) = (\<Sum>l\<leftarrow>filter (\<lambda>l. fl_target l = fn_id n) (fg_links G). js_val (fl_value l))"
    unfolding node G graph_link_sum [OF ok, of "\<lambda>s t. t = fn_id n"] of_int_eq_iff
    by (intro impI weights_cong into)
  show "fn_kind n \<noteq> last stages \<longrightarrow>
      js_val (fn_value n) = (\<Sum>l\<leftarrow>filter (\<lambda>l. fl_source l = fn_id n) (fg_links G). js_val (fl_value l))"
    unfolding node G graph_link_sum [OF ok, of "\<lambda>s t. s = fn_id n"] of_int_eq_iff
    by (intro impI weights_cong out)
qed

subsection \<open>Rows\<close>

text \<open>The metric of every row is a whole number, their sum is a safe integer, and no id contains the
  separator of link keys.\<close>

definition flow_rows_ok :: "flow_env \<Rightarrow> token_labels \<Rightarrow> flow_metric \<Rightarrow> flow_row list \<Rightarrow> bool" where
  "flow_rows_ok env ctx metric rows \<longleftrightarrow>
     list_all (\<lambda>row. measured metric (rowMetrics row)
       \<and> list_all (\<lambda>kind. 0 \<notin> set (pn_id (NODE_BUILDERS kind env row ctx))) FLOW_NODE_KINDS) rows
     \<and> (\<Sum>row\<leftarrow>rows. metric_weight metric (rowMetrics row)) < 9007199254740992"

lemma builder_kind [simp]: "pn_kind (NODE_BUILDERS kind env row ctx) = kind"
  by (cases kind) (simp_all add: userNode_def nodeNameNode_def tokenNode_def groupNode_def modelNode_def channelNode_def Let_def)

lemma builder_id: "\<exists>s. pn_id (NODE_BUILDERS kind env row ctx) = kind_name kind @ 58 # s"
  by (cases kind) (simp_all add: userNode_def nodeNameNode_def tokenNode_def groupNode_def modelNode_def channelNode_def
      numbered_id_def js_def Let_def)

lemma other_named: "named (otherFlowNode kind labeler)" "pn_kind (otherFlowNode kind labeler) = kind"
  by (cases kind; simp add: named_def otherFlowNode_def OTHER_FLOW_NODE_IDS_def js_def)+

lemma distinct_stages: "distinct (resolveVisibleStages role visible)" "resolveVisibleStages role visible \<noteq> []"
  by (cases role; simp add: resolveVisibleStages_def MIN_FLOW_STAGES_def Let_def split: option.splits)+

lemma limited_path:
  assumes "applyTopNodeLimit path sets mode labeler = Some path'" and "list_all named path"
  shows "map pn_kind path' = map pn_kind path \<and> list_all named path'"
proof -
  consider "path' = path"
    | "path' = map (\<lambda>node. if isTopFlowNode node sets then node else otherFlowNode (pn_kind node) labeler) path"
    using assms(1) by (auto simp: applyTopNodeLimit_def split: if_splits)
  then show ?thesis using assms(2) by cases (auto simp: other_named list_all_iff)
qed

lemma builder_path:
  assumes "flow_rows_ok env ctx metric rows" and "row \<in> set rows"
  shows "map pn_kind (flowPathForStages env row stages ctx) = stages \<and> list_all named (flowPathForStages env row stages ctx)"
proof -
  have "0 \<notin> set (pn_id (NODE_BUILDERS kind env row ctx))" for kind
    using assms by (cases kind) (auto simp: flow_rows_ok_def list_all_iff FLOW_NODE_KINDS_def)
  then have "named (NODE_BUILDERS kind env row ctx)" for kind
    using builder_id [of kind env row ctx] by (simp add: named_def)
  then show ?thesis by (simp add: flowPathForStages_def comp_def list_all_iff)
qed

lemma sum_map_filter_le:
  fixes g :: "'a \<Rightarrow> int"
  assumes "\<And>x. x \<in> set xs \<Longrightarrow> 0 \<le> g x" and "\<And>x y. x \<in> set xs \<Longrightarrow> f x = Some y \<Longrightarrow> h y = g x"
  shows "sum_list (map h (List.map_filter f xs)) \<le> sum_list (map g xs)"
    and "(\<And>x. x \<in> set xs \<Longrightarrow> f x \<noteq> None) \<Longrightarrow> sum_list (map h (List.map_filter f xs)) = sum_list (map g xs)"
proof -
  show "sum_list (map h (List.map_filter f xs)) \<le> sum_list (map g xs)"
    using assms by (induction xs) (force simp: List.map_filter_simps split: option.splits)+
  show "sum_list (map h (List.map_filter f xs)) = sum_list (map g xs)" if "\<And>x. x \<in> set xs \<Longrightarrow> f x \<noteq> None"
    using assms(2) that
  proof (induction xs)
    case (Cons a xs)
    have "f a \<noteq> None" using Cons.prems(2) by simp
    then obtain y where "f a = Some y" by blast
    then show ?case using Cons by (simp add: List.map_filter_simps)
  qed (simp add: List.map_filter_simps)
qed

lemma prepared_weight:
  assumes rows: "flow_rows_ok env ctx metric rows"
  shows "(\<Sum>(path, m)\<leftarrow>prepare_paths env rows metric stages ctx options. metric_weight metric m)
      \<le> (\<Sum>row\<leftarrow>rows. metric_weight metric (rowMetrics row))"
    and "fo_overflow options \<noteq> Some Hide \<Longrightarrow>
      (\<Sum>(path, m)\<leftarrow>prepare_paths env rows metric stages ctx options. metric_weight metric m)
      = (\<Sum>row\<leftarrow>rows. metric_weight metric (rowMetrics row))"
proof -
  have nn: "0 \<le> metric_weight metric (rowMetrics row)" if "row \<in> set rows" for row
    using rows that by (intro metric_weight_nonneg) (auto simp: flow_rows_ok_def list_all_iff)
  show "(\<Sum>(path, m)\<leftarrow>prepare_paths env rows metric stages ctx options. metric_weight metric m)
      \<le> (\<Sum>row\<leftarrow>rows. metric_weight metric (rowMetrics row))"
    unfolding prepare_paths_def Let_def using nn by (intro sum_map_filter_le) auto
  show "(\<Sum>(path, m)\<leftarrow>prepare_paths env rows metric stages ctx options. metric_weight metric m)
      = (\<Sum>row\<leftarrow>rows. metric_weight metric (rowMetrics row))" if "fo_overflow options \<noteq> Some Hide"
    unfolding prepare_paths_def Let_def using nn that
    by (intro sum_map_filter_le) (auto simp: applyTopNodeLimit_def split: option.splits)
qed

lemma prepared_ok:
  assumes rows: "flow_rows_ok env ctx metric rows" and "distinct stages"
  shows "paths_ok stages metric (prepare_paths env rows metric stages ctx options)"
  unfolding paths_ok_def
proof (intro conjI ballI)
  show "(\<Sum>(path, m)\<leftarrow>prepare_paths env rows metric stages ctx options. metric_weight metric m) < 9007199254740992"
    using prepared_weight(1) [OF rows, of stages options] rows by (simp add: flow_rows_ok_def)
next
  fix p assume "p \<in> set (prepare_paths env rows metric stages ctx options)"
  then obtain row path sets mode where p: "row \<in> set rows" "p = (path, rowMetrics row)"
    "applyTopNodeLimit (flowPathForStages env row stages ctx) sets mode (fo_other_label options) = Some path"
    by (auto simp: prepare_paths_def Let_def List.map_filter_def)
  have "measured metric (rowMetrics row)" using rows p(1) by (simp add: flow_rows_ok_def list_all_iff)
  then show "case p of (path, m) \<Rightarrow> map pn_kind path = stages \<and> list_all named path \<and> measured metric m"
    using limited_path [OF p(3)] builder_path [OF rows p(1), of stages] p(2) by simp
qed (rule assms(2))

lemma summary_value:
  assumes "flow_rows_ok env ctx metric rows"
  shows "metricValue (buildSummary rows) metric = JFin (of_int (\<Sum>row\<leftarrow>rows. metric_weight metric (rowMetrics row)))"
proof -
  have step: "metricValue (buildSummary (rows @ [row])) metric
      = js_add (metricValue (buildSummary rows) metric) (metricValue (rowMetrics row) metric)" for rows row
    by (cases metric) (simp_all add: buildSummary_def metricValue_def Let_def)
  have "list_all (\<lambda>row. measured metric (rowMetrics row)) rows \<Longrightarrow>
      (\<Sum>row\<leftarrow>rows. metric_weight metric (rowMetrics row)) < 9007199254740992 \<Longrightarrow>
      metricValue (buildSummary rows) metric = JFin (of_int (\<Sum>row\<leftarrow>rows. metric_weight metric (rowMetrics row)))" for rows
  proof (induction rows rule: rev_induct)
    case Nil
    then show ?case by (cases metric) (simp_all add: buildSummary_def metricValue_def)
  next
    case (snoc row rows)
    have nn: "0 \<le> metric_weight metric (rowMetrics row)" using snoc.prems(1) metric_weight_nonneg by simp
    have "0 \<le> (\<Sum>row\<leftarrow>rows. metric_weight metric (rowMetrics row))"
      using snoc.prems(1) metric_weight_nonneg by (intro sum_list_nonneg) (auto simp: list_all_iff)
    then show ?case
      using snoc nn add_whole [of metric "rowMetrics row" _ "\<Sum>row\<leftarrow>rows. metric_weight metric (rowMetrics row)"]
      by (simp add: step)
  qed
  then show ?thesis using assms by (auto simp: flow_rows_ok_def list_all_iff)
qed

subsection \<open>Properties\<close>

text \<open>
  C33: the chart conserves what flows through it. When the metric of every row is a whole number and
  their sum is a safe integer, the value of every node that is not in the first stage is the sum of
  the values of the links into it, and the value of every node that is not in the last stage is the
  sum of the links out of it. This holds for every role, choice of stages, limit on the number of
  nodes and overflow mode, with masking and highlighting or without.
\<close>

theorem flow_conserved:
  assumes "flow_rows_ok env ctx metric rows"
    and "n \<in> set (fg_nodes (buildFlowGraph env rows metric role palette visible ctx options))"
  shows "(fn_kind n \<noteq> hd (resolveVisibleStages role visible) \<longrightarrow>
      js_val (fn_value n) =
        (\<Sum>l\<leftarrow>filter (\<lambda>l. fl_target l = fn_id n)
           (fg_links (buildFlowGraph env rows metric role palette visible ctx options)). js_val (fl_value l)))
    \<and> (fn_kind n \<noteq> last (resolveVisibleStages role visible) \<longrightarrow>
      js_val (fn_value n) =
        (\<Sum>l\<leftarrow>filter (\<lambda>l. fl_source l = fn_id n)
           (fg_links (buildFlowGraph env rows metric role palette visible ctx options)). js_val (fl_value l)))"
  using conserved_paths [OF prepared_ok [OF assms(1) distinct_stages(1)] distinct_stages(2) refl] assms(2)
  by (simp add: buildFlowGraph_def Let_def)

text \<open>
  C34: every column of the chart adds up to the summary. The values of the nodes of a visible stage
  sum to the summary of the rows the chart shows, unless small nodes are hidden; then they sum to at
  most the summary.
\<close>

theorem flow_totals:
  assumes "flow_rows_ok env (bo_token_label options) metric (filtered_rows env rows options)"
    and "kind \<in> set (resolveVisibleStages (case bo_role options of Some r \<Rightarrow> r | None \<Rightarrow> Role_user) (bo_visible options))"
  shows "(\<Sum>n\<leftarrow>filter (\<lambda>n. fn_kind n = kind) (fg_nodes (fd_flow (buildDashboardFlowData env rows metric options))).
      js_val (fn_value n)) \<le> js_val (metricValue (fd_summary (buildDashboardFlowData env rows metric options)) metric)
    \<and> (fo_overflow (bo_graph options) \<noteq> Some Hide \<longrightarrow>
      (\<Sum>n\<leftarrow>filter (\<lambda>n. fn_kind n = kind) (fg_nodes (fd_flow (buildDashboardFlowData env rows metric options))).
        js_val (fn_value n)) = js_val (metricValue (fd_summary (buildDashboardFlowData env rows metric options)) metric))"
  using prepared_weight [OF assms(1), where options = "bo_graph options"] summary_value [OF assms(1)]
    graph_node_sum [OF prepared_ok [OF assms(1) distinct_stages(1)] assms(2)]
  by (simp add: buildDashboardFlowData_def buildFlowGraph_def Let_def)

text \<open>A chart of two rows with a common group.\<close>

definition example_row :: "jsstring \<Rightarrow> int \<Rightarrow> flow_row" where
  "example_row name quota =
     \<lparr>fr_user_id = None, fr_username = None, fr_node_name = None, fr_use_group = Some [103],
      fr_token_id = None, fr_token_name = Some name, fr_channel_id = None, fr_channel_name = None,
      fr_model_name = Some [109], fr_token_used = None, fr_count = None, fr_quota = Some (JFin (of_int quota))\<rparr>"

definition example_env :: flow_env where
  "example_env = \<lparr>fe_t = \<lambda>s. s, fe_collate = \<lambda>a b. 0, fe_format = \<lambda>x. [], fe_schemes = []\<rparr>"

definition example_options :: flow_options where
  "example_options = \<lparr>fo_top_limit = None, fo_overflow = None, fo_other_label = None,
     fo_active_node = None, fo_active_link = None, fo_mask = False\<rparr>"

lemma example_rows_ok: "flow_rows_ok example_env None M_quota [example_row [97] 2, example_row [98] 3]"
  by code_simp

theorem flow_conserved_witness:
  "\<exists>n \<in> set (fg_nodes (buildFlowGraph example_env [example_row [97] 2, example_row [98] 3] M_quota Role_user None None None
        example_options)).
     fn_kind n = K_group \<and>
     js_val (fn_value n) = (\<Sum>l\<leftarrow>filter (\<lambda>l. fl_target l = fn_id n)
        (fg_links (buildFlowGraph example_env [example_row [97] 2, example_row [98] 3] M_quota Role_user None None None
          example_options)). js_val (fl_value l))"
proof -
  let ?rows = "[example_row [97] 2, example_row [98] 3]"
  let ?G = "buildFlowGraph example_env ?rows M_quota Role_user None None None example_options"
  have "(\<Sum>row\<leftarrow>?rows. metric_weight M_quota (rowMetrics row)) = 5" by code_simp
  then have "(\<Sum>n\<leftarrow>filter (\<lambda>n. fn_kind n = K_group) (fg_nodes ?G). js_val (fn_value n)) = 5"
    using graph_node_sum [OF prepared_ok [OF example_rows_ok distinct_stages(1)], of K_group Role_user None]
      prepared_weight(2) [OF example_rows_ok, of example_options]
    by (simp add: buildFlowGraph_def Let_def resolveVisibleStages_def example_options_def)
  then have "filter (\<lambda>n. fn_kind n = K_group) (fg_nodes ?G) \<noteq> []" by auto
  then obtain n where n: "n \<in> set (fg_nodes ?G)" "fn_kind n = K_group" by (auto simp: filter_empty_conv)
  from flow_conserved [OF example_rows_ok n(1)] n show ?thesis
    by (intro bexI [of _ n]) (auto simp: resolveVisibleStages_def)
qed

definition example_build :: build_options where
  "example_build = \<lparr>bo_role = None, bo_users = None, bo_nodes = None, bo_palette = None, bo_visible = None,
     bo_token_label = None, bo_graph = example_options\<rparr>"

theorem flow_totals_witness:
  "(\<Sum>n\<leftarrow>filter (\<lambda>n. fn_kind n = K_token)
      (fg_nodes (fd_flow (buildDashboardFlowData example_env [example_row [97] 2, example_row [98] 3] M_quota example_build))).
      js_val (fn_value n)) = 5"
proof -
  have f: "filtered_rows example_env [example_row [97] 2, example_row [98] 3] example_build = [example_row [97] 2, example_row [98] 3]"
    "js_val (metricValue (buildSummary [example_row [97] 2, example_row [98] 3]) M_quota) = 5"
    by code_simp+
  have "flow_rows_ok example_env (bo_token_label example_build) M_quota
      (filtered_rows example_env [example_row [97] 2, example_row [98] 3] example_build)"
    using example_rows_ok unfolding f by (simp add: example_build_def)
  from flow_totals [OF this, of K_token] f show ?thesis
    by (simp add: example_build_def example_options_def resolveVisibleStages_def buildDashboardFlowData_def Let_def)
qed

end
