(* ===== verification/Flow_Sankey.thy ===== *)
theory Flow_Sankey
  imports Flow_Conservation
begin

section \<open>The chart specification\<close>

text \<open>
  The part of \<open>buildFlowSankeySpec\<close> (\<open>features/dashboard/lib/flow.ts\<close>) that computes: the data of nodes and
  links with their drawing order, and the functions that read a datum which the chart library hands
  back. Such a datum is an unknown value; the library wraps the original entry in \<open>datum\<close>, as an array
  for nodes. The fixed layout settings of the specification are constants and are left out.
\<close>

subsection \<open>Reading a datum\<close>

text \<open>\<open>Number(v)\<close> and \<open>numberValue\<close> of an unknown value.\<close>

fun js_to_number :: "jsval \<Rightarrow> jsnum" where
  "js_to_number VUndefined = JNaN"
| "js_to_number VNull = JFin 0"
| "js_to_number (VBool b) = (if b then JFin 1 else JFin 0)"
| "js_to_number (VNum x) = x"
| "js_to_number (VStr s) = js_string_to_number s"
| "js_to_number v = js_string_to_number (js_to_string v)"

definition datum_number :: "jsval \<Rightarrow> jsnum" where
  "datum_number v = (if js_is_finite (js_to_number v) then js_to_number v else JFin 0)"

definition recordValue :: "jsval \<Rightarrow> jsval option" where
  "recordValue v = (if js_truthy v \<and> is_object_val v then Some v else None)"

text \<open>\<open>array[index]\<close>\<close>

definition array_at :: "jsval list \<Rightarrow> jsnum \<Rightarrow> jsval" where
  "array_at vs i =
     (if js_is_integer i \<and> 0 \<le> js_val i \<and> js_val i < of_nat (length vs) then vs ! nat \<lfloor>js_val i\<rfloor>
      else VUndefined)"

definition sankeyDatumSource :: "jsval \<Rightarrow> jsval" where
  "sankeyDatumSource datum =
     (case js_get datum (js ''datum'') of
        VArr vs \<Rightarrow>
          (case recordValue (array_at vs (datum_number (js_get datum (js ''depth'')))) of
             Some r \<Rightarrow> r
           | None \<Rightarrow> (case recordValue (array_at vs (JFin 0)) of Some r \<Rightarrow> r | None \<Rightarrow> datum))
      | nested \<Rightarrow> (case recordValue nested of Some r \<Rightarrow> r | None \<Rightarrow> datum))"

definition sankeyDatumValue :: "jsval \<Rightarrow> jsstring \<Rightarrow> jsval" where
  "sankeyDatumValue datum key =
     (if js_get datum key \<noteq> VUndefined then js_get datum key else js_get (sankeyDatumSource datum) key)"

definition sankeyDatumFlag :: "jsval \<Rightarrow> jsstring \<Rightarrow> bool" where
  "sankeyDatumFlag datum key \<longleftrightarrow> sankeyDatumValue datum key = VBool True"

definition flowSankeyDatumValue :: "jsval \<Rightarrow> jsstring \<Rightarrow> jsval" where
  "flowSankeyDatumValue datum key =
     (case recordValue datum of Some r \<Rightarrow> sankeyDatumValue r key | None \<Rightarrow> VUndefined)"

definition isSankeyLinkDatum :: "jsval \<Rightarrow> bool" where
  "isSankeyLinkDatum datum \<longleftrightarrow>
     sankeyDatumValue datum (js ''source'') \<noteq> VUndefined \<and> sankeyDatumValue datum (js ''target'') \<noteq> VUndefined"

definition flow_kind_of :: "jsval \<Rightarrow> flow_kind option" where
  "flow_kind_of v = find (\<lambda>k. v = VStr (kind_name k)) FLOW_NODE_KINDS"

definition isFlowNodeKind :: "jsval \<Rightarrow> bool" where
  "isFlowNodeKind v \<longleftrightarrow> flow_kind_of v \<noteq> None"

definition flowNodeFilterFromSankeyDatum :: "jsval \<Rightarrow> node_filter option" where
  "flowNodeFilterFromSankeyDatum datum =
     (case recordValue datum of
        None \<Rightarrow> None
      | Some r \<Rightarrow>
          if isSankeyLinkDatum r then None
          else (let i = flowSankeyDatumValue r (js ''key'') in
                if is_string_val i \<or> is_number_val i
                then map_option (\<lambda>kind. (kind, js_to_string i)) (flow_kind_of (flowSankeyDatumValue r (js ''kind'')))
                else None))"

subsection \<open>Tooltips and styles\<close>

text \<open>\<open>a ?? b\<close>\<close>

definition or_else :: "jsval \<Rightarrow> jsval \<Rightarrow> jsval" where
  "or_else a b = (if is_nullish a then b else a)"

definition metric_line :: "(jsnum \<Rightarrow> jsstring) \<Rightarrow> jsval \<Rightarrow> jsstring \<Rightarrow> jsstring" where
  "metric_line format datum key = format (datum_number (sankeyDatumValue datum key))"

definition share_visible :: "jsval \<Rightarrow> bool" where
  "share_visible datum \<longleftrightarrow> js_lt (JFin 0) (datum_number (sankeyDatumValue datum (js ''share'')))"

definition tooltip_title :: "jsval \<Rightarrow> jsstring" where
  "tooltip_title datum =
     (let source = sankeyDatumValue datum (js ''source''); target = sankeyDatumValue datum (js ''target'') in
      if js_truthy source \<and> js_truthy target
      then js_to_string (or_else (sankeyDatumValue datum (js ''sourceLabel'')) source) @ js '' -> ''
             @ js_to_string (or_else (sankeyDatumValue datum (js ''targetLabel'')) target)
      else js_to_string (or_else (or_else (sankeyDatumValue datum (js ''name''))
             (sankeyDatumValue datum (js ''rawLabel''))) (VStr [])))"

definition tooltip_visible :: "jsval \<Rightarrow> bool" where
  "tooltip_visible datum \<longleftrightarrow> isSankeyLinkDatum datum \<or> sankeyDatumValue datum (js ''key'') \<noteq> VUndefined"

definition node_fill :: "flow_env \<Rightarrow> jsval \<Rightarrow> jsstring" where
  "node_fill env datum = js_to_string (or_else (sankeyDatumValue datum (js ''color'')) (VStr (colorAt env 0 None)))"

definition node_opacity :: "jsval \<Rightarrow> jsnum" where
  "node_opacity datum =
     (if sankeyDatumFlag datum (js ''dimmed'') then round64 (18 / 100)
      else if sankeyDatumFlag datum (js ''highlighted'') then JFin 1 else round64 (92 / 100))"

definition link_fill :: "flow_env \<Rightarrow> jsval \<Rightarrow> jsstring" where
  "link_fill env datum =
     js_to_string (or_else (or_else (sankeyDatumValue datum (js ''linkColor'')) (sankeyDatumValue datum (js ''color'')))
       (VStr (colorAt env 0 None)))"

definition link_opacity :: "jsval \<Rightarrow> jsnum" where
  "link_opacity datum =
     (if sankeyDatumFlag datum (js ''dimmed'') then round64 (8 / 100)
      else if sankeyDatumFlag datum (js ''highlighted'') then round64 (86 / 100)
      else (let alpha = datum_number (sankeyDatumValue datum (js ''linkAlpha'')) in
            if js_truthy (VNum alpha) then alpha else JFin 1))"

definition link_z :: "jsval \<Rightarrow> jsnum" where
  "link_z datum =
     (let z = sankeyDatumValue datum (js ''zIndex'') in
      if z \<noteq> VUndefined then datum_number z
      else js_sub (JFin 1000000000) (datum_number (sankeyDatumValue datum (js ''value''))))"

subsection \<open>Data\<close>

definition z_index :: "nat \<Rightarrow> flow_link \<Rightarrow> nat" where
  "z_index i l =
     (if fl_highlighted l = Some True then 1000000 + i
      else if fl_dimmed l = Some True then i else 100000 + i)"

definition sankey_links :: "flow_env \<Rightarrow> flow_link list \<Rightarrow> (flow_link \<times> nat) list" where
  "sankey_links env links =
     map (\<lambda>(i, l). (l, z_index i l))
       (enumerate 0 (js_sort (byLinkDrawPriority env) (filter (\<lambda>l. js_lt (JFin 0) (fl_value l)) links)))"

definition option_flag :: "bool option \<Rightarrow> jsval" where
  "option_flag b = (case b of Some x \<Rightarrow> VBool x | None \<Rightarrow> VUndefined)"

definition node_datum :: "flow_node \<Rightarrow> jsval" where
  "node_datum n =
     VObj [(js ''key'', VStr (fn_id n)), (js ''name'', VStr (fn_label n)), (js ''rawLabel'', VStr (fn_label n)),
       (js ''kind'', VStr (kind_name (fn_kind n))), (js ''value'', VNum (fn_value n)),
       (js ''requests'', VNum (fn_requests n)), (js ''quota'', VNum (fn_quota n)), (js ''tokens'', VNum (fn_tokens n)),
       (js ''color'', VStr (fn_color n)), (js ''colorKey'', VStr (fn_color_key n)),
       (js ''highlighted'', option_flag (fn_highlighted n)), (js ''dimmed'', option_flag (fn_dimmed n))]"

definition link_datum :: "flow_link \<times> nat \<Rightarrow> jsval" where
  "link_datum p =
     (let l = fst p in
      VObj [(js ''source'', VStr (fl_source l)), (js ''target'', VStr (fl_target l)),
        (js ''linkKey'', VStr (linkStableKey l)), (js ''sourceLabel'', VStr (fl_source_label l)),
        (js ''targetLabel'', VStr (fl_target_label l)), (js ''value'', VNum (fl_value l)),
        (js ''requests'', VNum (fl_requests l)), (js ''quota'', VNum (fl_quota l)), (js ''tokens'', VNum (fl_tokens l)),
        (js ''color'', VStr (fl_color l)), (js ''linkColor'', VStr (fl_link_color l)),
        (js ''linkAlpha'', VNum (fl_link_alpha l)), (js ''hoverColor'', VStr (fl_hover_color l)),
        (js ''colorKey'', VStr (fl_color_key l)), (js ''share'', VNum (fl_share l)),
        (js ''highlighted'', option_flag (fl_highlighted l)), (js ''dimmed'', option_flag (fl_dimmed l)),
        (js ''zIndex'', VNum (js_of_nat (snd p)))])"

definition buildFlowSankeySpec :: "flow_env \<Rightarrow> flow_graph \<Rightarrow> jsval list \<times> jsval list" where
  "buildFlowSankeySpec env flow =
     (map node_datum (fg_nodes flow), map link_datum (sankey_links env (fg_links flow)))"

text \<open>The order of links inside the chart, over the entries of its layout: value, source, target and index,
  each of which may be missing.\<close>

type_synonym layout_link = "jsnum option \<times> jsstring option \<times> jsstring option \<times> jsnum option"

definition layout_key :: "layout_link \<Rightarrow> jsstring" where
  "layout_key l =
     (case l of (_, s, t, _) \<Rightarrow>
        (case s of Some x \<Rightarrow> x | None \<Rightarrow> []) @ [0] @ (case t of Some x \<Rightarrow> x | None \<Rightarrow> []))"

definition linkSortBy :: "flow_env \<Rightarrow> layout_link \<Rightarrow> layout_link \<Rightarrow> int" where
  "linkSortBy env a b =
     or_sign (value_order (numberValue (fst a)) (numberValue (fst b)))
       (or_sign (fe_collate env (layout_key a) (layout_key b))
          (js_signum (js_sub (numberValue (snd (snd (snd a)))) (numberValue (snd (snd (snd b)))))))"

subsection \<open>Selecting a node in the chart\<close>

text \<open>The datum of a node is read back as the filter of that node, however the library wraps it: bare,
  under \<open>datum\<close>, or in the array of a level of the layout.\<close>

definition wrapped_datum :: "jsval \<Rightarrow> jsval \<Rightarrow> bool" where
  "wrapped_datum d w \<longleftrightarrow>
     w = d \<or> w = VObj [(js ''datum'', d)]
     \<or> (\<exists>vs i. i < length vs \<and> i < 9007199254740992 \<and> vs ! i = d
          \<and> w = VObj [(js ''depth'', VNum (js_of_nat i)), (js ''datum'', VArr vs)])"

lemma recordValue_VObj: "recordValue (VObj ps) = Some (VObj ps)"
  by (simp add: recordValue_def)

lemma node_datum_get:
  "js_get (node_datum n) (js ''key'') = VStr (fn_id n)" "js_get (node_datum n) (js ''kind'') = VStr (kind_name (fn_kind n))"
  "js_get (node_datum n) (js ''source'') = VUndefined" "js_get (node_datum n) (js ''datum'') = VUndefined"
  "recordValue (node_datum n) = Some (node_datum n)"
  by (simp_all add: node_datum_def recordValue_def)

lemma kind_read_back: "flow_kind_of (VStr (kind_name kind)) = Some kind"
  by (cases kind) (simp_all add: flow_kind_of_def FLOW_NODE_KINDS_def)

lemma select_source:
  assumes "sankeyDatumSource w = node_datum n" and "recordValue w = Some w"
    and "\<And>key. key \<in> {js ''key'', js ''kind'', js ''source''} \<Longrightarrow> js_get w key = VUndefined \<or> w = node_datum n"
  shows "flowNodeFilterFromSankeyDatum w = Some (fn_kind n, fn_id n)"
proof -
  have v: "sankeyDatumValue w key = js_get (node_datum n) key" if "key \<in> {js ''key'', js ''kind'', js ''source''}" for key
    using assms(1) assms(3) [OF that] by (auto simp: sankeyDatumValue_def)
  then show ?thesis
    using assms(2) v [of "js ''key''"] v [of "js ''kind''"] v [of "js ''source''"]
    by (simp add: flowNodeFilterFromSankeyDatum_def isSankeyLinkDatum_def flowSankeyDatumValue_def node_datum_get
        kind_read_back Let_def del: js_Cons)
qed

lemma array_at_nat: "i < length vs \<Longrightarrow> i < 9007199254740992 \<Longrightarrow> array_at vs (js_of_nat i) = vs ! i"
  using round64_int [of "int i"] by (simp add: array_at_def js_of_nat_def js_is_integer_def)

lemma finite_of_nat: "i < 9007199254740992 \<Longrightarrow> js_is_finite (js_of_nat i)"
  using round64_int [of "int i"] by (simp add: js_of_nat_def)

text \<open>
  Clicking a node selects that node. The datum that the chart was given for a node is read back as
  the filter for its kind and id, whether the chart library returns it bare, wrapped, or inside the
  array of a level of its layout; and a link is never taken for a node.
\<close>

theorem sankey_selection:
  assumes "wrapped_datum (node_datum n) w"
  shows "flowNodeFilterFromSankeyDatum w = Some (fn_kind n, fn_id n)
    \<and> flowNodeFilterFromSankeyDatum (link_datum l) = None"
proof
  show "flowNodeFilterFromSankeyDatum (link_datum l) = None"
    by (simp add: flowNodeFilterFromSankeyDatum_def isSankeyLinkDatum_def sankeyDatumValue_def link_datum_def
        recordValue_def Let_def)
  consider "w = node_datum n" | "w = VObj [(js ''datum'', node_datum n)]"
    | vs i where "i < length vs" "i < 9007199254740992" "vs ! i = node_datum n"
      "w = VObj [(js ''depth'', VNum (js_of_nat i)), (js ''datum'', VArr vs)]"
    using assms unfolding wrapped_datum_def by blast
  then show "flowNodeFilterFromSankeyDatum w = Some (fn_kind n, fn_id n)"
  proof cases
    case 1
    then show ?thesis by (intro select_source) (simp_all add: sankeyDatumSource_def node_datum_get recordValue_def [of VUndefined] del: js_Cons)
  next
    case 2
    then show ?thesis
      by (intro select_source) (auto simp: sankeyDatumSource_def node_datum_get recordValue_def node_datum_def)
  next
    case 3
    then show ?thesis
      by (intro select_source)
        (auto simp: sankeyDatumSource_def datum_number_def finite_of_nat array_at_nat node_datum_get(5) recordValue_VObj)
  qed
qed

theorem sankey_selection_witness:
  "flowNodeFilterFromSankeyDatum
     (VObj [(js ''depth'', VNum (js_of_nat 1)),
        (js ''datum'', VArr [VNull, node_datum (fresh_node (groupNode (example_row [97] 2)) [] [])])])
    = Some (K_group, js ''group:g'')"
proof -
  let ?n = "fresh_node (groupNode (example_row [97] 2)) [] []"
  have "wrapped_datum (node_datum ?n)
      (VObj [(js ''depth'', VNum (js_of_nat 1)), (js ''datum'', VArr [VNull, node_datum ?n])])"
    unfolding wrapped_datum_def by (intro disjI2 exI [of _ "[VNull, node_datum ?n]"] exI [of _ 1]) simp
  from sankey_selection [OF this] show ?thesis
    by (simp add: fresh_node_def groupNode_def example_row_def or_text_def Let_def)
qed

end
