(* ===== verification/Visual_Document.thy ===== *)
theory Visual_Document
  imports Billing_Display Js_Json
begin

section \<open>The visual editor's document\<close>

text \<open>
  \<open>billing-expression/visual.ts\<close>: a billing expression as a tree of branches, conditions and tiers
  that a form can edit, and its way back to a text. Every part of the tree keeps the syntax node it
  was read from, its origin, and an untouched part is written as the source text of its origin.

  The source compares origins by reference. An origin is a node of the compiled tree of the
  document's source, in which equal nodes are the same node, so the model compares by value. The
  messages of the issues go through the translation function \<open>t\<close>, a parameter; whether a time zone
  is known is asked of \<open>Intl\<close>, the parameter \<open>intl\<close>. A call node has the arguments of its function,
  as the parser guarantees.
\<close>

subsection \<open>Documents\<close>

datatype visual_probe = Probe_tokens token_variable | Probe_time time_function

datatype visual_condition =
    Comparison (vc_id: jsstring) (vc_origin: "expression_node option") visual_probe
      (vc_timezone: jsstring) binary_operator jsstring
  | All_of (vc_id: jsstring) (vc_origin: "expression_node option") "visual_condition list"
  | Any_of (vc_id: jsstring) (vc_origin: "expression_node option") "visual_condition list"
  | Negated (vc_id: jsstring) (vc_origin: "expression_node option") visual_condition

record visual_price =
  vp_variable :: token_variable
  vp_value :: jsstring
  vp_origin :: "expression_node option"

datatype visual_pricing =
    Pricing_tier (vn_id: jsstring) (vn_origin: "expression_node option") jsstring "visual_price list"
      billing_unit jsstring
  | Pricing_branch (vn_id: jsstring) (vn_origin: "expression_node option") visual_condition
      visual_pricing visual_pricing

record visual_document =
  vd_source :: jsstring
  vd_root :: visual_pricing

type_synonym visual_issue = "jsstring \<times> jsstring"

datatype visual_serialization = Serialized jsstring | Refused "visual_issue list"

fun serialization_ok :: "visual_serialization \<Rightarrow> bool" where
  "serialization_ok (Serialized _) = True"
| "serialization_ok (Refused _) = False"

definition COMPARISONS :: "binary_operator set" where
  "COMPARISONS = {Op_lt, Op_le, Op_gt, Op_ge, Op_eq, Op_ne}"

fun TIME_DOMAINS :: "time_function \<Rightarrow> rat \<times> rat" where
  "TIME_DOMAINS Hour = (0, 23)"
| "TIME_DOMAINS Minute = (0, 59)"
| "TIME_DOMAINS Weekday = (0, 6)"
| "TIME_DOMAINS Month = (1, 12)"
| "TIME_DOMAINS Day = (1, 31)"

text \<open>The module's counter is passed along.\<close>

definition visualNodeId :: "nat \<Rightarrow> jsstring \<times> nat" where
  "visualNodeId next_id = (js ''draft-'' @ int_text (int (next_id + 1)), next_id + 1)"

definition createEmptyVisualCondition :: "nat \<Rightarrow> visual_condition \<times> nat" where
  "createEmptyVisualCondition next_id =
     (case visualNodeId next_id of
        (i, next_id') \<Rightarrow>
          (Comparison i None (Probe_time Hour) (js ''Asia/Shanghai'') Op_ge [], next_id'))"

subsection \<open>Reading\<close>

definition identity_text :: "jsstring \<Rightarrow> expression_node \<Rightarrow> jsstring" where
  "identity_text prefix node =
     prefix @ int_text (int (node_start node)) @ [45] @ int_text (int (node_end node))"

definition condition_identity :: "expression_node \<Rightarrow> jsstring" where
  "condition_identity node = identity_text (js ''condition-'') node"

definition pricing_identity :: "expression_node \<Rightarrow> jsstring" where
  "pricing_identity node = identity_text (js ''pricing-'') node"

text \<open>The left side of a comparison: what is probed, and in which zone.\<close>

definition read_probe :: "expression_node \<Rightarrow> (visual_probe \<times> jsstring) option" where
  "read_probe left =
     (case left of
        Variable x _ _ \<Rightarrow>
          if x = Var_p \<or> x = Var_c \<or> x = Var_len then Some (Probe_tokens x, []) else None
      | Call (Fn_time f) (Literal (L_string zone) _ _ _ # _) _ _ \<Rightarrow> Some (Probe_time f, zone)
      | _ \<Rightarrow> None)"

definition read_comparison :: "expression_node \<Rightarrow> visual_condition option" where
  "read_comparison node =
     (case node of
        Binary operator left (Literal (L_number x) _ _ _) _ _ \<Rightarrow>
          if operator \<notin> COMPARISONS then None
          else (case read_probe left of
                  None \<Rightarrow> None
                | Some (probe, timezone) \<Rightarrow>
                    Some (Comparison (condition_identity node) (Some node) probe timezone operator
                      (js_number_text x)))
      | _ \<Rightarrow> None)"

lemma flattenBinary_size: "m \<in> set (flattenBinary n operator) \<Longrightarrow> size m \<le> size n"
  by (induction n operator rule: flattenBinary.induct) (auto split: if_splits)

lemma flattenBinary_size_Binary:
  "m \<in> set (flattenBinary (Binary operator l r s e) operator) \<Longrightarrow> size m < size (Binary operator l r s e)"
  using flattenBinary_size [of m l operator] flattenBinary_size [of m r operator] by auto

function readVisualCondition :: "expression_node \<Rightarrow> visual_condition option" where
  "readVisualCondition node =
     (case node of
        Unary Op_not operand _ _ \<Rightarrow>
          map_option (Negated (condition_identity node) (Some node)) (readVisualCondition operand)
      | Binary operator left right s e \<Rightarrow>
          if operator = Op_and \<or> operator = Op_or
          then map_option
                 ((if operator = Op_and then All_of else Any_of) (condition_identity node) (Some node))
                 (those (map readVisualCondition
                    (flattenBinary (Binary operator left right s e) operator)))
          else read_comparison node
      | _ \<Rightarrow> None)"
  by pat_completeness auto
termination
  by (relation "measure size") (auto dest: flattenBinary_size_Binary simp del: flattenBinary.simps)

declare readVisualCondition.simps [simp del]

definition price_of_term :: "expression_node \<Rightarrow> visual_price option" where
  "price_of_term term =
     (case term of
        Binary Op_mul (Variable x _ _) (Literal (L_number n) _ _ _) _ _ \<Rightarrow>
          if x = Var_len \<or> js_lt n (JFin 0) then None
          else Some \<lparr>vp_variable = x, vp_value = js_number_text n, vp_origin = Some term\<rparr>
      | _ \<Rightarrow> None)"

fun read_prices :: "expression_node list \<Rightarrow> visual_price list \<Rightarrow> visual_price list option" where
  "read_prices [] prices = Some prices"
| "read_prices (term # terms) prices =
     (case price_of_term term of
        None \<Rightarrow> None
      | Some price \<Rightarrow>
          if list_ex (\<lambda>p. vp_variable p = vp_variable price) prices then None
          else read_prices terms (prices @ [price]))"

text \<open>\<open>String(value)\<close> of a literal.\<close>

fun literal_text :: "literal_value \<Rightarrow> jsstring" where
  "literal_text (L_string s) = s"
| "literal_text (L_number x) = js_number_text x"
| "literal_text (L_boolean b) = (if b then js ''true'' else js ''false'')"
| "literal_text L_nil = js ''null''"

definition read_tier :: "expression_node \<Rightarrow> visual_pricing option" where
  "read_tier node =
     (case node of
        Call Fn_tier (Literal (L_string label) _ _ _ # body # _) _ _ \<Rightarrow>
          (case body of
             Call Fn_fixed (Literal l _ _ _ # _) _ _ \<Rightarrow>
               Some (Pricing_tier (pricing_identity node) (Some node) label [] Unit_request (literal_text l))
           | _ \<Rightarrow>
               map_option (\<lambda>prices.
                 Pricing_tier (pricing_identity node) (Some node) label prices Unit_token [])
                 (read_prices (flattenBinary body Op_add) []))
      | _ \<Rightarrow> None)"

fun readVisualPricing :: "expression_node \<Rightarrow> visual_pricing option" where
  "readVisualPricing (Conditional condition yes no s e) =
     (case (readVisualCondition condition, readVisualPricing yes, readVisualPricing no) of
        (Some c, Some y, Some n) \<Rightarrow>
          Some (Pricing_branch (pricing_identity (Conditional condition yes no s e))
                  (Some (Conditional condition yes no s e)) c y n)
      | _ \<Rightarrow> None)"
| "readVisualPricing node = read_tier node"

subsection \<open>Writing\<close>

text \<open>\<open>slice\<close> with one bound; a negative bound counts from the end.\<close>

definition slice_index :: "jsstring \<Rightarrow> int \<Rightarrow> nat" where
  "slice_index s i = (if i < 0 then nat (int (length s) + i) else nat i)"

definition slice_to :: "jsstring \<Rightarrow> int \<Rightarrow> jsstring" where
  "slice_to s i = take (slice_index s i) s"

definition slice_from :: "jsstring \<Rightarrow> int \<Rightarrow> jsstring" where
  "slice_from s i = drop (slice_index s i) s"

type_synonym patch = "expression_node \<times> jsstring"

definition source_of :: "jsstring \<Rightarrow> expression_node \<Rightarrow> jsstring" where
  "source_of source node = js_slice source (node_start node) (node_end node)"

definition apply_patch :: "expression_node \<Rightarrow> patch \<Rightarrow> jsstring \<Rightarrow> jsstring" where
  "apply_patch origin p result =
     slice_to result (int (node_start (fst p)) - int (node_start origin)) @ snd p
       @ slice_from result (int (node_end (fst p)) - int (node_start origin))"

definition patchSource :: "jsstring \<Rightarrow> expression_node \<Rightarrow> patch list \<Rightarrow> jsstring" where
  "patchSource source origin patches =
     fold (apply_patch origin) (sort_key (\<lambda>p. - int (node_start (fst p))) patches) (source_of source origin)"

definition parseNonNegativeNumber :: "jsstring \<Rightarrow> jsnum option" where
  "parseNonNegativeNumber v =
     (if js_trim v = [] \<or> match_number (js_trim v) \<noteq> js_trim v then None
      else if js_is_finite (js_string_to_number v) \<and> js_le (JFin 0) (js_string_to_number v)
      then Some (js_string_to_number v) else None)"

text \<open>\<open>value === literal.value\<close>, where the value is a number or null.\<close>

definition same_literal :: "jsnum option \<Rightarrow> literal_value \<Rightarrow> bool" where
  "same_literal v l =
     (case (v, l) of
        (Some x, L_number y) \<Rightarrow> js_num_eq x y
      | (None, L_nil) \<Rightarrow> True
      | _ \<Rightarrow> False)"

text \<open>What is written, and the issues in the order in which they are pushed.\<close>

type_synonym written = "jsstring \<times> visual_issue list"

definition group_text_of :: "jsstring \<Rightarrow> jsstring list \<Rightarrow> jsstring" where
  "group_text_of operator children =
     [40] @ js_join ([32] @ operator @ [32]) (map (\<lambda>child. [40] @ child @ [41]) children) @ [41]"

definition write_group ::
  "(jsstring \<Rightarrow> jsstring) \<Rightarrow> jsstring \<Rightarrow> jsstring \<Rightarrow> expression_node option \<Rightarrow> binary_operator
     \<Rightarrow> expression_node option list \<Rightarrow> written list \<Rightarrow> written" where
  "write_group t source i origin operator origins children =
     ((case origin of
         Some (Binary p l r s e) \<Rightarrow>
           if p = operator \<and> map Some (flattenBinary (Binary p l r s e) operator) = origins
           then patchSource source (Binary p l r s e)
                  (zip (flattenBinary (Binary p l r s e) operator) (map fst children))
           else group_text_of (operator_name operator) (map fst children)
       | _ \<Rightarrow> group_text_of (operator_name operator) (map fst children)),
      (if children = [] then [(i, t (js ''Add at least one condition to this group.''))] else [])
        @ concat (map snd children))"

definition valid_value :: "visual_probe \<Rightarrow> binary_operator \<Rightarrow> jsnum option \<Rightarrow> bool" where
  "valid_value probe operator v =
     (case v of
        None \<Rightarrow> False
      | Some x \<Rightarrow>
          (case probe of
             Probe_tokens _ \<Rightarrow> True
           | Probe_time f \<Rightarrow>
               js_is_integer x \<and> js_le (JFin (fst (TIME_DOMAINS f))) x
               \<and> js_le x (JFin (snd (TIME_DOMAINS f) + (if operator = Op_lt then 1 else 0)))))"

definition original_zone :: "expression_node option \<Rightarrow> literal_value option" where
  "original_zone origin =
     (case origin of
        Some (Binary _ (Call _ (Literal l _ _ _ # _) _ _) _ _ _) \<Rightarrow> Some l
      | _ \<Rightarrow> None)"

definition zone_accepted :: "intl_zones \<Rightarrow> expression_node option \<Rightarrow> jsstring \<Rightarrow> bool" where
  "zone_accepted intl origin timezone \<longleftrightarrow>
     original_zone origin = Some (L_string timezone)
     \<or> js_trim timezone \<noteq> [] \<and> intl (js_trim timezone) \<noteq> None"

fun time_function_name :: "time_function \<Rightarrow> jsstring" where
  "time_function_name Hour = js ''hour''"
| "time_function_name Minute = js ''minute''"
| "time_function_name Weekday = js ''weekday''"
| "time_function_name Month = js ''month''"
| "time_function_name Day = js ''day''"

definition probe_text :: "visual_probe \<Rightarrow> jsstring \<Rightarrow> jsstring" where
  "probe_text probe timezone =
     (case probe of
        Probe_tokens x \<Rightarrow> variable_name x
      | Probe_time f \<Rightarrow> time_function_name f @ [40] @ json_quote timezone @ [41])"

text \<open>Whether the original left side still is the probe.\<close>

definition same_probe :: "expression_node \<Rightarrow> visual_probe \<Rightarrow> jsstring \<Rightarrow> bool" where
  "same_probe old probe timezone =
     (case old of
        Variable x _ _ \<Rightarrow> probe = Probe_tokens x
      | Call (Fn_time f) (Literal l _ _ _ # _) _ _ \<Rightarrow> probe = Probe_time f \<and> l = L_string timezone
      | _ \<Rightarrow> False)"

definition comparison_issues ::
  "(jsstring \<Rightarrow> jsstring) \<Rightarrow> intl_zones \<Rightarrow> jsstring \<Rightarrow> expression_node option \<Rightarrow> visual_probe
     \<Rightarrow> jsstring \<Rightarrow> binary_operator \<Rightarrow> jsstring \<Rightarrow> visual_issue list" where
  "comparison_issues t intl i origin probe timezone operator v =
     (if valid_value probe operator (parseNonNegativeNumber v) then []
      else [(i, t (js ''Enter a valid condition value.''))])
     @ (case probe of
          Probe_tokens _ \<Rightarrow> []
        | Probe_time _ \<Rightarrow>
            if zone_accepted intl origin timezone then []
            else [(i, t (js ''Choose a valid IANA timezone.''))])"

definition value_text :: "jsstring \<Rightarrow> expression_node \<Rightarrow> jsstring \<Rightarrow> jsstring" where
  "value_text source old v =
     (case old of
        Literal l _ _ _ \<Rightarrow>
          if same_literal (parseNonNegativeNumber v) l then source_of source old else v
      | _ \<Rightarrow> v)"

definition comparison_text ::
  "jsstring \<Rightarrow> expression_node option \<Rightarrow> visual_probe \<Rightarrow> jsstring \<Rightarrow> binary_operator \<Rightarrow> jsstring \<Rightarrow> jsstring" where
  "comparison_text source origin probe timezone operator v =
     (let plain = [40] @ probe_text probe timezone @ [32] @ operator_name operator @ [32] @ v @ [41] in
      case origin of
        Some (Binary p left right s e) \<Rightarrow>
          if p = operator
          then patchSource source (Binary p left right s e)
                 [(left, if same_probe left probe timezone then source_of source left
                         else probe_text probe timezone),
                  (right, value_text source right v)]
          else plain
      | _ \<Rightarrow> plain)"

fun writeVisualCondition ::
  "(jsstring \<Rightarrow> jsstring) \<Rightarrow> intl_zones \<Rightarrow> jsstring \<Rightarrow> visual_condition \<Rightarrow> written" where
  "writeVisualCondition t intl source (Negated i origin child) =
     (case writeVisualCondition t intl source child of
        (text, issues) \<Rightarrow>
          ((case origin of
              Some (Unary p operand s e) \<Rightarrow>
                if vc_origin child = Some operand
                then patchSource source (Unary p operand s e) [(operand, text)]
                else [33, 40] @ text @ [41]
            | _ \<Rightarrow> [33, 40] @ text @ [41]),
           issues))"
| "writeVisualCondition t intl source (All_of i origin children) =
     write_group t source i origin Op_and (map vc_origin children)
       (map (writeVisualCondition t intl source) children)"
| "writeVisualCondition t intl source (Any_of i origin children) =
     write_group t source i origin Op_or (map vc_origin children)
       (map (writeVisualCondition t intl source) children)"
| "writeVisualCondition t intl source (Comparison i origin probe timezone operator v) =
     (comparison_text source origin probe timezone operator v,
      comparison_issues t intl i origin probe timezone operator v)"

definition visualConditionExpression ::
  "(jsstring \<Rightarrow> jsstring) \<Rightarrow> intl_zones \<Rightarrow> visual_condition \<Rightarrow> jsstring \<Rightarrow> jsstring option" where
  "visualConditionExpression t intl node source =
     (case writeVisualCondition t intl source node of
        (text, issues) \<Rightarrow> if issues = [] then Some text else None)"

definition label_text :: "jsstring \<Rightarrow> expression_node \<Rightarrow> jsstring \<Rightarrow> jsstring" where
  "label_text source old label =
     (case old of
        Literal l _ _ _ \<Rightarrow> if l = L_string label then source_of source old else json_quote label
      | _ \<Rightarrow> json_quote label)"

definition price_issue :: "(jsstring \<Rightarrow> jsstring) \<Rightarrow> jsstring \<Rightarrow> visual_issue" where
  "price_issue t i = (i, t (js ''Enter a finite, non-negative price.''))"

definition fixed_text :: "jsstring \<Rightarrow> expression_node \<Rightarrow> jsstring \<Rightarrow> jsstring" where
  "fixed_text source price fixed =
     (case price of
        Call Fn_fixed (Literal l b s e # as) s' e' \<Rightarrow>
          patchSource source price
            [(Literal l b s e, if same_literal (parseNonNegativeNumber fixed) l
                               then source_of source (Literal l b s e) else fixed)]
      | _ \<Rightarrow> js ''fixed('' @ fixed @ [41])"

definition write_fixed_tier ::
  "(jsstring \<Rightarrow> jsstring) \<Rightarrow> jsstring \<Rightarrow> jsstring \<Rightarrow> expression_node option \<Rightarrow> jsstring \<Rightarrow> jsstring \<Rightarrow> written" where
  "write_fixed_tier t source i origin label fixed =
     ((case origin of
         Some (Call Fn_tier (old # price # as) s e) \<Rightarrow>
           patchSource source (Call Fn_tier (old # price # as) s e)
             [(old, label_text source old label), (price, fixed_text source price fixed)]
       | _ \<Rightarrow> js ''tier('' @ json_quote label @ js '', fixed('' @ fixed @ js ''))''),
      (case parseNonNegativeNumber fixed of
         Some x \<Rightarrow> if js_is_finite (js_mul x (JFin 1000000)) then [] else [price_issue t (i @ js '':fixed'')]
       | None \<Rightarrow> [price_issue t (i @ js '':fixed'')]))"

definition price_issues :: "(jsstring \<Rightarrow> jsstring) \<Rightarrow> jsstring \<Rightarrow> visual_price list \<Rightarrow> visual_issue list" where
  "price_issues t i prices =
     map (\<lambda>p. price_issue t (i @ [58] @ variable_name (vp_variable p)))
       (filter (\<lambda>p. parseNonNegativeNumber (vp_value p) = None) prices)"

text \<open>The patch of the value of a price that has an origin, and the text of its term.\<close>

definition value_patch :: "jsstring \<Rightarrow> visual_price \<Rightarrow> patch option" where
  "value_patch source price =
     (case vp_origin price of
        Some (Binary _ _ (Literal l b s e) _ _) \<Rightarrow>
          Some (Literal l b s e, value_text source (Literal l b s e) (vp_value price))
      | _ \<Rightarrow> None)"

definition term_text :: "jsstring \<Rightarrow> visual_price \<Rightarrow> jsstring" where
  "term_text source price =
     (case (vp_origin price, value_patch source price) of
        (Some origin, Some p) \<Rightarrow> patchSource source origin [p]
      | _ \<Rightarrow> variable_name (vp_variable price) @ js '' * '' @ vp_value price)"

definition price_terms :: "jsstring \<Rightarrow> visual_price list \<Rightarrow> jsstring" where
  "price_terms source prices = js_join (js '' + '') (map (term_text source) prices)"

definition write_token_tier ::
  "(jsstring \<Rightarrow> jsstring) \<Rightarrow> jsstring \<Rightarrow> jsstring \<Rightarrow> expression_node option \<Rightarrow> jsstring
     \<Rightarrow> visual_price list \<Rightarrow> written" where
  "write_token_tier t source i origin label prices =
     ((case origin of
         Some (Call Fn_tier (old # body # as) s e) \<Rightarrow>
           if map Some (flattenBinary body Op_add) = map vp_origin prices
           then patchSource source (Call Fn_tier (old # body # as) s e)
                  ((old, label_text source old label) # List.map_filter (value_patch source) prices)
           else patchSource source (Call Fn_tier (old # body # as) s e)
                  [(old, label_text source old label), (body, price_terms source prices)]
       | _ \<Rightarrow> js ''tier('' @ json_quote label @ js '', '' @ price_terms source prices @ [41]),
      (if prices = [] then [(i, t (js ''Include at least one price variable.''))] else [])
        @ price_issues t i prices)"

fun writeVisualPricing ::
  "(jsstring \<Rightarrow> jsstring) \<Rightarrow> intl_zones \<Rightarrow> jsstring \<Rightarrow> visual_pricing \<Rightarrow> written" where
  "writeVisualPricing t intl source (Pricing_branch i origin condition yes no) =
     (case (writeVisualCondition t intl source condition, writeVisualPricing t intl source yes,
            writeVisualPricing t intl source no) of
        ((c, c_issues), (y, y_issues), (n, n_issues)) \<Rightarrow>
          ((case origin of
              Some (Conditional oc oy on s e) \<Rightarrow>
                patchSource source (Conditional oc oy on s e) [(oc, c), (oy, y), (on, n)]
            | _ \<Rightarrow> [40] @ c @ js '') ? ('' @ y @ js '') : ('' @ n @ [41]),
           c_issues @ y_issues @ n_issues))"
| "writeVisualPricing t intl source (Pricing_tier i origin label prices unit fixed) =
     (if unit = Unit_request then write_fixed_tier t source i origin label fixed
      else write_token_tier t source i origin label prices)"

definition serializeVisualBillingDocument ::
  "(jsstring \<Rightarrow> jsstring) \<Rightarrow> intl_zones \<Rightarrow> visual_document \<Rightarrow> visual_serialization" where
  "serializeVisualBillingDocument t intl document =
     (case writeVisualPricing t intl (vd_source document) (vd_root document) of
        (body, issues) \<Rightarrow>
          if issues \<noteq> [] then Refused issues
          else (case compile_expression (vd_source document) of
                  Compile_failed _ \<Rightarrow>
                    Refused [(vn_id (vd_root document),
                      t (js ''This expression cannot be edited visually without losing information.''))]
                | Ready original \<Rightarrow>
                    (let source = take (node_start (comp_ast original)) (vd_source document) @ body
                           @ drop (node_end (comp_ast original)) (vd_source document) in
                     if compilation_ready (compile_expression source) then Serialized source
                     else Refused [(vn_id (vd_root document), t (js ''Enter a valid condition value.''))])))"

definition parseVisualBillingDocument ::
  "(jsstring \<Rightarrow> jsstring) \<Rightarrow> intl_zones \<Rightarrow> jsstring \<Rightarrow> visual_document option" where
  "parseVisualBillingDocument t intl source =
     (case compile_expression source of
        Compile_failed _ \<Rightarrow> None
      | Ready compiled \<Rightarrow>
          (case readVisualPricing (comp_ast compiled) of
             None \<Rightarrow> None
           | Some pricing \<Rightarrow>
               if serialization_ok (serializeVisualBillingDocument t intl \<lparr>vd_source = source, vd_root = pricing\<rparr>)
               then Some \<lparr>vd_source = source, vd_root = pricing\<rparr> else None))"

end
