(* ===== verification/Billing_Literals.thy ===== *)
theory Billing_Literals
  imports Billing_Spans
begin

section \<open>The number literals of a parsed tree\<close>

text \<open>
  The lexer of \<open>billing-expression/parser.ts\<close> refuses a literal that is not finite and has no signed
  literals, so every number literal of a parsed tree is a finite double that is not negative.
\<close>

fun literal_good :: "literal_value \<Rightarrow> bool" where
  "literal_good (L_number x) = (\<exists>q \<ge> 0. x = JFin q \<and> is_double x)"
| "literal_good _ = True"

fun node_good :: "expression_node \<Rightarrow> bool" where
  "node_good (Literal l _ _ _) = literal_good l"
| "node_good _ = True"

definition tree_good :: "expression_node \<Rightarrow> bool" where
  "tree_good n \<longleftrightarrow> (\<forall>m \<in> set (postorder n). node_good m)"

abbreviation state_good :: "parser_state \<Rightarrow> bool" where
  "state_good st \<equiv> literal_good (lex_value (current st))"

lemma tree_good_iff: "tree_good n \<longleftrightarrow> node_good n \<and> (\<forall>c \<in> set (node_children n). tree_good c)"
  using postorder_children [of n] by (auto simp: tree_good_def)

lemma tree_good_simps [simp]:
  "tree_good (Literal v i s e) = literal_good v" "tree_good (Variable x s e)"
  "tree_good (Call f as s e) = (\<forall>a \<in> set as. tree_good a)" "tree_good (Unary p n s e) = tree_good n"
  "tree_good (Binary b l r s e) = (tree_good l \<and> tree_good r)"
  "tree_good (Conditional c y z s e) = (tree_good c \<and> tree_good y \<and> tree_good z)"
  by (subst tree_good_iff; simp)+

lemma tree_good_with_span [simp]: "tree_good (with_span n s e) = tree_good n"
  by (cases n) simp_all

lemma digits_value_nonneg: "0 \<le> acc \<Longrightarrow> 0 \<le> digits_value acc ds"
  by (induction ds arbitrary: acc) simp_all

lemma ten_pow_nonneg: "0 \<le> ten_pow k"
  by (simp add: ten_pow_def)

lemma number_literal_good:
  assumes "js_is_finite (js_number_of w)" shows "literal_good (L_number (js_number_of w))"
proof -
  have "0 \<le> decimal_value w"
    by (simp add: decimal_value_def mantissa_value_def digits_value_nonneg ten_pow_nonneg)
  then have "\<not> js_sign (js_number_of w) \<and> js_number_of w \<noteq> JNaN" by (simp add: js_number_of_def round64_nonneg)
  moreover have "is_double (js_number_of w)" by (simp add: js_number_of_def)
  ultimately show ?thesis using assms by (cases "js_number_of w") auto
qed

lemma lexeme_at_good: "lexeme_at source start = Inr l \<Longrightarrow> literal_good (lex_value l)"
  using number_literal_good [of "match_number (drop start source)"]
  by (auto simp: lexeme_at_def number_lexeme_def string_lexeme_def plain_lexeme_def rbind_eq_Inr
      split: list.splits if_splits)

lemma advance_good: "advance source st = Inr st' \<Longrightarrow> state_good st'"
  by (auto simp: advance_def next_lexeme_def rbind_eq_Inr lexeme_at_good)

lemma take_lexeme_good: "take_lexeme source st = Inr (l, st') \<Longrightarrow> l = current st \<and> state_good st'"
  by (auto simp: take_lexeme_def rbind_eq_Inr advance_good)

lemma expect_lexeme_good: "expect_lexeme source w st = Inr (l, st') \<Longrightarrow> l = current st \<and> state_good st'"
  by (auto simp: expect_lexeme_def take_lexeme_good)

text \<open>Each method of the parser with fuel left, given the contract of the methods it calls.\<close>

lemma good_expression_step:
  assumes prim: "\<And>st n st'. state_good st \<Longrightarrow> primary source fuel st = Inr (n, st') \<Longrightarrow> tree_good n \<and> state_good st'"
    and loop: "\<And>m left st n st'. state_good st \<Longrightarrow> tree_good left \<Longrightarrow>
      binary_loop source fuel m left st = Inr (n, st') \<Longrightarrow> tree_good n \<and> state_good st'"
    and expr: "\<And>m st n st'. state_good st \<Longrightarrow> expression source fuel m st = Inr (n, st') \<Longrightarrow> tree_good n \<and> state_good st'"
    and ok: "state_good st" and ret: "expression source (Suc fuel) m st = Inr (n, st')"
  shows "tree_good n \<and> state_good st'"
proof -
  obtain l s1 l' s2 where p: "primary source fuel (st\<lparr>parse_depth := parse_depth st + 1\<rparr>) = Inr (l, s1)"
      "binary_loop source fuel m l s1 = Inr (l', s2)"
    using ret by (auto simp: rbind_eq_Inr)
  have g: "tree_good l' \<and> state_good s2" using prim [OF _ p(1)] loop [OF _ _ p(2)] ok by simp
  show ?thesis
  proof (cases "m = 0 \<and> lex_text (current s2) = js ''?''")
    case False
    then show ?thesis using ret p g by (auto simp: rbind_eq_Inr simp del: js_Cons)
  next
    case True
    then obtain t s3 y s4 u s5 z s6 where s: "take_lexeme source s2 = Inr (t, s3)" "expression source fuel 0 s3 = Inr (y, s4)"
        "expect_lexeme source (js '':'') s4 = Inr (u, s5)" "expression source fuel 0 s5 = Inr (z, s6)"
      and n: "n = Conditional l' y z (node_start l') (node_end z)" "st' = s6\<lparr>parse_depth := parse_depth s6 - 1\<rparr>"
      using ret p by (auto simp: rbind_eq_Inr simp del: js_Cons)
    have "tree_good y" using expr [OF _ s(2)] take_lexeme_good [OF s(1)] by simp
    moreover have "tree_good z \<and> state_good s6" using expr [OF _ s(4)] expect_lexeme_good [OF s(3)] by simp
    ultimately show ?thesis using g n by simp
  qed
qed

lemma good_binary_step:
  assumes loop: "\<And>m left st n st'. state_good st \<Longrightarrow> tree_good left \<Longrightarrow>
      binary_loop source fuel m left st = Inr (n, st') \<Longrightarrow> tree_good n \<and> state_good st'"
    and expr: "\<And>m st n st'. state_good st \<Longrightarrow> expression source fuel m st = Inr (n, st') \<Longrightarrow> tree_good n \<and> state_good st'"
    and ok: "state_good st" "tree_good left" and ret: "binary_loop source (Suc fuel) m left st = Inr (n, st')"
  shows "tree_good n \<and> state_good st'"
proof (cases "n = left \<and> st' = st")
  case True
  with ok show ?thesis by simp
next
  case False
  then obtain p s1 t r s2 pr where s: "take_lexeme source st = Inr (t, s1)" "expression source fuel pr s1 = Inr (r, s2)"
      "binary_loop source fuel m (Binary p left r (node_start left) (node_end r)) s2 = Inr (n, st')"
    using ret by (auto simp: rbind_eq_Inr split: option.splits if_splits)
  have "tree_good r \<and> state_good s2" using expr [OF _ s(2)] take_lexeme_good [OF s(1)] by simp
  then show ?thesis using loop [OF _ _ s(3)] ok by simp
qed

lemma good_primary_step:
  assumes expr: "\<And>m st n st'. state_good st \<Longrightarrow> expression source fuel m st = Inr (n, st') \<Longrightarrow> tree_good n \<and> state_good st'"
    and args: "\<And>as st as' st'. state_good st \<Longrightarrow> (\<forall>a \<in> set as. tree_good a) \<Longrightarrow>
      argument_loop source fuel as st = Inr (as', st') \<Longrightarrow> (\<forall>a \<in> set as'. tree_good a) \<and> state_good st'"
    and ok: "state_good st" and ret: "primary source (Suc fuel) st = Inr (n, st')"
  shows "tree_good n \<and> state_good st'"
proof -
  obtain t s1 where t: "take_lexeme source st = Inr (t, s1)" using ret by (auto simp: rbind_eq_Inr)
  note k = take_lexeme_good [OF t]
  consider
      (token) "n = Literal (lex_value t) (lex_integer t) (lex_start t) (lex_end t)" "st' = s1"
    | (empty) "n = Literal L_nil False (lex_start t) (lex_end t)" "st' = s1"
    | (truth) b where "n = Literal (L_boolean b) False (lex_start t) (lex_end t)" "st' = s1"
    | (paren) e s2 c where "expression source fuel 0 s1 = Inr (e, s2)"
        "expect_lexeme source (js '')'') s2 = Inr (c, st')" "n = with_span e (lex_start t) (lex_end c)"
    | (unary) p e where "expression source fuel 7 s1 = Inr (e, st')" "n = Unary p e (lex_start t) (node_end e)"
    | (var) x where "n = Variable x (lex_start t) (lex_end t)" "st' = s1"
    | (call) f o1 s2 as s3 c where "take_lexeme source s1 = Inr (o1, s2)" "argument_loop source fuel [] s2 = Inr (as, s3)"
        "expect_lexeme source (js '')'') s3 = Inr (c, st')" "n = Call f as (lex_start t) (lex_end c)"
  proof -
    from ret t show ?thesis
      using that by (auto simp: variable_node_def call_node_def rbind_eq_Inr unary_operators_def 
          split: option.splits if_splits simp del: js_Cons)
  qed
  then show ?thesis
  proof cases
    case token
    then show ?thesis using k ok by simp
  next
    case empty
    then show ?thesis using k by simp
  next
    case truth
    then show ?thesis using k by simp
  next
    case paren
    then show ?thesis using expr [OF _ paren(1)] k expect_lexeme_good [OF paren(2)] by simp
  next
    case unary
    then show ?thesis using expr [OF _ unary(1)] k by simp
  next
    case var
    then show ?thesis using k by simp
  next
    case call
    then show ?thesis using args [OF _ _ call(2)] take_lexeme_good [OF call(1)] expect_lexeme_good [OF call(3)] by simp
  qed
qed

lemma good_argument_step:
  assumes expr: "\<And>m st n st'. state_good st \<Longrightarrow> expression source fuel m st = Inr (n, st') \<Longrightarrow> tree_good n \<and> state_good st'"
    and args: "\<And>as st as' st'. state_good st \<Longrightarrow> (\<forall>a \<in> set as. tree_good a) \<Longrightarrow>
      argument_loop source fuel as st = Inr (as', st') \<Longrightarrow> (\<forall>a \<in> set as'. tree_good a) \<and> state_good st'"
    and ok: "state_good st" "\<forall>a \<in> set as. tree_good a" and ret: "argument_loop source (Suc fuel) as st = Inr (as', st')"
  shows "(\<forall>a \<in> set as'. tree_good a) \<and> state_good st'"
proof (cases "lex_text (current st) = js '')''")
  case True
  with ok ret show ?thesis by (simp del: js_Cons)
next
  case False
  then obtain a s1 where a: "expression source fuel 0 st = Inr (a, s1)" using ret by (auto simp: rbind_eq_Inr)
  have g: "tree_good a \<and> state_good s1" using expr [OF _ a] ok by simp
  show ?thesis
  proof (cases "lex_text (current s1) = js '',''")
    case True
    then obtain t s2 where s: "take_lexeme source s1 = Inr (t, s2)" "argument_loop source fuel (as @ [a]) s2 = Inr (as', st')"
      using ret False a by (auto simp: rbind_eq_Inr simp del: js_Cons)
    show ?thesis using args [OF _ _ s(2)] take_lexeme_good [OF s(1)] g ok by auto
  next
    case neq: False
    then show ?thesis using ret False a g ok by (auto simp del: js_Cons)
  qed
qed

lemma parser_good:
  shows "state_good st \<Longrightarrow> expression source fuel m st = Inr (n, st') \<Longrightarrow> tree_good n \<and> state_good st'"
    and "state_good st \<Longrightarrow> tree_good left \<Longrightarrow> binary_loop source fuel m left st = Inr (n, st') \<Longrightarrow>
      tree_good n \<and> state_good st'"
    and "state_good st \<Longrightarrow> primary source fuel st = Inr (n, st') \<Longrightarrow> tree_good n \<and> state_good st'"
    and "state_good st \<Longrightarrow> (\<forall>a \<in> set as. tree_good a) \<Longrightarrow> argument_loop source fuel as st = Inr (as', st') \<Longrightarrow>
      (\<forall>a \<in> set as'. tree_good a) \<and> state_good st'"
proof (induction fuel arbitrary: st n st' m left as as')
  case (Suc fuel)
  { case 1 show ?case by (rule good_expression_step [where fuel = fuel]) (fact Suc.IH "1")+ }
  { case 2 show ?case by (rule good_binary_step [where fuel = fuel]) (fact Suc.IH "2")+ }
  { case 3 show ?case by (rule good_primary_step [where fuel = fuel]) (fact Suc.IH "3")+ }
  { case 4 show ?case by (rule good_argument_step [where fuel = fuel]) (fact Suc.IH "4")+ }
qed simp_all

lemma parse_source_good:
  assumes "parse_source source = Inr n" shows "tree_good n"
proof -
  obtain st st' where st: "new_parser source = Inr st" and e: "expression source (parser_fuel source) 0 st = Inr (n, st')"
    using assms by (auto simp: parse_source_def rbind_eq_Inr)
  have "state_good st" using st advance_good by (auto simp: new_parser_def split: option.splits)
  then show ?thesis using parser_good(1) [OF _ e] by simp
qed

end
