(* ===== verification/Visual_Lossless.thy ===== *)
theory Visual_Lossless
  imports Visual_Document Billing_Literals Js_Number_Text "HOL-Library.Multiset"
begin

section \<open>The visual editor writes back what it has read\<close>

text \<open>
  The proofs about \<open>Visual_Document\<close>. A patch whose text is the source of its node changes nothing, so
  by induction on the tree an untouched document is written as its source: the text of a comparison
  because a printed number is read back as itself, the text of a group or a tier because its parts
  are. For edited parts the patches are applied from the right, which is shown to be the weaving of
  the new texts into the gaps between them.
\<close>

subsection \<open>Patches\<close>

definition inside :: "jsstring \<Rightarrow> expression_node \<Rightarrow> expression_node \<Rightarrow> bool" where
  "inside source origin n \<longleftrightarrow>
     node_start origin \<le> node_start n \<and> node_start n \<le> node_end n \<and> node_end n \<le> node_end origin
     \<and> node_end origin \<le> length source"

lemma slice_nat [simp]: "slice_to s (int k) = take k s" "slice_from s (int k) = drop k s"
  by (simp_all add: slice_to_def slice_from_def slice_index_def)

lemma apply_patch_inside:
  assumes "inside source origin n"
  shows "apply_patch origin (n, w) r =
     take (node_start n - node_start origin) r @ w @ drop (node_end n - node_start origin) r"
proof -
  have i: "int (node_start n) - int (node_start origin) = int (node_start n - node_start origin)"
    "int (node_end n) - int (node_start origin) = int (node_end n - node_start origin)"
    using assms by (auto simp: inside_def)
  show ?thesis unfolding apply_patch_def fst_conv snd_conv i slice_nat ..
qed

lemma apply_patch_identity:
  assumes "inside source origin n"
  shows "apply_patch origin (n, source_of source n) (source_of source origin) = source_of source origin"
proof -
  let ?o = "node_start origin" and ?e = "node_end origin" and ?a = "node_start n" and ?b = "node_end n"
  have le: "?o \<le> ?a" "?a \<le> ?b" "?b \<le> ?e" using assms by (auto simp: inside_def)
  have "take (?a - ?o) (source_of source origin) = js_slice source ?o ?a"
    using le by (simp add: source_of_def js_slice_def min_def)
  moreover have "drop (?b - ?o) (source_of source origin) = js_slice source ?b ?e"
    using le by (simp add: source_of_def js_slice_def drop_take)
  ultimately have "apply_patch origin (n, source_of source n) (source_of source origin)
      = js_slice source ?o ?a @ js_slice source ?a ?b @ js_slice source ?b ?e"
    using apply_patch_inside [OF assms] by (simp add: source_of_def)
  also have "\<dots> = source_of source origin" using le by (simp add: js_slice_append source_of_def)
  finally show ?thesis .
qed

lemma fold_fixpoint: "(\<And>x. x \<in> set xs \<Longrightarrow> f x s = s) \<Longrightarrow> fold f xs s = s"
  by (induction xs) auto

lemma patchSource_identity:
  assumes "\<And>n w. (n, w) \<in> set patches \<Longrightarrow> inside source origin n \<and> w = source_of source n"
  shows "patchSource source origin patches = source_of source origin"
  unfolding patchSource_def
proof (rule fold_fixpoint)
  fix p assume "p \<in> set (sort_key (\<lambda>p. - int (node_start (fst p))) patches)"
  then have "inside source origin (fst p)" "snd p = source_of source (fst p)" using assms [of "fst p" "snd p"] by simp_all
  then show "apply_patch origin p (source_of source origin) = source_of source origin"
    using apply_patch_identity [of source origin "fst p"] by (metis prod.collapse)
qed

text \<open>A tree of the parser, with its source.\<close>

definition tree_ok :: "jsstring \<Rightarrow> expression_node \<Rightarrow> bool" where
  "tree_ok source n \<longleftrightarrow> spans_ok n \<and> tree_good n \<and> node_end n \<le> length source"

lemma tree_ok_part:
  assumes "tree_ok source n" and "m \<in> set (postorder n)"
  shows "tree_ok source m" and "inside source n m"
proof -
  have "set (postorder m) \<subseteq> set (postorder n)" using assms(2) by (rule postorder_trans)
  then show "tree_ok source m" "inside source n m"
    using assms spans_ok_nested [of n m] by (auto simp: tree_ok_def spans_ok_def tree_good_def inside_def)
qed

lemma tree_ok_child:
  assumes "tree_ok source n" and "m \<in> set (node_children n)"
  shows "tree_ok source m" and "inside source n m"
  using tree_ok_part [OF assms(1), of m] postorder_child [OF assms(2)] postorder_self [of m] by blast+

lemma flattenBinary_postorder: "m \<in> set (flattenBinary n operator) \<Longrightarrow> m \<in> set (postorder n)"
  by (induction n operator rule: flattenBinary.induct) (auto split: if_splits)

subsection \<open>Printed values are the values of the literals\<close>

lemma printed_number_same:
  assumes "literal_good (L_number x)"
  shows "same_literal (parseNonNegativeNumber (js_number_text x)) (L_number x)"
proof -
  obtain q where q: "x = JFin q" "0 \<le> q" "is_double (JFin q)" using assms by auto
  have "parseNonNegativeNumber (js_number_text x) = Some x"
    using number_text_roundtrip [OF q(2,3)] q(2) by (simp add: q(1) parseNonNegativeNumber_def del: js_number_text.simps)
  then show ?thesis by (simp add: same_literal_def js_num_eq_def q(1))
qed

lemma value_text_printed:
  "literal_good (L_number x) \<Longrightarrow>
   value_text source (Literal (L_number x) b s e) (js_number_text x) = source_of source (Literal (L_number x) b s e)"
  using printed_number_same by (simp add: value_text_def)

subsection \<open>Conditions\<close>

lemma read_probe_same: "read_probe left = Some (probe, timezone) \<Longrightarrow> same_probe left probe timezone"
  by (auto simp: read_probe_def same_probe_def split: expression_node.splits if_splits billing_function.splits
      list.splits literal_value.splits)

lemma read_comparison_written:
  assumes "read_comparison n = Some c" and "tree_ok source n"
  shows "fst (writeVisualCondition t intl source c) = source_of source n \<and> vc_origin c = Some n"
proof -
  obtain p left x b s e s' e' probe timezone where n: "n = Binary p left (Literal (L_number x) b s e) s' e'"
    and r: "read_probe left = Some (probe, timezone)"
    and c: "c = Comparison (condition_identity n) (Some n) probe timezone p (js_number_text x)"
    using assms(1) by (auto simp: read_comparison_def split: expression_node.splits literal_value.splits if_splits option.splits)
  have "literal_good (L_number x)" using tree_ok_child(1) [OF assms(2), of "Literal (L_number x) b s e"]
    by (simp add: n tree_ok_def)
  moreover have "inside source n left" "inside source n (Literal (L_number x) b s e)"
    using tree_ok_child(2) [OF assms(2)] by (auto simp: n)
  ultimately have "patchSource source n [(left, source_of source left),
      (Literal (L_number x) b s e, value_text source (Literal (L_number x) b s e) (js_number_text x))] = source_of source n"
    by (intro patchSource_identity) (auto simp: value_text_printed)
  then show ?thesis using read_probe_same [OF r] by (simp add: c) (simp add: comparison_text_def n)
qed

lemma written_parts:
  assumes "list_all2 (\<lambda>m c. fst (w c) = source_of source m \<and> vc_origin c = Some m) ms cs"
  shows "map vc_origin cs = map Some ms" and "map fst (map w cs) = map (source_of source) ms"
  using assms by (induction rule: list_all2_induct) auto

lemma write_group_written:
  assumes "map Some (flattenBinary (Binary p l r s e) p) = origins"
    and "map fst children = map (source_of source) (flattenBinary (Binary p l r s e) p)"
    and "tree_ok source (Binary p l r s e)"
  shows "fst (write_group t source i (Some (Binary p l r s e)) p origins children)
    = source_of source (Binary p l r s e)"
proof -
  let ?n = "Binary p l r s e"
  have "patchSource source ?n (zip (flattenBinary ?n p) (map fst children)) = source_of source ?n"
    unfolding assms(2)
  proof (rule patchSource_identity)
    fix m w assume "(m, w) \<in> set (zip (flattenBinary ?n p) (map (source_of source) (flattenBinary ?n p)))"
    then have "m \<in> set (flattenBinary ?n p)" "w = source_of source m" by (auto simp: zip_map2 zip_same_conv_map simp del: flattenBinary.simps)
    then show "inside source ?n m \<and> w = source_of source m"
      using tree_ok_part(2) [OF assms(3) flattenBinary_postorder] by blast
  qed
  then show ?thesis using assms(1) by (simp add: write_group_def del: flattenBinary.simps)
qed

lemma readVisualCondition_leaf:
  "readVisualCondition (Literal l b s e) = None" "readVisualCondition (Variable x s e) = None"
  "readVisualCondition (Call f as s e) = None" "readVisualCondition (Conditional d y z s e) = None"
  by (simp_all add: readVisualCondition.simps)

lemma read_condition_written:
  assumes "readVisualCondition n = Some c" and "tree_ok source n"
  shows "fst (writeVisualCondition t intl source c) = source_of source n \<and> vc_origin c = Some n"
  using assms
proof (induction n arbitrary: c rule: readVisualCondition.induct)
  case (1 n)
  show ?case
  proof (cases n)
    case (Unary p operand s e)
    then obtain d where p: "p = Op_not" and d: "readVisualCondition operand = Some d"
      and c: "c = Negated (condition_identity n) (Some n) d"
      using "1.prems"(1) by (subst (asm) readVisualCondition.simps) (auto split: unary_operator.splits)
    have o: "tree_ok source operand" "inside source n operand" using tree_ok_child [OF "1.prems"(2)] by (auto simp: Unary)
    have IH: "fst (writeVisualCondition t intl source d) = source_of source operand \<and> vc_origin d = Some operand"
      using "1.IH"(1) [OF _ _ d o(1)] Unary p by blast
    then have "patchSource source n [(operand, fst (writeVisualCondition t intl source d))] = source_of source n"
      using o(2) by (intro patchSource_identity) auto
    then show ?thesis using IH
      by (cases "writeVisualCondition t intl source d") (simp add: c, simp add: Unary)
  next
    case (Binary p l r s e)
    show ?thesis
    proof (cases "p = Op_and \<or> p = Op_or")
      case True
      let ?parts = "flattenBinary (Binary p l r s e) p"
      obtain cs where cs: "those (map readVisualCondition ?parts) = Some cs"
        and c: "c = (if p = Op_and then All_of else Any_of) (condition_identity n) (Some n) cs"
        using "1.prems"(1) True Binary
        by (subst (asm) readVisualCondition.simps) (auto simp del: flattenBinary.simps)
      have "list_all2 (\<lambda>m d. readVisualCondition m = Some d) ?parts cs" using cs unfolding those_map_iff .
      then have "list_all2 (\<lambda>m d. fst (writeVisualCondition t intl source d) = source_of source m \<and> vc_origin d = Some m) ?parts cs"
      proof (rule list.rel_mono_strong)
        fix m d assume m: "m \<in> set ?parts" and "d \<in> set cs" and d: "readVisualCondition m = Some d"
        have "tree_ok source m" using tree_ok_part(1) [OF "1.prems"(2)] flattenBinary_postorder [OF m] Binary by simp
        then show "fst (writeVisualCondition t intl source d) = source_of source m \<and> vc_origin d = Some m"
          using "1.IH"(2) [OF Binary True m d] by blast
      qed
      note parts = written_parts [OF this]
      have "fst (write_group t source (condition_identity n) (Some (Binary p l r s e)) p (map vc_origin cs)
          (map (writeVisualCondition t intl source) cs)) = source_of source n"
        using write_group_written [of p l r s e "map vc_origin cs"] parts "1.prems"(2) Binary by simp
      then show ?thesis using True by (auto simp: c Binary)
    next
      case False
      then have "read_comparison n = Some c"
        using "1.prems"(1) Binary by (subst (asm) readVisualCondition.simps) simp
      then show ?thesis using "1.prems"(2) by (rule read_comparison_written)
    qed
  qed (use "1.prems"(1) in \<open>simp_all add: readVisualCondition_leaf\<close>)
qed

subsection \<open>Prices\<close>

text \<open>The argument of \<open>fixed\<close> is a number, by the type check.\<close>

lemma fixed_literal_number:
  assumes "well_typed types n" and "Call Fn_fixed (Literal l b s e # as) s' e' \<in> set (postorder n)"
  shows "\<exists>x. l = L_number x"
proof -
  have "set (postorder (Call Fn_fixed (Literal l b s e # as) s' e')) \<subseteq> set (postorder n)"
    using assms(2) by (rule postorder_trans)
  then have "Literal l b s e \<in> set (postorder n)" by auto
  then have "types (Literal l b s e) = Some (literal_type l)" using assms(1) by (auto simp: well_typed_def)
  moreover have "requireType types (Literal l b s e) T_number = Inr ()"
    using assms by (fastforce simp: well_typed_def rbind_eq_Inr)
  ultimately show ?thesis by (cases l) (auto simp: requireType_def)
qed

lemma price_of_term_origin:
  assumes "price_of_term m = Some p" and "tree_ok source m"
  shows "vp_origin p = Some m"
    and "\<exists>c. value_patch source p = Some (c, source_of source c) \<and> c \<in> set (postorder m)"
proof -
  obtain x s1 e1 n b s2 e2 s e where m: "m = Binary Op_mul (Variable x s1 e1) (Literal (L_number n) b s2 e2) s e"
    and p: "p = \<lparr>vp_variable = x, vp_value = js_number_text n, vp_origin = Some m\<rparr>"
    using assms(1) by (auto simp: price_of_term_def split: expression_node.splits binary_operator.splits
        literal_value.splits if_splits)
  show "vp_origin p = Some m" by (simp add: p)
  have "literal_good (L_number n)" using assms(2) by (simp add: m tree_ok_def)
  then show "\<exists>c. value_patch source p = Some (c, source_of source c) \<and> c \<in> set (postorder m)"
    by (simp add: p value_patch_def) (simp add: m value_text_printed)
qed

lemma read_prices_origins:
  assumes "read_prices ms ps = Some qs" and "\<forall>m \<in> set ms. tree_ok source m"
  shows "\<exists>rs. qs = ps @ rs \<and> map vp_origin rs = map Some ms
    \<and> (\<forall>c w. (c, w) \<in> set (List.map_filter (value_patch source) rs) \<longrightarrow>
         w = source_of source c \<and> (\<exists>m \<in> set ms. c \<in> set (postorder m)))"
  using assms
proof (induction ms ps rule: read_prices.induct)
  case (1 prices)
  then show ?case by (auto simp: List.map_filter_def)
next
  case (2 m ms prices)
  obtain p where p: "price_of_term m = Some p"
    and r: "\<not> list_ex (\<lambda>p'. vp_variable p' = vp_variable p) prices" "read_prices ms (prices @ [p]) = Some qs"
    using "2.prems"(1) by (auto split: option.splits if_splits)
  have m: "tree_ok source m" using "2.prems"(2) by simp
  note po = price_of_term_origin [OF p m]
  have "\<forall>m \<in> set ms. tree_ok source m" using "2.prems"(2) by simp
  from "2.IH" [OF p r(1) r(2) this] obtain rs where rs: "qs = (prices @ [p]) @ rs" "map vp_origin rs = map Some ms"
    "\<forall>c w. (c, w) \<in> set (List.map_filter (value_patch source) rs) \<longrightarrow>
         w = source_of source c \<and> (\<exists>m \<in> set ms. c \<in> set (postorder m))" by blast
  obtain c where "value_patch source p = Some (c, source_of source c)" "c \<in> set (postorder m)" using po(2) by blast
  then have "\<forall>c w. (c, w) \<in> set (List.map_filter (value_patch source) (p # rs)) \<longrightarrow>
         w = source_of source c \<and> (\<exists>m' \<in> set (m # ms). c \<in> set (postorder m'))"
    using rs(3) by (auto simp: List.map_filter_simps)
  then show ?case using rs(1,2) po(1) by (intro exI [of _ "p # rs"]) simp
qed

lemma read_tier_written:
  assumes "read_tier n = Some v" and "tree_ok source n" and "well_typed types n"
  shows "fst (writeVisualPricing t intl source v) = source_of source n"
proof -
  obtain label b1 s1 e1 body as s e where
    n: "n = Call Fn_tier (Literal (L_string label) b1 s1 e1 # body # as) s e"
    using assms(1) by (auto simp: read_tier_def split: expression_node.splits billing_function.splits
        list.splits literal_value.splits)
  let ?l = "Literal (L_string label) b1 s1 e1"
  have l: "label_text source ?l label = source_of source ?l" by (simp add: label_text_def)
  have il: "inside source n ?l" "inside source n body" and tb: "tree_ok source body"
    using tree_ok_child [OF assms(2)] by (auto simp: n)
  show ?thesis
  proof (cases "\<exists>l b2 s2 e2 as' s3 e3. body = Call Fn_fixed (Literal l b2 s2 e2 # as') s3 e3")
    case True
    then obtain l b2 s2 e2 as' s3 e3 where body: "body = Call Fn_fixed (Literal l b2 s2 e2 # as') s3 e3" by blast
    have "body \<in> set (postorder n)" by (auto simp: n)
    then obtain x where x: "l = L_number x" using fixed_literal_number [OF assms(3)] body by blast
    let ?a = "Literal (L_number x) b2 s2 e2"
    have "inside source body ?a" "literal_good (L_number x)"
      using tree_ok_child [OF tb, of ?a] by (auto simp: body x tree_ok_def)
    then have "patchSource source body [(?a, source_of source ?a)] = source_of source body"
      by (intro patchSource_identity) auto
    then have f: "fixed_text source body (js_number_text x) = source_of source body"
      using printed_number_same [OF \<open>literal_good (L_number x)\<close>] by (simp add: fixed_text_def body x)
    have v: "v = Pricing_tier (pricing_identity n) (Some n) label [] Unit_request (js_number_text x)"
      using assms(1) by (simp add: read_tier_def n body x)
    have "patchSource source n [(?l, source_of source ?l), (body, source_of source body)] = source_of source n"
      using il by (intro patchSource_identity) auto
    then show ?thesis using f l by (simp add: v write_fixed_tier_def) (simp add: n)
  next
    case False
    then have "read_tier n = map_option (\<lambda>prices. Pricing_tier (pricing_identity n) (Some n) label prices Unit_token [])
        (read_prices (flattenBinary body Op_add) [])"
      by (auto simp: read_tier_def n split: expression_node.splits billing_function.splits list.splits)
    then obtain prices where r: "read_prices (flattenBinary body Op_add) [] = Some prices"
      and v: "v = Pricing_tier (pricing_identity n) (Some n) label prices Unit_token []"
      using assms(1) by (cases "read_prices (flattenBinary body Op_add) []") auto
    have parts: "\<forall>m \<in> set (flattenBinary body Op_add). tree_ok source m"
      using tree_ok_part(1) [OF tb] flattenBinary_postorder by blast
    from read_prices_origins [OF r parts] have o: "map Some (flattenBinary body Op_add) = map vp_origin prices"
      and q: "\<forall>c w. (c, w) \<in> set (List.map_filter (value_patch source) prices) \<longrightarrow>
         w = source_of source c \<and> (\<exists>m \<in> set (flattenBinary body Op_add). c \<in> set (postorder m))" by auto
    have "patchSource source n ((?l, source_of source ?l) # List.map_filter (value_patch source) prices) = source_of source n"
    proof (rule patchSource_identity)
      fix c w assume c: "(c, w) \<in> set ((?l, source_of source ?l) # List.map_filter (value_patch source) prices)"
      show "inside source n c \<and> w = source_of source c"
      proof (cases "(c, w) = (?l, source_of source ?l)")
        case True
        then show ?thesis using il by simp
      next
        case False
        then obtain m where w: "w = source_of source c" "m \<in> set (flattenBinary body Op_add)" "c \<in> set (postorder m)"
          using q c by auto
        have "m \<in> set (postorder body)" using w(2) by (rule flattenBinary_postorder)
        then have "c \<in> set (postorder body)" using w(3) postorder_trans by blast
        then have "c \<in> set (postorder n)" by (auto simp: n)
        then show ?thesis using tree_ok_part(2) [OF assms(2)] w(1) by blast
      qed
    qed
    then show ?thesis using o l by (simp add: v write_token_tier_def) (simp add: n)
  qed
qed

lemma well_typed_part: "well_typed types n \<Longrightarrow> m \<in> set (postorder n) \<Longrightarrow> well_typed types m"
  using postorder_trans [of m n] by (auto simp: well_typed_def)

lemma read_pricing_written:
  assumes "readVisualPricing n = Some v" and "tree_ok source n" and "well_typed types n"
  shows "fst (writeVisualPricing t intl source v) = source_of source n"
  using assms
proof (induction n arbitrary: v rule: readVisualPricing.induct)
  case (1 condition yes no s e)
  let ?n = "Conditional condition yes no s e"
  obtain c y z where r: "readVisualCondition condition = Some c" "readVisualPricing yes = Some y" "readVisualPricing no = Some z"
    and v: "v = Pricing_branch (pricing_identity ?n) (Some ?n) c y z"
    using "1.prems"(1) by (auto split: option.splits)
  have k: "tree_ok source condition" "tree_ok source yes" "tree_ok source no"
    "inside source ?n condition" "inside source ?n yes" "inside source ?n no"
    using tree_ok_child [OF "1.prems"(2)] by auto
  have w: "well_typed types yes" "well_typed types no"
    using "1.prems"(3) by (auto intro!: well_typed_part [of types ?n])
  have c: "fst (writeVisualCondition t intl source c) = source_of source condition"
    using read_condition_written [OF r(1) k(1)] by blast
  note y = "1.IH"(1) [OF r(2) k(2) w(1)] and z = "1.IH"(2) [OF r(3) k(3) w(2)]
  have "patchSource source ?n [(condition, source_of source condition), (yes, source_of source yes),
      (no, source_of source no)] = source_of source ?n"
    using k by (intro patchSource_identity) auto
  then show ?case using c y z
    by (cases "writeVisualCondition t intl source c"; cases "writeVisualPricing t intl source y";
        cases "writeVisualPricing t intl source z") (simp add: v)
qed (simp_all add: read_tier_written)

lemma compiled_tree_ok:
  assumes "compile_expression source = Ready c"
  shows "tree_ok source (comp_ast c)" and "\<exists>types. well_typed types (comp_ast c)"
    and "node_start (comp_ast c) \<le> node_end (comp_ast c)"
proof -
  have s: "compile_steps source = Inr c" using assms compile_expression_Ready by simp
  note parsed = compile_steps_InrD(1) [OF s]
  show "tree_ok source (comp_ast c)"
    using parse_source_spans [OF parsed] parse_source_good [OF parsed] by (simp add: tree_ok_def)
  show "\<exists>types. well_typed types (comp_ast c)" by (rule compile_steps_InrD(3) [OF s])
  show "node_start (comp_ast c) \<le> node_end (comp_ast c)"
    using spans_ok_span [OF parse_source_spans(1) [OF parsed]] by simp
qed

subsection \<open>Properties\<close>

text \<open>
  C13: opening an expression in the visual editor and writing it back unchanged gives the same text,
  character by character: spaces, parentheses, the spelling of numbers and of labels included.
\<close>

theorem visual_document_lossless:
  assumes "parseVisualBillingDocument t intl source = Some document"
  shows "vd_source document = source \<and> serializeVisualBillingDocument t intl document = Serialized source"
proof -
  obtain c v where c: "compile_expression source = Ready c" and v: "readVisualPricing (comp_ast c) = Some v"
    and d: "document = \<lparr>vd_source = source, vd_root = v\<rparr>"
    and ok: "serialization_ok (serializeVisualBillingDocument t intl document)"
    using assms by (auto simp: parseVisualBillingDocument_def split: compilation_result.splits option.splits if_splits)
  note tree = compiled_tree_ok [OF c]
  have "fst (writeVisualPricing t intl source v) = source_of source (comp_ast c)"
    using read_pricing_written [OF v tree(1)] tree(2) by blast
  moreover have "take (node_start (comp_ast c)) source @ source_of source (comp_ast c) @ drop (node_end (comp_ast c)) source = source"
  proof -
    have "take a s @ js_slice s a b @ drop b s = s" if "a \<le> b" for a b and s :: jsstring
      using that js_slice_append [of 0 a b s] by (simp add: js_slice_def flip: append_assoc)
    then show ?thesis using tree(3) by (simp add: source_of_def)
  qed
  ultimately have "serializeVisualBillingDocument t intl document = Serialized source"
    using ok c by (auto simp: serializeVisualBillingDocument_def d Let_def split: prod.splits if_splits)
  then show ?thesis by (simp add: d)
qed

definition sample_visual_source :: jsstring where
  "sample_visual_source =
     js ''tier( \"a\",p*(02) )''"

theorem visual_document_lossless_witness:
  "\<exists>document. parseVisualBillingDocument (\<lambda>m. m) (\<lambda>z. None) sample_visual_source = Some document
     \<and> serializeVisualBillingDocument (\<lambda>m. m) (\<lambda>z. None) document = Serialized sample_visual_source"
proof -
  have "parseVisualBillingDocument (\<lambda>m. m) (\<lambda>z. None) sample_visual_source \<noteq> None" by code_simp
  then obtain document where d: "parseVisualBillingDocument (\<lambda>m. m) (\<lambda>z. None) sample_visual_source = Some document"
    by blast
  from visual_document_lossless [OF this] d show ?thesis by blast
qed

subsection \<open>Edited parts are woven into the source\<close>

text \<open>The reference definition: from left to right, the source up to each patch, then its text.\<close>

fun weave :: "jsstring \<Rightarrow> nat \<Rightarrow> patch list \<Rightarrow> nat \<Rightarrow> jsstring" where
  "weave source lo [] hi = js_slice source lo hi"
| "weave source lo (p # ps) hi =
     js_slice source lo (node_start (fst p)) @ snd p @ weave source (node_end (fst p)) ps hi"

lemma weave_snoc:
  "chained lo (map fst ps) (node_start n) \<Longrightarrow>
   weave source lo (ps @ [(n, w)]) hi = weave source lo ps (node_start n) @ w @ js_slice source (node_end n) hi"
  by (induction ps arbitrary: lo) auto

text \<open>The patches from the right: what is left of the ones still to come is untouched.\<close>

lemma fold_patches_weave:
  assumes "chained (node_start origin) (map fst ps) hi" and "hi \<le> node_end origin" and "node_end origin \<le> length source"
  shows "fold (apply_patch origin) (rev ps) (js_slice source (node_start origin) hi @ rest)
    = weave source (node_start origin) ps hi @ rest"
  using assms(1,2)
proof (induction ps arbitrary: hi rest rule: rev_induct)
  case (snoc p ps)
  obtain n w where p: "p = (n, w)" by fastforce
  let ?o = "node_start origin"
  obtain mid where mid: "chained ?o (map fst ps) mid" "mid \<le> node_start n" and n: "node_start n < node_end n" "node_end n \<le> hi"
    using snoc.prems(1) by (auto simp: chained_append p)
  have ch: "chained ?o (map fst ps) (node_start n)" using chained_mono [OF mid(1) order_refl mid(2)] .
  then have le: "?o \<le> node_start n" by (rule chained_le)
  have ins: "inside source origin n" using le n snoc.prems(2) assms(3) by (simp add: inside_def)
  have split: "js_slice source ?o hi = js_slice source ?o (node_start n) @ js_slice source (node_start n) (node_end n)
      @ js_slice source (node_end n) hi"
    using le n by (simp add: js_slice_append)
  have len: "length (js_slice source a b) = b - a" if "a \<le> b" "b \<le> hi" for a b
    using that snoc.prems(2) assms(3) by (simp add: js_slice_def)
  have "apply_patch origin (n, w) (js_slice source ?o hi @ rest)
      = js_slice source ?o (node_start n) @ w @ js_slice source (node_end n) hi @ rest"
    using le n len [of ?o "node_start n"] len [of "node_start n" "node_end n"]
    unfolding apply_patch_inside [OF ins] split by simp
  then show ?case
    using snoc.IH [OF ch, of "w @ js_slice source (node_end n) hi @ rest"] n snoc.prems(2)
    by (simp add: p weave_snoc [OF ch])
qed (simp add: js_slice_def)

lemma chained_starts: "chained lo (map fst ps) hi \<Longrightarrow>
    sorted_wrt (\<lambda>p q. node_start (fst p) < node_start (fst q)) ps \<and> (\<forall>p \<in> set ps. lo \<le> node_start (fst p))"
  by (induction ps arbitrary: lo) (auto, fastforce+)

text \<open>
  C14: a node is patched by weaving. When the patched nodes lie side by side in their origin, the
  result is the source of the origin with exactly their texts replaced, whatever the lengths of the
  new texts and the order in which the patches are given.
\<close>

theorem patchSource_weaves:
  assumes "chained (node_start origin) (map fst ps) (node_end origin)" and "node_end origin \<le> length source"
    and "mset patches = mset ps"
  shows "patchSource source origin patches = weave source (node_start origin) ps (node_end origin)"
proof -
  let ?key = "\<lambda>p :: patch. - int (node_start (fst p))"
  have sorted: "sorted_wrt (\<lambda>p q. node_start (fst p) < node_start (fst q)) ps" using chained_starts [OF assms(1)] by blast
  have "sorted (map ?key (rev ps))"
    unfolding sorted_wrt_map sorted_wrt_rev using sorted by (rule sorted_wrt_mono_rel [rotated]) simp
  moreover have "inj_on ?key (set patches)"
  proof -
    have "set patches = set ps" using assms(3) by (rule mset_eq_setD)
    moreover have "node_start (fst p) \<noteq> node_start (fst q)" if "p \<in> set ps" "q \<in> set ps" "p \<noteq> q" for p q
      using sorted that by (induction ps) auto
    ultimately show ?thesis by (force simp: inj_on_def)
  qed
  ultimately have "sort_key ?key patches = rev ps"
    using assms(3) by (intro sort_key_inj_key_eq) simp_all
  then show ?thesis
    using fold_patches_weave [OF assms(1) order_refl assms(2), of "[]"] by (simp add: patchSource_def source_of_def)
qed

theorem patchSource_weaves_witness:
  "patchSource (js ''p > 5 ? p : c'')
     (Conditional (Binary Op_gt (Variable Var_p 0 1) (Literal (L_number (JFin 5)) True 4 5) 0 5)
        (Variable Var_p 8 9) (Variable Var_c 12 13) 0 13)
     [(Variable Var_c 12 13, js ''c + p''), (Variable Var_p 8 9, [])] = js ''p > 5 ?  : c + p''"
proof -
  let ?n = "Conditional (Binary Op_gt (Variable Var_p 0 1) (Literal (L_number (JFin 5)) True 4 5) 0 5)
        (Variable Var_p 8 9) (Variable Var_c 12 13) 0 13"
  have "patchSource (js ''p > 5 ? p : c'') ?n [(Variable Var_c 12 13, js ''c + p''), (Variable Var_p 8 9, [])]
      = weave (js ''p > 5 ? p : c'') 0 [(Variable Var_p 8 9, []), (Variable Var_c 12 13, js ''c + p'')] 13"
    using patchSource_weaves [of ?n "[(Variable Var_p 8 9, []), (Variable Var_c 12 13, js ''c + p'')]" "js ''p > 5 ? p : c''"]
    by simp
  then show ?thesis by (simp add: js_slice_def)
qed

end
