(* ===== verification/Http_Status_Rules.thy ===== *)
theory Http_Status_Rules
  imports Js_Text "HOL-Library.Product_Lexorder"
begin

section \<open>HTTP status code rules\<close>

text \<open>
  \<open>web/src/lib/http-status-code-rules.ts\<close>: the rules that an administrator types as a list of
  codes and ranges, such as \<open>429, 500-503\<close>. They are parsed, checked, sorted, merged and printed
  in a normal form.
\<close>

subsection \<open>Model\<close>

type_synonym status_range = "int \<times> int"

record parsed_rules =
  rules_ok :: bool
  rules_ranges :: "status_range list"
  rules_tokens :: "jsstring list"
  rules_normalized :: jsstring
  rules_invalid :: "jsstring list"

definition isNumber :: "jsstring \<Rightarrow> bool" where
  "isNumber s \<longleftrightarrow> s \<noteq> [] \<and> list_all is_digit s"

definition isValidCode :: "int \<Rightarrow> bool" where
  "isValidCode code \<longleftrightarrow> 100 \<le> code \<and> code \<le> 599"

text \<open>\<open>Number.parseInt(s, 10)\<close> of a text of digits.\<close>

definition parse_int :: "jsstring \<Rightarrow> int" where
  "parse_int s = digits_value 0 s"

definition cleaned_token :: "jsstring \<Rightarrow> jsstring" where
  "cleaned_token token = filter (\<lambda>c. \<not> is_space c) (js_trim token)"

definition range_of :: "jsstring \<Rightarrow> jsstring \<Rightarrow> status_range option" where
  "range_of a b =
     (if \<not> isNumber a \<or> \<not> isNumber b then None
      else if \<not> isValidCode (parse_int a) \<or> \<not> isValidCode (parse_int b) \<or> parse_int a > parse_int b
      then None else Some (parse_int a, parse_int b))"

definition single_code :: "jsstring \<Rightarrow> status_range option" where
  "single_code s =
     (if \<not> isNumber s then None
      else if \<not> isValidCode (parse_int s) then None
      else Some (parse_int s, parse_int s))"

definition parseToken :: "jsstring \<Rightarrow> status_range option" where
  "parseToken token =
     (if cleaned_token token = [] then None
      else if 45 \<in> set (cleaned_token token)
      then (case js_split 45 (cleaned_token token) of a # b # _ \<Rightarrow> range_of a b | _ \<Rightarrow> None)
      else single_code (cleaned_token token))"

text \<open>One step of the \<open>reduce\<close>: the merged ranges so far, the last one at the end.\<close>

definition merge_step :: "status_range list \<Rightarrow> status_range \<Rightarrow> status_range list" where
  "merge_step merged current =
     (if merged = [] \<or> fst current > snd (last merged) + 1 then merged @ [current]
      else butlast merged @ [(fst (last merged), max (snd (last merged)) (snd current))])"

definition mergeRanges :: "status_range list \<Rightarrow> status_range list" where
  "mergeRanges ranges = foldl merge_step [] (sort ranges)"

definition range_token :: "status_range \<Rightarrow> jsstring" where
  "range_token r =
     (if fst r = snd r then int_text (fst r) else int_text (fst r) @ [45] @ int_text (snd r))"

definition replace_fullwidth_comma :: "jsstring \<Rightarrow> jsstring" where
  "replace_fullwidth_comma s = map (\<lambda>c. if c = 65292 then 44 else c) s"

definition rule_segments :: "jsstring \<Rightarrow> jsstring list" where
  "rule_segments raw =
     filter (\<lambda>s. s \<noteq> []) (map js_trim (js_split 44 (replace_fullwidth_comma raw)))"

definition input_text :: "jsval \<Rightarrow> jsstring" where
  "input_text input = js_trim (if is_nullish input then [] else js_to_string input)"

definition rules_of_text :: "jsstring \<Rightarrow> parsed_rules" where
  "rules_of_text raw =
     (if raw = []
      then \<lparr>rules_ok = True, rules_ranges = [], rules_tokens = [], rules_normalized = [],
            rules_invalid = []\<rparr>
      else if filter (\<lambda>s. parseToken s = None) (rule_segments raw) \<noteq> []
      then \<lparr>rules_ok = False, rules_ranges = [], rules_tokens = [], rules_normalized = raw,
            rules_invalid = filter (\<lambda>s. parseToken s = None) (rule_segments raw)\<rparr>
      else \<lparr>rules_ok = True,
            rules_ranges = mergeRanges (List.map_filter parseToken (rule_segments raw)),
            rules_tokens = map range_token (mergeRanges (List.map_filter parseToken (rule_segments raw))),
            rules_normalized =
              js_join [44] (map range_token (mergeRanges (List.map_filter parseToken (rule_segments raw)))),
            rules_invalid = []\<rparr>)"

definition parseHttpStatusCodeRules :: "jsval \<Rightarrow> parsed_rules" where
  "parseHttpStatusCodeRules input = rules_of_text (input_text input)"

subsection \<open>The codes that ranges cover\<close>

definition codes :: "status_range list \<Rightarrow> int set" where
  "codes rs = (\<Union>(a, b) \<in> set rs. {a..b})"

definition proper :: "status_range \<Rightarrow> bool" where
  "proper r \<longleftrightarrow> fst r \<le> snd r"

text \<open>Ranges in order, each with a gap of at least one code before the next.\<close>

definition separated :: "status_range list \<Rightarrow> bool" where
  "separated rs \<longleftrightarrow> sorted_wrt (\<lambda>r s. snd r + 1 < fst s) rs"

lemma codes_simps [simp]: "codes [] = {}" "codes (r # rs) = {fst r..snd r} \<union> codes rs"
  "codes (rs @ ss) = codes rs \<union> codes ss"
  by (auto simp: codes_def)

lemma last_in_codes_order:
  assumes "separated rs" "\<forall>r \<in> set rs. proper r" "rs \<noteq> []" "r \<in> set rs"
  shows "snd r \<le> snd (last rs)"
  using assms
proof (induction rs rule: rev_induct)
  case (snoc x xs)
  then show ?case by (auto simp: separated_def sorted_wrt_append proper_def)
qed simp

lemma merge_step_codes:
  assumes "\<forall>r \<in> set ms. proper r" "proper c" "ms \<noteq> [] \<Longrightarrow> fst (last ms) \<le> fst c"
  shows "codes (merge_step ms c) = codes ms \<union> {fst c..snd c}"
proof (cases "ms = [] \<or> fst c > snd (last ms) + 1")
  case False
  then obtain us l where ms: "ms = us @ [l]" by (metis rev_exhaust)
  with False assms show ?thesis by (auto simp: merge_step_def proper_def)
qed (simp add: merge_step_def)

lemma merge_step_separated:
  assumes "separated ms" "\<forall>r \<in> set ms. proper r" "proper c" "ms \<noteq> [] \<Longrightarrow> fst (last ms) \<le> fst c"
  shows "separated (merge_step ms c) \<and> (\<forall>r \<in> set (merge_step ms c). proper r)
    \<and> fst (last (merge_step ms c)) \<le> fst c"
proof (cases "ms = [] \<or> fst c > snd (last ms) + 1")
  case True
  have "snd r + 1 < fst c" if "r \<in> set ms" for r
    using that True last_in_codes_order [OF assms(1,2)] by fastforce
  with True assms show ?thesis by (auto simp: merge_step_def separated_def sorted_wrt_append)
next
  case False
  then obtain us l where ms: "ms = us @ [l]" by (metis rev_exhaust)
  with False assms show ?thesis by (auto simp: merge_step_def separated_def sorted_wrt_append proper_def)
qed

lemma merge_fold:
  assumes "sorted rs" "\<forall>r \<in> set rs. proper r" "separated ms" "\<forall>r \<in> set ms. proper r"
    "\<forall>r \<in> set rs. ms \<noteq> [] \<longrightarrow> fst (last ms) \<le> fst r"
  shows "codes (foldl merge_step ms rs) = codes ms \<union> codes rs \<and> separated (foldl merge_step ms rs)
    \<and> (\<forall>r \<in> set (foldl merge_step ms rs). proper r)"
  using assms
proof (induction rs arbitrary: ms)
  case (Cons c rs)
  have c: "proper c" "ms \<noteq> [] \<Longrightarrow> fst (last ms) \<le> fst c" using Cons.prems by auto
  note step = merge_step_separated [OF Cons.prems(3,4) c]
  have "\<forall>r \<in> set rs. fst c \<le> fst r" using Cons.prems(1) by (force simp: less_eq_prod_def)
  then have "\<forall>r \<in> set rs. merge_step ms c \<noteq> [] \<longrightarrow> fst (last (merge_step ms c)) \<le> fst r" using step by fastforce
  with Cons.IH [of "merge_step ms c"] Cons.prems(1,2) step merge_step_codes [OF Cons.prems(4) c]
  show ?case by auto
qed simp

lemma mergeRanges_correct:
  assumes "\<forall>r \<in> set rs. proper r"
  shows "codes (mergeRanges rs) = codes rs" "separated (mergeRanges rs)" "\<forall>r \<in> set (mergeRanges rs). proper r"
proof -
  have "codes (sort rs) = codes rs" by (simp add: codes_def)
  with merge_fold [of "sort rs" "[]"] assms show "codes (mergeRanges rs) = codes rs"
    "separated (mergeRanges rs)" "\<forall>r \<in> set (mergeRanges rs). proper r"
    by (auto simp: mergeRanges_def separated_def)
qed

text \<open>Merging leaves separated ranges as they are.\<close>

lemma merge_separated_fold:
  "separated (ms @ rs) \<Longrightarrow> foldl merge_step ms rs = ms @ rs"
proof (induction rs arbitrary: ms)
  case (Cons c rs)
  have "merge_step ms c = ms @ [c]"
    using Cons.prems by (cases ms rule: rev_cases) (auto simp: merge_step_def separated_def sorted_wrt_append)
  with Cons show ?case by simp
qed simp

lemma separated_sorted: "separated rs \<Longrightarrow> \<forall>r \<in> set rs. proper r \<Longrightarrow> sorted rs"
  by (induction rs) (force simp: separated_def proper_def less_eq_prod_def)+

lemma mergeRanges_id: "separated rs \<Longrightarrow> \<forall>r \<in> set rs. proper r \<Longrightarrow> mergeRanges rs = rs"
  using merge_separated_fold [of "[]" rs] separated_sorted by (simp add: mergeRanges_def sort_key_id_if_sorted)

subsection \<open>Printing and parsing\<close>

definition in_bounds :: "status_range \<Rightarrow> bool" where
  "in_bounds r \<longleftrightarrow> 100 \<le> fst r \<and> fst r \<le> snd r \<and> snd r \<le> 599"

lemma parseToken_in_bounds: "parseToken t = Some r \<Longrightarrow> in_bounds r"
  by (auto simp: parseToken_def range_of_def single_code_def isValidCode_def in_bounds_def
      split: if_splits list.splits)

lemma in_bounds_proper: "in_bounds r \<Longrightarrow> proper r"
  by (simp add: in_bounds_def proper_def)

text \<open>The characters of a token: digits and at most one hyphen.\<close>

lemma range_token_chars: "in_bounds r \<Longrightarrow> c \<in> set (range_token r) \<Longrightarrow> is_digit c \<or> c = 45"
  using digits_text_digits [of "fst r"] digits_text_digits [of "snd r"]
  by (auto simp: range_token_def int_text_def in_bounds_def list_all_iff split: if_splits)

lemma digit_not_space: "is_digit c \<Longrightarrow> \<not> is_space c"
  by (auto simp: is_digit_def is_space_def)

lemma range_token_no_space: "in_bounds r \<Longrightarrow> \<forall>c \<in> set (range_token r). \<not> is_space c"
  using range_token_chars digit_not_space by (fastforce simp: is_space_def)

lemma isNumber_digits: "0 \<le> n \<Longrightarrow> isNumber (digits_text n) \<and> parse_int (digits_text n) = n"
  using digits_text_digits [of n] digits_value_text [of n] by (simp add: isNumber_def parse_int_def)

lemma parseToken_range_token:
  assumes "in_bounds r"
  shows "parseToken (range_token r) = Some r"
proof -
  have nn: "0 \<le> fst r" "0 \<le> snd r" using assms by (auto simp: in_bounds_def)
  have txts: "int_text (fst r) = digits_text (fst r)" "int_text (snd r) = digits_text (snd r)"
    using nn by (auto simp: int_text_def)
  have dash: "45 \<notin> set (digits_text (fst r))" "45 \<notin> set (digits_text (snd r))"
    using nn digits_text_not_member [of _ 45] by (auto simp: is_digit_def)
  have cl: "cleaned_token (range_token r) = range_token r"
    using range_token_no_space [OF assms] js_trim_no_space
    by (auto simp: cleaned_token_def filter_id_conv)
  note num = isNumber_digits [OF nn(1)] isNumber_digits [OF nn(2)]
  show ?thesis
  proof (cases "fst r = snd r")
    case True
    then have "range_token r = digits_text (fst r)" using txts by (simp add: range_token_def)
    with cl dash num assms True show ?thesis
      by (auto simp: parseToken_def single_code_def isValidCode_def in_bounds_def prod_eq_iff)
  next
    case False
    then have t: "range_token r = digits_text (fst r) @ 45 # digits_text (snd r)" using txts by (simp add: range_token_def)
    then have "js_split 45 (range_token r) = [digits_text (fst r), digits_text (snd r)]"
      using dash by (simp add: js_split_append_sep js_split_single)
    with cl t num assms show ?thesis
      by (auto simp: parseToken_def range_of_def isValidCode_def in_bounds_def)
  qed
qed

lemma range_token_nonempty: "in_bounds r \<Longrightarrow> range_token r \<noteq> []"
  by (auto simp: range_token_def int_text_def)

lemma segments_of_tokens:
  assumes "\<forall>r \<in> set rs. in_bounds r" and "rs \<noteq> []"
  shows "rule_segments (js_join [44] (map range_token rs)) = map range_token rs"
proof -
  have ch: "\<forall>w \<in> set (map range_token rs). 44 \<notin> set w \<and> 65292 \<notin> set w"
    using assms range_token_chars by (fastforce simp: is_digit_def)
  have "65292 \<notin> set (js_join [44] (map range_token rs))"
    using ch set_js_join [of "[44]" "map range_token rs"] by fastforce
  then have "replace_fullwidth_comma (js_join [44] (map range_token rs)) = js_join [44] (map range_token rs)"
    unfolding replace_fullwidth_comma_def by (intro map_idI) auto
  moreover have "js_split 44 (js_join [44] (map range_token rs)) = map range_token rs"
    using js_split_join [of "map range_token rs" 44] ch assms(2) by simp
  moreover have "map js_trim (map range_token rs) = map range_token rs"
    using assms(1) js_trim_no_space range_token_no_space by auto
  moreover have "filter (\<lambda>s. s \<noteq> []) (map range_token rs) = map range_token rs"
    using assms(1) range_token_nonempty by (auto simp: filter_id_conv)
  ultimately show ?thesis by (simp add: rule_segments_def del: map_map)
qed

subsection \<open>Properties\<close>

text \<open>
  The ranges of an accepted text cover exactly the codes its segments name, in increasing
  order, with at least one code between two ranges, and within 100 to 599.
\<close>

theorem status_rules_cover:
  assumes "rules_ok (rules_of_text raw)"
  shows "codes (rules_ranges (rules_of_text raw)) =
      codes (List.map_filter parseToken (if raw = [] then [] else rule_segments raw))
    \<and> separated (rules_ranges (rules_of_text raw))
    \<and> (\<forall>r \<in> set (rules_ranges (rules_of_text raw)). proper r)
    \<and> codes (rules_ranges (rules_of_text raw)) \<subseteq> {100..599}"
proof (cases "raw = []")
  case False
  let ?rs = "List.map_filter parseToken (rule_segments raw)"
  have b: "\<forall>r \<in> set ?rs. in_bounds r"
    using parseToken_in_bounds by (auto simp: List.map_filter_def)
  then have p: "\<forall>r \<in> set ?rs. proper r" using in_bounds_proper by blast
  have "rules_ranges (rules_of_text raw) = mergeRanges ?rs"
    using assms False by (auto simp: rules_of_text_def split: if_splits)
  moreover have "codes ?rs \<subseteq> {100..599}" using b by (auto simp: codes_def in_bounds_def)
  ultimately show ?thesis using mergeRanges_correct [OF p] False by simp
qed (simp add: rules_of_text_def separated_def map_filter_simps)

theorem status_rules_cover_witness:
  "rules_ok (rules_of_text (js ''500-503, 429,501-510''))
   \<and> rules_ranges (rules_of_text (js ''500-503, 429,501-510'')) = [(429, 429), (500, 510)]
   \<and> codes (rules_ranges (rules_of_text (js ''500-503, 429,501-510''))) \<subseteq> {100..599}"
proof -
  have ok: "rules_ok (rules_of_text (js ''500-503, 429,501-510''))" by code_simp
  moreover have "rules_ranges (rules_of_text (js ''500-503, 429,501-510'')) = [(429, 429), (500, 510)]"
    by code_simp
  ultimately show ?thesis using status_rules_cover [OF ok] by blast
qed

text \<open>
  The normalised text is a normal form. Parsing it again succeeds and gives the same ranges,
  the same tokens and the same text.
\<close>

theorem status_rules_normal_form:
  assumes "rules_ok (rules_of_text raw)"
  shows "rules_of_text (rules_normalized (rules_of_text raw)) = rules_of_text raw"
proof (cases "raw = []")
  case False
  let ?rs = "List.map_filter parseToken (rule_segments raw)"
  let ?ms = "mergeRanges ?rs"
  have b: "\<forall>r \<in> set ?rs. in_bounds r" using parseToken_in_bounds by (auto simp: List.map_filter_def)
  then have p: "\<forall>r \<in> set ?rs. proper r" using in_bounds_proper by blast
  note m = mergeRanges_correct [OF p]
  have mb: "\<forall>r \<in> set ?ms. in_bounds r"
  proof
    fix r assume r: "r \<in> set ?ms"
    have sub: "codes ?ms \<subseteq> {100..599}" using b m(1) by (auto simp: codes_def in_bounds_def)
    have "{fst r..snd r} \<subseteq> codes ?ms" using r by (force simp: codes_def)
    moreover have "fst r \<le> snd r" using r m(3) by (auto simp: proper_def)
    ultimately show "in_bounds r" using sub by (auto simp: in_bounds_def subset_iff)
  qed
  let ?n = "js_join [44] (map range_token ?ms)"
  have eq: "rules_of_text raw = \<lparr>rules_ok = True, rules_ranges = ?ms, rules_tokens = map range_token ?ms,
      rules_normalized = ?n, rules_invalid = []\<rparr>"
    using assms False by (auto simp: rules_of_text_def split: if_splits)
  show ?thesis
  proof (cases "?ms = []")
    case True
    then show ?thesis using eq by (simp add: rules_of_text_def)
  next
    case ne: False
    have seg: "rule_segments ?n = map range_token ?ms" using segments_of_tokens [OF mb ne] .
    then have "?n \<noteq> []" using ne mb range_token_nonempty
      by (cases ?ms) (auto simp: rule_segments_def replace_fullwidth_comma_def js_trim_def)
    moreover have "List.map_filter parseToken (map range_token rs) = rs" if "\<forall>r \<in> set rs. in_bounds r" for rs
      using that by (induction rs) (auto simp: map_filter_simps parseToken_range_token)
    moreover have "filter (\<lambda>s. parseToken s = None) (map range_token ?ms) = []"
      using mb parseToken_range_token by (auto simp: filter_empty_conv)
    ultimately show ?thesis
      using eq seg mb mergeRanges_id [OF m(2,3)] by (simp add: rules_of_text_def)
  qed
qed (simp add: rules_of_text_def)

theorem status_rules_normal_form_witness:
  "rules_of_text (rules_normalized (rules_of_text (js ''503,500-502''))) = rules_of_text (js ''503,500-502'')
   \<and> rules_normalized (rules_of_text (js ''503,500-502'')) = js ''500-503''"
proof -
  have ok: "rules_ok (rules_of_text (js ''503,500-502''))" by code_simp
  moreover have "rules_normalized (rules_of_text (js ''503,500-502'')) = js ''500-503''" by code_simp
  ultimately show ?thesis using status_rules_normal_form by blast
qed

end
