(* ===== verification/Model_Mapping.thy ===== *)
theory Model_Mapping
  imports Js_Json
begin

section \<open>Model mappings of a channel\<close>

text \<open>
  \<open>features/channels/lib/model-mapping-rules.ts\<close> and \<open>model-mapping-validation.ts\<close>: deriving
  pairs of request and upstream names from a naming rule, merging them into the mapping document
  of a channel, and the checks and listings of that document.
\<close>

subsection \<open>Naming rules\<close>

datatype mapping_rule =
    Strip_prefix jsstring
  | Strip_suffix jsstring
  | Add_prefix jsstring
  | Add_suffix jsstring
  | Replace_name jsstring jsstring

datatype mapping_direction = Upstream | Request

type_synonym mapping_pair = "jsstring \<times> jsstring"

record mapping_derivation =
  md_pairs :: "mapping_pair list"
  md_unchanged :: "jsstring list"
  md_conflicts :: "jsstring list"

definition trimmed_parts :: "jsstring \<Rightarrow> jsstring list" where
  "trimmed_parts s = nonempty_texts (map js_trim (js_split 44 s))"

definition rule_affixes :: "mapping_rule \<Rightarrow> jsstring list" where
  "rule_affixes rule =
     (case rule of
        Strip_prefix s \<Rightarrow> trimmed_parts s
      | Strip_suffix s \<Rightarrow> trimmed_parts s
      | _ \<Rightarrow> [])"

text \<open>\<open>replaceAll\<close> with a text: the replacement may refer to the match by dollar patterns. \<open>before\<close>
  is the text in front of the match, \<open>after\<close> the text behind it.\<close>

fun expand_replacement :: "jsstring \<Rightarrow> jsstring \<Rightarrow> jsstring \<Rightarrow> jsstring \<Rightarrow> jsstring" where
  "expand_replacement before match after [] = []"
| "expand_replacement before match after [c] = [c]"
| "expand_replacement before match after (c # d # r) =
     (if c = 36 \<and> d = 36 then 36 # expand_replacement before match after r
      else if c = 36 \<and> d = 38 then match @ expand_replacement before match after r
      else if c = 36 \<and> d = 96 then before @ expand_replacement before match after r
      else if c = 36 \<and> d = 39 then after @ expand_replacement before match after r
      else c # expand_replacement before match after (d # r))"

function replace_all :: "jsstring \<Rightarrow> jsstring \<Rightarrow> jsstring \<Rightarrow> jsstring \<Rightarrow> jsstring" where
  "replace_all pattern replacement before [] = []"
| "replace_all pattern replacement before (c # r) =
     (if js_starts_with pattern (c # r)
      then expand_replacement before pattern (drop (length pattern - 1) r) replacement
             @ replace_all pattern replacement (before @ pattern) (drop (length pattern - 1) r)
      else c # replace_all pattern replacement (before @ [c]) r)"
  by pat_completeness auto
termination
  by (relation "measure (\<lambda>(p, q, b, r). length r)") auto

definition derived_name :: "mapping_rule \<Rightarrow> jsstring \<Rightarrow> jsstring" where
  "derived_name rule model =
     (case rule of
        Strip_prefix _ \<Rightarrow>
          (case find (\<lambda>a. js_starts_with a model) (rule_affixes rule) of
             Some prefix \<Rightarrow> drop (length prefix) model
           | None \<Rightarrow> model)
      | Strip_suffix _ \<Rightarrow>
          (case find (\<lambda>a. js_ends_with a model) (rule_affixes rule) of
             Some suffix \<Rightarrow> take (length model - length suffix) model
           | None \<Rightarrow> model)
      | Add_prefix v \<Rightarrow> v @ model
      | Add_suffix v \<Rightarrow> model @ v
      | Replace_name pattern replacement \<Rightarrow>
          if pattern = [] then model else replace_all pattern replacement [] model)"

definition make_pair :: "mapping_direction \<Rightarrow> jsstring \<Rightarrow> jsstring \<Rightarrow> mapping_pair" where
  "make_pair direction model derived =
     (if direction = Upstream then (derived, model) else (model, derived))"

text \<open>One model of the loop. \<open>seen\<close> and \<open>requestNames\<close> are the two sets of the source.\<close>

record derive_state =
  ds_seen :: "jsstring set"
  ds_requests :: "jsstring set"
  ds_result :: mapping_derivation

definition record_model ::
  "mapping_direction \<Rightarrow> jsstring \<Rightarrow> jsstring \<Rightarrow> derive_state \<Rightarrow> derive_state" where
  "record_model direction model derived st =
     (if derived = [] \<or> derived = model
      then st\<lparr>ds_result := (ds_result st)\<lparr>md_unchanged := md_unchanged (ds_result st) @ [model]\<rparr>\<rparr>
      else if fst (make_pair direction model derived) \<in> ds_requests st
      then st\<lparr>ds_result := (ds_result st)\<lparr>md_conflicts := md_conflicts (ds_result st) @ [model]\<rparr>\<rparr>
      else st\<lparr>ds_requests := insert (fst (make_pair direction model derived)) (ds_requests st),
              ds_result := (ds_result st)\<lparr>md_pairs :=
                md_pairs (ds_result st) @ [make_pair direction model derived]\<rparr>\<rparr>)"

definition derive_step ::
  "mapping_direction \<Rightarrow> mapping_rule \<Rightarrow> derive_state \<Rightarrow> jsstring \<Rightarrow> derive_state" where
  "derive_step direction rule st raw =
     (if js_trim raw = [] \<or> js_trim raw \<in> ds_seen st then st
      else record_model direction (js_trim raw) (js_trim (derived_name rule (js_trim raw)))
             (st\<lparr>ds_seen := insert (js_trim raw) (ds_seen st)\<rparr>))"

definition empty_derivation :: mapping_derivation where
  "empty_derivation = \<lparr>md_pairs = [], md_unchanged = [], md_conflicts = []\<rparr>"

definition deriveModelMappingPairs ::
  "jsstring list \<Rightarrow> mapping_direction \<Rightarrow> mapping_rule \<Rightarrow> mapping_derivation" where
  "deriveModelMappingPairs models direction rule =
     ds_result (foldl (derive_step direction rule)
       \<lparr>ds_seen = {}, ds_requests = {}, ds_result = empty_derivation\<rparr> models)"

subsection \<open>Merging into the document\<close>

fun text_members :: "properties \<Rightarrow> mapping_pair list \<Rightarrow> mapping_pair list option" where
  "text_members [] mapping = Some mapping"
| "text_members ((k, VStr v) # ps) mapping = text_members ps (js_assign mapping k v)"
| "text_members ((k, _) # ps) mapping = None"

definition parsed_mapping :: "jsstring \<Rightarrow> mapping_pair list option" where
  "parsed_mapping text =
     (if js_trim text = [] then Some []
      else case json_parse (js_trim text) of
             Some (VObj ps) \<Rightarrow> text_members ps []
           | _ \<Rightarrow> None)"

definition add_pair :: "mapping_pair list \<Rightarrow> mapping_pair \<Rightarrow> mapping_pair list" where
  "add_pair mapping pair = js_assign mapping (fst pair) (snd pair)"

definition mergeModelMappingPairs :: "jsstring \<Rightarrow> mapping_pair list \<Rightarrow> jsstring option" where
  "mergeModelMappingPairs document pairs =
     (case parsed_mapping document of
        None \<Rightarrow> None
      | Some mapping \<Rightarrow>
          if foldl add_pair mapping pairs = [] then Some []
          else Some (pretty_strings (foldl add_pair mapping pairs)))"

subsection \<open>Checks and listings\<close>

definition parseModelsString :: "jsstring \<Rightarrow> jsstring list" where
  "parseModelsString s = (if s = [] then [] else trimmed_parts s)"

definition formatModelsArray :: "jsstring list \<Rightarrow> jsstring" where
  "formatModelsArray models = js_join [44] (js_unique models)"

definition normalizeModelName :: "jsstring \<Rightarrow> jsstring" where
  "normalizeModelName model = js_trim model"

text \<open>The properties of a document that is an object.\<close>

definition document_object :: "jsstring \<Rightarrow> properties option" where
  "document_object text =
     (case json_parse text of Some (VObj ps) \<Rightarrow> Some ps | _ \<Rightarrow> None)"

definition extractMappingSourceModels :: "jsstring \<Rightarrow> jsstring list" where
  "extractMappingSourceModels text =
     (if js_trim text = [] then []
      else case document_object (js_trim text) of
             None \<Rightarrow> []
           | Some ps \<Rightarrow> js_unique (nonempty_texts (map (\<lambda>p. js_trim (fst p)) ps)))"

fun text_value :: "jsval \<Rightarrow> jsstring" where
  "text_value (VStr s) = js_trim s"
| "text_value _ = []"

definition extractRedirectModels :: "jsstring \<Rightarrow> jsstring list" where
  "extractRedirectModels text =
     (if js_trim text = [] then []
      else case document_object (js_trim text) of
             None \<Rightarrow> []
           | Some ps \<Rightarrow> js_unique (nonempty_texts (map (\<lambda>p. text_value (snd p)) ps)))"

definition hasModelConfigChanged ::
  "jsstring list \<Rightarrow> jsstring \<Rightarrow> jsstring list \<Rightarrow> jsstring \<Rightarrow> bool" where
  "hasModelConfigChanged models mapping initial_models initial_mapping =
     (if initial_models = [] \<and> initial_mapping = [] then True
      else if models \<noteq> initial_models then True
      else js_trim mapping \<noteq> js_trim initial_mapping)"

definition findMissingModelsInMapping :: "jsstring \<Rightarrow> jsstring list \<Rightarrow> jsstring list" where
  "findMissingModelsInMapping text models =
     (if js_trim text = [] then []
      else case document_object text of
             None \<Rightarrow> []
           | Some ps \<Rightarrow>
               js_unique (filter (\<lambda>k. k \<noteq> [] \<and> k \<notin> set (map normalizeModelName models))
                 (map (\<lambda>p. normalizeModelName (fst p)) ps)))"

datatype mapping_error = Not_an_object | Values_not_strings | Not_json

definition validateModelMappingJson :: "jsstring \<Rightarrow> mapping_error option" where
  "validateModelMappingJson text =
     (if js_trim text = [] then None
      else case json_parse text of
             None \<Rightarrow> Some Not_json
           | Some (VObj ps) \<Rightarrow>
               if list_ex (\<lambda>p. \<not> is_string_val (snd p)) ps then Some Values_not_strings else None
           | Some _ \<Rightarrow> Some Not_an_object)"

definition findExposedTargetModels :: "jsstring \<Rightarrow> jsstring list \<Rightarrow> jsstring list" where
  "findExposedTargetModels text models =
     filter (\<lambda>m. normalizeModelName m \<in> set (map normalizeModelName models)) (extractRedirectModels text)"

record model_categories =
  mc_current :: "jsstring list"
  mc_redirect :: "jsstring list"
  mc_all :: "jsstring list"
  mc_redirect_only :: "jsstring list"

definition normalized_set :: "jsstring list \<Rightarrow> jsstring list" where
  "normalized_set models = js_unique (nonempty_texts (map normalizeModelName models))"

definition categorizeModelsWithRedirect :: "jsstring list \<Rightarrow> jsstring list \<Rightarrow> model_categories" where
  "categorizeModelsWithRedirect models redirects =
     \<lparr>mc_current = normalized_set models, mc_redirect = normalized_set redirects,
      mc_all = js_unique (normalized_set models @ normalized_set redirects),
      mc_redirect_only = filter (\<lambda>m. m \<notin> set (normalized_set models)) (normalized_set redirects)\<rparr>"

text \<open>One model of the loop of \<open>collectRemovedUpstreamModels\<close>, with the names seen so far. The full
  Unicode \<open>toLowerCase\<close> is the parameter \<open>lower\<close>.\<close>

definition removed_upstream ::
  "(jsstring \<Rightarrow> jsstring) \<Rightarrow> jsstring list \<Rightarrow> jsstring list \<Rightarrow> jsstring \<Rightarrow> jsstring \<Rightarrow> bool" where
  "removed_upstream lower fetched sources keyword name \<longleftrightarrow>
     name \<notin> set (normalized_set fetched) \<and> name \<notin> set (normalized_set sources)
     \<and> (keyword = [] \<or> js_includes keyword (lower name))"

fun removed_loop ::
  "(jsstring \<Rightarrow> bool) \<Rightarrow> jsstring list \<Rightarrow> jsstring list \<Rightarrow> jsstring list" where
  "removed_loop removed seen [] = []"
| "removed_loop removed seen (model # models) =
     (if normalizeModelName model = [] \<or> normalizeModelName model \<in> set seen
      then removed_loop removed seen models
      else (if removed (normalizeModelName model) then [normalizeModelName model] else [])
           @ removed_loop removed (normalizeModelName model # seen) models)"

definition collectRemovedUpstreamModels ::
  "(jsstring \<Rightarrow> jsstring) \<Rightarrow> jsstring list \<Rightarrow> jsstring list \<Rightarrow> jsstring list \<Rightarrow> jsstring \<Rightarrow> jsstring list" where
  "collectRemovedUpstreamModels lower existing fetched sources search =
     removed_loop (removed_upstream lower fetched sources (js_trim (lower search))) [] existing"

subsection \<open>Deriving pairs\<close>

text \<open>The invariant of the loop: every model seen is in exactly one of the three lists, a pair
  relates a model to its derived name, and the request names are those of the pairs.\<close>

definition pair_model :: "mapping_direction \<Rightarrow> mapping_pair \<Rightarrow> jsstring" where
  "pair_model direction pair = (if direction = Upstream then snd pair else fst pair)"

definition listed_models :: "mapping_direction \<Rightarrow> mapping_derivation \<Rightarrow> jsstring list" where
  "listed_models direction result =
     map (pair_model direction) (md_pairs result) @ md_unchanged result @ md_conflicts result"

definition derivation_of :: "mapping_rule \<Rightarrow> jsstring \<Rightarrow> jsstring" where
  "derivation_of rule model = js_trim (derived_name rule model)"

definition pair_ok :: "mapping_direction \<Rightarrow> mapping_rule \<Rightarrow> mapping_pair \<Rightarrow> bool" where
  "pair_ok direction rule pair \<longleftrightarrow>
     (\<exists>model. pair = make_pair direction model (derivation_of rule model)
        \<and> derivation_of rule model \<noteq> [] \<and> derivation_of rule model \<noteq> model)"

definition derive_inv :: "mapping_direction \<Rightarrow> mapping_rule \<Rightarrow> derive_state \<Rightarrow> bool" where
  "derive_inv direction rule st \<longleftrightarrow>
     distinct (listed_models direction (ds_result st))
     \<and> set (listed_models direction (ds_result st)) = ds_seen st
     \<and> distinct (map fst (md_pairs (ds_result st)))
     \<and> fst ` set (md_pairs (ds_result st)) = ds_requests st
     \<and> (\<forall>pair \<in> set (md_pairs (ds_result st)). pair_ok direction rule pair)
     \<and> (\<forall>model \<in> set (md_unchanged (ds_result st)). derivation_of rule model \<in> {[], model})
     \<and> (\<forall>model \<in> set (md_conflicts (ds_result st)).
          fst (make_pair direction model (derivation_of rule model)) \<in> ds_requests st)"

lemma pair_model_make [simp]: "pair_model direction (make_pair direction model derived) = model"
  by (simp add: pair_model_def make_pair_def)

lemma record_model_inv:
  assumes "derive_inv direction rule st" and "model \<notin> ds_seen st"
  shows "derive_inv direction rule
    (record_model direction model (derivation_of rule model) (st\<lparr>ds_seen := insert model (ds_seen st)\<rparr>))"
  using assms
  by (auto simp: derive_inv_def record_model_def listed_models_def pair_ok_def)

lemma derive_step_inv:
  "derive_inv direction rule st \<Longrightarrow> derive_inv direction rule (derive_step direction rule st raw)"
  using record_model_inv [of direction rule st "js_trim raw"]
  by (simp add: derive_step_def derivation_of_def)

lemma seen_record_model [simp]: "ds_seen (record_model direction model derived st) = ds_seen st"
  by (simp add: record_model_def)

lemma seen_derive_step:
  "ds_seen (derive_step direction rule st raw) = ds_seen st \<union> ({js_trim raw} - {[]})"
  by (auto simp: derive_step_def)

lemma derive_loop:
  assumes "derive_inv direction rule st"
  shows "derive_inv direction rule (foldl (derive_step direction rule) st models)
    \<and> ds_seen (foldl (derive_step direction rule) st models) = ds_seen st \<union> (js_trim ` set models - {[]})"
  using assms
proof (induction models arbitrary: st)
  case (Cons raw models)
  show ?case using Cons.IH [OF derive_step_inv [OF Cons.prems]] by (auto simp: seen_derive_step)
qed simp

lemma start_inv:
  "derive_inv direction rule \<lparr>ds_seen = {}, ds_requests = {}, ds_result = empty_derivation\<rparr>"
  by (simp add: derive_inv_def listed_models_def empty_derivation_def)

text \<open>
  A naming rule sorts the selected models. Every non-empty trimmed model is in exactly one of
  the pairs, the unchanged and the conflicting models, once; no two pairs have the same request
  name; a pair relates a model to its derived name, which is another non-empty name; the rule
  changes no unchanged model, and the request name of a conflicting model is taken by a pair.
\<close>

theorem derivation_partition:
  "distinct (listed_models direction (deriveModelMappingPairs models direction rule))
   \<and> set (listed_models direction (deriveModelMappingPairs models direction rule)) = js_trim ` set models - {[]}
   \<and> distinct (map fst (md_pairs (deriveModelMappingPairs models direction rule)))
   \<and> list_all (pair_ok direction rule) (md_pairs (deriveModelMappingPairs models direction rule))
   \<and> list_all (\<lambda>model. derivation_of rule model \<in> {[], model})
        (md_unchanged (deriveModelMappingPairs models direction rule))
   \<and> list_all (\<lambda>model. fst (make_pair direction model (derivation_of rule model))
          \<in> fst ` set (md_pairs (deriveModelMappingPairs models direction rule)))
        (md_conflicts (deriveModelMappingPairs models direction rule))"
  using derive_loop [OF start_inv, of direction rule models]
  by (simp add: deriveModelMappingPairs_def derive_inv_def list_all_iff)

subsection \<open>Removed upstream models\<close>

lemma removed_loop_set:
  "set (removed_loop removed seen models) =
     {name \<in> js_trim ` set models. name \<noteq> [] \<and> name \<notin> set seen \<and> removed name}"
  by (induction models arbitrary: seen) (auto simp: normalizeModelName_def)

lemma removed_loop_distinct: "distinct (removed_loop removed seen models)"
  by (induction models arbitrary: seen) (auto simp: removed_loop_set)

lemma set_normalized_set [simp]: "set (normalized_set models) = js_trim ` set models - {[]}"
  by (auto simp: normalized_set_def normalizeModelName_def)

text \<open>
  The removed upstream models are, each once, the non-empty trimmed existing models that were
  not fetched, are no source of a redirect and contain the search keyword.
\<close>

theorem removed_upstream_models:
  "distinct (collectRemovedUpstreamModels lower existing fetched sources search)
   \<and> set (collectRemovedUpstreamModels lower existing fetched sources search) =
       {name \<in> js_trim ` set existing - {[]}. name \<notin> js_trim ` set fetched \<and> name \<notin> js_trim ` set sources
          \<and> js_includes (js_trim (lower search)) (lower name)}"
  by (auto simp: collectRemovedUpstreamModels_def removed_loop_set removed_loop_distinct removed_upstream_def)

subsection \<open>Merging pairs\<close>

definition plain_member :: "mapping_pair \<Rightarrow> jsstring \<times> jsval" where
  "plain_member m = (fst m, VStr (snd m))"

lemma canonical_assign: "canonical ps \<Longrightarrow> canonical (js_assign ps k v)"
  by (simp add: js_assign_def canonical_put)

lemma proto_assign: "proto_key \<notin> fst ` set ps \<Longrightarrow> proto_key \<notin> fst ` set (js_assign ps k v)"
  by (simp add: js_assign_def keys_js_put)

lemma text_members_kept:
  "text_members qs ps = Some ms \<Longrightarrow> canonical ps \<and> proto_key \<notin> fst ` set ps \<Longrightarrow>
   canonical ms \<and> proto_key \<notin> fst ` set ms"
  by (induction qs ps rule: text_members.induct) (auto simp: canonical_assign proto_assign)

lemma parsed_mapping_canonical:
  "parsed_mapping document = Some ms \<Longrightarrow> canonical ms \<and> proto_key \<notin> fst ` set ms"
proof -
  assume p: "parsed_mapping document = Some ms"
  show ?thesis
  proof (cases "js_trim document = []")
    case True
    with p show ?thesis by (simp add: parsed_mapping_def canonical_def)
  next
    case False
    with p obtain qs where "text_members qs [] = Some ms"
      by (auto simp: parsed_mapping_def split: option.splits jsval.splits)
    then show ?thesis using text_members_kept [of qs "[]" ms] by (simp add: canonical_def)
  qed
qed

lemma add_pairs_kept:
  "canonical ms \<and> proto_key \<notin> fst ` set ms \<Longrightarrow>
   canonical (foldl add_pair ms pairs) \<and> proto_key \<notin> fst ` set (foldl add_pair ms pairs)"
  by (induction pairs arbitrary: ms) (auto simp: add_pair_def canonical_assign proto_assign)

lemma text_members_plain:
  "proto_key \<notin> fst ` set ms \<Longrightarrow> text_members (map plain_member ms) ps = Some (foldl put_plain ps ms)"
  by (induction ms arbitrary: ps) (auto simp: plain_member_def put_plain_def js_assign_def)

lemma put_text_plain: "foldl put_text (map plain_member ps) ms = map plain_member (foldl put_plain ps ms)"
proof (induction ms arbitrary: ps)
  case (Cons m ms)
  have "put_text (map plain_member ps) m = map plain_member (put_plain ps m)"
    using js_put_map [of "\<lambda>v. VStr v" ps "fst m" "snd m"]
    by (simp add: put_text_def put_plain_def plain_member_def [abs_def] case_prod_unfold)
  with Cons.IH show ?case by simp
qed simp

lemma parsed_mapping_pretty:
  assumes "canonical ms" "proto_key \<notin> fst ` set ms" "list_all member_ok ms"
  shows "parsed_mapping (pretty_strings ms) = Some ms"
proof -
  have "foldl put_text [] ms = map plain_member ms"
    using put_text_plain [of "[]" ms] canonical_rebuild [OF assms(1)] by simp
  then show ?thesis
    using json_parse_pretty [OF assms(3)] assms text_members_plain [OF assms(2), of "[]"]
      canonical_rebuild [OF assms(1)]
    by (simp add: parsed_mapping_def)
qed

lemma member_ok_assign:
  "list_all member_ok ps \<Longrightarrow> member_ok (k, v) \<Longrightarrow> list_all member_ok (js_assign ps k v)"
  by (auto simp: js_assign_def js_put_def list_all_iff set_insert_property)

lemma member_ok_add_pairs:
  "list_all member_ok ms \<Longrightarrow> list_all member_ok pairs \<Longrightarrow> list_all member_ok (foldl add_pair ms pairs)"
  by (induction pairs arbitrary: ms) (auto simp: add_pair_def member_ok_assign)

lemma positions_insert:
  "k \<notin> K \<Longrightarrow> filter (\<lambda>k. k \<in> K) (map fst (insert_property k v ps)) = filter (\<lambda>k. k \<in> K) (map fst ps)"
  by (induction ps) auto

lemma positions_assign:
  assumes "K \<subseteq> fst ` set ps"
  shows "filter (\<lambda>k. k \<in> K) (map fst (js_assign ps k v)) = filter (\<lambda>k. k \<in> K) (map fst ps)"
proof (cases "k \<in> fst ` set ps")
  case True
  then show ?thesis unfolding js_assign_def js_put_def using map_fst_update [of k v ps] by (simp del: map_map)
next
  case False
  with assms have "k \<notin> K" by blast
  with False positions_insert [of k K v ps] show ?thesis by (simp add: js_assign_def js_put_def)
qed

lemma keys_assign: "K \<subseteq> fst ` set ps \<Longrightarrow> K \<subseteq> fst ` set (js_assign ps k v)"
  using keys_js_put [of ps k v] by (auto simp: js_assign_def)

lemma positions_add_pairs:
  "K \<subseteq> fst ` set ps \<Longrightarrow>
   filter (\<lambda>k. k \<in> K) (map fst (foldl add_pair ps pairs)) = filter (\<lambda>k. k \<in> K) (map fst ps)"
proof (induction pairs arbitrary: ps)
  case (Cons pair pairs)
  then show ?case
    using Cons.IH [OF keys_assign [OF Cons.prems]] positions_assign [OF Cons.prems] by (simp add: add_pair_def)
qed simp

lemma positions_kept:
  "filter (\<lambda>k. k \<in> fst ` set mapping) (map fst (foldl add_pair mapping pairs)) = map fst mapping"
  by (subst positions_add_pairs) (auto simp: filter_id_conv)

lemma map_of_add_pairs:
  "map_of (foldl add_pair ms pairs) =
     (map_of ms ++ map_of (rev (filter (\<lambda>p. fst p \<noteq> proto_key) pairs)))"
  by (induction pairs arbitrary: ms) (auto simp: add_pair_def js_assign_def fun_eq_iff map_add_def split: option.splits)

text \<open>
  Merging pairs into a mapping document. The merge succeeds exactly on the documents that are
  valid mappings; the text it returns is read back as the old mapping updated with the pairs in
  their order, and existing request names keep their position. A pair whose request name is
  \<open>__proto__\<close> is lost.
\<close>

theorem merge_reads_back:
  assumes "parsed_mapping document = Some mapping" and "list_all member_ok mapping" and "list_all member_ok pairs"
  shows "\<exists>result merged. mergeModelMappingPairs document pairs = Some result \<and> parsed_mapping result = Some merged
    \<and> map_of merged = map_of mapping ++ map_of (rev (filter (\<lambda>p. fst p \<noteq> proto_key) pairs))
    \<and> filter (\<lambda>k. k \<in> fst ` set mapping) (map fst merged) = map fst mapping"
proof -
  let ?merged = "foldl add_pair mapping pairs"
  have ordered: "canonical ?merged \<and> proto_key \<notin> fst ` set ?merged"
    using add_pairs_kept [OF parsed_mapping_canonical [OF assms(1)]] .
  have again: "parsed_mapping (pretty_strings ?merged) = Some ?merged"
    using parsed_mapping_pretty ordered member_ok_add_pairs [OF assms(2,3)] by simp
  have none: "parsed_mapping [] = Some []" by (simp add: parsed_mapping_def js_trim_def)
  show ?thesis
    using assms(1) again none map_of_add_pairs [of mapping pairs] positions_kept [of mapping pairs]
    by (cases "?merged = []") (auto simp: mergeModelMappingPairs_def)
qed

definition sample_document :: jsstring where
  "sample_document = js ''{'' @ json_quote (js ''a'') @ js '':'' @ json_quote (js ''b'') @ js ''}''"

theorem merge_reads_back_witness:
  "\<exists>result merged. mergeModelMappingPairs sample_document [(js ''c'', js ''d''), (js ''a'', js ''e'')] = Some result
     \<and> parsed_mapping result = Some merged \<and> map_of merged (js ''a'') = Some (js ''e'')
     \<and> map_of merged (js ''c'') = Some (js ''d'')"
proof -
  have "parsed_mapping sample_document = Some [(js ''a'', js ''b'')]"
    by code_simp
  from merge_reads_back [OF this, of "[(js ''c'', js ''d''), (js ''a'', js ''e'')]"]
  show ?thesis by (auto simp: member_ok_def units_ok_def proto_key_def)
qed

subsection \<open>Lists of models\<close>

text \<open>
  Printing a list of models and reading it back loses only repetitions, when the names are
  trimmed, not empty and have no comma; and every list that was read has such names.
\<close>

theorem models_string_roundtrip:
  "(list_all (\<lambda>m. js_trim m = m \<and> m \<noteq> [] \<and> 44 \<notin> set m) models \<longrightarrow>
     parseModelsString (formatModelsArray models) = js_unique models)
   \<and> list_all (\<lambda>m. js_trim m = m \<and> m \<noteq> [] \<and> 44 \<notin> set m) (parseModelsString s)"
proof (intro conjI impI)
  assume ok: "list_all (\<lambda>m. js_trim m = m \<and> m \<noteq> [] \<and> 44 \<notin> set m) models"
  then have trimmed: "map js_trim (js_unique models) = js_unique models"
    by (intro map_idI) (auto simp: list_all_iff)
  show "parseModelsString (formatModelsArray models) = js_unique models"
  proof (cases "js_unique models = []")
    case False
    have "js_split 44 (formatModelsArray models) = js_unique models"
      unfolding formatModelsArray_def using ok False by (intro js_split_join) (auto simp: list_all_iff)
    moreover have "formatModelsArray models \<noteq> []"
    proof
      assume "formatModelsArray models = []"
      with calculation have "js_unique models = [[]]" by simp
      then have "[] \<in> set models" by (metis js_unique_simps(1) list.set_intros(1))
      with ok show False by (auto simp: list_all_iff)
    qed
    ultimately show ?thesis using trimmed ok
      by (simp add: parseModelsString_def trimmed_parts_def list_all_iff filter_id_conv)
  qed (simp add: parseModelsString_def formatModelsArray_def)
next
  show "list_all (\<lambda>m. js_trim m = m \<and> m \<noteq> [] \<and> 44 \<notin> set m) (parseModelsString s)"
    using js_split_no_sep [of _ 44 s] set_js_trim
    by (fastforce simp: parseModelsString_def trimmed_parts_def list_all_iff)
qed

theorem models_string_roundtrip_witness:
  "parseModelsString (formatModelsArray [js ''b'', js ''a'', js ''b'']) = [js ''b'', js ''a'']"
  using models_string_roundtrip [of "[js ''b'', js ''a'', js ''b'']" "[]"]
  by (simp add: js_unique_def js_trim_def is_space_def)

end
