(* ===== verification/Http_Client.thy ===== *)
theory Http_Client
  imports Auth_Session
begin

section \<open>The HTTP client: shared requests, retries after a refresh\<close>

text \<open>
  \<open>web/src/lib/http-client.ts\<close>: the wrapper around \<open>api.get\<close> that shares requests in flight, and the
  two interceptors. axios itself, the display of errors and the navigation to the sign-in page are
  the environment: what the interceptors ask of them is listed as \<open>client_effect\<close>.
\<close>

subsection \<open>Shared GET requests\<close>

text \<open>\<open>params\<close> is the text of \<open>JSON.stringify(config.params)\<close>, when there are parameters.\<close>

definition get_key :: "session_world \<Rightarrow> jsstring \<Rightarrow> jsstring option \<Rightarrow> jsstring" where
  "get_key w url params =
     (case session_sid w of
        Some sid \<Rightarrow> if sid \<noteq> [] then sid else js ''anonymous''
      | None \<Rightarrow> js ''anonymous'')
     @ [58] @ url @ [63] @ (case params of Some p \<Rightarrow> p | None \<Rightarrow> js ''{}'')"

text \<open>The map of requests in flight, here from keys to the number of the request whose promise is
  shared, and the number of the next request.\<close>

record get_state =
  gs_in_flight :: "jsstring \<rightharpoonup> nat"
  gs_next :: nat

definition api_get ::
  "bool \<Rightarrow> session_world \<Rightarrow> jsstring \<Rightarrow> jsstring option \<Rightarrow> get_state \<Rightarrow> nat \<times> get_state" where
  "api_get disable_duplicate w url params st =
     (if disable_duplicate then (gs_next st, st\<lparr>gs_next := gs_next st + 1\<rparr>)
      else (case gs_in_flight st (get_key w url params) of
              Some request \<Rightarrow> (request, st)
            | None \<Rightarrow>
                (gs_next st, st\<lparr>gs_next := gs_next st + 1,
                  gs_in_flight := (gs_in_flight st)(get_key w url params \<mapsto> gs_next st)\<rparr>)))"

text \<open>The \<open>finally\<close> handler of a request that ended.\<close>

definition get_finished :: "jsstring \<Rightarrow> get_state \<Rightarrow> get_state" where
  "get_finished key st = st\<lparr>gs_in_flight := (gs_in_flight st)(key := None)\<rparr>"

subsection \<open>The interceptors\<close>

record request_config =
  rc_skip_error_handler :: bool
  rc_skip_auth_refresh :: bool
  rc_auth_retry :: bool
  rc_accept_rotation :: bool
  rc_single_use :: bool
  rc_headers :: "(jsstring \<times> jsstring) list"

text \<open>Setting a header replaces one of that name, whatever its case, as the headers of axios do.\<close>

definition set_header :: "jsstring \<Rightarrow> jsstring \<Rightarrow> request_config \<Rightarrow> request_config" where
  "set_header name v config =
     config\<lparr>rc_headers := filter (\<lambda>h. js_lower (fst h) \<noteq> js_lower name) (rc_headers config) @ [(name, v)]\<rparr>"

text \<open>The response interceptor on success.\<close>

definition on_response :: "request_config \<Rightarrow> jsval \<Rightarrow> session_world \<Rightarrow> rotation_error + session_world" where
  "on_response config data w =
     (if rc_accept_rotation config \<and> js_get data (js ''success'') = VBool True
      then applyAuthRotation (js_get data (js ''data'')) w else Inr w)"









subsection \<open>Lemmas\<close>

lemma set_header_flags [simp]:
  "rc_skip_auth_refresh (set_header n v c) = rc_skip_auth_refresh c"
  "rc_auth_retry (set_header n v c) = rc_auth_retry c"
  "rc_skip_error_handler (set_header n v c) = rc_skip_error_handler c"
  "rc_single_use (set_header n v c) = rc_single_use c"
  by (simp_all add: set_header_def)


lemma map_of_set_header [simp]: "map_of (rc_headers (set_header n v c)) n = Some v"
proof -
  have "map_of (filter (\<lambda>h. js_lower (fst h) \<noteq> js_lower n) hs) n = None"
    for hs :: "(jsstring \<times> jsstring) list"
    by (induction hs) auto
  then show ?thesis by (simp add: set_header_def map_add_def)
qed



lemma first_colon:
  "58 \<notin> set a \<Longrightarrow> 58 \<notin> set b \<Longrightarrow> a @ 58 # x = b @ 58 # y \<Longrightarrow> a = b \<and> x = y"
  for a b x y :: jsstring
  using split_first_Some [of 58 "a @ 58 # x" a x] split_first_Some [of 58 "a @ 58 # x" b y] by auto

definition key_owner :: "session_world \<Rightarrow> jsstring" where
  "key_owner w =
     (case session_sid w of
        Some sid \<Rightarrow> if sid \<noteq> [] then sid else js ''anonymous''
      | None \<Rightarrow> js ''anonymous'')"

text \<open>Every shared request was made under the owner that its key names.\<close>

definition shares_ok :: "(nat \<rightharpoonup> jsstring) \<Rightarrow> get_state \<Rightarrow> bool" where
  "shares_ok owner st \<longleftrightarrow>
     (\<forall>key request. gs_in_flight st key = Some request \<longrightarrow>
        request < gs_next st \<and> (\<exists>sid rest. owner request = Some sid \<and> 58 \<notin> set sid \<and> key = sid @ 58 # rest))"

lemma get_key_owner: "\<exists>rest. get_key w url params = key_owner w @ 58 # rest"
  by (simp add: get_key_def key_owner_def)

text \<open>
  C23: a GET is never answered by the request of another session. When the session ids have no
  colon, two calls share a request only if they were made under the same session id, and a call
  shares the request in flight for its key.
\<close>

theorem get_sharing_respects_session:
  assumes "shares_ok owner st" and "58 \<notin> set (key_owner w)"
    and "api_get disable_duplicate w url params st = (request, st')"
  shows "(if request < gs_next st then owner request = Some (key_owner w)
           \<and> gs_in_flight st (get_key w url params) = Some request else request = gs_next st)
    \<and> shares_ok (owner(request \<mapsto> key_owner w)) st' \<and> shares_ok (owner(request \<mapsto> key_owner w)) (get_finished key st')"
proof -
  obtain rest where key: "get_key w url params = key_owner w @ 58 # rest" using get_key_owner by blast
  have shared: "owner r = Some (key_owner w) \<and> r < gs_next st" if "gs_in_flight st (get_key w url params) = Some r" for r
    using assms(1) that first_colon [OF _ assms(2)] unfolding shares_ok_def key by metis
  have result: "(if request < gs_next st then owner request = Some (key_owner w)
           \<and> gs_in_flight st (get_key w url params) = Some request else request = gs_next st)"
    using assms(3) shared by (auto simp: api_get_def split: if_splits option.splits)
  have "shares_ok (owner(request \<mapsto> key_owner w)) st'"
  proof (cases "request < gs_next st")
    case True
    with assms(3) have "st' = st" by (auto simp: api_get_def split: if_splits option.splits)
    with True result have "owner(request \<mapsto> key_owner w) = owner" by (auto simp: fun_eq_iff)
    with assms(1) \<open>st' = st\<close> show ?thesis by simp
  next
    case False
    with result have request: "request = gs_next st" by simp
    with assms(3) shared have next_state: "gs_next st' = gs_next st + 1"
      by (auto simp: api_get_def split: if_splits option.splits)
    show ?thesis
      unfolding shares_ok_def
    proof (intro allI impI)
      fix k r
      assume k: "gs_in_flight st' k = Some r"
      show "r < gs_next st' \<and> (\<exists>sid rest. (owner(request \<mapsto> key_owner w)) r = Some sid \<and> 58 \<notin> set sid
          \<and> k = sid @ 58 # rest)"
      proof (cases "gs_in_flight st k = Some r")
        case True
        with assms(1) have old: "r < gs_next st" "\<exists>sid rest. owner r = Some sid \<and> 58 \<notin> set sid \<and> k = sid @ 58 # rest"
          by (simp_all add: shares_ok_def)
        with request next_state show ?thesis by simp
      next
        case False
        with assms(3) k have "k = get_key w url params" "r = request"
          by (auto simp: api_get_def split: if_splits option.splits)
        with key assms(2) request next_state show ?thesis by simp
      qed
    qed
  qed
  then show ?thesis using result by (simp add: shares_ok_def get_finished_def)
qed

theorem get_sharing_respects_session_witness:
  "\<exists>request st'. api_get False signed_in_world (js ''/api/user'') None \<lparr>gs_in_flight = Map.empty, gs_next = 0\<rparr>
       = (request, st')
     \<and> request = 0 \<and> shares_ok [request \<mapsto> js ''s1''] st'"
proof -
  let ?st = "\<lparr>gs_in_flight = Map.empty, gs_next = 0\<rparr> :: get_state"
  obtain request st' where get: "api_get False signed_in_world (js ''/api/user'') None ?st = (request, st')"
    by (cases "api_get False signed_in_world (js ''/api/user'') None ?st")
  have owner: "key_owner signed_in_world = js ''s1''" by code_simp
  have "shares_ok Map.empty ?st" by (simp add: shares_ok_def)
  from get_sharing_respects_session [OF this _ get] owner get show ?thesis by auto
qed

end
