(* ===== verification/Admin_Permissions.thy ===== *)
theory Admin_Permissions
  imports Auth_Store Js_Json "HOL-Library.List_Lexorder"
begin

section \<open>Administrator permissions\<close>

text \<open>
  \<open>web/src/lib/admin-permissions.ts\<close>: the permission check, the baseline of a role, the completion of
  a permission matrix over the catalogue, and the two conversions between a matrix and scope keys
  such as \<open>channel:read\<close>. A matrix is an object of objects, kept as property lists; the sort of the
  scopes is the lexicographic order of their code units, which is the list order of the library. The
  resources and actions of the catalogue come from the backend; the lookups are those of own
  properties.
\<close>

subsection \<open>Model\<close>

type_synonym permission_matrix = "(jsstring \<times> (jsstring \<times> bool) list) list"

record permission_action =
  pa_action :: jsstring
  pa_label_key :: jsstring
  pa_description_key :: jsstring

record permission_resource =
  pr_resource :: jsstring
  pr_label_key :: jsstring
  pr_actions :: "permission_action list"

record permission_role =
  ro_key :: jsstring
  ro_name :: jsstring
  ro_built_in :: bool
  ro_superuser :: bool
  ro_grants :: permission_matrix

record permission_catalog =
  pc_resources :: "permission_resource list"
  pc_roles :: "permission_role list"

definition SUPER_ADMIN :: jsnum where
  "SUPER_ADMIN = JFin 100"

definition ADMIN_ROLE_KEY :: jsstring where
  "ADMIN_ROLE_KEY = js ''admin''"

definition EMPTY_PERMISSION_CATALOG :: permission_catalog where
  "EMPTY_PERMISSION_CATALOG = \<lparr>pc_resources = [], pc_roles = []\<rparr>"

definition hasPermission :: "auth_user option \<Rightarrow> jsstring \<Rightarrow> jsstring \<Rightarrow> bool" where
  "hasPermission user resource action =
     (case user of
        None \<Rightarrow> False
      | Some u \<Rightarrow>
          if js_num_eq (au_role u) SUPER_ADMIN then True
          else js_get (js_get (js_get (js_get (au_object u) (js ''permissions'')) (js ''admin_permissions''))
                 resource) action = VBool True)"

definition roleGrants :: "permission_catalog \<Rightarrow> jsstring \<Rightarrow> permission_matrix" where
  "roleGrants catalog key =
     (case find (\<lambda>role. ro_key role = key) (pc_roles catalog) of Some role \<Rightarrow> ro_grants role | None \<Rightarrow> [])"

text \<open>\<open>matrix?.[resource]?.[action]\<close>\<close>

definition cell :: "permission_matrix \<Rightarrow> jsstring \<Rightarrow> jsstring \<Rightarrow> bool option" where
  "cell matrix resource action =
     (case map_of matrix resource of None \<Rightarrow> None | Some actions \<Rightarrow> map_of actions action)"

definition normalized_cell ::
  "permission_matrix option \<Rightarrow> permission_matrix \<Rightarrow> jsstring \<Rightarrow> jsstring \<Rightarrow> bool" where
  "normalized_cell given baseline resource action =
     (case (case given of None \<Rightarrow> None | Some matrix \<Rightarrow> cell matrix resource action) of
        Some granted \<Rightarrow> granted
      | None \<Rightarrow> (case cell baseline resource action of Some granted \<Rightarrow> granted | None \<Rightarrow> False))"

definition normalized_row ::
  "permission_matrix option \<Rightarrow> permission_matrix \<Rightarrow> permission_resource \<Rightarrow> (jsstring \<times> bool) list" where
  "normalized_row given baseline resource =
     foldl (\<lambda>row a. js_assign row (pa_action a) (normalized_cell given baseline (pr_resource resource) (pa_action a)))
       [] (pr_actions resource)"

definition normalizeAdminPermissions ::
  "permission_matrix option \<Rightarrow> permission_catalog \<Rightarrow> permission_matrix" where
  "normalizeAdminPermissions given catalog =
     foldl (\<lambda>matrix resource. js_assign matrix (pr_resource resource)
              (normalized_row given (roleGrants catalog ADMIN_ROLE_KEY) resource))
       [] (pc_resources catalog)"

definition scope_key :: "jsstring \<Rightarrow> jsstring \<Rightarrow> jsstring" where
  "scope_key resource action = resource @ 58 # action"

definition row_scopes :: "jsstring \<times> (jsstring \<times> bool) list \<Rightarrow> jsstring list" where
  "row_scopes row = map (\<lambda>a. scope_key (fst row) (fst a)) (filter snd (snd row))"

definition permissionMatrixToScopes :: "permission_matrix \<Rightarrow> jsstring list" where
  "permissionMatrixToScopes matrix = sort (concat (map row_scopes matrix))"

text \<open>Spreading an absent row gives no properties; the assignment to \<open>__proto__\<close> makes no row.\<close>

definition add_scope :: "permission_matrix \<Rightarrow> jsstring \<Rightarrow> permission_matrix" where
  "add_scope matrix scope =
     (case split_first 58 scope of
        None \<Rightarrow> matrix
      | Some (resource, action) \<Rightarrow>
          if resource = [] then matrix
          else js_assign matrix resource
                 (js_put (case map_of matrix resource of Some row \<Rightarrow> row | None \<Rightarrow> []) action True))"

definition scopesToPermissionMatrix :: "jsstring list \<Rightarrow> permission_matrix" where
  "scopesToPermissionMatrix scopes = foldl add_scope [] scopes"

subsection \<open>Scopes and matrices\<close>

definition granted :: "permission_matrix \<Rightarrow> jsstring \<Rightarrow> jsstring \<Rightarrow> bool" where
  "granted matrix resource action \<longleftrightarrow> cell matrix resource action = Some True"

text \<open>The resource names that survive as rows.\<close>

definition resource_ok :: "jsstring \<Rightarrow> bool" where
  "resource_ok resource \<longleftrightarrow> resource \<noteq> [] \<and> 58 \<notin> set resource \<and> resource \<noteq> proto_key"

definition scope_ok :: "jsstring \<Rightarrow> bool" where
  "scope_ok scope = (case split_first 58 scope of None \<Rightarrow> False | Some (resource, action) \<Rightarrow> resource_ok resource)"

definition matrix_ok :: "permission_matrix \<Rightarrow> bool" where
  "matrix_ok matrix \<longleftrightarrow> distinct (map fst matrix) \<and> (\<forall>row \<in> set matrix. distinct (map fst (snd row)) \<and> resource_ok (fst row))"

lemma split_scope_key: "58 \<notin> set resource \<Longrightarrow> split_first 58 (scope_key resource action) = Some (resource, action)"
  by (simp add: split_first_Some scope_key_def)

lemma scope_key_inject:
  "58 \<notin> set r \<Longrightarrow> 58 \<notin> set r' \<Longrightarrow> scope_key r a = scope_key r' a' \<longleftrightarrow> r = r' \<and> a = a'"
  by (metis Pair_inject option.inject split_scope_key)

lemma add_scope_split:
  assumes "split_first 58 scope = Some (resource, action)"
  shows "add_scope matrix scope =
    (if resource_ok resource
     then js_put matrix resource (js_put (case map_of matrix resource of Some row \<Rightarrow> row | None \<Rightarrow> []) action True)
     else matrix)"
proof -
  from assms have "58 \<notin> set resource" by (simp add: split_first_Some)
  with assms show ?thesis by (auto simp: add_scope_def resource_ok_def js_assign_def)
qed

lemma granted_put:
  "granted (js_put matrix r (js_put (case map_of matrix r of Some row \<Rightarrow> row | None \<Rightarrow> []) a True)) r' a' \<longleftrightarrow>
     granted matrix r' a' \<or> r = r' \<and> a = a'"
  by (auto simp: granted_def cell_def split: option.splits if_splits)

lemma granted_add_scope:
  "granted (add_scope matrix scope) r a \<longleftrightarrow> granted matrix r a \<or> resource_ok r \<and> scope = scope_key r a"
proof (cases "split_first 58 scope")
  case None
  then have "58 \<notin> set scope" by (simp add: split_first_None)
  then show ?thesis by (auto simp: add_scope_def None scope_key_def)
next
  case (Some p)
  obtain resource action where p: "p = (resource, action)" by (cases p)
  have "scope = scope_key resource action" "58 \<notin> set resource"
    using Some p by (auto simp: split_first_Some scope_key_def)
  then show ?thesis
    using add_scope_split [of scope resource action matrix] Some p scope_key_inject [of resource r action a]
    by (auto simp: granted_put resource_ok_def)
qed

lemma granted_add_scopes:
  "granted (foldl add_scope matrix scopes) r a \<longleftrightarrow> granted matrix r a \<or> resource_ok r \<and> scope_key r a \<in> set scopes"
  by (induction scopes arbitrary: matrix) (auto simp: granted_add_scope)

lemma granted_scopes: "granted (scopesToPermissionMatrix scopes) r a \<longleftrightarrow> resource_ok r \<and> scope_key r a \<in> set scopes"
  by (simp add: scopesToPermissionMatrix_def granted_add_scopes) (simp add: granted_def cell_def)

lemma matrix_ok_put:
  assumes "matrix_ok matrix" "resource_ok r"
  shows "matrix_ok (js_put matrix r (js_put (case map_of matrix r of Some row \<Rightarrow> row | None \<Rightarrow> []) a True))"
proof -
  have "distinct (map fst (js_put (case map_of matrix r of Some row \<Rightarrow> row | None \<Rightarrow> []) a True))"
    using assms(1) by (auto intro!: distinct_js_put simp: matrix_ok_def dest!: map_of_SomeD split: option.split)
  moreover have "set (js_put matrix r row) \<subseteq> insert (r, row) (set matrix)" for row
    by (auto simp: js_put_def set_insert_property)
  ultimately show ?thesis using assms distinct_js_put [of matrix r] by (fastforce simp: matrix_ok_def)
qed

lemma matrix_ok_add_scope: "matrix_ok matrix \<Longrightarrow> matrix_ok (add_scope matrix scope)"
proof (cases "split_first 58 scope")
  case (Some p)
  assume ok: "matrix_ok matrix"
  obtain resource action where p: "p = (resource, action)" by (cases p)
  from add_scope_split [of scope resource action matrix] Some p ok matrix_ok_put [OF ok] show ?thesis by simp
qed (simp add: add_scope_def)

lemma matrix_ok_scopes: "matrix_ok (scopesToPermissionMatrix scopes)"
proof -
  have "matrix_ok matrix \<Longrightarrow> matrix_ok (foldl add_scope matrix scopes)" for matrix
    by (induction scopes arbitrary: matrix) (auto simp: matrix_ok_add_scope)
  from this [of "[]"] show ?thesis by (simp add: scopesToPermissionMatrix_def) (simp add: matrix_ok_def)
qed

lemma granted_member:
  assumes "matrix_ok matrix"
  shows "granted matrix r a \<longleftrightarrow> (\<exists>row. (r, row) \<in> set matrix \<and> (a, True) \<in> set row)"
proof -
  have rows: "distinct (map fst matrix)" using assms by (simp add: matrix_ok_def)
  have row: "distinct (map fst row)" if "(r, row) \<in> set matrix" for row
    using assms that by (auto simp: matrix_ok_def)
  show ?thesis
  proof (cases "map_of matrix r")
    case None
    then have "(r, row) \<notin> set matrix" for row by (force simp: map_of_eq_None_iff)
    with None show ?thesis by (simp add: granted_def cell_def)
  next
    case (Some actions)
    with rows have "(r, row) \<in> set matrix \<longleftrightarrow> row = actions" for row
      by (metis map_of_SomeD map_of_is_SomeI option.inject)
    with Some row show ?thesis by (simp add: granted_def cell_def)
  qed
qed

lemma set_to_scopes:
  assumes "matrix_ok matrix"
  shows "set (permissionMatrixToScopes matrix) = {scope_key r a |r a. granted matrix r a}"
proof -
  have "set (permissionMatrixToScopes matrix) =
      {scope_key r a |r a. \<exists>row. (r, row) \<in> set matrix \<and> (a, True) \<in> set row}"
    by (force simp: permissionMatrixToScopes_def row_scopes_def)
  then show ?thesis by (simp add: granted_member [OF assms])
qed

lemma distinct_to_scopes: "matrix_ok matrix \<Longrightarrow> distinct (permissionMatrixToScopes matrix)"
proof -
  have "distinct (concat (map row_scopes matrix))" if "matrix_ok matrix"
    using that
  proof (induction matrix)
    case (Cons row matrix)
    then have ok: "matrix_ok matrix" "distinct (map fst (snd row))" "58 \<notin> set (fst row)" "fst row \<notin> fst ` set matrix"
      "\<forall>row \<in> set matrix. 58 \<notin> set (fst row)"
      by (auto simp: matrix_ok_def resource_ok_def)
    have "distinct (map fst (filter snd (snd row)))" using ok(2) by (rule distinct_map_filter)
    then have "distinct (row_scopes row)"
      unfolding row_scopes_def using ok(3) by (auto simp: distinct_map inj_on_def scope_key_inject)
    moreover have "set (row_scopes row) \<inter> set (concat (map row_scopes matrix)) = {}"
    proof -
      have "scope_key (fst row) a \<noteq> scope_key (fst other) b" if "other \<in> set matrix" for other a b
        using ok(3-5) that scope_key_inject [of "fst row" "fst other" a b] by (metis image_eqI)
      then show ?thesis unfolding row_scopes_def by auto
    qed
    ultimately show ?case using Cons.IH [OF ok(1)] by simp
  qed simp
  then show "matrix_ok matrix \<Longrightarrow> ?thesis" by (simp add: permissionMatrixToScopes_def)
qed

text \<open>
  Scopes and matrices are two forms of the same grants. Reading the scopes of a matrix back
  gives a matrix that grants exactly the same cells; and the scopes of the matrix of a list of
  scopes are its well-formed scopes, sorted and without repetitions.
\<close>

theorem scopes_roundtrip:
  "(matrix_ok matrix \<longrightarrow>
      (\<forall>resource action. granted (scopesToPermissionMatrix (permissionMatrixToScopes matrix)) resource action
         \<longleftrightarrow> granted matrix resource action))
   \<and> permissionMatrixToScopes (scopesToPermissionMatrix scopes) = sort (remdups (filter scope_ok scopes))"
proof (intro conjI impI allI)
  fix resource action
  assume ok: "matrix_ok matrix"
  have row: "resource_ok r" if "granted matrix r a" for r a
    using ok that by (auto simp: granted_member matrix_ok_def)
  show "granted (scopesToPermissionMatrix (permissionMatrixToScopes matrix)) resource action
      \<longleftrightarrow> granted matrix resource action"
    using row scope_key_inject by (auto simp: granted_scopes set_to_scopes [OF ok] resource_ok_def)
next
  have "scope_key r a \<in> set scopes \<and> resource_ok r \<longleftrightarrow> scope_key r a \<in> set (filter scope_ok scopes) \<and> resource_ok r" for r a
    by (auto simp: scope_ok_def split_scope_key resource_ok_def)
  moreover have "\<exists>r a. scope = scope_key r a \<and> resource_ok r" if "scope_ok scope" for scope
    using that by (fastforce simp: scope_ok_def split_first_Some scope_key_def split: option.splits)
  ultimately have "set (permissionMatrixToScopes (scopesToPermissionMatrix scopes)) = set (filter scope_ok scopes)"
    unfolding set_to_scopes [OF matrix_ok_scopes] granted_scopes by auto blast+
  moreover have "distinct (permissionMatrixToScopes (scopesToPermissionMatrix scopes))"
    by (rule distinct_to_scopes [OF matrix_ok_scopes])
  ultimately show "permissionMatrixToScopes (scopesToPermissionMatrix scopes) = sort (remdups (filter scope_ok scopes))"
    by (intro sorted_distinct_set_unique) (auto simp: permissionMatrixToScopes_def)
qed

theorem scopes_roundtrip_witness:
  "granted (scopesToPermissionMatrix (permissionMatrixToScopes
     [(js ''audit'', [(js ''read'', True), (js ''write'', False)])])) (js ''audit'') (js ''read'')
   \<and> \<not> granted (scopesToPermissionMatrix (permissionMatrixToScopes
     [(js ''audit'', [(js ''read'', True), (js ''write'', False)])])) (js ''audit'') (js ''write'')"
  using scopes_roundtrip [of "[(js ''audit'', [(js ''read'', True), (js ''write'', False)])]" "[]"]
  by (simp add: matrix_ok_def resource_ok_def proto_key_def granted_def cell_def)

subsection \<open>The completed matrix\<close>

lemma map_of_assigns:
  "map_of (foldl (\<lambda>ps x. js_assign ps (f x) (g x)) ps xs) k =
     (case map_of (rev (map (\<lambda>x. (f x, g x)) (filter (\<lambda>x. f x \<noteq> proto_key) xs))) k of
        Some v \<Rightarrow> Some v | None \<Rightarrow> map_of ps k)"
  by (induction xs arbitrary: ps) (auto simp: js_assign_def map_add_def split: option.splits)

lemma map_of_rev_same:
  "(\<And>x. x \<in> set xs \<Longrightarrow> f x = k \<Longrightarrow> g x = v) \<Longrightarrow>
   map_of (rev (map (\<lambda>x. (f x, g x)) xs)) k = (if k \<in> f ` set xs then Some v else None)"
  by (induction xs) (auto simp: map_add_def split: option.splits)

lemma normalized_row_cell:
  "map_of (normalized_row given baseline resource) action =
     (if action \<in> pa_action ` set (pr_actions resource) \<and> action \<noteq> proto_key
      then Some (normalized_cell given baseline (pr_resource resource) action) else None)"
  unfolding normalized_row_def map_of_assigns
  by (subst map_of_rev_same [where v = "normalized_cell given baseline (pr_resource resource) action"]) auto

definition catalog_ok :: "permission_catalog \<Rightarrow> bool" where
  "catalog_ok catalog \<longleftrightarrow>
     distinct (map pr_resource (pc_resources catalog)) \<and> proto_key \<notin> pr_resource ` set (pc_resources catalog)
     \<and> (\<forall>resource \<in> set (pc_resources catalog). proto_key \<notin> pa_action ` set (pr_actions resource))"

definition in_catalog :: "permission_catalog \<Rightarrow> jsstring \<Rightarrow> jsstring \<Rightarrow> bool" where
  "in_catalog catalog resource action \<longleftrightarrow>
     (\<exists>r \<in> set (pc_resources catalog). pr_resource r = resource \<and> action \<in> pa_action ` set (pr_actions r))"

lemma normalized_matrix_cell:
  assumes "catalog_ok catalog"
  shows "cell (normalizeAdminPermissions given catalog) resource action =
    (if in_catalog catalog resource action
     then Some (normalized_cell given (roleGrants catalog ADMIN_ROLE_KEY) resource action) else None)"
proof (cases "resource \<in> pr_resource ` set (pc_resources catalog)")
  case True
  then obtain r where r: "r \<in> set (pc_resources catalog)" "pr_resource r = resource" by auto
  have same: "x = r" if "x \<in> set (pc_resources catalog)" "pr_resource x = resource" for x
    using assms that r by (metis catalog_ok_def distinct_map inj_onD)
  let ?row = "normalized_row given (roleGrants catalog ADMIN_ROLE_KEY)"
  let ?rows = "filter (\<lambda>x. pr_resource x \<noteq> proto_key) (pc_resources catalog)"
  have plain: "proto_key \<noteq> resource" "proto_key \<notin> pa_action ` set (pr_actions r)"
    using assms r by (auto simp: catalog_ok_def)
  have "map_of (rev (map (\<lambda>x. (pr_resource x, ?row x)) ?rows)) resource =
      (if resource \<in> pr_resource ` set ?rows then Some (?row r) else None)"
    by (rule map_of_rev_same) (use same in auto)
  moreover have "resource \<in> pr_resource ` set ?rows" using r plain(1) by auto
  ultimately have "map_of (normalizeAdminPermissions given catalog) resource = Some (?row r)"
    unfolding normalizeAdminPermissions_def map_of_assigns by simp
  moreover have "in_catalog catalog resource action \<longleftrightarrow> action \<in> pa_action ` set (pr_actions r)"
    unfolding in_catalog_def using r same by blast
  ultimately show ?thesis using r(2) plain(2) by (auto simp: cell_def normalized_row_cell)
next
  case False
  then have "map_of (normalizeAdminPermissions given catalog) resource = None"
    unfolding normalizeAdminPermissions_def map_of_assigns by (subst map_of_rev_same) auto
  with False show ?thesis by (auto simp: cell_def in_catalog_def)
qed

text \<open>
  The completed matrix has exactly the cells of the catalogue. A cell that was given keeps its
  value, another one takes the baseline of the administrator role, or false; completing a completed
  matrix changes no cell.
\<close>

theorem normalized_permissions:
  assumes "catalog_ok catalog"
  shows "cell (normalizeAdminPermissions given catalog) resource action =
      (if in_catalog catalog resource action
       then Some (case Option.bind given (\<lambda>matrix. cell matrix resource action) of
          Some allowed \<Rightarrow> allowed
        | None \<Rightarrow> cell (roleGrants catalog ADMIN_ROLE_KEY) resource action = Some True)
       else None)
    \<and> cell (normalizeAdminPermissions (Some (normalizeAdminPermissions given catalog)) catalog) resource action
      = cell (normalizeAdminPermissions given catalog) resource action"
proof -
  have base: "normalized_cell given baseline resource action =
      (case Option.bind given (\<lambda>matrix. cell matrix resource action) of
          Some allowed \<Rightarrow> allowed | None \<Rightarrow> cell baseline resource action = Some True)" for baseline
    by (cases given) (auto simp: normalized_cell_def split: option.splits)
  have again: "normalized_cell (Some (normalizeAdminPermissions given catalog)) baseline resource action =
      normalized_cell given (roleGrants catalog ADMIN_ROLE_KEY) resource action"
    if "in_catalog catalog resource action" for baseline
    using that by (simp add: normalized_cell_def [of "Some _"] normalized_matrix_cell [OF assms])
  show ?thesis
    by (simp only: normalized_matrix_cell [OF assms] again base cong: if_cong)
qed

definition sample_catalog :: permission_catalog where
  "sample_catalog = \<lparr>pc_resources = [\<lparr>pr_resource = js ''channel'', pr_label_key = [], pr_actions =
       [\<lparr>pa_action = js ''read'', pa_label_key = [], pa_description_key = []\<rparr>,
        \<lparr>pa_action = js ''write'', pa_label_key = [], pa_description_key = []\<rparr>]\<rparr>],
     pc_roles = [\<lparr>ro_key = js ''admin'', ro_name = js ''Admin'', ro_built_in = True, ro_superuser = False,
       ro_grants = [(js ''channel'', [(js ''read'', True)])]\<rparr>]\<rparr>"

theorem normalized_permissions_witness:
  "cell (normalizeAdminPermissions (Some [(js ''channel'', [(js ''write'', True)])]) sample_catalog)
     (js ''channel'') (js ''write'') = Some True
   \<and> cell (normalizeAdminPermissions (Some [(js ''channel'', [(js ''write'', True)])]) sample_catalog)
     (js ''channel'') (js ''read'') = Some True"
proof -
  have "catalog_ok sample_catalog" by (simp add: catalog_ok_def sample_catalog_def proto_key_def)
  from normalized_permissions [OF this, of "Some [(js ''channel'', [(js ''write'', True)])]" "js ''channel''"]
  show ?thesis by (simp add: in_catalog_def sample_catalog_def cell_def roleGrants_def ADMIN_ROLE_KEY_def)
qed

end
