(* ===== verification/Spec2Isabelle.thy ===== *)
theory Spec2Isabelle
  imports Update_Tasks Oauth_Popup Secure_Verification Session_Tabs Channel_Routes Chat_Delivery Storage_Bounds Stream_Controller Condition_Display Task_Matrix Flow_Sankey Visual_Lossless Http_Status_Rules Model_Mapping Http_Client Admin_Permissions
begin

text \<open>
  Verification of the TypeScript core of the web client of newapi, a gateway that bills calls of
  language models. The repository has a Go server and, under \<open>src/web/src\<close>, the client whose
  programs are modelled here: what the client computes by itself, not what it renders.

  \<^bold>\<open>The program's parts.\<close> A model's price is a \<^emph>\<open>billing expression\<close>, a small language of token
  counts, conditions, tiers and request rules. The client parses, checks, simulates and displays
  such expressions and lets an administrator edit them in a form. Beside it the client keeps the
  \<^emph>\<open>session\<close> of the user, with a token that it refreshes in the background and attaches to its
  requests, and has pure components that read and write the settings of channels, permissions and
  status code rules. The components meet at few places: the displays, the rule editor and the
  visual editor call the parser and the evaluator, and the HTTP client calls the session.

  \<^bold>\<open>The language.\<close> \<open>Js_Prelude\<close> has results that may be errors and strings as lists of code units;
  \<open>Js_Number\<close> the IEEE double numbers as rationals with rounding; \<open>Js_Value\<close>, \<open>Js_Text\<close>, \<open>Js_Date\<close> and
  \<open>Js_Json\<close> values, conversion between numbers and texts, calendar dates, and JSON. \<open>Js_Number_Text\<close>
  proves that a printed number is read back as itself.

  \<^bold>\<open>Billing expressions\<close> (\<open>features/pricing/lib/billing-expression\<close>).
  \<^item> \<open>Billing_Types\<close> (\<open>types.ts\<close>): trees with source spans, diagnostics, the bounded traversal, shown
    to be the fold over the post-order.
  \<^item> \<open>Billing_Lexer\<close>, \<open>Billing_Parser\<close> (\<open>parser.ts\<close>): the lexer and the precedence parser. The parser
    recurses on a fuel of three steps per character, and \<open>Billing_Spans\<close> proves that it never runs
    out and that nodes are told apart by their spans. \<open>Billing_Literals\<close>: the number literals of a
    tree are finite and not negative.
  \<^item> \<open>Billing_Compile\<close> (\<open>parser.ts\<close>): type check, fixed prices, request rules, the cache of 128
    compilations. Soundness of the type check, contents of a compilation, transparency of the cache
    by the locale of memoised functions.
  \<^item> \<open>Billing_Runtime\<close>, \<open>Billing_Evaluate\<close> (\<open>runtime.ts\<close>): paths into the request, zone times, the
    evaluator with its trace. Costs are finite and not negative, values have their static types,
    failures carry their diagnosis, decisions taken from the time alone are stable.
  \<^item> \<open>Billing_Structure\<close> (\<open>structure.ts\<close>): splitting at an operator and removing parentheses.
  \<^item> \<open>Billing_Display\<close>, \<open>Billing_Task_Tiers\<close> (\<open>display.ts\<close>): price tables of an expression, shown to
    select the tier that the evaluator charges.
  \<^item> \<open>Visual_Document\<close> (\<open>visual.ts\<close>): the document of the visual editor. \<open>Visual_Lossless\<close> proves that
    an unchanged document is written as its source and that edits are woven into it.
  \<^item> \<open>Request_Rules\<close> (\<open>billing-expr.ts\<close>): the rule editor's reader and writer. \<open>Rules_Roundtrip\<close> proves
    that readable rules are read back, and that comparisons of request parameters are not.
  \<^item> \<open>Billing_Rules\<close> (\<open>billing-expr.ts\<close>): the registry of variables, the tables of an expression, and its
    separation into price and request rules, shown to undo their combination.
  \<^item> \<open>Task_Config\<close> (\<open>task-expr.ts\<close>): the matrix and the tier editor of task prices with the preview.
    \<open>Task_Matrix\<close> proves that a complete matrix is read back from its tiers.
  \<^item> \<open>Condition_Display\<close> (\<open>condition-display.ts\<close>): conditions in words; time ranges are shown exact.

  \<^bold>\<open>Session.\<close> \<open>Auth_Store\<close> (\<open>stores/auth-store.ts\<close>, \<open>lib/session-hint.ts\<close>) is the store with its
  operations; \<open>Auth_Session\<close> (\<open>lib/auth-session.ts\<close>) the refresh as a step relation \<open>auth_step\<close> whose
  steps are the answers of the server and the actions of the page. The locale \<open>refresh_contract\<close>
  states what the refresh needs of its runtime and is interpreted on the browser's. Reachable states
  keep their credentials consistent, a superseded refresh changes nothing, and a refresh settles
  after at most fifteen answers. \<open>Session_Tabs\<close> (\<open>lib/auth-session-sync.ts\<close>, the listener of
  \<open>routes/__root.tsx\<close>) puts several such machines side by side, with inboxes: the locale
  \<open>sync_transport\<close> states what a transport of events promises and is interpreted on the broadcast
  channel and on the storage, and a sign-out is shown to reach all tabs. \<open>Http_Client\<close> (\<open>lib/http-client.ts\<close>) has the interceptors and the
  sharing of requests in flight.

  \<^bold>\<open>Verification.\<close> \<open>Secure_Verification\<close> (\<open>features/auth/secure-verification\<close>) is the dialog that asks for a
  second factor before a sensitive operation or at a login: its reducer, the hook with its pending
  request and awaited calls as a step relation, and the checks of proofs. Reachable states keep dialog
  and pending request in step, settle every other request and hold no secret longer than needed, and
  a caller gets only a proof for its own request.
  \<open>Oauth_Popup\<close> (\<open>features/auth/lib\<close>) is the window in which a provider authorises: its promise is
  resolved only by a message that names the state of the authorisation, and it cleans up.

  \<^bold>\<open>Settings.\<close> \<open>Http_Status_Rules\<close> (\<open>lib/http-status-code-rules.ts\<close>), \<open>Model_Mapping\<close>
  (\<open>features/channels/lib/model-mapping-rules.ts\<close>, \<open>model-mapping-validation.ts\<close>) and
  \<open>Admin_Permissions\<close> (\<open>lib/admin-permissions.ts\<close>): functional behaviour and round trips.
  \<open>Channel_Routes\<close> (\<open>features/channels/lib/advanced-custom.ts\<close>) has the routes of a custom channel and
  proves that their validation accepts exactly the routes that a declarative predicate describes, that
  the templates are valid and that replacing one kind of routes keeps the other.
  \<open>Update_Tasks\<close> (\<open>features/channels/hooks/use-channel-upstream-updates.ts\<close>) follows the task that updates
  the models of all channels, with polling, recovery and cancellation as the step relation \<open>task_step\<close>:
  the hook settles when nothing is in flight, except for the flag of a detection, which can stay set.

  \<^bold>\<open>Dashboard.\<close> \<open>Js_Collections\<close> has stable sorting and the locale \<open>tally\<close> of maps that add up rows.
  \<open>Flow_Graph\<close> (\<open>features/dashboard/lib/flow.ts\<close>) turns usage rows into nodes and links of a chart;
  \<open>Flow_Conservation\<close> interprets the locale on both and proves that the chart conserves its amounts and
  adds up to the summary. \<open>Flow_Sankey\<close> has the data of the chart specification and the reading of a
  clicked element.

  \<^bold>\<open>Playground.\<close> \<open>Stream_Controller\<close> (\<open>features/playground/hooks/use-stream-request.ts\<close>,
  \<open>lib/streaming/stream-utils.ts\<close>) is the controller of a streamed answer as the step relation
  \<open>stream_step\<close> over the calls of the page and the events of the connection: each request is called
  back in order and ends at most once, and no source stays open behind the active one.
  \<open>Playground_Messages\<close> (\<open>lib/message\<close>) has messages, think tags and the operations of a conversation;
  \<open>Chat_Handler\<close> (\<open>hooks/use-chat-handler.ts\<close>) sends requests and collects their chunks, with React's
  queue of updaters as part of the state. \<open>Chat_Delivery\<close> composes the three: the text of a stream
  arrives on the page whatever the interleaving, late callbacks are ignored, and two ways of losing
  text are shown. \<open>Playground_Storage\<close> (\<open>lib/storage\<close>) keeps conversations and settings of a user;
  \<open>Storage_Roundtrip\<close> and \<open>Storage_Bounds\<close> prove that they are read back, private and bounded, on top of
  \<open>Js_Stringify\<close>, where the text of a JSON value is shown to be parsed as that value.

  \<^bold>\<open>Conventions.\<close> A thrown error is \<open>Inl\<close>, a null or undefined result is \<open>None\<close>. A JavaScript object
  used as a dictionary is the list of its properties in enumeration order. Mutable state of a module
  is passed along. Code that is not part of the repository is a parameter: \<open>Intl.DateTimeFormat\<close>
  (\<open>intl\<close>), \<open>toLowerCase\<close> and \<open>localeCompare\<close> where the whole of Unicode matters, the translation
  function of the messages, and the answers of the server.

  \<^bold>\<open>Not modelled.\<close> React components and routes (\<open>tsx\<close> files, \<open>routeTree.gen.ts\<close>), and hooks that only
  wire: rendering and event wiring. The Go server: another program, reached over
  HTTP. Translations, themes, layout constants of charts and fixtures: data.
\<close>

end
